(* ===== verification/Prelude.thy ===== *)
theory Prelude
  imports Main "HOL-Library.Word" "HOL-Library.Code_Target_Numeral"
begin

unbundle bit_operations_syntax

text \<open>
  What every component shares: the machine types, the failure values that stand for the
  program's non-local exits, the error monad that the model threads them through, guarded
  reads, and generic lemmas on lists and words.

  Every call of \<open>die\<close>, \<open>die2\<close>, \<open>die_status\<close> and \<open>die2_status\<close> leaves the current function for
  the innermost error frame, so the model of a function that may call one of them returns a
  value of \<open>'a result\<close>, and \<open>bindE\<close> is sequencing. Two further failures never come from the
  program's own tests: \<open>Undefined\<close> is a read outside an array (undefined behaviour in C), and
  \<open>OutOfFuel\<close> is a loop that outran its bound. Both are there to be proved absent.
\<close>

section \<open>Machine types\<close>

type_synonym byte = "8 word"
type_synonym bytes = "byte list"
type_synonym u32 = "32 word"
type_synonym u64 = "64 word"
type_synonym size_t = "64 word"

abbreviation SIZE_MAX :: size_t where
  "SIZE_MAX \<equiv> - 1"

abbreviation INT32_MAX :: nat where
  "INT32_MAX \<equiv> 2147483647"

abbreviation UINT32_MAX :: nat where
  "UINT32_MAX \<equiv> 4294967295"

abbreviation UINT64_MAX :: nat where
  "UINT64_MAX \<equiv> 18446744073709551615"

text \<open>A C string literal as its bytes, without the terminating NUL.\<close>

definition str :: "string \<Rightarrow> bytes" where
  "str s = map of_char s"

lemma str_simps [simp]:
  "str [] = []"
  "str (c # cs) = of_char c # str cs"
  by (simp_all add: str_def)

lemma length_str [simp]: "length (str s) = length s"
  by (simp add: str_def)

section \<open>Failures and the error monad\<close>

text \<open>\<open>jb_status\<close>: the public result codes of \<open>jb.h\<close>.\<close>

datatype jb_status =
    JB_OK
  | JB_ERROR_INVALID_ARGUMENT
  | JB_ERROR_IO
  | JB_ERROR_MODEL
  | JB_ERROR_REQUEST
  | JB_ERROR_OUT_OF_MEMORY
  | JB_ERROR_INTERNAL

datatype failure =
    Die "jb_status option" bytes
  | Undefined
  | OutOfFuel

type_synonym 'a result = "failure + 'a"

text \<open>
  The message is formatted into \<open>jb_error_message\<close>, whose 256 bytes \<open>snprintf\<close> terminates, so
  at most 255 bytes of it are kept. \<open>None\<close> leaves the status the frame was entered with.
\<close>

definition die :: "string \<Rightarrow> 'a result" where
  "die s = Inl (Die None (take 255 (str s)))"

definition die_bytes :: "bytes \<Rightarrow> 'a result" where
  "die_bytes s = Inl (Die None (take 255 s))"

definition die2 :: "string \<Rightarrow> bytes \<Rightarrow> 'a result" where
  "die2 a b = Inl (Die None (take 255 (str a @ str '': '' @ b)))"

definition die_status :: "jb_status \<Rightarrow> string \<Rightarrow> 'a result" where
  "die_status st s = Inl (Die (Some st) (take 255 (str s)))"

definition die2_status :: "jb_status \<Rightarrow> string \<Rightarrow> bytes \<Rightarrow> 'a result" where
  "die2_status st a b = Inl (Die (Some st) (take 255 (str a @ str '': '' @ b)))"

definition bindE :: "'a result \<Rightarrow> ('a \<Rightarrow> 'b result) \<Rightarrow> 'b result" where
  "bindE m k = (case m of Inl e \<Rightarrow> Inl e | Inr v \<Rightarrow> k v)"

lemma bindE_simps [simp]:
  "bindE (Inl e) k = Inl e"
  "bindE (Inr v) k = k v"
  by (simp_all add: bindE_def)

lemma bindE_cong [fundef_cong]:
  "m = m' \<Longrightarrow> (\<And>v. m' = Inr v \<Longrightarrow> k v = k' v) \<Longrightarrow> bindE m k = bindE m' k'"
  by (cases m') simp_all

lemma bindE_Inr_iff: "bindE m k = Inr r \<longleftrightarrow> (\<exists>v. m = Inr v \<and> k v = Inr r)"
  by (cases m) simp_all

lemma bindE_Inl_iff: "bindE m k = Inl e \<longleftrightarrow> m = Inl e \<or> (\<exists>v. m = Inr v \<and> k v = Inl e)"
  by (cases m) simp_all

lemma bindE_InrE:
  assumes "bindE m k = Inr r"
  obtains v where "m = Inr v" and "k v = Inr r"
  using assms by (auto simp: bindE_Inr_iff)

lemma bindE_assoc: "bindE (bindE m k) l = bindE m (\<lambda>v. bindE (k v) l)"
  by (cases m) simp_all

text \<open>Failures that are the program's own: a \<open>die\<close> of some kind.\<close>

definition dies :: "'a result \<Rightarrow> bool" where
  "dies r \<longleftrightarrow> (\<exists>st m. r = Inl (Die st m))"

definition defined :: "'a result \<Rightarrow> bool" where
  "defined r \<longleftrightarrow> r \<noteq> Inl Undefined \<and> r \<noteq> Inl OutOfFuel"

named_theorems die_defs

lemmas [die_defs] = die_def die_bytes_def die2_def die_status_def die2_status_def

lemma die_neq_Inr [simp]:
  "die s \<noteq> Inr v" "die_bytes b \<noteq> Inr v" "die2 s b \<noteq> Inr v"
  "die_status st s \<noteq> Inr v" "die2_status st s b \<noteq> Inr v"
  by (simp_all add: die_defs)

lemma bindE_die [simp]:
  "bindE (die s) k = die s" "bindE (die_bytes b) k = die_bytes b" "bindE (die2 s b) k = die2 s b"
  "bindE (die_status st s) k = die_status st s"
  "bindE (die2_status st s b) k = die2_status st s b"
  by (simp_all add: die_defs)

lemma dies_die [simp]:
  "dies (die s)" "dies (die_bytes b)" "dies (die2 s b)" "dies (die_status st s)"
  "dies (die2_status st s b)"
  by (simp_all add: die_defs dies_def)

lemma defined_simps [simp]:
  "defined (Inr v)" "defined (Inl (Die st m))"
  "\<not> defined (Inl Undefined)" "\<not> defined (Inl OutOfFuel)"
  by (simp_all add: defined_def)

lemma defined_die [simp]:
  "defined (die s)" "defined (die_bytes b)" "defined (die2 s b)" "defined (die_status st s)"
  "defined (die2_status st s b)"
  by (simp_all add: die_defs)

lemma defined_iff: "defined r \<longleftrightarrow> dies r \<or> (\<exists>v. r = Inr v)"
proof (cases r)
  case (Inl e)
  then show ?thesis by (cases e) (simp_all add: defined_def dies_def)
qed simp

lemma defined_bindE [intro]:
  "defined m \<Longrightarrow> (\<And>v. m = Inr v \<Longrightarrow> defined (k v)) \<Longrightarrow> defined (bindE m k)"
  by (cases m) (auto simp: defined_def)

text \<open>
  Total correctness of a call: it stops with one of its own errors, or returns a value with the
  property. \<open>ensures\<close> goes through a sequence from the inside, as a weakest precondition does.
\<close>

definition ensures :: "'a result \<Rightarrow> ('a \<Rightarrow> bool) \<Rightarrow> bool" where
  "ensures r P \<longleftrightarrow> defined r \<and> (\<forall>v. r = Inr v \<longrightarrow> P v)"

lemma ensures_simps [simp]:
  "ensures (Inr v) P \<longleftrightarrow> P v" "ensures (Inl (Die st m)) P"
  "\<not> ensures (Inl Undefined) P" "\<not> ensures (Inl OutOfFuel) P"
  "ensures (die s) P" "ensures (die_bytes b) P" "ensures (die2 s b) P"
  "ensures (die_status code s) P" "ensures (die2_status code s b) P"
  by (simp_all add: ensures_def)

lemma ensures_bindE [simp]: "ensures (bindE m k) P \<longleftrightarrow> ensures m (\<lambda>v. ensures (k v) P)"
  by (cases m) (auto simp: ensures_def defined_def)

lemma ensures_mono: "ensures m P \<Longrightarrow> (\<And>v. m = Inr v \<Longrightarrow> P v \<Longrightarrow> Q v) \<Longrightarrow> ensures m Q"
  by (auto simp: ensures_def)

lemma ensures_True: "ensures m (\<lambda>_. True) \<longleftrightarrow> defined m"
  by (simp add: ensures_def)

lemma ensures_defined: "defined m \<Longrightarrow> (\<And>v. m = Inr v \<Longrightarrow> Q v) \<Longrightarrow> ensures m Q"
  by (simp add: ensures_def)

lemma ensures_if [intro]: "(b \<Longrightarrow> ensures m P) \<Longrightarrow> (\<not> b \<Longrightarrow> ensures n P) \<Longrightarrow> ensures (if b then m else n) P"
  by simp

text \<open>A loop whose rounds may fail, with their results in order.\<close>

fun collect :: "('a \<Rightarrow> 'b result) \<Rightarrow> 'a list \<Rightarrow> 'b list result" where
  "collect f [] = Inr []"
| "collect f (x # xs) = bindE (f x) (\<lambda>y. bindE (collect f xs) (\<lambda>ys. Inr (y # ys)))"

lemma collect_Inr: "collect f xs = Inr ys \<longleftrightarrow> list_all2 (\<lambda>x y. f x = Inr y) xs ys"
  by (induction xs arbitrary: ys) (auto simp: bindE_Inr_iff list_all2_Cons1)

lemma collect_ok:
  "(\<And>x. x \<in> set xs \<Longrightarrow> ensures (f x) (P x)) \<Longrightarrow> ensures (collect f xs) (list_all2 P xs)"
proof (induction xs)
  case (Cons x xs)
  from Cons.prems have "ensures (f x) (P x)" "ensures (collect f xs) (list_all2 P xs)" by (simp_all add: Cons.IH)
  then show ?case by (cases "f x"; cases "collect f xs") (auto simp: ensures_def defined_def)
qed simp

lemma collect_cong [fundef_cong]:
  "xs = ys \<Longrightarrow> (\<And>x. x \<in> set ys \<Longrightarrow> f x = g x) \<Longrightarrow> collect f xs = collect g ys"
proof (induction ys arbitrary: xs)
  case (Cons y ys)
  then show ?case by (simp cong: bindE_cong)
qed simp

lemma collect_append:
  "collect f (xs @ ys) = bindE (collect f xs) (\<lambda>as. bindE (collect f ys) (\<lambda>bs. Inr (as @ bs)))"
  by (induction xs) (simp_all add: bindE_assoc, simp add: bindE_def split: sum.splits)

lemma collect_map: "collect f (map g xs) = collect (f \<circ> g) xs"
  by (induction xs) simp_all

lemma collect_pure: "collect (\<lambda>x. Inr (f x)) xs = Inr (map f xs)"
  by (induction xs) simp_all

section \<open>Guarded reads\<close>

text \<open>Reading outside an array is undefined behaviour, which the model makes a value.\<close>

definition rd :: "'a list \<Rightarrow> nat \<Rightarrow> 'a result" where
  "rd xs i = (if i < length xs then Inr (xs ! i) else Inl Undefined)"

lemma rd_in [simp]: "i < length xs \<Longrightarrow> rd xs i = Inr (xs ! i)"
  by (simp add: rd_def)

lemma rd_Inr_iff [simp]: "rd xs i = Inr x \<longleftrightarrow> i < length xs \<and> x = xs ! i"
  by (auto simp: rd_def)

lemma rd_nth_append [simp]: "rd (xs @ y # ys) (length xs) = Inr y"
  by (simp add: rd_def)

text \<open>Writing, likewise, is guarded.\<close>

definition wr :: "'a list \<Rightarrow> nat \<Rightarrow> 'a \<Rightarrow> 'a list result" where
  "wr xs i x = (if i < length xs then Inr (xs[i := x]) else Inl Undefined)"

lemma wr_in [simp]: "i < length xs \<Longrightarrow> wr xs i x = Inr (xs[i := x])"
  by (simp add: wr_def)

lemma wr_Inr_iff [simp]: "wr xs i x = Inr ys \<longleftrightarrow> i < length xs \<and> ys = xs[i := x]"
  by (auto simp: wr_def)

text \<open>A condition of several calls joined by \<open>&&\<close>: the first that is false ends it.\<close>

fun every :: "bool result list \<Rightarrow> bool result" where
  "every [] = Inr True"
| "every (c # cs) = bindE c (\<lambda>b. if b then every cs else Inr False)"

lemma every_True: "every cs = Inr True \<longleftrightarrow> (\<forall>c \<in> set cs. c = Inr True)"
  by (induction cs) (auto simp: bindE_Inr_iff)

text \<open>The bytes \<open>[a, b)\<close> of a buffer, as \<open>memcpy\<close> and \<open>memcmp\<close> see them.\<close>

definition span_of :: "'a list \<Rightarrow> nat \<Rightarrow> nat \<Rightarrow> 'a list" where
  "span_of xs a b = take (b - a) (drop a xs)"

lemma length_span_of [simp]: "b \<le> length xs \<Longrightarrow> length (span_of xs a b) = b - a"
  by (simp add: span_of_def)

lemma span_of_append_mid [simp]:
  "span_of (xs @ ys @ zs) (length xs) (length xs + length ys) = ys"
  by (simp add: span_of_def)

lemma span_of_self [simp]: "span_of xs a a = []"
  by (simp add: span_of_def)

lemma span_of_Cons:
  "a < b \<Longrightarrow> b \<le> length xs \<Longrightarrow> span_of xs a b = xs ! a # span_of xs (Suc a) b"
  by (simp add: span_of_def Cons_nth_drop_Suc [symmetric] Suc_diff_Suc [symmetric])

lemma span_of_split:
  "a \<le> b \<Longrightarrow> b \<le> c \<Longrightarrow> span_of xs a c = span_of xs a b @ span_of xs b c"
proof -
  assume "a \<le> b" "b \<le> c"
  then obtain k m where "b = a + k" "c = a + k + m"
    by (metis le_Suc_ex)
  then show ?thesis
    by (simp add: span_of_def take_add add.commute [of a])
qed

section \<open>Words\<close>

lemma nat_less_2_power [simp]: "unat (x :: size_t) < 18446744073709551616"
  using unsigned_less [of x] by simp

lemma unat_SIZE_MAX: "unat SIZE_MAX = 18446744073709551615"
  by (simp add: unsigned_minus_1_eq_mask mask_eq_exp_minus_1)

text \<open>Bit fields as arithmetic on natural numbers.\<close>

lemma nat_or_disjoint: "b < 2 ^ k \<Longrightarrow> (2 ^ k * a) OR b = 2 ^ k * a + (b :: nat)"
proof -
  assume b: "b < 2 ^ k"
  have "push_bit k a AND b = 0"
  proof (rule bit_eqI)
    fix n
    have "take_bit k b = b" using b by (simp add: take_bit_nat_eq_self)
    then have "bit b n \<Longrightarrow> n < k" by (metis bit_take_bit_iff)
    then show "bit (push_bit k a AND b) n = bit (0::nat) n"
      by (auto simp: bit_simps)
  qed
  then show ?thesis
    by (simp add: disjunctive_add_eq_or push_bit_eq_mult mult.commute)
qed

lemma nat_and_field: "a AND (2 ^ k * (2 ^ m - 1)) = 2 ^ k * (a div 2 ^ k mod 2 ^ m :: nat)"
proof -
  have "a AND push_bit k (mask m) = push_bit k (take_bit m (drop_bit k a))"
    by (rule bit_eqI) (auto simp: bit_simps)
  then show ?thesis
    by (simp add: push_bit_eq_mult mask_eq_exp_minus_1 take_bit_eq_mod drop_bit_eq_div mult.commute)
qed

lemma nat_and_low: "a AND (2 ^ m - 1) = (a mod 2 ^ m :: nat)"
  using nat_and_field [of a 0 m] by simp

lemma unat_drop_bit: "unat (drop_bit k (w :: 'a::len word)) = unat w div 2 ^ k"
  by (simp add: unat_drop_bit_eq flip: drop_bit_eq_div)

lemma unat_ucast_8_32 [simp]: "unat (ucast (b :: 8 word) :: 32 word) = unat b"
  by (simp add: unsigned_ucast_eq take_bit_nat_eq_self order_less_trans [OF unsigned_less [of b]])
lemma unat_ucast_32_8 [simp]: "unat (ucast (c :: 32 word) :: 8 word) = unat c mod 256"
  by (simp add: unsigned_ucast_eq take_bit_eq_mod)

lemma unat_of_nat_u32: "x < 4294967296 \<Longrightarrow> unat (of_nat x :: u32) = x"
  by (simp add: unsigned_of_nat take_bit_nat_eq_self)

end
