(* ===== verification/AllocProofs.thy ===== *)
theory AllocProofs
  imports Alloc
begin

text \<open>
  The tracked list as a list of addresses, and what the operations of \<open>Alloc\<close> do to it.
\<close>

section \<open>The linked list\<close>

definition hd_opt :: "nat list \<Rightarrow> nat option \<Rightarrow> nat option" where
  "hd_opt xs nxt = (case xs of [] \<Rightarrow> nxt | a # _ \<Rightarrow> Some a)"

definition last_opt :: "nat option \<Rightarrow> nat list \<Rightarrow> nat option" where
  "last_opt prev xs = (if xs = [] then prev else Some (last xs))"

lemma hd_opt_simps [simp]: "hd_opt [] n = n" "hd_opt (a # xs) n = Some a"
  by (simp_all add: hd_opt_def)

lemma last_opt_simps [simp]: "last_opt p [] = p" "last_opt p (xs @ [a]) = Some a"
  "last_opt p (a # xs) = last_opt (Some a) xs"
  by (simp_all add: last_opt_def)

fun seg :: "(nat \<Rightarrow> JBAllocation option) \<Rightarrow> nat option \<Rightarrow> nat list \<Rightarrow> nat option \<Rightarrow> bool" where
  "seg h prev [] nxt \<longleftrightarrow> True"
| "seg h prev (a # xs) nxt \<longleftrightarrow>
     (\<exists>x. h a = Some x \<and> al_previous x = prev \<and> al_next x = hd_opt xs nxt) \<and> seg h (Some a) xs nxt"

lemma hd_opt_append: "hd_opt (xs @ ys) n = hd_opt xs (hd_opt ys n)"
  by (cases xs) simp_all

lemma seg_append: "seg h p (xs @ ys) n \<longleftrightarrow> seg h p xs (hd_opt ys n) \<and> seg h (last_opt p xs) ys n"
  by (induction xs arbitrary: p) (auto simp: hd_opt_append)

lemma seg_other [simp]: "a \<notin> set xs \<Longrightarrow> seg (h(a := v)) p xs n = seg h p xs n"
  by (induction xs arbitrary: p) auto

lemma seg_in: "seg h p xs n \<Longrightarrow> a \<in> set xs \<Longrightarrow> \<exists>x. h a = Some x"
  by (induction xs arbitrary: p) auto

text \<open>What link operations leave alone.\<close>

definition core :: "JBAllocation \<Rightarrow> nat \<times> nat \<times> nat \<times> bool" where
  "core x = (al_allocator x, al_size x, al_sequence x, al_tracked x)"

definition cores :: "(nat \<Rightarrow> JBAllocation option) \<Rightarrow> nat \<Rightarrow> (nat \<times> nat \<times> nat \<times> bool) option" where
  "cores h a = map_option core (h a)"

lemma core_links [simp]: "core (x\<lparr>al_previous := p\<rparr>) = core x" "core (x\<lparr>al_next := q\<rparr>) = core x"
  by (simp_all add: core_def)

lemma cores_upd [simp]: "cores (h(a := v)) = (cores h)(a := map_option core v)"
  by (auto simp: cores_def)

lemma cores_same: "h a = Some x \<Longrightarrow> (cores h)(a \<mapsto> core x) = cores h"
  by (auto simp: cores_def)

definition links :: "rt \<Rightarrow> nat list \<Rightarrow> bool" where
  "links st xs \<longleftrightarrow> seg (rt_heap st) None xs None \<and> rt_tracked st = hd_opt xs None \<and> distinct xs"

text \<open>Only the store and the head of the list may differ.\<close>

definition relinked :: "rt \<Rightarrow> rt \<Rightarrow> bool" where
  "relinked st st' \<longleftrightarrow> cores (rt_heap st') = cores (rt_heap st) \<and>
     st' = st\<lparr>rt_heap := rt_heap st', rt_tracked := rt_tracked st'\<rparr>"

lemma seg_set_last:
  "seg h p (xs @ [a]) n \<Longrightarrow> h a = Some x \<Longrightarrow> distinct (xs @ [a]) \<Longrightarrow>
     seg (h(a \<mapsto> x\<lparr>al_next := m\<rparr>)) p (xs @ [a]) m"
  by (auto simp: seg_append)

lemma seg_set_first:
  "seg h p (a # xs) n \<Longrightarrow> h a = Some x \<Longrightarrow> distinct (a # xs) \<Longrightarrow>
     seg (h(a \<mapsto> x\<lparr>al_previous := q\<rparr>)) q (a # xs) n"
  by auto

lemma seq_simps [simp]:
  "seq (ret v) k = k v"
  by (simp add: seq_def ret_def)

lemma seq_step: "m st = (Inr v, st') \<Longrightarrow> seq m k st = k v st'"
  by (simp add: seq_def)

lemma seq_fail: "m st = (Inl e, st') \<Longrightarrow> seq m k st = (Inl e, st')"
  by (simp add: seq_def)

lemma header_Some: "rt_heap st a = Some x \<Longrightarrow> header a st = (Inr x, st)"
  by (simp add: header_def)

lemma store_Some: "rt_heap st a = Some x \<Longrightarrow> store a f st = (Inr (), st\<lparr>rt_heap := (rt_heap st)(a \<mapsto> f x)\<rparr>)"
  by (simp add: store_def)

lemma jb_link_ok:
  assumes "links st xs" "a \<notin> set xs" "rt_heap st a = Some x"
  shows "\<exists>st'. jb_link a st = (Inr (), st') \<and> links st' (a # xs) \<and> relinked st st'"
proof -
  let ?x = "x\<lparr>al_previous := None, al_next := rt_tracked st\<rparr>"
  let ?h = "(rt_heap st)(a \<mapsto> ?x)"
  have sa: "store a (\<lambda>x. x\<lparr>al_previous := None, al_next := rt_tracked st\<rparr>) st = (Inr (), st\<lparr>rt_heap := ?h\<rparr>)"
    by (rule store_Some [OF assms(3)])
  have ca: "cores ?h = cores (rt_heap st)" using cores_same [of "rt_heap st" a x] assms(3) by simp
  have sg: "seg ?h None xs None" using assms(1,2) by (simp add: links_def)
  show ?thesis
  proof (cases xs)
    case Nil
    then have t: "rt_tracked st = None" using assms(1) by (simp add: links_def)
    then show ?thesis using Nil ca
      by (intro exI [of _ "st\<lparr>rt_heap := ?h, rt_tracked := Some a\<rparr>"])
        (simp add: jb_link_def seq_def sa [unfolded t] t ret_def modify_def links_def relinked_def)
  next
    case (Cons b ys)
    then obtain y where y: "rt_heap st b = Some y" "al_next y = hd_opt ys None" and ab: "a \<noteq> b"
      and t: "rt_tracked st = Some b"
      using assms(1,2) by (auto simp: links_def)
    let ?h' = "?h(b \<mapsto> y\<lparr>al_previous := Some a\<rparr>)"
    have sb: "store b (\<lambda>x. x\<lparr>al_previous := Some a\<rparr>) (st\<lparr>rt_heap := ?h\<rparr>) = (Inr (), st\<lparr>rt_heap := ?h'\<rparr>)"
      using store_Some [of "st\<lparr>rt_heap := ?h\<rparr>" b y] y ab by simp
    have cb: "cores ?h' = cores (rt_heap st)"
      using cores_same [of ?h b y] y ab ca by simp
    have "seg ?h' (Some a) (b # ys) None"
      using seg_set_first [of ?h None b ys None y "Some a"] sg y ab assms(1) Cons by (simp add: links_def)
    then have "seg ?h' None (a # b # ys) None" using t ab by simp
    then show ?thesis using Cons cb t assms(1,2)
      by (intro exI [of _ "st\<lparr>rt_heap := ?h', rt_tracked := Some a\<rparr>"])
        (simp add: jb_link_def seq_def sa [unfolded t] sb [unfolded t] t modify_def links_def relinked_def)
  qed
qed

lemma jb_unlink_ok:
  assumes "links st xs" "a \<in> set xs"
  shows "\<exists>st'. jb_unlink a st = (Inr (), st') \<and> links st' (remove1 a xs) \<and> relinked st st'"
proof -
  obtain ys zs where xs: "xs = ys @ a # zs" and na: "a \<notin> set ys" using assms(2) by (metis split_list_first)
  have d: "distinct xs" using assms(1) by (simp add: links_def)
  have rm: "remove1 a xs = ys @ zs" using xs na by (simp add: remove1_append)
  obtain x where x: "rt_heap st a = Some x" "al_previous x = last_opt None ys" "al_next x = hd_opt zs None"
    and sy: "seg (rt_heap st) None ys (Some a)" and sz: "seg (rt_heap st) (Some a) zs None"
    using assms(1) xs by (auto simp: links_def seg_append)
  have tr: "rt_tracked st = hd_opt ys (Some a)" using assms(1) xs by (simp add: links_def hd_opt_append)
  text \<open>First the pointer to \<open>a\<close>, then the pointer back.\<close>
  obtain s1 where s1: "(case al_previous x of
            Some p \<Rightarrow> store p (\<lambda>y. y\<lparr>al_next := al_next x\<rparr>)
          | None \<Rightarrow> modify (\<lambda>st. st\<lparr>rt_tracked := al_next x\<rparr>)) st = (Inr (), s1)"
    and r1: "relinked st s1" and t1: "rt_tracked s1 = hd_opt (ys @ zs) None"
    and y1: "seg (rt_heap s1) None ys (hd_opt zs None)" and z1: "\<forall>b. b \<notin> set ys \<longrightarrow> rt_heap s1 b = rt_heap st b"
  proof (cases "ys = []")
    case True
    show ?thesis
      by (rule that [of "st\<lparr>rt_tracked := al_next x\<rparr>"])
        (use True x in \<open>simp_all add: modify_def relinked_def\<close>)
  next
    case False
    then obtain us p where ys: "ys = us @ [p]" by (metis append_butlast_last_id)
    obtain y where y: "rt_heap st p = Some y" using sy ys by (auto simp: seg_append)
    let ?h = "(rt_heap st)(p \<mapsto> y\<lparr>al_next := al_next x\<rparr>)"
    have s: "seg ?h None ys (al_next x)"
      using seg_set_last [of "rt_heap st" None us p "Some a" y "al_next x"] sy y ys d xs by simp
    show ?thesis
    proof (rule that [of "st\<lparr>rt_heap := ?h\<rparr>"])
      show "(case al_previous x of Some p \<Rightarrow> store p (\<lambda>y. y\<lparr>al_next := al_next x\<rparr>)
          | None \<Rightarrow> modify (\<lambda>st. st\<lparr>rt_tracked := al_next x\<rparr>)) st = (Inr (), st\<lparr>rt_heap := ?h\<rparr>)"
        using x ys store_Some [OF y] by simp
      show "relinked st (st\<lparr>rt_heap := ?h\<rparr>)" using cores_same [of "rt_heap st" p y] y by (simp add: relinked_def)
      show "rt_tracked (st\<lparr>rt_heap := ?h\<rparr>) = hd_opt (ys @ zs) None"
        using tr ys by (cases us) simp_all
      show "seg (rt_heap (st\<lparr>rt_heap := ?h\<rparr>)) None ys (hd_opt zs None)" using s x by simp
    qed (use ys in auto)
  qed
  have xa: "rt_heap s1 a = Some x" using z1 na x by simp
  have zz: "seg (rt_heap s1) (Some a) zs None"
  proof -
    have "\<forall>b \<in> set zs. rt_heap s1 b = rt_heap st b" using z1 d xs by auto
    then have "seg (rt_heap s1) p zs n = seg (rt_heap st) p zs n" for p n
      by (induction zs arbitrary: p) auto
    with sz show ?thesis by simp
  qed
  obtain s2 where s2: "(case al_next x of Some n \<Rightarrow> store n (\<lambda>y. y\<lparr>al_previous := al_previous x\<rparr>)
       | None \<Rightarrow> ret ()) s1 = (Inr (), s2)" and r2: "relinked s1 s2" and l2: "links s2 (ys @ zs)"
  proof (cases zs)
    case Nil
    show ?thesis
      by (rule that [of s1]) (use Nil x t1 y1 d xs in \<open>simp_all add: ret_def relinked_def links_def\<close>)
  next
    case (Cons b ws)
    then obtain y where y: "rt_heap s1 b = Some y" using zz by auto
    let ?h = "(rt_heap s1)(b \<mapsto> y\<lparr>al_previous := al_previous x\<rparr>)"
    have s: "seg ?h (al_previous x) (b # ws) None"
      using seg_set_first [of "rt_heap s1" "Some a" b ws None y "al_previous x"] zz y Cons d xs by simp
    have nb: "b \<notin> set ys" using d xs Cons by auto
    show ?thesis
    proof (rule that [of "s1\<lparr>rt_heap := ?h\<rparr>"])
      show "(case al_next x of Some n \<Rightarrow> store n (\<lambda>y. y\<lparr>al_previous := al_previous x\<rparr>)
        | None \<Rightarrow> ret ()) s1 = (Inr (), s1\<lparr>rt_heap := ?h\<rparr>)"
        using x Cons store_Some [OF y] by simp
      show "relinked s1 (s1\<lparr>rt_heap := ?h\<rparr>)" using cores_same [of "rt_heap s1" b y] y by (simp add: relinked_def)
      show "links (s1\<lparr>rt_heap := ?h\<rparr>) (ys @ zs)"
        using s x nb y1 t1 d xs Cons by (simp add: links_def seg_append)
    qed
  qed
  have "jb_unlink a st = (Inr (), s2)"
    unfolding jb_unlink_def using s2
    by (simp add: seq_def header_Some [OF x(1)] s1 header_Some [OF xa])
  moreover have "relinked st s2" using r1 r2 unfolding relinked_def
    by (metis (no_types, lifting) rt.surjective rt.update_convs(1,2) rt.select_convs)
  ultimately show ?thesis using l2 rm by auto
qed

section \<open>Ownership\<close>

text \<open>The tracked list is \<open>xs\<close>, and the blocks on it are exactly those marked as tracked.\<close>

definition owns :: "rt \<Rightarrow> nat list \<Rightarrow> bool" where
  "owns st xs \<longleftrightarrow> links st xs \<and> (\<forall>a x. rt_heap st a = Some x \<longrightarrow> (al_tracked x \<longleftrightarrow> a \<in> set xs))"

lemma cores_Some: "cores h' = cores h \<Longrightarrow> h a = Some x \<Longrightarrow> \<exists>y. h' a = Some y \<and> core y = core x"
  unfolding cores_def by (metis map_option_eq_Some option.map(2))

lemma cores_None: "cores h' = cores h \<Longrightarrow> h a = None \<Longrightarrow> h' a = None"
  unfolding cores_def by (metis map_option_is_None)

lemma links_drop: "links st xs \<Longrightarrow> a \<notin> set xs \<Longrightarrow> links (st\<lparr>rt_heap := (rt_heap st)(a := v)\<rparr>) xs"
  by (simp add: links_def)

text \<open>Unlinking and releasing one block of the list.\<close>

lemma unlink_release:
  assumes "links st xs" "a \<in> set xs" "rt_heap st a = Some x"
  shows "\<exists>st'. seq (jb_unlink a) (\<lambda>_. release_block a) st = (Inr (), st') \<and> links st' (remove1 a xs) \<and>
    cores (rt_heap st') = (cores (rt_heap st))(a := None) \<and>
    st' = st\<lparr>rt_heap := rt_heap st', rt_tracked := rt_tracked st',
              rt_released := rt_released st @ [(al_allocator x, a)]\<rparr>"
proof -
  from jb_unlink_ok [OF assms(1,2)] obtain s1 where
    s1: "jb_unlink a st = (Inr (), s1)" "links s1 (remove1 a xs)" "relinked st s1" by blast
  obtain y where y: "rt_heap s1 a = Some y" "core y = core x"
    using cores_Some [of "rt_heap s1" "rt_heap st" a x] s1(3) assms(3) by (auto simp: relinked_def)
  have al: "al_allocator y = al_allocator x" using y(2) by (simp add: core_def)
  have rel: "rt_released s1 = rt_released st"
    using s1(3) unfolding relinked_def by (metis (no_types) rt.select_convs(9) rt.surjective rt.update_convs(1,2))
  let ?s2 = "s1\<lparr>rt_heap := (rt_heap s1)(a := None), rt_released := rt_released s1 @ [(al_allocator y, a)]\<rparr>"
  have r: "release_block a s1 = (Inr (), ?s2)"
    by (simp add: release_block_def seq_def header_Some [OF y(1)] modify_def)
  have d: "distinct xs" using assms(1) by (simp add: links_def)
  have "links ?s2 (remove1 a xs)"
    using s1(2) d by (simp add: links_def)
  moreover have "cores (rt_heap ?s2) = (cores (rt_heap st))(a := None)"
    using s1(3) by (simp add: relinked_def)
  moreover have "?s2 = st\<lparr>rt_heap := rt_heap ?s2, rt_tracked := rt_tracked ?s2,
              rt_released := rt_released st @ [(al_allocator x, a)]\<rparr>"
    using s1(3) rel al unfolding relinked_def by (cases s1; cases st) simp
  ultimately show ?thesis using s1(1) r
    by (intro exI [of _ ?s2]) (simp add: seq_def)
qed

text \<open>The sweep over the list releases the newer blocks and keeps the older ones, in order.\<close>

definition block_seq :: "rt \<Rightarrow> nat \<Rightarrow> nat" where
  "block_seq st a = (case rt_heap st a of None \<Rightarrow> 0 | Some x \<Rightarrow> al_sequence x)"

lemma block_seq_cores: "cores (rt_heap st') b = cores (rt_heap st) b \<Longrightarrow> block_seq st' b = block_seq st b"
  unfolding block_seq_def cores_def core_def
  by (cases "rt_heap st b"; cases "rt_heap st' b") simp_all

lemma release_newer:
  "links st (ys @ zs) \<Longrightarrow> length zs \<le> n \<Longrightarrow>
     \<exists>st' rs. jb_release_newer n mark (hd_opt zs None) st = (Inr (), st') \<and>
       links st' (ys @ filter (\<lambda>a. block_seq st a \<le> mark) zs) \<and>
       cores (rt_heap st') = (\<lambda>a. if a \<in> set zs \<and> mark < block_seq st a then None else cores (rt_heap st) a) \<and>
       st' = st\<lparr>rt_heap := rt_heap st', rt_tracked := rt_tracked st', rt_released := rs\<rparr>"
proof (induction zs arbitrary: st ys n)
  case Nil
  then show ?case by (intro exI [of _ st] exI [of _ "rt_released st"]) (cases n; simp)
next
  case (Cons a zs)
  then obtain m where n: "n = Suc m" "length zs \<le> m" by (cases n) auto
  have l: "links st (ys @ a # zs)" by fact
  then obtain x where x: "rt_heap st a = Some x" "al_next x = hd_opt zs None"
    by (auto simp: links_def seg_append)
  have sq: "al_sequence x = block_seq st a" using x(1) by (simp add: block_seq_def)
  have step: "jb_release_newer n mark (hd_opt (a # zs) None) st =
      seq (if mark < block_seq st a then seq (jb_unlink a) (\<lambda>_. release_block a) else ret ())
        (\<lambda>_. jb_release_newer m mark (hd_opt zs None)) st"
    by (simp add: n(1) seq_def header_Some [OF x(1)] sq flip: x(2))
  have d: "distinct (ys @ a # zs)" using l by (simp add: links_def)
  show ?case
  proof (cases "mark < block_seq st a")
    case True
    from unlink_release [OF l _ x(1)] obtain s1 where
      s1: "seq (jb_unlink a) (\<lambda>_. release_block a) st = (Inr (), s1)" "links s1 (remove1 a (ys @ a # zs))"
        "cores (rt_heap s1) = (cores (rt_heap st))(a := None)"
        "s1 = st\<lparr>rt_heap := rt_heap s1, rt_tracked := rt_tracked s1,
              rt_released := rt_released st @ [(al_allocator x, a)]\<rparr>" by auto
    have rm: "remove1 a (ys @ a # zs) = ys @ zs" using d by (simp add: remove1_append)
    have same: "block_seq s1 b = block_seq st b" if "b \<noteq> a" for b
      by (rule block_seq_cores) (simp add: s1(3) that)
    from Cons.IH [of s1 ys m] s1(2) n(2) obtain st' rs where
      st': "jb_release_newer m mark (hd_opt zs None) s1 = (Inr (), st')"
        "links st' (ys @ filter (\<lambda>a. block_seq s1 a \<le> mark) zs)"
        "cores (rt_heap st') = (\<lambda>a. if a \<in> set zs \<and> mark < block_seq s1 a then None else cores (rt_heap s1) a)"
        "st' = s1\<lparr>rt_heap := rt_heap st', rt_tracked := rt_tracked st', rt_released := rs\<rparr>"
      unfolding rm by blast
    have "filter (\<lambda>a. block_seq s1 a \<le> mark) zs = filter (\<lambda>a. block_seq st a \<le> mark) (a # zs)"
    proof -
      have "block_seq s1 b = block_seq st b" if "b \<in> set zs" for b
        by (rule same) (use d that in auto)
      then show ?thesis using True by (simp cong: filter_cong)
    qed
    moreover have "cores (rt_heap st') = (\<lambda>b. if b \<in> set (a # zs) \<and> mark < block_seq st b then None else cores (rt_heap st) b)"
      using st'(3) s1(3) same True d by (auto simp: fun_eq_iff)
    moreover have "st' = st\<lparr>rt_heap := rt_heap st', rt_tracked := rt_tracked st', rt_released := rs\<rparr>"
      using st'(4) s1(4) by (cases s1; cases st) simp
    ultimately show ?thesis using step True s1(1) st'(1,2) by (intro exI [of _ st']) (auto simp: seq_def)
  next
    case False
    have e: "ys @ a # zs = (ys @ [a]) @ zs" by simp
    from Cons.IH [OF l [unfolded e] n(2)] obtain st' rs where
      st': "jb_release_newer m mark (hd_opt zs None) st = (Inr (), st')"
        "links st' ((ys @ [a]) @ filter (\<lambda>a. block_seq st a \<le> mark) zs)"
        "cores (rt_heap st') = (\<lambda>a. if a \<in> set zs \<and> mark < block_seq st a then None else cores (rt_heap st) a)"
        "st' = st\<lparr>rt_heap := rt_heap st', rt_tracked := rt_tracked st', rt_released := rs\<rparr>"
      by blast
    have "cores (rt_heap st') = (\<lambda>b. if b \<in> set (a # zs) \<and> mark < block_seq st b then None else cores (rt_heap st) b)"
      using st'(3) False by (auto simp: fun_eq_iff)
    with st' step False show ?thesis by (intro exI [of _ st'] exI [of _ rs]) simp
  qed
qed

section \<open>The end of a frame\<close>

lemma rt_swap: "s\<lparr>rt_tracked := t, rt_heap := h\<rparr> = s\<lparr>rt_heap := h, rt_tracked := t\<rparr>"
  by (cases s) simp

lemma untrack_all:
  "links st xs \<Longrightarrow> length xs \<le> n \<Longrightarrow>
     \<exists>st'. jb_untrack_all n st = (Inr (), st') \<and> rt_tracked st' = None \<and>
       (\<forall>a. a \<notin> set xs \<longrightarrow> rt_heap st' a = rt_heap st a) \<and>
       (\<forall>a \<in> set xs. \<exists>x. rt_heap st a = Some x \<and>
          rt_heap st' a = Some (x\<lparr>al_tracked := False, al_previous := None, al_next := None\<rparr>)) \<and>
       st' = st\<lparr>rt_heap := rt_heap st', rt_tracked := None\<rparr>"
proof (induction xs arbitrary: st n)
  case Nil
  then have "rt_tracked st = None" by (simp add: links_def)
  then show ?case by (intro exI [of _ st]) (cases n; simp)
next
  case (Cons a xs)
  have gen: "\<exists>st'. jb_untrack_all n st = (Inr (), st') \<and> rt_tracked st' = None \<and>
       (\<forall>a. a \<notin> set xs \<longrightarrow> rt_heap st' a = rt_heap st a) \<and>
       (\<forall>a \<in> set xs. \<exists>x. rt_heap st a = Some x \<and>
          rt_heap st' a = Some (x\<lparr>al_tracked := False, al_previous := None, al_next := None\<rparr>)) \<and>
       st' = st\<lparr>rt_heap := rt_heap st', rt_tracked := None\<rparr>"
    if "seg (rt_heap st) p xs None" "rt_tracked st = hd_opt xs None" "distinct xs" "length xs \<le> n" for st p xs n
    using that
  proof (induction xs arbitrary: st p n)
    case Nil
    then show ?case by (intro exI [of _ st]) (cases n; simp)
  next
    case (Cons a xs)
    then obtain m where n: "n = Suc m" "length xs \<le> m" by (cases n) auto
    obtain x where x: "rt_heap st a = Some x" "al_next x = hd_opt xs None" "seg (rt_heap st) (Some a) xs None"
      using Cons.prems(1) by auto
    let ?x = "x\<lparr>al_tracked := False, al_previous := None, al_next := None\<rparr>"
    let ?s = "st\<lparr>rt_heap := (rt_heap st)(a \<mapsto> ?x), rt_tracked := hd_opt xs None\<rparr>"
    have step: "jb_untrack_all n st = jb_untrack_all m ?s"
      using Cons.prems(2) x by (simp add: n(1) seq_def header_Some [OF x(1)] modify_def store_def rt_swap)
    have "seg (rt_heap ?s) (Some a) xs None" using x(3) Cons.prems(3) by simp
    moreover have "rt_tracked ?s = hd_opt xs None" "distinct xs" using Cons.prems(3) by simp_all
    ultimately obtain st' where
      st': "jb_untrack_all m ?s = (Inr (), st')" "rt_tracked st' = None"
        "\<forall>b. b \<notin> set xs \<longrightarrow> rt_heap st' b = rt_heap ?s b"
        "\<forall>b \<in> set xs. \<exists>x. rt_heap ?s b = Some x \<and>
          rt_heap st' b = Some (x\<lparr>al_tracked := False, al_previous := None, al_next := None\<rparr>)"
        "st' = ?s\<lparr>rt_heap := rt_heap st', rt_tracked := None\<rparr>"
      using Cons.IH [of ?s "Some a" m] n(2) by blast
    have "\<exists>x. rt_heap st b = Some x \<and>
          rt_heap st' b = Some (x\<lparr>al_tracked := False, al_previous := None, al_next := None\<rparr>)" if "b \<in> set (a # xs)" for b
    proof (cases "b = a")
      case True
      then show ?thesis using st'(3) x(1) Cons.prems(3) by simp
    next
      case False
      with that st'(4) show ?thesis by auto
    qed
    then have "\<forall>b \<in> set (a # xs). \<exists>x. rt_heap st b = Some x \<and>
          rt_heap st' b = Some (x\<lparr>al_tracked := False, al_previous := None, al_next := None\<rparr>)" by blast
    moreover have "\<forall>b. b \<notin> set (a # xs) \<longrightarrow> rt_heap st' b = rt_heap st b" using st'(3) by auto
    moreover have "st' = st\<lparr>rt_heap := rt_heap st', rt_tracked := None\<rparr>" using st'(5) by simp
    ultimately show ?case using step st'(1,2) by auto
  qed
  show ?case using Cons.prems by (intro gen [of st None]) (simp_all add: links_def)
qed

text \<open>
  The cleanups armed since the frame was entered, latest first. A cleanup function is one of the
  library's destructors: it does not touch the cleanup stack.
\<close>

lemma cleanup_run:
  assumes frame: "\<And>c s cs. call c (s\<lparr>rt_cleanups := cs\<rparr>) = (call c s)\<lparr>rt_cleanups := cs\<rparr>"
  shows "rt_cleanups st = old @ armed \<Longrightarrow> length armed \<le> n \<Longrightarrow>
     jb_cleanup_run call (length old) n st = (Inr (), fold call (rev armed) (st\<lparr>rt_cleanups := old\<rparr>))"
proof (induction armed arbitrary: st n rule: rev_induct)
  case Nil
  then have "st\<lparr>rt_cleanups := old\<rparr> = st" by (cases st) simp
  with Nil show ?case by (cases n) simp_all
next
  case (snoc c armed)
  then obtain m where n: "n = Suc m" "length armed \<le> m" by (cases n) auto
  have "jb_cleanup_run call (length old) n st =
      jb_cleanup_run call (length old) m (call c (st\<lparr>rt_cleanups := old @ armed\<rparr>))"
    using snoc.prems by (simp add: n(1) butlast_append)
  also have "\<dots> = (Inr (), fold call (rev armed) ((call c (st\<lparr>rt_cleanups := old @ armed\<rparr>))\<lparr>rt_cleanups := old\<rparr>))"
    by (rule snoc.IH) (simp_all add: frame n(2))
  finally show ?case by (simp add: frame [symmetric])
qed

section \<open>A failed call\<close>

lemma relinked_fields:
  assumes "s' = s\<lparr>rt_heap := h, rt_tracked := t, rt_released := r\<rparr>"
  shows "rt_frames s' = rt_frames s" "rt_cleanups s' = rt_cleanups s" "rt_status s' = rt_status s"
    "rt_sequence s' = rt_sequence s"
  using assms by simp_all

lemma core_eqD: "core y = core x \<Longrightarrow> al_size y = al_size x \<and> al_allocator y = al_allocator x \<and>
    al_sequence y = al_sequence x \<and> al_tracked y = al_tracked x"
  by (simp add: core_def)

text \<open>What \<open>jb_frame_abandon\<close> leaves of a state \<open>s\<close> that owns \<open>xs\<close>, cleanups having run.\<close>

lemma sweep_and_leave:
  assumes o: "owns s xs" and fr: "rt_frames s = fr # frs" and cl: "length (rt_cleanups s) = fr_cleanup_mark fr"
    and n: "length xs \<le> n"
  shows "\<exists>s'. seq (jb_release_newer n (fr_mark fr) (rt_tracked s)) (\<lambda>_. jb_frame_leave n (length (rt_frames s))) s = (Inr (), s') \<and>
    rt_frames s' = frs \<and> rt_status s' = fr_previous_status fr \<and> rt_cleanups s' = rt_cleanups s \<and>
    (\<forall>a x. rt_heap s' a = Some x \<longrightarrow> (\<exists>y. rt_heap s a = Some y \<and> (al_tracked y \<longrightarrow> al_sequence y \<le> fr_mark fr))) \<and>
    (\<forall>a y. rt_heap s a = Some y \<longrightarrow> \<not> al_tracked y \<or> al_sequence y \<le> fr_mark fr \<longrightarrow>
      (\<exists>x. rt_heap s' a = Some x \<and> al_size x = al_size y \<and> al_allocator x = al_allocator y \<and> al_sequence x = al_sequence y)) \<and>
    (if frs = [] then rt_tracked s' = None \<and> owns s' []
     else owns s' (filter (\<lambda>a. block_seq s a \<le> fr_mark fr) xs))"
proof -
  let ?m = "fr_mark fr"
  have l: "links s xs" and flags: "\<And>a x. rt_heap s a = Some x \<Longrightarrow> al_tracked x \<longleftrightarrow> a \<in> set xs"
    using o by (auto simp: owns_def)
  have tr: "rt_tracked s = hd_opt xs None" using l by (simp add: links_def)
  from release_newer [of s "[]" xs n ?m] l n obtain s1 rs where
    s1: "jb_release_newer n ?m (hd_opt xs None) s = (Inr (), s1)"
      "links s1 (filter (\<lambda>a. block_seq s a \<le> ?m) xs)"
      "cores (rt_heap s1) = (\<lambda>a. if a \<in> set xs \<and> ?m < block_seq s a then None else cores (rt_heap s) a)"
      "s1 = s\<lparr>rt_heap := rt_heap s1, rt_tracked := rt_tracked s1, rt_released := rs\<rparr>" by auto
  note f1 = relinked_fields [OF s1(4)]
  let ?ys = "filter (\<lambda>a. block_seq s a \<le> ?m) xs"
  have keep: "\<exists>y. rt_heap s a = Some y \<and> core x = core y \<and> (al_tracked y \<longrightarrow> al_sequence y \<le> ?m)"
    if x: "rt_heap s1 a = Some x" for a x
  proof -
    have c: "cores (rt_heap s1) a = Some (core x)" using x by (simp add: cores_def)
    then have "\<not> (a \<in> set xs \<and> ?m < block_seq s a)" and c2: "cores (rt_heap s) a = Some (core x)"
      using s1(3) by (auto split: if_splits)
    then obtain y where y: "rt_heap s a = Some y" "core x = core y" by (auto simp: cores_def)
    with \<open>\<not> (a \<in> set xs \<and> ?m < block_seq s a)\<close> flags [OF y(1)] show ?thesis
      by (auto simp: block_seq_def)
  qed
  have stay: "\<exists>x. rt_heap s1 a = Some x \<and> core x = core y"
    if y: "rt_heap s a = Some y" "\<not> al_tracked y \<or> al_sequence y \<le> ?m" for a y
  proof -
    have "\<not> (a \<in> set xs \<and> ?m < block_seq s a)" using y flags [OF y(1)] by (auto simp: block_seq_def)
    then have "cores (rt_heap s1) a = cores (rt_heap s) a" using s1(3) by auto
    then show ?thesis using y(1) by (auto simp: cores_def)
  qed
  have o1: "owns s1 ?ys"
    unfolding owns_def
  proof (intro conjI allI impI)
    fix a x assume x: "rt_heap s1 a = Some x"
    from keep [OF x] obtain y where y: "rt_heap s a = Some y" "core x = core y" "al_tracked y \<longrightarrow> al_sequence y \<le> ?m"
      by blast
    show "al_tracked x \<longleftrightarrow> a \<in> set ?ys"
      using core_eqD [OF y(2)] y flags [OF y(1)] by (auto simp: block_seq_def)
  qed (rule s1(2))
  let ?s2 = "s1\<lparr>rt_frames := frs, rt_status := fr_previous_status fr\<rparr>"
  have leave: "jb_frame_leave n (length (rt_frames s)) s1 =
      (if frs = [] then jb_untrack_all n ?s2 else (Inr (), ?s2))"
    using f1 fr cl by (simp add: jb_frame_leave_def frame_of_def)
  have run: "seq (jb_release_newer n ?m (rt_tracked s)) (\<lambda>_. jb_frame_leave n (length (rt_frames s))) s =
      jb_frame_leave n (length (rt_frames s)) s1"
    using s1(1) tr by (simp add: seq_def)
  show ?thesis
  proof (cases "frs = []")
    case False
    have "owns ?s2 ?ys" using o1 by (simp add: owns_def links_def)
    with run leave False f1 keep stay show ?thesis
      by (intro exI [of _ ?s2]) (fastforce dest: core_eqD)
  next
    case True
    have "links ?s2 ?ys" "length ?ys \<le> n" using s1(2) n by (auto simp: links_def intro: order_trans [OF length_filter_le])
    from untrack_all [OF this] obtain s3 where
      s3: "jb_untrack_all n ?s2 = (Inr (), s3)" "rt_tracked s3 = None"
       "\<forall>a. a \<notin> set ?ys \<longrightarrow> rt_heap s3 a = rt_heap ?s2 a"
       "\<forall>a \<in> set ?ys. \<exists>x. rt_heap ?s2 a = Some x \<and>
          rt_heap s3 a = Some (x\<lparr>al_tracked := False, al_previous := None, al_next := None\<rparr>)"
       "s3 = ?s2\<lparr>rt_heap := rt_heap s3, rt_tracked := None\<rparr>" by blast
    have fields: "rt_frames s3 = frs" "rt_status s3 = fr_previous_status fr" "rt_cleanups s3 = rt_cleanups s"
      using s3(5) f1 by (metis (no_types, lifting) rt.ext_inject rt.surjective rt.update_convs)+
    have k3: "\<exists>y. rt_heap s1 a = Some y \<and> \<not> al_tracked x \<and> al_size x = al_size y \<and>
        al_allocator x = al_allocator y \<and> al_sequence x = al_sequence y" if x: "rt_heap s3 a = Some x" for a x
    proof (cases "a \<in> set ?ys")
      case True
      with s3(4) x show ?thesis by fastforce
    next
      case False
      then have "rt_heap s1 a = Some x" using s3(3) x by auto
      with False o1 show ?thesis unfolding owns_def by blast
    qed
    have st3: "\<exists>x. rt_heap s3 a = Some x \<and> al_size x = al_size y \<and>
        al_allocator x = al_allocator y \<and> al_sequence x = al_sequence y" if y: "rt_heap s1 a = Some y" for a y
    proof (cases "a \<in> set ?ys")
      case True
      with s3(4) y show ?thesis by fastforce
    next
      case False
      with s3(3) y show ?thesis by auto
    qed
    have "owns s3 []" using k3 s3(2) by (fastforce simp: owns_def links_def)
    moreover have "\<exists>y. rt_heap s a = Some y \<and> (al_tracked y \<longrightarrow> al_sequence y \<le> ?m)" if "rt_heap s3 a = Some x" for a x
      using k3 [OF that] keep by blast
    moreover have "\<exists>x. rt_heap s3 a = Some x \<and> al_size x = al_size y \<and> al_allocator x = al_allocator y \<and> al_sequence x = al_sequence y"
      if "rt_heap s a = Some y" "\<not> al_tracked y \<or> al_sequence y \<le> ?m" for a y
    proof -
      from stay [OF that] obtain x where x: "rt_heap s1 a = Some x" "core x = core y" by blast
      with st3 [OF x(1)] core_eqD [OF x(2)] show ?thesis by auto
    qed
    ultimately show ?thesis using run leave True s3(1,2) fields by (intro exI [of _ s3]) auto
  qed
qed

section \<open>Properties\<close>

text \<open>
  C8. A failed call leaves nothing behind. For the innermost frame, with cleanup functions that
  keep the ownership invariant and leave older blocks alone, \<open>jb_frame_fail\<close> runs the armed
  cleanups latest first; every tracked block that the call made since the frame was entered is
  then released; every block that is older, or that was detached from the call, is still
  allocated with its size and allocator; the frame is popped, the status of the enclosing call
  restored, and at the outermost frame nothing is tracked any more.
\<close>

theorem jb_frame_fail_releases:
  assumes owns: "owns st xs" and frames: "rt_frames st = fr # frs"
    and cleanups: "rt_cleanups st = old @ armed" "length old = fr_cleanup_mark fr"
    and fuel: "length armed \<le> n" "length ys \<le> n"
    and call: "\<And>c s cs. call c (s\<lparr>rt_cleanups := cs\<rparr>) = (call c s)\<lparr>rt_cleanups := cs\<rparr>"
    and ran: "s1 = fold call (rev armed) (st\<lparr>rt_cleanups := old\<rparr>)" "owns s1 ys"
      "rt_frames s1 = rt_frames st" "rt_cleanups s1 = old"
  shows "\<exists>s'. jb_frame_fail call n (length (rt_frames st)) st = (Inr (rt_status st), s') \<and>
    rt_frames s' = frs \<and> rt_status s' = fr_previous_status fr \<and> rt_cleanups s' = old \<and>
    (\<forall>a x. rt_heap s' a = Some x \<longrightarrow> (\<exists>y. rt_heap s1 a = Some y \<and> (al_tracked y \<longrightarrow> al_sequence y \<le> fr_mark fr))) \<and>
    (\<forall>a y. rt_heap s1 a = Some y \<longrightarrow> \<not> al_tracked y \<or> al_sequence y \<le> fr_mark fr \<longrightarrow>
      (\<exists>x. rt_heap s' a = Some x \<and> al_size x = al_size y \<and> al_allocator x = al_allocator y)) \<and>
    (frs = [] \<longrightarrow> rt_tracked s' = None)"
proof -
  have "jb_cleanup_run call (length old) n st = (Inr (), fold call (rev armed) (st\<lparr>rt_cleanups := old\<rparr>))"
    by (rule cleanup_run [where call = call, OF _ cleanups(1) fuel(1)]) (rule call)
  then have run: "jb_cleanup_run call (fr_cleanup_mark fr) n st = (Inr (), s1)"
    using cleanups(2) ran(1) by simp
  have fr1: "rt_frames s1 = fr # frs" using ran(3) frames by simp
  have cl1: "length (rt_cleanups s1) = fr_cleanup_mark fr" using ran(4) cleanups(2) by simp
  have "jb_frame_fail call n (length (rt_frames st)) st =
      seq (seq (jb_release_newer n (fr_mark fr) (rt_tracked s1)) (\<lambda>_. jb_frame_leave n (length (rt_frames s1))))
        (\<lambda>_. ret (rt_status st)) s1"
    using run frames ran(3) by (simp add: jb_frame_fail_def jb_frame_abandon_def frame_of_def seq_def)
  with sweep_and_leave [OF ran(2) fr1 cl1 fuel(2)] ran(4) show ?thesis
    by (force simp: seq_def ret_def)
qed

definition sample_rt :: rt where
  "sample_rt = \<lparr>rt_heap = [1 \<mapsto> \<lparr>al_previous = Some 2, al_next = None, al_allocator = 0, al_size = 8, al_sequence = 1, al_tracked = True\<rparr>,
       2 \<mapsto> \<lparr>al_previous = None, al_next = Some 1, al_allocator = 0, al_size = 8, al_sequence = 2, al_tracked = True\<rparr>],
     rt_tracked = Some 2, rt_sequence = 2, rt_active = 0, rt_parallel = False,
     rt_frames = [\<lparr>fr_mark = 1, fr_previous_status = JB_OK, fr_cleanup_mark = 0\<rparr>],
     rt_status = JB_ERROR_REQUEST, rt_cleanups = [\<lparr>cl_function = 7, cl_context = 3\<rparr>], rt_released = []\<rparr>"

lemma owns_sample: "owns (sample_rt\<lparr>rt_cleanups := cs\<rparr>) [2, 1]"
  by (simp add: owns_def links_def sample_rt_def)

theorem jb_frame_fail_releases_witness:
  "\<exists>s'. jb_frame_fail (\<lambda>c s. s) 2 1 sample_rt = (Inr JB_ERROR_REQUEST, s') \<and> rt_tracked s' = None \<and>
     rt_heap s' 2 = None"
proof -
  have o: "owns sample_rt [2, 1]" using owns_sample [of "rt_cleanups sample_rt"] by (simp add: sample_rt_def)
  let ?fr = "\<lparr>fr_mark = 1, fr_previous_status = JB_OK, fr_cleanup_mark = 0\<rparr>"
  let ?s1 = "sample_rt\<lparr>rt_cleanups := []\<rparr>"
  have fr: "rt_frames sample_rt = [?fr]" and cl: "rt_cleanups sample_rt = [] @ [\<lparr>cl_function = 7, cl_context = 3\<rparr>]"
    "length ([] :: JBCleanup list) = fr_cleanup_mark ?fr"
    by (simp_all add: sample_rt_def)
  have ran: "?s1 = fold (\<lambda>c s. s) (rev [\<lparr>cl_function = 7, cl_context = 3\<rparr>]) ?s1" "rt_frames ?s1 = rt_frames sample_rt"
    "rt_cleanups ?s1 = []" by simp_all
  have fuel: "length [\<lparr>cl_function = 7, cl_context = 3\<rparr>] \<le> 2" "length [2, 1 :: nat] \<le> 2" by simp_all
  note jb_frame_fail_releases [where call = "\<lambda>c s. s", OF o fr cl fuel refl ran(1) owns_sample ran(2,3)]
  then obtain s' where s': "jb_frame_fail (\<lambda>c s. s) 2 1 sample_rt = (Inr JB_ERROR_REQUEST, s')"
    "rt_tracked s' = None" "\<And>x. rt_heap s' 2 = Some x \<Longrightarrow> False"
    by (fastforce simp: sample_rt_def)
  then show ?thesis by (metis option.exhaust)
qed

text \<open>
  C9. The doubly linked list of tracked blocks behaves as a list: linking puts a block in front,
  unlinking takes it out wherever it is, and neither follows a dangling pointer nor changes the
  size, owner, sequence number or tracking flag of any block.
\<close>

theorem tracked_list_refines_list:
  assumes "links st xs" "rt_heap st a = Some x"
  shows "(a \<notin> set xs \<longrightarrow> (\<exists>s. jb_link a st = (Inr (), s) \<and> links s (a # xs) \<and> cores (rt_heap s) = cores (rt_heap st))) \<and>
    (a \<in> set xs \<longrightarrow> (\<exists>s. jb_unlink a st = (Inr (), s) \<and> links s (remove1 a xs) \<and> cores (rt_heap s) = cores (rt_heap st)))"
  using jb_link_ok [OF assms(1) _ assms(2)] jb_unlink_ok [OF assms(1)] unfolding relinked_def by blast

theorem tracked_list_refines_list_witness:
  "\<exists>s. jb_unlink 1 sample_rt = (Inr (), s) \<and> links s [2]"
proof -
  have "links sample_rt [2, 1]" using owns_sample [of "rt_cleanups sample_rt"]
    by (simp add: sample_rt_def owns_def)
  from tracked_list_refines_list [OF this, of 1] show ?thesis
    by (force simp: sample_rt_def)
qed

end
