(* ===== verification/Sizes.thy ===== *)
theory Sizes
  imports Prelude
begin

text \<open>
  The sizes of the model and the limits of requests: the constants at the head of \<open>src/jb.c\<close>.
\<close>

definition JB_MAX_CTX :: nat where "JB_MAX_CTX = 4096"
definition JB_MAX_CAND :: nat where "JB_MAX_CAND = 255"
definition JB_MICROBATCH_KV_LIMIT :: nat where "JB_MICROBATCH_KV_LIMIT = 4294967296"
definition DG_H :: nat where "DG_H = 2816"
definition DG_L :: nat where "DG_L = 30"
definition DG_HEADS :: nat where "DG_HEADS = 16"
definition DG_VOCAB :: nat where "DG_VOCAB = 262144"
definition DG_DENSE :: nat where "DG_DENSE = 2112"
definition DG_MOE :: nat where "DG_MOE = 704"
definition DG_TOPK :: nat where "DG_TOPK = 8"
definition DG_EXPERTS :: nat where "DG_EXPERTS = 128"
definition DG_EXPERT_PAIR :: nat where "DG_EXPERT_PAIR = 2 * DG_MOE"
definition DG_FULL_EVERY :: nat where "DG_FULL_EVERY = 6"
definition DG_FULL_HEAD_DIM :: nat where "DG_FULL_HEAD_DIM = 512"
definition DG_LOCAL_HEAD_DIM :: nat where "DG_LOCAL_HEAD_DIM = 256"
definition DG_FULL_KV_HEADS :: nat where "DG_FULL_KV_HEADS = 2"
definition DG_LOCAL_KV_HEADS :: nat where "DG_LOCAL_KV_HEADS = 8"
definition DG_FULL_ROPE_DIM :: nat where "DG_FULL_ROPE_DIM = 64"
definition DG_LOCAL_WINDOW :: nat where "DG_LOCAL_WINDOW = 1024"
definition DG_CHOICE_LABELS :: nat where "DG_CHOICE_LABELS = 128"
definition DG_MAX_QUESTIONS :: nat where "DG_MAX_QUESTIONS = 1024"
definition DG_AUTO_READ_MAX_QUESTIONS :: nat where "DG_AUTO_READ_MAX_QUESTIONS = 128"
definition DG_MAX_SCORE :: nat where "DG_MAX_SCORE = 10"
definition DG_CANVAS_TOKENS :: nat where "DG_CANVAS_TOKENS = 64"
definition DG_CANVAS_ALIGN :: nat where "DG_CANVAS_ALIGN = 16"
definition DG_CANVAS_GROUP :: nat where "DG_CANVAS_GROUP = 8"
definition DG_CANVAS_MASK_TOKEN :: int where "DG_CANVAS_MASK_TOKEN = 106"

end
