(* ===== verification/Utf8.thy ===== *)
theory Utf8
  imports Prelude
begin

text \<open>
  UTF-8 as \<open>src/foundation.inc\<close> writes and reads it: \<open>put_utf8\<close> encodes a code point and
  \<open>next_cp\<close> decodes the one at an index, rejecting every byte sequence that is not the
  shortest encoding of a Unicode scalar value. The lemmas show that the two are inverse to
  each other, so a byte string decodes in at most one way and re-encodes to itself.
\<close>

section \<open>Encoding\<close>

text \<open>\<open>put_utf8\<close> returns the bytes it stores; their number is the C function's result.\<close>

definition put_utf8 :: "u32 \<Rightarrow> bytes" where
  "put_utf8 c =
     (if c \<le> 0x7f then [ucast c]
      else if c \<le> 0x7ff then
        [ucast (0xc0 OR drop_bit 6 c), ucast (0x80 OR (c AND 63))]
      else if c \<le> 0xffff then
        [ucast (0xe0 OR drop_bit 12 c), ucast (0x80 OR (drop_bit 6 c AND 63)),
         ucast (0x80 OR (c AND 63))]
      else
        [ucast (0xf0 OR drop_bit 18 c), ucast (0x80 OR (drop_bit 12 c AND 63)),
         ucast (0x80 OR (drop_bit 6 c AND 63)), ucast (0x80 OR (c AND 63))])"

section \<open>Decoding\<close>

text \<open>
  The loop that folds the continuation bytes: \<open>more\<close> of them are left, \<open>i\<close> is the next
  index and \<open>v\<close> the value so far.
\<close>

fun next_cp_more :: "bytes \<Rightarrow> nat \<Rightarrow> nat \<Rightarrow> u32 \<Rightarrow> (u32 \<times> nat) result" where
  "next_cp_more s 0 i v = Inr (v, i)"
| "next_cp_more s (Suc more) i v =
     bindE (rd s i) (\<lambda>q.
       if ucast q AND (0xc0 :: u32) \<noteq> 0x80 then die ''invalid UTF-8''
       else next_cp_more s more (Suc i) (push_bit 6 v OR (ucast q AND 63)))"

text \<open>\<open>next_cp s n i\<close>: the code point at index \<open>i\<close> of the \<open>n\<close> bytes at \<open>s\<close>, and the index after it.\<close>

definition next_cp :: "bytes \<Rightarrow> nat \<Rightarrow> nat \<Rightarrow> (u32 \<times> nat) result" where
  "next_cp s n i =
     bindE (rd s i) (\<lambda>b.
       let c = ucast b :: u32 in
       if c < 0x80 then Inr (c, Suc i)
       else if c < 0xc2 then die ''invalid UTF-8''
       else
         let more = (if c \<ge> 0xf0 then 3 else if c \<ge> 0xe0 then 2 else 1) in
         if i + more \<ge> n then die ''invalid UTF-8''
         else
           bindE (next_cp_more s more (Suc i) (c AND drop_bit more 0x7f)) (\<lambda>(v, j).
             if (more = 1 \<and> v < 0x80) \<or> (more = 2 \<and> v < 0x800) \<or> (more = 3 \<and> v < 0x10000) \<or>
                v > 0x10ffff \<or> (v \<ge> 0xd800 \<and> v \<le> 0xdfff)
             then die ''invalid UTF-8''
             else Inr (v, j)))"

text \<open>
  The scan that the callers run over a whole string, for the sake of its failures:
  \<open>while (at < n) (void)next_cp(s, n, &at);\<close>
\<close>

fun utf8_scan :: "nat \<Rightarrow> bytes \<Rightarrow> nat \<Rightarrow> nat \<Rightarrow> u32 list result" where
  "utf8_scan 0 s n i = (if i < n then Inl OutOfFuel else Inr [])"
| "utf8_scan (Suc fuel) s n i =
     (if i < n then
        bindE (next_cp s n i) (\<lambda>(c, j). bindE (utf8_scan fuel s n j) (\<lambda>cs. Inr (c # cs)))
      else Inr [])"

section \<open>Unicode scalar values\<close>

definition scalar :: "u32 \<Rightarrow> bool" where
  "scalar c \<longleftrightarrow> c \<le> 0x10ffff \<and> \<not> (0xd800 \<le> c \<and> c \<le> 0xdfff)"

section \<open>Arithmetic on the bytes\<close>

text \<open>\<open>utf8_nat\<close> is the same encoding with the bit fields written as quotients and remainders.\<close>

fun utf8_nat :: "nat \<Rightarrow> nat list" where
  "utf8_nat c = (if c < 0x80 then [c] else if c < 0x800 then [192 + c div 64, 128 + c mod 64]
   else if c < 0x10000 then [224 + c div 4096, 128 + c div 64 mod 64, 128 + c mod 64]
   else [240 + c div 262144, 128 + c div 4096 mod 64, 128 + c div 64 mod 64, 128 + c mod 64])"

lemma unat_and_63: "unat (c AND 63 :: u32) = unat c mod 64"
  using nat_and_low [of "unat c" 6] by (simp add: unsigned_and_eq)

lemma unat_cont: "unat (0x80 OR (c AND 63) :: u32) = 128 + unat c mod 64"
  using nat_or_disjoint [of "unat c mod 64" 7 1] nat_and_low [of "unat c" 6] 
  by (simp add: unsigned_or_eq unsigned_and_eq)
lemma unat_lead: 
  "unat d < 64 \<Longrightarrow> unat (0xc0 OR d :: u32) = 192 + unat d"
  "unat d < 32 \<Longrightarrow> unat (0xe0 OR d :: u32) = 224 + unat d"
  "unat d < 16 \<Longrightarrow> unat (0xf0 OR d :: u32) = 240 + unat d"
  using nat_or_disjoint [of "unat d" 6 3] nat_or_disjoint [of "unat d" 5 7] nat_or_disjoint [of "unat d" 4 15]
  by (simp_all add: unsigned_or_eq)

lemma put_utf8_nat:
  "c \<le> 0x10ffff \<Longrightarrow> map unat (put_utf8 c) = utf8_nat (unat c)"
  by (auto simp: put_utf8_def unat_cont unat_lead unat_drop_bit word_le_nat_alt)

lemma cont_iff: "ucast (q :: byte) AND (0xc0 :: u32) = 0x80 \<longleftrightarrow> 128 \<le> unat q \<and> unat q < 192"
proof -
  have q: "unat q < 256" using unsigned_less [of q] by simp
  have "unat (ucast q AND (0xc0 :: u32)) = 64 * (unat q div 64 mod 4)"
    using nat_and_field [of "unat q" 6 2] by (simp add: unsigned_and_eq)
  then have "ucast q AND (0xc0 :: u32) = 0x80 \<longleftrightarrow> 64 * (unat q div 64 mod 4) = 128"
    by (simp add: word_unat_eq_iff)
  then show ?thesis using q by auto
qed

lemma unat_shift_in:
  assumes "unat v < 2 ^ 26"
  shows "unat (push_bit 6 v OR (ucast (q :: byte) AND 63) :: u32) = 64 * unat v + unat q mod 64"
proof -
  have "unat (push_bit 6 v) = 64 * unat v"
    using assms by (simp add: push_bit_eq_mult unat_word_ariths)
  then show ?thesis
    using nat_or_disjoint [of "unat q mod 64" 6 "unat v"]
    by (simp add: unsigned_or_eq unat_and_63)
qed

lemma mod_64_cont: "128 \<le> n \<Longrightarrow> n < 192 \<Longrightarrow> n mod 64 = n - (128 :: nat)"
proof -
  assume "128 \<le> n" "n < 192"
  then obtain k where "n = k + 2 * 64" "k < 64" by (auto simp: le_iff_add)
  then show ?thesis by (simp only: mod_mult_self1) simp
qed

lemma next_cp_more_Suc:
  assumes "unat v < 2 ^ 26" "i < length s"
  shows "next_cp_more s (Suc m) i v =
    (if 128 \<le> unat (s ! i) \<and> unat (s ! i) < 192
     then next_cp_more s m (Suc i) (of_nat (64 * unat v + (unat (s ! i) - 128)))
     else die ''invalid UTF-8'')"
proof -
  have shift: "push_bit 6 v OR (ucast (s ! i) AND 63) = (of_nat (64 * unat v + (unat (s ! i) - 128)) :: u32)"
    if q: "128 \<le> unat (s ! i)" "unat (s ! i) < 192"
  proof -
    have "unat (s ! i) mod 64 = unat (s ! i) - 128" using q by (rule mod_64_cont)
    then have "unat (push_bit 6 v OR (ucast (s ! i) AND 63) :: u32) = 64 * unat v + (unat (s ! i) - 128)"
      by (simp only: unat_shift_in [OF assms(1)])
    then have "of_nat (unat (push_bit 6 v OR (ucast (s ! i) AND 63) :: u32)) =
        (of_nat (64 * unat v + (unat (s ! i) - 128)) :: u32)"
      by (rule arg_cong)
    then show ?thesis by simp
  qed
  show ?thesis
  proof (cases "128 \<le> unat (s ! i) \<and> unat (s ! i) < 192")
    case True
    then have "push_bit 6 v OR (ucast (s ! i) AND 63) = (of_nat (64 * unat v + (unat (s ! i) - 128)) :: u32)"
      by (intro shift) simp_all
    with True show ?thesis
      by (simp only: next_cp_more.simps rd_in [OF assms(2)] bindE_simps cont_iff if_True if_False not_True_eq_False simp_thms)
  next
    case False
    then show ?thesis
      by (simp only: next_cp_more.simps rd_in [OF assms(2)] bindE_simps cont_iff if_True if_False simp_thms not_False_eq_True)
  qed
qed

lemma unat_lead_bits:
  "unat (ucast (b :: byte) AND 63 :: u32) = unat b mod 64"
  "unat (ucast (b :: byte) AND 31 :: u32) = unat b mod 32"
  "unat (ucast (b :: byte) AND 15 :: u32) = unat b mod 16"
  using nat_and_low [of "unat b" 6] nat_and_low [of "unat b" 5] nat_and_low [of "unat b" 4]
  by (simp_all add: unsigned_and_eq)


declare next_cp_more.simps(2) [simp del]


declare utf8_nat.simps [simp del]

lemma utf8_nat_1: "v < 0x80 \<Longrightarrow> utf8_nat v = [v]"
  by (simp add: utf8_nat.simps)

lemma utf8_nat_2:
  assumes "2 \<le> b" "b < 32" "q < 64"
  shows "utf8_nat (64 * b + q) = [192 + b, 128 + q]"
  using assms by (simp add: utf8_nat.simps)

lemma mod_64: "r < 64 \<Longrightarrow> (64 * x + r) mod 64 = (r :: nat)"
  by simp

lemma utf8_nat_3:
  assumes "b < 16" "q < 64" "r < 64" "0x800 \<le> 64 * (64 * b + q) + r"
  shows "utf8_nat (64 * (64 * b + q) + r) = [224 + b, 128 + q, 128 + r]"
proof -
  have "(64 * (64 * b + q) + r) div 4096 = b"
    using assms div_mult2_eq [of "64 * (64 * b + q) + r" 64 64] by simp
  moreover have "(64 * (64 * b + q) + r) div 64 = 64 * b + q" using assms by simp
  moreover have "64 * (64 * b + q) + r < 65536" using assms by simp
  moreover have "(64 * (64 * b + q) + r) mod 64 = r" "(64 * b + q) mod 64 = q"
    using assms mod_64 by blast+
  ultimately show ?thesis using assms by (simp add: utf8_nat.simps)
qed

lemma utf8_nat_4:
  assumes "b < 8" "q < 64" "r < 64" "t < 64" "0x10000 \<le> 64 * (64 * (64 * b + q) + r) + t"
  shows "utf8_nat (64 * (64 * (64 * b + q) + r) + t) = [240 + b, 128 + q, 128 + r, 128 + t]"
proof -
  let ?v = "64 * (64 * (64 * b + q) + r) + t"
  have a: "?v div 64 = 64 * (64 * b + q) + r" using assms by simp
  have b: "?v div 4096 = 64 * b + q"
    using assms div_mult2_eq [of ?v 64 64] a by simp
  have "?v mod 64 = t" "(64 * (64 * b + q) + r) mod 64 = r" "(64 * b + q) mod 64 = q"
    using assms mod_64 by blast+
  moreover have "?v div 262144 = b"
    using assms div_mult2_eq [of ?v 4096 64] b by simp
  ultimately show ?thesis using a b assms by (simp add: utf8_nat.simps)
qed

lemma utf8_nat_cases:
  assumes "v \<le> (0x10ffff :: nat)"
  obtains "v < 0x80"
  | b q where "v = 64 * b + q" "2 \<le> b" "b < 32" "q < 64"
  | b q r where "v = 64 * (64 * b + q) + r" "b < 16" "q < 64" "r < 64" "0x800 \<le> v"
  | b q r t where "v = 64 * (64 * (64 * b + q) + r) + t" "b < 5" "q < 64" "r < 64" "t < 64" "0x10000 \<le> v"
proof -
  consider "v < 0x80" | "0x80 \<le> v" "v < 0x800" | "0x800 \<le> v" "v < 0x10000" | "0x10000 \<le> v"
    by linarith
  then show ?thesis
  proof cases
    case 1 then show ?thesis by (rule that(1))
  next
    case 2
    show ?thesis
      by (rule that(2) [of "v div 64" "v mod 64"]) (use 2 in \<open>simp_all\<close>)
  next
    case 3
    show ?thesis
      by (rule that(3) [of "v div 64 div 64" "v div 64 mod 64" "v mod 64"])
        (use 3 in \<open>simp_all add: mult_div_mod_eq\<close>)
  next
    case 4
    show ?thesis
      by (rule that(4) [of "v div 64 div 64 div 64" "v div 64 div 64 mod 64" "v div 64 mod 64" "v mod 64"])
        (use 4 assms in \<open>simp_all add: mult_div_mod_eq\<close>)
  qed
qed

text \<open>\<open>next_cp\<close> on natural numbers.\<close>

lemma next_cp_unfold:
  assumes "i < length s"
  shows "next_cp s n i =
       (let b = unat (s ! i); more = (if b \<ge> 0xf0 then 3 else if b \<ge> 0xe0 then 2 else 1 :: nat) in
       if b < 0x80 then Inr (of_nat b, Suc i)
       else if b < 0xc2 then die ''invalid UTF-8''
         else if i + more \<ge> n then die ''invalid UTF-8''
         else
           bindE (next_cp_more s more (Suc i) (of_nat (b mod (if b \<ge> 0xf0 then 16 else if b \<ge> 0xe0 then 32 else 64)))) (\<lambda>(v, j).
             if (more = 1 \<and> v < 0x80) \<or> (more = 2 \<and> v < 0x800) \<or> (more = 3 \<and> v < 0x10000) \<or>
                v > 0x10ffff \<or> (v \<ge> 0xd800 \<and> v \<le> 0xdfff)
             then die ''invalid UTF-8''
             else Inr (v, j)))"
proof -
  have l: "unat (ucast (b :: byte) :: u32) = unat b" for b by simp
  have m: "ucast (s ! i) AND (63 :: u32) = of_nat (unat (s ! i) mod 64)"
     "ucast (s ! i) AND (31 :: u32) = of_nat (unat (s ! i) mod 32)"
     "ucast (s ! i) AND (15 :: u32) = of_nat (unat (s ! i) mod 16)"
    by (simp_all only: unat_lead_bits [symmetric]) simp_all
  show ?thesis
    using assms by (simp add: next_cp_def Let_def word_less_nat_alt word_le_nat_alt m cong: if_cong)
qed

lemma span_unat_nth:
  "map unat (span_of s i (i + length u)) = u \<Longrightarrow> i + length u \<le> length s \<Longrightarrow> k < length u \<Longrightarrow>
     unat (s ! (i + k)) = u ! k"
  by (drule arg_cong [where f = "\<lambda>l. l ! k"]) (simp add: span_of_def)

lemma scalar_nat: "scalar c \<longleftrightarrow> unat c \<le> 0x10ffff \<and> \<not> (0xd800 \<le> unat c \<and> unat c \<le> 0xdfff)"
  by (simp add: scalar_def word_le_nat_alt)

lemma next_cp_more_nat:
  assumes "V < 67108864" "i < length s" "128 \<le> unat (s ! i)" "unat (s ! i) < 192"
  shows "next_cp_more s (Suc m) i (of_nat V) =
    next_cp_more s m (Suc i) (of_nat (64 * V + (unat (s ! i) - 128)))"
proof -
  have "unat (of_nat V :: u32) = V" using assms by (intro unat_of_nat_u32) simp
  then show ?thesis
    using next_cp_more_Suc [of "of_nat V" i s m] assms by (simp del: of_nat_add of_nat_mult)
qed

lemma next_cp_more_123:
  assumes "V < 67108864" "i < length s" "128 \<le> unat (s ! i)" "unat (s ! i) < 192"
  shows "next_cp_more s (Suc 0) i (of_nat V) = Inr (of_nat (64 * V + (unat (s ! i) - 128)), Suc i)"
    "next_cp_more s 2 i (of_nat V) = next_cp_more s (Suc 0) (Suc i) (of_nat (64 * V + (unat (s ! i) - 128)))"
    "next_cp_more s 3 i (of_nat V) = next_cp_more s 2 (Suc i) (of_nat (64 * V + (unat (s ! i) - 128)))"
  using next_cp_more_nat [OF assms, of 0] next_cp_more_nat [OF assms, of 1] next_cp_more_nat [OF assms, of 2]
  by (simp_all add: numeral_2_eq_2 numeral_3_eq_3 del: of_nat_add of_nat_mult)

lemma lead_mod [simp]:
  "b < 64 \<Longrightarrow> (192 + b) mod 64 = (b :: nat)" "b < 32 \<Longrightarrow> (224 + b) mod 32 = (b :: nat)"
  "b < 16 \<Longrightarrow> (240 + b) mod 16 = (b :: nat)"
  using mod_mult_self1 [of b 3 64] mod_mult_self1 [of b 7 32] mod_mult_self1 [of b 15 16]
  by (simp_all add: add.commute)

lemmas next_cp_eval = next_cp_unfold next_cp_more_123 Let_def unat_of_nat_u32 word_less_nat_alt
  word_le_nat_alt

lemma next_cp_enc:
  assumes c: "scalar c"
    and u: "u = utf8_nat (unat c)"
    and s: "map unat (span_of s i (i + length u)) = u" "i + length u \<le> n" "n \<le> length s"
  shows "next_cp s n i = Inr (c, i + length u)"
proof -
  have nth: "unat (s ! (i + k)) = u ! k" if "k < length u" for k
    using span_unat_nth [of s i u k] s that by simp
  have c': "of_nat (unat c) = c" by simp
  have le: "unat c \<le> 0x10ffff" and nsur: "\<not> (0xd800 \<le> unat c \<and> unat c \<le> 0xdfff)"
    using c by (auto simp: scalar_nat)
  from le show ?thesis
  proof (cases rule: utf8_nat_cases)
    case 1
    then have "u = [unat c]" using u by (simp add: utf8_nat_1)
    with nth [of 0] s 1 show ?thesis by (simp add: next_cp_unfold)
  next
    case (2 b q)
    then have u2: "u = [192 + b, 128 + q]" using u utf8_nat_2 by simp
    with nth [of 0] nth [of 1] s 2 c' show ?thesis
      by (simp add: next_cp_eval del: of_nat_add of_nat_mult)
  next
    case (3 b q r)
    then have "u = [224 + b, 128 + q, 128 + r]" using u utf8_nat_3 by simp
    with nth [of 0] nth [of 1] nth [of 2] s 3 nsur c' show ?thesis
      by (simp add: next_cp_eval del: of_nat_add of_nat_mult)
  next
    case (4 b q r t)
    then have u4: "u = [240 + b, 128 + q, 128 + r, 128 + t]" using u utf8_nat_4 by simp
    have eq: "Suc (Suc (Suc i)) = i + 3" by simp
    have "3 < length u" by (simp add: u4)
    from nth [OF this] have "unat (s ! Suc (Suc (Suc i))) = u ! 3" by (simp only: eq)
    with nth [of 0] nth [of 1] nth [of 2] s 4 c' u4 le show ?thesis
      by (simp add: next_cp_eval del: of_nat_add of_nat_mult)
  qed
qed

lemma next_cp_moreE:
  assumes "next_cp_more s (Suc m) i (of_nat V) = Inr r" "V < 67108864"
  obtains q where "i < length s" "unat (s ! i) = 128 + q" "q < 64"
    "next_cp_more s m (Suc i) (of_nat (64 * V + q)) = Inr r"
proof -
  have V: "unat (of_nat V :: u32) = V" using assms(2) by (intro unat_of_nat_u32) simp
  have i: "i < length s"
    using assms(1) by (simp add: next_cp_more.simps(2) bindE_Inr_iff)
  show ?thesis
    using assms next_cp_more_Suc [of "of_nat V" i s m] V i
    by (intro that [of "unat (s ! i) - 128"]) (simp_all split: if_splits del: of_nat_add of_nat_mult)
qed

lemma next_cp_dec:
  assumes "next_cp s n i = Inr (c, j)"
  shows "scalar c \<and> j = i + length (utf8_nat (unat c)) \<and> (i < n \<longrightarrow> j \<le> n) \<and>
     j \<le> length s \<and> map unat (span_of s i j) = utf8_nat (unat c)"
proof -
  have i: "i < length s"
    using assms by (auto simp: next_cp_def bindE_Inr_iff)
  define b where "b = unat (s ! i)"
  have b256: "b < 256" using unsigned_less [of "s ! i"] by (simp add: b_def)
  note eq = assms [unfolded next_cp_unfold [OF i] Let_def, folded b_def]
  consider "b < 0x80" | "0xc2 \<le> b" "b < 0xe0" | "0xe0 \<le> b" "b < 0xf0" | "0xf0 \<le> b"
    using eq by (cases "b < 0xc2") (auto split: if_splits)
  then show ?thesis
  proof cases
    case 1
    then have "c = of_nat b" "j = Suc i" using eq by simp_all
    with 1 i show ?thesis
      by (simp add: scalar_nat unat_of_nat_u32 utf8_nat_1 span_of_Cons b_def)
  next
    case 2
    obtain B where B: "b = 192 + B" "2 \<le> B" "B < 32" using 2 by (auto simp: le_iff_add)
    from eq 2 B have m: "next_cp_more s (Suc 0) (Suc i) (of_nat B) = Inr (c, j)" "i + 1 < n"
       "\<not> unat c < 0x80"
      by (auto simp: bindE_Inr_iff word_less_nat_alt word_le_nat_alt split: if_splits)
    have B': "B < 67108864" using B by simp
    obtain q where q: "Suc i < length s" "unat (s ! Suc i) = 128 + q" "q < 64"
       and r: "next_cp_more s 0 (Suc (Suc i)) (of_nat (64 * B + q)) = Inr (c, j)"
      using next_cp_moreE [OF m(1) B'] by blast
    from r have "c = of_nat (64 * B + q)" "j = Suc (Suc i)" by simp_all
    with q B m i show ?thesis
      by (simp add: scalar_nat unat_of_nat_u32 utf8_nat_2 span_of_Cons b_def [symmetric] del: of_nat_add of_nat_mult)
  next
    case 3
    obtain B where B: "b = 224 + B" "B < 16" using 3 by (auto simp: le_iff_add)
    from eq 3 B have m0: "next_cp_more s 2 (Suc i) (of_nat B) = Inr (c, j)" and m: "i + 2 < n"
       "\<not> unat c < 0x800" "\<not> (0xd800 \<le> unat c \<and> unat c \<le> 0xdfff)"
      by (auto simp: bindE_Inr_iff word_less_nat_alt word_le_nat_alt split: if_splits)
    have B': "B < 67108864" using B by simp
    obtain q where q: "Suc i < length s" "unat (s ! Suc i) = 128 + q" "q < 64"
       and m2: "next_cp_more s (Suc 0) (Suc (Suc i)) (of_nat (64 * B + q)) = Inr (c, j)"
      using next_cp_moreE [OF m0 [unfolded numeral_2_eq_2] B'] by blast
    have B2: "64 * B + q < 67108864" using B q by simp
    obtain r where r: "Suc (Suc i) < length s" "unat (s ! Suc (Suc i)) = 128 + r" "r < 64"
       and f: "next_cp_more s 0 (Suc (Suc (Suc i))) (of_nat (64 * (64 * B + q) + r)) = Inr (c, j)"
      using next_cp_moreE [OF m2 B2] by blast
    from f have "c = of_nat (64 * (64 * B + q) + r)" "j = Suc (Suc (Suc i))" by simp_all
    with q r B m i show ?thesis
      using utf8_nat_3 [of B q r]
      by (simp add: scalar_nat unat_of_nat_u32 span_of_Cons b_def [symmetric] del: of_nat_add of_nat_mult)
  next
    case 4
    obtain B where B: "b = 240 + B" "B < 16" using 4 b256 by (auto simp: le_iff_add)
    from eq 4 B have m0: "next_cp_more s 3 (Suc i) (of_nat B) = Inr (c, j)" and m: "i + 3 < n"
       "\<not> unat c < 0x10000" "unat c \<le> 0x10ffff"
      by (auto simp: bindE_Inr_iff word_less_nat_alt word_le_nat_alt split: if_splits)
    have B': "B < 67108864" using B by simp
    obtain q where q: "Suc i < length s" "unat (s ! Suc i) = 128 + q" "q < 64"
       and m2: "next_cp_more s (Suc (Suc 0)) (Suc (Suc i)) (of_nat (64 * B + q)) = Inr (c, j)"
      using next_cp_moreE [OF m0 [unfolded numeral_3_eq_3] B'] by blast
    have B2: "64 * B + q < 67108864" using B q by simp
    obtain r where r: "Suc (Suc i) < length s" "unat (s ! Suc (Suc i)) = 128 + r" "r < 64"
       and m3: "next_cp_more s (Suc 0) (Suc (Suc (Suc i))) (of_nat (64 * (64 * B + q) + r)) = Inr (c, j)"
      using next_cp_moreE [OF m2 B2] by blast
    have B3: "64 * (64 * B + q) + r < 67108864" using B q r by simp
    obtain t where t: "Suc (Suc (Suc i)) < length s" "unat (s ! Suc (Suc (Suc i))) = 128 + t" "t < 64"
       and f: "next_cp_more s 0 (Suc (Suc (Suc (Suc i)))) (of_nat (64 * (64 * (64 * B + q) + r) + t)) = Inr (c, j)"
      using next_cp_moreE [OF m3 B3] by blast
    from f have c: "c = of_nat (64 * (64 * (64 * B + q) + r) + t)" "j = Suc (Suc (Suc (Suc i)))" by simp_all
    then have uc: "unat c = 64 * (64 * (64 * B + q) + r) + t"
      using B q r t by (simp add: unat_of_nat_u32 del: of_nat_add of_nat_mult)
    with m B have "B < 8" by simp
    with c(2) uc q r t B m i show ?thesis
      using utf8_nat_4 [of B q r t]
      by (simp add: scalar_nat span_of_Cons b_def [symmetric] del: of_nat_add of_nat_mult)
  qed
qed

section \<open>Encoding and decoding are inverse\<close>

lemma map_unat_eq_iff [simp]: "map unat xs = map unat ys \<longleftrightarrow> xs = (ys :: bytes)"
  by (rule inj_map_eq_map) (simp add: inj_on_def word_unat_eq_iff)

lemma scalar_utf8_nat: "scalar c \<Longrightarrow> utf8_nat (unat c) = map unat (put_utf8 c)"
  by (simp add: put_utf8_nat scalar_def)

lemma put_utf8_nonempty [simp]: "put_utf8 c \<noteq> []" "0 < length (put_utf8 c)"
  by (simp_all add: put_utf8_def)

lemma length_put_utf8_le: "length (put_utf8 c) \<le> 4"
  by (simp add: put_utf8_def)

lemma next_cp_encoded:
  assumes "scalar c" "span_of s i j = put_utf8 c" "j = i + length (put_utf8 c)" "j \<le> n" "n \<le> length s"
  shows "next_cp s n i = Inr (c, j)"
  using next_cp_enc [OF assms(1) refl, of s i n] assms by (simp add: scalar_utf8_nat)

lemma next_cp_put_utf8:
  assumes "scalar c" "length pre + length (put_utf8 c) \<le> n" "n \<le> length (pre @ put_utf8 c @ suf)"
  shows "next_cp (pre @ put_utf8 c @ suf) n (length pre) = Inr (c, length pre + length (put_utf8 c))"
  using assms by (intro next_cp_encoded) simp_all

lemma next_cp_sound:
  assumes "next_cp s n i = Inr (c, j)"
  shows "scalar c" "span_of s i j = put_utf8 c" "j = i + length (put_utf8 c)" "j \<le> length s"
    "i < n \<Longrightarrow> j \<le> n" "i < j"
  using next_cp_dec [OF assms] by (auto simp: scalar_utf8_nat)

lemma next_cp_more_defined:
  "i + more \<le> length s \<Longrightarrow> defined (next_cp_more s more i v)"
  by (induction more arbitrary: i v) (auto simp: next_cp_more.simps(2) rd_def)

lemma next_cp_defined: "i < n \<Longrightarrow> n \<le> length s \<Longrightarrow> defined (next_cp s n i)"
  by (auto simp: next_cp_def Let_def rd_def split: if_splits
      intro!: defined_bindE next_cp_more_defined)


section \<open>The interface of a byte code\<close>

text \<open>
  What a client relies on: an encoder into non-empty byte strings and a decoder at an index
  that accepts exactly the encodings. A scan that decodes item after item then accepts
  exactly the concatenations, and the items are determined by the bytes.
\<close>

locale byte_code =
  fixes enc :: "'a \<Rightarrow> bytes"
    and dec :: "bytes \<Rightarrow> nat \<Rightarrow> nat \<Rightarrow> ('a \<times> nat) result"
    and ok :: "'a \<Rightarrow> bool"
    and scan :: "nat \<Rightarrow> bytes \<Rightarrow> nat \<Rightarrow> nat \<Rightarrow> 'a list result"
  assumes enc_nonempty: "enc a \<noteq> []"
    and dec_enc: "ok a \<Longrightarrow> span_of s i j = enc a \<Longrightarrow> j = i + length (enc a) \<Longrightarrow> j \<le> n \<Longrightarrow>
      n \<le> length s \<Longrightarrow> dec s n i = Inr (a, j)"
    and dec_sound: "dec s n i = Inr (a, j) \<Longrightarrow> i < n \<Longrightarrow> n \<le> length s \<Longrightarrow>
      ok a \<and> span_of s i j = enc a \<and> i < j \<and> j \<le> n"
    and dec_defined: "i < n \<Longrightarrow> n \<le> length s \<Longrightarrow> defined (dec s n i)"
    and scan_end: "\<not> i < n \<Longrightarrow> scan f s n i = Inr []"
    and scan_fuel: "i < n \<Longrightarrow> scan 0 s n i = Inl OutOfFuel"
    and scan_step: "i < n \<Longrightarrow> scan (Suc f) s n i =
      bindE (dec s n i) (\<lambda>(a, j). bindE (scan f s n j) (\<lambda>as. Inr (a # as)))"
begin

lemma scan_sound:
  "scan f s n i = Inr xs \<Longrightarrow> i \<le> n \<Longrightarrow> n \<le> length s \<Longrightarrow>
     list_all ok xs \<and> span_of s i n = concat (map enc xs)"
proof (induction f arbitrary: i xs)
  case 0
  then show ?case by (cases "i < n") (auto simp: scan_fuel scan_end)
next
  case (Suc f)
  show ?case
  proof (cases "i < n")
    case True
    with Suc.prems obtain a j as where a: "dec s n i = Inr (a, j)"
      and as: "scan f s n j = Inr as" and xs: "xs = a # as"
      by (auto simp: scan_step bindE_Inr_iff)
    from dec_sound [OF a True Suc.prems(3)] have j: "ok a" "span_of s i j = enc a" "i < j" "j \<le> n"
      by auto
    from Suc.IH [OF as j(4) Suc.prems(3)] xs j span_of_split [of i j n s] show ?thesis by simp
  next
    case False
    with Suc.prems show ?thesis by (simp add: scan_end)
  qed
qed

lemma scan_complete:
  "list_all ok xs \<Longrightarrow> span_of s i n = concat (map enc xs) \<Longrightarrow> i \<le> n \<Longrightarrow> n \<le> length s \<Longrightarrow>
     length xs \<le> f \<Longrightarrow> scan f s n i = Inr xs"
proof (induction xs arbitrary: i f)
  case Nil
  then have "n - i = 0" using length_span_of [of n s i] by simp
  with Nil.prems have "\<not> i < n" by simp
  then show ?case by (simp add: scan_end)
next
  case (Cons a xs)
  let ?j = "i + length (enc a)"
  have len: "n - i = length (enc a) + length (concat (map enc xs))"
    using Cons.prems length_span_of [of n s i] by simp
  then have j: "?j \<le> n" and i: "i < n"
    using enc_nonempty [of a] Cons.prems by (cases "enc a"; simp)+
  have "span_of s i ?j @ span_of s ?j n = enc a @ concat (map enc xs)"
    using Cons.prems j span_of_split [of i ?j n s] by simp
  moreover have "length (span_of s i ?j) = length (enc a)"
    using j Cons.prems by simp
  ultimately have sp: "span_of s i ?j = enc a" "span_of s ?j n = concat (map enc xs)"
    by (simp_all add: append_eq_append_conv)
  obtain g where f: "f = Suc g" using Cons.prems by (cases f) auto
  have "scan g s n ?j = Inr xs" using Cons sp j f by simp
  moreover have "dec s n i = Inr (a, ?j)" using Cons.prems sp j by (intro dec_enc) simp_all
  ultimately show ?case using i f by (simp add: scan_step)
qed

lemma length_le_concat: "length xs \<le> length (concat (map enc xs))"
proof (induction xs)
  case (Cons a xs)
  then show ?case using enc_nonempty [of a] by (cases "enc a") simp_all
qed simp

lemma scan_iff:
  assumes "i \<le> n" "n \<le> length s" "n - i \<le> f"
  shows "scan f s n i = Inr xs \<longleftrightarrow> list_all ok xs \<and> span_of s i n = concat (map enc xs)"
proof
  assume "scan f s n i = Inr xs"
  then show "list_all ok xs \<and> span_of s i n = concat (map enc xs)"
    using assms by (intro scan_sound) simp_all
next
  assume r: "list_all ok xs \<and> span_of s i n = concat (map enc xs)"
  then have "length xs \<le> n - i"
    using length_le_concat [of xs] length_span_of [of n s i] assms by simp
  then show "scan f s n i = Inr xs" using r assms by (intro scan_complete) simp_all
qed

lemma scan_defined: "n \<le> length s \<Longrightarrow> n - i \<le> f \<Longrightarrow> defined (scan f s n i)"
proof (induction f arbitrary: i)
  case 0
  then show ?case by (simp add: scan_end)
next
  case (Suc f)
  show ?case
  proof (cases "i < n")
    case True
    have "defined (bindE (dec s n i) (\<lambda>(a, j). bindE (scan f s n j) (\<lambda>as. Inr (a # as))))"
    proof (rule defined_bindE)
      show "defined (dec s n i)" using True Suc.prems by (intro dec_defined)
      fix p assume p: "dec s n i = Inr p"
      obtain a j where aj: "p = (a, j)" by fastforce
      then have "i < j" using dec_sound [of s n i a j] p True Suc.prems by simp
      then have "defined (scan f s n j)" using Suc.prems by (intro Suc.IH) simp_all
      then show "defined (case p of (a, j) \<Rightarrow> bindE (scan f s n j) (\<lambda>as. Inr (a # as)))"
        using aj by (simp add: defined_bindE)
    qed
    then show ?thesis using True by (simp add: scan_step)
  qed (simp add: scan_end)
qed

end

interpretation utf8: byte_code put_utf8 next_cp scalar utf8_scan
proof
  fix c s i j n
  show "scalar c \<Longrightarrow> span_of s i j = put_utf8 c \<Longrightarrow> j = i + length (put_utf8 c) \<Longrightarrow> j \<le> n \<Longrightarrow>
      n \<le> length s \<Longrightarrow> next_cp s n i = Inr (c, j)"
    by (rule next_cp_encoded)
next
  fix c s i j n
  assume "next_cp s n i = Inr (c, j)" "i < n" "n \<le> length s"
  with next_cp_sound [of s n i c j]
  show "scalar c \<and> span_of s i j = put_utf8 c \<and> i < j \<and> j \<le> n" by simp
next
  fix i n f s
  show "\<not> i < n \<Longrightarrow> utf8_scan f s n i = Inr []" by (cases f) simp_all
qed (simp_all add: next_cp_defined)

text \<open>The byte strings that the program accepts as UTF-8.\<close>

definition utf8_ok :: "bytes \<Rightarrow> bool" where
  "utf8_ok s \<longleftrightarrow> (\<exists>cs. list_all scalar cs \<and> s = concat (map put_utf8 cs))"

lemma utf8_scan_iff:
  assumes "n \<le> length s" "n \<le> f"
  shows "utf8_scan f s n 0 = Inr cs \<longleftrightarrow> list_all scalar cs \<and> take n s = concat (map put_utf8 cs)"
  using utf8.scan_iff [of 0 n s f cs] assms by (simp add: span_of_def)

lemma utf8_scan_ok: "utf8_ok s \<longleftrightarrow> (\<exists>cs. utf8_scan (length s) s (length s) 0 = Inr cs)"
  by (simp add: utf8_scan_iff utf8_ok_def)

lemma utf8_ok_simps [simp]: "utf8_ok []" 
  by (auto simp: utf8_ok_def intro: exI [of _ "[]"])

lemma utf8_ok_append: "utf8_ok s \<Longrightarrow> utf8_ok t \<Longrightarrow> utf8_ok (s @ t)"
proof -
  assume "utf8_ok s" "utf8_ok t"
  then obtain cs ds where "list_all scalar cs" "s = concat (map put_utf8 cs)"
    "list_all scalar ds" "t = concat (map put_utf8 ds)"
    by (auto simp: utf8_ok_def)
  then have "list_all scalar (cs @ ds) \<and> s @ t = concat (map put_utf8 (cs @ ds))" by simp
  then show ?thesis unfolding utf8_ok_def by blast
qed

lemma utf8_ok_put_utf8: "scalar c \<Longrightarrow> utf8_ok (put_utf8 c)"
  unfolding utf8_ok_def by (intro exI [of _ "[c]"]) simp

lemma utf8_unique:
  assumes "list_all scalar cs" "list_all scalar ds"
    "concat (map put_utf8 cs) = concat (map put_utf8 ds)"
  shows "cs = ds"
proof -
  let ?s = "concat (map put_utf8 cs)"
  have "utf8_scan (length ?s) ?s (length ?s) 0 = Inr cs"
    using assms by (simp add: utf8_scan_iff)
  moreover have "utf8_scan (length ?s) ?s (length ?s) 0 = Inr ds"
    using assms by (simp add: utf8_scan_iff)
  ultimately show ?thesis by simp
qed

section \<open>Properties\<close>

text \<open>
  C5. The program's UTF-8 check accepts exactly the concatenations of encoded Unicode scalar
  values: no overlong form, no surrogate, nothing above U+10FFFF, no truncated sequence; and it
  returns the code points that \<open>put_utf8\<close> encodes to those bytes.
\<close>

theorem utf8_scan_exact:
  assumes "n \<le> length s"
  shows "utf8_scan n s n 0 = Inr cs \<longleftrightarrow> list_all scalar cs \<and> take n s = concat (map put_utf8 cs)"
  using assms by (rule utf8_scan_iff) simp

theorem utf8_scan_exact_witness:
  "utf8_scan 5 [0x68, 0xe2, 0x82, 0xac, 0x21] 5 0 = Inr [0x68, 0x20ac, 0x21]"
proof -
  have "(5 :: nat) \<le> length [0x68, 0xe2, 0x82, 0xac, 0x21 :: byte]" by simp
  note utf8_scan_exact [OF this, of "[0x68, 0x20ac, 0x21]"]
  moreover have "list_all scalar [0x68, 0x20ac, 0x21] \<and>
      take 5 [0x68, 0xe2, 0x82, 0xac, 0x21] = concat (map put_utf8 [0x68, 0x20ac, 0x21])"
    by (simp add: scalar_def) code_simp
  ultimately show ?thesis by blast
qed

text \<open>
  C6. Decoding at any index of a longer text gives back the code point that \<open>put_utf8\<close> wrote
  there, and moves on by exactly the bytes it wrote.
\<close>

theorem utf8_decode_encode:
  assumes "scalar c"
  shows "next_cp (pre @ put_utf8 c @ suf) (length (pre @ put_utf8 c @ suf)) (length pre) =
    Inr (c, length pre + length (put_utf8 c))"
  using assms by (intro next_cp_put_utf8) simp_all

theorem utf8_decode_encode_witness:
  "next_cp ([0x41] @ put_utf8 0x1f600 @ [0x42]) (length ([0x41] @ put_utf8 0x1f600 @ [0x42])) (length [0x41 :: byte]) =
    Inr (0x1f600, length [0x41 :: byte] + length (put_utf8 0x1f600))"
  by (rule utf8_decode_encode) (simp add: scalar_def)

end
