(* ===== verification/Arena.thy ===== *)
theory Arena
  imports Prelude
begin

text \<open>
  Size arithmetic and the bump allocator of \<open>src/foundation.inc\<close>, and the planning function
  of \<open>src/engine.inc\<close> that sizes an arena in advance. Sizes are natural numbers that stand
  for \<open>size_t\<close> values, so every overflow test of the code is written out; the mask of
  \<open>jb_align_up\<close> is taken on 64-bit words.

  The lemmas give the arithmetic meaning of the checked operations, the alignment, bounds and
  disjointness of what an arena hands out, and the agreement of plan and allocator: an arena
  of the planned size serves the planned requests without failing.
\<close>

section \<open>Checked sizes\<close>

definition jb_size_add :: "nat \<Rightarrow> nat \<Rightarrow> nat result" where
  "jb_size_add a b =
     (if b > UINT64_MAX - a then die ''allocation size overflow'' else Inr (a + b))"

definition jb_size_mul :: "nat \<Rightarrow> nat \<Rightarrow> nat result" where
  "jb_size_mul a b =
     (if a \<noteq> 0 \<and> b > UINT64_MAX div a then die ''allocation size overflow'' else Inr (a * b))"

definition jb_align_up :: "nat \<Rightarrow> nat \<Rightarrow> nat result" where
  "jb_align_up n alignment =
     (if alignment = 0 \<or> unat ((of_nat alignment :: size_t) AND (of_nat (alignment - 1))) \<noteq> 0
      then die_status JB_ERROR_INTERNAL ''invalid arena alignment''
      else bindE (jb_size_add n (alignment - 1)) (\<lambda>m.
        Inr (unat ((of_nat m :: size_t) AND NOT (of_nat (alignment - 1))))))"

section \<open>The arena\<close>

text \<open>
  \<open>JBArena\<close> without its base pointer: the memory is the addresses \<open>[0, arena_size)\<close> from a
  base that \<open>jb_arena_init\<close> aligns to 64 bytes, and \<open>arena_allocated\<close> is false for the zeroed
  structure, whose \<open>allocation\<close> is NULL.
\<close>

record JBArena =
  arena_allocated :: bool
  arena_size :: nat
  arena_used :: nat
  arena_peak :: nat

definition arena_zero :: JBArena where
  "arena_zero = \<lparr>arena_allocated = False, arena_size = 0, arena_used = 0, arena_peak = 0\<rparr>"

definition jb_arena_init :: "nat \<Rightarrow> JBArena result" where
  "jb_arena_init sz =
     bindE (jb_size_add (if sz \<noteq> 0 then sz else 1) (64 - 1)) (\<lambda>allocation_size.
       Inr \<lparr>arena_allocated = True, arena_size = sz, arena_used = 0, arena_peak = 0\<rparr>)"

text \<open>The offset from the base of the block handed out, and the arena after it.\<close>

definition jb_arena_alloc :: "JBArena \<Rightarrow> nat \<Rightarrow> nat \<Rightarrow> (nat \<times> JBArena) result" where
  "jb_arena_alloc a cnt element_size =
     bindE (jb_align_up (arena_used a) 64) (\<lambda>start.
     bindE (jb_size_mul cnt element_size) (\<lambda>nbytes.
     bindE (jb_size_add start nbytes) (\<lambda>last.
       if last > arena_size a
       then die_status JB_ERROR_INTERNAL ''inference workspace plan is too small''
       else Inr (start, a\<lparr>arena_used := last,
                          arena_peak := (if last > arena_peak a then last else arena_peak a)\<rparr>))))"

definition jb_arena_mark :: "JBArena \<Rightarrow> nat" where
  "jb_arena_mark a = arena_used a"

definition jb_arena_reset :: "JBArena \<Rightarrow> nat \<Rightarrow> JBArena result" where
  "jb_arena_reset a mark =
     (if mark > arena_used a then die_status JB_ERROR_INTERNAL ''invalid arena reset''
      else Inr (a\<lparr>arena_used := mark\<rparr>))"

definition jb_arena_free :: "JBArena \<Rightarrow> JBArena" where
  "jb_arena_free a = arena_zero"

text \<open>The grow-only reuse of an arena; the second component is \<open>*capacity\<close>.\<close>

definition jb_arena_reserve :: "JBArena \<Rightarrow> nat \<Rightarrow> nat \<Rightarrow> (JBArena \<times> nat) result" where
  "jb_arena_reserve a capacity required =
     (if required > capacity then
        bindE (jb_arena_init required) (\<lambda>grown. Inr (grown, required))
      else Inr (a\<lparr>arena_size := required, arena_used := 0, arena_peak := 0\<rparr>, capacity))"

text \<open>\<open>jb_workspace_plan\<close> of \<open>src/engine.inc\<close>: the offset a request would end at.\<close>

definition jb_workspace_plan :: "nat \<Rightarrow> nat \<Rightarrow> nat \<Rightarrow> nat result" where
  "jb_workspace_plan used cnt element_size =
     bindE (jb_align_up used 64) (\<lambda>u.
     bindE (jb_size_mul cnt element_size) (\<lambda>m. jb_size_add u m))"


section \<open>The meaning of the checked operations\<close>

lemma jb_size_add_Inr [simp]:
  "a \<le> UINT64_MAX \<Longrightarrow> jb_size_add a b = Inr c \<longleftrightarrow> c = a + b \<and> a + b \<le> UINT64_MAX"
  by (auto simp: jb_size_add_def)

lemma jb_size_add_ok: "a + b \<le> UINT64_MAX \<Longrightarrow> jb_size_add a b = Inr (a + b)"
  by (simp add: jb_size_add_def)

lemma jb_size_mul_Inr [simp]:
  "jb_size_mul a b = Inr c \<longleftrightarrow> c = a * b \<and> a * b \<le> UINT64_MAX"
proof (cases "a = 0")
  case False
  then have "b \<le> UINT64_MAX div a \<longleftrightarrow> a * b \<le> UINT64_MAX"
    by (simp add: less_eq_div_iff_mult_less_eq mult.commute)
  with False show ?thesis by (auto simp: jb_size_mul_def)
qed (simp add: jb_size_mul_def)

lemma jb_size_add_defined [simp, intro]: "defined (jb_size_add a b)"
  by (simp add: jb_size_add_def)

lemma jb_size_mul_defined [simp, intro]: "defined (jb_size_mul a b)"
  by (simp add: jb_size_mul_def)

lemma word_and_not_mask: "x AND NOT (mask k) = push_bit k (drop_bit k (x :: 'a::len word))"
  by (rule bit_word_eqI) (auto simp: bit_simps)

lemma unat_of_nat_size: "x \<le> UINT64_MAX \<Longrightarrow> unat (of_nat x :: size_t) = x"
  by (simp add: unsigned_of_nat take_bit_nat_eq_self)

lemma of_nat_mask: "of_nat (2 ^ k - 1) = (mask k :: 'a::len word)"
  by (metis mask_eq_exp_minus_1 of_nat_mask_eq)

lemma unat_align_down: "unat (push_bit k (drop_bit k (w :: size_t))) = unat w div 2 ^ k * 2 ^ k"
proof -
  have "unat w div 2 ^ k * 2 ^ k < 18446744073709551616"
    using div_times_less_eq_dividend [of "unat w" "2 ^ k"] nat_less_2_power [of w] by linarith
  then have "take_bit 64 (push_bit k (unat w div 2 ^ k)) = unat w div 2 ^ k * 2 ^ k"
    by (simp add: push_bit_eq_mult take_bit_nat_eq_self)
  then show ?thesis
    by (simp only: unsigned_push_bit_eq unat_drop_bit) simp
qed

lemma unat_align_mask:
  assumes "m \<le> UINT64_MAX"
  shows "unat ((of_nat m :: size_t) AND NOT (of_nat (2 ^ k - 1))) = m div 2 ^ k * 2 ^ k"
  using assms by (simp only: of_nat_mask word_and_not_mask unat_align_down unat_of_nat_size)

lemma power_of_two_test: "(of_nat (2 ^ k) :: size_t) AND of_nat (2 ^ k - 1) = 0"
  unfolding of_nat_mask by (rule bit_word_eqI) (auto simp: bit_simps)

text \<open>For a power of two, rounding up gives the least multiple that is not below.\<close>

lemma jb_align_up_eq:
  "jb_align_up n (2 ^ k) =
     bindE (jb_size_add n (2 ^ k - 1)) (\<lambda>m. Inr (m div 2 ^ k * 2 ^ k))" if "n \<le> UINT64_MAX"
proof -
  have "bindE (jb_size_add n (2 ^ k - 1)) (\<lambda>m.
        Inr (unat ((of_nat m :: size_t) AND NOT (of_nat (2 ^ k - 1))))) =
     bindE (jb_size_add n (2 ^ k - 1)) (\<lambda>m. Inr (m div 2 ^ k * 2 ^ k))"
    using that by (intro bindE_cong refl) (simp only: jb_size_add_Inr unat_align_mask)
  moreover have "(2 :: nat) ^ k \<noteq> 0" by simp
  ultimately show ?thesis
    by (simp only: jb_align_up_def power_of_two_test unsigned_0 simp_thms if_False)
qed

lemma jb_align_up_64:
  assumes "n \<le> UINT64_MAX"
  shows "jb_align_up n 64 =
    (if n + 63 \<le> UINT64_MAX then Inr ((n + 63) div 64 * 64) else die ''allocation size overflow'')"
proof (cases "n + 63 \<le> UINT64_MAX")
  case True
  then have "jb_size_add n 63 = Inr (n + 63)" by (rule jb_size_add_ok)
  with True jb_align_up_eq [OF assms, of 6] show ?thesis by simp
next
  case False
  then have "63 > UINT64_MAX - n" using assms by linarith
  then have "jb_size_add n 63 = die ''allocation size overflow''"
    by (simp add: jb_size_add_def)
  with False jb_align_up_eq [OF assms, of 6] show ?thesis by simp
qed

lemma align_64:
  fixes n :: nat
  shows "n \<le> (n + 63) div 64 * 64" "(n + 63) div 64 * 64 \<le> n + 63" "64 dvd (n + 63) div 64 * 64"
  by presburger+


section \<open>Plans and allocators agree\<close>

text \<open>A sequence of requests, planned and then made; the offsets come back in order.\<close>

fun plan_all :: "(nat \<Rightarrow> 'r \<Rightarrow> nat result) \<Rightarrow> nat \<Rightarrow> 'r list \<Rightarrow> nat result" where
  "plan_all plan u [] = Inr u"
| "plan_all plan u (r # rs) = bindE (plan u r) (\<lambda>v. plan_all plan v rs)"

fun alloc_all :: "('a \<Rightarrow> 'r \<Rightarrow> (nat \<times> 'a) result) \<Rightarrow> 'a \<Rightarrow> 'r list \<Rightarrow> (nat list \<times> 'a) result" where
  "alloc_all alloc a [] = Inr ([], a)"
| "alloc_all alloc a (r # rs) =
     bindE (alloc a r) (\<lambda>(off, a').
     bindE (alloc_all alloc a' rs) (\<lambda>(offs, a''). Inr (off # offs, a'')))"

text \<open>
  Blocks \<open>[off, off + len)\<close> from \<open>lo\<close> to \<open>hi\<close>: aligned, in order, each after the end of the
  previous one.
\<close>

fun blocks_ok :: "('r \<Rightarrow> nat) \<Rightarrow> nat \<Rightarrow> nat list \<Rightarrow> 'r list \<Rightarrow> nat \<Rightarrow> bool" where
  "blocks_ok len lo [] [] hi \<longleftrightarrow> lo \<le> hi"
| "blocks_ok len lo (off # offs) (r # rs) hi \<longleftrightarrow>
     lo \<le> off \<and> 64 dvd off \<and> blocks_ok len (off + len r) offs rs hi"
| "blocks_ok len lo _ _ hi \<longleftrightarrow> False"

text \<open>
  A planning function and an allocator for the same requests: a request costs the allocator
  exactly what the plan says, and succeeds as long as the planned end is inside the arena.
\<close>

locale planned_allocator =
  fixes plan :: "nat \<Rightarrow> 'r \<Rightarrow> nat result"
    and alloc :: "'a \<Rightarrow> 'r \<Rightarrow> (nat \<times> 'a) result"
    and used :: "'a \<Rightarrow> nat"
    and size :: "'a \<Rightarrow> nat"
    and bytes_of :: "'r \<Rightarrow> nat"
  assumes plan_grows: "u \<le> UINT64_MAX \<Longrightarrow> plan u r = Inr v \<Longrightarrow> u \<le> v \<and> v \<le> UINT64_MAX"
    and alloc_as_planned: "used a \<le> UINT64_MAX \<Longrightarrow> plan (used a) r = Inr v \<Longrightarrow> v \<le> size a \<Longrightarrow>
      \<exists>off a'. alloc a r = Inr (off, a') \<and> used a' = v \<and> size a' = size a \<and>
        used a \<le> off \<and> 64 dvd off \<and> off + bytes_of r = v"
begin

lemma plan_all_grows: "u \<le> UINT64_MAX \<Longrightarrow> plan_all plan u rs = Inr v \<Longrightarrow> u \<le> v"
proof (induction rs arbitrary: u)
  case (Cons r rs)
  then obtain w where "plan u r = Inr w" "plan_all plan w rs = Inr v" by (auto simp: bindE_Inr_iff)
  with Cons plan_grows [of u r w] show ?case by (meson le_trans)
qed simp

lemma alloc_all_as_planned:
  "used a \<le> UINT64_MAX \<Longrightarrow> plan_all plan (used a) rs = Inr v \<Longrightarrow> v \<le> size a \<Longrightarrow>
     \<exists>offs a'. alloc_all alloc a rs = Inr (offs, a') \<and> used a' = v \<and> size a' = size a \<and>
       blocks_ok bytes_of (used a) offs rs v"
proof (induction rs arbitrary: a)
  case (Cons r rs)
  then obtain w where w: "plan (used a) r = Inr w" "plan_all plan w rs = Inr v"
    by (auto simp: bindE_Inr_iff)
  from plan_grows [OF Cons.prems(1) w(1)] have wm: "w \<le> UINT64_MAX" by simp
  with w plan_all_grows have "w \<le> size a" using Cons.prems(3) by (meson le_trans)
  from alloc_as_planned [OF Cons.prems(1) w(1) this] obtain off a' where
    a': "alloc a r = Inr (off, a')" "used a' = w" "size a' = size a" "used a \<le> off" "64 dvd off"
      "off + bytes_of r = w" by blast
  with Cons.IH [of a'] w wm Cons.prems(3) obtain offs a'' where
    "alloc_all alloc a' rs = Inr (offs, a'')" "used a'' = v" "size a'' = size a" "blocks_ok bytes_of w offs rs v"
    by auto
  with a' show ?case by auto
qed simp

end

text \<open>Requests to an arena: how many elements, of how many bytes each.\<close>

type_synonym request = "nat \<times> nat"

lemma jb_workspace_plan_Inr:
  assumes "u \<le> UINT64_MAX"
  shows "jb_workspace_plan u c z = Inr v \<longleftrightarrow>
    u + 63 \<le> UINT64_MAX \<and> v = (u + 63) div 64 * 64 + c * z \<and> v \<le> UINT64_MAX"
proof -
  have "(u + 63) div 64 * 64 \<le> UINT64_MAX" if "u + 63 \<le> UINT64_MAX"
    using align_64(2) [of u] that by linarith
  then show ?thesis
    using assms by (auto simp: jb_workspace_plan_def jb_align_up_64 bindE_Inr_iff)
qed

lemma jb_arena_alloc_as_planned:
  assumes "arena_used a \<le> UINT64_MAX" "jb_workspace_plan (arena_used a) c z = Inr v"
    "v \<le> arena_size a"
  shows "jb_arena_alloc a c z = Inr ((arena_used a + 63) div 64 * 64,
     a\<lparr>arena_used := v, arena_peak := (if v > arena_peak a then v else arena_peak a)\<rparr>)"
proof -
  let ?s = "(arena_used a + 63) div 64 * 64"
  have v: "arena_used a + 63 \<le> UINT64_MAX" "v = ?s + c * z" "v \<le> UINT64_MAX"
    using assms jb_workspace_plan_Inr [OF assms(1)] by blast+
  then have "c * z \<le> UINT64_MAX" by linarith
  then have "jb_size_mul c z = Inr (c * z)" by (simp only: jb_size_mul_Inr)
  moreover have "jb_size_add ?s (c * z) = Inr v" using v jb_size_add_ok by simp
  ultimately show ?thesis
    using assms v by (simp add: jb_arena_alloc_def jb_align_up_64 del: jb_size_mul_Inr jb_size_add_Inr)
qed

interpretation arena: planned_allocator
  "\<lambda>u (r :: request). jb_workspace_plan u (fst r) (snd r)"
  "\<lambda>a r. jb_arena_alloc a (fst r) (snd r)"
  arena_used arena_size "\<lambda>r. fst r * snd r"
proof
  fix u v and r :: request
  assume "u \<le> UINT64_MAX" "jb_workspace_plan u (fst r) (snd r) = Inr v"
  then show "u \<le> v \<and> v \<le> UINT64_MAX"
    using align_64(1) [of u] by (auto simp: jb_workspace_plan_Inr intro: le_trans)
next
  fix a :: JBArena and v and r :: request
  assume u: "arena_used a \<le> UINT64_MAX" and p: "jb_workspace_plan (arena_used a) (fst r) (snd r) = Inr v"
    and v: "v \<le> arena_size a"
  show "\<exists>off a'. jb_arena_alloc a (fst r) (snd r) = Inr (off, a') \<and> arena_used a' = v \<and>
      arena_size a' = arena_size a \<and> arena_used a \<le> off \<and> 64 dvd off \<and> off + fst r * snd r = v"
    using jb_arena_alloc_as_planned [OF u p v] p u align_64 [of "arena_used a"]
    by (auto simp: jb_workspace_plan_Inr)
qed

text \<open>Blocks in order do not overlap.\<close>

lemma blocks_ok_nth:
  "blocks_ok len lo offs rs hi \<Longrightarrow> i < length rs \<Longrightarrow>
     length offs = length rs \<and> lo \<le> offs ! i \<and> 64 dvd offs ! i \<and> offs ! i + len (rs ! i) \<le> hi"
proof (induction len lo offs rs hi arbitrary: i rule: blocks_ok.induct)
  case (2 len lo off offs r rs hi)
  have hd: "length offs = length rs \<and> off + len r \<le> hi"
  proof (cases rs)
    case Nil
    with "2.prems" show ?thesis by (cases offs) auto
  next
    case (Cons a list)
    with 2 show ?thesis by fastforce
  qed
  show ?case
  proof (cases i)
    case 0
    with hd "2.prems" show ?thesis by auto
  next
    case (Suc k)
    with 2 hd show ?thesis by fastforce
  qed
qed auto

lemma blocks_ok_disjoint:
  "blocks_ok len lo offs rs hi \<Longrightarrow> i < j \<Longrightarrow> j < length rs \<Longrightarrow> offs ! i + len (rs ! i) \<le> offs ! j"
proof (induction len lo offs rs hi arbitrary: i j rule: blocks_ok.induct)
  case (2 len lo off offs r rs hi)
  obtain k where j: "j = Suc k" using "2.prems" by (cases j) auto
  with "2.prems" have k: "k < length rs" by simp
  show ?case
  proof (cases i)
    case 0
    with 2 j k blocks_ok_nth [of len "off + len r" offs rs hi k] show ?thesis by simp
  next
    case (Suc m)
    with 2 j show ?thesis by simp
  qed
qed auto

section \<open>Properties\<close>

text \<open>
  C7. The sizes that a workspace plan adds up are exactly what the arena hands out: when a
  sequence of requests has been planned from 0 and the arena has at least the planned number of
  bytes, every allocation of the sequence succeeds, every block starts at a multiple of 64 bytes
  and lies inside the arena, no two blocks overlap, and the arena ends exactly full to the plan.
\<close>

theorem workspace_plan_sufficient:
  fixes rs :: "request list"
  assumes "plan_all (\<lambda>u r. jb_workspace_plan u (fst r) (snd r)) 0 rs = Inr v" "v \<le> arena_size a"
    "arena_used a = 0"
  shows "\<exists>offs a'. alloc_all (\<lambda>a r. jb_arena_alloc a (fst r) (snd r)) a rs = Inr (offs, a') \<and>
     arena_used a' = v \<and> length offs = length rs \<and>
     (\<forall>i < length rs. 64 dvd offs ! i \<and> offs ! i + fst (rs ! i) * snd (rs ! i) \<le> v \<and>
        (\<forall>j < length rs. i < j \<longrightarrow> offs ! i + fst (rs ! i) * snd (rs ! i) \<le> offs ! j))"
proof -
  have "arena_used a \<le> UINT64_MAX" using assms(3) by simp
  from arena.alloc_all_as_planned [OF this, of rs v] assms obtain offs a' where
    a: "alloc_all (\<lambda>a r. jb_arena_alloc a (fst r) (snd r)) a rs = Inr (offs, a')" "arena_used a' = v"
    and b: "blocks_ok (\<lambda>r. fst r * snd r) 0 offs rs v" by auto
  from b have "length offs = length rs"
    by (cases rs; cases offs) (use blocks_ok_nth [OF b, of 0] in auto)
  with a blocks_ok_nth [OF b] blocks_ok_disjoint [OF b] show ?thesis by (intro exI conjI) auto
qed

theorem workspace_plan_sufficient_witness:
  "\<exists>offs a'. alloc_all (\<lambda>a r. jb_arena_alloc a (fst r) (snd r))
       \<lparr>arena_allocated = True, arena_size = 1000, arena_used = 0, arena_peak = 0\<rparr> [(3, 4), (10, 8)] = Inr (offs, a') \<and>
     arena_used a' = 144"
  using workspace_plan_sufficient [of "[(3, 4), (10, 8)]" 144
      "\<lparr>arena_allocated = True, arena_size = 1000, arena_used = 0, arena_peak = 0\<rparr>"]
  by (simp add: jb_workspace_plan_def jb_align_up_64 jb_size_mul_def jb_size_add_def) blast

end
