(* ===== verification/Order.thy ===== *)
theory Order
  imports Prelude "HOL-Library.Multiset"
begin

text \<open>
  The comparisons, the sort and the search that the program takes from the C library:
  \<open>memcmp\<close> and \<open>strcmp\<close> up to the sign of their result, \<open>qsort\<close> as a sort by the comparison
  (an insertion sort: the C standard fixes only that the result is an ordered permutation)
  and \<open>bsearch\<close> as the binary search over an ordered array. The locales state what a
  comparison must promise for the two to work together; each comparison of the program is an
  interpretation in the theory that defines it.
\<close>

section \<open>Comparing bytes\<close>

fun memcmp :: "bytes \<Rightarrow> bytes \<Rightarrow> int" where
  "memcmp (x # xs) (y # ys) = (if x = y then memcmp xs ys else if x < y then -1 else 1)"
| "memcmp _ _ = 0"

text \<open>\<open>strcmp\<close> on strings given without their terminating NUL.\<close>

fun strcmp :: "bytes \<Rightarrow> bytes \<Rightarrow> int" where
  "strcmp [] [] = 0"
| "strcmp [] (y # ys) = -1"
| "strcmp (x # xs) [] = 1"
| "strcmp (x # xs) (y # ys) = (if x = y then strcmp xs ys else if x < y then -1 else 1)"

text \<open>The string at the start of a buffer: up to its first NUL.\<close>

definition cstr :: "bytes \<Rightarrow> bytes" where
  "cstr s = takeWhile (\<lambda>c. c \<noteq> 0) s"

lemma strcmp_eq_0 [simp]: "strcmp s t = 0 \<longleftrightarrow> s = t"
  by (induction s t rule: strcmp.induct) auto

lemma strcmp_flip: "strcmp s t < 0 \<longleftrightarrow> strcmp t s > 0"
  by (induction s t rule: strcmp.induct) auto

lemma strcmp_trans: "strcmp s t \<le> 0 \<Longrightarrow> strcmp t u \<le> 0 \<Longrightarrow> strcmp s u \<le> 0"
proof (induction s u arbitrary: t rule: strcmp.induct)
  case (3 x xs)
  then show ?case by (cases t) auto
next
  case (4 x xs y ys)
  then show ?case by (cases t) (auto split: if_splits)
qed auto

text \<open>Comparing the common prefix and then the lengths is \<open>strcmp\<close>.\<close>

lemma memcmp_length_strcmp:
  "(let c = memcmp xs ys in
     if c \<noteq> 0 then c
     else (if length xs > length ys then 1 else 0) - (if length xs < length ys then 1 else 0)) =
   strcmp xs ys"
  by (induction xs ys rule: strcmp.induct) (auto simp: Let_def)

lemma memcmp_take:
  "memcmp (take (min (length xs) (length ys)) xs) (take (min (length xs) (length ys)) ys) = memcmp xs ys"
  by (induction xs ys rule: strcmp.induct) auto

section \<open>Sorting and searching\<close>

fun qsort_insert :: "('a \<Rightarrow> 'a \<Rightarrow> int) \<Rightarrow> 'a \<Rightarrow> 'a list \<Rightarrow> 'a list" where
  "qsort_insert cmp x [] = [x]"
| "qsort_insert cmp x (y # ys) = (if cmp x y \<le> 0 then x # y # ys else y # qsort_insert cmp x ys)"

fun qsort :: "('a \<Rightarrow> 'a \<Rightarrow> int) \<Rightarrow> 'a list \<Rightarrow> 'a list" where
  "qsort cmp [] = []"
| "qsort cmp (x # xs) = qsort_insert cmp x (qsort cmp xs)"

text \<open>\<open>bsearch\<close> between the indices \<open>l\<close> and \<open>u\<close>.\<close>

function bsearch_in :: "('k \<Rightarrow> 'a \<Rightarrow> int) \<Rightarrow> 'k \<Rightarrow> 'a list \<Rightarrow> nat \<Rightarrow> nat \<Rightarrow> nat option" where
  "bsearch_in kcmp k xs l u =
     (if l < u then
        let m = (l + u) div 2; c = kcmp k (xs ! m) in
        if c < 0 then bsearch_in kcmp k xs l m
        else if c > 0 then bsearch_in kcmp k xs (Suc m) u
        else Some m
      else None)"
  by pat_completeness auto
termination
  by (relation "measure (\<lambda>(kcmp, k, xs, l, u). u - l)") auto

declare bsearch_in.simps [simp del]

definition bsearch :: "('k \<Rightarrow> 'a \<Rightarrow> int) \<Rightarrow> 'k \<Rightarrow> 'a list \<Rightarrow> nat option" where
  "bsearch kcmp k xs = bsearch_in kcmp k xs 0 (length xs)"

lemma mset_qsort_insert [simp]: "mset (qsort_insert cmp x xs) = add_mset x (mset xs)"
  by (induction xs) auto

lemma mset_qsort [simp]: "mset (qsort cmp xs) = mset xs"
  by (induction xs) auto

lemma set_qsort [simp]: "set (qsort cmp xs) = set xs"
  by (metis mset_qsort set_mset_mset)

lemma length_qsort [simp]: "length (qsort cmp xs) = length xs"
  by (metis mset_qsort size_mset)

lemma distinct_map_qsort: "distinct (map f (qsort cmp xs)) \<longleftrightarrow> distinct (map f xs)"
  by (metis distinct_count_atmost_1 mset_map mset_qsort set_map set_qsort
      mset_eq_imp_distinct_iff)

locale total_cmp =
  fixes cmp :: "'a \<Rightarrow> 'a \<Rightarrow> int"
  assumes cmp_flip: "cmp x y < 0 \<longleftrightarrow> cmp y x > 0"
    and cmp_trans: "cmp x y \<le> 0 \<Longrightarrow> cmp y z \<le> 0 \<Longrightarrow> cmp x z \<le> 0"
begin

lemma cmp_refl [simp]: "cmp x x = 0"
  using cmp_flip [of x x] by (cases "cmp x x < 0") auto

lemma cmp_le_total: "cmp x y \<le> 0 \<or> cmp y x \<le> 0"
  using cmp_flip [of x y] cmp_flip [of y x] by linarith

lemma sorted_qsort_insert:
  "sorted_wrt (\<lambda>x y. cmp x y \<le> 0) xs \<Longrightarrow> sorted_wrt (\<lambda>x y. cmp x y \<le> 0) (qsort_insert cmp x xs)"
proof (induction xs)
  case (Cons y ys)
  have set: "set (qsort_insert cmp x ys) = insert x (set ys)"
    by (metis mset_qsort_insert set_mset_mset set_mset_add_mset_insert)
  show ?case
  proof (cases "cmp x y \<le> 0")
    case True
    with Cons.prems show ?thesis by (auto intro: cmp_trans [of x y])
  next
    case False
    then have "cmp y x \<le> 0" using cmp_le_total [of x y] by blast
    with False Cons set show ?thesis by auto
  qed
qed simp

lemma sorted_qsort: "sorted_wrt (\<lambda>x y. cmp x y \<le> 0) (qsort cmp xs)"
  by (induction xs) (auto intro: sorted_qsort_insert)

text \<open>In an ordered array, equal elements are neighbours.\<close>

lemma adjacent_equal:
  "sorted_wrt (\<lambda>x y. cmp x y \<le> 0) xs \<Longrightarrow>
     (\<forall>i. Suc i < length xs \<longrightarrow> cmp (xs ! i) (xs ! Suc i) \<noteq> 0) \<Longrightarrow>
     i < j \<Longrightarrow> j < length xs \<Longrightarrow> cmp (xs ! i) (xs ! j) \<noteq> 0"
proof
  assume s: "sorted_wrt (\<lambda>x y. cmp x y \<le> 0) xs"
    and n: "\<forall>i. Suc i < length xs \<longrightarrow> cmp (xs ! i) (xs ! Suc i) \<noteq> 0"
    and ij: "i < j" "j < length xs" and eq: "cmp (xs ! i) (xs ! j) = 0"
  have "cmp (xs ! i) (xs ! Suc i) \<le> 0" using s ij by (simp add: sorted_wrt_iff_nth_less)
  moreover have "cmp (xs ! Suc i) (xs ! j) \<le> 0"
  proof (cases "Suc i = j")
    case True
    then show ?thesis by simp
  next
    case False
    then show ?thesis using s ij by (simp add: sorted_wrt_iff_nth_less)
  qed
  moreover have "cmp (xs ! j) (xs ! i) \<le> 0"
    using eq cmp_flip [of "xs ! i" "xs ! j"] by linarith
  ultimately have "cmp (xs ! Suc i) (xs ! i) \<le> 0"
    by (blast intro: cmp_trans)
  with \<open>cmp (xs ! i) (xs ! Suc i) \<le> 0\<close> n ij show False
    using cmp_flip [of "xs ! i" "xs ! Suc i"] by force
qed

end

text \<open>A key compared with an element, along an order of the elements.\<close>

locale key_cmp = total_cmp cmp for cmp :: "'a \<Rightarrow> 'a \<Rightarrow> int" +
  fixes kcmp :: "'k \<Rightarrow> 'a \<Rightarrow> int"
  assumes kcmp_up: "kcmp k x < 0 \<Longrightarrow> cmp x y \<le> 0 \<Longrightarrow> kcmp k y < 0"
    and kcmp_down: "kcmp k y > 0 \<Longrightarrow> cmp x y \<le> 0 \<Longrightarrow> kcmp k x > 0"
begin

lemma bsearch_in_Some:
  "bsearch_in kcmp k xs l u = Some i \<Longrightarrow> l \<le> i \<and> i < u \<and> kcmp k (xs ! i) = 0"
proof (induction kcmp k xs l u rule: bsearch_in.induct)
  case (1 kcmp k xs l u)
  let ?m = "(l + u) div 2"
  have r: "l < u" "kcmp k (xs ! ?m) < 0 \<and> bsearch_in kcmp k xs l ?m = Some i \<or>
      kcmp k (xs ! ?m) > 0 \<and> bsearch_in kcmp k xs (Suc ?m) u = Some i \<or> kcmp k (xs ! ?m) = 0 \<and> ?m = i"
    using "1.prems" by (subst (asm) bsearch_in.simps; auto simp: Let_def split: if_splits)+
  then have m: "l \<le> ?m" "?m < u" by auto
  from r(2) show ?case
  proof (elim disjE conjE)
    assume "kcmp k (xs ! ?m) < 0" "bsearch_in kcmp k xs l ?m = Some i"
    with "1.IH"(1) [OF r(1) refl refl] m show ?thesis by simp
  next
    assume "kcmp k (xs ! ?m) > 0" "bsearch_in kcmp k xs (Suc ?m) u = Some i"
    with "1.IH"(2) [OF r(1) refl refl] m show ?thesis by simp
  next
    assume "kcmp k (xs ! ?m) = 0" "?m = i"
    with m show ?thesis by simp
  qed
qed

lemma bsearch_in_None:
  "sorted_wrt (\<lambda>x y. cmp x y \<le> 0) xs \<Longrightarrow> u \<le> length xs \<Longrightarrow> bsearch_in kcmp k xs l u = None \<Longrightarrow>
     l \<le> i \<Longrightarrow> i < u \<Longrightarrow> kcmp k (xs ! i) \<noteq> 0"
proof (induction "u - l" arbitrary: l u rule: less_induct)
  case less
  define m where "m = (l + u) div 2"
  have lu: "l < u" and m: "l \<le> m" "m < u" using less.prems by (auto simp: m_def)
  have le: "i \<le> j \<Longrightarrow> j < length xs \<Longrightarrow> cmp (xs ! i) (xs ! j) \<le> 0" for i j
    using less.prems(1)
    by (cases "i = j") (auto simp: sorted_wrt_iff_nth_less not_less)
  consider "kcmp k (xs ! m) < 0" "bsearch_in kcmp k xs l m = None"
    | "kcmp k (xs ! m) > 0" "bsearch_in kcmp k xs (Suc m) u = None"
    using less.prems(3) lu
    by (subst (asm) bsearch_in.simps) (auto simp: Let_def m_def [symmetric] split: if_splits)
  then show ?case
  proof cases
    case 1
    show ?thesis
    proof (cases "i < m")
      case True
      show ?thesis by (rule less.hyps [of m l]) (use True 1 less.prems m in simp_all)
    next
      case False
      then have "cmp (xs ! m) (xs ! i) \<le> 0" using less.prems by (intro le) auto
      with 1 kcmp_up show ?thesis by fastforce
    qed
  next
    case 2
    show ?thesis
    proof (cases "i \<le> m")
      case True
      then have "cmp (xs ! i) (xs ! m) \<le> 0" using less.prems m by (intro le) auto
      with 2 kcmp_down show ?thesis by fastforce
    next
      case False
      show ?thesis by (rule less.hyps [of u "Suc m"]) (use False 2 less.prems m in simp_all)
    qed
  qed
qed

lemma bsearch_Some: "bsearch kcmp k xs = Some i \<Longrightarrow> i < length xs \<and> kcmp k (xs ! i) = 0"
  by (auto simp: bsearch_def dest: bsearch_in_Some)

lemma bsearch_None:
  "sorted_wrt (\<lambda>x y. cmp x y \<le> 0) xs \<Longrightarrow> bsearch kcmp k xs = None \<longleftrightarrow> (\<forall>x \<in> set xs. kcmp k x \<noteq> 0)"
proof
  assume s: "sorted_wrt (\<lambda>x y. cmp x y \<le> 0) xs"
  show "bsearch kcmp k xs = None \<Longrightarrow> \<forall>x \<in> set xs. kcmp k x \<noteq> 0"
    using bsearch_in_None [OF s le_refl] by (auto simp: bsearch_def in_set_conv_nth)
  show "\<forall>x \<in> set xs. kcmp k x \<noteq> 0 \<Longrightarrow> bsearch kcmp k xs = None"
    by (cases "bsearch kcmp k xs") (auto dest: bsearch_Some)
qed

text \<open>Where the key determines the element, the search is the lookup.\<close>

lemma bsearch_lookup:
  assumes "sorted_wrt (\<lambda>x y. cmp x y \<le> 0) xs" "distinct xs"
    "\<And>x y. x \<in> set xs \<Longrightarrow> y \<in> set xs \<Longrightarrow> kcmp k x = 0 \<Longrightarrow> kcmp k y = 0 \<Longrightarrow> x = y"
    "i < length xs" "kcmp k (xs ! i) = 0"
  shows "bsearch kcmp k xs = Some i"
proof (cases "bsearch kcmp k xs")
  case None
  then show ?thesis using assms bsearch_None by fastforce
next
  case (Some j)
  then have "j < length xs" "kcmp k (xs ! j) = 0" by (auto dest: bsearch_Some)
  with assms have "xs ! i = xs ! j" by (intro assms(3)) simp_all
  with assms \<open>j < length xs\<close> Some show ?thesis by (simp add: nth_eq_iff_index_eq)
qed

end

interpretation strcmp: key_cmp strcmp strcmp
proof
  fix x y z :: bytes
  show "strcmp x y < 0 \<longleftrightarrow> strcmp y x > 0" by (rule strcmp_flip)
  show "strcmp x y \<le> 0 \<Longrightarrow> strcmp y z \<le> 0 \<Longrightarrow> strcmp x z \<le> 0" by (rule strcmp_trans)
next
  fix k x y :: bytes
  show "strcmp k x < 0 \<Longrightarrow> strcmp x y \<le> 0 \<Longrightarrow> strcmp k y < 0"
    using strcmp_trans [of k x y] strcmp_trans [of y k x] strcmp_flip [of k x] strcmp_flip [of y k]
      strcmp_flip [of k y]
    by (metis less_le_not_le linorder_not_le not_less_iff_gr_or_eq order.order_iff_strict strcmp_eq_0)
  show "strcmp k y > 0 \<Longrightarrow> strcmp x y \<le> 0 \<Longrightarrow> strcmp k x > 0"
    using strcmp_trans [of k x y] by linarith
qed

end
