(* ===== verification/Json.thy ===== *)
theory Json
  imports Utf8 Arena Order
begin

text \<open>
  The JSON tokenizer of \<open>src/json.inc\<close>: one pass over the bytes that fills an array of
  tokens, each with its span, its parent's index and its number of children. \<open>pos\<close> is an index
  into the input; a text is at most \<open>JB_MAX_JSON\<close> bytes, so the C \<open>int\<close>s that hold offsets and
  indices never overflow and are natural numbers or integers here.

  The recursion of \<open>json_parse_value\<close> and its container loop take a fuel argument. The lemmas
  show that \<open>json_tokens\<close> always has enough, that nothing is read outside the input, and that
  a token array that comes back is the pre-order of a tree (theory \<open>JsonTree\<close>).
\<close>

section \<open>Tokens and parser state\<close>

datatype jt_type = JT_UNDEF | JT_OBJECT | JT_ARRAY | JT_STRING | JT_PRIMITIVE

record JTok =
  jt_type :: jt_type
  jt_start :: nat
  jt_end :: int
  jt_parent :: int
  jt_size :: nat

record JParser =
  jp_s :: bytes
  jp_n :: nat
  jp_pos :: nat
  jp_t :: "JTok list"
  jp_cap :: nat
  jp_depth :: nat

definition JB_MAX_JSON :: nat where "JB_MAX_JSON = 67108864"
definition JB_MAX_DEPTH :: nat where "JB_MAX_DEPTH = 256"

text \<open>\<open>jt_new\<close> appends a token, growing the array and counting the token as its parent's child.\<close>

definition jt_new :: "JParser \<Rightarrow> jt_type \<Rightarrow> nat \<Rightarrow> int \<Rightarrow> (JParser \<times> nat) result" where
  "jt_new p ty start parent =
     bindE (if length (jp_t p) = jp_cap p then
              (if jp_cap p > INT32_MAX div 2 then die ''JSON token array size overflow''
               else Inr (if jp_cap p \<noteq> 0 then jp_cap p * 2 else 256))
            else Inr (jp_cap p)) (\<lambda>cap.
       let i = length (jp_t p);
           t = jp_t p @ [\<lparr>jt_type = ty, jt_start = start, jt_end = -1, jt_parent = parent, jt_size = 0\<rparr>];
           t = (if parent \<ge> 0
                then t[nat parent := (t ! nat parent)\<lparr>jt_size := Suc (jt_size (t ! nat parent))\<rparr>]
                else t)
       in Inr (p\<lparr>jp_t := t, jp_cap := cap\<rparr>, i))"

section \<open>Character classes\<close>

text \<open>The C locale's classes, which is what a program that never calls \<open>setlocale\<close> has.\<close>

definition isspace :: "byte \<Rightarrow> bool" where
  "isspace c \<longleftrightarrow> c = 32 \<or> (9 \<le> c \<and> c \<le> 13)"

definition isdigit :: "byte \<Rightarrow> bool" where
  "isdigit c \<longleftrightarrow> 48 \<le> c \<and> c \<le> 57"

definition isxdigit :: "byte \<Rightarrow> bool" where
  "isxdigit c \<longleftrightarrow> (48 \<le> c \<and> c \<le> 57) \<or> (65 \<le> c \<and> c \<le> 70) \<or> (97 \<le> c \<and> c \<le> 102)"

definition tolower :: "byte \<Rightarrow> byte" where
  "tolower c = (if 65 \<le> c \<and> c \<le> 90 then c + 32 else c)"

text \<open>\<open>while (i < n && P(s[i])) i++;\<close>\<close>

function skip_while :: "(byte \<Rightarrow> bool) \<Rightarrow> bytes \<Rightarrow> nat \<Rightarrow> nat \<Rightarrow> nat" where
  "skip_while P s n i = (if i < n \<and> P (s ! i) then skip_while P s n (Suc i) else i)"
  by pat_completeness auto
termination
  by (relation "measure (\<lambda>(P, s, n, i). n - i)") auto

declare skip_while.simps [simp del]

section \<open>Primitives\<close>

text \<open>\<open>json_primitive_valid\<close> on the \<open>n\<close> bytes of a primitive's span.\<close>

definition json_exponent :: "bytes \<Rightarrow> nat \<Rightarrow> nat \<Rightarrow> bool" where
  "json_exponent s n i =
     (if i < n \<and> (s ! i = 101 \<or> s ! i = 69) then
        (let i = Suc i;
             i = (if i < n \<and> (s ! i = 43 \<or> s ! i = 45) then Suc i else i);
             j = skip_while isdigit s n i
         in if j = i then False else j = n)
      else i = n)"

definition json_fraction :: "bytes \<Rightarrow> nat \<Rightarrow> nat \<Rightarrow> bool" where
  "json_fraction s n i =
     (if i < n \<and> s ! i = 46 then
        (let i = Suc i; j = skip_while isdigit s n i
         in if j = i then False else json_exponent s n j)
      else json_exponent s n i)"

definition json_primitive_valid :: "bytes \<Rightarrow> nat \<Rightarrow> bool" where
  "json_primitive_valid s n =
     (if (n = 4 \<and> (take 4 s = str ''true'' \<or> take 4 s = str ''null'')) \<or>
         (n = 5 \<and> take 5 s = str ''false'') then True
      else
        let i = (if 0 < n \<and> s ! 0 = 45 then 1 else 0) in
        if i \<ge> n then False
        else if s ! i = 48 then json_fraction s n (Suc i)
        else if s ! i < 49 \<or> s ! i > 57 then False
        else json_fraction s n (skip_while isdigit s n i))"

section \<open>Strings\<close>

text \<open>The four digits after \<open>\\u\<close>: \<open>k\<close> are left, \<open>pos\<close> is the next one.\<close>

fun json_unicode_escape :: "bytes \<Rightarrow> nat \<Rightarrow> nat \<Rightarrow> nat \<Rightarrow> nat result" where
  "json_unicode_escape s n 0 pos = Inr pos"
| "json_unicode_escape s n (Suc k) pos =
     (if pos \<ge> n then die ''bad JSON unicode escape''
      else bindE (rd s pos) (\<lambda>c.
        if \<not> isxdigit c then die ''bad JSON unicode escape''
        else json_unicode_escape s n k (Suc pos)))"

lemma json_unicode_escape_Inr: "json_unicode_escape s n k pos = Inr q \<Longrightarrow> q = pos + k"
  by (induction s n k pos rule: json_unicode_escape.induct) (auto simp: bindE_Inr_iff split: if_splits)

text \<open>The loop of \<open>json_parse_string_tok\<close>: from \<open>pos\<close>, the index after the closing quote.\<close>

function json_string_loop :: "bytes \<Rightarrow> nat \<Rightarrow> nat \<Rightarrow> nat result" where
  "json_string_loop s n pos =
     (if pos < n then
        bindE (rd s pos) (\<lambda>c.
          if c = 34 then Inr (Suc pos)
          else if c = 92 then
            (if Suc pos \<ge> n then die ''bad JSON escape''
             else bindE (rd s (Suc pos)) (\<lambda>c.
               if c = 117 then
                 bindE (json_unicode_escape s n 4 (Suc (Suc pos))) (\<lambda>q. json_string_loop s n q)
               else if c = 0 \<or> c \<notin> set [34, 92, 47, 98, 102, 110, 114, 116]
               then die ''bad JSON escape''
               else json_string_loop s n (Suc (Suc pos))))
          else if c < 0x20 then die ''control byte in JSON string''
          else json_string_loop s n (Suc pos))
      else die ''unterminated JSON string'')"
  by pat_completeness auto
termination
  by (relation "measure (\<lambda>(s, n, pos). n - pos)") (auto dest!: json_unicode_escape_Inr)

declare json_string_loop.simps [simp del]

definition json_parse_string_tok :: "JParser \<Rightarrow> int \<Rightarrow> (JParser \<times> nat) result" where
  "json_parse_string_tok p parent =
     (let pos = Suc (jp_pos p) in
      bindE (jt_new (p\<lparr>jp_pos := pos\<rparr>) JT_STRING pos parent) (\<lambda>(p, i).
      bindE (json_string_loop (jp_s p) (jp_n p) pos) (\<lambda>q.
        Inr (p\<lparr>jp_pos := q, jp_t := (jp_t p)[i := (jp_t p ! i)\<lparr>jt_end := int q - 1\<rparr>]\<rparr>, i))))"

section \<open>Values\<close>

definition skip_space :: "JParser \<Rightarrow> JParser" where
  "skip_space p = p\<lparr>jp_pos := skip_while isspace (jp_s p) (jp_n p) (jp_pos p)\<rparr>"

text \<open>\<open>strchr(",]}:", c)\<close> also finds the terminating NUL.\<close>

definition json_delimiter :: "byte \<Rightarrow> bool" where
  "json_delimiter c \<longleftrightarrow> c \<in> set [44, 93, 125, 58, 0]"

definition json_parse_primitive :: "JParser \<Rightarrow> int \<Rightarrow> (JParser \<times> nat) result" where
  "json_parse_primitive p parent =
     bindE (jt_new p JT_PRIMITIVE (jp_pos p) parent) (\<lambda>(p, i).
       let q = skip_while (\<lambda>c. \<not> isspace c \<and> \<not> json_delimiter c) (jp_s p) (jp_n p) (jp_pos p);
           p' = p\<lparr>jp_pos := q, jp_t := (jp_t p)[i := (jp_t p ! i)\<lparr>jt_end := int q\<rparr>]\<rparr>
       in if q = jp_pos p then die ''bad JSON primitive''
          else if \<not> json_primitive_valid (span_of (jp_s p) (jp_pos p) q) (q - jp_pos p)
          then die ''bad JSON primitive''
          else Inr (p', i))"

text \<open>
  \<open>json_items\<close> is the \<open>while (1)\<close> loop of \<open>json_parse_value\<close> over the container token \<open>i\<close>.
\<close>

fun json_parse_value :: "nat \<Rightarrow> JParser \<Rightarrow> int \<Rightarrow> (JParser \<times> nat) result"
  and json_items :: "nat \<Rightarrow> JParser \<Rightarrow> jt_type \<Rightarrow> nat \<Rightarrow> (JParser \<times> nat) result" where
  "json_parse_value 0 p parent = Inl OutOfFuel"
| "json_parse_value (Suc fuel) p parent =
     (let p = skip_space p in
      if jp_pos p \<ge> jp_n p then die ''missing JSON value''
      else bindE (rd (jp_s p) (jp_pos p)) (\<lambda>c.
        if c = 34 then json_parse_string_tok p parent
        else if c = 123 \<or> c = 91 then
          (let ty = (if c = 123 then JT_OBJECT else JT_ARRAY) in
           bindE (jt_new (p\<lparr>jp_pos := Suc (jp_pos p)\<rparr>) ty (jp_pos p) parent) (\<lambda>(p, i).
             let p = p\<lparr>jp_depth := Suc (jp_depth p)\<rparr> in
             if jp_depth p > JB_MAX_DEPTH then die ''JSON nesting too deep''
             else json_items fuel p ty i))
        else json_parse_primitive p parent))"
| "json_items 0 p ty i = Inl OutOfFuel"
| "json_items (Suc fuel) p ty i =
     (let p = skip_space p in
      if jp_pos p \<ge> jp_n p then die ''unterminated JSON container''
      else bindE (rd (jp_s p) (jp_pos p)) (\<lambda>c.
        if c = (if ty = JT_OBJECT then 125 else 93) then
          Inr (p\<lparr>jp_pos := Suc (jp_pos p),
                 jp_t := (jp_t p)[i := (jp_t p ! i)\<lparr>jt_end := int (Suc (jp_pos p))\<rparr>],
                 jp_depth := jp_depth p - 1\<rparr>, i)
        else bindE (if jt_size (jp_t p ! i) \<noteq> 0 then
                      (if c \<noteq> 44 then die ''expected JSON comma''
                       else Inr (skip_space (p\<lparr>jp_pos := Suc (jp_pos p)\<rparr>)))
                    else Inr p) (\<lambda>p.
          if ty = JT_OBJECT then
            (if jp_pos p \<ge> jp_n p then die ''JSON object key must be a string''
             else bindE (rd (jp_s p) (jp_pos p)) (\<lambda>c.
               if c \<noteq> 34 then die ''JSON object key must be a string''
               else bindE (json_parse_string_tok p (int i)) (\<lambda>(p, _).
                 let p = skip_space p in
                 if jp_pos p \<ge> jp_n p then die ''expected JSON colon''
                 else bindE (rd (jp_s p) (jp_pos p)) (\<lambda>c.
                   if c \<noteq> 58 then die ''expected JSON colon''
                   else bindE (json_parse_value fuel (p\<lparr>jp_pos := Suc (jp_pos p)\<rparr>) (int i)) (\<lambda>(p, _).
                     json_items fuel p ty i)))))
          else bindE (json_parse_value fuel p (int i)) (\<lambda>(p, _). json_items fuel p ty i))))"


section \<open>Decoding a token\<close>

text \<open>
  \<open>hex4\<close> reads four digits that the tokenizer has checked; the arithmetic is unsigned and the
  character is a signed \<open>char\<close> promoted to \<open>int\<close>.
\<close>

fun hex4_loop :: "bytes \<Rightarrow> nat \<Rightarrow> nat \<Rightarrow> u32 \<Rightarrow> u32 result" where
  "hex4_loop j at 0 v = Inr v"
| "hex4_loop j at (Suc k) v =
     bindE (rd j at) (\<lambda>c.
       hex4_loop j (Suc at) k
         (push_bit 4 v + (if sint c \<le> 57 then scast c - 48 else ucast (tolower c) - 97 + 10)))"

definition hex4 :: "bytes \<Rightarrow> nat \<Rightarrow> u32 result" where
  "hex4 j at = hex4_loop j at 4 0"

definition json_unescape :: "byte \<Rightarrow> byte" where
  "json_unescape c =
     (if c = 98 then 8 else if c = 102 then 12 else if c = 110 then 10
      else if c = 114 then 13 else if c = 116 then 9 else c)"

text \<open>
  The loop of \<open>jt_string_copy\<close> over a string token: the bytes written for the input bytes
  \<open>[i, e)\<close>. After \<open>\\u\<close> and four digits the C index \<open>i\<close> is on the last digit, five bytes on.
\<close>

function jt_copy_loop :: "bytes \<Rightarrow> nat \<Rightarrow> nat \<Rightarrow> bytes result" where
  "jt_copy_loop j i e =
     (if i < e then
        bindE (rd j i) (\<lambda>c.
          if c \<noteq> 92 then bindE (jt_copy_loop j (Suc i) e) (\<lambda>z. Inr (c # z))
          else bindE (rd j (i + 1)) (\<lambda>c.
            if c = 117 then
              bindE (hex4 j (i + 2)) (\<lambda>u.
                if u \<ge> 0xd800 \<and> u \<le> 0xdbff then
                  (if i + 5 + 6 \<ge> e then die ''unpaired JSON surrogate''
                   else bindE (rd j (i + 6)) (\<lambda>a. bindE (rd j (i + 7)) (\<lambda>b.
                     if a \<noteq> 92 \<or> b \<noteq> 117 then die ''unpaired JSON surrogate''
                     else bindE (hex4 j (i + 8)) (\<lambda>v.
                       if v < 0xdc00 \<or> v > 0xdfff then die ''unpaired JSON surrogate''
                       else bindE (jt_copy_loop j (i + 12) e) (\<lambda>z.
                         Inr (put_utf8 (0x10000 + push_bit 10 (u - 0xd800) + (v - 0xdc00)) @ z))))))
                else if u \<ge> 0xdc00 \<and> u \<le> 0xdfff then die ''unpaired JSON surrogate''
                else if u = 0 then die ''NUL in JSON string is unsupported''
                else bindE (jt_copy_loop j (i + 6) e) (\<lambda>z. Inr (put_utf8 u @ z)))
            else bindE (jt_copy_loop j (i + 2) e) (\<lambda>z. Inr (json_unescape c # z))))
      else Inr [])"
  by pat_completeness auto
termination
  by (relation "measure (\<lambda>(j, i, e). e - i)") auto

declare jt_copy_loop.simps [simp del]

text \<open>The bytes \<open>jt_string_copy\<close> stores before the NUL; their number is its result.\<close>

definition jt_string_copy :: "bytes \<Rightarrow> JTok \<Rightarrow> bytes result" where
  "jt_string_copy j t =
     (if jt_type t \<noteq> JT_STRING then Inr (span_of j (jt_start t) (nat (jt_end t)))
      else bindE (jt_copy_loop j (jt_start t) (nat (jt_end t))) (\<lambda>z.
        bindE (utf8_scan (length z) z (length z) 0) (\<lambda>_. Inr z)))"

text \<open>\<open>jt_string\<close> allocates room for three bytes per input byte and copies into it.\<close>

definition jt_string :: "bytes \<Rightarrow> JTok \<Rightarrow> bytes result" where
  "jt_string j t = jt_string_copy j t"

section \<open>Looking into the token array\<close>

definition jt_eq :: "bytes \<Rightarrow> JTok \<Rightarrow> bytes \<Rightarrow> bool result" where
  "jt_eq j t z =
     (if jt_type t \<noteq> JT_STRING then Inr False
      else let s = span_of j (jt_start t) (nat (jt_end t)) in
        if 92 \<notin> set s then Inr (length s = length z \<and> memcmp s z = 0)
        else bindE (jt_string j t) (\<lambda>s. Inr (strcmp (cstr s) z = 0)))"

definition jt_literal :: "bytes \<Rightarrow> JTok \<Rightarrow> bytes \<Rightarrow> bool" where
  "jt_literal j t z \<longleftrightarrow>
     jt_type t = JT_PRIMITIVE \<and> jt_end t - int (jt_start t) = int (length z) \<and>
     memcmp (span_of j (jt_start t) (jt_start t + length z)) z = 0"

text \<open>The loop of \<open>jt_obj_get\<close> from token \<open>i\<close>.\<close>

function jt_obj_loop :: "bytes \<Rightarrow> JTok list \<Rightarrow> int \<Rightarrow> bytes \<Rightarrow> nat \<Rightarrow> int result" where
  "jt_obj_loop j t obj key i =
     (if Suc i < length t then
        if jt_parent (t ! i) < obj then Inr (-1)
        else if jt_parent (t ! i) = obj \<and> jt_type (t ! i) = JT_STRING then
          bindE (jt_eq j (t ! i) key) (\<lambda>eq.
            if eq then Inr (int (Suc i)) else jt_obj_loop j t obj key (Suc (Suc i)))
        else jt_obj_loop j t obj key (Suc i)
      else Inr (-1))"
  by pat_completeness auto
termination
  by (relation "measure (\<lambda>(j, t, obj, key, i). length t - i)") auto

declare jt_obj_loop.simps [simp del]

definition jt_obj_get :: "bytes \<Rightarrow> JTok list \<Rightarrow> int \<Rightarrow> bytes \<Rightarrow> int result" where
  "jt_obj_get j t obj key =
     (if obj < 0 \<or> obj \<ge> int (length t) \<or> jt_type (t ! nat obj) \<noteq> JT_OBJECT then Inr (-1)
      else jt_obj_loop j t obj key (Suc (nat obj)))"

fun jt_digits :: "bytes \<Rightarrow> nat \<Rightarrow> nat option" where
  "jt_digits [] v = Some v"
| "jt_digits (c # cs) v = (if c < 48 \<or> c > 57 then None else jt_digits cs (v * 10 + unat c - 48))"

definition jt_nonnegative_int :: "bytes \<Rightarrow> JTok \<Rightarrow> bytes \<Rightarrow> nat result" where
  "jt_nonnegative_int j t name =
     (if jt_type t \<noteq> JT_PRIMITIVE \<or> jt_end t \<le> int (jt_start t) \<or> jt_end t - int (jt_start t) > 9
      then die2 ''expected non-negative integer'' name
      else case jt_digits (span_of j (jt_start t) (nat (jt_end t))) 0 of
        None \<Rightarrow> die2 ''expected non-negative integer'' name
      | Some v \<Rightarrow> Inr v)"

section \<open>Duplicate keys\<close>

text \<open>
  The key tokens of the object \<open>obj\<close> among the tokens from \<open>i\<close> on: its children, skipping the
  token after each, which is (the root of) the key's value.
\<close>

function jt_keys :: "JTok list \<Rightarrow> nat \<Rightarrow> nat \<Rightarrow> nat list" where
  "jt_keys t obj i =
     (if i < length t \<and> jt_parent (t ! i) \<ge> int obj then
        if jt_parent (t ! i) = int obj then i # jt_keys t obj (Suc (Suc i))
        else jt_keys t obj (Suc i)
      else [])"
  by pat_completeness auto
termination
  by (relation "measure (\<lambda>(t, obj, i). length t - i)") auto

declare jt_keys.simps [simp del]

text \<open>The room for the decoded keys: three bytes per input byte and a NUL each.\<close>

fun json_slab_bytes :: "JTok list \<Rightarrow> nat list \<Rightarrow> nat \<Rightarrow> nat result" where
  "json_slab_bytes t [] slab = Inr slab"
| "json_slab_bytes t (i # is) slab =
     bindE (jb_size_add (nat (jt_end (t ! i) - int (jt_start (t ! i))) * 3) 1) (\<lambda>b.
     bindE (jb_size_add slab b) (\<lambda>slab. json_slab_bytes t is slab))"

fun json_key_strings :: "bytes \<Rightarrow> JTok list \<Rightarrow> nat list \<Rightarrow> bytes list result" where
  "json_key_strings s t [] = Inr []"
| "json_key_strings s t (i # is) =
     bindE (jt_string_copy s (t ! i)) (\<lambda>k. bindE (json_key_strings s t is) (\<lambda>ks. Inr (k # ks)))"

text \<open>The first key of an ordered array that equals its predecessor.\<close>

fun json_adjacent_duplicate :: "bytes list \<Rightarrow> bytes option" where
  "json_adjacent_duplicate (a # b # ks) =
     (if strcmp a b = 0 then Some b else json_adjacent_duplicate (b # ks))"
| "json_adjacent_duplicate _ = None"

definition json_check_object :: "bytes \<Rightarrow> JTok list \<Rightarrow> nat \<Rightarrow> unit result" where
  "json_check_object s t obj =
     (if jt_type (t ! obj) \<noteq> JT_OBJECT \<or> jt_size (t ! obj) < 4 then Inr ()
      else let ks = jt_keys t obj (Suc obj) in
        bindE (json_slab_bytes t ks 0) (\<lambda>_.
        bindE (json_key_strings s t ks) (\<lambda>keys.
          case json_adjacent_duplicate (if length keys > 1 then qsort strcmp keys else keys) of
            None \<Rightarrow> Inr ()
          | Some k \<Rightarrow> die_bytes (str ''duplicate JSON object key: '' @ k))))"

function json_check_keys_from :: "bytes \<Rightarrow> JTok list \<Rightarrow> nat \<Rightarrow> unit result" where
  "json_check_keys_from s t obj =
     (if obj < length t then
        bindE (json_check_object s t obj) (\<lambda>_. json_check_keys_from s t (Suc obj))
      else Inr ())"
  by pat_completeness auto
termination
  by (relation "measure (\<lambda>(s, t, obj). length t - obj)") auto

declare json_check_keys_from.simps [simp del]

definition json_check_keys :: "bytes \<Rightarrow> JTok list \<Rightarrow> unit result" where
  "json_check_keys s t = json_check_keys_from s t 0"

section \<open>The tokenizer\<close>

text \<open>
  \<open>json_tokens\<close> of the \<open>n\<close> bytes at \<open>s\<close>. Every level of nesting and every item of a container
  costs two units of fuel and consumes a byte, so \<open>2 n + 1\<close> units are enough.
\<close>

definition json_tokens :: "bytes \<Rightarrow> nat \<Rightarrow> JTok list result" where
  "json_tokens s n =
     (if n > JB_MAX_JSON then die ''JSON input is too large''
      else bindE (json_parse_value (2 * n + 1)
          \<lparr>jp_s = s, jp_n = n, jp_pos = 0, jp_t = [], jp_cap = 0, jp_depth = 0\<rparr> (-1)) (\<lambda>(p, _).
        if jp_pos (skip_space p) \<noteq> n then die ''trailing JSON data''
        else bindE (json_check_keys s (jp_t p)) (\<lambda>_. Inr (jp_t p))))"

end
