(* ===== verification/JsonTree.thy ===== *)
theory JsonTree
  imports Json
begin

text \<open>
  What the token array means. A JSON text is a tree of spans; \<open>flat\<close> lays a tree out in
  pre-order, as the tokenizer writes it. The first group of lemmas shows that \<open>json_tokens\<close>
  runs to a result inside its input, the second that every array it returns is the layout of
  a well-formed tree whose nesting is within \<open>JB_MAX_DEPTH\<close>.
\<close>

section \<open>Trees\<close>

datatype jtree = JT (jtr_type: jt_type) (jtr_start: nat) (jtr_end: nat) (jtr_kids: "jtree list")

fun jt_count :: "jtree \<Rightarrow> nat" and jts_count :: "jtree list \<Rightarrow> nat" where
  "jt_count (JT ty a e ks) = Suc (jts_count ks)"
| "jts_count [] = 0"
| "jts_count (k # ks) = jt_count k + jts_count ks"

fun jt_height :: "jtree \<Rightarrow> nat" and jts_height :: "jtree list \<Rightarrow> nat" where
  "jt_height (JT ty a e ks) = (if ty = JT_OBJECT \<or> ty = JT_ARRAY then Suc (jts_height ks) else 0)"
| "jts_height [] = 0"
| "jts_height (k # ks) = max (jt_height k) (jts_height ks)"

text \<open>The tokens of a tree that starts at index \<open>b\<close> below parent \<open>p\<close>.\<close>

fun flat :: "nat \<Rightarrow> int \<Rightarrow> jtree \<Rightarrow> JTok list" and flats :: "nat \<Rightarrow> int \<Rightarrow> jtree list \<Rightarrow> JTok list" where
  "flat b p (JT ty a e ks) =
     \<lparr>jt_type = ty, jt_start = a, jt_end = int e, jt_parent = p, jt_size = length ks\<rparr> #
     flats (Suc b) (int b) ks"
| "flats b p [] = []"
| "flats b p (k # ks) = flat b p k @ flats (b + jt_count k) p ks"

lemma length_flat [simp]: "length (flat b p t) = jt_count t"
  and length_flats [simp]: "length (flats b p ks) = jts_count ks"
  by (induction b p t and b p ks rule: flat_flats.induct) simp_all

lemma jt_count_pos [simp]: "0 < jt_count t"
  by (cases t) simp

lemma jts_count_append [simp]: "jts_count (ks @ ls) = jts_count ks + jts_count ls"
  by (induction ks) simp_all

lemma flats_append: "flats b p (ks @ ls) = flats b p ks @ flats (b + jts_count ks) p ls"
  by (induction ks arbitrary: b) (simp_all add: add.assoc)

text \<open>The children of an object alternate between string keys and values.\<close>

fun pairs_ok :: "jtree list \<Rightarrow> bool" where
  "pairs_ok [] = True"
| "pairs_ok [k] = False"
| "pairs_ok (k # v # ks) = (jtr_type k = JT_STRING \<and> pairs_ok ks)"

text \<open>Well-formed over the first \<open>n\<close> bytes of \<open>s\<close>.\<close>

definition string_span :: "bytes \<Rightarrow> nat \<Rightarrow> nat \<Rightarrow> nat \<Rightarrow> bool" where
  "string_span s n a e \<longleftrightarrow> json_string_loop s n a = Inr (Suc e)"

definition primitive_span :: "bytes \<Rightarrow> nat \<Rightarrow> nat \<Rightarrow> nat \<Rightarrow> bool" where
  "primitive_span s n a e \<longleftrightarrow> a < e \<and> e \<le> n \<and> json_primitive_valid (span_of s a e) (e - a)"

fun jt_wf :: "bytes \<Rightarrow> nat \<Rightarrow> jtree \<Rightarrow> bool" and jts_wf :: "bytes \<Rightarrow> nat \<Rightarrow> jtree list \<Rightarrow> bool" where
  "jt_wf s n (JT ty a e ks) \<longleftrightarrow>
     (ty = JT_STRING \<and> ks = [] \<and> string_span s n a e) \<or>
     (ty = JT_PRIMITIVE \<and> ks = [] \<and> primitive_span s n a e) \<or>
     (ty = JT_ARRAY \<and> a < e \<and> e \<le> n \<and> jts_wf s n ks) \<or>
     (ty = JT_OBJECT \<and> a < e \<and> e \<le> n \<and> pairs_ok ks \<and> jts_wf s n ks)"
| "jts_wf s n [] = True"
| "jts_wf s n (k # ks) = (jt_wf s n k \<and> jts_wf s n ks)"

section \<open>Scanning\<close>

lemma skip_while_le: "i \<le> skip_while P s n i"
proof (induction P s n i rule: skip_while.induct)
  case (1 P s n i)
  then show ?case by (subst skip_while.simps) (auto simp: Suc_le_eq dest: less_imp_le)
qed

lemma skip_while_bound: "i \<le> n \<Longrightarrow> skip_while P s n i \<le> n"
proof (induction P s n i rule: skip_while.induct)
  case (1 P s n i)
  then show ?case by (subst skip_while.simps) auto
qed

lemma skip_while_stop: "skip_while P s n i < n \<Longrightarrow> \<not> P (s ! skip_while P s n i)"
proof (induction P s n i rule: skip_while.induct)
  case (1 P s n i)
  then show ?case
    by (cases "i < n \<and> P (s ! i)") (simp_all add: skip_while.simps [of P s n i])
qed

lemma skip_while_all: "i \<le> k \<Longrightarrow> k < skip_while P s n i \<Longrightarrow> P (s ! k)"
proof (induction P s n i rule: skip_while.induct)
  case (1 P s n i)
  have g: "i < n \<and> P (s ! i)"
    using 1 by (cases "i < n \<and> P (s ! i)") (simp_all add: skip_while.simps [of P s n i])
  then have "skip_while P s n i = skip_while P s n (Suc i)"
    by (simp add: skip_while.simps [of P s n i])
  with 1 g show ?case by (cases "i = k") simp_all
qed

lemma json_unicode_escape_bound:
  "json_unicode_escape s n k pos = Inr q \<Longrightarrow> q = pos + k \<and> (0 < k \<longrightarrow> q \<le> n)"
  by (induction s n k pos rule: json_unicode_escape.induct)
    (auto simp: bindE_Inr_iff Suc_le_eq split: if_splits dest: json_unicode_escape_Inr)

lemma json_string_loop_bound: "json_string_loop s n pos = Inr q \<Longrightarrow> pos < q \<and> q \<le> n \<and> q \<le> length s"
proof (induction s n pos rule: json_string_loop.induct)
  case (1 s n pos)
  have p: "pos < n" "pos < length s"
    using "1.prems" by (subst (asm) json_string_loop.simps; auto simp: bindE_Inr_iff split: if_splits)+
  note r = "1.prems" [unfolded json_string_loop.simps [of s n pos]]
  consider "s ! pos = 34" | "s ! pos = 92" | "s ! pos \<noteq> 34" "s ! pos \<noteq> 92" by blast
  then show ?case
  proof cases
    case 1
    then show ?thesis using r p by simp
  next
    case 2
    with r p have p2: "Suc pos < n" "Suc pos < length s"
      by (auto simp: bindE_Inr_iff split: if_splits)
    show ?thesis
    proof (cases "s ! Suc pos = 117")
      case True
      with r p p2 2 obtain u where u: "json_unicode_escape s n 4 (Suc (Suc pos)) = Inr u"
        "json_string_loop s n u = Inr q" by (auto simp: bindE_Inr_iff)
      with "1.IH"(1) p p2 2 True have "u < q \<and> q \<le> n \<and> q \<le> length s" by simp
      with json_unicode_escape_Inr [OF u(1)] show ?thesis by simp
    next
      case False
      with r p p2 2 have "json_string_loop s n (Suc (Suc pos)) = Inr q" by (simp split: if_splits)
      with "1.IH"(2) p p2 2 False r have "Suc (Suc pos) < q \<and> q \<le> n \<and> q \<le> length s"
        by (simp split: if_splits)
      then show ?thesis by simp
    qed
  next
    case 3
    with r p have "json_string_loop s n (Suc pos) = Inr q" "\<not> s ! pos < 0x20" by (simp_all split: if_splits)
    with "1.IH"(3) p 3 have "Suc pos < q \<and> q \<le> n \<and> q \<le> length s" by simp
    then show ?thesis by simp
  qed
qed

lemma json_unicode_escape_defined: "n \<le> length s \<Longrightarrow> defined (json_unicode_escape s n k pos)"
  by (induction s n k pos rule: json_unicode_escape.induct) auto

lemma json_string_loop_defined: "n \<le> length s \<Longrightarrow> defined (json_string_loop s n pos)"
proof (induction s n pos rule: json_string_loop.induct)
  case (1 s n pos)
  then show ?case
    by (subst json_string_loop.simps)
      (auto simp: json_unicode_escape_defined intro!: defined_bindE)
qed

lemma string_span_bound: "string_span s n a e \<Longrightarrow> a \<le> e \<and> e < n"
  by (auto simp: string_span_def dest: json_string_loop_bound)

section \<open>Steps of the parser\<close>

text \<open>The parser has only moved on in its input.\<close>

definition moved :: "JParser \<Rightarrow> JParser \<Rightarrow> bool" where
  "moved p q \<longleftrightarrow> q = p\<lparr>jp_pos := jp_pos q\<rparr> \<and> jp_pos p \<le> jp_pos q"

lemma moved_simps:
  "moved p q \<Longrightarrow> jp_s q = jp_s p" "moved p q \<Longrightarrow> jp_n q = jp_n p" "moved p q \<Longrightarrow> jp_t q = jp_t p"
  "moved p q \<Longrightarrow> jp_depth q = jp_depth p" "moved p q \<Longrightarrow> jp_pos p \<le> jp_pos q"
  "moved p q \<Longrightarrow> jp_cap q = jp_cap p"
  by (metis (no_types) JParser.select_convs(1-6) JParser.surjective JParser.update_convs(3) moved_def)+

lemma moved_skip_space [simp]: "moved p (skip_space p)"
  by (simp add: moved_def skip_space_def skip_while_le)

lemma skip_space_sel [simp]:
  "jp_s (skip_space p) = jp_s p" "jp_n (skip_space p) = jp_n p" "jp_t (skip_space p) = jp_t p"
  "jp_depth (skip_space p) = jp_depth p" "jp_cap (skip_space p) = jp_cap p"
  by (simp_all add: skip_space_def)

lemma skip_space_pos: "jp_pos p \<le> jp_pos (skip_space p)"
  "jp_pos p \<le> jp_n p \<Longrightarrow> jp_pos (skip_space p) \<le> jp_n p"
  by (simp_all add: skip_space_def skip_while_le skip_while_bound)

definition bump :: "int \<Rightarrow> JTok list \<Rightarrow> JTok list" where
  "bump parent t =
     (if parent \<ge> 0 then t[nat parent := (t ! nat parent)\<lparr>jt_size := Suc (jt_size (t ! nat parent))\<rparr>] else t)"

lemma length_bump [simp]: "length (bump p t) = length t"
  by (simp add: bump_def)

lemma jt_new_Inr:
  assumes "jt_new p ty start parent = Inr (p', i)" "parent < int (length (jp_t p))"
  shows "i = length (jp_t p)"
    "jp_t p' = bump parent (jp_t p) @
      [\<lparr>jt_type = ty, jt_start = start, jt_end = -1, jt_parent = parent, jt_size = 0\<rparr>]"
    "jp_s p' = jp_s p" "jp_n p' = jp_n p" "jp_pos p' = jp_pos p" "jp_depth p' = jp_depth p"
  using assms by (auto simp: jt_new_def bindE_Inr_iff Let_def bump_def nth_append nat_less_iff
      list_update_append split: if_splits)

lemma jt_new_frame:
  assumes "jt_new p ty start parent = Inr (p', i)"
  shows "i = length (jp_t p)" "jp_s p' = jp_s p" "jp_n p' = jp_n p" "jp_pos p' = jp_pos p"
    "jp_depth p' = jp_depth p"
  using assms by (auto simp: jt_new_def bindE_Inr_iff Let_def split: if_splits)

lemma jt_new_defined [intro, simp]: "defined (jt_new p ty start parent)"
  by (auto simp: jt_new_def Let_def split: if_splits)

lemma json_parse_string_tok_Inr:
  assumes "json_parse_string_tok p parent = Inr (p', i)" "parent < int (length (jp_t p))"
  obtains e where "i = length (jp_t p)" "string_span (jp_s p) (jp_n p) (Suc (jp_pos p)) e"
    "jp_t p' = bump parent (jp_t p) @ flat i parent (JT JT_STRING (Suc (jp_pos p)) e [])"
    "jp_s p' = jp_s p" "jp_n p' = jp_n p" "jp_pos p' = Suc e" "jp_depth p' = jp_depth p"
proof -
  obtain p1 q where n: "jt_new (p\<lparr>jp_pos := Suc (jp_pos p)\<rparr>) JT_STRING (Suc (jp_pos p)) parent = Inr (p1, i)"
    and l: "json_string_loop (jp_s p1) (jp_n p1) (Suc (jp_pos p)) = Inr q"
    and p': "p' = p1\<lparr>jp_pos := q, jp_t := (jp_t p1)[i := (jp_t p1 ! i)\<lparr>jt_end := int q - 1\<rparr>]\<rparr>"
    using assms(1) by (auto simp: json_parse_string_tok_def Let_def bindE_Inr_iff)
  note f = jt_new_Inr [OF n]
  obtain e where q: "q = Suc e" using json_string_loop_bound [OF l] by (cases q) auto
  show ?thesis
    by (rule that [of e]) (use assms(2) f l p' q in \<open>auto simp: string_span_def list_update_append nth_append\<close>)
qed

lemma json_parse_primitive_Inr:
  assumes "json_parse_primitive p parent = Inr (p', i)" "parent < int (length (jp_t p))"
    "jp_pos p \<le> jp_n p"
  obtains e where "i = length (jp_t p)" "primitive_span (jp_s p) (jp_n p) (jp_pos p) e"
    "jp_t p' = bump parent (jp_t p) @ flat i parent (JT JT_PRIMITIVE (jp_pos p) e [])"
    "jp_s p' = jp_s p" "jp_n p' = jp_n p" "jp_pos p' = e" "jp_depth p' = jp_depth p"
proof -
  obtain p1 where n: "jt_new p JT_PRIMITIVE (jp_pos p) parent = Inr (p1, i)"
    using assms(1) by (auto simp: json_parse_primitive_def Let_def bindE_Inr_iff split: if_splits)
  note f = jt_new_Inr [OF n assms(2)]
  define e where "e = skip_while (\<lambda>c. \<not> isspace c \<and> \<not> json_delimiter c) (jp_s p) (jp_n p) (jp_pos p)"
  have e: "jp_pos p \<le> e" "e \<le> jp_n p"
    using assms(3) by (simp_all add: e_def skip_while_le skip_while_bound)
  show ?thesis
    by (rule that [of e])
      (use assms(1) n f e in \<open>auto simp: json_parse_primitive_def Let_def primitive_span_def e_def [symmetric]
        list_update_append nth_append split: if_splits\<close>)
qed


lemma json_parse_value_cases:
  assumes "json_parse_value (Suc fuel) p parent = Inr (p', i)"
  obtains (String) "jp_pos (skip_space p) < jp_n p"
      "json_parse_string_tok (skip_space p) parent = Inr (p', i)"
    | (Container) ty q j where "ty = JT_OBJECT \<or> ty = JT_ARRAY" "jp_pos (skip_space p) < jp_n p"
      "jt_new ((skip_space p)\<lparr>jp_pos := Suc (jp_pos (skip_space p))\<rparr>) ty (jp_pos (skip_space p)) parent = Inr (q, j)"
      "Suc (jp_depth q) \<le> JB_MAX_DEPTH"
      "json_items fuel (q\<lparr>jp_depth := Suc (jp_depth q)\<rparr>) ty j = Inr (p', i)"
    | (Primitive) "jp_pos (skip_space p) < jp_n p"
      "json_parse_primitive (skip_space p) parent = Inr (p', i)"
proof -
  let ?c = "jp_s p ! jp_pos (skip_space p)"
  have pos: "jp_pos (skip_space p) < jp_n p" and rd: "jp_pos (skip_space p) < length (jp_s p)"
    using assms by (auto simp: Let_def bindE_Inr_iff split: if_splits)
  consider "?c = 34" | "?c = 123 \<or> ?c = 91" | "?c \<noteq> 34" "?c \<noteq> 123" "?c \<noteq> 91" by blast
  then show ?thesis
  proof cases
    case 1
    show ?thesis by (rule String) (use assms pos rd 1 in \<open>simp_all add: Let_def\<close>)
  next
    case 2
    then obtain ty where ty: "ty = (if ?c = 123 then JT_OBJECT else JT_ARRAY)" by blast
    have "bindE (jt_new ((skip_space p)\<lparr>jp_pos := Suc (jp_pos (skip_space p))\<rparr>) ty (jp_pos (skip_space p)) parent) (\<lambda>(p, i).
             let p = p\<lparr>jp_depth := Suc (jp_depth p)\<rparr> in
             if jp_depth p > JB_MAX_DEPTH then die ''JSON nesting too deep''
             else json_items fuel p ty i) = Inr (p', i)"
      using assms pos rd 2 unfolding ty by (auto simp: Let_def)
    then obtain q j where n: "jt_new ((skip_space p)\<lparr>jp_pos := Suc (jp_pos (skip_space p))\<rparr>) ty (jp_pos (skip_space p)) parent = Inr (q, j)"
      and r: "(if Suc (jp_depth q) > JB_MAX_DEPTH then die ''JSON nesting too deep''
        else json_items fuel (q\<lparr>jp_depth := Suc (jp_depth q)\<rparr>) ty j) = Inr (p', i)"
      by (auto simp: Let_def bindE_Inr_iff)
    show ?thesis
      by (rule Container [OF _ pos n]) (use r in \<open>auto simp: ty split: if_splits\<close>)
  next
    case 3
    show ?thesis by (rule Primitive) (use assms pos rd 3 in \<open>simp_all add: Let_def\<close>)
  qed
qed

lemma json_items_cases:
  assumes "json_items (Suc fuel) p ty i = Inr (p', i')"
  obtains (Close) "jp_pos (skip_space p) < jp_n p" "i' = i"
      "p' = (skip_space p)\<lparr>jp_pos := Suc (jp_pos (skip_space p)),
         jp_t := (jp_t p)[i := (jp_t p ! i)\<lparr>jt_end := int (Suc (jp_pos (skip_space p)))\<rparr>],
         jp_depth := jp_depth p - 1\<rparr>"
    | (Member) q r k v l where "ty = JT_OBJECT" "moved p q" "jp_pos q < jp_n p"
      "json_parse_string_tok q (int i) = Inr (r, k)" "jp_pos (skip_space r) < jp_n r"
      "json_parse_value fuel ((skip_space r)\<lparr>jp_pos := Suc (jp_pos (skip_space r))\<rparr>) (int i) = Inr (v, l)"
      "json_items fuel v ty i = Inr (p', i')"
    | (Element) q v l where "ty \<noteq> JT_OBJECT" "moved p q"
      "json_parse_value fuel q (int i) = Inr (v, l)" "json_items fuel v ty i = Inr (p', i')"
proof -
  let ?p = "skip_space p"
  let ?c = "jp_s p ! jp_pos ?p"
  have pos: "jp_pos ?p < jp_n p" and rd: "jp_pos ?p < length (jp_s p)"
    using assms by (auto simp: Let_def bindE_Inr_iff split: if_splits)
  show ?thesis
  proof (cases "?c = (if ty = JT_OBJECT then 125 else 93)")
    case True
    with assms pos rd have r: "Inr (?p\<lparr>jp_pos := Suc (jp_pos ?p),
         jp_t := (jp_t p)[i := (jp_t p ! i)\<lparr>jt_end := int (Suc (jp_pos ?p))\<rparr>],
         jp_depth := jp_depth p - 1\<rparr>, i) = (Inr (p', i') :: (JParser \<times> nat) result)"
      by (auto simp: Let_def)
    show ?thesis by (rule Close [OF pos]) (use r in auto)
  next
    case False
    define comma where "comma = (if jt_size (jp_t ?p ! i) \<noteq> 0 then
                      (if ?c \<noteq> 44 then die ''expected JSON comma''
                       else Inr (skip_space (?p\<lparr>jp_pos := Suc (jp_pos ?p)\<rparr>)))
                    else Inr ?p)"
    have body: "bindE comma (\<lambda>q. if ty = JT_OBJECT then (if jp_pos q \<ge> jp_n q then die ''JSON object key must be a string''
             else bindE (rd (jp_s q) (jp_pos q)) (\<lambda>c.
               if c \<noteq> 34 then die ''JSON object key must be a string''
               else bindE (json_parse_string_tok q (int i)) (\<lambda>(p, _).
                 let p = skip_space p in
                 if jp_pos p \<ge> jp_n p then die ''expected JSON colon''
                 else bindE (rd (jp_s p) (jp_pos p)) (\<lambda>c.
                   if c \<noteq> 58 then die ''expected JSON colon''
                   else bindE (json_parse_value fuel (p\<lparr>jp_pos := Suc (jp_pos p)\<rparr>) (int i)) (\<lambda>(p, _).
                     json_items fuel p ty i)))))
          else bindE (json_parse_value fuel q (int i)) (\<lambda>(p, _). json_items fuel p ty i)) = Inr (p', i')"
      using assms pos rd False unfolding comma_def by (simp add: Let_def)
    then obtain q where q: "comma = Inr q" and rest: "(if ty = JT_OBJECT then (if jp_pos q \<ge> jp_n q then die ''JSON object key must be a string''
             else bindE (rd (jp_s q) (jp_pos q)) (\<lambda>c.
               if c \<noteq> 34 then die ''JSON object key must be a string''
               else bindE (json_parse_string_tok q (int i)) (\<lambda>(p, _).
                 let p = skip_space p in
                 if jp_pos p \<ge> jp_n p then die ''expected JSON colon''
                 else bindE (rd (jp_s p) (jp_pos p)) (\<lambda>c.
                   if c \<noteq> 58 then die ''expected JSON colon''
                   else bindE (json_parse_value fuel (p\<lparr>jp_pos := Suc (jp_pos p)\<rparr>) (int i)) (\<lambda>(p, _).
                     json_items fuel p ty i)))))
          else bindE (json_parse_value fuel q (int i)) (\<lambda>(p, _). json_items fuel p ty i)) = Inr (p', i')"
      by (rule bindE_InrE)
    have mv: "moved p q" if "comma = Inr q" for q
      using that skip_while_le [of "jp_pos p" isspace "jp_s p" "jp_n p"]
        skip_while_le [of "Suc (skip_while isspace (jp_s p) (jp_n p) (jp_pos p))" isspace "jp_s p" "jp_n p"]
      by (auto simp: comma_def moved_def skip_space_def split: if_splits)
    show ?thesis
    proof (cases "ty = JT_OBJECT")
      case True
      with rest have r: "(if jp_pos q \<ge> jp_n q then die ''JSON object key must be a string''
             else bindE (rd (jp_s q) (jp_pos q)) (\<lambda>c.
               if c \<noteq> 34 then die ''JSON object key must be a string''
               else bindE (json_parse_string_tok q (int i)) (\<lambda>(p, _).
                 let p = skip_space p in
                 if jp_pos p \<ge> jp_n p then die ''expected JSON colon''
                 else bindE (rd (jp_s p) (jp_pos p)) (\<lambda>c.
                   if c \<noteq> 58 then die ''expected JSON colon''
                   else bindE (json_parse_value fuel (p\<lparr>jp_pos := Suc (jp_pos p)\<rparr>) (int i)) (\<lambda>(p, _).
                     json_items fuel p ty i))))) = Inr (p', i')"
        by (simp only: if_True simp_thms)
      from r obtain u k where tok: "json_parse_string_tok q (int i) = Inr (u, k)"
        and pq: "jp_pos q < jp_n q" and pu: "jp_pos (skip_space u) < jp_n u"
        and r2: "bindE (json_parse_value fuel ((skip_space u)\<lparr>jp_pos := Suc (jp_pos (skip_space u))\<rparr>) (int i)) (\<lambda>(p, _).
                     json_items fuel p ty i) = Inr (p', i')"
        by (auto simp: bindE_Inr_iff [of "rd _ _"] bindE_Inr_iff [of "json_parse_string_tok _ _"] Let_def
            split: if_splits)
      from r2 obtain v l where
        "json_parse_value fuel ((skip_space u)\<lparr>jp_pos := Suc (jp_pos (skip_space u))\<rparr>) (int i) = Inr (v, l)"
        "json_items fuel v ty i = Inr (p', i')"
        by (auto simp: bindE_Inr_iff)
      with True mv [OF q] tok pq pu show ?thesis
        by (intro Member [of q u k v l]) (simp_all add: moved_simps)
    next
      case arr: False
      with rest have r: "bindE (json_parse_value fuel q (int i)) (\<lambda>(p, _). json_items fuel p ty i) = Inr (p', i')"
        by (simp only: if_False simp_thms)
      from r obtain v l where
        "json_parse_value fuel q (int i) = Inr (v, l)" "json_items fuel v ty i = Inr (p', i')"
        by (auto simp: bindE_Inr_iff)
      with arr mv [OF q] show ?thesis by (intro Element)
    qed
  qed
qed


section \<open>Progress and definedness\<close>

definition advanced :: "JParser \<Rightarrow> JParser \<Rightarrow> bool" where
  "advanced p q \<longleftrightarrow> jp_s q = jp_s p \<and> jp_n q = jp_n p \<and> jp_pos p < jp_pos q \<and> jp_pos q \<le> jp_n p"

lemma json_parse_string_tok_advanced:
  assumes "json_parse_string_tok p parent = Inr (p', i)"
  shows "advanced p p'"
proof -
  obtain p1 q where n: "jt_new (p\<lparr>jp_pos := Suc (jp_pos p)\<rparr>) JT_STRING (Suc (jp_pos p)) parent = Inr (p1, i)"
    and l: "json_string_loop (jp_s p1) (jp_n p1) (Suc (jp_pos p)) = Inr q"
    and p': "p' = p1\<lparr>jp_pos := q, jp_t := (jp_t p1)[i := (jp_t p1 ! i)\<lparr>jt_end := int q - 1\<rparr>]\<rparr>"
    using assms by (auto simp: json_parse_string_tok_def Let_def bindE_Inr_iff)
  from jt_new_frame [OF n] json_string_loop_bound [OF l] p' show ?thesis
    by (simp add: advanced_def)
qed

lemma json_parse_primitive_advanced:
  assumes "json_parse_primitive p parent = Inr (p', i)" "jp_pos p \<le> jp_n p"
  shows "advanced p p'"
proof -
  let ?q = "skip_while (\<lambda>c. \<not> isspace c \<and> \<not> json_delimiter c) (jp_s p) (jp_n p) (jp_pos p)"
  obtain p1 where n: "jt_new p JT_PRIMITIVE (jp_pos p) parent = Inr (p1, i)"
    using assms(1) by (auto simp: json_parse_primitive_def Let_def bindE_Inr_iff split: if_splits)
  have "?q \<le> jp_n p" "jp_pos p \<le> ?q"
    using assms(2) by (simp_all add: skip_while_bound skip_while_le)
  with jt_new_frame [OF n] n assms(1) show ?thesis
    by (auto simp: json_parse_primitive_def advanced_def Let_def split: if_splits)
qed

lemma advanced_weaken:
  "advanced q r \<Longrightarrow> jp_s q = jp_s p \<Longrightarrow> jp_n q = jp_n p \<Longrightarrow> jp_pos p \<le> jp_pos q \<Longrightarrow> advanced p r"
  by (simp add: advanced_def)

lemma advanced_trans: "advanced p q \<Longrightarrow> advanced q r \<Longrightarrow> advanced p r"
  by (simp add: advanced_def)

lemma json_parse_advanced:
  "(\<forall>p parent p' i. json_parse_value fuel p parent = Inr (p', i) \<longrightarrow> advanced p p') \<and>
   (\<forall>p ty k p' i. json_items fuel p ty k = Inr (p', i) \<longrightarrow> advanced p p')"
proof (induction fuel)
  case (Suc fuel)
  have "advanced p p'" if "json_parse_value (Suc fuel) p parent = Inr (p', i)" for p parent p' i
    using that
  proof (cases rule: json_parse_value_cases)
    case String
    from json_parse_string_tok_advanced [OF String(2)] show ?thesis
      by (rule advanced_weaken) (simp_all add: skip_space_pos)
  next
    case (Container ty q j)
    from Suc.IH Container(5) have "advanced (q\<lparr>jp_depth := Suc (jp_depth q)\<rparr>) p'" by blast
    then show ?thesis
      by (rule advanced_weaken)
        (use jt_new_frame [OF Container(3)] skip_space_pos(1) [of p] in simp_all)
  next
    case Primitive
    have "jp_pos (skip_space p) \<le> jp_n (skip_space p)" using Primitive by simp
    from json_parse_primitive_advanced [OF Primitive(2) this] show ?thesis
      by (rule advanced_weaken) (simp_all add: skip_space_pos)
  qed
  moreover have "advanced p p'" if "json_items (Suc fuel) p ty k = Inr (p', i)" for p ty k p' i
    using that
  proof (cases rule: json_items_cases)
    case Close
    with skip_space_pos(1) [of p] show ?thesis by (simp add: advanced_def)
  next
    case (Member q r m v l)
    have a: "advanced p r"
      using json_parse_string_tok_advanced [OF Member(4)] by (rule advanced_weaken)
        (use Member(2) in \<open>simp_all add: moved_simps\<close>)
    from Suc.IH Member(6) have "advanced ((skip_space r)\<lparr>jp_pos := Suc (jp_pos (skip_space r))\<rparr>) v"
      by blast
    then have b: "advanced r v"
      by (rule advanced_weaken) (use skip_space_pos(1) [of r] in simp_all)
    have c: "advanced v p'" using Suc.IH Member(7) by blast
    show ?thesis by (rule advanced_trans [OF advanced_trans [OF a b] c])
  next
    case (Element q v l)
    have a: "advanced p v"
      by (rule advanced_weaken [of q]) (use Suc.IH Element in \<open>auto simp: moved_simps\<close>)
    have b: "advanced v p'" using Suc.IH Element by blast
    show ?thesis by (rule advanced_trans [OF a b])
  qed
  ultimately show ?case by blast
qed simp

lemmas json_parse_value_advanced = json_parse_advanced [THEN conjunct1, rule_format]
lemmas json_items_advanced = json_parse_advanced [THEN conjunct2, rule_format]

lemma json_parse_string_tok_defined:
  "jp_n p \<le> length (jp_s p) \<Longrightarrow> defined (json_parse_string_tok p parent)"
  unfolding json_parse_string_tok_def Let_def
proof (rule defined_bindE)
  fix v assume n: "jp_n p \<le> length (jp_s p)"
    and v: "jt_new (p\<lparr>jp_pos := Suc (jp_pos p)\<rparr>) JT_STRING (Suc (jp_pos p)) parent = Inr v"
  obtain q i where q: "v = (q, i)" by fastforce
  have "jp_n q \<le> length (jp_s q)" using jt_new_frame [OF v [unfolded q]] n by simp
  then show "defined (case v of (p', i) \<Rightarrow>
      bindE (json_string_loop (jp_s p') (jp_n p') (Suc (jp_pos p))) (\<lambda>q.
        Inr (p'\<lparr>jp_pos := q, jp_t := (jp_t p')[i := (jp_t p' ! i)\<lparr>jt_end := int q - 1\<rparr>]\<rparr>, i)))"
    by (auto simp: q intro!: defined_bindE json_string_loop_defined)
qed simp

lemma json_parse_primitive_defined: "defined (json_parse_primitive p parent)"
  by (auto simp: json_parse_primitive_def Let_def)

lemma json_parse_defined:
  "(\<forall>p parent. jp_n p \<le> length (jp_s p) \<longrightarrow> 2 * (jp_n p - jp_pos p) < fuel \<longrightarrow>
      defined (json_parse_value fuel p parent)) \<and>
   (\<forall>p ty i. jp_n p \<le> length (jp_s p) \<longrightarrow> 2 * (jp_n p - jp_pos p) + 1 < fuel \<longrightarrow>
      defined (json_items fuel p ty i))"
proof (induction fuel)
  case (Suc fuel)
  have V: "defined (json_parse_value (Suc fuel) p parent)"
    if n: "jp_n p \<le> length (jp_s p)" and f: "2 * (jp_n p - jp_pos p) < Suc fuel" for p parent
  proof (cases "jp_pos (skip_space p) < jp_n p")
    case True
    have it: "defined (json_items fuel (q\<lparr>jp_depth := d\<rparr>) ty j)"
      if "jt_new ((skip_space p)\<lparr>jp_pos := Suc (jp_pos (skip_space p))\<rparr>) ty' st parent = Inr (q, j)"
      for q j d ty ty' st
      using jt_new_frame [OF that] n f True skip_space_pos(1) [of p] Suc.IH by simp
    from True n show ?thesis
      by (auto simp: Let_def it json_parse_string_tok_defined json_parse_primitive_defined
          intro!: defined_bindE)
  qed (simp add: Let_def)
  have "defined (json_items (Suc fuel) p ty i)"
    if n: "jp_n p \<le> length (jp_s p)" and f: "2 * (jp_n p - jp_pos p) + 1 < Suc fuel" for p ty i
  proof (cases "jp_pos (skip_space p) < jp_n p")
    case True
    let ?p = "skip_space p"
    define comma where "comma = (if jt_size (jp_t ?p ! i) \<noteq> 0 then
                      (if jp_s p ! jp_pos ?p \<noteq> 44 then die ''expected JSON comma''
                       else Inr (skip_space (?p\<lparr>jp_pos := Suc (jp_pos ?p)\<rparr>)))
                    else Inr ?p)"
    have mv: "moved p q" if "comma = Inr q" for q
      using that skip_while_le [of "jp_pos p" isspace "jp_s p" "jp_n p"]
        skip_while_le [of "Suc (skip_while isspace (jp_s p) (jp_n p) (jp_pos p))" isspace "jp_s p" "jp_n p"]
      by (auto simp: comma_def moved_def skip_space_def split: if_splits)
    have val: "defined (json_parse_value fuel q parent)"
      if "jp_s q = jp_s p" "jp_n q = jp_n p" "jp_pos p \<le> jp_pos q" for q parent
      using Suc.IH that n f by auto
    have nxt: "defined (json_items fuel v ty i)" if "advanced p v" for v
      using Suc.IH that n f by (auto simp: advanced_def)
    have obj: "advanced p r" if "moved p q" "json_parse_string_tok q parent = Inr (r, k)" for q r k parent
      using json_parse_string_tok_advanced [OF that(2)]
      by (rule advanced_weaken) (use that in \<open>simp_all add: moved_simps\<close>)
    have mem: "defined (bindE (json_parse_value fuel ((skip_space r)\<lparr>jp_pos := Suc (jp_pos (skip_space r))\<rparr>) (int i))
        (\<lambda>(p, _). json_items fuel p ty i))" if r: "advanced p r" for r
    proof (rule defined_bindE)
      show "defined (json_parse_value fuel ((skip_space r)\<lparr>jp_pos := Suc (jp_pos (skip_space r))\<rparr>) (int i))"
        using r skip_space_pos(1) [of r] by (intro val) (simp_all add: advanced_def)
    next
      fix w assume w: "json_parse_value fuel ((skip_space r)\<lparr>jp_pos := Suc (jp_pos (skip_space r))\<rparr>) (int i) = Inr w"
      obtain v l where v: "w = (v, l)" by fastforce
      have "advanced p v"
        using json_parse_value_advanced [OF w [unfolded v]] r skip_space_pos(1) [of r]
        by (simp add: advanced_def)
      then show "defined (case w of (p, _) \<Rightarrow> json_items fuel p ty i)" using v nxt by simp
    qed
    have elem: "defined (bindE (json_parse_value fuel q (int i)) (\<lambda>(p, _). json_items fuel p ty i))"
      if q: "moved p q" for q
    proof (rule defined_bindE)
      show "defined (json_parse_value fuel q (int i))" using q by (intro val) (simp_all add: moved_simps)
    next
      fix w assume w: "json_parse_value fuel q (int i) = Inr w"
      obtain v l where v: "w = (v, l)" by fastforce
      have "advanced p v"
        by (rule advanced_weaken [OF json_parse_value_advanced [OF w [unfolded v]]])
          (use q in \<open>simp_all add: moved_simps\<close>)
      then show "defined (case w of (p, _) \<Rightarrow> json_items fuel p ty i)" using v nxt by simp
    qed
    let ?colon = "\<lambda>p. let p = skip_space p in
                 if jp_pos p \<ge> jp_n p then die ''expected JSON colon''
                 else bindE (rd (jp_s p) (jp_pos p)) (\<lambda>c.
                   if c \<noteq> 58 then die ''expected JSON colon''
                   else bindE (json_parse_value fuel (p\<lparr>jp_pos := Suc (jp_pos p)\<rparr>) (int i)) (\<lambda>(p, _).
                     json_items fuel p ty i))"
    let ?rest = "\<lambda>q. if ty = JT_OBJECT then
            (if jp_pos q \<ge> jp_n q then die ''JSON object key must be a string''
             else bindE (rd (jp_s q) (jp_pos q)) (\<lambda>c.
               if c \<noteq> 34 then die ''JSON object key must be a string''
               else bindE (json_parse_string_tok q (int i)) (\<lambda>(p, _). ?colon p)))
          else bindE (json_parse_value fuel q (int i)) (\<lambda>(p, _). json_items fuel p ty i)"
    have key: "defined (bindE (json_parse_string_tok q (int i)) (\<lambda>(p, _). ?colon p))" if q: "moved p q" for q
    proof (rule defined_bindE)
      show "defined (json_parse_string_tok q (int i))"
        using n q by (intro json_parse_string_tok_defined) (simp add: moved_simps)
    next
      fix w assume w: "json_parse_string_tok q (int i) = Inr w"
      obtain r k where r: "w = (r, k)" by fastforce
      have "advanced p r" using obj [OF q] w r by simp
      then show "defined (case w of (p, _) \<Rightarrow> ?colon p)"
        using mem [of r] n by (auto simp: r Let_def advanced_def intro!: defined_bindE)
    qed
    have "defined (bindE comma ?rest)"
    proof (rule defined_bindE)
      show "defined comma" by (simp add: comma_def)
    next
      fix q assume "comma = Inr q"
      then have q: "moved p q" by (rule mv)
      then have rd: "\<not> jp_pos q \<ge> jp_n q \<Longrightarrow> rd (jp_s q) (jp_pos q) = Inr (jp_s q ! jp_pos q)"
        using n by (simp add: moved_simps)
      show "defined (?rest q)"
        using elem [OF q] key [OF q] rd by (simp split: if_split del: json_items.simps json_parse_value.simps)
    qed
    then show ?thesis
      using True n unfolding comma_def by (simp add: Let_def)
  qed (simp add: Let_def)
  with V show ?case by blast
qed simp


section \<open>The token array is a tree\<close>

lemma jts_wf_append [simp]: "jts_wf s n (ks @ ls) \<longleftrightarrow> jts_wf s n ks \<and> jts_wf s n ls"
  by (induction ks) simp_all

lemma jts_height_append [simp]: "jts_height (ks @ ls) = max (jts_height ks) (jts_height ls)"
  by (induction ks) (simp_all add: max.assoc)

text \<open>What parsing one value adds, and what finishing the container \<open>i\<close> adds.\<close>

definition parsed :: "JParser \<Rightarrow> int \<Rightarrow> JParser \<Rightarrow> jtree \<Rightarrow> bool" where
  "parsed p parent p' tr \<longleftrightarrow>
     jp_t p' = bump parent (jp_t p) @ flat (length (jp_t p)) parent tr \<and>
     jt_wf (jp_s p) (jp_n p) tr \<and> jp_depth p' = jp_depth p \<and>
     jt_height tr + jp_depth p \<le> JB_MAX_DEPTH"

definition finished :: "JParser \<Rightarrow> jt_type \<Rightarrow> nat \<Rightarrow> JParser \<Rightarrow> jtree list \<Rightarrow> bool" where
  "finished p ty i p' ks \<longleftrightarrow>
     jp_t p' = (jp_t p)[i := (jp_t p ! i)\<lparr>jt_size := jt_size (jp_t p ! i) + length ks,
                                         jt_end := int (jp_pos p')\<rparr>] @
               flats (length (jp_t p)) (int i) ks \<and>
     jts_wf (jp_s p) (jp_n p) ks \<and> (ty = JT_OBJECT \<longrightarrow> pairs_ok ks) \<and>
     jp_depth p' = jp_depth p - 1 \<and> jts_height ks + jp_depth p \<le> JB_MAX_DEPTH"

lemma flats_Cons_token:
  "bump (int i) ts @ flat (length ts) (int i) tr = ts' \<Longrightarrow> i < length ts \<Longrightarrow>
     ts' ! i = (ts ! i)\<lparr>jt_size := Suc (jt_size (ts ! i))\<rparr> \<and> length ts' = length ts + jt_count tr"
  by (auto simp: bump_def nth_append)

lemma finished_Nil:
  assumes "jp_t p' = (jp_t p)[i := (jp_t p ! i)\<lparr>jt_end := int (jp_pos p')\<rparr>]"
    "jp_depth p' = jp_depth p - 1" "jp_depth p \<le> JB_MAX_DEPTH"
  shows "finished p ty i p' []"
proof -
  have "(jp_t p ! i)\<lparr>jt_size := jt_size (jp_t p ! i) + 0, jt_end := int (jp_pos p')\<rparr> =
      (jp_t p ! i)\<lparr>jt_end := int (jp_pos p')\<rparr>" by simp
  with assms show ?thesis by (simp add: finished_def)
qed

lemma finished_Cons:
  assumes p: "parsed p (int i) v tr" and f: "finished v ty' i p' ks" and i: "i < length (jp_t p)"
    and sn: "jp_s v = jp_s p" "jp_n v = jp_n p"
    and ok: "ty = JT_OBJECT \<longrightarrow> pairs_ok (tr # ks)"
  shows "finished p ty i p' (tr # ks)"
proof -
  let ?u = "(jp_t p ! i)\<lparr>jt_size := jt_size (jp_t p ! i) + length (tr # ks), jt_end := int (jp_pos p')\<rparr>"
  have tv: "jp_t v = bump (int i) (jp_t p) @ flat (length (jp_t p)) (int i) tr"
    using p by (simp add: parsed_def)
  from flats_Cons_token [OF this [symmetric] i]
  have vi: "jp_t v ! i = (jp_t p ! i)\<lparr>jt_size := Suc (jt_size (jp_t p ! i))\<rparr>"
    and vl: "length (jp_t v) = length (jp_t p) + jt_count tr" by auto
  have "jp_t p' = (jp_t v)[i := ?u] @ flats (length (jp_t v)) (int i) ks"
    using f by (simp add: finished_def vi)
  also have "(jp_t v)[i := ?u] = (jp_t p)[i := ?u] @ flat (length (jp_t p)) (int i) tr"
    using i by (simp add: tv bump_def list_update_append)
  finally have "jp_t p' = (jp_t p)[i := ?u] @ flats (length (jp_t p)) (int i) (tr # ks)"
    by (simp add: vl)
  moreover have "max (jt_height tr) (jts_height ks) + jp_depth p \<le> JB_MAX_DEPTH"
    using p f by (simp add: finished_def parsed_def nat_add_max_left)
  ultimately show ?thesis using assms by (simp add: finished_def parsed_def)
qed

lemma finished_parsed:
  assumes n: "jt_new q0 ty a parent = Inr (q, j)" "parent < int (length (jp_t q0))"
    and ty: "ty = JT_OBJECT \<or> ty = JT_ARRAY"
    and f: "finished (q\<lparr>jp_depth := Suc (jp_depth q)\<rparr>) ty j p' ks"
    and e: "a < jp_pos p'" "jp_pos p' \<le> jp_n q0"
  shows "parsed q0 parent p' (JT ty a (jp_pos p') ks)"
  using jt_new_Inr [OF n] assms
  by (auto simp: parsed_def finished_def list_update_append nth_append)

lemma parsed_weaken:
  "parsed q parent p' tr \<Longrightarrow> jp_t q = jp_t p \<Longrightarrow> jp_s q = jp_s p \<Longrightarrow> jp_n q = jp_n p \<Longrightarrow>
     jp_depth q = jp_depth p \<Longrightarrow> parsed p parent p' tr"
  by (simp add: parsed_def)

lemma json_parse_string_tok_parsed:
  assumes "json_parse_string_tok p parent = Inr (p', i)" "parent < int (length (jp_t p))"
    "jp_depth p \<le> JB_MAX_DEPTH"
  shows "\<exists>tr. parsed p parent p' tr \<and> jtr_type tr = JT_STRING \<and> i = length (jp_t p)"
proof (rule json_parse_string_tok_Inr [OF assms(1,2)])
  fix e
  assume "i = length (jp_t p)" "string_span (jp_s p) (jp_n p) (Suc (jp_pos p)) e"
    "jp_t p' = bump parent (jp_t p) @ flat i parent (JT JT_STRING (Suc (jp_pos p)) e [])"
    "jp_depth p' = jp_depth p"
  with assms(3) show ?thesis
    by (intro exI [of _ "JT JT_STRING (Suc (jp_pos p)) e []"]) (simp add: parsed_def)
qed

lemma json_parse_primitive_parsed:
  assumes "json_parse_primitive p parent = Inr (p', i)" "parent < int (length (jp_t p))"
    "jp_pos p \<le> jp_n p" "jp_depth p \<le> JB_MAX_DEPTH"
  shows "\<exists>tr. parsed p parent p' tr \<and> i = length (jp_t p)"
proof (rule json_parse_primitive_Inr [OF assms(1,2,3)])
  fix e
  assume "i = length (jp_t p)" "primitive_span (jp_s p) (jp_n p) (jp_pos p) e"
    "jp_t p' = bump parent (jp_t p) @ flat i parent (JT JT_PRIMITIVE (jp_pos p) e [])"
    "jp_depth p' = jp_depth p"
  with assms(4) show ?thesis
    by (intro exI [of _ "JT JT_PRIMITIVE (jp_pos p) e []"]) (simp add: parsed_def)
qed

lemma parsed_length: "parsed p parent p' tr \<Longrightarrow> length (jp_t p) \<le> length (jp_t p')"
  by (simp add: parsed_def)

lemma json_parse_tree:
  "(\<forall>p parent p' i. json_parse_value fuel p parent = Inr (p', i) \<longrightarrow>
      parent < int (length (jp_t p)) \<longrightarrow> jp_depth p \<le> JB_MAX_DEPTH \<longrightarrow>
      (\<exists>tr. parsed p parent p' tr \<and> i = length (jp_t p))) \<and>
   (\<forall>p ty k p' i. json_items fuel p ty k = Inr (p', i) \<longrightarrow> k < length (jp_t p) \<longrightarrow>
      jp_depth p \<le> JB_MAX_DEPTH \<longrightarrow> (\<exists>ks. finished p ty k p' ks \<and> i = k))"
proof (induction fuel)
  case (Suc fuel)
  have V: "\<exists>tr. parsed p parent p' tr \<and> i = length (jp_t p)"
    if "json_parse_value (Suc fuel) p parent = Inr (p', i)"
      and par: "parent < int (length (jp_t p))" and d: "jp_depth p \<le> JB_MAX_DEPTH" for p parent p' i
    using that(1)
  proof (cases rule: json_parse_value_cases)
    case String
    with json_parse_string_tok_parsed [OF String(2)] par d obtain tr where
      tr: "parsed (skip_space p) parent p' tr" and i: "i = length (jp_t p)" by auto
    from tr have "parsed p parent p' tr" by (rule parsed_weaken) simp_all
    with i show ?thesis by blast
  next
    case (Container ty q j)
    let ?q0 = "(skip_space p)\<lparr>jp_pos := Suc (jp_pos (skip_space p))\<rparr>"
    have par0: "parent < int (length (jp_t ?q0))" using par by simp
    note f = jt_new_Inr [OF Container(3) par0]
    have j: "j < length (jp_t q)" using f by simp
    obtain ks where ks: "finished (q\<lparr>jp_depth := Suc (jp_depth q)\<rparr>) ty j p' ks" and i: "i = j"
      using Suc.IH Container(4,5) j by fastforce
    have adv: "advanced (q\<lparr>jp_depth := Suc (jp_depth q)\<rparr>) p'"
      by (rule json_items_advanced [OF Container(5)])
    have "parsed ?q0 parent p' (JT ty (jp_pos (skip_space p)) (jp_pos p') ks)"
      by (rule finished_parsed [OF Container(3) par0 Container(1) ks])
        (use adv f in \<open>simp_all add: advanced_def\<close>)
    then have "parsed p parent p' (JT ty (jp_pos (skip_space p)) (jp_pos p') ks)"
      by (rule parsed_weaken) simp_all
    then show ?thesis using f i by auto
  next
    case Primitive
    have "jp_pos (skip_space p) \<le> jp_n (skip_space p)" using Primitive by simp
    with json_parse_primitive_parsed [OF Primitive(2)] par d obtain tr where
      tr: "parsed (skip_space p) parent p' tr" and i: "i = length (jp_t p)" by auto
    from tr have "parsed p parent p' tr" by (rule parsed_weaken) simp_all
    with i show ?thesis by blast
  qed
  have "\<exists>ks. finished p ty k p' ks \<and> i = k"
    if "json_items (Suc fuel) p ty k = Inr (p', i)"
      and k: "k < length (jp_t p)" and d: "jp_depth p \<le> JB_MAX_DEPTH" for p ty k p' i
    using that(1)
  proof (cases rule: json_items_cases)
    case Close
    then show ?thesis using d by (intro exI [of _ "[]"] conjI finished_Nil) simp_all
  next
    case (Member q r m v l)
    have kq: "int k < int (length (jp_t q))" "jp_depth q \<le> JB_MAX_DEPTH"
      using k d Member(2) by (simp_all add: moved_simps)
    from json_parse_string_tok_parsed [OF Member(4) kq] obtain key where
      key0: "parsed q (int k) r key" and ks: "jtr_type key = JT_STRING" by auto
    from key0 have key: "parsed p (int k) r key"
      by (rule parsed_weaken) (use Member(2) in \<open>simp_all add: moved_simps\<close>)
    let ?r = "(skip_space r)\<lparr>jp_pos := Suc (jp_pos (skip_space r))\<rparr>"
    have kr: "k < length (jp_t r)" using parsed_length [OF key] k by simp
    have dr: "jp_depth r \<le> JB_MAX_DEPTH" using key d by (simp add: parsed_def)
    obtain val where "parsed ?r (int k) v val"
      using Suc.IH Member(6) kr dr by fastforce
    then have val: "parsed r (int k) v val" by (rule parsed_weaken) simp_all
    have kv: "k < length (jp_t v)" using parsed_length [OF val] kr by simp
    have dv: "jp_depth v \<le> JB_MAX_DEPTH" using val dr by (simp add: parsed_def)
    obtain ks where f: "finished v ty k p' ks" and i: "i = k" using Suc.IH Member(7) kv dv by blast
    have sq: "jp_s r = jp_s p" "jp_n r = jp_n p"
      using json_parse_string_tok_advanced [OF Member(4)] Member(2) by (simp_all add: advanced_def moved_simps)
    have sv: "jp_s v = jp_s r" "jp_n v = jp_n r"
      using json_parse_value_advanced [OF Member(6)] by (simp_all add: advanced_def)
    have ok: "pairs_ok ks" using f Member(1) by (simp add: finished_def)
    have "finished r JT_UNDEF k p' (val # ks)"
      by (rule finished_Cons [OF val f kr sv]) simp
    from finished_Cons [OF key this k sq, of ty] ok ks
    have "finished p ty k p' (key # val # ks)" by simp
    with i show ?thesis by blast
  next
    case (Element q v l)
    have "int k < int (length (jp_t q))" "jp_depth q \<le> JB_MAX_DEPTH"
      using k d Element(2) by (simp_all add: moved_simps)
    then obtain tr where "parsed q (int k) v tr" using Suc.IH Element(3) by blast
    then have tr: "parsed p (int k) v tr"
      by (rule parsed_weaken) (use Element(2) in \<open>simp_all add: moved_simps\<close>)
    have kv: "k < length (jp_t v)" using parsed_length [OF tr] k by simp
    have dv: "jp_depth v \<le> JB_MAX_DEPTH" using tr d by (simp add: parsed_def)
    obtain ks where f: "finished v ty k p' ks" and i: "i = k" using Suc.IH Element(4) kv dv by blast
    have sv: "jp_s v = jp_s p" "jp_n v = jp_n p"
      using json_parse_value_advanced [OF Element(3)] Element(2) by (simp_all add: advanced_def moved_simps)
    from finished_Cons [OF tr f k sv, of ty] Element(1) have "finished p ty k p' (tr # ks)" by simp
    with i show ?thesis by blast
  qed
  with V show ?case by blast
qed simp


section \<open>Consequences for \<open>json_tokens\<close>\<close>

lemma json_tokens_InrE:
  assumes "json_tokens s n = Inr ts"
  obtains tr where "n \<le> JB_MAX_JSON" "ts = flat 0 (-1) tr" "jt_wf s n tr" "jt_height tr \<le> JB_MAX_DEPTH"
    "json_check_keys s ts = Inr ()"
proof -
  let ?p = "\<lparr>jp_s = s, jp_n = n, jp_pos = 0, jp_t = [], jp_cap = 0, jp_depth = 0\<rparr>"
  obtain p i where p: "json_parse_value (2 * n + 1) ?p (-1) = Inr (p, i)"
    and ts: "ts = jp_t p" "json_check_keys s (jp_t p) = Inr ()" "n \<le> JB_MAX_JSON"
    using assms by (auto simp: json_tokens_def bindE_Inr_iff split: if_splits)
  obtain tr where "parsed ?p (-1) p tr"
    using json_parse_tree [THEN conjunct1, rule_format, OF p] by auto
  with ts show ?thesis
    by (intro that [of tr]) (auto simp: parsed_def bump_def)
qed


section \<open>Decoding a checked string\<close>

lemma hex4_loop_defined: "at + k \<le> length j \<Longrightarrow> defined (hex4_loop j at k v)"
  by (induction k arbitrary: at v) auto

lemma hex4_defined: "at + 4 \<le> length j \<Longrightarrow> defined (hex4 j at)"
  by (simp add: hex4_def hex4_loop_defined)

text \<open>One unit of a string: what the tokenizer's loop has checked at \<open>i\<close>, before the end \<open>e\<close>.\<close>

lemma json_string_loop_step:
  assumes l: "json_string_loop s n i = Inr (Suc e)" and i: "i < e"
  obtains (Plain) "s ! i \<noteq> 92" "s ! i \<noteq> 34" "json_string_loop s n (Suc i) = Inr (Suc e)" "e < length s" "\<not> s ! i < 0x20"
    | (Unicode) "s ! i = 92" "s ! Suc i = 117" "i + 6 \<le> e" "e < length s"
        "json_string_loop s n (i + 6) = Inr (Suc e)"
        "json_unicode_escape s n 4 (i + 2) = Inr (i + 6)"
    | (Escape) "s ! i = 92" "s ! Suc i \<noteq> 117" "i + 2 \<le> e" "e < length s"
        "s ! Suc i \<in> set [34, 92, 47, 98, 102, 110, 114, 116]"
        "json_string_loop s n (i + 2) = Inr (Suc e)"
proof -
  have e: "e < length s" "e < n" using json_string_loop_bound [OF l] by auto
  note l' = l [unfolded json_string_loop.simps [of s n i]]
  have r: "i < n" "rd s i = Inr (s ! i)" "rd s (Suc i) = Inr (s ! Suc i)" "\<not> Suc i \<ge> n" using i e by auto
  have q: "s ! i \<noteq> 34" using l' r i by auto
  consider "s ! i \<noteq> 92" | "s ! i = 92" "s ! Suc i = 117" | "s ! i = 92" "s ! Suc i \<noteq> 117" by blast
  then show ?thesis
  proof cases
    case 1
    then show ?thesis using l' r q e by (intro Plain) (simp_all split: if_splits)
  next
    case 2
    with l' r obtain q where q: "json_unicode_escape s n 4 (Suc (Suc i)) = Inr q"
      "json_string_loop s n q = Inr (Suc e)" by (auto simp: bindE_Inr_iff)
    have "q = i + 6" using json_unicode_escape_Inr [OF q(1)] by simp
    with q json_string_loop_bound [OF q(2)] 2 e show ?thesis by (intro Unicode) simp_all
  next
    case 3
    with l' r have q: "json_string_loop s n (i + 2) = Inr (Suc e)" and
      m: "s ! Suc i \<in> set [34, 92, 47, 98, 102, 110, 114, 116]"
      by (simp_all split: if_splits)
    with json_string_loop_bound [OF q] 3 e show ?thesis by (intro Escape) simp_all
  qed
qed

lemma jt_copy_loop_defined:
  "json_string_loop s n i = Inr (Suc e) \<Longrightarrow> i \<le> e \<Longrightarrow> defined (jt_copy_loop s i e)"
proof (induction "e - i" arbitrary: i rule: less_induct)
  case less
  show ?case
  proof (cases "i < e")
    case True
    from less.prems(1) True show ?thesis
    proof (cases rule: json_string_loop_step)
      case Plain
      then have "defined (jt_copy_loop s (Suc i) e)" using less.hyps True by simp
      then show ?thesis using True Plain
        by (subst jt_copy_loop.simps) (auto intro!: defined_bindE)
    next
      case Escape
      then have "defined (jt_copy_loop s (Suc (Suc i)) e)" using less.hyps [of "i + 2"] True by simp
      then show ?thesis using True Escape
        by (subst jt_copy_loop.simps) (auto intro!: defined_bindE)
    next
      case Unicode
      have d6: "defined (jt_copy_loop s (i + 6) e)" using less.hyps [of "i + 6"] True Unicode by simp
      have h: "defined (hex4 s (i + 2))" using Unicode by (intro hex4_defined) simp
      have d12: "defined (jt_copy_loop s (i + 12) e)"
        if "\<not> i + 5 + 6 \<ge> e" "s ! (i + 6) = 92" "s ! (i + 7) = 117"
      proof -
        have lt: "i + 6 < e" using that by simp
        from Unicode(5) lt show ?thesis
        proof (cases rule: json_string_loop_step)
          case Unicode
          then show ?thesis using less.hyps [of "i + 12"] that by (simp add: add.commute)
        qed (use that in \<open>simp_all add: add.commute\<close>)
      qed
      have h8: "defined (hex4 s (i + 8))" if "\<not> i + 5 + 6 \<ge> e"
        using that Unicode by (intro hex4_defined) simp
      show ?thesis using True Unicode h d6 d12 h8
        by (subst jt_copy_loop.simps) (auto intro!: defined_bindE)
    qed
  qed (simp add: jt_copy_loop.simps)
qed

lemma jt_copy_loop_length:
  "jt_copy_loop s i e = Inr z \<Longrightarrow> json_string_loop s n i = Inr (Suc e) \<Longrightarrow> i \<le> e \<Longrightarrow> length z \<le> e - i"
proof (induction "e - i" arbitrary: i z rule: less_induct)
  case less
  note cp = less.prems(1) [unfolded jt_copy_loop.simps [of s i e]]
  show ?case
  proof (cases "i < e")
    case True
    have hyp: "length y \<le> e - k" if "i < k" "k \<le> e" "jt_copy_loop s k e = Inr y"
      "json_string_loop s n k = Inr (Suc e)" for k y
      by (rule less.hyps [of k y]) (use True that in simp_all)
    from less.prems(2) True show ?thesis
    proof (cases rule: json_string_loop_step)
      case Plain
      with cp True obtain y where "jt_copy_loop s (Suc i) e = Inr y" and "z = s ! i # y"
        by (auto simp: bindE_Inr_iff)
      moreover have "e - Suc i < e - i" using True by simp
      ultimately have "length y \<le> e - Suc i" using less.hyps [of "Suc i" y] Plain True by simp
      with \<open>z = s ! i # y\<close> True show ?thesis by simp
    next
      case Escape
      with cp True obtain y where "jt_copy_loop s (i + 2) e = Inr y" and z: "z = json_unescape (s ! Suc i) # y"
        by (auto simp: bindE_Inr_iff)
      moreover have "e - (i + 2) < e - i" using True by simp
      ultimately have "length y \<le> e - (i + 2)" using less.hyps [of "i + 2" y] Escape by blast
      with z Escape(3) show ?thesis by simp
    next
      case Unicode
      show ?thesis
      proof (cases "jt_copy_loop s (i + 6) e")
        case (Inr y)
        have "length z \<le> 4 + length y \<or> (\<exists>c y'. i + 11 < e \<and> s ! (i + 6) = 92 \<and> s ! (i + 7) = 117 \<and>
            jt_copy_loop s (i + 12) e = Inr y' \<and> z = put_utf8 c @ y')"
          using cp True Unicode Inr by (auto simp: bindE_Inr_iff length_put_utf8_le split: if_splits)
        then show ?thesis
        proof (elim disjE exE conjE)
          assume "length z \<le> 4 + length y"
          with hyp [of "i + 6" y] Inr Unicode show ?thesis by simp
        next
          fix c y'
          assume a: "i + 11 < e" "s ! (i + 6) = 92" "s ! (i + 7) = 117"
            "jt_copy_loop s (i + 12) e = Inr y'" "z = put_utf8 c @ y'"
          have "json_string_loop s n (i + 12) = Inr (Suc e) \<and> i + 12 \<le> e"
            using Unicode(5)
            by (rule json_string_loop_step) (use a in \<open>simp_all add: add.commute\<close>)
          then have "length y' \<le> e - (i + 12)" and "i + 12 \<le> e"
          using hyp [of "i + 12" y'] a by simp_all
        then show ?thesis using a(5) length_put_utf8_le [of c] by simp
        qed
      next
        case (Inl x)
        with cp True Unicode obtain c y' where a: "i + 11 < e" "s ! (i + 6) = 92" "s ! (i + 7) = 117"
            "jt_copy_loop s (i + 12) e = Inr y'" "z = put_utf8 c @ y'"
          by (auto simp: bindE_Inr_iff split: if_splits)
        have "json_string_loop s n (i + 12) = Inr (Suc e) \<and> i + 12 \<le> e"
          using Unicode(5)
          by (rule json_string_loop_step) (use a in \<open>simp_all add: add.commute\<close>)
        then have "length y' \<le> e - (i + 12)" and "i + 12 \<le> e"
          using hyp [of "i + 12" y'] a by simp_all
        then show ?thesis using a(5) length_put_utf8_le [of c] by simp
      qed
    qed
  next
    case False
    with cp less.prems show ?thesis by simp
  qed
qed

lemma jt_string_copy_defined:
  assumes "jt_type t = JT_STRING \<Longrightarrow> string_span s n (jt_start t) (nat (jt_end t))"
  shows "defined (jt_string_copy s t)"
proof (cases "jt_type t = JT_STRING")
  case True
  from assms [OF this] have "defined (jt_copy_loop s (jt_start t) (nat (jt_end t)))"
    using string_span_bound [of s n "jt_start t" "nat (jt_end t)"] jt_copy_loop_defined
    by (auto simp: string_span_def)
  with True show ?thesis
    by (auto simp: jt_string_copy_def intro!: defined_bindE utf8.scan_defined)
qed (simp add: jt_string_copy_def)

text \<open>A decoded string fits the buffer the program reserves for it, and is valid UTF-8.\<close>

lemma jt_string_copy_Inr:
  assumes "jt_string_copy s t = Inr z" "jt_type t = JT_STRING"
    "string_span s n (jt_start t) (nat (jt_end t))"
  shows "length z \<le> nat (jt_end t) - jt_start t" "utf8_ok z"
proof -
  from assms obtain cs where l: "jt_copy_loop s (jt_start t) (nat (jt_end t)) = Inr z"
    and u: "utf8_scan (length z) z (length z) 0 = Inr cs"
    by (auto simp: jt_string_copy_def bindE_Inr_iff)
  show "length z \<le> nat (jt_end t) - jt_start t"
    using jt_copy_loop_length [OF l] assms(3) string_span_bound [OF assms(3)]
    by (simp add: string_span_def)
  show "utf8_ok z" using u by (auto simp: utf8_scan_ok)
qed

end
