(* ===== verification/JsonQuery.thy ===== *)
theory JsonQuery
  imports JsonTree
begin

text \<open>
  Queries on the token array of a text: the position of every subtree, the key tokens of an
  object, the duplicate-key check and \<open>jt_obj_get\<close>. The lemmas show that the tokenizer is total
  and reads inside its input, that it rejects an object with two equal keys, and that
  \<open>jt_obj_get\<close> is the lookup in the finite map of the object's members.
\<close>

section \<open>Subtrees inside the array\<close>

lemma hd_flat: "jt_parent (hd (flat b p t @ ys)) = p" "flat b p t \<noteq> []"
  by (cases t; simp)+

lemma hd_flats: "ks \<noteq> [] \<Longrightarrow> jt_parent (hd (flats b p ks @ ys)) = p"
  using hd_flat(1) [of _ p _ "[]"] by (cases ks) (simp_all add: hd_append hd_flat)

text \<open>Inside the layout from \<open>b\<close> below \<open>p\<close>, the parent of a token is \<open>p\<close> or an index from \<open>b\<close> on.\<close>

lemma flat_parents:
  "x \<in> set (flat b p t) \<Longrightarrow> jt_parent x = p \<or> int b \<le> jt_parent x"
  "x \<in> set (flats b p ks) \<Longrightarrow> jt_parent x = p \<or> int b \<le> jt_parent x"
  by (induction b p t and b p ks arbitrary: x and x rule: flat_flats.induct) fastforce+

lemma flat_tail_parents: "x \<in> set (tl (flat b p t)) \<Longrightarrow> int b \<le> jt_parent x"
  by (cases t) (auto dest: flat_parents)

definition located :: "JTok list \<Rightarrow> nat \<Rightarrow> int \<Rightarrow> jtree \<Rightarrow> bool" where
  "located ts i p tr \<longleftrightarrow> p < int i \<and>
     (\<exists>pre post. ts = pre @ flat i p tr @ post \<and> length pre = i \<and>
        (post = [] \<or> jt_parent (hd post) < int i))"

lemma flat_locate:
  "i < jt_count t \<Longrightarrow> p < int b \<Longrightarrow> jt_wf s n t \<Longrightarrow>
     \<exists>pre post q u. flat b p t = pre @ flat (b + i) q u @ post \<and> length pre = i \<and> q < int (b + i) \<and>
       (post = [] \<or> jt_parent (hd post) < int (b + i)) \<and> jt_wf s n u \<and> jt_height u \<le> jt_height t"
  "i < jts_count ks \<Longrightarrow> p < int b \<Longrightarrow> jts_wf s n ks \<Longrightarrow>
     \<exists>pre post q u. flats b p ks = pre @ flat (b + i) q u @ post \<and> length pre = i \<and> q < int (b + i) \<and>
       (post = [] \<or> jt_parent (hd post) < int (b + i)) \<and> jt_wf s n u \<and> jt_height u \<le> jts_height ks"
proof (induction b p t and b p ks arbitrary: i and i rule: flat_flats.induct)
  case (1 b p ty a e ks)
  show ?case
  proof (cases i)
    case 0
    show ?thesis unfolding 0 add_0_right
      by (rule exI [of _ "[]"], rule exI [of _ "[]"], rule exI [of _ p], rule exI [of _ "JT ty a e ks"])
        (use 1(3,4) in \<open>simp only: append_Nil append_Nil2 list.size simp_thms\<close>)
  next
    case (Suc j)
    have "j < jts_count ks" "int b < int (Suc b)" "jts_wf s n ks" using 1(2,4) Suc by auto
    from 1(1) [OF this] obtain pre post q u where
      "flats (Suc b) (int b) ks = pre @ flat (Suc b + j) q u @ post" "length pre = j"
      "q < int (Suc b + j)" "post = [] \<or> jt_parent (hd post) < int (Suc b + j)" "jt_wf s n u" "jt_height u \<le> jts_height ks"
      by blast
    moreover have "ty = JT_OBJECT \<or> ty = JT_ARRAY" using 1(2,4) Suc by auto
    ultimately show ?thesis
      by (intro exI [of _ "\<lparr>jt_type = ty, jt_start = a, jt_end = int e, jt_parent = p, jt_size = length ks\<rparr> # pre"]
          exI [of _ post] exI [of _ q] exI [of _ u]) (simp add: Suc)
  qed
next
  case (3 b p k ks)
  show ?case
  proof (cases "i < jt_count k")
    case True
    have "jt_wf s n k" using 3(5) by simp
    from 3(1) [OF True 3(4) this] obtain pre post q u where f: "flat b p k = pre @ flat (b + i) q u @ post"
      "length pre = i" "q < int (b + i)" "post = [] \<or> jt_parent (hd post) < int (b + i)" "jt_wf s n u" "jt_height u \<le> jt_height k"
      by blast
    have "post @ flats (b + jt_count k) p ks = [] \<or>
        jt_parent (hd (post @ flats (b + jt_count k) p ks)) < int (b + i)"
      using f(4) hd_flats [of ks "b + jt_count k" p "[]"] 3(4)
      by (cases "post = []"; cases "ks = []") auto
    with f show ?thesis
      by (intro exI [of _ pre] exI [of _ "post @ flats (b + jt_count k) p ks"] exI [of _ q] exI [of _ u]) simp
  next
    case False
    let ?j = "i - jt_count k"
    have j: "?j < jts_count ks" "b + jt_count k + ?j = b + i" using False 3(3) by auto
    have "p < int (b + jt_count k)" "jts_wf s n ks" using 3(4,5) by simp_all
    from 3(2) [OF j(1) this] obtain pre post q u where "flats (b + jt_count k) p ks = pre @ flat (b + i) q u @ post"
      "length pre = ?j" "q < int (b + i)" "post = [] \<or> jt_parent (hd post) < int (b + i)" "jt_wf s n u" "jt_height u \<le> jts_height ks"
      unfolding j by blast
    with False show ?thesis
      by (intro exI [of _ "flat b p k @ pre"] exI [of _ post] exI [of _ q] exI [of _ u]) simp
  qed
qed simp_all

lemma flat_located:
  assumes "i < length (flat 0 (-1) t)" "jt_wf s n t"
  obtains q u where "located (flat 0 (-1) t) i q u" "jt_wf s n u" "jt_height u \<le> jt_height t"
  using flat_locate(1) [of i t "-1" 0 s n] assms by (fastforce simp: located_def)

lemma located_token: "located ts i p (JT ty a e ks) \<Longrightarrow> ts ! i =
    \<lparr>jt_type = ty, jt_start = a, jt_end = int e, jt_parent = p, jt_size = length ks\<rparr> \<and> i < length ts"
  by (auto simp: located_def nth_append)

text \<open>The children of a located tree.\<close>

lemma located_kids:
  assumes "located ts i p (JT ty a e ks)"
  obtains pre post where "ts = pre @ flats (Suc i) (int i) ks @ post" "length pre = Suc i"
    "post = [] \<or> jt_parent (hd post) < int i"
proof -
  obtain pre post where "ts = pre @ flat i p (JT ty a e ks) @ post" "length pre = i"
    "post = [] \<or> jt_parent (hd post) < int i" using assms by (auto simp: located_def)
  then show ?thesis
    by (intro that [of "pre @ [\<lparr>jt_type = ty, jt_start = a, jt_end = int e, jt_parent = p, jt_size = length ks\<rparr>]" post]) simp_all
qed

section \<open>The keys of an object\<close>

text \<open>The indices of the key tokens among children that start at \<open>i\<close>.\<close>

fun key_at :: "nat \<Rightarrow> jtree list \<Rightarrow> nat list" where
  "key_at i (k # v # ks) = i # key_at (Suc i + jt_count v) ks"
| "key_at i _ = []"

lemma length_key_at: "length (key_at i ks) = length ks div 2"
  by (induction i ks rule: key_at.induct) simp_all

lemma jt_keys_skip:
  "(\<forall>j \<in> {i..<i + m}. j < length ts \<and> int b < jt_parent (ts ! j)) \<Longrightarrow>
     jt_keys ts b i = jt_keys ts b (i + m)"
proof (induction m arbitrary: i)
  case (Suc m)
  then have "i < length ts" "int b < jt_parent (ts ! i)" by simp_all
  then have "jt_keys ts b i = jt_keys ts b (Suc i)"
    by (simp add: jt_keys.simps [of ts b i])
  also have "\<dots> = jt_keys ts b (Suc i + m)"
    using Suc.prems by (intro Suc.IH) auto
  finally show ?case by simp
qed simp

lemma jt_obj_loop_skip:
  "(\<forall>j \<in> {i..<i + m}. j < length ts \<and> int b < jt_parent (ts ! j)) \<Longrightarrow>
     jt_obj_loop s ts (int b) key i = jt_obj_loop s ts (int b) key (i + m)"
proof (induction m arbitrary: i)
  case (Suc m)
  have "jt_obj_loop s ts (int b) key i = jt_obj_loop s ts (int b) key (Suc i)"
  proof (cases "Suc i < length ts")
    case True
    have "int b < jt_parent (ts ! i)" using Suc.prems by simp
    with True show ?thesis by (simp add: jt_obj_loop.simps [of s ts "int b" key i])
  qed (simp add: jt_obj_loop.simps)
  also have "\<dots> = jt_obj_loop s ts (int b) key (Suc i + m)"
    using Suc.prems by (intro Suc.IH) auto
  finally show ?case by simp
qed simp

text \<open>The tokens of a value after its root belong to deeper parents.\<close>

lemma value_body:
  assumes "ts = pre @ flat j p v @ post" "length pre = j" "b < j"
  shows "\<forall>i \<in> {Suc j..<Suc j + (jt_count v - 1)}. i < length ts \<and> int b < jt_parent (ts ! i)"
proof
  fix i assume i: "i \<in> {Suc j..<Suc j + (jt_count v - 1)}"
  have m: "i - j < jt_count v" using i jt_count_pos [of v] by (simp add: less_diff_conv2)
  have "ts ! i = flat j p v ! (i - j)" using i m assms by (simp add: nth_append)
  also have "\<dots> = tl (flat j p v) ! (i - j - 1)" using i hd_flat(2) [of j p v]
    by (cases "flat j p v") (auto simp: nth_Cons')
  finally have "ts ! i \<in> set (tl (flat j p v))" using i m by (simp add: less_diff_conv2)
  then have "int j \<le> jt_parent (ts ! i)" by (rule flat_tail_parents)
  with assms m i show "i < length ts \<and> int b < jt_parent (ts ! i)" by simp
qed

fun find_key :: "bytes \<Rightarrow> JTok list \<Rightarrow> bytes \<Rightarrow> nat list \<Rightarrow> int result" where
  "find_key s ts key [] = Inr (-1)"
| "find_key s ts key (i # is) =
     bindE (jt_eq s (ts ! i) key) (\<lambda>eq. if eq then Inr (int (Suc i)) else find_key s ts key is)"

lemma keys_walk:
  assumes "ts = pre @ flats i (int b) ks @ post" "length pre = i" "b < i" "pairs_ok ks" "jts_wf s n ks"
    "post = [] \<or> jt_parent (hd post) < int b"
  shows "jt_keys ts b i = key_at i ks \<and> jt_obj_loop s ts (int b) key i = find_key s ts key (key_at i ks) \<and>
    (\<forall>k \<in> set (key_at i ks). \<exists>a e. string_span s n a e \<and> ts ! k =
       \<lparr>jt_type = JT_STRING, jt_start = a, jt_end = int e, jt_parent = int b, jt_size = 0\<rparr> \<and> Suc k < length ts)"
  using assms
proof (induction i ks arbitrary: pre rule: key_at.induct [case_names pair none single])
  case (pair i k v ks)
  obtain a e where k: "k = JT JT_STRING a e []" and sp: "string_span s n a e" using pair by (cases k) auto
  let ?k = "\<lparr>jt_type = JT_STRING, jt_start = a, jt_end = int e, jt_parent = int b, jt_size = 0\<rparr>"
  let ?i = "Suc i + jt_count v"
  have ti: "ts ! i = ?k" and il: "Suc i < length ts"
    using pair k jt_count_pos [of v] by (simp_all add: nth_append)
  have body: "\<forall>j \<in> {Suc (Suc i)..<Suc (Suc i) + (jt_count v - 1)}. j < length ts \<and> int b < jt_parent (ts ! j)"
    by (rule value_body [of ts "pre @ [?k]" "Suc i" "int b" v "flats ?i (int b) ks @ post"])
      (use pair k in simp_all)
  have skip: "Suc (Suc i) + (jt_count v - 1) = ?i" using jt_count_pos [of v] by simp
  have ts: "ts = (pre @ ?k # flat (Suc i) (int b) v) @ flats ?i (int b) ks @ post"
    "length (pre @ ?k # flat (Suc i) (int b) v) = ?i" using pair k by simp_all
  note IH = "pair.IH" [OF ts]
  have K: "jt_keys ts b i = i # jt_keys ts b ?i"
    using ti il jt_keys_skip [OF body] unfolding skip by (subst jt_keys.simps) simp
  have O: "jt_obj_loop s ts (int b) key i =
      bindE (jt_eq s (ts ! i) key) (\<lambda>eq. if eq then Inr (int (Suc i)) else jt_obj_loop s ts (int b) key ?i)"
    using ti il jt_obj_loop_skip [OF body] unfolding skip by (subst jt_obj_loop.simps) (simp cong: if_cong)
  have "jt_keys ts b ?i = key_at ?i ks \<and> jt_obj_loop s ts (int b) key ?i = find_key s ts key (key_at ?i ks) \<and>
    (\<forall>k \<in> set (key_at ?i ks). \<exists>a e. string_span s n a e \<and> ts ! k =
       \<lparr>jt_type = JT_STRING, jt_start = a, jt_end = int e, jt_parent = int b, jt_size = 0\<rparr> \<and> Suc k < length ts)"
    by (rule IH) (use pair in simp_all)
  with K O ti il sp show ?case by (auto cong: if_cong)
next
  case (none i)
  have "jt_parent (ts ! i) < int b" if "i < length ts"
    using that none by (cases post) (auto simp: nth_append)
  then show ?case by (auto simp: jt_keys.simps [of ts b i] jt_obj_loop.simps [of s ts "int b" key i])
qed simp_all

lemma object_keys:
  assumes "located ts b p (JT JT_OBJECT a e ks)" "jt_wf s n (JT JT_OBJECT a e ks)"
  shows "jt_keys ts b (Suc b) = key_at (Suc b) ks"
    and "jt_obj_get s ts (int b) key = find_key s ts key (jt_keys ts b (Suc b))"
    and "k \<in> set (jt_keys ts b (Suc b)) \<Longrightarrow> \<exists>a e. string_span s n a e \<and> ts ! k =
       \<lparr>jt_type = JT_STRING, jt_start = a, jt_end = int e, jt_parent = int b, jt_size = 0\<rparr> \<and> Suc k < length ts"
proof -
  obtain pre post where "ts = pre @ flats (Suc b) (int b) ks @ post" "length pre = Suc b"
    "post = [] \<or> jt_parent (hd post) < int b" by (rule located_kids [OF assms(1)])
  from keys_walk [OF this(1,2) _ _ _ this(3), of s n key] assms(2)
  have w: "jt_keys ts b (Suc b) = key_at (Suc b) ks"
    "jt_obj_loop s ts (int b) key (Suc b) = find_key s ts key (key_at (Suc b) ks)"
    "\<forall>k \<in> set (key_at (Suc b) ks). \<exists>a e. string_span s n a e \<and> ts ! k =
       \<lparr>jt_type = JT_STRING, jt_start = a, jt_end = int e, jt_parent = int b, jt_size = 0\<rparr> \<and> Suc k < length ts"
    by auto
  show "jt_keys ts b (Suc b) = key_at (Suc b) ks" by fact
  show "jt_obj_get s ts (int b) key = find_key s ts key (jt_keys ts b (Suc b))"
    using w located_token [OF assms(1)] by (simp add: jt_obj_get_def)
  show "k \<in> set (jt_keys ts b (Suc b)) \<Longrightarrow> \<exists>a e. string_span s n a e \<and> ts ! k =
       \<lparr>jt_type = JT_STRING, jt_start = a, jt_end = int e, jt_parent = int b, jt_size = 0\<rparr> \<and> Suc k < length ts"
    using w by simp
qed


section \<open>Decoded strings\<close>

lemma put_utf8_nonzero:
  assumes "c \<noteq> 0"
  shows "0 \<notin> set (put_utf8 c)"
proof -
  have b: "(ucast (x :: u32) :: byte) \<noteq> 0" if "bit x 7" for x
  proof
    assume "(ucast x :: byte) = 0"
    then have "\<not> bit (ucast x :: byte) 7" by simp
    with that show False by (simp add: bit_simps)
  qed
  have lo: "(ucast c :: byte) \<noteq> 0" if "c \<le> 0x7f"
  proof
    assume "(ucast c :: byte) = 0"
    then have "unat (ucast c :: byte) = 0" by simp
    then have "unat c mod 256 = 0" by (simp del: unsigned_0)
    moreover have "unat c < 128" using that by (simp add: word_le_nat_alt)
    ultimately show False using assms by (simp add: unat_eq_zero)
  qed
  have "bit (0xc0 OR x :: u32) 7" "bit (0xe0 OR x :: u32) 7" "bit (0xf0 OR x :: u32) 7"
    "bit (0x80 OR x :: u32) 7" for x
    by (simp_all add: bit_simps bit_numeral_rec)
  with b lo show ?thesis by (auto simp: put_utf8_def)
qed

lemma surrogates_nonzero:
  assumes "u \<ge> 0xd800" "u \<le> 0xdbff" "\<not> v < 0xdc00" "\<not> v > 0xdfff"
  shows "0x10000 + push_bit 10 (u - 0xd800) + (v - 0xdc00) \<noteq> (0 :: u32)"
proof -
  define a b where "a = u - 0xd800" and "b = v - 0xdc00"
  have "unat a \<le> 1023" "unat b \<le> 1023"
    using assms by (simp_all add: a_def b_def unat_sub word_le_nat_alt word_less_nat_alt)
  then have "unat (0x10000 + push_bit 10 a + b) = 0x10000 + unat a * 1024 + unat b"
    by (simp add: unat_word_ariths push_bit_eq_mult)
  then have "0x10000 + push_bit 10 a + b \<noteq> 0" by (metis add_is_0 unsigned_0 zero_neq_numeral)
  then show ?thesis unfolding a_def b_def .
qed

lemma surrogates_nonzero_sum:
  "u \<ge> 0xd800 \<Longrightarrow> u \<le> 0xdbff \<Longrightarrow> \<not> v < 0xdc00 \<Longrightarrow> \<not> v > 0xdfff \<Longrightarrow>
     9216 + (push_bit 10 (u - 0xd800) + v) \<noteq> (0 :: u32)"
  using surrogates_nonzero [of u v] by (simp add: algebra_simps)

lemma json_unescape_nonzero: "c \<noteq> 0 \<Longrightarrow> json_unescape c \<noteq> 0"
  by (simp add: json_unescape_def)

lemma jt_copy_loop_nonzero:
  "jt_copy_loop s i e = Inr z \<Longrightarrow> json_string_loop s n i = Inr (Suc e) \<Longrightarrow> i \<le> e \<Longrightarrow> 0 \<notin> set z"
proof (induction "e - i" arbitrary: i z rule: less_induct)
  case less
  note cp = less.prems(1) [unfolded jt_copy_loop.simps [of s i e]]
  show ?case
  proof (cases "i < e")
    case True
    have hyp: "0 \<notin> set y" if "i < k" "k \<le> e" "jt_copy_loop s k e = Inr y"
      "json_string_loop s n k = Inr (Suc e)" for k y
      by (rule less.hyps [of k y]) (use True that in simp_all)
    from less.prems(2) True show ?thesis
    proof (cases rule: json_string_loop_step)
      case Plain
      with cp True obtain y where y: "jt_copy_loop s (Suc i) e = Inr y" and z: "z = s ! i # y"
        by (auto simp: bindE_Inr_iff)
      have "s ! i \<noteq> 0" using Plain(5) by auto
      moreover have "0 \<notin> set y" using hyp [of "Suc i" y] Plain(3) y True by simp
      ultimately show ?thesis using z by simp
    next
      case Escape
      with cp True obtain y where y: "jt_copy_loop s (i + 2) e = Inr y" and z: "z = json_unescape (s ! Suc i) # y"
        by (auto simp: bindE_Inr_iff)
      have "s ! Suc i \<noteq> 0" using Escape(5) by auto
      moreover have "0 \<notin> set y" using hyp [of "i + 2" y] Escape(3,6) y by simp
      ultimately show ?thesis using z by (simp add: json_unescape_nonzero [THEN not_sym])
    next
      case Unicode
      have pair: "0 \<notin> set y" if "i + 11 < e" "s ! (i + 6) = 92" "s ! (i + 7) = 117"
        "jt_copy_loop s (i + 12) e = Inr y" for y
      proof -
        have "json_string_loop s n (i + 12) = Inr (Suc e) \<and> i + 12 \<le> e"
          using Unicode(5)
          by (rule json_string_loop_step) (use that in \<open>simp_all add: add.commute\<close>)
        with hyp [of "i + 12" y] that show ?thesis by simp
      qed
      have one: "0 \<notin> set y" if "jt_copy_loop s (i + 6) e = Inr y" for y
        using hyp [of "i + 6" y] Unicode that by simp
      show ?thesis
        using cp True Unicode one pair
        by (auto simp: bindE_Inr_iff put_utf8_nonzero surrogates_nonzero_sum split: if_splits)
    qed
  next
    case False
    with cp less.prems show ?thesis by simp
  qed
qed

lemma jt_copy_loop_plain:
  "e \<le> length s \<Longrightarrow> 92 \<notin> set (span_of s i e) \<Longrightarrow> jt_copy_loop s i e = Inr (span_of s i e)"
proof (induction "e - i" arbitrary: i)
  case 0
  then show ?case by (simp add: jt_copy_loop.simps span_of_def)
next
  case (Suc k)
  then have i: "i < e" by simp
  with Suc.prems have c: "span_of s i e = s ! i # span_of s (Suc i) e" by (simp add: span_of_Cons)
  with Suc i have "jt_copy_loop s (Suc i) e = Inr (span_of s (Suc i) e)" by simp
  with c i Suc.prems show ?case by (simp add: jt_copy_loop.simps [of s i e])
qed

lemma cstr_nonzero: "0 \<notin> set z \<Longrightarrow> cstr z = z"
  by (metis (mono_tags, lifting) cstr_def takeWhile_eq_all_conv)

text \<open>\<open>jt_eq\<close> compares the decoded string, whichever of its two paths it takes.\<close>

lemma memcmp_eq_0: "length xs = length ys \<Longrightarrow> memcmp xs ys = 0 \<longleftrightarrow> xs = ys"
  by (induction xs ys rule: memcmp.induct) auto

lemma length_memcmp_eq: "length xs = length ys \<and> memcmp xs ys = 0 \<longleftrightarrow> xs = ys"
  by (metis memcmp_eq_0)

lemma jt_eq_decoded:
  assumes t: "jt_type t = JT_STRING" "jt_end t = int e" "string_span s n (jt_start t) e"
    and z: "jt_string_copy s t = Inr z"
  shows "jt_eq s t key = Inr (z = key)" "0 \<notin> set z"
proof -
  from z t obtain cs where l: "jt_copy_loop s (jt_start t) e = Inr z"
    by (auto simp: jt_string_copy_def bindE_Inr_iff)
  have sp: "json_string_loop s n (jt_start t) = Inr (Suc e)" using t by (simp add: string_span_def)
  have le: "jt_start t \<le> e" "e \<le> length s"
    using string_span_bound [OF t(3)] json_string_loop_bound [OF sp] by auto
  show nz: "0 \<notin> set z" by (rule jt_copy_loop_nonzero [OF l sp le(1)])
  show "jt_eq s t key = Inr (z = key)"
  proof (cases "92 \<in> set (span_of s (jt_start t) e)")
    case True
    then show ?thesis using t z nz by (simp add: jt_eq_def jt_string_def cstr_nonzero)
  next
    case False
    with jt_copy_loop_plain [OF le(2) this] l t show ?thesis
      by (simp add: jt_eq_def Let_def length_memcmp_eq)
  qed
qed

section \<open>Lookup and duplicate keys\<close>

text \<open>The key tokens of an object: strings that the tokenizer has scanned.\<close>

definition key_tokens :: "bytes \<Rightarrow> nat \<Rightarrow> JTok list \<Rightarrow> nat list \<Rightarrow> bool" where
  "key_tokens s n ts is \<longleftrightarrow> (\<forall>i \<in> set is. i < length ts \<and> jt_type (ts ! i) = JT_STRING \<and>
     (\<exists>e. jt_end (ts ! i) = int e \<and> string_span s n (jt_start (ts ! i)) e))"

lemma object_key_tokens:
  assumes "located ts b p (JT JT_OBJECT a e ks)" "jt_wf s n (JT JT_OBJECT a e ks)"
  shows "key_tokens s n ts (jt_keys ts b (Suc b))"
  unfolding key_tokens_def using object_keys(3) [OF assms] by fastforce

lemma key_tokens_Cons [simp]:
  "key_tokens s n ts (i # is) \<longleftrightarrow> (i < length ts \<and> jt_type (ts ! i) = JT_STRING \<and>
     (\<exists>e. jt_end (ts ! i) = int e \<and> string_span s n (jt_start (ts ! i)) e)) \<and> key_tokens s n ts is"
  by (auto simp: key_tokens_def)

lemma json_key_strings_defined: "key_tokens s n ts is \<Longrightarrow> defined (json_key_strings s ts is)"
proof (induction "is")
  case (Cons i "is")
  then have "defined (jt_string_copy s (ts ! i))" by (intro jt_string_copy_defined) auto
  with Cons show ?case by (auto intro!: defined_bindE)
qed simp

lemma jb_size_defined [simp]: "defined (jb_size_add a b)" "defined (jb_size_mul a b)"
  by (simp_all add: jb_size_add_def jb_size_mul_def)

lemma json_slab_bytes_defined: "defined (json_slab_bytes ts is b)"
  by (induction ts "is" b rule: json_slab_bytes.induct) auto

lemma json_check_object_defined:
  assumes "jt_type (ts ! b) = JT_OBJECT \<Longrightarrow> key_tokens s n ts (jt_keys ts b (Suc b))"
  shows "defined (json_check_object s ts b)"
  using assms json_key_strings_defined [of s n ts]
  by (auto simp: json_check_object_def Let_def json_slab_bytes_defined split: option.splits intro!: defined_bindE)

lemma json_check_keys_from_defined:
  assumes "\<And>b. b < length ts \<Longrightarrow> defined (json_check_object s ts b)"
  shows "defined (json_check_keys_from s ts b)"
  using assms
proof (induction s ts b rule: json_check_keys_from.induct)
  case (1 s t b)
  then show ?case by (subst json_check_keys_from.simps) (auto intro!: defined_bindE)
qed

lemma flat_key_tokens:
  assumes "jt_wf s n tr" "b < length (flat 0 (-1) tr)" "jt_type (flat 0 (-1) tr ! b) = JT_OBJECT"
  obtains p a e ks where "located (flat 0 (-1) tr) b p (JT JT_OBJECT a e ks)" "jt_wf s n (JT JT_OBJECT a e ks)"
proof -
  obtain q u where u: "located (flat 0 (-1) tr) b q u" "jt_wf s n u"
    by (rule flat_located [OF assms(2,1)])
  obtain ty a e ks where "u = JT ty a e ks" by (cases u)
  with located_token [of _ b q ty a e ks] u assms(3) show ?thesis
    by (intro that [of q a e ks]) auto
qed

lemma json_tokens_defined:
  assumes "n \<le> length s"
  shows "defined (json_tokens s n)"
proof -
  let ?p = "\<lparr>jp_s = s, jp_n = n, jp_pos = 0, jp_t = [], jp_cap = 0, jp_depth = 0\<rparr>"
  have v: "defined (json_parse_value (2 * n + 1) ?p (-1))"
    using json_parse_defined [of "2 * n + 1", THEN conjunct1, rule_format, of ?p "-1"] assms by simp
  have k: "defined (json_check_keys s (jp_t p))"
    if val: "json_parse_value (2 * n + 1) ?p (-1) = Inr (p, i)" for p i
  proof -
    obtain tr where tr: "parsed ?p (-1) p tr"
      using json_parse_tree [THEN conjunct1, rule_format, OF val] by auto
    then have t: "jp_t p = flat 0 (-1) tr" "jt_wf s n tr" by (simp_all add: parsed_def bump_def)
    have "defined (json_check_object s (jp_t p) b)" if "b < length (jp_t p)" for b
    proof (rule json_check_object_defined)
      assume o: "jt_type (jp_t p ! b) = JT_OBJECT"
      show "key_tokens s n (jp_t p) (jt_keys (jp_t p) b (Suc b))" unfolding t(1)
        by (rule flat_key_tokens [OF t(2) that [unfolded t(1)] o [unfolded t(1)]])
          (rule object_key_tokens)
    qed
    then show ?thesis unfolding json_check_keys_def by (rule json_check_keys_from_defined)
  qed
  show ?thesis using v k by (auto simp: json_tokens_def intro!: defined_bindE)
qed

lemma json_key_strings_Inr:
  "json_key_strings s ts is = Inr keys \<Longrightarrow> length keys = length is"
  by (induction "is" arbitrary: keys) (auto simp: bindE_Inr_iff)

text \<open>The search over an object's keys is the lookup in the map of its members.\<close>

lemma find_key_map_of:
  "key_tokens s n ts is \<Longrightarrow> json_key_strings s ts is = Inr keys \<Longrightarrow>
     find_key s ts key is =
       Inr (case map_of (zip keys is) key of None \<Rightarrow> -1 | Some i \<Rightarrow> int (Suc i))"
proof (induction "is" arbitrary: keys)
  case (Cons i "is")
  then obtain k ks where k: "jt_string_copy s (ts ! i) = Inr k" "json_key_strings s ts is = Inr ks" "keys = k # ks"
    by (auto simp: bindE_Inr_iff)
  from Cons.prems(1) obtain e where "jt_type (ts ! i) = JT_STRING" "jt_end (ts ! i) = int e"
    "string_span s n (jt_start (ts ! i)) e" by auto
  from jt_eq_decoded(1) [OF this k(1), of key] Cons k show ?case by auto
qed simp

lemma json_adjacent_duplicate_iff:
  "json_adjacent_duplicate ks = None \<longleftrightarrow> (\<forall>i. Suc i < length ks \<longrightarrow> strcmp (ks ! i) (ks ! Suc i) \<noteq> 0)"
proof (induction ks rule: json_adjacent_duplicate.induct)
  case (1 a b ks)
  have "(\<forall>i. Suc i < length (a # b # ks) \<longrightarrow> strcmp ((a # b # ks) ! i) ((a # b # ks) ! Suc i) \<noteq> 0) \<longleftrightarrow>
      a \<noteq> b \<and> (\<forall>i. Suc i < length (b # ks) \<longrightarrow> strcmp ((b # ks) ! i) ((b # ks) ! Suc i) \<noteq> 0)"
    (is "?l \<longleftrightarrow> ?r")
  proof
    assume l: ?l
    from l [rule_format, of 0] l [rule_format, of "Suc i" for i] show ?r by auto
  next
    assume r: ?r
    show ?l
    proof (intro allI impI)
      fix i assume "Suc i < length (a # b # ks)"
      with r show "strcmp ((a # b # ks) ! i) ((a # b # ks) ! Suc i) \<noteq> 0" by (cases i) auto
    qed
  qed
  with 1 show ?case by simp
qed simp_all

lemma duplicate_iff:
  "json_adjacent_duplicate (if length keys > 1 then qsort strcmp keys else keys) = None \<longleftrightarrow> distinct keys"
proof (cases "length keys > 1")
  case True
  let ?q = "qsort strcmp keys"
  have d: "distinct ?q = distinct keys" using distinct_map_qsort [of id strcmp keys] by simp
  have "json_adjacent_duplicate ?q = None \<longleftrightarrow> distinct ?q"
  proof
    assume "json_adjacent_duplicate ?q = None"
    with strcmp.adjacent_equal [OF strcmp.sorted_qsort, of keys]
    have "strcmp (?q ! i) (?q ! j) \<noteq> 0" if "i < j" "j < length ?q" for i j
      using that by (simp add: json_adjacent_duplicate_iff)
    then have "?q ! i \<noteq> ?q ! j" if "i < j" "j < length ?q" for i j using that by auto
    then show "distinct ?q" by (metis (no_types) distinct_conv_nth linorder_neqE_nat)
  next
    assume "distinct ?q"
    then show "json_adjacent_duplicate ?q = None"
      by (auto simp: json_adjacent_duplicate_iff distinct_conv_nth)
  qed
  with d True show ?thesis by simp
next
  case False
  then have "keys = [] \<or> (\<exists>k. keys = [k])" by (cases keys; cases "tl keys") auto
  then show ?thesis by auto
qed

lemma json_check_object_Inr:
  assumes "json_check_object s ts b = Inr ()" "jt_type (ts ! b) = JT_OBJECT" "jt_size (ts ! b) \<ge> 4"
  obtains keys where "json_key_strings s ts (jt_keys ts b (Suc b)) = Inr keys" "distinct keys"
proof -
  obtain keys where k: "json_key_strings s ts (jt_keys ts b (Suc b)) = Inr keys"
    "json_adjacent_duplicate (if length keys > 1 then qsort strcmp keys else keys) = None"
    using assms by (auto simp: json_check_object_def Let_def bindE_Inr_iff split: option.splits)
  from that [OF k(1)] k(2) show ?thesis unfolding duplicate_iff by blast
qed

lemma json_check_keys_from_Inr:
  "json_check_keys_from s ts i = Inr () \<Longrightarrow> i \<le> b \<Longrightarrow> b < length ts \<Longrightarrow> json_check_object s ts b = Inr ()"
proof (induction s ts i rule: json_check_keys_from.induct)
  case (1 s t i)
  then show ?case
    by (cases "b = i") (auto simp: json_check_keys_from.simps [of s t i] bindE_Inr_iff)
qed

text \<open>Every object of an accepted text: its keys are distinct, and looking one up finds its value.\<close>

lemma json_object_members:
  assumes "json_tokens s n = Inr ts" "b < length ts" "jt_type (ts ! b) = JT_OBJECT"
  shows "key_tokens s n ts (jt_keys ts b (Suc b))"
    "jt_obj_get s ts (int b) key = find_key s ts key (jt_keys ts b (Suc b))"
    "length (jt_keys ts b (Suc b)) = jt_size (ts ! b) div 2" "json_check_object s ts b = Inr ()"
proof -
  obtain tr where tr: "ts = flat 0 (-1) tr" "jt_wf s n tr" "json_check_keys s ts = Inr ()"
    by (rule json_tokens_InrE [OF assms(1)])
  obtain p a e ks where o: "located ts b p (JT JT_OBJECT a e ks)" "jt_wf s n (JT JT_OBJECT a e ks)"
    using flat_key_tokens [OF tr(2), of b] assms(2,3) tr(1) by blast
  show "key_tokens s n ts (jt_keys ts b (Suc b))" by (rule object_key_tokens [OF o])
  show "jt_obj_get s ts (int b) key = find_key s ts key (jt_keys ts b (Suc b))"
    by (rule object_keys(2) [OF o])
  show "length (jt_keys ts b (Suc b)) = jt_size (ts ! b) div 2"
    using located_token [OF o(1)] by (simp add: object_keys(1) [OF o] length_key_at)
  show "json_check_object s ts b = Inr ()"
      using json_check_keys_from_Inr [of s ts 0 b] tr(3) assms(2) by (simp add: json_check_keys_def)
qed

lemma json_object_lookup:
  assumes "json_tokens s n = Inr ts" "b < length ts" "jt_type (ts ! b) = JT_OBJECT"
    "json_key_strings s ts (jt_keys ts b (Suc b)) = Inr keys"
  shows "distinct keys"
    "jt_obj_get s ts (int b) key =
       Inr (case map_of (zip keys (jt_keys ts b (Suc b))) key of None \<Rightarrow> -1 | Some i \<Rightarrow> int (Suc i))"
proof -
  note k = json_object_members [OF assms(1,2,3)]
  show "jt_obj_get s ts (int b) key =
       Inr (case map_of (zip keys (jt_keys ts b (Suc b))) key of None \<Rightarrow> -1 | Some i \<Rightarrow> int (Suc i))"
    unfolding k(2) by (rule find_key_map_of [OF k(1) assms(4)])
  show "distinct keys"
  proof (cases "jt_size (ts ! b) \<ge> 4")
    case True
    show ?thesis by (rule json_check_object_Inr [OF k(4) assms(3) True]) (use assms(4) in auto)
  next
    case False
    with k(3) json_key_strings_Inr [OF assms(4)] have "length keys \<le> 1" by simp
    then show ?thesis by (cases keys) auto
  qed
qed

section \<open>Properties\<close>

text \<open>
  C1. The tokenizer is total and stays inside its input: on every buffer of at least \<open>n\<close> bytes
  \<open>json_tokens\<close> returns tokens or one of its own errors; no byte outside the buffer is read and
  neither the recursion nor a loop outruns its bound.
\<close>

theorem json_tokens_total:
  assumes "n \<le> length s"
  shows "dies (json_tokens s n) \<or> (\<exists>ts. json_tokens s n = Inr ts)"
  using json_tokens_defined [OF assms] by (simp add: defined_iff)

theorem json_tokens_total_witness:
  "dies (json_tokens (str ''{a'') 2) \<or> (\<exists>ts. json_tokens (str ''{a'') 2 = Inr ts)"
  by (rule json_tokens_total) simp

text \<open>
  C2. The token array of an accepted text is the pre-order of one tree: every string token spans
  a scanned string and every primitive a valid number or literal, objects alternate string keys
  and values, spans stay inside the text, each token's parent and child count are those of the
  tree, and the nesting is at most \<open>JB_MAX_DEPTH\<close>.
\<close>

theorem json_tokens_tree:
  assumes "json_tokens s n = Inr ts"
  shows "\<exists>tr. ts = flat 0 (-1) tr \<and> jt_wf s n tr \<and> jt_height tr \<le> JB_MAX_DEPTH \<and> n \<le> JB_MAX_JSON"
  by (rule json_tokens_InrE [OF assms]) blast

theorem json_tokens_tree_witness:
  "\<exists>tr. [\<lparr>jt_type = JT_ARRAY, jt_start = 0, jt_end = 3, jt_parent = -1, jt_size = 1\<rparr>,
         \<lparr>jt_type = JT_PRIMITIVE, jt_start = 1, jt_end = 2, jt_parent = 0, jt_size = 0\<rparr>] = flat 0 (-1) tr \<and>
     jt_wf (str ''[7]'') 3 tr \<and> jt_height tr \<le> JB_MAX_DEPTH \<and> 3 \<le> JB_MAX_JSON"
  by (rule json_tokens_tree) code_simp

text \<open>
  C3. Looking up a member: in an accepted text the decoded keys of every object are distinct, and
  \<open>jt_obj_get\<close> returns the index of the value of the key it is asked for, however the key is
  escaped in the text and whatever is nested in between, and \<open>-1\<close> when there is none.
\<close>

theorem jt_obj_get_correct:
  assumes "json_tokens s n = Inr ts" "b < length ts" "jt_type (ts ! b) = JT_OBJECT"
    "json_key_strings s ts (jt_keys ts b (Suc b)) = Inr keys"
  shows "distinct keys \<and> jt_obj_get s ts (int b) key =
    Inr (case map_of (zip keys (jt_keys ts b (Suc b))) key of None \<Rightarrow> -1 | Some i \<Rightarrow> int (Suc i))"
  using json_object_lookup [OF assms] by blast

theorem jt_obj_get_correct_witness:
  "distinct [[98], [97 :: byte]] \<and>
   jt_obj_get (str ''{'' @ [34, 98, 34] @ str '':{},'' @ [34, 92] @ str ''u0061'' @ [34] @ str '':7}'')
     [\<lparr>jt_type = JT_OBJECT, jt_start = 0, jt_end = 19, jt_parent = -1, jt_size = 4\<rparr>,
      \<lparr>jt_type = JT_STRING, jt_start = 2, jt_end = 3, jt_parent = 0, jt_size = 0\<rparr>,
      \<lparr>jt_type = JT_OBJECT, jt_start = 5, jt_end = 7, jt_parent = 0, jt_size = 0\<rparr>,
      \<lparr>jt_type = JT_STRING, jt_start = 9, jt_end = 15, jt_parent = 0, jt_size = 0\<rparr>,
      \<lparr>jt_type = JT_PRIMITIVE, jt_start = 17, jt_end = 18, jt_parent = 0, jt_size = 0\<rparr>] (int 0) [97] =
   Inr (case map_of (zip [[98], [97]] [1, 3]) [97 :: byte] of None \<Rightarrow> -1 | Some i \<Rightarrow> int (Suc i))"
proof -
  let ?s = "str ''{'' @ [34, 98, 34] @ str '':{},'' @ [34, 92] @ str ''u0061'' @ [34] @ str '':7}''"
  let ?ts = "[\<lparr>jt_type = JT_OBJECT, jt_start = 0, jt_end = 19, jt_parent = -1, jt_size = 4\<rparr>,
      \<lparr>jt_type = JT_STRING, jt_start = 2, jt_end = 3, jt_parent = 0, jt_size = 0\<rparr>,
      \<lparr>jt_type = JT_OBJECT, jt_start = 5, jt_end = 7, jt_parent = 0, jt_size = 0\<rparr>,
      \<lparr>jt_type = JT_STRING, jt_start = 9, jt_end = 15, jt_parent = 0, jt_size = 0\<rparr>,
      \<lparr>jt_type = JT_PRIMITIVE, jt_start = 17, jt_end = 18, jt_parent = 0, jt_size = 0\<rparr>]"
  have t: "json_tokens ?s 19 = Inr ?ts" by code_simp
  have k: "jt_keys ?ts 0 (Suc 0) = [1, 3]" by code_simp
  have ks: "json_key_strings ?s ?ts [1, 3] = Inr [[98], [97]]" by code_simp
  show ?thesis
    using jt_obj_get_correct [OF t, of 0 "[[98], [97]]" "[97]"] k ks by simp
qed

text \<open>
  C4. What decoding a string token yields fits the three bytes per input byte that the program
  reserves for it, is valid UTF-8 and contains no NUL, so that the C string made of it is the
  whole of it.
\<close>

theorem jt_string_copy_safe:
  assumes "string_span s n (jt_start t) e" "jt_end t = int e" "jt_type t = JT_STRING"
    "jt_string_copy s t = Inr z"
  shows "length z \<le> 3 * (e - jt_start t) \<and> utf8_ok z \<and> cstr z = z"
proof -
  have sp: "string_span s n (jt_start t) (nat (jt_end t))" using assms by simp
  have "cstr z = z" by (rule cstr_nonzero [OF jt_eq_decoded(2) [OF assms(3,2,1,4)]])
  with jt_string_copy_Inr [OF assms(4,3) sp] assms(2) show ?thesis by simp
qed

lemma string_span_eval: "string_span ([34, 92] @ str ''u00e9'' @ [34]) 8 1 7"
  unfolding string_span_def by code_simp

lemma jt_string_copy_eval: "jt_string_copy ([34, 92] @ str ''u00e9'' @ [34])
    \<lparr>jt_type = JT_STRING, jt_start = 1, jt_end = 7, jt_parent = -1, jt_size = 0\<rparr> = Inr (put_utf8 0xe9)"
  by code_simp

theorem jt_string_copy_safe_witness:
  "length (put_utf8 0xe9) \<le> 3 * (7 - 1) \<and> utf8_ok (put_utf8 0xe9) \<and> cstr (put_utf8 0xe9) = put_utf8 0xe9"
  using jt_string_copy_safe [of "[34, 92] @ str ''u00e9'' @ [34]" 8
      "\<lparr>jt_type = JT_STRING, jt_start = 1, jt_end = 7, jt_parent = -1, jt_size = 0\<rparr>" 7 "put_utf8 0xe9"]
    string_span_eval jt_string_copy_eval by simp

end
