(* ===== verification/JsonWriter.thy ===== *)
theory JsonWriter
  imports JsonQuery
begin

text \<open>
  The writer half of \<open>src/decision.inc\<close>: the growing text buffer \<open>DGBuf\<close>, JSON strings, the
  locale-independent decimal, the canonical form of a JSON value (which seeds a request and is
  what a prompt shows), and the text of a token with Python's notion of white space stripped.

  Strings are C strings, byte lists without NUL. What \<open>snprintf\<close> makes of a \<open>double\<close> is a
  parameter; \<open>db_decimal\<close> is what the code does with it.
\<close>

section \<open>The buffer\<close>

text \<open>\<open>db_p\<close> is the text without its NUL, \<open>db_cap\<close> is 0 before the first allocation.\<close>

record DGBuf =
  db_p :: bytes
  db_cap :: nat
  db_limit :: nat

definition db_empty :: DGBuf where
  "db_empty = \<lparr>db_p = [], db_cap = 0, db_limit = 0\<rparr>"

text \<open>\<open>while (c < need)\<close>, which would not end from 0.\<close>

function db_grow :: "nat \<Rightarrow> nat \<Rightarrow> nat result" where
  "db_grow c need =
     (if c < need then
        if c = 0 then Inl OutOfFuel
        else if c > UINT64_MAX div 2 then die ''string size overflow''
        else db_grow (c * 2) need
      else Inr c)"
  by pat_completeness auto
termination
  by (relation "measure (\<lambda>(c, need). need - c)") auto

declare db_grow.simps [simp del]

definition db_need :: "DGBuf \<Rightarrow> nat \<Rightarrow> DGBuf result" where
  "db_need b add =
     (let n = length (db_p b) in
      if db_limit b \<noteq> 0 \<and> (n > db_limit b \<or> add > db_limit b - n) then die ''JSON output is too large''
      else if add > UINT64_MAX - n - 1 then die ''string size overflow''
      else let need = n + add + 1 in
        if need > db_cap b then
          bindE (db_grow (if db_cap b \<noteq> 0 then db_cap b else 256) need) (\<lambda>c. Inr (b\<lparr>db_cap := c\<rparr>))
        else Inr b)"

definition db_mem :: "DGBuf \<Rightarrow> bytes \<Rightarrow> DGBuf result" where
  "db_mem b p = bindE (db_need b (length p)) (\<lambda>b. Inr (b\<lparr>db_p := db_p b @ p\<rparr>))"

definition db_ch :: "DGBuf \<Rightarrow> byte \<Rightarrow> DGBuf result" where
  "db_ch b c = bindE (db_need b 1) (\<lambda>b. Inr (b\<lparr>db_p := db_p b @ [c]\<rparr>))"

section \<open>Numbers\<close>

text \<open>The bytes up to the NUL of what \<open>snprintf\<close> stored, and its result.\<close>

fun db_decimal_loop :: "bytes \<Rightarrow> bool \<Rightarrow> bool \<Rightarrow> bytes" where
  "db_decimal_loop [] exponent point = []"
| "db_decimal_loop (c # z) exponent point =
     (if (48 \<le> c \<and> c \<le> 57) \<or> c = 43 \<or> c = 45 then c # db_decimal_loop z exponent point
      else if c = 101 \<or> c = 69 then c # db_decimal_loop z True point
      else if \<not> exponent \<and> \<not> point then 46 # db_decimal_loop z exponent True
      else db_decimal_loop z exponent point)"

definition db_decimal :: "DGBuf \<Rightarrow> bytes \<Rightarrow> int \<Rightarrow> DGBuf result" where
  "db_decimal b z n =
     (if n < 0 \<or> n \<ge> 64 then die ''number formatting failed''
      else db_mem b (db_decimal_loop z False False))"

text \<open>\<open>jb_numeric_format\<close> writes a number into 64 bytes: its text is a parameter.\<close>

definition db_number :: "('d \<Rightarrow> bytes) \<Rightarrow> DGBuf \<Rightarrow> 'd \<Rightarrow> DGBuf result" where
  "db_number fmt b v = db_decimal b (take 63 (fmt v)) (int (length (fmt v)))"

section \<open>Strings\<close>

definition hex_digit :: "nat \<Rightarrow> byte" where
  "hex_digit d = of_nat (if d < 10 then 48 + d else 87 + d)"

text \<open>\<open>snprintf\<close> of \<open>%04x\<close> for a value below 65536.\<close>

definition hex04 :: "u32 \<Rightarrow> bytes" where
  "hex04 v = map (\<lambda>k. hex_digit (unat v div 16 ^ k mod 16)) [3, 2, 1, 0]"

definition db_escape :: "DGBuf \<Rightarrow> u32 \<Rightarrow> bytes \<Rightarrow> bool \<Rightarrow> DGBuf result" where
  "db_escape b cp raw ascii =
     (if cp = 34 \<or> cp = 92 then bindE (db_ch b 92) (\<lambda>b. db_ch b (ucast cp))
      else if cp = 8 then db_mem b [92, 98]
      else if cp = 12 then db_mem b [92, 102]
      else if cp = 10 then db_mem b [92, 110]
      else if cp = 13 then db_mem b [92, 114]
      else if cp = 9 then db_mem b [92, 116]
      else if cp < 32 \<or> (ascii \<and> cp > 127) then
        if cp \<le> 0xffff then db_mem b ([92, 117] @ hex04 cp)
        else let cp = cp - 0x10000 in
          db_mem b ([92, 117] @ hex04 (0xd800 + drop_bit 10 cp) @ [92, 117] @ hex04 (0xdc00 + (cp AND 1023)))
      else db_mem b raw)"

text \<open>The loop of \<open>db_json_string\<close> over the \<open>n\<close> bytes of \<open>s\<close>.\<close>

function db_json_loop :: "DGBuf \<Rightarrow> bytes \<Rightarrow> nat \<Rightarrow> nat \<Rightarrow> bool \<Rightarrow> DGBuf result" where
  "db_json_loop b s n i ascii =
     (if i < n then
        bindE (next_cp s n i) (\<lambda>(cp, j).
        bindE (db_escape b cp (span_of s i j) ascii) (\<lambda>b. db_json_loop b s n j ascii))
      else Inr b)"
  by pat_completeness auto
termination
proof (relation "measure (\<lambda>(b, s, n, i, ascii). n - i)")
  fix b s and n i :: nat and ascii v cp j b'
  assume "i < n" "next_cp s n i = Inr v" "(cp, j) = v"
  then show "((b', s, n, j, ascii), b, s, n, i, ascii) \<in> measure (\<lambda>(b, s, n, i, ascii). n - i)"
    using next_cp_sound(6) [of s n i cp j] by auto
qed simp

declare db_json_loop.simps [simp del]

definition db_json_string :: "DGBuf \<Rightarrow> bytes \<Rightarrow> bool \<Rightarrow> DGBuf result" where
  "db_json_string b s ascii =
     bindE (db_ch b 34) (\<lambda>b.
     bindE (db_json_loop b s (length s) 0 ascii) (\<lambda>b. db_ch b 34))"

section \<open>The canonical form of a value\<close>

text \<open>The loop over the children of the array \<open>at\<close>: their indices.\<close>

function dg_elements :: "JTok list \<Rightarrow> nat \<Rightarrow> nat \<Rightarrow> nat list" where
  "dg_elements t at i =
     (if i < length t \<and> jt_parent (t ! i) \<ge> int at then
        if jt_parent (t ! i) = int at then i # dg_elements t at (Suc i) else dg_elements t at (Suc i)
      else [])"
  by pat_completeness auto
termination
  by (relation "measure (\<lambda>(t, at, i). length t - i)") auto

declare dg_elements.simps [simp del]

text \<open>
  The loop that collects the \<open>DGKey\<close>s of an object into the \<open>nk\<close> places that were allocated;
  a store past them is undefined.
\<close>

function dg_members :: "bytes \<Rightarrow> JTok list \<Rightarrow> nat \<Rightarrow> nat \<Rightarrow> nat \<Rightarrow> (nat \<times> bytes) list result" where
  "dg_members j t at nk i =
     (if Suc i < length t \<and> jt_parent (t ! i) \<ge> int at then
        if jt_parent (t ! i) = int at then
          if nk = 0 then Inl Undefined
          else bindE (jt_string j (t ! i)) (\<lambda>key.
            bindE (dg_members j t at (nk - 1) (Suc (Suc i))) (\<lambda>ks. Inr ((i, key) # ks)))
        else dg_members j t at nk (Suc i)
      else Inr [])"
  by pat_completeness auto
termination
  by (relation "measure (\<lambda>(j, t, at, nk, i). length t - i)") auto

declare dg_members.simps [simp del]

definition dg_key_cmp :: "nat \<times> bytes \<Rightarrow> nat \<times> bytes \<Rightarrow> int" where
  "dg_key_cmp a b = strcmp (snd a) (snd b)"

text \<open>
  \<open>dg_json_value\<close> recurses once per nesting level, which its fuel bounds. \<open>dg_json_array\<close> and
  \<open>dg_json_object\<close> are its two output loops; \<open>first\<close> is true before the first item.
\<close>

function (sequential) dg_json_value :: "nat \<Rightarrow> DGBuf \<Rightarrow> bytes \<Rightarrow> JTok list \<Rightarrow> nat \<Rightarrow> bool \<Rightarrow> bool \<Rightarrow> DGBuf result"
  and dg_json_array :: "nat \<Rightarrow> DGBuf \<Rightarrow> bytes \<Rightarrow> JTok list \<Rightarrow> nat list \<Rightarrow> bool \<Rightarrow> bool \<Rightarrow> bool \<Rightarrow> DGBuf result"
  and dg_json_object :: "nat \<Rightarrow> DGBuf \<Rightarrow> bytes \<Rightarrow> JTok list \<Rightarrow> (nat \<times> bytes) list \<Rightarrow> bool \<Rightarrow> bool \<Rightarrow> bool \<Rightarrow> DGBuf result"
  where
  "dg_json_value 0 b j t at sort_keys ascii = Inl OutOfFuel"
| "dg_json_value (Suc fuel) b j t at sort_keys ascii =
     bindE (rd t at) (\<lambda>tok.
       if jt_type tok = JT_STRING then bindE (jt_string j tok) (\<lambda>s. db_json_string b s ascii)
       else if jt_type tok = JT_PRIMITIVE then
         db_mem b (span_of j (jt_start tok) (nat (jt_end tok)))
       else if jt_type tok = JT_ARRAY then
         bindE (db_ch b 91) (\<lambda>b.
         bindE (dg_json_array fuel b j t (dg_elements t at (Suc at)) True sort_keys ascii) (\<lambda>b.
           db_ch b 93))
       else
         let nk = jt_size tok div 2 in
         bindE (dg_members j t at nk (Suc at)) (\<lambda>ks.
           if length ks \<noteq> nk then die ''bad JSON object''
           else bindE (db_ch b 123) (\<lambda>b.
             bindE (dg_json_object fuel b j t (if sort_keys then qsort dg_key_cmp ks else ks)
                      True sort_keys ascii) (\<lambda>b. db_ch b 125))))"
| "dg_json_array fuel b j t [] first sort_keys ascii = Inr b"
| "dg_json_array fuel b j t (i # is) first sort_keys ascii =
     bindE (if \<not> first then db_mem b (str '', '') else Inr b) (\<lambda>b.
     bindE (dg_json_value fuel b j t i sort_keys ascii) (\<lambda>b.
       dg_json_array fuel b j t is False sort_keys ascii))"
| "dg_json_object fuel b j t [] first sort_keys ascii = Inr b"
| "dg_json_object fuel b j t ((i, key) # ks) first sort_keys ascii =
     bindE (if \<not> first then db_mem b (str '', '') else Inr b) (\<lambda>b.
     bindE (db_json_string b key ascii) (\<lambda>b.
     bindE (db_mem b (str '': '')) (\<lambda>b.
     bindE (dg_json_value fuel b j t (Suc i) sort_keys ascii) (\<lambda>b.
       dg_json_object fuel b j t ks False sort_keys ascii))))"
  by pat_completeness auto
termination
  by (relation "measures [\<lambda>x. case x of Inl (f, _) \<Rightarrow> f | Inr (Inl (f, _)) \<Rightarrow> f | Inr (Inr (f, _)) \<Rightarrow> f,
      \<lambda>x. case x of Inl _ \<Rightarrow> 0 | Inr (Inl (_, _, _, _, is, _)) \<Rightarrow> Suc (length is)
         | Inr (Inr (_, _, _, _, ks, _)) \<Rightarrow> Suc (length ks)]") auto

text \<open>The nesting of accepted tokens is at most \<open>JB_MAX_DEPTH\<close>, with a scalar below it.\<close>

definition dg_json :: "DGBuf \<Rightarrow> bytes \<Rightarrow> JTok list \<Rightarrow> nat \<Rightarrow> bool \<Rightarrow> bool \<Rightarrow> DGBuf result" where
  "dg_json b j t at sort_keys ascii = dg_json_value (Suc JB_MAX_DEPTH) b j t at sort_keys ascii"

definition dg_json_canonical :: "bytes \<Rightarrow> JTok list \<Rightarrow> nat \<Rightarrow> bool \<Rightarrow> bool \<Rightarrow> bytes result" where
  "dg_json_canonical j t at sort_keys ascii =
     bindE (dg_json db_empty j t at sort_keys ascii) (\<lambda>b. Inr (db_p b))"

section \<open>The text of a token\<close>

definition dg_py_space :: "u32 \<Rightarrow> bool" where
  "dg_py_space c \<longleftrightarrow> (9 \<le> c \<and> c \<le> 13) \<or> (0x1c \<le> c \<and> c \<le> 0x20) \<or> c = 0x85 \<or> c = 0xa0 \<or>
     c = 0x1680 \<or> (0x2000 \<le> c \<and> c \<le> 0x200a) \<or> c = 0x2028 \<or> c = 0x2029 \<or>
     c = 0x202f \<or> c = 0x205f \<or> c = 0x3000"

text \<open>The loop of \<open>dg_text_of\<close>: the span from the first to the last code point that stays.\<close>

function dg_strip_loop :: "bytes \<Rightarrow> nat \<Rightarrow> nat \<Rightarrow> nat \<Rightarrow> nat \<Rightarrow> (nat \<times> nat) result" where
  "dg_strip_loop s n p first final =
     (if p < n then
        bindE (next_cp s n p) (\<lambda>(c, q).
          if \<not> dg_py_space c then dg_strip_loop s n q (if first = n then p else first) q
          else dg_strip_loop s n q first final)
      else Inr (first, final))"
  by pat_completeness auto
termination
proof (relation "measure (\<lambda>(s, n, p, first, final). n - p)")
  fix s and n p :: nat and first final :: nat and v c q
  assume a: "p < n" "next_cp s n p = Inr v" "(c, q) = v"
  then show "((s, n, q, if first = n then p else first, q), s, n, p, first, final) \<in> measure (\<lambda>(s, n, p, first, final). n - p)"
    and "((s, n, q, first, final), s, n, p, first, final) \<in> measure (\<lambda>(s, n, p, first, final). n - p)"
    using next_cp_sound(6) [of s n p c q] by auto
qed simp

declare dg_strip_loop.simps [simp del]

definition dg_text_of :: "bytes \<Rightarrow> JTok list \<Rightarrow> nat \<Rightarrow> bytes result" where
  "dg_text_of j t at =
     bindE (rd t at) (\<lambda>tok.
       if jt_type tok \<noteq> JT_STRING then
         if jt_literal j tok (str ''null'') then Inr [] else dg_json_canonical j t at False False
       else bindE (jt_string j tok) (\<lambda>s.
         bindE (dg_strip_loop s (length s) 0 (length s) 0) (\<lambda>(first, final).
           if first = length s then Inr [] else Inr (span_of s first final))))"

end
