(* ===== verification/Format.thy ===== *)
theory Format
  imports JsonWriter
begin

text \<open>
  Formatted output into a buffer: \<open>db_fmt\<close> of \<open>src/decision.inc\<close>, of the bytes that the \<open>printf\<close>
  family makes of its arguments, and the decimal digits of \<open>%d\<close>.
\<close>

text \<open>\<open>%d\<close> and \<open>%u\<close> of a number that is not negative.\<close>

fun decimal :: "nat \<Rightarrow> bytes" where
  "decimal n = (if n < 10 then [of_nat (48 + n)] else decimal (n div 10) @ [of_nat (48 + n mod 10)])"

declare decimal.simps [simp del]

text \<open>\<open>vsnprintf\<close> fails for an output longer than \<open>INT_MAX\<close>.\<close>

definition db_fmt :: "DGBuf \<Rightarrow> bytes \<Rightarrow> DGBuf result" where
  "db_fmt b z =
     (if length z > INT32_MAX then die ''formatting failed''
      else bindE (db_need b (length z)) (\<lambda>b. Inr (b\<lparr>db_p := db_p b @ z\<rparr>)))"

lemma db_grow_defined: "0 < c \<Longrightarrow> defined (db_grow c need)"
  by (induction c need rule: db_grow.induct) (subst db_grow.simps, auto)

lemma db_need_defined: "defined (db_need b n)"
  by (auto simp: db_need_def Let_def intro!: defined_bindE db_grow_defined)

lemma db_writers_defined:
  "defined (db_mem b z)" "defined (db_ch b c)" "defined (db_fmt b z)"
  by (auto simp: db_mem_def db_ch_def db_fmt_def intro!: defined_bindE db_need_defined)

text \<open>What a writer leaves in the buffer.\<close>

lemma db_need_keeps: "db_need b n = Inr b' \<Longrightarrow> db_p b' = db_p b"
  by (auto simp: db_need_def Let_def bindE_Inr_iff split: if_splits)

lemma db_fmt_Inr: "db_fmt b z = Inr b' \<Longrightarrow> db_p b' = db_p b @ z"
  and db_mem_Inr: "db_mem b z = Inr b' \<Longrightarrow> db_p b' = db_p b @ z"
  and db_ch_Inr: "db_ch b c = Inr b' \<Longrightarrow> db_p b' = db_p b @ [c]"
  by (auto simp: db_fmt_def db_mem_def db_ch_def bindE_Inr_iff dest: db_need_keeps split: if_splits)

text \<open>Digits.\<close>

lemma decimal_digits: "decimal n \<noteq> [] \<and> (\<forall>c \<in> set (decimal n). 48 \<le> c \<and> c \<le> 57)"
proof (induction n rule: decimal.induct)
  case (1 n)
  have digit: "48 \<le> (of_nat (48 + d) :: byte) \<and> (of_nat (48 + d) :: byte) \<le> 57" if "d < 10" for d
  proof -
    have "unat (of_nat (48 + d) :: byte) = 48 + d"
      using that by (simp only: unsigned_of_nat take_bit_nat_eq_self) (simp add: take_bit_nat_eq_self)
    with that show ?thesis by (simp add: word_le_nat_alt)
  qed
  show ?case
  proof (cases "n < 10")
    case True
    with digit [of n] show ?thesis by (subst (1 2) decimal.simps) simp
  next
    case False
    with 1 digit [of "n mod 10"] show ?thesis by (subst (1 2) decimal.simps) auto
  qed
qed

end
