(* ===== verification/JsonSafe.thy ===== *)
theory JsonSafe
  imports JsonQuery
begin

text \<open>
  Total correctness of the readers of a token array (\<open>src/json.inc\<close>), for its clients: on the
  tokens of an accepted text no lookup, comparison or copy reads outside an array, and a
  decoded token is no longer than the text.
\<close>

section \<open>Reading tokens is defined\<close>

text \<open>Every string token covers a string of the text.\<close>

definition tok_strings :: "bytes \<Rightarrow> nat \<Rightarrow> JTok list \<Rightarrow> bool" where
  "tok_strings s n ts \<longleftrightarrow>
     (\<forall>x \<in> set ts. jt_type x = JT_STRING \<longrightarrow> string_span s n (jt_start x) (nat (jt_end x)))"

lemma flat_strings:
  "jt_wf s n t \<Longrightarrow> tok_strings s n (flat b p t)"
  "jts_wf s n ks \<Longrightarrow> tok_strings s n (flats b p ks)"
  by (induction b p t and b p ks rule: flat_flats.induct) (auto simp: tok_strings_def)

lemma json_tokens_strings: "json_tokens s n = Inr ts \<Longrightarrow> tok_strings s n ts"
  by (erule json_tokens_InrE) (simp add: flat_strings)

lemma jt_string_copy_ok: "tok_strings s n ts \<Longrightarrow> i < length ts \<Longrightarrow> defined (jt_string_copy s (ts ! i))"
  by (rule jt_string_copy_defined [of _ s n]) (simp add: tok_strings_def)

lemma jt_eq_ok: "tok_strings s n ts \<Longrightarrow> i < length ts \<Longrightarrow> defined (jt_eq s (ts ! i) z)"
  using jt_string_copy_ok by (auto simp: jt_eq_def jt_string_def Let_def)

lemma jt_obj_loop_ok:
  "tok_strings s n ts \<Longrightarrow> ensures (jt_obj_loop s ts obj key i) (\<lambda>f. -1 \<le> f \<and> f < int (length ts))"
proof (induction s ts obj key i rule: jt_obj_loop.induct)
  case (1 j t obj key i)
  show ?case
  proof (cases "Suc i < length t")
    case True
    have "defined (jt_eq j (t ! i) key)" using jt_eq_ok [OF "1.prems"] True by simp
    with 1 True show ?thesis
      by (subst jt_obj_loop.simps) (auto intro: ensures_defined)
  qed (simp add: jt_obj_loop.simps)
qed

lemma jt_obj_get_ok:
  "tok_strings s n ts \<Longrightarrow> ensures (jt_obj_get s ts obj key) (\<lambda>f. -1 \<le> f \<and> f < int (length ts))"
  using jt_obj_loop_ok [of s n ts obj key "Suc (nat obj)"] by (simp add: jt_obj_get_def)

lemma jt_obj_get_defined: "tok_strings s n ts \<Longrightarrow> defined (jt_obj_get s ts obj key)"
  using jt_obj_get_ok by (auto simp: ensures_def)

lemma every_ok: "\<forall>c \<in> set cs. defined c \<Longrightarrow> defined (every cs)"
  by (induction cs) auto

lemma jt_nonnegative_int_ok: "defined (jt_nonnegative_int j t name)"
  by (simp add: jt_nonnegative_int_def split: option.split)

text \<open>A decoded token is not much longer than the text.\<close>

lemma hex4_reads: "hex4 j at = Inr u \<Longrightarrow> at + 4 \<le> length j"
proof -
  have "hex4_loop j at k v = Inr u \<Longrightarrow> k = 0 \<or> at + k \<le> length j" for k v
    by (induction k arbitrary: at v) (fastforce simp: bindE_Inr_iff)+
  then show "hex4 j at = Inr u \<Longrightarrow> at + 4 \<le> length j" by (force simp: hex4_def)
qed

lemma jt_copy_loop_step:
  assumes "jt_copy_loop j i e = Inr z" "i < e"
  obtains p k y where "z = p @ y" "jt_copy_loop j k e = Inr y" "i < k" "k \<le> length j" "length p \<le> k - i"
proof -
  note step = that
  note r = assms(1) [unfolded jt_copy_loop.simps [of j i e]]
  have u4: "length (put_utf8 u) \<le> 6" "length (put_utf8 u) \<le> 12" for u using length_put_utf8_le [of u] by simp_all
  show thesis
  proof (cases "j ! i = 92")
    case False
    with r assms(2) show thesis by (auto simp: bindE_Inr_iff intro: step [of "[j ! i]" _ "Suc i"])
  next
    case esc: True
    show thesis
    proof (cases "j ! Suc i = 117")
      case False
      with r assms(2) esc show thesis
        by (auto simp: bindE_Inr_iff intro: step [of "[json_unescape (j ! Suc i)]" _ "Suc (Suc i)"])
    next
      case True
      with r assms(2) esc obtain u where u: "hex4 j (Suc (Suc i)) = Inr u" by (auto simp: bindE_Inr_iff)
      then have l: "i + 6 \<le> length j" using hex4_reads by fastforce
      show thesis
      proof (cases "u \<ge> 0xd800 \<and> u \<le> 0xdbff")
        case False
        with r assms(2) esc True u l u4 show thesis
          by (auto simp: bindE_Inr_iff split: if_splits intro: step [of "put_utf8 u" _ "i + 6"])
      next
        case sur: True
        with r assms(2) esc True u obtain v y where
          v: "hex4 j (i + 8) = Inr v" "jt_copy_loop j (i + 12) e = Inr y"
          "z = put_utf8 (0x10000 + push_bit 10 (u - 0xd800) + (v - 0xdc00)) @ y"
          by (auto simp: bindE_Inr_iff split: if_splits)
        then show thesis using hex4_reads [OF v(1)] u4 by (intro step [OF v(3,2)]) simp_all
      qed
    qed
  qed
qed

lemma jt_copy_loop_short: "jt_copy_loop j i e = Inr z \<Longrightarrow> length z \<le> length j - i"
proof (induction "e - i" arbitrary: i z rule: less_induct)
  case less
  show ?case
  proof (cases "i < e")
    case True
    with less.prems obtain p k y where
      k: "z = p @ y" "jt_copy_loop j k e = Inr y" "i < k" "k \<le> length j" "length p \<le> k - i"
      by (rule jt_copy_loop_step)
    have "length y \<le> length j - k" by (rule less.hyps [OF _ k(2)]) (use True k(3) in simp)
    with k show ?thesis by simp
  qed (use less.prems in \<open>simp add: jt_copy_loop.simps\<close>)
qed

lemma jt_string_copy_short: "jt_string_copy j t = Inr z \<Longrightarrow> length z \<le> length j"
  using jt_copy_loop_short by (fastforce simp: jt_string_copy_def span_of_def bindE_Inr_iff split: if_splits)

end
