(* ===== verification/Vocab.thy ===== *)
theory Vocab
  imports Arena JsonQuery
begin

text \<open>
  The tokenizer's tables (\<open>src/model.inc\<close>): vocabulary and merges ordered for \<open>bsearch\<close>, the
  entries by id, the special tokens, and \<open>dgt_load\<close>, which builds them from the text of
  \<open>tokenizer.json\<close>. Pointers to a vocabulary entry are the entry itself, \<open>NULL\<close> is \<open>None\<close>; the
  lengths \<open>nv\<close>, \<open>nm\<close> and \<open>ns\<close> are those of the lists.
\<close>

section \<open>The tables\<close>

record Vocab =
  vo_id :: int
  vo_s :: bytes

record Merge =
  mg_a :: nat
  mg_b :: nat
  mg_rank :: nat

text \<open>\<open>(uint32_t)v->id\<close>.\<close>

definition vo_u32 :: "Vocab \<Rightarrow> nat" where
  "vo_u32 v = nat (vo_id v mod 4294967296)"

definition cmp_vocab :: "Vocab \<Rightarrow> Vocab \<Rightarrow> int" where
  "cmp_vocab x y =
     (let n = (if length (vo_s x) < length (vo_s y) then length (vo_s x) else length (vo_s y));
          c = memcmp (take n (vo_s x)) (take n (vo_s y))
      in if c \<noteq> 0 then c
         else (if length (vo_s x) > length (vo_s y) then 1 else 0) -
              (if length (vo_s x) < length (vo_s y) then 1 else 0))"

text \<open>The key is a span of bytes, a \<open>VocabKey\<close>.\<close>

definition cmp_vocab_key :: "bytes \<Rightarrow> Vocab \<Rightarrow> int" where
  "cmp_vocab_key k y =
     (let n = (if length k < length (vo_s y) then length k else length (vo_s y));
          c = memcmp (take n k) (take n (vo_s y))
      in if c \<noteq> 0 then c
         else (if length k > length (vo_s y) then 1 else 0) -
              (if length k < length (vo_s y) then 1 else 0))"

definition cmp_merge :: "Merge \<Rightarrow> Merge \<Rightarrow> int" where
  "cmp_merge x y =
     (if mg_a x \<noteq> mg_a y
      then (if mg_a x > mg_a y then 1 else 0) - (if mg_a x < mg_a y then 1 else 0)
      else (if mg_b x > mg_b y then 1 else 0) - (if mg_b x < mg_b y then 1 else 0))"

record DGTokenizer =
  dt_vocab :: "Vocab list"
  dt_by_id :: "Vocab option list"
  dt_merge :: "Merge list"
  dt_special :: "Vocab list"
  dt_maxlen :: nat
  dt_special_first :: "bool list"

definition dgt_empty :: DGTokenizer where
  "dgt_empty = \<lparr>dt_vocab = [], dt_by_id = [], dt_merge = [], dt_special = [], dt_maxlen = 0,
     dt_special_first = replicate 256 False\<rparr>"

text \<open>The length of the key is cast to \<open>uint32_t\<close>.\<close>

definition dgt_vfind :: "DGTokenizer \<Rightarrow> bytes \<Rightarrow> Vocab option" where
  "dgt_vfind d s =
     (if dt_vocab d = [] then None
      else map_option ((!) (dt_vocab d))
        (bsearch cmp_vocab_key (take (length s mod (UINT32_MAX + 1)) s) (dt_vocab d)))"

definition dgt_mfind :: "DGTokenizer \<Rightarrow> nat \<Rightarrow> nat \<Rightarrow> Merge option" where
  "dgt_mfind d a b =
     (if dt_merge d = [] then None
      else map_option ((!) (dt_merge d))
        (bsearch cmp_merge \<lparr>mg_a = a, mg_b = b, mg_rank = 0\<rparr> (dt_merge d)))"

section \<open>Reading the configuration\<close>

definition dgt_string_field :: "bytes \<Rightarrow> JTok list \<Rightarrow> int \<Rightarrow> bytes \<Rightarrow> bytes \<Rightarrow> bool result" where
  "dgt_string_field j t obj key v =
     bindE (jt_obj_get j t obj key) (\<lambda>f. if f \<ge> 0 then jt_eq j (t ! nat f) v else Inr False)"

definition dgt_literal_field :: "bytes \<Rightarrow> JTok list \<Rightarrow> int \<Rightarrow> bytes \<Rightarrow> bytes \<Rightarrow> bool result" where
  "dgt_literal_field j t obj key v =
     bindE (jt_obj_get j t obj key) (\<lambda>f. Inr (f \<ge> 0 \<and> jt_literal j (t ! nat f) v))"

text \<open>U+2581, the mark that stands for a space.\<close>

definition dgt_space_mark :: bytes where
  "dgt_space_mark = [0xE2, 0x96, 0x81]"

definition dgt_validate_configuration :: "bytes \<Rightarrow> JTok list \<Rightarrow> unit result" where
  "dgt_validate_configuration j t =
     bindE (jt_obj_get j t 0 (str ''model'')) (\<lambda>model.
     bindE (jt_obj_get j t 0 (str ''normalizer'')) (\<lambda>normalizer.
     bindE (jt_obj_get j t normalizer (str ''pattern'')) (\<lambda>normalizer_pattern.
     bindE (jt_obj_get j t 0 (str ''pre_tokenizer'')) (\<lambda>pretokenizer.
     bindE (jt_obj_get j t pretokenizer (str ''pattern'')) (\<lambda>pretokenizer_pattern.
     bindE (every
       [Inr (\<not> model < 0),
        dgt_string_field j t 0 (str ''version'') (str ''1.0''),
        Inr (\<not> normalizer < 0),
        Inr (\<not> normalizer_pattern < 0),
        dgt_string_field j t normalizer (str ''type'') (str ''Replace''),
        dgt_string_field j t normalizer_pattern (str ''String'') (str '' ''),
        dgt_string_field j t normalizer (str ''content'') dgt_space_mark,
        Inr (\<not> pretokenizer < 0),
        Inr (\<not> pretokenizer_pattern < 0),
        dgt_string_field j t pretokenizer (str ''type'') (str ''Split''),
        dgt_string_field j t pretokenizer_pattern (str ''String'') (str '' ''),
        dgt_string_field j t pretokenizer (str ''behavior'') (str ''MergedWithPrevious''),
        dgt_literal_field j t pretokenizer (str ''invert'') (str ''false''),
        dgt_string_field j t model (str ''type'') (str ''BPE''),
        dgt_literal_field j t model (str ''dropout'') (str ''null''),
        dgt_string_field j t model (str ''unk_token'') (str ''<unk>''),
        dgt_literal_field j t model (str ''continuing_subword_prefix'') (str ''null''),
        dgt_literal_field j t model (str ''end_of_word_suffix'') (str ''null''),
        dgt_literal_field j t model (str ''fuse_unk'') (str ''true''),
        dgt_literal_field j t model (str ''byte_fallback'') (str ''true''),
        dgt_literal_field j t model (str ''ignore_merges'') (str ''false'')]) (\<lambda>supported.
       if supported then Inr ()
       else die ''unsupported DiffusionGemma tokenizer configuration''))))))"

section \<open>Building the tables\<close>

text \<open>The sum that sizes the vocabulary's text, then the entries in the order of the file.\<close>

function dgt_vocab_bytes :: "JTok list \<Rightarrow> nat \<Rightarrow> nat \<Rightarrow> nat \<Rightarrow> nat result" where
  "dgt_vocab_bytes t vocab i n =
     (if Suc i < length t then
        if jt_parent (t ! i) < int vocab then Inr n
        else if jt_parent (t ! i) = int vocab then
          bindE (jb_size_add (nat (jt_end (t ! i) - int (jt_start (t ! i))) * 3) 1) (\<lambda>m.
          bindE (jb_size_add n m) (\<lambda>n. dgt_vocab_bytes t vocab (Suc (Suc i)) n))
        else dgt_vocab_bytes t vocab (Suc i) n
      else Inr n)"
  by pat_completeness auto
termination
  by (relation "measure (\<lambda>(t, vocab, i, n). length t - i)") auto

declare dgt_vocab_bytes.simps [simp del]

function dgt_vocab_entries ::
  "bytes \<Rightarrow> JTok list \<Rightarrow> nat \<Rightarrow> nat \<Rightarrow> nat \<Rightarrow> Vocab list \<Rightarrow> nat \<Rightarrow> (Vocab list \<times> nat) result" where
  "dgt_vocab_entries j t vocab nv i vs maxlen =
     (if Suc i < length t then
        if jt_parent (t ! i) < int vocab then Inr (vs, maxlen)
        else if jt_parent (t ! i) \<noteq> int vocab then dgt_vocab_entries j t vocab nv (Suc i) vs maxlen
        else if length vs = nv then die ''too many DiffusionGemma vocabulary entries''
        else
          bindE (jt_string_copy j (t ! i)) (\<lambda>s.
            if length s > UINT32_MAX then die ''DiffusionGemma vocabulary token is too large''
            else
              bindE (jt_nonnegative_int j (t ! Suc i) (str ''vocabulary id'')) (\<lambda>k.
                dgt_vocab_entries j t vocab nv (Suc (Suc i)) (vs @ [\<lparr>vo_id = int k, vo_s = s\<rparr>])
                  (if length s > maxlen then length s else maxlen)))
      else Inr (vs, maxlen))"
  by pat_completeness auto
termination
  by (relation "measure (\<lambda>(j, t, vocab, nv, i, vs, maxlen). length t - i)") auto

declare dgt_vocab_entries.simps [simp del]

text \<open>\<open>by_id\<close>: every id in range, and none twice.\<close>

fun dgt_index :: "nat \<Rightarrow> Vocab list \<Rightarrow> Vocab option list \<Rightarrow> Vocab option list result" where
  "dgt_index nv [] by_id = Inr by_id"
| "dgt_index nv (v # vs) by_id =
     (if vo_id v < 0 \<or> vo_id v \<ge> int nv \<or> by_id ! nat (vo_id v) \<noteq> None
      then die ''invalid DiffusionGemma vocabulary id''
      else dgt_index nv vs (by_id[nat (vo_id v) := Some v]))"

text \<open>The two members of the merge at token \<open>i\<close>.\<close>

function dgt_merge_parts ::
  "JTok list \<Rightarrow> nat \<Rightarrow> nat \<Rightarrow> nat option \<Rightarrow> nat option \<Rightarrow> (nat option \<times> nat option) result" where
  "dgt_merge_parts t i k a b =
     (if k < length t \<and> jt_parent (t ! k) \<ge> int i then
        if jt_parent (t ! k) = int i then
          if a = None then dgt_merge_parts t i (Suc k) (Some k) b
          else if b = None then dgt_merge_parts t i (Suc k) a (Some k)
          else die ''bad tokenizer merge''
        else dgt_merge_parts t i (Suc k) a b
      else Inr (a, b))"
  by pat_completeness auto
termination
  by (relation "measure (\<lambda>(t, i, k, a, b). length t - k)") auto

declare dgt_merge_parts.simps [simp del]

definition dgt_merge_at :: "DGTokenizer \<Rightarrow> bytes \<Rightarrow> JTok list \<Rightarrow> nat \<Rightarrow> nat \<Rightarrow> Merge list \<Rightarrow> Merge list result" where
  "dgt_merge_at d j t i nm ms =
     bindE (dgt_merge_parts t i (Suc i) None None) (\<lambda>(a, b).
       case (a, b) of
         (Some a, Some b) \<Rightarrow>
           if jt_type (t ! i) \<noteq> JT_ARRAY then die ''bad tokenizer merge''
           else
             bindE (jb_size_add (nat (jt_end (t ! a) - int (jt_start (t ! a))) * 3) 1) (\<lambda>a_capacity.
             bindE (jb_size_add (nat (jt_end (t ! b) - int (jt_start (t ! b))) * 3) 1) (\<lambda>b_capacity.
             bindE (jb_size_add a_capacity b_capacity) (\<lambda>_.
             bindE (jt_string_copy j (t ! a)) (\<lambda>sa.
             bindE (jt_string_copy j (t ! b)) (\<lambda>sb.
               case (dgt_vfind d sa, dgt_vfind d sb) of
                 (Some va, Some vb) \<Rightarrow>
                   if length ms = nm then die ''tokenizer merge references absent token''
                   else Inr (ms @ [\<lparr>mg_a = vo_u32 va, mg_b = vo_u32 vb,
                                    mg_rank = length ms\<rparr>])
               | _ \<Rightarrow> die ''tokenizer merge references absent token'')))))
       | _ \<Rightarrow> die ''bad tokenizer merge'')"

function dgt_merges ::
  "DGTokenizer \<Rightarrow> bytes \<Rightarrow> JTok list \<Rightarrow> nat \<Rightarrow> nat \<Rightarrow> nat \<Rightarrow> Merge list \<Rightarrow> Merge list result" where
  "dgt_merges d j t merges nm i ms =
     (if i < length t then
        if jt_parent (t ! i) < int merges then Inr ms
        else if jt_parent (t ! i) \<noteq> int merges then dgt_merges d j t merges nm (Suc i) ms
        else bindE (dgt_merge_at d j t i nm ms) (\<lambda>ms. dgt_merges d j t merges nm (Suc i) ms)
      else Inr ms)"
  by pat_completeness auto
termination
  by (relation "measure (\<lambda>(d, j, t, merges, nm, i, ms). length t - i)") auto

declare dgt_merges.simps [simp del]

text \<open>One added token: it must be special, exact and in the vocabulary under its id.\<close>

definition dgt_special_at :: "DGTokenizer \<Rightarrow> bytes \<Rightarrow> JTok list \<Rightarrow> nat \<Rightarrow> DGTokenizer result" where
  "dgt_special_at d j t i =
     bindE (jt_obj_get j t (int i) (str ''content'')) (\<lambda>content.
     bindE (jt_obj_get j t (int i) (str ''id'')) (\<lambda>id.
     bindE (jt_obj_get j t (int i) (str ''special'')) (\<lambda>special.
     bindE (every
       [Inr (\<not> content < 0), Inr (jt_type (t ! nat content) = JT_STRING), Inr (\<not> id < 0),
        Inr (\<not> special < 0), Inr (jt_literal j (t ! nat special) (str ''true'')),
        dgt_literal_field j t (int i) (str ''single_word'') (str ''false''),
        dgt_literal_field j t (int i) (str ''lstrip'') (str ''false''),
        dgt_literal_field j t (int i) (str ''rstrip'') (str ''false''),
        dgt_literal_field j t (int i) (str ''normalized'') (str ''false'')]) (\<lambda>ok.
       if \<not> ok then die ''unsupported added token''
       else
         bindE (jb_size_add (nat (jt_end (t ! nat content) - int (jt_start (t ! nat content))) * 3) 1) (\<lambda>_.
         bindE (jt_string_copy j (t ! nat content)) (\<lambda>s.
           case dgt_vfind d s of
             None \<Rightarrow> die ''added token absent from vocabulary''
           | Some v \<Rightarrow>
               bindE (jt_nonnegative_int j (t ! nat id) (str ''added token id'')) (\<lambda>k.
                 if int k \<noteq> vo_id v then die ''added token id does not match vocabulary''
                 else if length (vo_s v) = 0 then die ''empty added token''
                 else Inr (d\<lparr>dt_special_first := (dt_special_first d)[unat (hd (vo_s v)) := True],
                             dt_special := dt_special d @ [v]\<rparr>))))))))"

function dgt_specials :: "DGTokenizer \<Rightarrow> bytes \<Rightarrow> JTok list \<Rightarrow> nat \<Rightarrow> nat \<Rightarrow> DGTokenizer result" where
  "dgt_specials d j t added i =
     (if i < length t then
        if jt_parent (t ! i) < int added then Inr d
        else if jt_parent (t ! i) \<noteq> int added then dgt_specials d j t added (Suc i)
        else bindE (dgt_special_at d j t i) (\<lambda>d. dgt_specials d j t added (Suc i))
      else Inr d)"
  by pat_completeness auto
termination
  by (relation "measure (\<lambda>(d, j, t, added, i). length t - i)") auto

declare dgt_specials.simps [simp del]

text \<open>
  \<open>dgt_load\<close> of the text of \<open>tokenizer.json\<close>. The expected number of entries is a parameter,
  which the program fixes at 262144.
\<close>

definition dgt_load_sized :: "nat \<Rightarrow> bytes \<Rightarrow> DGTokenizer result" where
  "dgt_load_sized expected j =
     bindE (json_tokens j (length j)) (\<lambda>t.
     bindE (jt_obj_get j t 0 (str ''model'')) (\<lambda>model.
     bindE (jt_obj_get j t model (str ''vocab'')) (\<lambda>vocab.
     bindE (jt_obj_get j t model (str ''merges'')) (\<lambda>merges.
     bindE (jt_obj_get j t 0 (str ''added_tokens'')) (\<lambda>added.
       if model < 0 \<or> vocab < 0 \<or> merges < 0 \<or> added < 0 \<or> jt_type (t ! nat vocab) \<noteq> JT_OBJECT \<or>
          jt_type (t ! nat merges) \<noteq> JT_ARRAY \<or> jt_type (t ! nat added) \<noteq> JT_ARRAY
       then die ''unsupported DiffusionGemma tokenizer JSON''
       else
         bindE (dgt_validate_configuration j t) (\<lambda>_.
         let nv = jt_size (t ! nat vocab) div 2 in
         if nv \<noteq> expected then die ''unexpected DiffusionGemma vocabulary size''
         else
           bindE (dgt_vocab_bytes t (nat vocab) (Suc (nat vocab)) 0) (\<lambda>_.
           bindE (dgt_vocab_entries j t (nat vocab) nv (Suc (nat vocab)) [] 0) (\<lambda>(vs, maxlen).
             if length vs \<noteq> nv then die ''incomplete DiffusionGemma vocabulary''
             else
               let vs = qsort cmp_vocab vs in
               bindE (dgt_index nv vs (replicate nv None)) (\<lambda>by_id.
               let d = dgt_empty\<lparr>dt_vocab := vs, dt_maxlen := maxlen, dt_by_id := by_id\<rparr>;
                   nm = jt_size (t ! nat merges) in
               bindE (dgt_merges d j t (nat merges) nm (Suc (nat merges)) []) (\<lambda>ms.
                 if length ms \<noteq> nm then die ''incomplete tokenizer merges''
                 else dgt_specials (d\<lparr>dt_merge := qsort cmp_merge ms\<rparr>) j t (nat added)
                        (Suc (nat added))))))))))))"

definition dgt_load :: "bytes \<Rightarrow> DGTokenizer result" where
  "dgt_load = dgt_load_sized 262144"

section \<open>Tables that are in order\<close>

text \<open>What \<open>dgt_load\<close> establishes and encoding relies on.\<close>

definition dgt_ok :: "DGTokenizer \<Rightarrow> bool" where
  "dgt_ok d \<longleftrightarrow>
     length (dt_vocab d) < UINT32_MAX \<and> dt_maxlen d \<le> 2 * JB_MAX_JSON \<and>
     sorted_wrt (\<lambda>x y. cmp_vocab x y \<le> 0) (dt_vocab d) \<and>
     sorted_wrt (\<lambda>x y. cmp_merge x y \<le> 0) (dt_merge d) \<and>
     length (dt_by_id d) = length (dt_vocab d) \<and> set (dt_by_id d) \<subseteq> Some ` set (dt_vocab d) \<and>
     list_all (\<lambda>v. 0 \<le> vo_id v \<and> vo_id v < int (length (dt_vocab d)) \<and> length (vo_s v) \<le> dt_maxlen d \<and>
       dt_by_id d ! nat (vo_id v) = Some v) (dt_vocab d) \<and>
     list_all (\<lambda>m. mg_a m < length (dt_vocab d) \<and> mg_b m < length (dt_vocab d)) (dt_merge d) \<and>
     length (dt_special_first d) = 256 \<and>
     list_all (\<lambda>v. v \<in> set (dt_vocab d) \<and> vo_s v \<noteq> [] \<and> dt_special_first d ! unat (hd (vo_s v))) (dt_special d)"

lemma cmp_vocab_strcmp: "cmp_vocab x y = strcmp (vo_s x) (vo_s y)"
  using memcmp_length_strcmp [of "vo_s x" "vo_s y"] memcmp_take [of "vo_s x" "vo_s y"]
  by (simp add: cmp_vocab_def Let_def min_def not_le split: if_splits)

lemma cmp_vocab_key_strcmp: "cmp_vocab_key k y = strcmp k (vo_s y)"
  using memcmp_length_strcmp [of k "vo_s y"] memcmp_take [of k "vo_s y"]
  by (simp add: cmp_vocab_key_def Let_def min_def not_le split: if_splits)

text \<open>The vocabulary and the merges under the searches' comparisons.\<close>

interpretation vocab_order: key_cmp cmp_vocab cmp_vocab_key
proof
  fix x y z k
  show "cmp_vocab x y < 0 \<longleftrightarrow> cmp_vocab y x > 0"
    by (simp add: cmp_vocab_strcmp strcmp.cmp_flip)
  show "cmp_vocab x y \<le> 0 \<Longrightarrow> cmp_vocab y z \<le> 0 \<Longrightarrow> cmp_vocab x z \<le> 0"
    unfolding cmp_vocab_strcmp by (rule strcmp.cmp_trans)
  show "cmp_vocab_key k x < 0 \<Longrightarrow> cmp_vocab x y \<le> 0 \<Longrightarrow> cmp_vocab_key k y < 0"
    unfolding cmp_vocab_strcmp cmp_vocab_key_strcmp by (rule strcmp.kcmp_up)
  show "cmp_vocab_key k y > 0 \<Longrightarrow> cmp_vocab x y \<le> 0 \<Longrightarrow> cmp_vocab_key k x > 0"
    unfolding cmp_vocab_strcmp cmp_vocab_key_strcmp by (rule strcmp.kcmp_down)
qed

interpretation merge_order: key_cmp cmp_merge cmp_merge
  by unfold_locales (auto simp: cmp_merge_def split: if_splits)

lemma dgt_vfind_Some: "dgt_vfind d s = Some v \<Longrightarrow> length s \<le> UINT32_MAX \<Longrightarrow> v \<in> set (dt_vocab d) \<and> vo_s v = s"
  using vocab_order.bsearch_Some [of s "dt_vocab d"]
  by (auto simp: dgt_vfind_def cmp_vocab_key_strcmp split: if_splits)

lemma dgt_vfind_in: "dgt_vfind d s = Some v \<Longrightarrow> v \<in> set (dt_vocab d)"
  using vocab_order.bsearch_Some [of _ "dt_vocab d"]
  by (fastforce simp: dgt_vfind_def split: if_splits)

lemma dgt_mfind_Some: "dgt_mfind d a b = Some m \<Longrightarrow> m \<in> set (dt_merge d) \<and> mg_a m = a \<and> mg_b m = b"
  using merge_order.bsearch_Some [of "\<lparr>mg_a = a, mg_b = b, mg_rank = 0\<rparr>" "dt_merge d"]
  by (auto simp: dgt_mfind_def cmp_merge_def split: if_splits)

lemma dgt_ok_by_id: "dgt_ok d \<Longrightarrow> i < length (dt_vocab d) \<Longrightarrow> \<exists>v \<in> set (dt_vocab d). dt_by_id d ! i = Some v"
  unfolding dgt_ok_def by (metis (no_types, lifting) imageE nth_mem subsetD)

lemma dgt_ok_vocab:
  assumes "dgt_ok d" "v \<in> set (dt_vocab d)"
  shows "vo_u32 v < length (dt_vocab d)" "vo_u32 v < UINT32_MAX" "int (vo_u32 v) = vo_id v"
    "dt_by_id d ! vo_u32 v = Some v" "length (vo_s v) \<le> dt_maxlen d" "vo_u32 v < length (dt_by_id d)"
proof -
  have v: "0 \<le> vo_id v" "vo_id v < int (length (dt_vocab d))" "length (vo_s v) \<le> dt_maxlen d"
    "dt_by_id d ! nat (vo_id v) = Some v" "length (dt_vocab d) < UINT32_MAX"
    "length (dt_by_id d) = length (dt_vocab d)"
    using assms by (auto simp: dgt_ok_def list_all_iff)
  then have "vo_u32 v = nat (vo_id v)" by (simp add: vo_u32_def)
  with v show "vo_u32 v < length (dt_vocab d)" "vo_u32 v < UINT32_MAX" "int (vo_u32 v) = vo_id v"
    "dt_by_id d ! vo_u32 v = Some v" "length (vo_s v) \<le> dt_maxlen d" "vo_u32 v < length (dt_by_id d)"
    by simp_all
qed

end
