(* ===== verification/BpeHeap.thy ===== *)
theory BpeHeap
  imports Vocab "HOL-Library.Product_Lexorder"
begin

text \<open>
  The queue of merge candidates in \<open>dgt_piece\<close> (\<open>src/model.inc\<close>): a binary heap in an array,
  least rank first and leftmost position among equals. \<open>min_queue\<close> is the interface that the
  merge loop relies on; the array implements it.
\<close>

section \<open>The code\<close>

record DGBpeCand =
  bc_rank :: nat
  bc_pos :: nat
  bc_a :: nat
  bc_b :: nat

definition dgt_bpe_less :: "DGBpeCand \<Rightarrow> DGBpeCand \<Rightarrow> bool" where
  "dgt_bpe_less x y \<longleftrightarrow>
     (if bc_rank x \<noteq> bc_rank y then bc_rank x < bc_rank y else bc_pos x < bc_pos y)"

definition swap :: "nat \<Rightarrow> nat \<Rightarrow> 'a list \<Rightarrow> 'a list" where
  "swap i k h = h[i := h ! k, k := h ! i]"

definition bpe_parent :: "nat \<Rightarrow> nat" where
  "bpe_parent i = (i - 1) div 2"

lemma bpe_parent_less [simp]: "0 < i \<Longrightarrow> bpe_parent i < i"
  by (simp add: bpe_parent_def)

text \<open>The loop of \<open>dgt_bpe_push\<close> that lifts the new last element.\<close>

function bpe_sift_up :: "DGBpeCand list \<Rightarrow> nat \<Rightarrow> DGBpeCand list" where
  "bpe_sift_up h at =
     (if at > 0 \<and> dgt_bpe_less (h ! at) (h ! (bpe_parent at))
      then bpe_sift_up (swap at (bpe_parent at) h) (bpe_parent at) else h)"
  by pat_completeness auto
termination
  by (relation "measure snd") auto

declare bpe_sift_up.simps [simp del]

text \<open>The loop of \<open>dgt_piece\<close> that sinks the element moved to the root.\<close>

definition bpe_child :: "DGBpeCand list \<Rightarrow> nat \<Rightarrow> nat" where
  "bpe_child h i =
     (let l = 2 * i + 1; r = l + 1; m = i;
          m = (if l < length h \<and> dgt_bpe_less (h ! l) (h ! m) then l else m)
      in if r < length h \<and> dgt_bpe_less (h ! r) (h ! m) then r else m)"

function bpe_sift_down :: "DGBpeCand list \<Rightarrow> nat \<Rightarrow> DGBpeCand list" where
  "bpe_sift_down h i =
     (let m = bpe_child h i in if m = i then h else bpe_sift_down (swap i m h) m)"
  by pat_completeness auto
termination
  by (relation "measure (\<lambda>(h, i). length h - i)")
    (auto simp: bpe_child_def swap_def Let_def split: if_splits)

declare bpe_sift_down.simps [simp del]

definition bpe_put :: "DGBpeCand \<Rightarrow> DGBpeCand list \<Rightarrow> DGBpeCand list" where
  "bpe_put c h = bpe_sift_up (h @ [c]) (length h)"

definition bpe_pop :: "DGBpeCand list \<Rightarrow> DGBpeCand \<times> DGBpeCand list" where
  "bpe_pop h = (h ! 0, bpe_sift_down (butlast (h[0 := last h])) 0)"

text \<open>The heap's array has room for \<open>cap\<close> candidates.\<close>

definition dgt_bpe_push ::
  "DGTokenizer \<Rightarrow> nat \<Rightarrow> DGBpeCand list \<Rightarrow> nat list \<Rightarrow> nat \<Rightarrow> nat \<Rightarrow> DGBpeCand list result" where
  "dgt_bpe_push d cap h ids i k =
     bindE (rd ids i) (\<lambda>a. bindE (rd ids k) (\<lambda>b.
       case dgt_mfind d a b of
         None \<Rightarrow> Inr h
       | Some m \<Rightarrow>
           if length h < cap
           then Inr (bpe_put \<lparr>bc_rank = mg_rank m, bc_pos = i, bc_a = a, bc_b = b\<rparr> h)
           else Inl Undefined))"

section \<open>The interface\<close>

text \<open>A queue of elements with a key, from which one of least key is taken first.\<close>

locale min_queue =
  fixes put :: "'a \<Rightarrow> 'q \<Rightarrow> 'q"
    and pop :: "'q \<Rightarrow> 'a \<times> 'q"
    and invar :: "'q \<Rightarrow> bool"
    and elems :: "'q \<Rightarrow> 'a multiset"
    and key :: "'a \<Rightarrow> 'k::linorder"
  assumes put_invar: "invar q \<Longrightarrow> invar (put x q)"
    and put_elems: "invar q \<Longrightarrow> elems (put x q) = add_mset x (elems q)"
    and pop_invar: "invar q \<Longrightarrow> elems q \<noteq> {#} \<Longrightarrow> invar (snd (pop q))"
    and pop_elems: "invar q \<Longrightarrow> elems q \<noteq> {#} \<Longrightarrow> elems q = add_mset (fst (pop q)) (elems (snd (pop q)))"
    and pop_key: "invar q \<Longrightarrow> x \<in># elems q \<Longrightarrow> key (fst (pop q)) \<le> key x"
begin

lemma pop_in: "invar q \<Longrightarrow> elems q \<noteq> {#} \<Longrightarrow> fst (pop q) \<in># elems q"
  using pop_elems [of q] by (metis union_single_eq_member add_mset_add_single union_commute)

lemma pop_keeps:
  "invar q \<Longrightarrow> elems q \<noteq> {#} \<Longrightarrow> x \<in># elems q \<Longrightarrow> x \<noteq> fst (pop q) \<Longrightarrow> x \<in># elems (snd (pop q))"
  using pop_elems [of q] insert_noteq_member [of x _ "fst (pop q)"] by fastforce

lemma pop_sub: "invar q \<Longrightarrow> elems q \<noteq> {#} \<Longrightarrow> x \<in># elems (snd (pop q)) \<Longrightarrow> x \<in># elems q"
  using pop_elems [of q] by (metis multi_member_this add_mset_add_single union_commute insert_noteq_member mset_add union_iff)

lemma pop_size: "invar q \<Longrightarrow> elems q \<noteq> {#} \<Longrightarrow> size (elems q) = Suc (size (elems (snd (pop q))))"
  using pop_elems [of q] by (metis size_add_mset)

text \<open>Taking \<open>n\<close> elements out one by one.\<close>

fun drain :: "nat \<Rightarrow> 'q \<Rightarrow> 'a list" where
  "drain 0 q = []"
| "drain (Suc n) q = fst (pop q) # drain n (snd (pop q))"

lemma drain_sorted:
  "invar q \<Longrightarrow> size (elems q) = n \<Longrightarrow> mset (drain n q) = elems q \<and> sorted (map key (drain n q))"
proof (induction n arbitrary: q)
  case (Suc n)
  then have e: "elems q \<noteq> {#}" by auto
  have IH: "mset (drain n (snd (pop q))) = elems (snd (pop q))"
    "sorted (map key (drain n (snd (pop q))))"
    using Suc.IH [OF pop_invar [OF Suc.prems(1) e]] pop_size [OF Suc.prems(1) e] Suc.prems(2) by simp_all
  have "key (fst (pop q)) \<le> key x" if "x \<in> set (drain n (snd (pop q)))" for x
  proof -
    have "x \<in># elems (snd (pop q))" using that IH(1) by (metis set_mset_mset)
    then show ?thesis using pop_key [OF Suc.prems(1) pop_sub [OF Suc.prems(1) e]] by simp
  qed
  with IH pop_elems [OF Suc.prems(1) e] show ?case by simp
qed simp

end

section \<open>The array is a heap\<close>

definition bc_key :: "DGBpeCand \<Rightarrow> nat \<times> nat" where
  "bc_key c = (bc_rank c, bc_pos c)"

lemma dgt_bpe_less_key: "dgt_bpe_less x y \<longleftrightarrow> bc_key x < bc_key y"
  by (auto simp: dgt_bpe_less_def bc_key_def)

text \<open>Every element but the one at \<open>u\<close> is at least its parent.\<close>

definition heap_but :: "DGBpeCand list \<Rightarrow> nat \<Rightarrow> bool" where
  "heap_but h u \<longleftrightarrow>
     (\<forall>i. 0 < i \<longrightarrow> i < length h \<longrightarrow> i \<noteq> u \<longrightarrow> bc_key (h ! (bpe_parent i)) \<le> bc_key (h ! i))"

text \<open>Every element whose parent is not \<open>u\<close> is at least its parent.\<close>

definition heap_over :: "DGBpeCand list \<Rightarrow> nat \<Rightarrow> bool" where
  "heap_over h u \<longleftrightarrow>
     (\<forall>i. 0 < i \<longrightarrow> i < length h \<longrightarrow> bpe_parent i \<noteq> u \<longrightarrow> bc_key (h ! (bpe_parent i)) \<le> bc_key (h ! i))"

text \<open>The children of \<open>u\<close> are at least the parent of \<open>u\<close>.\<close>

definition heap_skip :: "DGBpeCand list \<Rightarrow> nat \<Rightarrow> bool" where
  "heap_skip h u \<longleftrightarrow>
     (\<forall>i. 0 < u \<longrightarrow> 0 < i \<longrightarrow> i < length h \<longrightarrow> bpe_parent i = u \<longrightarrow> bc_key (h ! (bpe_parent u)) \<le> bc_key (h ! i))"

definition bpe_heap :: "DGBpeCand list \<Rightarrow> bool" where
  "bpe_heap h \<longleftrightarrow> heap_but h 0"

lemma length_swap [simp]: "length (swap i k h) = length h"
  by (simp add: swap_def)

lemma mset_swap: "i < length h \<Longrightarrow> k < length h \<Longrightarrow> mset (swap i k h) = mset h"
  by (simp add: swap_def mset_swap)

lemma nth_swap: "i < length h \<Longrightarrow> k < length h \<Longrightarrow> j < length h \<Longrightarrow>
    swap i k h ! j = (if j = k then h ! i else if j = i then h ! k else h ! j)"
  by (simp add: swap_def nth_list_update)

lemma sift_up_heap:
  "at < length h \<Longrightarrow> heap_but h at \<Longrightarrow> heap_skip h at \<Longrightarrow>
     bpe_heap (bpe_sift_up h at) \<and> mset (bpe_sift_up h at) = mset h"
proof (induction h at rule: bpe_sift_up.induct)
  case (1 h at)
  let ?p = "bpe_parent at"
  show ?case
  proof (cases "at > 0 \<and> dgt_bpe_less (h ! at) (h ! ?p)")
    case True
    then have p: "?p < at" and less: "bc_key (h ! at) < bc_key (h ! ?p)"
      by (auto simp: dgt_bpe_less_key)
    have but: "bc_key (h ! (bpe_parent i)) \<le> bc_key (h ! i)" if "0 < i" "i < length h" "i \<noteq> at" for i
      using "1.prems"(2) that by (simp add: heap_but_def)
    have skip: "bc_key (h ! ?p) \<le> bc_key (h ! i)" if "0 < i" "i < length h" "bpe_parent i = at" for i
      using "1.prems"(3) that True by (simp add: heap_skip_def)
    have "heap_but (swap at ?p h) ?p"
      unfolding heap_but_def length_swap
    proof (intro allI impI)
      fix i assume i: "0 < i" "i < length h" "i \<noteq> ?p"
      have q: "bpe_parent i < length h" using bpe_parent_less [OF i(1)] i(2) by linarith
      have pl: "?p < length h" using p "1.prems"(1) by linarith
      note swp = nth_swap [OF "1.prems"(1) pl]
      consider "i = at" | "i \<noteq> at" "bpe_parent i = at" | "i \<noteq> at" "bpe_parent i \<noteq> at" by blast
      then show "bc_key (swap at ?p h ! (bpe_parent i)) \<le> bc_key (swap at ?p h ! i)"
      proof cases
        case 1
        with i less pl show ?thesis by (simp add: swp)
      next
        case 2
        with i skip [OF i(1,2)] q p show ?thesis by (simp add: swp)
      next
        case 3
        with i but [OF i(1,2)] q p less show ?thesis
          by (cases "bpe_parent i = ?p") (auto simp: swp)
      qed
    qed
    moreover have "heap_skip (swap at ?p h) ?p"
      unfolding heap_skip_def length_swap
    proof (intro allI impI)
      fix i assume i: "0 < ?p" "0 < i" "i < length h" "bpe_parent i = ?p"
      let ?g = "bpe_parent ?p"
      have g: "?g < ?p" using i(1) by simp
      have "bc_key (h ! ?g) \<le> bc_key (h ! ?p)" using but [of ?p] i p "1.prems"(1) by simp
      moreover have "i \<noteq> ?p" using i(4) g by auto
      ultimately have le: "i \<noteq> at \<Longrightarrow> bc_key (h ! ?g) \<le> bc_key (h ! i)" "bc_key (h ! ?g) \<le> bc_key (h ! ?p)"
          "i \<noteq> ?p"
        using but [OF i(2,3)] i(4) by simp_all
      have ne: "?g \<noteq> ?p" "?g \<noteq> at" "?p \<noteq> at" using g p by linarith+
      have pl: "?p < length h" "?g < length h" using g p "1.prems"(1) by linarith+
      show "bc_key (swap at ?p h ! ?g) \<le> bc_key (swap at ?p h ! i)"
        using le ne i(3) pl by (cases "i = at") (simp_all add: nth_swap [OF "1.prems"(1) pl(1)])
    qed
    ultimately have "bpe_heap (bpe_sift_up (swap at ?p h) ?p) \<and> mset (bpe_sift_up (swap at ?p h) ?p) = mset h"
      using "1.IH" [OF True] p "1.prems"(1) by (simp add: mset_swap)
    then show ?thesis using True by (simp add: bpe_sift_up.simps [of h at])
  next
    case False
    have "heap_but h 0"
      unfolding heap_but_def
    proof (intro allI impI)
      fix i assume "0 < i" "i < length h"
      then show "bc_key (h ! (bpe_parent i)) \<le> bc_key (h ! i)"
        using "1.prems"(2) False by (cases "i = at") (auto simp: heap_but_def dgt_bpe_less_key not_less)
    qed
    moreover have "bpe_sift_up h at = h" using False by (subst bpe_sift_up.simps) (simp only: if_False)
    ultimately show ?thesis by (simp add: bpe_heap_def)
  qed
qed

lemma bpe_child_cases:
  assumes "i < length h"
  obtains (stay) "bpe_child h i = i"
      "\<And>j. j < length h \<Longrightarrow> 0 < j \<Longrightarrow> bpe_parent j = i \<Longrightarrow> bc_key (h ! i) \<le> bc_key (h ! j)"
    | (sink) m where "bpe_child h i = m" "m < length h" "0 < m" "bpe_parent m = i" "bc_key (h ! m) < bc_key (h ! i)"
      "\<And>j. j < length h \<Longrightarrow> 0 < j \<Longrightarrow> bpe_parent j = i \<Longrightarrow> bc_key (h ! m) \<le> bc_key (h ! j)"
proof -
  let ?l = "2 * i + 1" and ?m = "bpe_child h i"
  have kids: "j = ?l \<or> j = Suc ?l" if "0 < j" "bpe_parent j = i" for j
    using that unfolding bpe_parent_def by arith
  have par: "bpe_parent ?l = i" "bpe_parent (Suc ?l) = i" by (simp_all add: bpe_parent_def)
  have least: "bc_key (h ! ?m) \<le> bc_key (h ! i)"
    "?l < length h \<Longrightarrow> bc_key (h ! ?m) \<le> bc_key (h ! ?l)"
    "Suc ?l < length h \<Longrightarrow> bc_key (h ! ?m) \<le> bc_key (h ! Suc ?l)"
    by (auto simp: bpe_child_def dgt_bpe_less_key Let_def)
  have all: "bc_key (h ! ?m) \<le> bc_key (h ! j)" if "j < length h" "0 < j" "bpe_parent j = i" for j
    using kids [OF that(2,3)] least that(1) by auto
  have "?m = i \<or> (?m = ?l \<or> ?m = Suc ?l) \<and> ?m < length h \<and> bc_key (h ! ?m) < bc_key (h ! i)"
    by (auto simp: bpe_child_def dgt_bpe_less_key Let_def)
  then show thesis
  proof
    assume "?m = i"
    with all stay show thesis by simp
  next
    assume m: "(?m = ?l \<or> ?m = Suc ?l) \<and> ?m < length h \<and> bc_key (h ! ?m) < bc_key (h ! i)"
    then have "0 < ?m" "bpe_parent ?m = i" using par by auto
    with m all sink show thesis by blast
  qed
qed

lemma sift_down_heap:
  "i < length h \<Longrightarrow> heap_over h i \<Longrightarrow> heap_skip h i \<Longrightarrow>
     bpe_heap (bpe_sift_down h i) \<and> mset (bpe_sift_down h i) = mset h"
proof (induction h i rule: bpe_sift_down.induct)
  case (1 h i)
  have over: "bc_key (h ! bpe_parent j) \<le> bc_key (h ! j)" if "0 < j" "j < length h" "bpe_parent j \<noteq> i" for j
    using "1.prems"(2) that by (simp add: heap_over_def)
  have skip: "bc_key (h ! bpe_parent i) \<le> bc_key (h ! j)" if "0 < i" "0 < j" "j < length h" "bpe_parent j = i" for j
    using "1.prems"(3) that by (simp add: heap_skip_def)
  from "1.prems"(1) show ?case
  proof (cases rule: bpe_child_cases)
    case stay
    have "heap_but h 0" unfolding heap_but_def using over stay(2) by blast
    then show ?thesis using stay(1) by (simp add: bpe_sift_down.simps [of h i] bpe_heap_def)
  next
    case (sink m)
    have ne: "m \<noteq> i" using sink(3,4) bpe_parent_less [of m] by auto
    note swp = nth_swap [OF "1.prems"(1) sink(2)]
    have "heap_over (swap i m h) m"
      unfolding heap_over_def length_swap
    proof (intro allI impI)
      fix j assume j: "0 < j" "j < length h" "bpe_parent j \<noteq> m"
      have pj: "bpe_parent j < j" "bpe_parent j < length h" using bpe_parent_less [OF j(1)] j(2) by linarith+
      consider "j = m" | "j = i" | "j \<noteq> m" "j \<noteq> i" "bpe_parent j = i" | "j \<noteq> m" "j \<noteq> i" "bpe_parent j \<noteq> i" by blast
      then show "bc_key (swap i m h ! bpe_parent j) \<le> bc_key (swap i m h ! j)"
      proof cases
        case 1
        with sink j pj ne show ?thesis by (simp add: swp)
      next
        case 2
        with skip [of m] sink j pj ne show ?thesis by (simp add: swp)
      next
        case 3
        with sink(6) [of j] j pj ne show ?thesis by (simp add: swp)
      next
        case 4
        with over [of j] j pj ne show ?thesis by (simp add: swp)
      qed
    qed
    moreover have "heap_skip (swap i m h) m"
      unfolding heap_skip_def length_swap
    proof (intro allI impI)
      fix j assume j: "0 < m" "0 < j" "j < length h" "bpe_parent j = m"
      have "j \<noteq> m" "j \<noteq> i" using j bpe_parent_less [of j] bpe_parent_less [of m] sink(4) by auto
      with over [of j] j sink ne "1.prems"(1) show "bc_key (swap i m h ! bpe_parent m) \<le> bc_key (swap i m h ! j)"
        by (simp add: swp)
    qed
    ultimately have "bpe_heap (bpe_sift_down (swap i m h) m) \<and> mset (bpe_sift_down (swap i m h) m) = mset h"
      using "1.IH" [of m] sink ne "1.prems"(1) by (simp add: mset_swap)
    then show ?thesis using sink(1) ne by (simp add: bpe_sift_down.simps [of h i])
  qed
qed

lemma bpe_heap_root: "bpe_heap h \<Longrightarrow> i < length h \<Longrightarrow> bc_key (h ! 0) \<le> bc_key (h ! i)"
proof (induction i rule: less_induct)
  case (less i)
  show ?case
  proof (cases "i = 0")
    case False
    then have "bpe_parent i < i" by simp
    with less have "bc_key (h ! 0) \<le> bc_key (h ! bpe_parent i)" by simp
    also have "\<dots> \<le> bc_key (h ! i)" using less.prems False by (simp add: bpe_heap_def heap_but_def)
    finally show ?thesis .
  qed simp
qed

lemma bpe_put_heap: "bpe_heap h \<Longrightarrow> bpe_heap (bpe_put c h) \<and> mset (bpe_put c h) = add_mset c (mset h)"
proof -
  assume h: "bpe_heap h"
  have par: "bpe_parent i < length h" if "0 < i" "i < Suc (length h)" for i
    using bpe_parent_less [OF that(1)] that(2) by linarith
  have "heap_but (h @ [c]) (length h)"
    using h par by (auto simp: heap_but_def bpe_heap_def nth_append)
  moreover have "heap_skip (h @ [c]) (length h)"
    unfolding heap_skip_def
  proof (intro allI impI)
    fix i assume "0 < i" "i < length (h @ [c])" "bpe_parent i = length h"
    then show "bc_key ((h @ [c]) ! bpe_parent (length h)) \<le> bc_key ((h @ [c]) ! i)"
      using bpe_parent_less [of i] by simp
  qed
  ultimately show ?thesis using sift_up_heap [of "length h" "h @ [c]"] by (simp add: bpe_put_def)
qed

lemma bpe_pop_heap:
  assumes "bpe_heap h" "h \<noteq> []"
  shows "bpe_heap (snd (bpe_pop h))" "mset h = add_mset (fst (bpe_pop h)) (mset (snd (bpe_pop h)))"
proof -
  let ?g = "butlast (h[0 := last h])"
  have m: "mset h = add_mset (h ! 0) (mset ?g)"
  proof (cases h rule: rev_cases)
    case (snoc ys y)
    then show ?thesis by (cases ys) auto
  qed (use assms in simp)
  have nth: "?g ! i = h ! i" if "0 < i" "i < length ?g" for i
    using that by (simp add: nth_butlast)
  have "bpe_heap (bpe_sift_down ?g 0) \<and> mset (bpe_sift_down ?g 0) = mset ?g"
  proof (cases "?g = []")
    case True
    then show ?thesis by (simp add: bpe_sift_down.simps bpe_child_def bpe_heap_def heap_but_def)
  next
    case False
    have "heap_over ?g 0"
      unfolding heap_over_def
    proof (intro allI impI)
      fix i assume i: "0 < i" "i < length ?g" "bpe_parent i \<noteq> 0"
      have "bpe_parent i < length ?g" using bpe_parent_less [OF i(1)] i(2) by linarith
      then show "bc_key (?g ! bpe_parent i) \<le> bc_key (?g ! i)"
        using i assms(1) nth by (simp add: bpe_heap_def heap_but_def)
    qed
    moreover have "heap_skip ?g 0" by (simp add: heap_skip_def)
    moreover have "0 < length ?g" using False by blast
    ultimately show ?thesis using sift_down_heap [of 0 ?g] by blast
  qed
  with m show "bpe_heap (snd (bpe_pop h))" "mset h = add_mset (fst (bpe_pop h)) (mset (snd (bpe_pop h)))"
    by (simp_all add: bpe_pop_def)
qed

interpretation bpe_queue: min_queue bpe_put bpe_pop bpe_heap mset bc_key
proof
  fix q c
  assume q: "bpe_heap q"
  show "bpe_heap (bpe_put c q)" "mset (bpe_put c q) = add_mset c (mset q)"
    using bpe_put_heap [OF q] by simp_all
  show "mset q \<noteq> {#} \<Longrightarrow> bpe_heap (snd (bpe_pop q))"
    "mset q \<noteq> {#} \<Longrightarrow> mset q = add_mset (fst (bpe_pop q)) (mset (snd (bpe_pop q)))"
    using bpe_pop_heap [OF q] by simp_all
  show "c \<in># mset q \<Longrightarrow> bc_key (fst (bpe_pop q)) \<le> bc_key c"
    using bpe_heap_root [OF q] by (auto simp: bpe_pop_def in_set_conv_nth)
qed

section \<open>Properties\<close>

text \<open>
  C18. Filling the candidate heap of the byte-pair merge with any candidates and taking them out
  again yields all of them, ordered by rank and, among equal ranks, by position: the array with
  its two sift loops is a priority queue.
\<close>

theorem bpe_heap_sorts:
  "let h = foldr bpe_put cs [] in
     mset (bpe_queue.drain (length cs) h) = mset cs \<and>
     sorted (map (\<lambda>c. (bc_rank c, bc_pos c)) (bpe_queue.drain (length cs) h))"
proof -
  have "bpe_heap (foldr bpe_put cs []) \<and> mset (foldr bpe_put cs []) = mset cs"
    by (induction cs) (simp_all add: bpe_put_heap, simp add: bpe_heap_def heap_but_def)
  then show ?thesis
    using bpe_queue.drain_sorted [of "foldr bpe_put cs []" "length cs"]
    by (simp add: Let_def bc_key_def [abs_def])
qed

end
