(* ===== verification/Bpe.thy ===== *)
theory Bpe
  imports BpeHeap
begin

text \<open>
  Byte-pair encoding (\<open>dgt_piece\<close> and \<open>dgt_tokenize\<close> of \<open>src/model.inc\<close>): the code points of a
  piece become vocabulary ids, with byte tokens for what the vocabulary lacks, and adjacent ids
  are merged through a linked list over the array and the candidate heap. Arrays are lists that
  grow to the \<open>slots\<close> their allocation has, every access is guarded, and \<open>k\<close> is the length
  of \<open>ids\<close>; it is a \<open>uint32_t\<close>, so the lemmas assume pieces of at most \<open>UINT32_MAX\<close> bytes.
  \<open>bpe_merge_all\<close> is the reference: rescan for the least rank, leftmost first.
\<close>

section \<open>The code\<close>

record Tokens =
  tk_v :: "int list"
  tk_cap :: nat

definition tokens_zero :: Tokens where
  "tokens_zero = \<lparr>tk_v = [], tk_cap = 0\<rparr>"

definition push :: "Tokens \<Rightarrow> int \<Rightarrow> Tokens result" where
  "push t x =
     (if length (tk_v t) = tk_cap t then
        if tk_cap t > UINT32_MAX div 2 then die ''token array size overflow''
        else Inr \<lparr>tk_v = tk_v t @ [x], tk_cap = (if tk_cap t \<noteq> 0 then tk_cap t * 2 else 64)\<rparr>
      else Inr (t\<lparr>tk_v := tk_v t @ [x]\<rparr>))"

text \<open>\<open>snprintf\<close> of \<open><0x%02X>\<close>.\<close>

definition hex_upper :: "nat \<Rightarrow> byte" where
  "hex_upper n = of_nat (if n < 10 then 48 + n else 55 + n)"

definition dgt_byte_token :: "byte \<Rightarrow> bytes" where
  "dgt_byte_token c = str ''<0x'' @ [hex_upper (unat c div 16), hex_upper (unat c mod 16)] @ str ''>''"

fun dgt_fallback :: "DGTokenizer \<Rightarrow> nat \<Rightarrow> bytes \<Rightarrow> nat list \<Rightarrow> nat list result" where
  "dgt_fallback d slots [] ids = Inr ids"
| "dgt_fallback d slots (c # cs) ids =
     (case dgt_vfind d (dgt_byte_token c) of
        None \<Rightarrow> die ''DiffusionGemma byte fallback token absent''
      | Some v \<Rightarrow>
          if length ids < slots then dgt_fallback d slots cs (ids @ [vo_u32 v]) else Inl Undefined)"

function dgt_initial :: "DGTokenizer \<Rightarrow> nat \<Rightarrow> bytes \<Rightarrow> nat \<Rightarrow> nat list \<Rightarrow> nat list result" where
  "dgt_initial d slots s p ids =
     (if p < length s then
        bindE (next_cp s (length s) p) (\<lambda>(_, q).
          case dgt_vfind d (span_of s p q) of
            Some v \<Rightarrow>
              if length ids < slots then dgt_initial d slots s q (ids @ [vo_u32 v]) else Inl Undefined
          | None \<Rightarrow>
              bindE (dgt_fallback d slots (span_of s p q) ids) (\<lambda>ids. dgt_initial d slots s q ids))
      else Inr ids)"
  by pat_completeness auto
termination
proof (relation "measure (\<lambda>(d, slots, s, p, ids). length s - p)")
  fix d and slots p :: nat and s ids v cp q k ids'
  assume "p < length s" "next_cp s (length s) p = Inr v" "(cp, q) = v"
  then show "((d, slots, s, q, ids'), d, slots, s, p, ids) \<in> measure (\<lambda>(d, slots, s, p, ids). length s - p)"
    using next_cp_sound(6) [of s "length s" p cp q] by auto
qed (use next_cp_sound(6) in fastforce)+

declare dgt_initial.simps [simp del]

record DGBpe =
  bp_ids :: "nat list"
  bp_next :: "nat list"
  bp_prev :: "nat list"
  bp_heap :: "DGBpeCand list"

definition bpe_links :: "nat list \<Rightarrow> DGBpe" where
  "bpe_links ids =
     \<lparr>bp_ids = ids,
      bp_next = map (\<lambda>i. if i + 1 < length ids then i + 1 else UINT32_MAX) [0..<length ids],
      bp_prev = map (\<lambda>i. if i \<noteq> 0 then i - 1 else UINT32_MAX) [0..<length ids],
      bp_heap = []\<rparr>"

definition bpe_push :: "DGTokenizer \<Rightarrow> nat \<Rightarrow> nat \<Rightarrow> nat \<Rightarrow> DGBpe \<Rightarrow> DGBpe result" where
  "bpe_push d cap i k st =
     bindE (dgt_bpe_push d cap (bp_heap st) (bp_ids st) i k) (\<lambda>h. Inr (st\<lparr>bp_heap := h\<rparr>))"

fun bpe_push_all :: "DGTokenizer \<Rightarrow> nat \<Rightarrow> nat \<Rightarrow> nat list \<Rightarrow> DGBpe \<Rightarrow> DGBpe result" where
  "bpe_push_all d cap k [] st = Inr st"
| "bpe_push_all d cap k (i # is) st =
     bindE (if i + 1 < k then bpe_push d cap i (i + 1) st else Inr st) (bpe_push_all d cap k is)"

text \<open>The token that two tokens merge into.\<close>

definition bpe_join :: "DGTokenizer \<Rightarrow> nat \<Rightarrow> nat \<Rightarrow> nat result" where
  "bpe_join d a b =
     bindE (rd (dt_by_id d) a) (\<lambda>pa. bindE (rd (dt_by_id d) b) (\<lambda>pb.
       case (pa, pb) of
         (Some va, Some vb) \<Rightarrow>
           bindE (jb_size_add (length (vo_s va)) (length (vo_s vb))) (\<lambda>joined_n.
             if joined_n > dt_maxlen d * 2
             then die ''DiffusionGemma BPE merge exceeds tokenizer scratch''
             else case dgt_vfind d (vo_s va @ vo_s vb) of
               None \<Rightarrow> die ''DiffusionGemma merged token absent''
             | Some v \<Rightarrow> Inr (vo_u32 v))
       | _ \<Rightarrow> Inl Undefined))"

text \<open>One candidate taken from the heap: stale ones are skipped.\<close>

definition bpe_candidate :: "DGTokenizer \<Rightarrow> nat \<Rightarrow> DGBpeCand \<Rightarrow> DGBpe \<Rightarrow> DGBpe result" where
  "bpe_candidate d cap c st =
     (let at = bc_pos c in
      bindE (rd (bp_next st) at) (\<lambda>bt.
      bindE (rd (bp_ids st) at) (\<lambda>ida.
        if ida \<noteq> bc_a c \<or> bt = UINT32_MAX then Inr st
        else bindE (rd (bp_ids st) bt) (\<lambda>idb.
          if idb \<noteq> bc_b c then Inr st
          else
            bindE (bpe_join d (bc_a c) (bc_b c)) (\<lambda>v.
            bindE (wr (bp_ids st) at v) (\<lambda>ids.
            bindE (wr ids bt UINT32_MAX) (\<lambda>ids.
            bindE (rd (bp_next st) bt) (\<lambda>nx.
            bindE (wr (bp_next st) at nx) (\<lambda>nexts.
            bindE (if nx \<noteq> UINT32_MAX then wr (bp_prev st) nx at else Inr (bp_prev st)) (\<lambda>prevs.
            bindE (rd prevs at) (\<lambda>pv.
            let st = \<lparr>bp_ids = ids, bp_next = nexts, bp_prev = prevs, bp_heap = bp_heap st\<rparr> in
            bindE (if pv \<noteq> UINT32_MAX then bpe_push d cap pv at st else Inr st) (\<lambda>st.
              if nx \<noteq> UINT32_MAX then bpe_push d cap at nx st else Inr st))))))))))))"

fun bpe_loop :: "nat \<Rightarrow> DGTokenizer \<Rightarrow> nat \<Rightarrow> DGBpe \<Rightarrow> DGBpe result" where
  "bpe_loop fuel d cap st =
     (if bp_heap st = [] then Inr st
      else case fuel of
        0 \<Rightarrow> Inl OutOfFuel
      | Suc fuel \<Rightarrow>
          (let (c, h) = bpe_pop (bp_heap st)
           in bindE (bpe_candidate d cap c (st\<lparr>bp_heap := h\<rparr>)) (bpe_loop fuel d cap)))"

declare bpe_loop.simps [simp del]

fun bpe_emit :: "nat \<Rightarrow> nat \<Rightarrow> DGBpe \<Rightarrow> nat \<Rightarrow> Tokens \<Rightarrow> Tokens result" where
  "bpe_emit fuel k st i out =
     (if i < k then
        case fuel of
          0 \<Rightarrow> Inl OutOfFuel
        | Suc fuel \<Rightarrow>
            bindE (rd (bp_ids st) i) (\<lambda>t.
            bindE (push out (int t)) (\<lambda>out.
            bindE (rd (bp_next st) i) (\<lambda>i. bpe_emit fuel k st i out)))
      else Inr out)"

declare bpe_emit.simps [simp del]

text \<open>
  The scratch arena of \<open>dgt_piece\<close>: its plan and its five allocations, of which only their
  success matters. A merge takes a candidate and adds at most two while the list loses an
  element, so \<open>3 slots\<close> rounds are enough.
\<close>

definition bpe_scratch :: "DGTokenizer \<Rightarrow> nat \<Rightarrow> unit result" where
  "bpe_scratch d slots =
     bindE (jb_workspace_plan 0 slots 4) (\<lambda>b.
     bindE (jb_workspace_plan b slots 4) (\<lambda>b.
     bindE (jb_workspace_plan b slots 4) (\<lambda>b.
     bindE (jb_size_mul slots 3) (\<lambda>h.
     bindE (jb_workspace_plan b h 16) (\<lambda>b.
     bindE (jb_size_mul (dt_maxlen d) 2) (\<lambda>m.
     bindE (jb_workspace_plan b m 1) (\<lambda>b.
     bindE (jb_arena_init b) (\<lambda>a.
     bindE (jb_arena_alloc a slots 4) (\<lambda>(_, a).
     bindE (jb_arena_alloc a slots 4) (\<lambda>(_, a).
     bindE (jb_arena_alloc a slots 4) (\<lambda>(_, a).
     bindE (jb_arena_alloc a h 16) (\<lambda>(_, a).
     bindE (jb_arena_alloc a m 1) (\<lambda>_. Inr ())))))))))))))"

definition dgt_piece :: "DGTokenizer \<Rightarrow> bytes \<Rightarrow> Tokens \<Rightarrow> Tokens result" where
  "dgt_piece d s out =
     (let slots = (if length s \<noteq> 0 then length s else 1) in
      bindE (bpe_scratch d slots) (\<lambda>_.
      bindE (dgt_initial d slots s 0 []) (\<lambda>ids.
      let k = length ids in
      bindE (bpe_push_all d (slots * 3) k [0..<k] (bpe_links ids)) (\<lambda>st.
      bindE (bpe_loop (slots * 3) d (slots * 3) st) (\<lambda>st.
        bpe_emit k k st 0 out)))))"

text \<open>The longest special token at \<open>i\<close>, the first of that length.\<close>

fun dgt_special_hit :: "bytes \<Rightarrow> nat \<Rightarrow> Vocab list \<Rightarrow> Vocab option \<Rightarrow> Vocab option" where
  "dgt_special_hit s i [] hit = hit"
| "dgt_special_hit s i (v # vs) hit =
     dgt_special_hit s i vs
       (if length (vo_s v) \<le> length s - i \<and> memcmp (span_of s i (i + length (vo_s v))) (vo_s v) = 0 \<and>
           (case hit of None \<Rightarrow> True | Some h \<Rightarrow> length (vo_s v) > length (vo_s h))
        then Some v else hit)"

definition dgt_mark_spaces :: "bytes \<Rightarrow> bytes" where
  "dgt_mark_spaces s = concat (map (\<lambda>c. if c = 32 then dgt_space_mark else [c]) s)"

function dgt_tokenize_loop ::
  "DGTokenizer \<Rightarrow> bytes \<Rightarrow> nat \<Rightarrow> nat \<Rightarrow> Tokens \<Rightarrow> (nat \<times> Tokens) result" where
  "dgt_tokenize_loop d s i plain out =
     (if i < length s then
        if \<not> dt_special_first d ! unat (s ! i) then dgt_tokenize_loop d s (Suc i) plain out
        else case dgt_special_hit s i (dt_special d) None of
          None \<Rightarrow> dgt_tokenize_loop d s (Suc i) plain out
        | Some hit \<Rightarrow>
            bindE (if i > plain then dgt_piece d (dgt_mark_spaces (span_of s plain i)) out else Inr out) (\<lambda>out.
            bindE (push out (vo_id hit)) (\<lambda>out.
              if length (vo_s hit) = 0 then Inl OutOfFuel
              else dgt_tokenize_loop d s (i + length (vo_s hit)) (i + length (vo_s hit)) out))
      else Inr (plain, out))"
  by pat_completeness auto
termination
  by (relation "measure (\<lambda>(d, s, i, plain, out). length s - i)") (auto simp: neq_Nil_conv)

declare dgt_tokenize_loop.simps [simp del]

definition dgt_tokenize :: "DGTokenizer \<Rightarrow> bytes \<Rightarrow> int list result" where
  "dgt_tokenize d s =
     bindE (dgt_tokenize_loop d s 0 0 tokens_zero) (\<lambda>(plain, out).
     bindE (if plain < length s then dgt_piece d (dgt_mark_spaces (span_of s plain (length s))) out
            else Inr out) (\<lambda>out. Inr (tk_v out)))"

section \<open>The reference\<close>

text \<open>The pair of least rank, with its position; the leftmost of them.\<close>

fun bpe_best :: "DGTokenizer \<Rightarrow> nat list \<Rightarrow> (nat \<times> nat) option" where
  "bpe_best d (a # b # xs) =
     (let rest = map_option (\<lambda>(r, i). (r, Suc i)) (bpe_best d (b # xs)) in
      case dgt_mfind d a b of
        None \<Rightarrow> rest
      | Some m \<Rightarrow>
          (case rest of
             None \<Rightarrow> Some (mg_rank m, 0)
           | Some (r, i) \<Rightarrow> if mg_rank m \<le> r then Some (mg_rank m, 0) else rest))"
| "bpe_best d _ = None"

lemma bpe_best_bound: "bpe_best d xs = Some (r, i) \<Longrightarrow> Suc i < length xs"
  by (induction d xs arbitrary: r i rule: bpe_best.induct)
    (auto simp: Let_def split: option.splits if_splits)

function bpe_merge_all :: "DGTokenizer \<Rightarrow> nat list \<Rightarrow> nat list result" where
  "bpe_merge_all d xs =
     (case bpe_best d xs of
        None \<Rightarrow> Inr xs
      | Some (r, i) \<Rightarrow>
          bindE (bpe_join d (xs ! i) (xs ! Suc i)) (\<lambda>v.
            bpe_merge_all d (take i xs @ v # drop (Suc (Suc i)) xs)))"
  by pat_completeness auto
termination
  by (relation "measure (\<lambda>(d, xs). length xs)") (auto dest!: bpe_best_bound)

declare bpe_merge_all.simps [simp del]

lemma bpe_best_None:
  "bpe_best d xs = None \<longleftrightarrow> (\<forall>i. Suc i < length xs \<longrightarrow> dgt_mfind d (xs ! i) (xs ! Suc i) = None)"
proof (induction d xs rule: bpe_best.induct)
  case (1 d a b xs)
  have "(\<forall>i. Suc i < length (a # b # xs) \<longrightarrow> dgt_mfind d ((a # b # xs) ! i) ((a # b # xs) ! Suc i) = None) \<longleftrightarrow>
      dgt_mfind d a b = None \<and>
      (\<forall>i. Suc i < length (b # xs) \<longrightarrow> dgt_mfind d ((b # xs) ! i) ((b # xs) ! Suc i) = None)"
    (is "(\<forall>i. ?P i) \<longleftrightarrow> ?Q \<and> (\<forall>i. ?R i)")
  proof
    assume P: "\<forall>i. ?P i"
    have "?R i" for i using P [rule_format, of "Suc i"] by simp
    with P [rule_format, of 0] show "?Q \<and> (\<forall>i. ?R i)" by simp
  next
    assume Q: "?Q \<and> (\<forall>i. ?R i)"
    have "?P i" for i using Q by (cases i) auto
    then show "\<forall>i. ?P i" by blast
  qed
  then show ?case using 1 by (auto simp: Let_def split: option.splits)
qed simp_all

text \<open>Rank and position of a pair, ordered as the heap orders them.\<close>

lemma bpe_best_Some:
  "bpe_best d xs = Some (r, i) \<Longrightarrow>
     (\<exists>m. dgt_mfind d (xs ! i) (xs ! Suc i) = Some m \<and> mg_rank m = r) \<and>
     (\<forall>j m. Suc j < length xs \<longrightarrow> dgt_mfind d (xs ! j) (xs ! Suc j) = Some m \<longrightarrow> (r, i) \<le> (mg_rank m, j))"
proof (induction d xs arbitrary: r i rule: bpe_best.induct)
  case (1 d a b xs)
  let ?rest = "bpe_best d (b # xs)"
  have step: "(r, i) \<le> (mg_rank m, j)"
    if "\<And>m. dgt_mfind d a b = Some m \<Longrightarrow> (r, i) \<le> (mg_rank m, 0)"
      "\<And>k m. Suc k < length (b # xs) \<Longrightarrow> dgt_mfind d ((b # xs) ! k) ((b # xs) ! Suc k) = Some m \<Longrightarrow>
         (r, i) \<le> (mg_rank m, Suc k)"
      "Suc j < length (a # b # xs)" "dgt_mfind d ((a # b # xs) ! j) ((a # b # xs) ! Suc j) = Some m" for j m
    using that by (cases j) auto
  show ?case
  proof (cases "dgt_mfind d a b")
    case None
    with "1.prems" obtain k where k: "?rest = Some (r, k)" "i = Suc k"
      by (auto simp: Let_def)
    note IH = "1.IH" [OF k(1)]
    have "(r, i) \<le> (mg_rank m, Suc j)"
      if "Suc j < length (b # xs)" "dgt_mfind d ((b # xs) ! j) ((b # xs) ! Suc j) = Some m" for j m
    proof -
      have "(r, k) \<le> (mg_rank m, j)" using IH that by blast
      with k(2) show ?thesis by auto
    qed
    then have "Suc j < length (a # b # xs) \<longrightarrow> dgt_mfind d ((a # b # xs) ! j) ((a # b # xs) ! Suc j) = Some m \<longrightarrow>
        (r, i) \<le> (mg_rank m, j)" for j m using step [of j m] None by simp
    with IH k(2) show ?thesis by simp
  next
    case (Some m)
    have all: "Suc j < length (a # b # xs) \<longrightarrow> dgt_mfind d ((a # b # xs) ! j) ((a # b # xs) ! Suc j) = Some n \<longrightarrow>
        (r, i) \<le> (mg_rank n, j)"
      if "(r, i) \<le> (mg_rank m, 0)"
        "\<And>k n. Suc k < length (b # xs) \<Longrightarrow> dgt_mfind d ((b # xs) ! k) ((b # xs) ! Suc k) = Some n \<Longrightarrow>
           (r, i) \<le> (mg_rank n, Suc k)" for j n
    proof (intro impI)
      assume j: "Suc j < length (a # b # xs)" "dgt_mfind d ((a # b # xs) ! j) ((a # b # xs) ! Suc j) = Some n"
      show "(r, i) \<le> (mg_rank n, j)"
      proof (rule step [OF _ _ j])
        show "dgt_mfind d a b = Some l \<Longrightarrow> (r, i) \<le> (mg_rank l, 0)" for l using that(1) Some by simp
      qed (rule that(2))
    qed
    show ?thesis
    proof (cases ?rest)
      case None
      then have none: "dgt_mfind d ((b # xs) ! k) ((b # xs) ! Suc k) = None" if "Suc k < length (b # xs)" for k
        using that bpe_best_None by blast
      have ri: "r = mg_rank m" "i = 0" using "1.prems" Some None by simp_all
      have "\<forall>j n. Suc j < length (a # b # xs) \<longrightarrow> dgt_mfind d ((a # b # xs) ! j) ((a # b # xs) ! Suc j) = Some n \<longrightarrow>
          (r, i) \<le> (mg_rank n, j)"
        by (intro allI all) (use ri in simp, metis none option.distinct(1))
      with Some ri show ?thesis by simp
    next
      case rest: (Some p)
      then obtain q k where p: "?rest = Some (q, k)" by (cases p) simp
      note IH = "1.IH" [OF p]
      have ri: "if mg_rank m \<le> q then r = mg_rank m \<and> i = 0 else r = q \<and> i = Suc k"
        using "1.prems" Some p by (simp split: if_splits)
      have "(r, i) \<le> (mg_rank n, Suc j)"
        if "Suc j < length (b # xs)" "dgt_mfind d ((b # xs) ! j) ((b # xs) ! Suc j) = Some n" for j n
      proof -
        have "(q, k) \<le> (mg_rank n, j)" using IH that by blast
        with ri show ?thesis by (auto split: if_splits)
      qed
      then have "\<forall>j n. Suc j < length (a # b # xs) \<longrightarrow> dgt_mfind d ((a # b # xs) ! j) ((a # b # xs) ! Suc j) = Some n \<longrightarrow>
          (r, i) \<le> (mg_rank n, j)"
        using ri by (intro allI all) (auto split: if_splits)
      with Some IH ri show ?thesis by (auto split: if_splits)
    qed
  qed
qed simp_all

lemma bpe_best_unique:
  assumes "Suc i < length xs" "dgt_mfind d (xs ! i) (xs ! Suc i) = Some m"
    "\<And>j n. Suc j < length xs \<Longrightarrow> dgt_mfind d (xs ! j) (xs ! Suc j) = Some n \<Longrightarrow> (mg_rank m, i) \<le> (mg_rank n, j)"
  shows "bpe_best d xs = Some (mg_rank m, i)"
proof (cases "bpe_best d xs")
  case None
  with assms(1,2) bpe_best_None show ?thesis by force
next
  case (Some p)
  then obtain r k where p: "bpe_best d xs = Some (r, k)" by (cases p) simp
  obtain n where n: "dgt_mfind d (xs ! k) (xs ! Suc k) = Some n" "mg_rank n = r"
    "(r, k) \<le> (mg_rank m, i)"
    using bpe_best_Some [OF p] assms(1,2) by blast
  have "(mg_rank m, i) \<le> (r, k)" using assms(3) [OF bpe_best_bound [OF p] n(1)] n(2) by simp
  with n(3) p show ?thesis by (metis order_antisym)
qed

section \<open>The list over the array\<close>

text \<open>\<open>ps\<close> are the positions still in the list, in order; the others hold \<open>UINT32_MAX\<close>.\<close>

definition bpe_list :: "nat \<Rightarrow> DGBpe \<Rightarrow> nat list \<Rightarrow> bool" where
  "bpe_list k st ps \<longleftrightarrow>
     length (bp_ids st) = k \<and> length (bp_next st) = k \<and> length (bp_prev st) = k \<and> k \<le> UINT32_MAX \<and>
     ps \<noteq> [] \<and> ps ! 0 = 0 \<and> sorted_wrt (<) ps \<and>
     (\<forall>i < length ps. ps ! i < k \<and> bp_ids st ! (ps ! i) < UINT32_MAX \<and>
        bp_next st ! (ps ! i) = (if Suc i < length ps then ps ! Suc i else UINT32_MAX) \<and>
        bp_prev st ! (ps ! i) = (if 0 < i then ps ! (i - 1) else UINT32_MAX)) \<and>
     (\<forall>p < k. p \<notin> set ps \<longrightarrow> bp_ids st ! p = UINT32_MAX)"

text \<open>What the candidate heap knows: every pair of the list that can merge is in it.\<close>

definition bpe_cand :: "DGTokenizer \<Rightarrow> nat \<Rightarrow> nat \<Rightarrow> nat \<Rightarrow> DGBpeCand option" where
  "bpe_cand d p a b =
     map_option (\<lambda>m. \<lparr>bc_rank = mg_rank m, bc_pos = p, bc_a = a, bc_b = b\<rparr>) (dgt_mfind d a b)"

definition bpe_queued :: "DGTokenizer \<Rightarrow> nat \<Rightarrow> DGBpe \<Rightarrow> nat list \<Rightarrow> bool" where
  "bpe_queued d k st ps \<longleftrightarrow>
     bpe_heap (bp_heap st) \<and>
     (\<forall>c \<in> set (bp_heap st). bc_pos c < k \<and> bc_a c < UINT32_MAX \<and> bpe_cand d (bc_pos c) (bc_a c) (bc_b c) = Some c) \<and>
     (\<forall>i c. Suc i < length ps \<longrightarrow>
        bpe_cand d (ps ! i) (bp_ids st ! (ps ! i)) (bp_ids st ! (ps ! Suc i)) = Some c \<longrightarrow> c \<in> set (bp_heap st))"

lemma bpe_push_eq:
  assumes "i < length (bp_ids st)" "j < length (bp_ids st)" "length (bp_heap st) < cap" "bpe_heap (bp_heap st)"
  obtains h where "bpe_push d cap i j st = Inr (st\<lparr>bp_heap := h\<rparr>)" "bpe_heap h" "length h \<le> Suc (length (bp_heap st))"
    "set h = set (bp_heap st) \<union> set_option (bpe_cand d i (bp_ids st ! i) (bp_ids st ! j))"
proof (cases "dgt_mfind d (bp_ids st ! i) (bp_ids st ! j)")
  case None
  with assms show thesis by (intro that [of "bp_heap st"]) (simp_all add: bpe_push_def dgt_bpe_push_def bpe_cand_def)
next
  case (Some m)
  let ?c = "\<lparr>bc_rank = mg_rank m, bc_pos = i, bc_a = bp_ids st ! i, bc_b = bp_ids st ! j\<rparr>"
  have h: "bpe_heap (bpe_put ?c (bp_heap st))" "mset (bpe_put ?c (bp_heap st)) = add_mset ?c (mset (bp_heap st))"
    using bpe_put_heap [OF assms(4)] by simp_all
  have "length (bpe_put ?c (bp_heap st)) = Suc (length (bp_heap st))"
    using arg_cong [OF h(2), of size] by simp
  moreover have "set (bpe_put ?c (bp_heap st)) = insert ?c (set (bp_heap st))"
    using arg_cong [OF h(2), of set_mset] by simp
  ultimately show thesis using assms Some h
    by (intro that [of "bpe_put ?c (bp_heap st)"]) (auto simp: bpe_push_def dgt_bpe_push_def bpe_cand_def)
qed

text \<open>A fresh candidate points at two neighbours of the list.\<close>

lemma bpe_list_fresh:
  assumes "bpe_list k st ps" "p < k" "bp_ids st ! p < UINT32_MAX" "bp_next st ! p \<noteq> UINT32_MAX"
  obtains i where "Suc i < length ps" "ps ! i = p" "bp_next st ! p = ps ! Suc i"
proof -
  have "p \<in> set ps" using assms unfolding bpe_list_def by (metis nat_less_le)
  then obtain i where i: "i < length ps" "ps ! i = p" by (auto simp: in_set_conv_nth)
  then have "bp_next st ! p = (if Suc i < length ps then ps ! Suc i else UINT32_MAX)"
    using assms(1) by (auto simp: bpe_list_def)
  with assms(4) i show thesis by (intro that [of i]) (auto split: if_splits)
qed

lemma bpe_list_nth_eq:
  "bpe_list k st ps \<Longrightarrow> i < length ps \<Longrightarrow> j < length ps \<Longrightarrow> ps ! i = ps ! j \<longleftrightarrow> i = j"
  by (auto simp: bpe_list_def strict_sorted_iff nth_eq_iff_index_eq)

lemma bpe_list_nth_less:
  "bpe_list k st ps \<Longrightarrow> i < length ps \<Longrightarrow> j < length ps \<Longrightarrow> ps ! i < ps ! j \<longleftrightarrow> i < j"
  unfolding bpe_list_def
  by (metis linorder_neqE_nat order_less_asym sorted_wrt_nth_less)

text \<open>Merging the pair at \<open>i\<close>: the list without position \<open>i + 1\<close>.\<close>

definition drop_at :: "nat \<Rightarrow> 'a list \<Rightarrow> 'a list" where
  "drop_at i xs = take i xs @ drop (Suc i) xs"

lemma length_drop_at [simp]: "i < length xs \<Longrightarrow> length (drop_at i xs) = length xs - 1"
  by (simp add: drop_at_def)

lemma nth_drop_at: "i < length xs \<Longrightarrow> j < length xs - 1 \<Longrightarrow> drop_at i xs ! j = (if j < i then xs ! j else xs ! Suc j)"
  by (auto simp: drop_at_def nth_append min_def)

lemma set_drop_at: "distinct xs \<Longrightarrow> i < length xs \<Longrightarrow> set (drop_at i xs) = set xs - {xs ! i}"
  unfolding drop_at_def using id_take_nth_drop [of i xs]
  by (metis (no_types, lifting) Diff_insert_absorb Un_insert_right distinct.simps(2) distinct_append
      disjoint_iff insertCI list.simps(15) set_append UnE)

lemma bpe_list_merge:
  assumes L: "bpe_list k st ps" and i: "Suc i < length ps" and v: "v < UINT32_MAX"
    and at: "at = ps ! i" and bt: "bt = ps ! Suc i"
    and nx: "nx = bp_next st ! bt"
    and st': "bp_ids st' = (bp_ids st)[at := v, bt := UINT32_MAX]" "bp_next st' = (bp_next st)[at := nx]"
      "bp_prev st' = (if nx \<noteq> UINT32_MAX then (bp_prev st)[nx := at] else bp_prev st)"
  shows "bpe_list k st' (drop_at (Suc i) ps)"
    and "nx = (if Suc (Suc i) < length ps then ps ! Suc (Suc i) else UINT32_MAX)"
    and "bp_prev st' ! at = (if 0 < i then ps ! (i - 1) else UINT32_MAX)"
    and "\<And>j. j < length ps - 1 \<Longrightarrow>
      bp_ids st' ! (drop_at (Suc i) ps ! j) =
        (if j < i then bp_ids st ! (ps ! j) else if j = i then v else bp_ids st ! (ps ! Suc j))"
proof -
  note eq = bpe_list_nth_eq [OF L]
  have len: "length (bp_ids st) = k" "length (bp_next st) = k" "length (bp_prev st) = k" "k \<le> UINT32_MAX"
    and ps0: "ps \<noteq> []" "ps ! 0 = 0" "sorted_wrt (<) ps"
    and dead: "\<And>p. p < k \<Longrightarrow> p \<notin> set ps \<Longrightarrow> bp_ids st ! p = UINT32_MAX"
    using L by (auto simp: bpe_list_def)
  have el: "ps ! j < k" "bp_ids st ! (ps ! j) < UINT32_MAX"
    "bp_next st ! (ps ! j) = (if Suc j < length ps then ps ! Suc j else UINT32_MAX)"
    "bp_prev st ! (ps ! j) = (if 0 < j then ps ! (j - 1) else UINT32_MAX)" if "j < length ps" for j
    using L that unfolding bpe_list_def by blast+
  show nx': "nx = (if Suc (Suc i) < length ps then ps ! Suc (Suc i) else UINT32_MAX)"
    using el(3) [OF i] nx bt by simp
  have nxk: "Suc (Suc i) < length ps \<Longrightarrow> nx < k \<and> nx \<noteq> UINT32_MAX"
    using el(1) [of "Suc (Suc i)"] nx' len(4) by auto
  have i': "i < length ps" and atk: "at < k" and btk: "bt < k" using i el(1) at bt by auto
  let ?ps = "drop_at (Suc i) ps"
  have nth: "?ps ! j = (if j < Suc i then ps ! j else ps ! Suc j)" if "j < length ps - 1" for j
    using nth_drop_at [OF i that] .
  show ids: "bp_ids st' ! (?ps ! j) =
      (if j < i then bp_ids st ! (ps ! j) else if j = i then v else bp_ids st ! (ps ! Suc j))"
    if "j < length ps - 1" for j
  proof -
    have "j < length ps" "Suc j < length ps" using that by simp_all
    then show ?thesis
      using i i' eq [of j i] eq [of j "Suc i"] eq [of "Suc j" i] eq [of "Suc j" "Suc i"] eq [of i "Suc i"] len atk
      unfolding nth [OF that] st'(1) at bt by (auto simp: nth_list_update)
  qed
  have prev: "bp_prev st' ! (ps ! j) = (if Suc (Suc i) = j then at else bp_prev st ! (ps ! j))" if "j < length ps" for j
    using that nx' nxk len eq [of "Suc (Suc i)" j] el(1) [OF that] by (auto simp: st'(3) nth_list_update)
  show "bp_prev st' ! at = (if 0 < i then ps ! (i - 1) else UINT32_MAX)"
    using prev [OF i'] el(4) [OF i'] at by simp
  show "bpe_list k st' ?ps"
    unfolding bpe_list_def
  proof (intro conjI allI impI)
    show "length (bp_ids st') = k" "length (bp_next st') = k" "length (bp_prev st') = k" "k \<le> UINT32_MAX"
      using len st' by simp_all
    show "?ps \<noteq> []" "?ps ! 0 = 0" using i ps0 nth [of 0] by (auto simp: drop_at_def)
    show "sorted_wrt (<) ?ps"
    proof -
      have "sorted_wrt (<) (take (Suc i) ps @ ps ! Suc i # drop (Suc (Suc i)) ps)"
        using ps0(3) id_take_nth_drop [OF i] by simp
      then show ?thesis by (auto simp: drop_at_def sorted_wrt_append)
    qed
  next
    fix j assume "j < length ?ps"
    then have j: "j < length ps - 1" using i by simp
    then have jj: "j < length ps" "Suc j < length ps" by simp_all
    show "?ps ! j < k" using j el(1) by (simp add: nth)
    show "bp_ids st' ! (?ps ! j) < UINT32_MAX" using j el(2) v unfolding ids [OF j] by simp
    have "bp_next st' ! (?ps ! j) = (if j < i then ps ! Suc j else if j = i then nx else bp_next st ! (ps ! Suc j))"
      using jj i i' eq [of j i] eq [of "Suc j" i] len atk el(3) [of j] unfolding nth [OF j] st'(2) at
      by (auto simp: nth_list_update)
    then show "bp_next st' ! (?ps ! j) = (if Suc j < length ?ps then ?ps ! Suc j else UINT32_MAX)"
      using j i nx' el(3) [of "Suc j"] nth [of "Suc j"] by auto
    consider "j \<le> i" | "j = Suc i" | "Suc i < j" by linarith
    then show "bp_prev st' ! (?ps ! j) = (if 0 < j then ?ps ! (j - 1) else UINT32_MAX)"
    proof cases
      case 1
      then show ?thesis using prev [OF jj(1)] el(4) [OF jj(1)] nth [OF j] nth [of "j - 1"] j by (cases j) simp_all
    next
      case 2
      then show ?thesis using prev [OF jj(2)] nth [OF j] nth [of i] j at by simp
    next
      case 3
      then show ?thesis using prev [OF jj(2)] el(4) [OF jj(2)] nth [OF j] nth [of "j - 1"] j by (cases j) simp_all
    qed
  next
    fix p assume p: "p < k" "p \<notin> set ?ps"
    have "set ?ps = set ps - {bt}"
      using set_drop_at [of ps "Suc i"] ps0(3) i bt by (simp add: strict_sorted_iff)
    then have "p = bt \<or> p \<notin> set ps" using p(2) by blast
    then show "bp_ids st' ! p = UINT32_MAX"
    proof
      assume "p = bt"
      then show ?thesis using st'(1) btk len(1) by simp
    next
      assume n: "p \<notin> set ps"
      then have "p \<noteq> at" "p \<noteq> bt" using i i' at bt by auto
      then show ?thesis using st'(1) dead [OF p(1) n] by simp
    qed
  qed
qed

section \<open>The heap picks what a rescan picks\<close>

lemma bpe_cand_Some:
  "bpe_cand d p a b = Some c \<longleftrightarrow>
     bc_pos c = p \<and> bc_a c = a \<and> bc_b c = b \<and> (\<exists>m. dgt_mfind d a b = Some m \<and> bc_rank c = mg_rank m)"
  by (cases c) (auto simp: bpe_cand_def)

lemma bpe_join_bound: "dgt_ok d \<Longrightarrow> bpe_join d a b = Inr v \<Longrightarrow> v < UINT32_MAX \<and> v < length (dt_vocab d)"
  by (auto simp: bpe_join_def bindE_Inr_iff dest!: dgt_vfind_in dest: dgt_ok_vocab(1,2)
      split: option.splits if_splits)

definition fresh :: "DGBpe \<Rightarrow> DGBpeCand \<Rightarrow> bool" where
  "fresh st c \<longleftrightarrow> bp_ids st ! bc_pos c = bc_a c \<and> bp_next st ! bc_pos c \<noteq> UINT32_MAX \<and>
     bp_ids st ! (bp_next st ! bc_pos c) = bc_b c"

lemma bpe_stale:
  assumes L: "bpe_list k st ps" and Q: "bpe_queued d k st ps" and h: "bp_heap st \<noteq> []"
    and pop: "bpe_pop (bp_heap st) = (c, h')" and stale: "\<not> fresh st c"
  shows "bpe_candidate d cap c (st\<lparr>bp_heap := h'\<rparr>) = Inr (st\<lparr>bp_heap := h'\<rparr>)"
    and "bpe_list k (st\<lparr>bp_heap := h'\<rparr>) ps" and "bpe_queued d k (st\<lparr>bp_heap := h'\<rparr>) ps"
proof -
  have inv: "bpe_heap (bp_heap st)" and ne: "mset (bp_heap st) \<noteq> {#}" using Q h by (simp_all add: bpe_queued_def)
  have c: "bc_pos c < k" "bc_a c < UINT32_MAX"
    using bpe_queue.pop_in [OF inv ne] Q pop by (auto simp: bpe_queued_def)
  have len: "length (bp_ids st) = k" "length (bp_next st) = k" using L by (simp_all add: bpe_list_def)
  show "bpe_candidate d cap c (st\<lparr>bp_heap := h'\<rparr>) = Inr (st\<lparr>bp_heap := h'\<rparr>)"
  proof (cases "bp_ids st ! bc_pos c = bc_a c \<and> bp_next st ! bc_pos c \<noteq> UINT32_MAX")
    case True
    then obtain i where "Suc i < length ps" "bp_next st ! bc_pos c = ps ! Suc i"
      using bpe_list_fresh [OF L c(1)] c(2) by metis
    then have "bp_next st ! bc_pos c < k" using L by (simp add: bpe_list_def)
    then show ?thesis using True stale c len by (simp add: bpe_candidate_def Let_def fresh_def)
  next
    case False
    then show ?thesis using c len by (auto simp add: bpe_candidate_def Let_def)
  qed
  show "bpe_list k (st\<lparr>bp_heap := h'\<rparr>) ps" using L by (simp add: bpe_list_def)
  have "e \<in> set h'" if e: "Suc i < length ps"
    "bpe_cand d (ps ! i) (bp_ids st ! (ps ! i)) (bp_ids st ! (ps ! Suc i)) = Some e" for i e
  proof -
    have "e \<in># mset (bp_heap st)" using Q e by (simp add: bpe_queued_def)
    moreover have "fresh st e"
      using L e by (auto simp: fresh_def bpe_cand_Some bpe_list_def)
    ultimately show ?thesis using bpe_queue.pop_keeps [OF inv ne, of e] stale pop by auto
  qed
  then show "bpe_queued d k (st\<lparr>bp_heap := h'\<rparr>) ps"
    using bpe_queue.pop_invar [OF inv ne] bpe_queue.pop_sub [OF inv ne] Q pop
    by (auto simp: bpe_queued_def)
qed

lemma bpe_fresh_best:
  assumes L: "bpe_list k st ps" and Q: "bpe_queued d k st ps" and h: "bp_heap st \<noteq> []"
    and pop: "bpe_pop (bp_heap st) = (c, h')" and c: "fresh st c"
  obtains i where "Suc i < length ps" "bc_pos c = ps ! i" "bp_next st ! (ps ! i) = ps ! Suc i"
    "bp_ids st ! (ps ! i) = bc_a c" "bp_ids st ! (ps ! Suc i) = bc_b c"
    "bpe_best d (map ((!) (bp_ids st)) ps) = Some (bc_rank c, i)"
proof -
  have inv: "bpe_heap (bp_heap st)" and ne: "mset (bp_heap st) \<noteq> {#}" using Q h by (simp_all add: bpe_queued_def)
  have c': "bc_pos c < k" "bc_a c < UINT32_MAX" "bpe_cand d (bc_pos c) (bc_a c) (bc_b c) = Some c"
    using bpe_queue.pop_in [OF inv ne] Q pop by (auto simp: bpe_queued_def)
  obtain i where i: "Suc i < length ps" "ps ! i = bc_pos c" "bp_next st ! bc_pos c = ps ! Suc i"
    using bpe_list_fresh [OF L c'(1)] c c'(2) by (auto simp: fresh_def)
  have ids: "bp_ids st ! (ps ! i) = bc_a c" "bp_ids st ! (ps ! Suc i) = bc_b c"
    using c i by (simp_all add: fresh_def)
  obtain m where m: "dgt_mfind d (bc_a c) (bc_b c) = Some m" "bc_rank c = mg_rank m"
    using c'(3) by (auto simp: bpe_cand_Some)
  have "bpe_best d (map ((!) (bp_ids st)) ps) = Some (mg_rank m, i)"
  proof (rule bpe_best_unique)
    show "Suc i < length (map ((!) (bp_ids st)) ps)" using i by simp
    show "dgt_mfind d (map ((!) (bp_ids st)) ps ! i) (map ((!) (bp_ids st)) ps ! Suc i) = Some m"
      using i ids m by simp
    fix j n
    assume j: "Suc j < length (map ((!) (bp_ids st)) ps)"
      "dgt_mfind d (map ((!) (bp_ids st)) ps ! j) (map ((!) (bp_ids st)) ps ! Suc j) = Some n"
    let ?e = "\<lparr>bc_rank = mg_rank n, bc_pos = ps ! j, bc_a = bp_ids st ! (ps ! j), bc_b = bp_ids st ! (ps ! Suc j)\<rparr>"
    have "?e \<in> set (bp_heap st)" using Q j by (auto simp: bpe_queued_def bpe_cand_def)
    then have "bc_key c \<le> bc_key ?e" using bpe_queue.pop_key [OF inv, of ?e] pop by simp
    then show "(mg_rank m, i) \<le> (mg_rank n, j)"
    proof -
      have "ps ! j < ps ! i \<longleftrightarrow> j < i" using bpe_list_nth_less [OF L, of j i] i(1) j(1) by simp
      with \<open>bc_key c \<le> bc_key ?e\<close> m(2) i(2) show ?thesis unfolding bc_key_def by (simp add: not_less) linarith
    qed
  qed
  with i ids m show thesis by (intro that [of i]) simp_all
qed

lemma bpe_candidate_merge:
  assumes L: "bpe_list k st ps" and i: "Suc i < length ps" and "bc_pos c = ps ! i"
    "bp_ids st ! (ps ! i) = bc_a c" "bp_ids st ! (ps ! Suc i) = bc_b c"
  shows "bpe_candidate d cap c (st\<lparr>bp_heap := h\<rparr>) =
    bindE (bpe_join d (bc_a c) (bc_b c)) (\<lambda>v.
      let at = ps ! i; bt = ps ! Suc i; nx = bp_next st ! bt;
          st1 = \<lparr>bp_ids = (bp_ids st)[at := v, bt := UINT32_MAX], bp_next = (bp_next st)[at := nx],
                 bp_prev = (if nx \<noteq> UINT32_MAX then (bp_prev st)[nx := at] else bp_prev st), bp_heap = h\<rparr>;
          pv = bp_prev st1 ! at in
      bindE (if pv \<noteq> UINT32_MAX then bpe_push d cap pv at st1 else Inr st1) (\<lambda>st.
        if nx \<noteq> UINT32_MAX then bpe_push d cap at nx st else Inr st))"
proof -
  have len: "length (bp_ids st) = k" "length (bp_next st) = k" "length (bp_prev st) = k" "k \<le> UINT32_MAX"
    using L by (auto simp: bpe_list_def)
  have el: "ps ! j < k" "bp_next st ! (ps ! j) = (if Suc j < length ps then ps ! Suc j else UINT32_MAX)"
    if "j < length ps" for j
    using L that unfolding bpe_list_def by blast+
  have at: "ps ! i < k" "ps ! Suc i < k" "bp_next st ! (ps ! i) = ps ! Suc i"
    using el [of i] el [of "Suc i"] i by simp_all
  have nx: "bp_next st ! (ps ! Suc i) \<noteq> UINT32_MAX \<Longrightarrow> bp_next st ! (ps ! Suc i) < k"
    using el(2) [OF i] el(1) [of "Suc (Suc i)"] by (simp split: if_splits)
  have ne: "ps ! Suc i \<noteq> UINT32_MAX" using at(2) len(4) by simp
  show ?thesis
    using assms(3-5) at ne len nx
    by (cases "bp_next st ! (ps ! Suc i) = UINT32_MAX") (simp_all add: bpe_candidate_def Let_def cong: if_cong)
qed

lemma bpe_merge_queued:
  assumes L: "bpe_list k st ps" and Q: "bpe_queued d k st ps" and h: "bp_heap st \<noteq> []"
    and pop: "bpe_pop (bp_heap st) = (c, h')" and i: "Suc i < length ps" and c: "bc_pos c = ps ! i"
    and ids: "\<And>j. j < length ps - 1 \<Longrightarrow> bp_ids st1 ! (drop_at (Suc i) ps ! j) =
        (if j < i then bp_ids st ! (ps ! j) else if j = i then v else bp_ids st ! (ps ! Suc j))"
    and v: "v < UINT32_MAX"
    and heap: "bpe_heap (bp_heap st1)"
      "set (bp_heap st1) = set h' \<union>
         (if 0 < i then set_option (bpe_cand d (ps ! (i - 1)) (bp_ids st ! (ps ! (i - 1))) v) else {}) \<union>
         (if Suc (Suc i) < length ps then set_option (bpe_cand d (ps ! i) v (bp_ids st ! (ps ! Suc (Suc i)))) else {})"
  shows "bpe_queued d k st1 (drop_at (Suc i) ps)"
proof -
  let ?ps = "drop_at (Suc i) ps"
  have inv: "bpe_heap (bp_heap st)" and ne: "mset (bp_heap st) \<noteq> {#}" using Q h by (simp_all add: bpe_queued_def)
  have el: "ps ! j < k" "bp_ids st ! (ps ! j) < UINT32_MAX" if "j < length ps" for j
    using L that unfolding bpe_list_def by blast+
  have old: "bc_pos e < k \<and> bc_a e < UINT32_MAX \<and> bpe_cand d (bc_pos e) (bc_a e) (bc_b e) = Some e"
    if "e \<in> set h'" for e
    using bpe_queue.pop_sub [OF inv ne, of e] that pop Q by (auto simp: bpe_queued_def)
  have sound: "bc_pos e < k \<and> bc_a e < UINT32_MAX \<and> bpe_cand d (bc_pos e) (bc_a e) (bc_b e) = Some e"
    if e: "e \<in> set (bp_heap st1)" for e
  proof -
    have "e \<in> set h' \<or> 0 < i \<and> bpe_cand d (ps ! (i - 1)) (bp_ids st ! (ps ! (i - 1))) v = Some e \<or>
        bpe_cand d (ps ! i) v (bp_ids st ! (ps ! Suc (Suc i))) = Some e"
      using e unfolding heap(2) by (auto split: if_splits)
    then show ?thesis
      using old el [of "i - 1"] el [of i] i v by (elim disjE) (auto simp: bpe_cand_Some)
  qed
  have kept: "e \<in> set h'" if j: "Suc j < length ps" "j \<noteq> i"
    "bpe_cand d (ps ! j) (bp_ids st ! (ps ! j)) (bp_ids st ! (ps ! Suc j)) = Some e" for j e
  proof -
    have "e \<in># mset (bp_heap st)" using Q j by (simp add: bpe_queued_def)
    moreover have "e \<noteq> c" using bpe_list_nth_eq [OF L, of j i] j i c by (auto simp: bpe_cand_Some)
    ultimately show ?thesis using bpe_queue.pop_keeps [OF inv ne, of e] pop by auto
  qed
  have "e \<in> set (bp_heap st1)" if j: "Suc j < length ?ps"
    "bpe_cand d (?ps ! j) (bp_ids st1 ! (?ps ! j)) (bp_ids st1 ! (?ps ! Suc j)) = Some e" for j e
  proof -
    have jl: "Suc j < length ps - 1" "j < length ps - 1" using j(1) i by simp_all
    have nth: "?ps ! j = (if j < Suc i then ps ! j else ps ! Suc j)"
      using nth_drop_at [OF i jl(2)] .
    note e = j(2) [unfolded ids [OF jl(1)] ids [OF jl(2)], unfolded nth]
    consider "Suc j < i" | "Suc j = i" | "j = i" | "i < j" by linarith
    then show ?thesis
    proof cases
      case 1
      with e jl kept [of j e] show ?thesis unfolding heap(2) by simp
    next
      case 2
      with e show ?thesis unfolding heap(2) by auto
    next
      case 3
      then have "Suc (Suc i) < length ps" using jl by simp
      with e 3 show ?thesis unfolding heap(2) by simp
    next
      case 4
      with e jl kept [of "Suc j" e] show ?thesis unfolding heap(2) by simp
    qed
  qed
  then show ?thesis using heap(1) sound by (simp add: bpe_queued_def)
qed

lemma map_ids_merge:
  assumes "Suc i < length ps" "length ps' = length ps - 1"
    "\<And>j. j < length ps - 1 \<Longrightarrow> f' (ps' ! j) = (if j < i then f (ps ! j) else if j = i then v else f (ps ! Suc j))"
  shows "map f' ps' = take i (map f ps) @ v # drop (Suc (Suc i)) (map f ps)"
proof (rule nth_equalityI)
  show "length (map f' ps') = length (take i (map f ps) @ v # drop (Suc (Suc i)) (map f ps))"
    using assms(1,2) by simp
  fix j assume "j < length (map f' ps')"
  then have j: "j < length ps - 1" using assms(2) by simp
  then show "map f' ps' ! j = (take i (map f ps) @ v # drop (Suc (Suc i)) (map f ps)) ! j"
  proof -
    consider "j < i" | "j = i" | l where "j = Suc (i + l)" by (metis less_imp_Suc_add linorder_neqE_nat)
    then show ?thesis
      using j assms by cases (simp_all add: nth_append min_def)
  qed
qed

text \<open>One merge through the heap is one step of the reference.\<close>

lemma bpe_merge_step:
  assumes d: "dgt_ok d" and L: "bpe_list k st ps" and Q: "bpe_queued d k st ps" and h: "bp_heap st \<noteq> []"
    and pop: "bpe_pop (bp_heap st) = (c, h')" and c: "fresh st c"
    and cap: "length (bp_heap st) + 2 * length ps \<le> cap"
  obtains i where "bpe_best d (map ((!) (bp_ids st)) ps) = Some (bc_rank c, i)"
    "map ((!) (bp_ids st)) ps ! i = bc_a c" "map ((!) (bp_ids st)) ps ! Suc i = bc_b c"
    "\<And>e. bpe_join d (bc_a c) (bc_b c) = Inl e \<Longrightarrow> bpe_candidate d cap c (st\<lparr>bp_heap := h'\<rparr>) = Inl e"
    "\<And>v. bpe_join d (bc_a c) (bc_b c) = Inr v \<Longrightarrow>
       \<exists>st' ps'. bpe_candidate d cap c (st\<lparr>bp_heap := h'\<rparr>) = Inr st' \<and> bpe_list k st' ps' \<and> bpe_queued d k st' ps' \<and>
         length (bp_heap st') + 2 * length ps' < length (bp_heap st) + 2 * length ps \<and>
         map ((!) (bp_ids st')) ps' =
           take i (map ((!) (bp_ids st)) ps) @ v # drop (Suc (Suc i)) (map ((!) (bp_ids st)) ps)"
proof -
  obtain i where i: "Suc i < length ps" "bc_pos c = ps ! i" "bp_next st ! (ps ! i) = ps ! Suc i"
    "bp_ids st ! (ps ! i) = bc_a c" "bp_ids st ! (ps ! Suc i) = bc_b c"
    "bpe_best d (map ((!) (bp_ids st)) ps) = Some (bc_rank c, i)"
    using bpe_fresh_best [OF L Q h pop c] .
  have inv: "bpe_heap (bp_heap st)" and ne: "mset (bp_heap st) \<noteq> {#}" using Q h by (simp_all add: bpe_queued_def)
  have h': "bpe_heap h'" "length (bp_heap st) = Suc (length h')"
    using bpe_queue.pop_invar [OF inv ne] bpe_queue.pop_size [OF inv ne] pop by simp_all
  note cand = bpe_candidate_merge [OF L i(1,2,4,5)]
  have step: "\<exists>st' ps'. bpe_candidate d cap c (st\<lparr>bp_heap := h'\<rparr>) = Inr st' \<and> bpe_list k st' ps' \<and> bpe_queued d k st' ps' \<and>
         length (bp_heap st') + 2 * length ps' < length (bp_heap st) + 2 * length ps \<and>
         map ((!) (bp_ids st')) ps' =
           take i (map ((!) (bp_ids st)) ps) @ v # drop (Suc (Suc i)) (map ((!) (bp_ids st)) ps)"
    if v: "bpe_join d (bc_a c) (bc_b c) = Inr v" for v
  proof -
    have vb: "v < UINT32_MAX" using bpe_join_bound [OF d v] by simp
    define nx where "nx = bp_next st ! (ps ! Suc i)"
    define st1 where "st1 = \<lparr>bp_ids = (bp_ids st)[ps ! i := v, ps ! Suc i := UINT32_MAX], bp_next = (bp_next st)[ps ! i := nx],
                 bp_prev = (if nx \<noteq> UINT32_MAX then (bp_prev st)[nx := ps ! i] else bp_prev st), bp_heap = h'\<rparr>"
    define pv where "pv = bp_prev st1 ! (ps ! i)"
    let ?ps = "drop_at (Suc i) ps"
    note M = bpe_list_merge [OF L i(1) vb refl refl nx_def, of st1]
    have nx: "nx = (if Suc (Suc i) < length ps then ps ! Suc (Suc i) else UINT32_MAX)"
      and pv: "pv = (if 0 < i then ps ! (i - 1) else UINT32_MAX)"
      and L1: "bpe_list k st1 ?ps"
      and ids: "\<And>j. j < length ps - 1 \<Longrightarrow> bp_ids st1 ! (?ps ! j) =
        (if j < i then bp_ids st ! (ps ! j) else if j = i then v else bp_ids st ! (ps ! Suc j))"
      using M by (simp_all add: st1_def pv_def)
    have el: "ps ! j < k" if "j < length ps" for j using L that unfolding bpe_list_def by blast
    have k: "length (bp_ids st1) = k" "k \<le> UINT32_MAX" using L1 by (simp_all add: bpe_list_def)
    have nth: "?ps ! j = (if j < Suc i then ps ! j else ps ! Suc j)" if "j < length ps - 1" for j
      using nth_drop_at [OF i(1) that] .
    have at: "bp_ids st1 ! (ps ! i) = v" "ps ! i < length (bp_ids st1)"
      using ids [of i] nth [of i] i(1) el [of i] k by simp_all
    obtain st2 where st2: "(if pv \<noteq> UINT32_MAX then bpe_push d cap pv (ps ! i) st1 else Inr st1) = Inr st2"
        "bp_ids st2 = bp_ids st1" "bp_next st2 = bp_next st1" "bp_prev st2 = bp_prev st1"
        "bpe_heap (bp_heap st2)" "length (bp_heap st2) \<le> Suc (length h')"
        "set (bp_heap st2) = set h' \<union>
           (if 0 < i then set_option (bpe_cand d (ps ! (i - 1)) (bp_ids st ! (ps ! (i - 1))) v) else {})"
    proof (cases "0 < i")
      case True
      then have p: "pv = ps ! (i - 1)" "pv < length (bp_ids st1)" "pv \<noteq> UINT32_MAX"
        "bp_ids st1 ! pv = bp_ids st ! (ps ! (i - 1))"
      proof -
        have j: "i - 1 < length ps" "i - 1 < length ps - 1" "i - 1 < Suc i" "i - 1 < i" using i(1) True by auto
        show "pv = ps ! (i - 1)" using pv True by simp
        with el [OF j(1)] k show "pv < length (bp_ids st1)" "pv \<noteq> UINT32_MAX" by simp_all
        show "bp_ids st1 ! pv = bp_ids st ! (ps ! (i - 1))"
          using ids [OF j(2)] nth [OF j(2)] j(3,4) pv True by simp
      qed
      obtain g where "bpe_push d cap pv (ps ! i) st1 = Inr (st1\<lparr>bp_heap := g\<rparr>)" "bpe_heap g"
        "length g \<le> Suc (length h')" "set g = set h' \<union> set_option (bpe_cand d pv (bp_ids st1 ! pv) (bp_ids st1 ! (ps ! i)))"
        using bpe_push_eq [OF p(2) at(2), of cap d] h' cap i(1) by (auto simp: st1_def)
      with p True at show thesis by (intro that [of "st1\<lparr>bp_heap := g\<rparr>"]) simp_all
    next
      case False
      with pv h'(1) show thesis by (intro that [of st1]) (simp_all add: st1_def)
    qed
    obtain st3 where st3: "(if nx \<noteq> UINT32_MAX then bpe_push d cap (ps ! i) nx st2 else Inr st2) = Inr st3"
        "bp_ids st3 = bp_ids st1" "bp_next st3 = bp_next st1" "bp_prev st3 = bp_prev st1"
        "bpe_heap (bp_heap st3)" "length (bp_heap st3) \<le> Suc (Suc (length h'))"
        "set (bp_heap st3) = set (bp_heap st2) \<union>
           (if Suc (Suc i) < length ps then set_option (bpe_cand d (ps ! i) v (bp_ids st ! (ps ! Suc (Suc i)))) else {})"
    proof (cases "Suc (Suc i) < length ps")
      case True
      then have p: "nx = ps ! Suc (Suc i)" "nx < length (bp_ids st2)" "nx \<noteq> UINT32_MAX"
        "bp_ids st2 ! nx = bp_ids st ! (ps ! Suc (Suc i))" "ps ! i < length (bp_ids st2)"
        using nx el [of "Suc (Suc i)"] k ids [of "Suc i"] nth [of "Suc i"] st2(2) at by auto
      have "length (bp_heap st2) < cap" using st2(6) h'(2) cap i(1) by linarith
      then obtain g where "bpe_push d cap (ps ! i) nx st2 = Inr (st2\<lparr>bp_heap := g\<rparr>)" "bpe_heap g"
        "length g \<le> Suc (length (bp_heap st2))"
        "set g = set (bp_heap st2) \<union> set_option (bpe_cand d (ps ! i) (bp_ids st2 ! (ps ! i)) (bp_ids st2 ! nx))"
        using bpe_push_eq [OF p(5,2), of cap d] st2(5) by blast
      with p True at st2 show thesis by (intro that [of "st2\<lparr>bp_heap := g\<rparr>"]) simp_all
    next
      case False
      with nx st2 show thesis by (intro that [of st2]) simp_all
    qed
    have "bpe_candidate d cap c (st\<lparr>bp_heap := h'\<rparr>) = Inr st3"
      unfolding cand v bindE_simps Let_def nx_def [symmetric] st1_def [symmetric] pv_def [symmetric]
        st2(1) st3(1) ..
    moreover have "bpe_list k st3 ?ps" using L1 st3(2-4) by (simp add: bpe_list_def)
    moreover have "bpe_queued d k st3 ?ps"
      by (rule bpe_merge_queued [OF L Q h pop i(1,2), where v = v])
        (simp_all only: st3 st2(7) ids vb)
    moreover have "map ((!) (bp_ids st3)) ?ps =
        take i (map ((!) (bp_ids st)) ps) @ v # drop (Suc (Suc i)) (map ((!) (bp_ids st)) ps)"
      by (rule map_ids_merge) (use i(1) ids st3(2) in simp_all)
    moreover have "length (bp_heap st3) + 2 * length ?ps < length (bp_heap st) + 2 * length ps"
      using st3(6) h'(2) i(1) by simp
    ultimately show ?thesis by blast
  qed
  show thesis by (rule that [OF i(6)]) (use i cand step in simp_all)
qed

lemma bpe_loop_ref:
  assumes d: "dgt_ok d"
  shows "bpe_list k st ps \<Longrightarrow> bpe_queued d k st ps \<Longrightarrow> length (bp_heap st) + 2 * length ps \<le> fuel \<Longrightarrow>
    length (bp_heap st) + 2 * length ps \<le> cap \<Longrightarrow>
    (case bpe_merge_all d (map ((!) (bp_ids st)) ps) of
       Inl e \<Rightarrow> bpe_loop fuel d cap st = Inl e
     | Inr ys \<Rightarrow> \<exists>st' ps'. bpe_loop fuel d cap st = Inr st' \<and> bpe_list k st' ps' \<and> map ((!) (bp_ids st')) ps' = ys)"
proof (induction fuel arbitrary: st ps)
  case 0
  then have "ps = []" by simp
  with "0.prems"(1) show ?case by (simp add: bpe_list_def)
next
  case (Suc fuel)
  note L = Suc.prems(1) and Q = Suc.prems(2)
  let ?xs = "map ((!) (bp_ids st)) ps"
  show ?case
  proof (cases "bp_heap st = []")
    case True
    have "bpe_best d ?xs = None"
      unfolding bpe_best_None
    proof (intro allI impI)
      fix i assume i: "Suc i < length ?xs"
      then have "bpe_cand d (ps ! i) (?xs ! i) (?xs ! Suc i) \<noteq> Some c" for c
        using Q True by (auto simp: bpe_queued_def)
      then show "dgt_mfind d (?xs ! i) (?xs ! Suc i) = None"
        by (cases "dgt_mfind d (?xs ! i) (?xs ! Suc i)") (auto simp: bpe_cand_def)
    qed
    then have "bpe_merge_all d ?xs = Inr ?xs" by (simp add: bpe_merge_all.simps)
    with L True show ?thesis by (auto simp: bpe_loop.simps)
  next
    case False
    obtain c h' where pop: "bpe_pop (bp_heap st) = (c, h')" by fastforce
    have loop: "bpe_loop (Suc fuel) d cap st = bindE (bpe_candidate d cap c (st\<lparr>bp_heap := h'\<rparr>)) (bpe_loop fuel d cap)"
      using False pop by (simp add: bpe_loop.simps [of "Suc fuel"])
    show ?thesis
    proof (cases "fresh st c")
      case False
      note st' = bpe_stale [OF L Q \<open>bp_heap st \<noteq> []\<close> pop False]
      have "length (bp_heap st) = Suc (length h')"
        using bpe_queue.pop_size [of "bp_heap st"] Q pop \<open>bp_heap st \<noteq> []\<close> by (simp add: bpe_queued_def)
      with Suc.IH [OF st'(2,3)] Suc.prems(3,4) show ?thesis unfolding loop st'(1) bindE_simps by simp
    next
      case True
      obtain i where i: "bpe_best d ?xs = Some (bc_rank c, i)" "?xs ! i = bc_a c" "?xs ! Suc i = bc_b c"
        and err: "\<And>e. bpe_join d (bc_a c) (bc_b c) = Inl e \<Longrightarrow> bpe_candidate d cap c (st\<lparr>bp_heap := h'\<rparr>) = Inl e"
        and ok: "\<And>v. bpe_join d (bc_a c) (bc_b c) = Inr v \<Longrightarrow>
          \<exists>st' ps'. bpe_candidate d cap c (st\<lparr>bp_heap := h'\<rparr>) = Inr st' \<and> bpe_list k st' ps' \<and> bpe_queued d k st' ps' \<and>
            length (bp_heap st') + 2 * length ps' < length (bp_heap st) + 2 * length ps \<and>
            map ((!) (bp_ids st')) ps' = take i ?xs @ v # drop (Suc (Suc i)) ?xs"
        using bpe_merge_step [OF d L Q False pop True Suc.prems(4)] by blast
      have ref: "bpe_merge_all d ?xs = bindE (bpe_join d (bc_a c) (bc_b c)) (\<lambda>v.
          bpe_merge_all d (take i ?xs @ v # drop (Suc (Suc i)) ?xs))"
        by (subst bpe_merge_all.simps) (simp only: i option.case prod.case)
      show ?thesis
      proof (cases "bpe_join d (bc_a c) (bc_b c)")
        case (Inl e)
        with err [OF Inl] show ?thesis unfolding ref loop by simp
      next
        case (Inr v)
        from ok [OF Inr] obtain st' ps' where st': "bpe_candidate d cap c (st\<lparr>bp_heap := h'\<rparr>) = Inr st'"
          "bpe_list k st' ps'" "bpe_queued d k st' ps'"
          "length (bp_heap st') + 2 * length ps' < length (bp_heap st) + 2 * length ps"
          "map ((!) (bp_ids st')) ps' = take i ?xs @ v # drop (Suc (Suc i)) ?xs" by blast
        have "length (bp_heap st') + 2 * length ps' \<le> fuel" "length (bp_heap st') + 2 * length ps' \<le> cap"
          using st'(4) Suc.prems(3,4) by linarith+
        note IH = Suc.IH [OF st'(2,3) this]
        show ?thesis using IH unfolding ref loop Inr st'(1) bindE_simps st'(5) .
      qed
    qed
  qed
qed

section \<open>The list before the first merge and after the last\<close>

lemma bpe_push_all_append:
  "bpe_push_all d cap k (xs @ ys) st = bindE (bpe_push_all d cap k xs st) (bpe_push_all d cap k ys)"
  by (induction xs arbitrary: st) (simp_all add: bindE_assoc cong: bindE_cong)

lemma bpe_links_list:
  assumes "ids \<noteq> []" "\<forall>x \<in> set ids. x < UINT32_MAX" "length ids \<le> UINT32_MAX"
  shows "bpe_list (length ids) (bpe_links ids) [0..<length ids]"
  using assms by (auto simp: bpe_list_def bpe_links_def)

lemma bpe_push_all_queued:
  assumes "\<forall>x \<in> set ids. x < UINT32_MAX" "length ids \<le> cap"
  shows "j \<le> length ids \<Longrightarrow> \<exists>h. bpe_push_all d cap (length ids) [0..<j] (bpe_links ids) = Inr ((bpe_links ids)\<lparr>bp_heap := h\<rparr>) \<and>
    bpe_heap h \<and> length h \<le> j \<and>
    (\<forall>c \<in> set h. bc_pos c < length ids \<and> bc_a c < UINT32_MAX \<and> bpe_cand d (bc_pos c) (bc_a c) (bc_b c) = Some c) \<and>
    (\<forall>i c. i < j \<longrightarrow> Suc i < length ids \<longrightarrow> bpe_cand d i (ids ! i) (ids ! Suc i) = Some c \<longrightarrow> c \<in> set h)"
proof (induction j)
  case 0
  show ?case by (simp add: bpe_links_def bpe_heap_def heap_but_def)
next
  case (Suc j)
  then obtain h where h: "bpe_push_all d cap (length ids) [0..<j] (bpe_links ids) = Inr ((bpe_links ids)\<lparr>bp_heap := h\<rparr>)"
    "bpe_heap h" "length h \<le> j"
    "\<forall>c \<in> set h. bc_pos c < length ids \<and> bc_a c < UINT32_MAX \<and> bpe_cand d (bc_pos c) (bc_a c) (bc_b c) = Some c"
    "\<forall>i c. i < j \<longrightarrow> Suc i < length ids \<longrightarrow> bpe_cand d i (ids ! i) (ids ! Suc i) = Some c \<longrightarrow> c \<in> set h"
    by auto
  let ?st = "(bpe_links ids)\<lparr>bp_heap := h\<rparr>"
  have all: "bpe_push_all d cap (length ids) [0..<Suc j] (bpe_links ids) =
      bindE (if j + 1 < length ids then bpe_push d cap j (j + 1) ?st else Inr ?st) Inr"
    using h(1) by (simp add: bpe_push_all_append cong: bindE_cong if_cong)
  show ?case
  proof (cases "Suc j < length ids")
    case True
    have st: "j < length (bp_ids ?st)" "j + 1 < length (bp_ids ?st)" "length (bp_heap ?st) < cap" "bpe_heap (bp_heap ?st)"
      using True h(2,3) assms(2) by (simp_all add: bpe_links_def)
    obtain g where g: "bpe_push d cap j (j + 1) ?st = Inr (?st\<lparr>bp_heap := g\<rparr>)" "bpe_heap g"
      "length g \<le> Suc (length (bp_heap ?st))"
      "set g = set (bp_heap ?st) \<union> set_option (bpe_cand d j (bp_ids ?st ! j) (bp_ids ?st ! (j + 1)))"
      using bpe_push_eq [OF st] .
    have "ids ! j < UINT32_MAX" using assms(1) True by simp
    then show ?thesis using True all g h(3-5)
      by (intro exI [of _ g]) (auto simp: bpe_links_def bpe_cand_Some less_Suc_eq)
  next
    case False
    then show ?thesis using all h by (intro exI [of _ h]) (auto simp: less_Suc_eq)
  qed
qed

fun push_list :: "int list \<Rightarrow> Tokens \<Rightarrow> Tokens result" where
  "push_list [] out = Inr out"
| "push_list (x # xs) out = bindE (push out x) (push_list xs)"

lemma bpe_emit_push:
  assumes L: "bpe_list k st ps"
  shows "i \<le> length ps \<Longrightarrow> length ps - i \<le> fuel \<Longrightarrow>
    bpe_emit fuel k st (if i < length ps then ps ! i else UINT32_MAX) out =
    push_list (map int (map ((!) (bp_ids st)) (drop i ps))) out"
proof (induction fuel arbitrary: i out)
  case 0
  with L show ?case by (simp add: bpe_emit.simps bpe_list_def)
next
  case (Suc fuel)
  show ?case
  proof (cases "i < length ps")
    case True
    then have el: "ps ! i < k" "bp_next st ! (ps ! i) = (if Suc i < length ps then ps ! Suc i else UINT32_MAX)"
      "ps ! i < length (bp_ids st)" "ps ! i < length (bp_next st)"
      using L by (auto simp: bpe_list_def)
    have "bpe_emit fuel k st (bp_next st ! (ps ! i)) out' = push_list (map int (map ((!) (bp_ids st)) (drop (Suc i) ps))) out'" for out'
      using Suc.IH [of "Suc i" out'] Suc.prems True el(2) by simp
    with True el show ?thesis
      by (simp add: bpe_emit.simps [of "Suc fuel"] Cons_nth_drop_Suc [symmetric] del: map_map)
  next
    case False
    with L Suc.prems show ?thesis by (simp add: bpe_emit.simps bpe_list_def)
  qed
qed

lemma bpe_list_length: "bpe_list k st ps \<Longrightarrow> length ps \<le> k"
proof -
  assume "bpe_list k st ps"
  then have "sorted_wrt (<) ps" "set ps \<subseteq> {..<k}" by (auto simp: bpe_list_def in_set_conv_nth)
  then show ?thesis
    using card_mono [of "{..<k}" "set ps"] distinct_card [of ps] by (simp add: strict_sorted_iff)
qed

lemma bpe_merge_phase:
  assumes "dgt_ok d" "\<forall>x \<in> set ids. x < UINT32_MAX" "length ids \<le> UINT32_MAX" "length ids \<le> slots"
  shows "bindE (bpe_push_all d (slots * 3) (length ids) [0..<length ids] (bpe_links ids)) (\<lambda>st.
      bindE (bpe_loop (slots * 3) d (slots * 3) st) (\<lambda>st. bpe_emit (length ids) (length ids) st 0 out)) =
    bindE (bpe_merge_all d ids) (\<lambda>xs. push_list (map int xs) out)"
proof (cases "ids = []")
  case True
  have "bpe_merge_all d [] = Inr []" by (simp add: bpe_merge_all.simps)
  with True show ?thesis by (simp add: bpe_links_def bpe_loop.simps bpe_emit.simps)
next
  case False
  let ?k = "length ids"
  obtain h where h: "bpe_push_all d (slots * 3) ?k [0..<?k] (bpe_links ids) = Inr ((bpe_links ids)\<lparr>bp_heap := h\<rparr>)"
    "bpe_heap h" "length h \<le> ?k"
    "\<forall>c \<in> set h. bc_pos c < ?k \<and> bc_a c < UINT32_MAX \<and> bpe_cand d (bc_pos c) (bc_a c) (bc_b c) = Some c"
    "\<forall>i c. i < ?k \<longrightarrow> Suc i < ?k \<longrightarrow> bpe_cand d i (ids ! i) (ids ! Suc i) = Some c \<longrightarrow> c \<in> set h"
    using bpe_push_all_queued [OF assms(2), of "slots * 3" ?k d] assms(4) by auto
  let ?st = "(bpe_links ids)\<lparr>bp_heap := h\<rparr>"
  have L: "bpe_list ?k ?st [0..<?k]"
    using bpe_links_list [OF False assms(2,3)] by (simp add: bpe_list_def)
  have Q: "bpe_queued d ?k ?st [0..<?k]"
  proof -
    have "\<forall>i c. Suc i < ?k \<longrightarrow> bpe_cand d i (ids ! i) (ids ! Suc i) = Some c \<longrightarrow> c \<in> set h"
      using h(5) Suc_lessD by blast
    with h(2,4) show ?thesis by (simp add: bpe_queued_def bpe_links_def)
  qed
  have ids: "map ((!) (bp_ids ?st)) [0..<?k] = ids" by (simp add: bpe_links_def map_nth)
  have size: "length (bp_heap ?st) + 2 * length [0..<?k] \<le> slots * 3" using h(3) assms(4) by simp
  note ref = bpe_loop_ref [OF assms(1) L Q size size, unfolded ids]
  show ?thesis
  proof (cases "bpe_merge_all d ids")
    case (Inl e)
    with ref h(1) show ?thesis by simp
  next
    case (Inr ys)
    with ref obtain st' ps' where st': "bpe_loop (slots * 3) d (slots * 3) ?st = Inr st'" "bpe_list ?k st' ps'"
      "map ((!) (bp_ids st')) ps' = ys" by auto
    have "ps' \<noteq> []" "ps' ! 0 = 0" using st'(2) by (simp_all add: bpe_list_def)
    then have "bpe_emit ?k ?k st' 0 out = push_list (map int ys) out"
      using bpe_emit_push [OF st'(2), of 0 ?k out] bpe_list_length [OF st'(2)] st'(3) by simp
    with h(1) st'(1) Inr show ?thesis by simp
  qed
qed

section \<open>From bytes to the first list\<close>

text \<open>The ids of one code point: its own token, or one for each of its bytes.\<close>

fun bpe_bytes :: "DGTokenizer \<Rightarrow> bytes \<Rightarrow> nat list result" where
  "bpe_bytes d [] = Inr []"
| "bpe_bytes d (c # cs) =
     (case dgt_vfind d (dgt_byte_token c) of
        None \<Rightarrow> die ''DiffusionGemma byte fallback token absent''
      | Some v \<Rightarrow> bindE (bpe_bytes d cs) (\<lambda>xs. Inr (vo_u32 v # xs)))"

definition bpe_unit :: "DGTokenizer \<Rightarrow> u32 \<Rightarrow> nat list result" where
  "bpe_unit d c =
     (case dgt_vfind d (put_utf8 c) of Some v \<Rightarrow> Inr [vo_u32 v] | None \<Rightarrow> bpe_bytes d (put_utf8 c))"

fun bpe_units :: "DGTokenizer \<Rightarrow> u32 list \<Rightarrow> nat list result" where
  "bpe_units d [] = Inr []"
| "bpe_units d (c # cs) = bindE (bpe_unit d c) (\<lambda>xs. bindE (bpe_units d cs) (\<lambda>ys. Inr (xs @ ys)))"

lemma dgt_fallback_bytes:
  "length ids + length cs \<le> slots \<Longrightarrow>
     dgt_fallback d slots cs ids = bindE (bpe_bytes d cs) (\<lambda>xs. Inr (ids @ xs))"
  by (induction d slots cs ids rule: dgt_fallback.induct)
    (auto simp: bindE_assoc split: option.splits)

lemma bpe_bytes_length: "bpe_bytes d cs = Inr xs \<Longrightarrow> length xs = length cs"
  by (induction cs arbitrary: xs) (auto simp: bindE_Inr_iff split: option.splits)

lemma bpe_unit_length: "bpe_unit d c = Inr xs \<Longrightarrow> length xs \<le> length (put_utf8 c)"
  by (auto simp: bpe_unit_def Suc_le_eq dest: bpe_bytes_length split: option.splits)

lemma bpe_units_length: "bpe_units d cs = Inr xs \<Longrightarrow> length xs \<le> length (concat (map put_utf8 cs))"
  by (induction cs arbitrary: xs) (force simp: bindE_Inr_iff dest: bpe_unit_length)+

lemma bpe_bytes_small: "dgt_ok d \<Longrightarrow> bpe_bytes d cs = Inr xs \<Longrightarrow> \<forall>x \<in> set xs. x < UINT32_MAX"
  by (induction cs arbitrary: xs)
    (auto simp: bindE_Inr_iff dest!: dgt_vfind_in dest: dgt_ok_vocab(2) split: option.splits)

lemma bpe_units_small: "dgt_ok d \<Longrightarrow> bpe_units d cs = Inr xs \<Longrightarrow> \<forall>x \<in> set xs. x < UINT32_MAX"
proof (induction cs arbitrary: xs)
  case (Cons c cs)
  then obtain ys zs where "bpe_unit d c = Inr ys" "bpe_units d cs = Inr zs" "xs = ys @ zs"
    by (auto simp: bindE_Inr_iff)
  moreover from this have "\<forall>x \<in> set ys. x < UINT32_MAX"
    using bpe_bytes_small [OF Cons.prems(1)] dgt_ok_vocab(2) [OF Cons.prems(1)]
    by (auto simp: bpe_unit_def dest!: dgt_vfind_in split: option.splits)
  ultimately show ?case using Cons by auto
qed simp

lemma dgt_initial_units:
  assumes "list_all scalar cs" "s = pre @ concat (map put_utf8 cs)"
    "length ids + length (concat (map put_utf8 cs)) \<le> slots"
  shows "dgt_initial d slots s (length pre) ids = bindE (bpe_units d cs) (\<lambda>xs. Inr (ids @ xs))"
  using assms
proof (induction cs arbitrary: pre ids)
  case Nil
  then show ?case by (simp add: dgt_initial.simps)
next
  case (Cons c cs)
  let ?u = "put_utf8 c"
  have s: "s = pre @ ?u @ concat (map put_utf8 cs)" using Cons.prems by simp
  have cp: "next_cp s (length s) (length pre) = Inr (c, length pre + length ?u)"
    unfolding s using Cons.prems(1) by (intro next_cp_put_utf8) simp_all
  have sp: "span_of s (length pre) (length pre + length ?u) = ?u" unfolding s by simp
  have lt: "length pre < length s" using put_utf8_nonempty(2) [of c] s by simp
  have IH: "dgt_initial d slots s (length pre + length ?u) (ids @ xs) =
      bindE (bpe_units d cs) (\<lambda>ys. Inr (ids @ xs @ ys))" if "length xs \<le> length ?u" for xs
    using Cons.IH [of "pre @ ?u" "ids @ xs"] Cons.prems that s by simp
  have step: "dgt_initial d slots s (length pre) ids =
      (case dgt_vfind d ?u of
         Some v \<Rightarrow> if length ids < slots then dgt_initial d slots s (length pre + length ?u) (ids @ [vo_u32 v]) else Inl Undefined
       | None \<Rightarrow> bindE (dgt_fallback d slots ?u ids) (dgt_initial d slots s (length pre + length ?u)))"
    using lt cp sp by (simp add: dgt_initial.simps [of d slots s "length pre"] split: option.splits)
  show ?case
  proof (cases "dgt_vfind d ?u")
    case (Some v)
    have "length ?u \<le> length (concat (map put_utf8 (c # cs)))" by simp
    then have "length ids < slots" using Cons.prems(3) put_utf8_nonempty(2) [of c] by linarith
    with IH [of "[vo_u32 v]"] Some put_utf8_nonempty(2) [of c] step show ?thesis
      by (simp add: bpe_unit_def bindE_assoc Suc_le_eq)
  next
    case None
    have fb: "dgt_fallback d slots ?u ids = bindE (bpe_bytes d ?u) (\<lambda>xs. Inr (ids @ xs))"
      using Cons.prems(3) by (intro dgt_fallback_bytes) simp
    show ?thesis
    proof (cases "bpe_bytes d ?u")
      case (Inl e)
      with None step fb show ?thesis by (simp add: bpe_unit_def)
    next
      case (Inr xs)
      with None step fb IH [of xs] bpe_bytes_length [OF Inr] show ?thesis
        by (simp add: bpe_unit_def bindE_assoc)
    qed
  qed
qed

text \<open>The scratch arena is always big enough.\<close>

lemma jb_workspace_plan_small:
  "u \<le> 1152921504606846976 \<Longrightarrow> c * z \<le> 1152921504606846976 \<Longrightarrow> \<exists>v. jb_workspace_plan u c z = Inr v \<and> v \<le> u + 63 + c * z"
proof -
  assume "u \<le> 1152921504606846976" "c * z \<le> 1152921504606846976"
  moreover have "(u + 63) div 64 * 64 \<le> u + 63" by simp
  ultimately have "jb_workspace_plan u c z = Inr ((u + 63) div 64 * 64 + c * z)"
    by (subst jb_workspace_plan_Inr) simp_all
  then show ?thesis using \<open>(u + 63) div 64 * 64 \<le> u + 63\<close> by auto
qed

lemma bpe_scratch_ok:
  assumes "slots \<le> UINT32_MAX" "dt_maxlen d \<le> UINT32_MAX"
  shows "bpe_scratch d slots = Inr ()"
proof -
  let ?rs = "[(slots, 4), (slots, 4), (slots, 4), (slots * 3, 16), (dt_maxlen d * 2, 1)] :: request list"
  obtain a where a: "jb_workspace_plan 0 slots 4 = Inr a" "a \<le> 63 + slots * 4"
    using jb_workspace_plan_small [of 0 slots 4] assms by auto
  obtain b where b: "jb_workspace_plan a slots 4 = Inr b" "b \<le> a + 63 + slots * 4"
    using jb_workspace_plan_small [of a slots 4] assms a by auto
  obtain c where c: "jb_workspace_plan b slots 4 = Inr c" "c \<le> b + 63 + slots * 4"
    using jb_workspace_plan_small [of b slots 4] assms a b by auto
  obtain e where e: "jb_workspace_plan c (slots * 3) 16 = Inr e" "e \<le> c + 63 + slots * 48"
    using jb_workspace_plan_small [of c "slots * 3" 16] assms a b c by auto
  obtain f where f: "jb_workspace_plan e (dt_maxlen d * 2) 1 = Inr f" "f \<le> e + 63 + dt_maxlen d * 2"
    using jb_workspace_plan_small [of e "dt_maxlen d * 2" 1] assms a b c e by auto
  have m: "jb_size_mul slots 3 = Inr (slots * 3)" "jb_size_mul (dt_maxlen d) 2 = Inr (dt_maxlen d * 2)"
    using assms by (simp_all add: jb_size_mul_Inr)
  define ar where "ar = \<lparr>arena_allocated = True, arena_size = f, arena_used = 0, arena_peak = 0\<rparr>"
  have "(if f \<noteq> 0 then f else 1) + (64 - 1) \<le> UINT64_MAX" using a b c e f assms by simp
  then have init: "jb_arena_init f = Inr ar"
    by (simp add: jb_arena_init_def ar_def jb_size_add_ok del: jb_size_add_Inr)
  have plan: "plan_all (\<lambda>u (r :: request). jb_workspace_plan u (fst r) (snd r)) (arena_used ar) ?rs = Inr f"
    using a b c e f by (simp add: ar_def)
  obtain offs ar' where
    "alloc_all (\<lambda>a (r :: request). jb_arena_alloc a (fst r) (snd r)) ar ?rs = Inr (offs, ar')"
    using arena.alloc_all_as_planned [OF _ plan] by (auto simp: ar_def)
  then have "bindE (jb_arena_alloc ar slots 4) (\<lambda>(_, a). bindE (jb_arena_alloc a slots 4) (\<lambda>(_, a).
     bindE (jb_arena_alloc a slots 4) (\<lambda>(_, a). bindE (jb_arena_alloc a (slots * 3) 16) (\<lambda>(_, a).
     bindE (jb_arena_alloc a (dt_maxlen d * 2) 1) (\<lambda>_. Inr ()))))) = Inr ()"
    by (auto simp: bindE_Inr_iff)
  then show ?thesis unfolding bpe_scratch_def a(1) b(1) c(1) e(1) f(1) m init bindE_simps .
qed

lemma dgt_piece_ref:
  assumes "dgt_ok d" "list_all scalar cs" "s = concat (map put_utf8 cs)" "length s \<le> UINT32_MAX"
  shows "dgt_piece d s out =
    bindE (bpe_units d cs) (\<lambda>ids. bindE (bpe_merge_all d ids) (\<lambda>xs. push_list (map int xs) out))"
proof -
  define slots where "slots = (if length s \<noteq> 0 then length s else 1)"
  have slots: "length s \<le> slots" by (simp add: slots_def)
  have scratch: "bpe_scratch d slots = Inr ()"
    using assms(1,4) by (intro bpe_scratch_ok) (auto simp: dgt_ok_def slots_def JB_MAX_JSON_def)
  have init: "dgt_initial d slots s 0 [] = bpe_units d cs"
  proof -
    have room: "length ([] :: nat list) + length (concat (map put_utf8 cs)) \<le> slots"
      using slots assms(3) by simp
    show ?thesis
      using dgt_initial_units [OF assms(2) _ room, of s "[]" d] assms(3)
      by (cases "bpe_units d cs") simp_all
  qed
  show ?thesis
  proof (cases "bpe_units d cs")
    case (Inl e)
    show ?thesis
      unfolding dgt_piece_def slots_def [symmetric] Let_def scratch init Inl bindE_simps ..
  next
    case (Inr ids)
    have "length ids \<le> length s" using bpe_units_length [OF Inr] assms(3) by simp
    then have "length ids \<le> UINT32_MAX" "length ids \<le> slots" using assms(4) slots by linarith+
    note phase = bpe_merge_phase [OF assms(1) bpe_units_small [OF assms(1) Inr] this, of out]
    show ?thesis
      unfolding dgt_piece_def slots_def [symmetric] Let_def scratch init Inr bindE_simps phase ..
  qed
qed

end
