(* ===== verification/Sha256.thy ===== *)
theory Sha256
  imports Arena
begin

text \<open>
  The request digest of \<open>src/decision.inc\<close>: \<open>dg_sha256\<close>, whose first four bytes seed the canvas
  generator. The padded message is built as the code builds it, in a zeroed buffer of
  \<open>(n + 9 + 63) & ~63\<close> bytes. \<open>sha_pad\<close> and \<open>sha_spec\<close> state the standard's padding and
  iteration over blocks, which the lemmas show the code to compute.
\<close>

section \<open>The code\<close>

definition dg_rotr :: "u32 \<Rightarrow> nat \<Rightarrow> u32" where
  "dg_rotr x n = drop_bit n x OR push_bit (32 - n) x"

definition sha_k :: "u32 list" where
  "sha_k =
    [1116352408, 1899447441, 3049323471, 3921009573, 961987163, 1508970993, 2453635748, 2870763221,
     3624381080, 310598401, 607225278, 1426881987, 1925078388, 2162078206, 2614888103, 3248222580,
     3835390401, 4022224774, 264347078, 604807628, 770255983, 1249150122, 1555081692, 1996064986,
     2554220882, 2821834349, 2952996808, 3210313671, 3336571891, 3584528711, 113926993, 338241895,
     666307205, 773529912, 1294757372, 1396182291, 1695183700, 1986661051, 2177026350, 2456956037,
     2730485921, 2820302411, 3259730800, 3345764771, 3516065817, 3600352804, 4094571909, 275423344,
     430227734, 506948616, 659060556, 883997877, 958139571, 1322822218, 1537002063, 1747873779,
     1955562222, 2024104815, 2227730452, 2361852424, 2428436474, 2756734187, 3204031479, 3329325298]"

definition sha_h0 :: "u32 list" where
  "sha_h0 =
    [1779033703, 3144134277, 1013904242, 2773480762, 1359893119, 2600822924, 528734635, 1541459225]"

text \<open>The padded message: \<open>bits\<close> wraps as the \<open>uint64_t\<close> it is, \<open>total\<close> as a \<open>size_t\<close>.\<close>

definition sha_total :: "nat \<Rightarrow> nat" where
  "sha_total n = unat ((of_nat n + 9 + 63 :: size_t) AND NOT 63)"

fun sha_length_bytes :: "nat \<Rightarrow> nat \<Rightarrow> u64 \<Rightarrow> bytes \<Rightarrow> bytes" where
  "sha_length_bytes 0 tot bits msg = msg"
| "sha_length_bytes (Suc i) tot bits msg =
     (sha_length_bytes i tot bits msg)[tot - 1 - i := ucast (drop_bit (8 * i) bits)]"

definition sha_message :: "bytes \<Rightarrow> bytes" where
  "sha_message p =
     (let n = length p;
          bits = of_nat n * 8;
          tot = sha_total n;
          msg = replicate tot 0;
          msg = p @ drop n msg;
          msg = msg[n := 0x80]
      in sha_length_bytes 8 tot bits msg)"

definition sha_word :: "bytes \<Rightarrow> nat \<Rightarrow> u32" where
  "sha_word msg i =
     push_bit 24 (ucast (msg ! i)) OR push_bit 16 (ucast (msg ! (i + 1))) OR
     push_bit 8 (ucast (msg ! (i + 2))) OR ucast (msg ! (i + 3))"

text \<open>The message schedule: \<open>n\<close> further words of \<open>w\<close>.\<close>

fun sha_schedule :: "nat \<Rightarrow> u32 list \<Rightarrow> u32 list" where
  "sha_schedule 0 w = w"
| "sha_schedule (Suc n) w =
     (let w = sha_schedule n w; i = length w; a = w ! (i - 15); c = w ! (i - 2)
      in w @ [(dg_rotr c 17 XOR dg_rotr c 19 XOR drop_bit 10 c) + w ! (i - 7) +
              (dg_rotr a 7 XOR dg_rotr a 18 XOR drop_bit 3 a) + w ! (i - 16)])"

definition sha_round :: "u32 \<Rightarrow> u32 \<Rightarrow> u32 list \<Rightarrow> u32 list" where
  "sha_round k w = (\<lambda>v.
     let a = v ! 0; bb = v ! 1; c = v ! 2; d = v ! 3; e = v ! 4; f = v ! 5; g = v ! 6; hh = v ! 7;
         t1 = hh + (dg_rotr e 6 XOR dg_rotr e 11 XOR dg_rotr e 25) + ((e AND f) XOR (NOT e AND g)) + k + w;
         t2 = (dg_rotr a 2 XOR dg_rotr a 13 XOR dg_rotr a 22) +
              ((a AND bb) XOR (a AND c) XOR (bb AND c))
     in [t1 + t2, a, bb, c, d + t1, e, f, g])"

fun sha_rounds :: "u32 list \<Rightarrow> u32 list \<Rightarrow> u32 list \<Rightarrow> u32 list" where
  "sha_rounds (k # ks) (w # ws) v = sha_rounds ks ws (sha_round k w v)"
| "sha_rounds _ _ v = v"

definition sha_block :: "bytes \<Rightarrow> nat \<Rightarrow> u32 list \<Rightarrow> u32 list" where
  "sha_block msg off h =
     (let w = sha_schedule 48 (map (\<lambda>i. sha_word msg (off + 4 * i)) [0..<16])
      in map2 (+) h (sha_rounds sha_k w h))"

function sha_blocks :: "bytes \<Rightarrow> nat \<Rightarrow> nat \<Rightarrow> u32 list \<Rightarrow> u32 list" where
  "sha_blocks msg tot off h =
     (if off < tot then sha_blocks msg tot (off + 64) (sha_block msg off h) else h)"
  by pat_completeness auto
termination
  by (relation "measure (\<lambda>(msg, tot, off, h). tot - off)") auto

declare sha_blocks.simps [simp del]

definition sha_output :: "u32 list \<Rightarrow> bytes" where
  "sha_output h = concat (map (\<lambda>x. map (\<lambda>q. ucast (drop_bit (24 - 8 * q) x)) [0..<4]) h)"

definition dg_sha256 :: "bytes \<Rightarrow> bytes" where
  "dg_sha256 p = sha_output (sha_blocks (sha_message p) (sha_total (length p)) 0 sha_h0)"

section \<open>The standard\<close>

text \<open>A one bit, zeros up to 8 bytes before a multiple of 64, and the length in bits.\<close>

definition sha_pad :: "bytes \<Rightarrow> bytes" where
  "sha_pad p = p @ [0x80] @ replicate ((119 - length p mod 64) mod 64) 0 @
     map (\<lambda>i. of_nat (8 * length p div 256 ^ (7 - i))) [0..<8]"

fun sha_chunks :: "nat \<Rightarrow> bytes \<Rightarrow> bytes list" where
  "sha_chunks 0 s = []"
| "sha_chunks (Suc k) s = take 64 s # sha_chunks k (drop 64 s)"

definition sha_spec :: "bytes \<Rightarrow> bytes" where
  "sha_spec p = sha_output (foldl (\<lambda>h b. sha_block b 0 h) sha_h0
     (sha_chunks (length (sha_pad p) div 64) (sha_pad p)))"

section \<open>Padding\<close>

lemma sha_total_eq:
  assumes "n + 72 \<le> UINT64_MAX"
  shows "sha_total n = (n + 72) div 64 * 64"
proof -
  have "sha_total n = unat ((of_nat (n + 72) :: size_t) AND NOT (of_nat (2 ^ 6 - 1)))"
    by (simp add: sha_total_def add.commute)
  also have "\<dots> = (n + 72) div 2 ^ 6 * 2 ^ 6" by (rule unat_align_mask [OF assms])
  finally show ?thesis by simp
qed

lemma length_sha_length_bytes [simp]: "length (sha_length_bytes n tot b m) = length m"
  by (induction n tot b m rule: sha_length_bytes.induct) simp_all

lemma sha_length_bytes_nth:
  "length m = tot \<Longrightarrow> n \<le> tot \<Longrightarrow> j < tot \<Longrightarrow> sha_length_bytes n tot b m ! j =
     (if tot - n \<le> j then ucast (drop_bit (8 * (tot - 1 - j)) b) else m ! j)"
proof (induction n)
  case (Suc i)
  let ?m = "sha_length_bytes i tot b m"
  have IH: "?m ! j = (if tot - i \<le> j then ucast (drop_bit (8 * (tot - 1 - j)) b) else m ! j)"
    using Suc by simp
  show ?case
  proof (cases "j = tot - 1 - i")
    case True
    then have "tot - 1 - j = i" using Suc.prems by simp
    with True Suc.prems show ?thesis by simp
  next
    case False
    then have "tot - Suc i \<le> j \<longleftrightarrow> tot - i \<le> j" using Suc.prems by auto
    moreover have "sha_length_bytes (Suc i) tot b m ! j = ?m ! j" using False by simp
    ultimately show ?thesis using IH by simp
  qed
qed simp

lemma pad_arith: "n + 9 + (119 - n mod 64) mod 64 = (n + 72) div 64 * (64 :: nat)"
proof -
  define a b where "a = n div 64" and "b = n mod 64"
  have n: "n = 64 * a + b" and b: "b < 64" by (simp_all add: a_def b_def)
  have d: "(n + 72) div 64 = a + (b + 72) div 64" by (simp add: n)
  have m: "n mod 64 = b" by (simp add: b_def)
  show ?thesis
  proof (cases "b \<le> 55")
    case True
    then have "(119 - b) mod 64 = 55 - b" by (subst mod_if) simp
    moreover have "(b + 72) div 64 = 1" using True by (intro div_nat_eqI) simp_all
    ultimately show ?thesis unfolding d m using True by (simp add: n)
  next
    case False
    then have "(119 - b) mod 64 = 119 - b" by simp
    moreover have "(b + 72) div 64 = 2" using False b by (intro div_nat_eqI) simp_all
    ultimately show ?thesis unfolding d m using False b by (simp add: n)
  qed
qed

lemma sha_pad_length:
  "length (sha_pad p) = (length p + 72) div 64 * 64"
proof -
  have "length (sha_pad p) = length p + 9 + (119 - length p mod 64) mod 64"
    by (simp add: sha_pad_def)
  then show ?thesis unfolding pad_arith .
qed

lemma ucast_drop_bit_of_nat:
  assumes "8 * n \<le> UINT64_MAX" "i < 8"
  shows "(ucast (drop_bit (8 * i) (of_nat n * 8 :: u64)) :: byte) = of_nat (8 * n div 256 ^ i)"
proof (rule word_unat_eq_iff [THEN iffD2])
  have "unat (of_nat n * 8 :: u64) = 8 * n"
    using unat_of_nat_size [OF assms(1)] by (simp add: mult.commute)
  then have "unat (drop_bit (8 * i) (of_nat n * 8 :: u64)) = 8 * n div 256 ^ i"
    by (simp add: unat_drop_bit power_mult)
  then show "unat (ucast (drop_bit (8 * i) (of_nat n * 8 :: u64)) :: byte) = unat (of_nat (8 * n div 256 ^ i) :: byte)"
    by (simp add: unsigned_ucast_eq unsigned_of_nat)
qed

lemma sha_message_pad:
  assumes "8 * length p \<le> UINT64_MAX"
  shows "sha_message p = sha_pad p"
proof -
  define n z where "n = length p" and "z = (119 - n mod 64) mod 64"
  have tot: "sha_total n = n + 9 + z" using assms sha_total_eq [of n] pad_arith [of n] by (simp add: n_def z_def)
  define m where "m = (p @ drop n (replicate (n + 9 + z) 0))[n := 0x80 :: byte]"
  have m: "m = p @ 0x80 # replicate (8 + z) 0"
    using replicate_Suc [of "8 + z" "0 :: byte"] by (simp add: m_def n_def list_update_append)
  have msg: "sha_message p = sha_length_bytes 8 (n + 9 + z) (of_nat n * 8) m"
    by (simp add: sha_message_def Let_def tot m_def flip: n_def)
  have pad: "sha_pad p = p @ 0x80 # replicate z 0 @ map (\<lambda>i. of_nat (8 * n div 256 ^ (7 - i))) [0..<8]"
    by (simp add: sha_pad_def n_def z_def)
  have lm: "length m = n + 9 + z" by (simp add: m n_def)
  show ?thesis
  proof (rule nth_equalityI)
    show "length (sha_message p) = length (sha_pad p)" by (simp add: msg lm pad n_def)
    fix i assume "i < length (sha_message p)"
    then have i: "i < n + 9 + z" by (simp add: msg lm)
    show "sha_message p ! i = sha_pad p ! i"
    proof (cases "n + 1 + z \<le> i")
      case True
      then obtain q where q: "i = n + 1 + z + q" "q < 8" 
        using i by (intro that [of "i - (n + 1 + z)"]) simp_all
      have "sha_pad p ! i = of_nat (8 * n div 256 ^ (7 - q))"
        using q by (simp add: pad nth_append n_def)
      moreover have "n + 9 + z - 1 - i = 7 - q" using q by simp
      ultimately show ?thesis
        using sha_length_bytes_nth [OF lm, of 8 i "of_nat n * 8"] q i
          ucast_drop_bit_of_nat [of n "7 - q"] assms by (simp add: msg n_def)
    next
      case False
      then have "sha_message p ! i = m ! i"
        using sha_length_bytes_nth [OF lm, of 8 i "of_nat n * 8"] i by (simp add: msg)
      also have "m ! i = sha_pad p ! i"
        using False by (auto simp: m pad nth_append n_def nth_Cons')
      finally show ?thesis .
    qed
  qed
qed

section \<open>Blocks\<close>

lemma sha_word_take: "i + 4 \<le> 64 \<Longrightarrow> sha_word (take 64 (drop off s)) i = sha_word s (off + i)" if "off + 64 \<le> length s"
  using that by (simp add: sha_word_def add.assoc)

lemma sha_block_take: "off + 64 \<le> length s \<Longrightarrow> sha_block (take 64 (drop off s)) 0 h = sha_block s off h"
proof -
  assume "off + 64 \<le> length s"
  then have "map (\<lambda>i. sha_word (take 64 (drop off s)) (0 + 4 * i)) [0..<16] = map (\<lambda>i. sha_word s (off + 4 * i)) [0..<16]"
    by (intro map_cong refl) (simp add: sha_word_take)
  then show ?thesis unfolding sha_block_def by (simp only:)
qed

lemma sha_blocks_chunks:
  "off + 64 * k = length s \<Longrightarrow>
     sha_blocks s (length s) off h = foldl (\<lambda>h b. sha_block b 0 h) h (sha_chunks k (drop off s))"
proof (induction k arbitrary: off h)
  case 0
  then show ?case by (simp add: sha_blocks.simps)
next
  case (Suc k)
  then have "sha_blocks s (length s) off h = sha_blocks s (length s) (off + 64) (sha_block s off h)"
    by (simp add: sha_blocks.simps [of s "length s" off])
  also have "\<dots> = foldl (\<lambda>h b. sha_block b 0 h) (sha_block s off h) (sha_chunks k (drop (off + 64) s))"
    by (rule Suc.IH) (use Suc.prems in simp)
  finally show ?case using Suc.prems by (simp add: sha_block_take add.commute)
qed

lemma dg_sha256_spec:
  assumes "8 * length p \<le> UINT64_MAX"
  shows "dg_sha256 p = sha_spec p"
proof -
  have "sha_total (length p) = length (sha_pad p)"
    using assms by (simp add: sha_total_eq sha_pad_length)
  with sha_blocks_chunks [of 0 "length (sha_pad p) div 64" "sha_pad p" sha_h0] show ?thesis
    by (simp add: dg_sha256_def sha_spec_def sha_message_pad [OF assms] sha_pad_length)
qed

section \<open>Properties\<close>

text \<open>
  C14. For every message whose length in bits fits 64 bits, the digest is that of the standard's
  scheme: the code's buffer holds exactly the message, one 1 bit, zeros and the big-endian bit
  length, and its loop folds the compression function over the 64-byte blocks of it.
\<close>

theorem dg_sha256_standard:
  assumes "8 * length p \<le> UINT64_MAX"
  shows "sha_message p = sha_pad p \<and> 64 dvd length (sha_pad p) \<and> dg_sha256 p = sha_spec p"
  using sha_message_pad [OF assms] dg_sha256_spec [OF assms] by (simp add: sha_pad_length)

theorem dg_sha256_standard_witness:
  "sha_message (str ''abc'') = sha_pad (str ''abc'') \<and> 64 dvd length (sha_pad (str ''abc'')) \<and>
     dg_sha256 (str ''abc'') = sha_spec (str ''abc'')"
  by (rule dg_sha256_standard) simp

end
