(* ===== verification/Questions.thy ===== *)
theory Questions
  imports Sizes Format JsonSafe Bpe Sha256
begin

text \<open>
  The questions of a request (\<open>src/decision.inc\<close>): reading a request or its parts
  (\<open>DGRequest\<close>), the candidate labels that are one token long, the questions with their
  candidates and labels (\<open>DecisionWork\<close>), the system prompt, the answer template, and the check
  of a session's schema.

  A question keeps its candidates and labels as lists, so \<open>nc\<close> is their length; \<open>prob\<close> is filled
  in later (theory \<open>Job\<close>) and is left out here. Where the C copies a string into memory of its own
  the model keeps the bytes.
\<close>

section \<open>Children of a token\<close>

text \<open>The key tokens of an object; \<open>n\<close> of at most \<open>mx\<close> have been stored.\<close>

function direct_keys :: "JTok list \<Rightarrow> int \<Rightarrow> nat \<Rightarrow> nat \<Rightarrow> nat \<Rightarrow> nat list result" where
  "direct_keys t obj mx n i =
     (if i < length t then
        if jt_parent (t ! i) < obj then Inr []
        else if jt_parent (t ! i) = obj \<and> jt_type (t ! i) = JT_STRING then
          (if n = mx then die ''too many JSON object entries''
           else bindE (direct_keys t obj mx (Suc n) (Suc (Suc i))) (\<lambda>ks. Inr (i # ks)))
        else direct_keys t obj mx n (Suc i)
      else Inr [])"
  by pat_completeness auto
termination
  by (relation "measure (\<lambda>(t, obj, mx, n, i). length t - i)") auto

declare direct_keys.simps [simp del]

text \<open>The \<open>i\<close>-th child of the array \<open>cr\<close> among the tokens from \<open>z\<close> on, of which \<open>zc\<close> are passed.\<close>

function dg_child :: "JTok list \<Rightarrow> int \<Rightarrow> nat \<Rightarrow> nat \<Rightarrow> nat \<Rightarrow> nat option" where
  "dg_child t cr i zc z =
     (if z < length t then
        if jt_parent (t ! z) = cr then if zc = i then Some z else dg_child t cr i (Suc zc) (Suc z)
        else dg_child t cr i zc (Suc z)
      else None)"
  by pat_completeness auto
termination
  by (relation "measure (\<lambda>(t, cr, i, zc, z). length t - z)") auto

declare dg_child.simps [simp del]

text \<open>The candidates of a score: one number for each child of the array \<open>cr\<close>.\<close>

fun dg_score_candidates :: "JTok list \<Rightarrow> int \<Rightarrow> nat \<Rightarrow> bytes list result" where
  "dg_score_candidates [] cr nc = Inr []"
| "dg_score_candidates (z # zs) cr nc =
     (if jt_parent z = cr then
        if nc \<ge> DG_MAX_SCORE then die ''decision candidate count out of range''
        else bindE (dg_score_candidates zs cr (Suc nc)) (\<lambda>cs. Inr (decimal nc # cs))
      else dg_score_candidates zs cr nc)"

section \<open>Labels\<close>

text \<open>The candidate labels: A to Z, a to z, then AA, AB and so on.\<close>

definition dg_choice_candidate :: "nat \<Rightarrow> bytes" where
  "dg_choice_candidate ci =
     (if ci < 26 then [of_nat (65 + ci)]
      else if ci < 52 then [of_nat (97 + (ci - 26))]
      else let j = ci - 52 in [of_nat (65 + j div 26), of_nat (65 + j mod 26)])"

text \<open>A label is taken when it changes the last token of the template and nothing else.\<close>

definition dg_label_ok :: "int list \<Rightarrow> int list \<Rightarrow> int list \<Rightarrow> bool" where
  "dg_label_ok base e seen \<longleftrightarrow>
     length e = length base \<and> length e > 0 \<and>
     list_all (\<lambda>i. e ! i = base ! i) [0..<length e - 1] \<and> e ! (length e - 1) \<notin> set seen"

function dg_choice_loop ::
  "DGTokenizer \<Rightarrow> int list \<Rightarrow> nat \<Rightarrow> int list \<Rightarrow> bytes list \<Rightarrow> bytes list result" where
  "dg_choice_loop tok base ci seen out =
     (if ci < 728 \<and> length out < DG_CHOICE_LABELS then
        let label = dg_choice_candidate ci in
        bindE (dgt_tokenize tok (str ''q1: '' @ label)) (\<lambda>e.
          if dg_label_ok base e seen
          then dg_choice_loop tok base (Suc ci) (seen @ [e ! (length e - 1)]) (out @ [label])
          else dg_choice_loop tok base (Suc ci) seen out)
      else Inr out)"
  by pat_completeness auto
termination
  by (relation "measure (\<lambda>(tok, base, ci, seen, out). 728 - ci)") auto

declare dg_choice_loop.simps [simp del]

definition dg_choice_inventory :: "DGTokenizer \<Rightarrow> bytes list result" where
  "dg_choice_inventory tok =
     bindE (dgt_tokenize tok (str ''q1: A'')) (\<lambda>base. dg_choice_loop tok base 0 [] [])"

definition dg_decision_label :: "bytes \<Rightarrow> nat \<Rightarrow> bytes list \<Rightarrow> bytes result" where
  "dg_decision_label kind i choice =
     (if kind = str ''noul'' then Inr (if i \<noteq> 0 then str ''no'' else str ''yes'')
      else if kind = str ''score'' then Inr (decimal i)
      else rd choice i)"

section \<open>Requests\<close>

record DGRequest =
  rq_j :: bytes
  rq_qj :: bytes
  rq_t :: "JTok list"
  rq_qt :: "JTok list"
  rq_si :: nat
  rq_qroot :: nat
  rq_requested :: nat
  rq_separate :: bool
  rq_state :: bytes
  rq_reqid :: "bytes option"
  rq_qowned :: "bytes option"

text \<open>The text of a state: a string's own bytes, or the canonical JSON of any other value.\<close>

definition dg_state_text :: "bytes \<Rightarrow> JTok list \<Rightarrow> nat \<Rightarrow> bytes result" where
  "dg_state_text j t si =
     (if jt_type (t ! si) = JT_STRING then jt_string j (t ! si) else dg_json_canonical j t si False False)"

definition dg_optional_int :: "bytes \<Rightarrow> JTok list \<Rightarrow> int \<Rightarrow> string \<Rightarrow> nat \<Rightarrow> nat result" where
  "dg_optional_int j t i name dflt =
     (if i \<ge> 0 \<and> \<not> jt_literal j (t ! nat i) (str ''null'')
      then jt_nonnegative_int j (t ! nat i) (str name) else Inr dflt)"

definition dg_request_parse :: "bytes \<Rightarrow> nat \<Rightarrow> DGRequest result" where
  "dg_request_parse j len =
     bindE (json_tokens j len) (\<lambda>t.
     if t = [] \<or> jt_type (t ! 0) \<noteq> JT_OBJECT then die ''System One request must be an object''
     else
       bindE (jt_obj_get j t 0 (str ''state'')) (\<lambda>si.
       bindE (jt_obj_get j t 0 (str ''questions'')) (\<lambda>qi.
       bindE (jt_obj_get j t 0 (str ''id'')) (\<lambda>ii.
       bindE (jt_obj_get j t 0 (str ''samples'')) (\<lambda>sti.
       bindE (jt_obj_get j t 0 (str ''steps'')) (\<lambda>dpi.
       let has_samples = sti \<ge> 0 \<and> \<not> jt_literal j (t ! nat sti) (str ''null'') in
       bindE (dg_optional_int j t sti ''samples'' 0) (\<lambda>requested.
       bindE (dg_optional_int j t dpi ''steps'' 1) (\<lambda>steps.
       if has_samples \<and> (requested < 1 \<or> requested > 32) then die ''samples must be 1..32''
       else if steps \<noteq> 1 then die ''only one-step DiffusionGemma reads are supported''
       else if si < 0 \<or> qi < 0 \<or> (jt_type (t ! nat qi) \<noteq> JT_OBJECT \<and> jt_type (t ! nat qi) \<noteq> JT_STRING)
       then die ''request needs state and questions object''
       else
         bindE (dg_state_text j t (nat si)) (\<lambda>state.
         bindE (if ii \<ge> 0 then bindE (jt_string j (t ! nat ii)) (\<lambda>z. Inr (Some z)) else Inr None) (\<lambda>reqid.
         let r = \<lparr>rq_j = j, rq_qj = j, rq_t = t, rq_qt = t, rq_si = nat si, rq_qroot = nat qi,
                  rq_requested = requested, rq_separate = False, rq_state = state, rq_reqid = reqid,
                  rq_qowned = None\<rparr> in
         if jt_type (t ! nat qi) = JT_STRING then
           bindE (jt_string j (t ! nat qi)) (\<lambda>owned.
           bindE (json_tokens owned (length owned)) (\<lambda>qt.
             if qt = [] \<or> jt_type (qt ! 0) \<noteq> JT_OBJECT then die ''questions string is not a JSON object''
             else Inr (r\<lparr>rq_qj := owned, rq_qt := qt, rq_qroot := 0, rq_qowned := Some owned\<rparr>)))
         else Inr r))))))))))"

definition dg_request_parts ::
  "bytes \<Rightarrow> nat \<Rightarrow> bytes \<Rightarrow> bytes \<Rightarrow> nat \<Rightarrow> nat \<Rightarrow> DGRequest result" where
  "dg_request_parts state_json state_length ident questions_json questions_length samples =
     (if samples > 32 then die ''samples must be 1..32''
      else
        bindE (json_tokens state_json state_length) (\<lambda>t.
        if t = [] \<or> jt_parent (t ! 0) \<noteq> -1 then die ''state_json must contain exactly one JSON value''
        else
          bindE (dg_state_text state_json t 0) (\<lambda>state.
          bindE (json_tokens questions_json questions_length) (\<lambda>qt.
          if qt = [] \<or> jt_type (qt ! 0) \<noteq> JT_OBJECT then die ''session schema must be a JSON object''
          else Inr \<lparr>rq_j = state_json, rq_qj = questions_json, rq_t = t, rq_qt = qt, rq_si = 0, rq_qroot = 0,
                     rq_requested = samples, rq_separate = True, rq_state = state,
                     rq_reqid = (if length ident > 0 then Some ident else None), rq_qowned = None\<rparr>))))"

text \<open>The seed of the canvases: the first four bytes of the digest of state and questions.\<close>

definition dg_seed_json :: "DGRequest \<Rightarrow> bytes result" where
  "dg_seed_json r =
     bindE (db_ch db_empty 91) (\<lambda>b.
     bindE (dg_json b (rq_j r) (rq_t r) (rq_si r) True True) (\<lambda>b.
     bindE (db_mem b (str '', '')) (\<lambda>b.
     bindE (dg_json b (rq_qj r) (rq_qt r) (rq_qroot r) True True) (\<lambda>b.
     bindE (db_ch b 93) (\<lambda>b. Inr (db_p b))))))"

definition dg_request_seed :: "DGRequest \<Rightarrow> u32 result" where
  "dg_request_seed r =
     bindE (dg_seed_json r) (\<lambda>seed_json.
       let digest = dg_sha256 seed_json in
       Inr (push_bit 24 (ucast (digest ! 0)) OR push_bit 16 (ucast (digest ! 1)) OR
            push_bit 8 (ucast (digest ! 2)) OR ucast (digest ! 3)))"

section \<open>Questions\<close>

record DecisionWork =
  dw_key :: nat
  dw_criteria :: int
  dw_kind :: bytes
  dw_cand :: "bytes list"
  dw_label :: "bytes list"

abbreviation dw_nc :: "DecisionWork \<Rightarrow> nat" where
  "dw_nc d \<equiv> length (dw_cand d)"

fun dg_strings :: "bytes \<Rightarrow> JTok list \<Rightarrow> nat list \<Rightarrow> bytes list result" where
  "dg_strings j t [] = Inr []"
| "dg_strings j t (k # ks) = bindE (jt_string j (t ! k)) (\<lambda>z. bindE (dg_strings j t ks) (\<lambda>zs. Inr (z # zs)))"

definition dg_candidates :: "bytes \<Rightarrow> JTok list \<Rightarrow> bytes \<Rightarrow> int \<Rightarrow> bytes list result" where
  "dg_candidates qj qt kind criteria =
     (if kind = str ''noul'' then Inr [str ''true'', str ''false'']
      else if kind = str ''choice'' then
        (if criteria < 0 \<or> jt_type (qt ! nat criteria) \<noteq> JT_OBJECT then die ''choice needs criteria object''
         else bindE (direct_keys qt criteria JB_MAX_CAND 0 (Suc (nat criteria))) (dg_strings qj qt))
      else if kind = str ''score'' then
        (if criteria < 0 \<or> jt_type (qt ! nat criteria) \<noteq> JT_ARRAY then die ''score needs criteria array''
         else dg_score_candidates (drop (Suc (nat criteria)) qt) criteria 0)
      else die ''unknown question type'')"

fun dg_labels :: "bytes \<Rightarrow> bytes list \<Rightarrow> nat list \<Rightarrow> bytes list result" where
  "dg_labels kind choice [] = Inr []"
| "dg_labels kind choice (i # is) =
     bindE (dg_decision_label kind i choice) (\<lambda>z. bindE (dg_labels kind choice is) (\<lambda>zs. Inr (z # zs)))"

definition dg_question :: "bytes \<Rightarrow> JTok list \<Rightarrow> bytes list \<Rightarrow> nat \<Rightarrow> DecisionWork result" where
  "dg_question qj qt choice key =
     (let qo = int (Suc key) in
      bindE (jt_obj_get qj qt qo (str ''type'')) (\<lambda>ty.
      bindE (jt_obj_get qj qt qo (str ''criteria'')) (\<lambda>criteria.
      if ty < 0 then die ''question missing type''
      else
        bindE (jt_string qj (qt ! nat ty)) (\<lambda>kind.
        bindE (dg_candidates qj qt kind criteria) (\<lambda>cand.
        if length cand < 2 \<or> length cand > DG_CHOICE_LABELS \<or> (kind = str ''score'' \<and> length cand > DG_MAX_SCORE)
        then die ''decision candidate count out of range''
        else bindE (dg_labels kind choice [0..<length cand]) (\<lambda>label.
          Inr \<lparr>dw_key = key, dw_criteria = criteria, dw_kind = kind, dw_cand = cand, dw_label = label\<rparr>))))))"

fun dg_question_list :: "bytes \<Rightarrow> JTok list \<Rightarrow> bytes list \<Rightarrow> nat list \<Rightarrow> DecisionWork list result" where
  "dg_question_list qj qt choice [] = Inr []"
| "dg_question_list qj qt choice (k # ks) =
     bindE (dg_question qj qt choice k) (\<lambda>d. bindE (dg_question_list qj qt choice ks) (\<lambda>ds. Inr (d # ds)))"

definition dg_questions :: "DGRequest \<Rightarrow> bytes list \<Rightarrow> DecisionWork list result" where
  "dg_questions r choice =
     bindE (direct_keys (rq_qt r) (int (rq_qroot r)) DG_MAX_QUESTIONS 0 (Suc (rq_qroot r))) (\<lambda>keys.
     if length keys < 1 \<or> length keys > DG_MAX_QUESTIONS then die ''questions must contain 1..1024 entries''
     else if rq_requested r = 0 \<and> length keys > DG_AUTO_READ_MAX_QUESTIONS
     then die ''automatic reads support at most 128 questions; set samples''
     else dg_question_list (rq_qj r) (rq_qt r) choice keys)"

section \<open>The prompt\<close>

definition dg_instruction :: "bytes \<Rightarrow> JTok list \<Rightarrow> int \<Rightarrow> bytes result" where
  "dg_instruction j t qo =
     bindE (jt_obj_get j t qo (str ''instructions'')) (\<lambda>i.
       if i < 0 then Inr (str ''Answer about the state.'') else dg_text_of j t (nat i))"

definition dg_description :: "bytes \<Rightarrow> JTok list \<Rightarrow> DecisionWork \<Rightarrow> nat \<Rightarrow> bytes option result" where
  "dg_description qj qt w i =
     (let cr = dw_criteria w in
      if cr \<ge> 0 \<and> jt_type (qt ! nat cr) = JT_OBJECT then
        bindE (jt_obj_get qj qt cr (dw_cand w ! i)) (\<lambda>z.
          if z \<ge> 0 then bindE (dg_text_of qj qt (nat z)) (\<lambda>d. Inr (Some d)) else Inr None)
      else if cr \<ge> 0 \<and> jt_type (qt ! nat cr) = JT_ARRAY then
        (case dg_child qt cr i 0 (Suc (nat cr)) of
           Some z \<Rightarrow> bindE (dg_text_of qj qt z) (\<lambda>d. Inr (Some d))
         | None \<Rightarrow> Inr None)
      else Inr None)"

definition dg_label_line :: "DecisionWork \<Rightarrow> nat \<Rightarrow> bytes option \<Rightarrow> bytes" where
  "dg_label_line w i desc =
     (let label = dw_label w ! i; cand = dw_cand w ! i; text = (case desc of Some d \<Rightarrow> d | None \<Rightarrow> []) in
      if dw_kind w = str ''noul'' then
        if text \<noteq> [] then str ''  '' @ label @ str '': '' @ text @ [10] else str ''  '' @ label @ [10]
      else if dw_kind w = str ''score'' then str ''  '' @ label @ str '': '' @ text @ [10]
      else if text \<noteq> [] then str ''  '' @ label @ str '': '' @ cand @ str '' ('' @ text @ str '')'' @ [10]
      else str ''  '' @ label @ str '': '' @ cand @ [10])"

fun dg_prompt_labels :: "bytes \<Rightarrow> JTok list \<Rightarrow> DecisionWork \<Rightarrow> nat list \<Rightarrow> DGBuf \<Rightarrow> DGBuf result" where
  "dg_prompt_labels qj qt w [] b = Inr b"
| "dg_prompt_labels qj qt w (i # is) b =
     bindE (dg_description qj qt w i) (\<lambda>desc.
     bindE (db_fmt b (dg_label_line w i desc)) (\<lambda>b. dg_prompt_labels qj qt w is b))"

fun dg_prompt_questions :: "bytes \<Rightarrow> JTok list \<Rightarrow> nat \<Rightarrow> DecisionWork list \<Rightarrow> DGBuf \<Rightarrow> DGBuf result" where
  "dg_prompt_questions qj qt x [] b = Inr b"
| "dg_prompt_questions qj qt x (w # ws) b =
     bindE (dg_instruction qj qt (int (Suc (dw_key w)))) (\<lambda>ins.
     bindE (db_fmt b ([10] @ str ''Question q'' @ decimal (Suc x) @ str '': '' @
              (if ins \<noteq> [] then ins else str ''Answer about the state.'') @ [10])) (\<lambda>b.
     bindE (dg_prompt_labels qj qt w [0..<dw_nc w] b) (\<lambda>b.
       dg_prompt_questions qj qt (Suc x) ws b)))"

definition dg_system_prompt :: "bytes \<Rightarrow> JTok list \<Rightarrow> DecisionWork list \<Rightarrow> bytes result" where
  "dg_system_prompt qj qt w =
     bindE (db_mem db_empty (str ''Answer a fixed set of questions about the state the user provides. Each question lists its allowed answers; reply with exactly one label per question.'' @ [10])) (\<lambda>b.
     bindE (dg_prompt_questions qj qt 0 w b) (\<lambda>b.
     bindE (db_fmt b ([10] @
         (if length w \<le> 10
          then str ''Reply with one line per question, in this order, formatted as '' @ [34] @ str ''id: label'' @ [34] @ str ''.''
          else str ''Reply on one line with each question's id immediately followed by its label, separated by single spaces.''))) (\<lambda>b.
       Inr (db_p b))))"

section \<open>The answer template\<close>

function dg_answer_loop :: "DecisionWork list \<Rightarrow> nat \<Rightarrow> nat \<Rightarrow> nat list \<Rightarrow> nat \<Rightarrow> nat \<Rightarrow> DGBuf \<Rightarrow> DGBuf result" where
  "dg_answer_loop w nq start pick z cnt b =
     (if z < cnt then
        bindE (if z \<noteq> 0 then db_ch b (if nq \<le> 10 then 10 else 32) else Inr b) (\<lambda>b.
        bindE (rd w (start + z)) (\<lambda>d. bindE (rd pick (start + z)) (\<lambda>p. bindE (rd (dw_label d) p) (\<lambda>label.
        bindE (db_fmt b (str ''q'' @ decimal (start + z + 1) @ (if nq \<le> 10 then str '': '' else []) @ label)) (\<lambda>b.
          dg_answer_loop w nq start pick (Suc z) cnt b)))))
      else Inr b)"
  by pat_completeness auto
termination
  by (relation "measure (\<lambda>(w, nq, start, pick, z, cnt, b). cnt - z)") auto

declare dg_answer_loop.simps [simp del]

definition dg_answer_text_range :: "DecisionWork list \<Rightarrow> nat \<Rightarrow> nat \<Rightarrow> nat \<Rightarrow> nat list \<Rightarrow> bytes result" where
  "dg_answer_text_range w nq start cnt pick =
     bindE (db_mem db_empty []) (\<lambda>b.
     bindE (dg_answer_loop w nq start pick 0 cnt b) (\<lambda>b. Inr (db_p b)))"

definition dg_template_head :: bytes where
  "dg_template_head = str ''<|channel>thought'' @ [10] @ str ''<channel|>''"

definition dg_answer_template_range :: "DecisionWork list \<Rightarrow> nat \<Rightarrow> nat \<Rightarrow> nat \<Rightarrow> nat list \<Rightarrow> bytes result" where
  "dg_answer_template_range w nq start cnt pick =
     bindE (dg_answer_text_range w nq start cnt pick) (\<lambda>a.
     bindE (db_fmt db_empty (dg_template_head @ a)) (\<lambda>b. Inr (db_p b)))"

section \<open>Checking a session's schema\<close>

definition dg_prefix_text :: "bytes \<Rightarrow> bytes result" where
  "dg_prefix_text sys =
     bindE (db_fmt db_empty (str ''<bos><|turn>system'' @ [10] @ sys @ str ''<turn|>'' @ [10] @ str ''<|turn>user'' @ [10]))
       (\<lambda>b. Inr (db_p b))"

definition dg_schema_validate :: "DGTokenizer \<Rightarrow> bytes \<Rightarrow> nat \<Rightarrow> unit result" where
  "dg_schema_validate tok json len =
     bindE (json_tokens json len) (\<lambda>qt.
     if qt = [] \<or> jt_type (qt ! 0) \<noteq> JT_OBJECT then die ''session schema must be a JSON object''
     else
       let r = \<lparr>rq_j = [], rq_qj = json, rq_t = [], rq_qt = qt, rq_si = 0, rq_qroot = 0, rq_requested = 1,
                rq_separate = False, rq_state = [], rq_reqid = None, rq_qowned = None\<rparr> in
       bindE (dg_questions r (map dg_choice_candidate [0..<DG_CHOICE_LABELS])) (\<lambda>_.
       bindE (dg_choice_inventory tok) (\<lambda>labels.
       if length labels \<noteq> DG_CHOICE_LABELS then die ''cannot construct OpenJev choice labels''
       else
         bindE (dg_questions r labels) (\<lambda>work.
         bindE (dg_system_prompt json qt work) (\<lambda>sys.
         bindE (dg_prefix_text sys) (\<lambda>prefix.
         bindE (dgt_tokenize tok prefix) (\<lambda>tokens.
           if length tokens > JB_MAX_CTX then die ''session schema exceeds DiffusionGemma context''
           else Inr ())))))))"

end
