(* ===== verification/Mersenne.thy ===== *)
theory Mersenne
  imports Sizes
begin

text \<open>
  The random canvas of a decision: the Mersenne Twister of \<open>src/model.inc\<close> (\<open>DGMT\<close>, seeded
  from one 32-bit key) and the draw of a vocabulary id by rejection. The generator rewrites its
  624 words in place, each from two words that are still old or already new; the lemmas show
  that this is the linear recurrence \<open>mt_seq\<close>, and that the \<open>k\<close>-th draw is the tempered
  \<open>k\<close>-th term of it.
\<close>

section \<open>The generator\<close>

record DGMT =
  mt :: "u32 list"
  mt_at :: nat

text \<open>The first loop: \<open>n\<close> words after the word \<open>w\<close> at index \<open>i - 1\<close>.\<close>

fun mt_fill :: "nat \<Rightarrow> nat \<Rightarrow> u32 \<Rightarrow> u32 list" where
  "mt_fill i 0 w = [w]"
| "mt_fill i (Suc n) w =
     w # mt_fill (Suc i) n (1812433253 * (w XOR drop_bit 30 w) + of_nat i)"

text \<open>One round of the two mixing loops, at index \<open>i\<close>, and the step to the next index.\<close>

definition mt_mix :: "u32 \<Rightarrow> (u32 \<Rightarrow> nat \<Rightarrow> u32) \<Rightarrow> u32 list \<times> nat \<Rightarrow> u32 list \<times> nat" where
  "mt_mix k post = (\<lambda>(m, i).
     let p = m ! (i - 1);
         m = m[i := post ((m ! i) XOR ((p XOR drop_bit 30 p) * k)) i];
         i = Suc i
     in if i \<ge> 624 then (m[0 := m ! 623], 1) else (m, i))"

definition dg_mt_seed :: "u32 \<Rightarrow> DGMT" where
  "dg_mt_seed seed =
     (let s = (mt_fill 1 623 19650218, 1);
          s = (mt_mix 1664525 (\<lambda>x i. x + seed) ^^ 624) s;
          s = (mt_mix 1566083941 (\<lambda>x i. x - of_nat i) ^^ 623) s
      in \<lparr>mt = (fst s)[0 := 0x80000000], mt_at = 624\<rparr>)"

definition mt_twist :: "u32 \<Rightarrow> u32 \<Rightarrow> u32 \<Rightarrow> u32" where
  "mt_twist a b c =
     (let y = (a AND 0x80000000) OR (b AND 0x7fffffff)
      in c XOR drop_bit 1 y XOR (if y AND 1 \<noteq> 0 then 0x9908b0df else 0))"

text \<open>The loop that makes the next 624 words, in place, up to the index \<open>n\<close>.\<close>

fun mt_generate :: "nat \<Rightarrow> u32 list \<Rightarrow> u32 list" where
  "mt_generate 0 m = m"
| "mt_generate (Suc i) m =
     (let m = mt_generate i m
      in m[i := mt_twist (m ! i) (m ! ((i + 1) mod 624)) (m ! ((i + 397) mod 624))])"

definition mt_temper :: "u32 \<Rightarrow> u32" where
  "mt_temper y =
     (let y = y XOR drop_bit 11 y;
          y = y XOR (push_bit 7 y AND 0x9d2c5680);
          y = y XOR (push_bit 15 y AND 0xefc60000)
      in y XOR drop_bit 18 y)"

definition dg_mt_u32 :: "DGMT \<Rightarrow> u32 \<times> DGMT" where
  "dg_mt_u32 r =
     (let r = (if mt_at r \<ge> 624 then \<lparr>mt = mt_generate 624 (mt r), mt_at = 0\<rparr> else r)
      in (mt_temper (mt r ! mt_at r), r\<lparr>mt_at := Suc (mt_at r)\<rparr>))"

text \<open>The rejection loop, with the number of draws it may make.\<close>

fun dg_mt_vocab :: "nat \<Rightarrow> DGMT \<Rightarrow> (nat \<times> DGMT) result" where
  "dg_mt_vocab 0 r = Inl OutOfFuel"
| "dg_mt_vocab (Suc fuel) r =
     (let (x, r) = dg_mt_u32 r; x = unat (drop_bit 13 x)
      in if x \<ge> DG_VOCAB then dg_mt_vocab fuel r else Inr (x, r))"

section \<open>The state after seeding\<close>

lemma length_mt_fill [simp]: "length (mt_fill i n w) = Suc n"
  by (induction i n w rule: mt_fill.induct) simp_all

lemma mt_mix_ok:
  "length m = 624 \<Longrightarrow> 1 \<le> i \<Longrightarrow> i < 624 \<Longrightarrow> mt_mix k p (m, i) = (m', i') \<Longrightarrow>
     length m' = 624 \<and> 1 \<le> i' \<and> i' < 624"
  by (auto simp: mt_mix_def Let_def split: if_splits)

lemma mt_mix_iter_ok:
  "length (fst s) = 624 \<and> 1 \<le> snd s \<and> snd s < 624 \<Longrightarrow>
     length (fst ((mt_mix k p ^^ n) s)) = 624 \<and> 1 \<le> snd ((mt_mix k p ^^ n) s) \<and>
     snd ((mt_mix k p ^^ n) s) < 624"
proof (induction n)
  case (Suc n)
  obtain m i where "(mt_mix k p ^^ n) s = (m, i)" by fastforce
  moreover obtain m' i' where "mt_mix k p (m, i) = (m', i')" by fastforce
  ultimately show ?case using Suc mt_mix_ok [of m i k p m' i'] by simp
qed simp

lemma dg_mt_seed_ok: "length (mt (dg_mt_seed s)) = 624" "mt_at (dg_mt_seed s) = 624"
  "mt (dg_mt_seed s) ! 0 = 0x80000000"
  using mt_mix_iter_ok [of "(mt_mix 1664525 (\<lambda>x i. x + s) ^^ 624) (mt_fill 1 623 19650218, 1)"
      623 1566083941 "\<lambda>x i. x - of_nat i"]
    mt_mix_iter_ok [of "(mt_fill 1 623 19650218, 1)" 624 1664525 "\<lambda>x i. x + s"]
  by (simp_all add: dg_mt_seed_def Let_def)

section \<open>The recurrence\<close>

text \<open>The sequence that starts with the words of a state.\<close>

function mt_seq :: "u32 list \<Rightarrow> nat \<Rightarrow> u32" where
  "mt_seq m i =
     (if i < 624 then m ! i
      else mt_twist (mt_seq m (i - 624)) (mt_seq m (i - 623)) (mt_seq m (i - 227)))"
  by pat_completeness auto
termination
  by (relation "measure snd") auto

declare mt_seq.simps [simp del]

lemma mt_seq_old: "i < 624 \<Longrightarrow> mt_seq m i = m ! i"
  by (simp add: mt_seq.simps)

lemma mt_seq_new:
  "mt_seq m (624 + i) = mt_twist (mt_seq m i) (mt_seq m (i + 1)) (mt_seq m (i + 397))"
  by (subst mt_seq.simps) (simp add: add.commute)

lemma mt_generate_nth:
  "length m = 624 \<Longrightarrow> n \<le> 624 \<Longrightarrow> length (mt_generate n m) = 624 \<and>
     (\<forall>j < 624. mt_generate n m ! j = mt_seq m (if j < n then 624 + j else j))"
proof (induction n)
  case (Suc i)
  let ?m = "mt_generate i m"
  have l: "length ?m = 624" and n: "\<And>j. j < 624 \<Longrightarrow> ?m ! j = mt_seq m (if j < i then 624 + j else j)"
    using Suc by auto
  have i: "i < 624" using Suc.prems by simp
  have "?m ! ((i + 1) mod 624) = mt_seq m (i + 1)"
  proof (cases "i = 623")
    case False
    with i n [of "i + 1"] show ?thesis by simp
  qed (use n [of 0] in simp)
  moreover have "?m ! ((i + 397) mod 624) = mt_seq m (i + 397)"
  proof (cases "i < 227")
    case True
    then show ?thesis using n [of "i + 397"] by simp
  next
    case False
    with i have j: "(i + 397) mod 624 = i - 227" "i - 227 < i" "624 + (i - 227) = i + 397"
      by (simp_all add: mod_if)
    with i show ?thesis using n [of "i - 227"] by (simp add: add.commute)
  qed
  moreover have "?m ! i = mt_seq m i" using n [of i] i by simp
  ultimately have "mt_twist (?m ! i) (?m ! ((i + 1) mod 624)) (?m ! ((i + 397) mod 624)) = mt_seq m (624 + i)"
    by (simp add: mt_seq_new)
  then show ?case using l n i by (auto simp: Let_def nth_list_update less_Suc_eq)
qed (simp add: mt_seq_old)

lemma mt_generate_seq:
  assumes "length m = 624"
  shows "mt_seq (mt_generate 624 m) i = mt_seq m (624 + i)"
proof (induction i rule: less_induct)
  case (less i)
  show ?case
  proof (cases "i < 624")
    case True
    then show ?thesis using mt_generate_nth [OF assms, of 624] by (simp add: mt_seq_old)
  next
    case False
    then obtain k where k: "i = 624 + k" by (metis le_Suc_ex linorder_not_less)
    show ?thesis unfolding k mt_seq_new [of m "624 + k"] mt_seq_new [of "mt_generate 624 m" k]
      using less [of k] less [of "k + 1"] less [of "k + 397"] by (simp add: k add.assoc)
  qed
qed

section \<open>The stream of draws\<close>

fun mt_draws :: "nat \<Rightarrow> DGMT \<Rightarrow> u32 list" where
  "mt_draws 0 r = []"
| "mt_draws (Suc n) r = (let (x, r) = dg_mt_u32 r in x # mt_draws n r)"

text \<open>A state whose next draw is the term \<open>k\<close> of the sequence of \<open>m\<close>.\<close>

definition mt_state :: "u32 list \<Rightarrow> nat \<Rightarrow> DGMT \<Rightarrow> bool" where
  "mt_state m k r \<longleftrightarrow> length (mt r) = 624 \<and> mt_at r \<le> 624 \<and>
     (\<forall>i. mt_seq (mt r) (mt_at r + i) = mt_seq m (k + i))"

lemma mt_state_step:
  assumes "mt_state m k r"
  shows "fst (dg_mt_u32 r) = mt_temper (mt_seq m k)" "mt_state m (Suc k) (snd (dg_mt_u32 r))"
proof -
  define q where "q = (if mt_at r \<ge> 624 then \<lparr>mt = mt_generate 624 (mt r), mt_at = 0\<rparr> else r)"
  have l: "length (mt r) = 624" using assms by (simp add: mt_state_def)
  have q: "length (mt q) = 624" "mt_at q < 624" "\<And>i. mt_seq (mt q) (mt_at q + i) = mt_seq m (k + i)"
    using assms mt_generate_nth [OF l, of 624] mt_generate_seq [OF l]
    by (auto simp: q_def mt_state_def)
  have d: "dg_mt_u32 r = (mt_temper (mt q ! mt_at q), q\<lparr>mt_at := Suc (mt_at q)\<rparr>)"
    by (simp add: dg_mt_u32_def q_def Let_def)
  have "mt q ! mt_at q = mt_seq m k" using q(3) [of 0] q(2) by (simp add: mt_seq_old)
  with d show "fst (dg_mt_u32 r) = mt_temper (mt_seq m k)" by simp
  show "mt_state m (Suc k) (snd (dg_mt_u32 r))"
    using q(1,2) q(3) [of "Suc i" for i] by (simp add: d mt_state_def)
qed

lemma mt_draws_seq: "mt_state m k r \<Longrightarrow> mt_draws n r = map (\<lambda>i. mt_temper (mt_seq m i)) [k..<k + n]"
proof (induction n arbitrary: k r)
  case (Suc n)
  from mt_state_step [OF Suc.prems] Suc.IH [of "Suc k"] show ?case
    by (simp add: Let_def split_beta upt_conv_Cons del: upt_Suc)
qed simp

lemma mt_state_seed: "mt_state (mt (dg_mt_seed s)) 624 (dg_mt_seed s)"
  using dg_mt_seed_ok [of s] by (simp add: mt_state_def)

text \<open>The rejection loop takes the first draw that is small enough.\<close>

lemma dg_mt_vocab_first:
  assumes "mt_state m k r"
    "unat (drop_bit 13 (mt_temper (mt_seq m (k + d)))) < DG_VOCAB"
    "\<forall>e < d. DG_VOCAB \<le> unat (drop_bit 13 (mt_temper (mt_seq m (k + e))))" "d < fuel"
  shows "\<exists>r'. dg_mt_vocab fuel r = Inr (unat (drop_bit 13 (mt_temper (mt_seq m (k + d)))), r') \<and>
    mt_state m (Suc (k + d)) r'"
  using assms
proof (induction d arbitrary: k r fuel)
  case 0
  then show ?case using mt_state_step [OF 0(1)]
    by (cases fuel) (simp_all add: Let_def split_beta)
next
  case (Suc d)
  then obtain f where f: "fuel = Suc f" by (cases fuel) auto
  have hd: "DG_VOCAB \<le> unat (drop_bit 13 (mt_temper (mt_seq m k)))" using Suc.prems(3) by auto
  have tl: "\<forall>e < d. DG_VOCAB \<le> unat (drop_bit 13 (mt_temper (mt_seq m (Suc k + e))))"
    using Suc.prems(3) by auto
  from mt_state_step [OF Suc.prems(1)] Suc.IH [of "Suc k" "snd (dg_mt_u32 r)" f] tl hd Suc.prems f
  show ?case by (simp add: Let_def split_beta)
qed

lemma dg_mt_vocab_bound: "dg_mt_vocab fuel r = Inr (x, r') \<Longrightarrow> x < DG_VOCAB"
  by (induction fuel arbitrary: r) (auto simp: Let_def split_beta split: if_splits)

lemma mt_state_self: "length (mt r) = 624 \<Longrightarrow> mt_at r \<le> 624 \<Longrightarrow> mt_state (mt r) (mt_at r) r"
  by (simp add: mt_state_def)

section \<open>Properties\<close>

text \<open>
  C12. Rewriting the 624 words in place loses nothing: for every seed and every \<open>n\<close>, the first
  \<open>n\<close> outputs of the generator are the tempered terms of the linear recurrence that starts with
  the seeded words, in order, across every regeneration.
\<close>

theorem dg_mt_stream:
  "mt_draws n (dg_mt_seed s) = map (\<lambda>i. mt_temper (mt_seq (mt (dg_mt_seed s)) (624 + i))) [0..<n]"
  unfolding mt_draws_seq [OF mt_state_seed] by (rule nth_equalityI) simp_all

text \<open>
  C13. The rejection loop returns: as soon as one of the generator's next outputs has its upper 19
  bits below the vocabulary size, \<open>dg_mt_vocab\<close> stops at the first such output and returns these
  bits, an id inside the vocabulary.
\<close>

theorem dg_mt_vocab_returns:
  assumes "length (mt r) = 624" "mt_at r \<le> 624"
    "xs = map (\<lambda>x. unat (drop_bit 13 x)) (mt_draws (Suc d) r)"
    "xs ! d < DG_VOCAB" "\<forall>e < d. DG_VOCAB \<le> xs ! e" "d < fuel"
  shows "\<exists>r'. dg_mt_vocab fuel r = Inr (xs ! d, r') \<and> length (mt r') = 624 \<and> mt_at r' \<le> 624"
proof -
  have m: "mt_state (mt r) (mt_at r) r" by (rule mt_state_self [OF assms(1,2)])
  have x: "xs ! e = unat (drop_bit 13 (mt_temper (mt_seq (mt r) (mt_at r + e))))" if "e \<le> d" for e
    using that by (simp add: assms(3) mt_draws_seq [OF m] del: upt_Suc mt_draws.simps)
  from dg_mt_vocab_first [OF m, of d fuel] x assms(4-6) show ?thesis
    by (force simp: mt_state_def)
qed

theorem dg_mt_vocab_returns_witness:
  "\<exists>r'. dg_mt_vocab 1 \<lparr>mt = replicate 624 0, mt_at = 623\<rparr> = Inr ([0 :: nat] ! 0, r') \<and>
     length (mt r') = 624 \<and> mt_at r' \<le> 624"
  by (rule dg_mt_vocab_returns)
    (simp_all add: dg_mt_u32_def mt_temper_def Let_def DG_VOCAB_def)

end
