(* ===== verification/Safetensors.thy ===== *)
theory Safetensors
  imports Sizes Arena JsonQuery Mersenne Format
begin

text \<open>
  The safetensors reader of \<open>src/model.inc\<close>: the header of a shard, its tensor descriptors with
  their bounds and byte sizes, the index by name, and the checks that \<open>dg_load\<close> makes of every
  layer. A tensor's \<open>data\<close> pointer is the shard's bytes with an offset. \<open>uint64_t\<close> values are
  natural numbers below \<open>2^64\<close>, with the code's own overflow tests. The slab for the names has the
  size the first loop computes, and a copy past its end is \<open>Undefined\<close>. Mapping the files is
  input; a model is given by its shards' bytes. A float read from a file is its bit pattern.
\<close>

section \<open>Data\<close>

datatype dg_dtype = DG_UNKNOWN | DG_BF16 | DG_U8 | DG_F8E4M3 | DG_F32

definition dg_item :: "dg_dtype \<Rightarrow> nat" where
  "dg_item d = (if d = DG_BF16 then 2 else if d = DG_F32 then 4 else 1)"

record DGTensor =
  tn_name :: bytes
  tn_data :: bytes
  tn_at :: nat
  tn_shape :: "nat list"
  tn_bytes :: nat
  tn_dtype :: dg_dtype

text \<open>The eleven tensors of one NVFP4 expert.\<close>

record DGNvExpert =
  nx_wg :: DGTensor
  nx_sg :: DGTensor
  nx_gg :: DGTensor
  nx_ag :: DGTensor
  nx_wu :: DGTensor
  nx_su :: DGTensor
  nx_gu :: DGTensor
  nx_wd :: DGTensor
  nx_sd :: DGTensor
  nx_gd :: DGTensor
  nx_ad :: DGTensor

record DGModel =
  md_tensor :: "DGTensor list"
  md_cap :: nat
  md_nvfp4 :: bool
  md_nvexpert :: "DGNvExpert list"
  md_a13 :: "u32 list"
  md_a2 :: "u32 list"

section \<open>The header of a shard\<close>

fun jt_u64_digits :: "bytes \<Rightarrow> nat \<Rightarrow> nat option" where
  "jt_u64_digits [] v = Some v"
| "jt_u64_digits (c # cs) v =
     (if c < 48 \<or> c > 57 \<or> v > (UINT64_MAX - (unat c - 48)) div 10 then None
      else jt_u64_digits cs (v * 10 + (unat c - 48)))"

definition jt_u64 :: "bytes \<Rightarrow> JTok \<Rightarrow> bytes \<Rightarrow> nat result" where
  "jt_u64 j t name =
     (if jt_type t \<noteq> JT_PRIMITIVE \<or> jt_end t \<le> int (jt_start t) \<or> jt_end t - int (jt_start t) > 20
      then die2 ''expected unsigned integer'' name
      else case jt_u64_digits (span_of j (jt_start t) (nat (jt_end t))) 0 of
        None \<Rightarrow> die2 ''bad unsigned integer'' name
      | Some v \<Rightarrow> Inr v)"

text \<open>A \<open>DGTensor\<close> takes 88 bytes.\<close>

definition dg_push_tensor :: "DGModel \<Rightarrow> DGTensor \<Rightarrow> DGModel result" where
  "dg_push_tensor m t =
     (if length (md_tensor m) = md_cap m then
        if md_cap m > UINT64_MAX div 2 div 88 then die ''tensor descriptor array size overflow''
        else Inr (m\<lparr>md_cap := (if md_cap m \<noteq> 0 then md_cap m * 2 else 1024),
                    md_tensor := md_tensor m @ [t]\<rparr>)
      else Inr (m\<lparr>md_tensor := md_tensor m @ [t]\<rparr>))"

fun strstr :: "bytes \<Rightarrow> bytes \<Rightarrow> bool" where
  "strstr s z = (take (length z) s = z \<or> (case s of [] \<Rightarrow> False | c # s' \<Rightarrow> strstr s' z))"

declare strstr.simps [simp del]

definition has_prefix :: "bytes \<Rightarrow> bytes \<Rightarrow> bool" where
  "has_prefix z s \<longleftrightarrow> take (length z) s = z"

definition dg_is_text :: "bytes \<Rightarrow> bool" where
  "dg_is_text name \<longleftrightarrow>
     has_prefix (str ''model.decoder.'') name \<or>
     (has_prefix (str ''model.encoder.language_model.'') name \<and> strstr name (str ''.layer_scalar''))"

text \<open>The loops over a shape and over the data offsets: at most \<open>limit\<close> numbers.\<close>

function dg_numbers ::
  "nat \<Rightarrow> string \<Rightarrow> bytes \<Rightarrow> JTok list \<Rightarrow> bytes \<Rightarrow> nat \<Rightarrow> nat \<Rightarrow> nat list \<Rightarrow> nat list result" where
  "dg_numbers limit msg j tok name arr k acc =
     (if k < length tok \<and> jt_parent (tok ! k) \<ge> int arr then
        if jt_parent (tok ! k) = int arr then
          if length acc = limit then die2 msg name
          else bindE (jt_u64 j (tok ! k) name) (\<lambda>v. dg_numbers limit msg j tok name arr (Suc k) (acc @ [v]))
        else dg_numbers limit msg j tok name arr (Suc k) acc
      else Inr acc)"
  by pat_completeness auto
termination
  by (relation "measure (\<lambda>(limit, msg, j, tok, name, arr, k, acc). length tok - k)") auto

declare dg_numbers.simps [simp del]

fun dg_count :: "bytes \<Rightarrow> nat list \<Rightarrow> nat \<Rightarrow> nat result" where
  "dg_count name [] c = Inr c"
| "dg_count name (d # ds) c =
     (if d \<noteq> 0 \<and> c > UINT64_MAX div d then die2 ''safetensors tensor size overflow'' name
      else dg_count name ds (c * d))"

definition dg_dtype_of :: "bytes \<Rightarrow> JTok \<Rightarrow> bytes \<Rightarrow> dg_dtype result" where
  "dg_dtype_of j t name =
     bindE (jt_eq j t (str ''BF16'')) (\<lambda>b. if b then Inr DG_BF16 else
     bindE (jt_eq j t (str ''U8'')) (\<lambda>b. if b then Inr DG_U8 else
     bindE (jt_eq j t (str ''F8_E4M3'')) (\<lambda>b. if b then Inr DG_F8E4M3 else
     bindE (jt_eq j t (str ''F32'')) (\<lambda>b. if b then Inr DG_F32 else
     if dg_is_text name then die2 ''unsupported DiffusionGemma text dtype'' name
     else Inr DG_UNKNOWN))))"

text \<open>One descriptor: the tensor that the object at token \<open>obj\<close> describes.\<close>

definition dg_descriptor ::
  "bool \<Rightarrow> bytes \<Rightarrow> JTok list \<Rightarrow> nat \<Rightarrow> bytes \<Rightarrow> bytes \<Rightarrow> nat \<Rightarrow> DGTensor result" where
  "dg_descriptor nvfp4 j tok obj name data hn =
     (if obj \<ge> length tok \<or> jt_type (tok ! obj) \<noteq> JT_OBJECT then die2 ''bad safetensors descriptor'' name
      else
        bindE (jt_obj_get j tok (int obj) (str ''dtype'')) (\<lambda>dtype.
        bindE (jt_obj_get j tok (int obj) (str ''shape'')) (\<lambda>shape.
        bindE (jt_obj_get j tok (int obj) (str ''data_offsets'')) (\<lambda>offsets.
        if dtype < 0 \<or> shape < 0 \<or> offsets < 0 \<or> jt_type (tok ! nat shape) \<noteq> JT_ARRAY \<or>
           jt_type (tok ! nat offsets) \<noteq> JT_ARRAY
        then die2 ''incomplete safetensors descriptor'' name
        else
          bindE (dg_dtype_of j (tok ! nat dtype) name) (\<lambda>ty.
          if dg_is_text name \<and> ty \<noteq> DG_BF16 \<and>
             \<not> (nvfp4 \<and> strstr name (str ''.experts.'') \<and> (ty = DG_U8 \<or> ty = DG_F8E4M3 \<or> ty = DG_F32))
          then die2 ''unsupported DiffusionGemma text tensor encoding'' name
          else
            bindE (dg_numbers 4 ''too many safetensors dimensions'' j tok name (nat shape) (Suc (nat shape)) []) (\<lambda>dims.
            bindE (dg_numbers 2 ''bad safetensors offsets'' j tok name (nat offsets) (Suc (nat offsets)) []) (\<lambda>off.
            let base = 8 + hn in
            if length off \<noteq> 2 \<or> off ! 1 < off ! 0 \<or> base > length data \<or> off ! 1 > length data - base
            then die2 ''out-of-bounds safetensors data'' name
            else
              let t = \<lparr>tn_name = name, tn_data = data, tn_at = base + off ! 0, tn_shape = dims,
                       tn_bytes = off ! 1 - off ! 0, tn_dtype = ty\<rparr> in
              if ty \<noteq> DG_UNKNOWN then
                bindE (dg_count name dims 1) (\<lambda>cnt.
                  if cnt > UINT64_MAX div dg_item ty \<or> tn_bytes t \<noteq> cnt * dg_item ty
                  then die2 ''safetensors byte size does not match shape'' name
                  else Inr t)
              else Inr t)))))))"

text \<open>The bytes for the names: three for each byte of a root key, skipping the value after it.\<close>

function dg_names_bytes :: "JTok list \<Rightarrow> nat \<Rightarrow> nat \<Rightarrow> nat result" where
  "dg_names_bytes tok key n =
     (if key < length tok then
        if jt_parent (tok ! key) = 0 \<and> jt_type (tok ! key) = JT_STRING then
          bindE (jb_size_add (nat (jt_end (tok ! key) - int (jt_start (tok ! key))) * 3) 1) (\<lambda>b.
          bindE (jb_size_add n b) (\<lambda>n. dg_names_bytes tok (Suc (Suc key)) n))
        else dg_names_bytes tok (Suc key) n
      else Inr n)"
  by pat_completeness auto
termination
  by (relation "measure (\<lambda>(tok, key, n). length tok - key)") auto

declare dg_names_bytes.simps [simp del]

text \<open>The loop over the root's keys; it does not skip the value after a key.\<close>

function dg_shard_tensors ::
  "DGModel \<Rightarrow> bytes \<Rightarrow> JTok list \<Rightarrow> bytes \<Rightarrow> nat \<Rightarrow> nat \<Rightarrow> nat \<Rightarrow> nat \<Rightarrow> DGModel result" where
  "dg_shard_tensors m j tok data hn room key cursor =
     (if key < length tok then
        if jt_parent (tok ! key) \<noteq> 0 \<or> jt_type (tok ! key) \<noteq> JT_STRING
        then dg_shard_tensors m j tok data hn room (Suc key) cursor
        else
          bindE (jt_string_copy j (tok ! key)) (\<lambda>name.
          if cursor + length name + 1 > room then Inl Undefined
          else
            let cursor = cursor + (length name + 1) in
            if name = str ''__metadata__'' then dg_shard_tensors m j tok data hn room (Suc key) cursor
            else
              bindE (dg_descriptor (md_nvfp4 m) j tok (Suc key) name data hn) (\<lambda>t.
              bindE (dg_push_tensor m t) (\<lambda>m. dg_shard_tensors m j tok data hn room (Suc key) cursor)))
      else Inr m)"
  by pat_completeness auto
termination
  by (relation "measure (\<lambda>(m, j, tok, data, hn, room, key, cursor). length tok - key)") auto

declare dg_shard_tensors.simps [simp del]

definition dg_header_length :: "bytes \<Rightarrow> nat" where
  "dg_header_length data = unat (fold (\<lambda>i h. h OR push_bit (8 * i) (ucast (data ! i))) [0..<8] (0 :: u64))"

text \<open>The little-endian number as arithmetic, which is also how it is evaluated.\<close>

lemma or_byte_u64:
  fixes h :: u64 and b :: byte
  assumes "unat h < 2 ^ k" "k \<le> 56"
  shows "unat (h OR push_bit k (ucast b)) = 2 ^ k * unat b + unat h"
proof -
  have b: "unat b < 2 ^ 8" using unsigned_less [of b] by simp
  have "(2::nat) ^ k * unat b < 2 ^ k * 2 ^ 8" using b by simp
  also have "(2::nat) ^ k * 2 ^ 8 \<le> 2 ^ 64"
    using power_increasing [of "k + 8" 64 "2::nat"] assms by (simp add: power_add)
  finally have "(2::nat) ^ k * unat b < 2 ^ 64" .
  moreover have "unat (ucast b :: u64) = unat b"
    using b by (simp add: unsigned_ucast_eq take_bit_nat_eq_self)
  ultimately have "unat (push_bit k (ucast b :: u64)) = 2 ^ k * unat b"
    unfolding unsigned_push_bit_eq
    by (simp add: push_bit_eq_mult mult.commute take_bit_nat_eq_self)
  then show ?thesis using nat_or_disjoint [OF assms(1), of "unat b"]
    by (simp add: unsigned_or_eq or.commute)
qed

lemma dg_header_length_sum [code]:
  "dg_header_length data =
     unat (data ! 0) + 256 * (unat (data ! 1) + 256 * (unat (data ! 2) + 256 * (unat (data ! 3) + 256 *
     (unat (data ! 4) + 256 * (unat (data ! 5) + 256 * (unat (data ! 6) + 256 * unat (data ! 7)))))))"
proof -
  define b where "b = (\<lambda>i. data ! i)"
  define h where "h = (\<lambda>n. fold (\<lambda>i h. h OR push_bit (8 * i) (ucast (b i))) [0..<n] (0 :: u64))"
  have step: "unat (h (Suc n)) = 2 ^ (8 * n) * unat (b n) + unat (h n) \<and> unat (h (Suc n)) < 2 ^ (8 * Suc n)"
    if "unat (h n) < 2 ^ (8 * n)" "n < 8" for n
  proof -
    have "unat (h (Suc n)) = 2 ^ (8 * n) * unat (b n) + unat (h n)"
      using or_byte_u64 [OF that(1), of "b n"] that(2) by (simp add: h_def)
    moreover have "2 ^ (8 * n) * unat (b n) \<le> 2 ^ (8 * n) * 255"
      using unsigned_less [of "b n", where ?'a = nat] by (intro mult_left_mono) simp_all
    then have "2 ^ (8 * n) * unat (b n) + unat (h n) < 2 ^ (8 * n) * 256"
      using that(1) by linarith
    ultimately show ?thesis by (simp add: power_add)
  qed
  have step': "unat (h m) = 2 ^ (8 * n) * unat (b n) + unat (h n) \<and> unat (h m) < 2 ^ (8 * m)"
    if "unat (h n) < 2 ^ (8 * n)" "m = Suc n" "n < 8" for n m
    using step [OF that(1,3)] that(2) by blast
  have h0: "unat (h 0) = 0" by (simp_all add: h_def)
  have s0: "unat (h 1) = 2 ^ (8 * 0) * unat (b 0) + unat (h 0) \<and> unat (h 1) < 2 ^ (8 * 1)"
    by (rule step') (simp_all add: h0)
  have s1: "unat (h 2) = 2 ^ (8 * 1) * unat (b 1) + unat (h 1) \<and> unat (h 2) < 2 ^ (8 * 2)"
    by (rule step' [OF conjunct2 [OF s0]]) simp_all
  have s2: "unat (h 3) = 2 ^ (8 * 2) * unat (b 2) + unat (h 2) \<and> unat (h 3) < 2 ^ (8 * 3)"
    by (rule step' [OF conjunct2 [OF s1]]) simp_all
  have s3: "unat (h 4) = 2 ^ (8 * 3) * unat (b 3) + unat (h 3) \<and> unat (h 4) < 2 ^ (8 * 4)"
    by (rule step' [OF conjunct2 [OF s2]]) simp_all
  have s4: "unat (h 5) = 2 ^ (8 * 4) * unat (b 4) + unat (h 4) \<and> unat (h 5) < 2 ^ (8 * 5)"
    by (rule step' [OF conjunct2 [OF s3]]) simp_all
  have s5: "unat (h 6) = 2 ^ (8 * 5) * unat (b 5) + unat (h 5) \<and> unat (h 6) < 2 ^ (8 * 6)"
    by (rule step' [OF conjunct2 [OF s4]]) simp_all
  have s6: "unat (h 7) = 2 ^ (8 * 6) * unat (b 6) + unat (h 6) \<and> unat (h 7) < 2 ^ (8 * 7)"
    by (rule step' [OF conjunct2 [OF s5]]) simp_all
  have s7: "unat (h 8) = 2 ^ (8 * 7) * unat (b 7) + unat (h 7) \<and> unat (h 8) < 2 ^ (8 * 8)"
    by (rule step' [OF conjunct2 [OF s6]]) simp_all
  have "unat (h 8) = 2 ^ 56 * unat (b 7) + (2 ^ 48 * unat (b 6) + (2 ^ 40 * unat (b 5) + (2 ^ 32 * unat (b 4) +
     (2 ^ 24 * unat (b 3) + (2 ^ 16 * unat (b 2) + (2 ^ 8 * unat (b 1) + unat (b 0)))))))"
    by (simp add: s0 s1 s2 s3 s4 s5 s6 s7 h0 del: One_nat_def)
  moreover have "dg_header_length data = unat (h 8)" by (simp add: dg_header_length_def h_def b_def)
  ultimately show ?thesis by (simp add: b_def)
qed

definition dg_parse_shard_data :: "DGModel \<Rightarrow> bytes \<Rightarrow> bytes \<Rightarrow> DGModel result" where
  "dg_parse_shard_data m path data =
     (if length data < 9 then die2 ''short safetensors file'' path
      else let hn = dg_header_length data in
        if hn = 0 \<or> hn > length data - 8 \<or> hn > JB_MAX_JSON then die2 ''invalid safetensors header'' path
        else
          let j = drop 8 data in
          bindE (json_tokens j hn) (\<lambda>tok.
          if tok = [] \<or> jt_type (tok ! 0) \<noteq> JT_OBJECT then die2 ''invalid safetensors JSON'' path
          else
            bindE (dg_names_bytes tok 1 0) (\<lambda>room.
              dg_shard_tensors m j tok data hn (if room \<noteq> 0 then room else 1) 1 0)))"

section \<open>The index by name\<close>

definition dg_tensor_cmp :: "DGTensor \<Rightarrow> DGTensor \<Rightarrow> int" where
  "dg_tensor_cmp x y = strcmp (tn_name x) (tn_name y)"

definition dg_tensor_key_cmp :: "bytes \<Rightarrow> DGTensor \<Rightarrow> int" where
  "dg_tensor_key_cmp a y = strcmp a (tn_name y)"

fun dg_duplicate :: "DGTensor list \<Rightarrow> DGTensor option" where
  "dg_duplicate (x # y # ts) = (if strcmp (tn_name x) (tn_name y) = 0 then Some y else dg_duplicate (y # ts))"
| "dg_duplicate _ = None"

definition dg_finalize_tensor_index :: "DGModel \<Rightarrow> DGModel result" where
  "dg_finalize_tensor_index m =
     (let ts = qsort dg_tensor_cmp (md_tensor m) in
      case dg_duplicate ts of
        Some t \<Rightarrow> die2 ''duplicate DiffusionGemma tensor'' (tn_name t)
      | None \<Rightarrow> Inr (m\<lparr>md_tensor := ts\<rparr>))"

definition dg_tensor :: "DGModel \<Rightarrow> bytes \<Rightarrow> DGTensor result" where
  "dg_tensor m name =
     (case bsearch dg_tensor_key_cmp name (md_tensor m) of
        Some i \<Rightarrow> Inr (md_tensor m ! i)
      | None \<Rightarrow> die2 ''missing DiffusionGemma tensor'' name)"

section \<open>What the loader checks\<close>

definition jb_path :: "nat \<Rightarrow> bytes \<Rightarrow> bytes result" where
  "jb_path cap s = (if length s \<ge> cap then die ''model path too long'' else Inr s)"

definition dg_expert_tensor :: "DGModel \<Rightarrow> nat \<Rightarrow> nat \<Rightarrow> string \<Rightarrow> DGTensor result" where
  "dg_expert_tensor m l e tail =
     dg_tensor m (take 191 (str ''model.decoder.layers.'' @ decimal l @ str ''.experts.'' @ decimal e @ str ''.'' @ str tail))"

fun dg_expect_count_loop :: "bytes \<Rightarrow> nat list \<Rightarrow> nat \<Rightarrow> nat result" where
  "dg_expect_count_loop name [] n = Inr n"
| "dg_expect_count_loop name (d # ds) n =
     (if d \<noteq> 0 \<and> n > UINT64_MAX div d then die2 ''DiffusionGemma tensor size overflow'' name
      else dg_expect_count_loop name ds (n * d))"

definition dg_expect :: "DGModel \<Rightarrow> bytes \<Rightarrow> dg_dtype \<Rightarrow> nat \<Rightarrow> nat \<Rightarrow> nat \<Rightarrow> nat \<Rightarrow> unit result" where
  "dg_expect m name ty nd a b c =
     bindE (dg_tensor m name) (\<lambda>t.
       if tn_dtype t \<noteq> ty \<or> length (tn_shape t) \<noteq> nd \<or> (nd > 0 \<and> tn_shape t ! 0 \<noteq> a) \<or>
          (nd > 1 \<and> tn_shape t ! 1 \<noteq> b) \<or> (nd > 2 \<and> tn_shape t ! 2 \<noteq> c)
       then die2 ''unexpected DiffusionGemma tensor shape'' name
       else bindE (dg_expect_count_loop name (tn_shape t) 1) (\<lambda>n.
         if tn_bytes t \<noteq> (n * dg_item ty) mod 2 ^ 64
         then die2 ''unexpected DiffusionGemma tensor byte size'' name
         else Inr ()))"

definition dg_expect_count :: "DGModel \<Rightarrow> bytes \<Rightarrow> dg_dtype \<Rightarrow> nat \<Rightarrow> unit result" where
  "dg_expect_count m name ty cnt =
     bindE (dg_tensor m name) (\<lambda>t.
       if tn_dtype t \<noteq> ty \<or> tn_bytes t \<noteq> (cnt * dg_item ty) mod 2 ^ 64
       then die2 ''unexpected DiffusionGemma tensor size'' name else Inr ())"

definition layer_name :: "nat \<Rightarrow> string \<Rightarrow> bytes" where
  "layer_name l tail = str ''model.decoder.layers.'' @ decimal l @ str ''.'' @ str tail"

definition dg_expect_layer :: "DGModel \<Rightarrow> nat \<Rightarrow> string \<Rightarrow> nat \<Rightarrow> nat \<Rightarrow> nat \<Rightarrow> nat \<Rightarrow> unit result" where
  "dg_expect_layer m l tail nd a b c =
     bindE (jb_path 192 (layer_name l tail)) (\<lambda>n. dg_expect m n DG_BF16 nd a b c)"

definition dg_expect_layer_count :: "DGModel \<Rightarrow> nat \<Rightarrow> string \<Rightarrow> nat \<Rightarrow> unit result" where
  "dg_expect_layer_count m l tail cnt =
     bindE (jb_path 192 (layer_name l tail)) (\<lambda>n. dg_expect_count m n DG_BF16 cnt)"

text \<open>
  The float's bits: it is finite and above zero when they are, unsigned, above zero and below
  those of infinity. Among such floats, and zero, the order is that of the bits.
\<close>

definition dg_positive_f32_scalar :: "DGTensor \<Rightarrow> string \<Rightarrow> u32 result" where
  "dg_positive_f32_scalar t what =
     (if tn_dtype t \<noteq> DG_F32 \<or> length (tn_shape t) \<noteq> 0 \<or> tn_bytes t \<noteq> 4 then die2 what (tn_name t)
      else
        bindE (rd (tn_data t) (tn_at t)) (\<lambda>b0. bindE (rd (tn_data t) (tn_at t + 1)) (\<lambda>b1.
        bindE (rd (tn_data t) (tn_at t + 2)) (\<lambda>b2. bindE (rd (tn_data t) (tn_at t + 3)) (\<lambda>b3.
        let v = ucast b0 OR push_bit 8 (ucast b1) OR push_bit 16 (ucast b2) OR push_bit 24 (ucast b3) :: u32 in
        if \<not> (0 < v \<and> v < 0x7f800000) then die2 what (tn_name t) else Inr v)))))"

fun all_ok :: "unit result list \<Rightarrow> unit result" where
  "all_ok [] = Inr ()"
| "all_ok (c # cs) = bindE c (\<lambda>_. all_ok cs)"

definition dg_check_layer :: "DGModel \<Rightarrow> nat \<Rightarrow> unit result" where
  "dg_check_layer m l =
     (let full = (l mod DG_FULL_EVERY = DG_FULL_EVERY - 1);
          hd = (if full then DG_FULL_HEAD_DIM else DG_LOCAL_HEAD_DIM);
          kn = (if full then DG_FULL_KV_HEADS else DG_LOCAL_KV_HEADS) * hd
      in all_ok
       ([dg_expect_layer m l ''self_attn.q_proj.weight'' 2 (DG_HEADS * hd) DG_H 0,
         dg_expect_layer m l ''self_attn.k_proj.weight'' 2 kn DG_H 0] @
        (if \<not> full then [dg_expect_layer m l ''self_attn.v_proj.weight'' 2 kn DG_H 0] else []) @
        [dg_expect_layer m l ''self_attn.o_proj.weight'' 2 DG_H (DG_HEADS * hd) 0,
         dg_expect_layer_count m l ''self_attn.q_norm.weight'' hd,
         dg_expect_layer_count m l ''self_attn.k_norm.weight'' hd,
         dg_expect_layer_count m l ''input_layernorm.weight'' DG_H,
         dg_expect_layer_count m l ''post_attention_layernorm.weight'' DG_H,
         dg_expect_layer_count m l ''pre_feedforward_layernorm.weight'' DG_H,
         dg_expect_layer_count m l ''post_feedforward_layernorm_1.weight'' DG_H,
         dg_expect_layer_count m l ''pre_feedforward_layernorm_2.weight'' DG_H,
         dg_expect_layer_count m l ''post_feedforward_layernorm_2.weight'' DG_H,
         dg_expect_layer_count m l ''post_feedforward_layernorm.weight'' DG_H,
         dg_expect_layer m l ''mlp.gate_proj.weight'' 2 DG_DENSE DG_H 0,
         dg_expect_layer m l ''mlp.up_proj.weight'' 2 DG_DENSE DG_H 0,
         dg_expect_layer m l ''mlp.down_proj.weight'' 2 DG_H DG_DENSE 0,
         dg_expect_layer m l ''router.proj.weight'' 2 DG_EXPERTS DG_H 0,
         dg_expect_layer_count m l ''router.scale'' DG_H,
         dg_expect_layer_count m l ''router.per_expert_scale'' DG_EXPERTS,
         dg_expect_layer m l ''layer_scalar'' 1 1 0 0] @
        (if \<not> md_nvfp4 m then
           [dg_expect_layer m l ''experts.gate_up_proj'' 3 DG_EXPERTS DG_EXPERT_PAIR DG_H,
            dg_expect_layer m l ''experts.down_proj'' 3 DG_EXPERTS DG_H DG_MOE]
         else [])))"

definition dg_load_expert :: "DGModel \<Rightarrow> nat \<Rightarrow> nat \<Rightarrow> DGModel result" where
  "dg_load_expert m l e =
     bindE (dg_expert_tensor m l e ''gate_proj.weight'') (\<lambda>wg.
     bindE (dg_expert_tensor m l e ''gate_proj.weight_scale'') (\<lambda>sg.
     bindE (dg_expert_tensor m l e ''gate_proj.weight_scale_2'') (\<lambda>gg.
     bindE (dg_expert_tensor m l e ''gate_proj.input_scale'') (\<lambda>ag.
     bindE (dg_expert_tensor m l e ''up_proj.weight'') (\<lambda>wu.
     bindE (dg_expert_tensor m l e ''up_proj.weight_scale'') (\<lambda>su.
     bindE (dg_expert_tensor m l e ''up_proj.weight_scale_2'') (\<lambda>gu.
     bindE (dg_expert_tensor m l e ''down_proj.weight'') (\<lambda>wd.
     bindE (dg_expert_tensor m l e ''down_proj.weight_scale'') (\<lambda>sd.
     bindE (dg_expert_tensor m l e ''down_proj.weight_scale_2'') (\<lambda>gd.
     bindE (dg_expert_tensor m l e ''down_proj.input_scale'') (\<lambda>ad.
     bindE (dg_positive_f32_scalar gg ''bad NVFP4 global scale'') (\<lambda>_.
     bindE (dg_positive_f32_scalar gu ''bad NVFP4 global scale'') (\<lambda>_.
     bindE (dg_positive_f32_scalar gd ''bad NVFP4 global scale'') (\<lambda>_.
     bindE (dg_positive_f32_scalar ag ''bad NVFP4 input scale'') (\<lambda>a13.
     bindE (dg_positive_f32_scalar ad ''bad NVFP4 input scale'') (\<lambda>a2.
       Inr (m\<lparr>md_nvexpert := md_nvexpert m @
                [\<lparr>nx_wg = wg, nx_sg = sg, nx_gg = gg, nx_ag = ag, nx_wu = wu, nx_su = su, nx_gu = gu,
                  nx_wd = wd, nx_sd = sd, nx_gd = gd, nx_ad = ad\<rparr>],
              md_a13 := (if a13 > md_a13 m ! l then (md_a13 m)[l := a13] else md_a13 m),
              md_a2 := (if a2 > md_a2 m ! l then (md_a2 m)[l := a2] else md_a2 m)\<rparr>)))))))))))))))))"

fun dg_load_experts :: "DGModel \<Rightarrow> (nat \<times> nat) list \<Rightarrow> DGModel result" where
  "dg_load_experts m [] = Inr m"
| "dg_load_experts m ((l, e) # les) = bindE (dg_load_expert m l e) (\<lambda>m. dg_load_experts m les)"

fun dg_load_shards :: "DGModel \<Rightarrow> (bytes \<times> bytes) list \<Rightarrow> DGModel result" where
  "dg_load_shards m [] = Inr m"
| "dg_load_shards m ((path, data) # fs) = bindE (dg_parse_shard_data m path data) (\<lambda>m. dg_load_shards m fs)"

text \<open>
  \<open>dg_load\<close> of the shards' paths and bytes; \<open>two\<close> tells whether the two-shard NVFP4 layout is
  there, which the code probes for.
\<close>

definition dg_load :: "bool \<Rightarrow> (bytes \<times> bytes) list \<Rightarrow> DGModel result" where
  "dg_load two shards =
     bindE (dg_load_shards \<lparr>md_tensor = [], md_cap = 0, md_nvfp4 = two, md_nvexpert = [],
              md_a13 = replicate DG_L 0, md_a2 = replicate DG_L 0\<rparr>
              (take (if two then 2 else 11) shards)) (\<lambda>m.
     bindE (dg_finalize_tensor_index m) (\<lambda>m.
     bindE (dg_expect m (str ''model.decoder.embed_tokens.weight'') DG_BF16 2 DG_VOCAB DG_H 0) (\<lambda>_.
     bindE (dg_expect_count m (str ''model.decoder.norm.weight'') DG_BF16 DG_H) (\<lambda>_.
     bindE (all_ok (map (dg_check_layer m) [0..<DG_L])) (\<lambda>_.
     if md_nvfp4 m then
       bindE (dg_expect m (str ''model.decoder.layers.0.experts.0.gate_proj.weight'') DG_U8 2 DG_MOE DG_EXPERT_PAIR 0) (\<lambda>_.
       bindE (dg_expect m (str ''model.decoder.layers.0.experts.0.gate_proj.weight_scale'') DG_F8E4M3 2 DG_MOE (DG_MOE div 4) 0) (\<lambda>_.
       bindE (dg_expect m (str ''model.decoder.layers.0.experts.0.gate_proj.weight_scale_2'') DG_F32 0 0 0 0) (\<lambda>_.
       bindE (dg_expect m (str ''model.decoder.layers.0.experts.0.down_proj.weight'') DG_U8 2 DG_H (DG_MOE div 2) 0) (\<lambda>_.
         dg_load_experts m (List.product [0..<DG_L] [0..<DG_EXPERTS])))))
     else Inr m)))))"

end
