(* ===== verification/Scores.thy ===== *)
theory Scores
  imports Prelude
begin

text \<open>
  The arithmetic of candidate scores in \<open>src/decision.inc\<close>: the softmax \<open>normalize_scores\<close> and the
  \<open>confidence\<close> of a distribution. The C type \<open>double\<close> and the mathematics library are a record of
  operations, so every definition that computes with scores has the same order of operations as
  the code and leaves rounding to the record. Comparisons are \<open>bool\<close>-valued and need not be total:
  a NaN compares false.
\<close>

record 'd arith =
  zero_d :: 'd
  one_d :: 'd
  of_nat_d :: "nat \<Rightarrow> 'd"
  add_d :: "'d \<Rightarrow> 'd \<Rightarrow> 'd"
  sub_d :: "'d \<Rightarrow> 'd \<Rightarrow> 'd"
  mul_d :: "'d \<Rightarrow> 'd \<Rightarrow> 'd"
  div_d :: "'d \<Rightarrow> 'd \<Rightarrow> 'd"
  less_d :: "'d \<Rightarrow> 'd \<Rightarrow> bool"
  exp_d :: "'d \<Rightarrow> 'd"
  log_d :: "'d \<Rightarrow> 'd"
  abs_d :: "'d \<Rightarrow> 'd"
  tiny_d :: 'd
  finite_d :: "'d \<Rightarrow> bool"

text \<open>The maximum, checking that every score is finite.\<close>

fun score_max :: "'d arith \<Rightarrow> 'd list \<Rightarrow> 'd \<Rightarrow> 'd result" where
  "score_max A [] mx = Inr mx"
| "score_max A (s # ss) mx =
     (if \<not> finite_d A s then die ''non-finite candidate score''
      else score_max A ss (if less_d A mx s then s else mx))"

definition normalize_scores :: "'d arith \<Rightarrow> 'd list \<Rightarrow> 'd list result" where
  "normalize_scores A score =
     (if length score < 2 then die ''at least two candidate scores required''
      else if \<not> finite_d A (score ! 0) then die ''non-finite candidate score''
      else bindE (score_max A (tl score) (score ! 0)) (\<lambda>mx.
        let den = foldl (\<lambda>den s. add_d A den (exp_d A (sub_d A s mx))) (zero_d A) score in
        if \<not> finite_d A den \<or> \<not> less_d A (zero_d A) den then die ''invalid candidate normalization''
        else Inr (map (\<lambda>s. div_d A (exp_d A (sub_d A s mx)) den) score)))"

definition confidence :: "'d arith \<Rightarrow> 'd list \<Rightarrow> 'd" where
  "confidence A p =
     (let h = foldl (\<lambda>h x. if less_d A (zero_d A) x then sub_d A h (mul_d A x (log_d A x)) else h) (zero_d A) p;
          c = sub_d A (one_d A) (div_d A h (log_d A (of_nat_d A (length p))));
          c = (if less_d A (abs_d A c) (tiny_d A) then zero_d A else c)
      in if less_d A c (zero_d A) then zero_d A else if less_d A (one_d A) c then one_d A else c)"

lemma score_max_defined: "defined (score_max A ss mx)"
  by (induction A ss mx rule: score_max.induct) simp_all

lemma normalize_scores_ok: "ensures (normalize_scores A score) (\<lambda>p. length p = length score)"
  by (auto simp: normalize_scores_def Let_def intro!: ensures_defined score_max_defined)

end
