(* ===== verification/Job.thy ===== *)
theory Job
  imports Questions Safetensors Scores
begin

text \<open>
  A decision job (\<open>DGJob\<close> of \<open>src/decision.inc\<close>): from a request to the prompt, the answer
  canvases with one slot per question, the candidate token of every label, the random canvas of a
  read, and the size of the workspace that scores it.

  A read's hidden rows, and their scoring, come with the engine (theory \<open>Execute\<close>). Times
  (\<open>candidate_ns\<close>) are left out.
\<close>

record DGCanvas =
  cv_base :: "int list"
  cv_start :: nat
  cv_count :: nat

record 'd DGJob =
  jo_rq :: DGRequest
  jo_w :: "DecisionWork list"
  jo_prob :: "'d list list"
  jo_seed :: u32
  jo_sys :: bytes
  jo_pre :: bytes
  jo_prompt :: bytes
  jo_pt :: "int list"
  jo_pre_tokens :: "int list"
  jo_group_cap :: nat
  jo_groups :: nat
  jo_width :: nat
  jo_slot :: "nat list"
  jo_ids :: "int list list"
  jo_canvas :: "int list"
  jo_cv :: "DGCanvas list"
  jo_requested :: nat
  jo_reads :: nat
  jo_max_reads :: nat
  jo_active :: bool

abbreviation jo_nq :: "'d DGJob \<Rightarrow> nat" where
  "jo_nq g \<equiv> length (jo_w g)"

section \<open>One slot per question\<close>

text \<open>The index of the only token of \<open>v\<close> that differs from \<open>base\<close>, or -1.\<close>

fun dg_label_diff :: "int list \<Rightarrow> int list \<Rightarrow> nat \<Rightarrow> int \<Rightarrow> int result" where
  "dg_label_diff (v # vs) (b # bs) z diff =
     (if v \<noteq> b then
        if diff \<ge> 0 then die ''label changes more than one template token''
        else dg_label_diff vs bs (Suc z) (int z)
      else dg_label_diff vs bs (Suc z) diff)"
| "dg_label_diff vs bs z diff = Inr diff"

text \<open>
  The labels \<open>qs\<close> of the question \<open>x\<close> in the template of the questions from \<open>start\<close> on, whose
  tokens with every first label are \<open>base\<close>: the slot and the token of each label.
\<close>

fun dg_label_ids ::
  "DGTokenizer \<Rightarrow> DecisionWork list \<Rightarrow> nat \<Rightarrow> nat \<Rightarrow> int list \<Rightarrow> nat \<Rightarrow> nat list \<Rightarrow> int \<Rightarrow> (int \<times> int list) result" where
  "dg_label_ids tok w start cnt base x [] slot = Inr (slot, [])"
| "dg_label_ids tok w start cnt base x (q # qs) slot =
     bindE (dg_answer_template_range w (length w) start cnt ((replicate (length w) 0)[x := q])) (\<lambda>a.
     bindE (dgt_tokenize tok a) (\<lambda>v.
     if length v \<noteq> length base then die ''labels do not share one template slot''
     else
       bindE (dg_label_diff v base 0 (-1)) (\<lambda>diff.
       if diff < 0 then die ''duplicate label token''
       else if slot \<ge> 0 \<and> diff \<noteq> slot then die ''labels do not share one template slot''
       else bindE (dg_label_ids tok w start cnt base x qs diff) (\<lambda>(s, ids). Inr (s, v ! nat diff # ids)))))"

definition dg_job_question ::
  "DGTokenizer \<Rightarrow> DecisionWork list \<Rightarrow> nat \<Rightarrow> nat \<Rightarrow> int list \<Rightarrow> nat \<Rightarrow> (nat \<times> int list) result" where
  "dg_job_question tok w start cnt base x =
     bindE (rd w x) (\<lambda>d.
     bindE (dg_label_ids tok w start cnt base x [1..<dw_nc d] (-1)) (\<lambda>(slot, ids).
       if slot < 0 then die ''cannot resolve label slot''
       else bindE (rd base (nat slot)) (\<lambda>i. Inr (nat slot, i # ids))))"

text \<open>The group \<open>b\<close> of questions: its canvas, the width it needs, and its questions' slots.\<close>

definition dg_job_group ::
  "DGTokenizer \<Rightarrow> DecisionWork list \<Rightarrow> nat \<Rightarrow> nat \<Rightarrow> (DGCanvas \<times> nat \<times> (nat \<times> int list) list) result" where
  "dg_job_group tok w cap b =
     (let start = b * cap;
          cnt = (if length w - start < cap then length w - start else cap) in
      bindE (dg_answer_template_range w (length w) start cnt (replicate (length w) 0)) (\<lambda>text.
      bindE (dgt_tokenize tok text) (\<lambda>base.
      if length base + 1 > DG_CANVAS_TOKENS then die ''OpenJev answer template exceeds 64-token canvas''
      else
        let cw = (length base + 1 + DG_CANVAS_ALIGN - 1) div DG_CANVAS_ALIGN * DG_CANVAS_ALIGN in
        bindE (collect (dg_job_question tok w start cnt base) [start..<start + cnt]) (\<lambda>qs.
          Inr (\<lparr>cv_base = base, cv_start = start, cv_count = cnt\<rparr>, cw, qs)))))"

section \<open>Preparing a job\<close>

definition dg_prompt_text :: "bytes \<Rightarrow> bytes \<Rightarrow> bytes result" where
  "dg_prompt_text pre state =
     bindE (db_fmt db_empty (pre @ state @ str ''<turn|>'' @ [10] @ str ''<|turn>model'' @ [10])) (\<lambda>b. Inr (db_p b))"

text \<open>The canvases of the questions \<open>w\<close>, in groups, and the job that holds them.\<close>

definition dg_job_layout ::
  "'d arith \<Rightarrow> DGTokenizer \<Rightarrow> DGRequest \<Rightarrow> u32 \<Rightarrow> DecisionWork list \<Rightarrow> bytes \<Rightarrow> bytes \<Rightarrow> int list \<Rightarrow> bytes \<Rightarrow> int list
    \<Rightarrow> 'd DGJob result" where
  "dg_job_layout A tok r seed w sys pre pre_tokens prompt pt =
     (let nq = length w;
          cap = (if nq \<le> DG_CANVAS_ALIGN then nq else DG_CANVAS_GROUP);
          groups = (nq + cap - 1) div cap in
      bindE (collect (dg_job_group tok w cap) [0..<groups]) (\<lambda>gs.
      let width = fold (\<lambda>(_, cw, _) m. max cw m) gs 0;
          qs = concat (map (snd \<circ> snd) gs) in
      if width * groups > JB_MAX_CTX then die ''batched answer canvases exceed DiffusionGemma context''
      else
        let max_reads = (if rq_requested r \<noteq> 0 then rq_requested r else 4);
            per_read = width * groups;
            batch_reads = (if JB_MAX_CTX div per_read < max_reads then JB_MAX_CTX div per_read else max_reads)
        in Inr \<lparr>jo_rq = r, jo_w = w, jo_prob = map (\<lambda>d. replicate (dw_nc d) (zero_d A)) w,
                jo_seed = seed, jo_sys = sys, jo_pre = pre, jo_prompt = prompt, jo_pt = pt,
                jo_pre_tokens = pre_tokens, jo_group_cap = cap, jo_groups = groups, jo_width = width,
                jo_slot = map fst qs, jo_ids = map snd qs,
                jo_canvas = replicate (per_read * batch_reads) 0, jo_cv = map fst gs,
                jo_requested = rq_requested r, jo_reads = 0, jo_max_reads = max_reads,
                jo_active = True\<rparr>))"

definition dg_job_prepare_request :: "'d arith \<Rightarrow> DGTokenizer \<Rightarrow> DGRequest \<Rightarrow> 'd DGJob result" where
  "dg_job_prepare_request A tok r =
     bindE (dg_request_seed r) (\<lambda>seed.
     bindE (dg_choice_inventory tok) (\<lambda>choice.
     if length choice \<noteq> DG_CHOICE_LABELS then die ''cannot construct OpenJev choice labels''
     else
       bindE (dg_questions r choice) (\<lambda>w.
       bindE (dg_system_prompt (rq_qj r) (rq_qt r) w) (\<lambda>sys.
       bindE (dg_prefix_text sys) (\<lambda>pre.
       bindE (dgt_tokenize tok pre) (\<lambda>pre_tokens.
       bindE (dg_prompt_text pre (rq_state r)) (\<lambda>prompt.
       if length prompt > JB_MAX_CTX * dt_maxlen tok then die ''prompt exceeds DiffusionGemma context''
       else
         bindE (dgt_tokenize tok prompt) (\<lambda>pt.
         if length pt > JB_MAX_CTX then die ''prompt exceeds DiffusionGemma context''
         else dg_job_layout A tok r seed w sys pre pre_tokens prompt pt))))))))"

definition dg_job_prepare :: "'d arith \<Rightarrow> DGTokenizer \<Rightarrow> bytes \<Rightarrow> nat \<Rightarrow> 'd DGJob result" where
  "dg_job_prepare A tok j len = bindE (dg_request_parse j len) (dg_job_prepare_request A tok)"

definition dg_job_prepare_parts ::
  "'d arith \<Rightarrow> DGTokenizer \<Rightarrow> bytes \<Rightarrow> nat \<Rightarrow> bytes \<Rightarrow> bytes \<Rightarrow> nat \<Rightarrow> nat \<Rightarrow> 'd DGJob result" where
  "dg_job_prepare_parts A tok state_json state_length ident questions_json questions_length samples =
     bindE (dg_request_parts state_json state_length ident questions_json questions_length samples)
       (dg_job_prepare_request A tok)"

section \<open>The canvas of a read\<close>

text \<open>\<open>memcpy\<close> into the buffer at an index.\<close>

definition wr_list :: "'a list \<Rightarrow> nat \<Rightarrow> 'a list \<Rightarrow> 'a list result" where
  "wr_list dst at xs =
     (if at + length xs \<le> length dst then Inr (take at dst @ xs @ drop (at + length xs) dst) else Inl Undefined)"

fun dg_canvas_bases :: "nat \<Rightarrow> DGCanvas list \<Rightarrow> nat \<Rightarrow> int list \<Rightarrow> int list result" where
  "dg_canvas_bases width [] b dst = Inr dst"
| "dg_canvas_bases width (c # cs) b dst =
     bindE (wr_list dst (b * width) (cv_base c)) (\<lambda>dst.
     bindE (wr dst (b * width + length (cv_base c)) DG_CANVAS_MASK_TOKEN) (dg_canvas_bases width cs (Suc b)))"

fun dg_canvas_slots :: "nat \<Rightarrow> nat \<Rightarrow> nat \<Rightarrow> nat list \<Rightarrow> nat \<Rightarrow> DGMT \<Rightarrow> int list \<Rightarrow> int list result" where
  "dg_canvas_slots fuel cap width [] x rng dst = Inr dst"
| "dg_canvas_slots fuel cap width (s # ss) x rng dst =
     bindE (dg_mt_vocab fuel rng) (\<lambda>(v, rng).
     bindE (wr dst (x div cap * width + s) (int v)) (dg_canvas_slots fuel cap width ss (Suc x) rng))"

definition dg_job_canvas :: "nat \<Rightarrow> 'd DGJob \<Rightarrow> nat \<Rightarrow> int list result" where
  "dg_job_canvas fuel g r =
     bindE (dg_canvas_bases (jo_width g) (jo_cv g) 0 (replicate (jo_width g * jo_groups g) 0)) (\<lambda>dst.
       dg_canvas_slots fuel (jo_group_cap g) (jo_width g) (jo_slot g) 0
         (dg_mt_seed (jo_seed g + of_nat r * 7919)) dst)"

section \<open>Scoring a read\<close>

fun dg_sum_sizes :: "nat list \<Rightarrow> nat \<Rightarrow> nat result" where
  "dg_sum_sizes [] n = Inr n"
| "dg_sum_sizes (c # cs) n = bindE (jb_size_add n c) (dg_sum_sizes cs)"

text \<open>The requests that \<open>dg_job_score\<close> makes of its workspace, in order.\<close>

definition dg_score_requests :: "'d DGJob \<Rightarrow> nat \<Rightarrow> nat \<Rightarrow> nat \<Rightarrow> (nat \<times> nat) list" where
  "dg_score_requests g read candidates most =
     [(jo_nq g, 8), (candidates, 8)] @
     (if jo_requested g = 0 \<and> read = 0
      then [(jo_nq g * DG_H, 4), (jo_nq g, 4), (jo_nq g * DG_VOCAB, 4), (DG_VOCAB, 8)] else []) @
     [(most, 8)]"

definition dg_job_score_bytes :: "'d DGJob \<Rightarrow> nat \<Rightarrow> nat result" where
  "dg_job_score_bytes g read =
     bindE (dg_sum_sizes (map dw_nc (jo_w g)) 0) (\<lambda>candidates.
       plan_all (\<lambda>b r. jb_workspace_plan b (fst r) (snd r)) 0
         (dg_score_requests g read candidates (fold (\<lambda>d m. max (dw_nc d) m) (jo_w g) 0)))"

definition dg_job_normalize :: "'d arith \<Rightarrow> 'd DGJob \<Rightarrow> 'd DGJob" where
  "dg_job_normalize A g = g\<lparr>jo_prob := map (map (\<lambda>p. div_d A p (of_nat_d A (jo_reads g)))) (jo_prob g)\<rparr>"

end
