(* ===== verification/Kernels.thy ===== *)
theory Kernels
  imports Safetensors Scores
begin

text \<open>
  The portable kernels (\<open>src/kernels_scalar.inc\<close>), which the \<open>scalar\<close> table of \<open>dg_kernels\<close>
  selects: BF16 and NVFP4 matrix products, the NVFP4 quantizer, RMS normalization, dot products,
  the strict exponential and hyperbolic tangent, and the entropy of the answer slots.

  C's \<open>float\<close> and \<open>double\<close> and the mathematics library are a record of operations, so each
  definition has the operations of the code in the order of the code; rounding is the record's.
  A decimal or hexadecimal constant is \<open>fl_lit\<close> or \<open>db_lit\<close> of its text. A matrix of activations
  is the list of its rows, one for each token. A kernel that would read past its weights is
  \<open>Undefined\<close>. Loops that OpenMP splits write one place each round, and are maps.
\<close>

section \<open>Floating point\<close>

record ('f, 'd) fpu =
  fl_of_bits :: "u32 \<Rightarrow> 'f"
  fl_lit :: "string \<Rightarrow> 'f"
  fl_int :: "int \<Rightarrow> 'f"
  fl_trunc :: "'f \<Rightarrow> int"
  fl_add :: "'f \<Rightarrow> 'f \<Rightarrow> 'f"
  fl_sub :: "'f \<Rightarrow> 'f \<Rightarrow> 'f"
  fl_mul :: "'f \<Rightarrow> 'f \<Rightarrow> 'f"
  fl_div :: "'f \<Rightarrow> 'f \<Rightarrow> 'f"
  fl_pow :: "'f \<Rightarrow> 'f \<Rightarrow> 'f"
  fl_neg :: "'f \<Rightarrow> 'f"
  fl_abs :: "'f \<Rightarrow> 'f"
  fl_sqrt :: "'f \<Rightarrow> 'f"
  fl_cos :: "'f \<Rightarrow> 'f"
  fl_sin :: "'f \<Rightarrow> 'f"
  fl_less :: "'f \<Rightarrow> 'f \<Rightarrow> bool"
  fl_le :: "'f \<Rightarrow> 'f \<Rightarrow> bool"
  fl_eq :: "'f \<Rightarrow> 'f \<Rightarrow> bool"
  fl_finite :: "'f \<Rightarrow> bool"
  fl_signbit :: "'f \<Rightarrow> bool"
  fl_max :: 'f
  fl_inf :: 'f
  wide :: "'f \<Rightarrow> 'd"
  narrow :: "'d \<Rightarrow> 'f"
  dbl :: "'d arith"
  db_lit :: "string \<Rightarrow> 'd"
  db_of_int :: "int \<Rightarrow> 'd"
  db_trunc :: "'d \<Rightarrow> int"
  db_bits :: "'d \<Rightarrow> u64"
  db_of_bits :: "u64 \<Rightarrow> 'd"
  db_neg :: "'d \<Rightarrow> 'd"
  db_eq :: "'d \<Rightarrow> 'd \<Rightarrow> bool"
  db_inf :: 'd
  db_tanh :: "'d \<Rightarrow> 'd"

definition fl_zero :: "('f, 'd) fpu \<Rightarrow> 'f" where
  "fl_zero F = fl_int F 0"

section \<open>Number formats\<close>

text \<open>The BF16 at byte \<open>at\<close>.\<close>

definition dg_bf :: "('f, 'd) fpu \<Rightarrow> bytes \<Rightarrow> nat \<Rightarrow> 'f" where
  "dg_bf F p at = fl_of_bits F (push_bit 16 (ucast (p ! at)) OR push_bit 24 (ucast (p ! (at + 1))))"

text \<open>A tensor's \<open>data\<close> pointer.\<close>

definition tensor_data :: "DGTensor \<Rightarrow> bytes" where
  "tensor_data t = drop (tn_at t) (tn_data t)"

definition dg_at :: "('f, 'd) fpu \<Rightarrow> DGTensor \<Rightarrow> nat \<Rightarrow> 'f result" where
  "dg_at F t i = (if i * 2 + 1 < length (tensor_data t) then Inr (dg_bf F (tensor_data t) (i * 2)) else Inl Undefined)"

definition dg_f8e4m3 :: "('f, 'd) fpu \<Rightarrow> byte \<Rightarrow> 'f" where
  "dg_f8e4m3 F u =
     (let e = drop_bit 3 (ucast u) AND 15 :: u32; m = ucast u AND 7 :: u32;
          x = (if e \<noteq> 0 then fl_of_bits F (push_bit 23 (e + 120) OR push_bit 20 m)
               else fl_mul F (fl_int F (uint m)) (fl_lit F ''0x1p-9f''))
      in if drop_bit 7 u \<noteq> 0 then fl_neg F x else x)"

text \<open>The binary search for the two neighbours of \<open>x\<close> among the encodings.\<close>

function f8_search :: "('f, 'd) fpu \<Rightarrow> 'f \<Rightarrow> nat \<Rightarrow> nat \<Rightarrow> nat \<times> nat" where
  "f8_search F x lo hi =
     (if lo + 1 < hi then
        let m = (lo + hi) div 2 in
        if fl_less F (dg_f8e4m3 F (of_nat m)) x then f8_search F x m hi else f8_search F x lo m
      else (lo, hi))"
  by pat_completeness auto
termination
  by (relation "measure (\<lambda>(F, x, lo, hi). hi - lo)") auto

declare f8_search.simps [simp del]

definition dg_f8e4m3_round :: "('f, 'd) fpu \<Rightarrow> 'f \<Rightarrow> 'f" where
  "dg_f8e4m3_round F x =
     (if \<not> fl_less F (fl_zero F) x then fl_zero F
      else if fl_le F (fl_int F 448) x then fl_int F 448
      else
        let (lo, hi) = f8_search F x 0 126;
            a = dg_f8e4m3 F (of_nat lo); b = dg_f8e4m3 F (of_nat hi);
            da = fl_sub F x a; db = fl_sub F b x
        in if fl_less F da db \<or> (fl_eq F da db \<and> even lo) then a else b)"

text \<open>The eight magnitudes of E2M1.\<close>

definition e2m1_table :: "('f, 'd) fpu \<Rightarrow> 'f list" where
  "e2m1_table F = [fl_int F 0, fl_lit F ''.5f'', fl_int F 1, fl_lit F ''1.5f'', fl_int F 2, fl_int F 3, fl_int F 4, fl_int F 6]"

definition e2m1_best :: "('f, 'd) fpu \<Rightarrow> 'f \<Rightarrow> nat" where
  "e2m1_best F a =
     fold (\<lambda>i best.
       let d = fl_abs F (fl_sub F a (e2m1_table F ! i)); old = fl_abs F (fl_sub F a (e2m1_table F ! best)) in
       if fl_less F d old \<or> (fl_eq F d old \<and> even i) then i else best) [1..<8] 0"

definition dg_e2m1_round :: "('f, 'd) fpu \<Rightarrow> 'f \<Rightarrow> 'f" where
  "dg_e2m1_round F x =
     (let q = e2m1_table F ! e2m1_best F (fl_abs F x) in if fl_signbit F x then fl_neg F q else q)"

section \<open>The NVFP4 quantizer\<close>

fun block_max :: "('f, 'd) fpu \<Rightarrow> 'f list \<Rightarrow> 'f \<Rightarrow> 'f" where
  "block_max F [] amax = amax"
| "block_max F (x # xs) amax = block_max F xs (if fl_less F amax (fl_abs F x) then fl_abs F x else amax)"

text \<open>A block of finite values at its scale.\<close>

definition quantize_block :: "('f, 'd) fpu \<Rightarrow> 'f \<Rightarrow> 'f list \<Rightarrow> 'f \<Rightarrow> 'f list" where
  "quantize_block F base x amax =
     (let s = fl_mul F (dg_f8e4m3_round F (fl_div F (fl_div F amax (fl_int F 6)) base)) base in
      if fl_eq F s (fl_zero F) then replicate 16 (fl_of_bits F 0)
      else map (\<lambda>v. fl_mul F (dg_e2m1_round F (fl_div F v s)) s) x)"

fun block_max_checked :: "('f, 'd) fpu \<Rightarrow> 'f list \<Rightarrow> 'f \<Rightarrow> 'f result" where
  "block_max_checked F [] amax = Inr amax"
| "block_max_checked F (x # xs) amax =
     (if \<not> fl_finite F x then die ''non-finite NVFP4 activation''
      else block_max_checked F xs (if fl_less F amax (fl_abs F x) then fl_abs F x else amax))"

definition qdq_scale_bad :: "('f, 'd) fpu \<Rightarrow> nat \<Rightarrow> 'f \<Rightarrow> bool" where
  "qdq_scale_bad F cols base \<longleftrightarrow> \<not> fl_finite F base \<or> \<not> fl_less F (fl_zero F) base \<or> cols mod 32 \<noteq> 0"

definition row_block :: "'a list \<Rightarrow> nat \<Rightarrow> 'a list" where
  "row_block x b = take 16 (drop (b * 16) x)"

definition dg_nvfp4_qdq_ref :: "('f, 'd) fpu \<Rightarrow> 'f list list \<Rightarrow> nat \<Rightarrow> 'f \<Rightarrow> 'f list list result" where
  "dg_nvfp4_qdq_ref F xs cols base =
     (if qdq_scale_bad F cols base then die ''invalid NVFP4 activation scale''
      else
        collect (\<lambda>row.
          bindE (collect (\<lambda>b.
              bindE (block_max_checked F (row_block row b) (fl_zero F)) (\<lambda>amax.
                Inr (quantize_block F base (row_block row b) amax))) [0..<cols div 16])
            (\<lambda>blocks. Inr (concat blocks))) xs)"

text \<open>
  Every block by itself; a block with a value that is not finite is skipped, and remembered.
\<close>

definition qdq_block :: "('f, 'd) fpu \<Rightarrow> 'f \<Rightarrow> 'f list \<Rightarrow> 'f list option" where
  "qdq_block F base x =
     (if \<not> list_all (fl_finite F) x then None
      else Some (quantize_block F base x (block_max F x (fl_zero F))))"

definition dg_nvfp4_qdq_parallel :: "('f, 'd) fpu \<Rightarrow> 'f list list \<Rightarrow> nat \<Rightarrow> 'f \<Rightarrow> 'f list list result" where
  "dg_nvfp4_qdq_parallel F xs cols base =
     (if qdq_scale_bad F cols base then die ''invalid NVFP4 activation scale''
      else
        let nb = cols div 16;
            blocks = map (\<lambda>z. qdq_block F base (row_block (xs ! (z div nb)) (z mod nb))) [0..<length xs * nb]
        in if None \<in> set blocks then die ''non-finite NVFP4 activation''
           else Inr (map (\<lambda>t. concat (map (\<lambda>b. the (blocks ! (t * nb + b))) [0..<nb])) [0..<length xs]))"

section \<open>Matrix products\<close>

text \<open>
  One row of BF16 weights against every token: the weight of a column is read once, and added
  into the sum of each token.
\<close>

definition dg_mm_sums :: "('f, 'd) fpu \<Rightarrow> bytes \<Rightarrow> 'f list list \<Rightarrow> nat \<Rightarrow> nat \<Rightarrow> 'f list" where
  "dg_mm_sums F data xs cols r =
     fold (\<lambda>c. map2 (\<lambda>x s. fl_add F s (fl_mul F (dg_bf F data ((r * cols + c) * 2)) (x ! c))) xs)
       [0..<cols] (replicate (length xs) (fl_zero F))"

definition dg_mm_data_ref :: "('f, 'd) fpu \<Rightarrow> bytes \<Rightarrow> 'f list list \<Rightarrow> nat \<Rightarrow> nat \<Rightarrow> 'f list list result" where
  "dg_mm_data_ref F data xs rows cols =
     (if length data < rows * cols * 2 then Inl Undefined
      else
        let sums = map (dg_mm_sums F data xs cols) [0..<rows]
        in Inr (map (\<lambda>t. map (\<lambda>r. sums ! r ! t) [0..<rows]) [0..<length xs]))"

definition dg_mm_data :: "('f, 'd) fpu \<Rightarrow> bytes \<Rightarrow> 'f list list \<Rightarrow> nat \<Rightarrow> nat \<Rightarrow> 'f list list result" where
  "dg_mm_data F data xs rows cols =
     (if length xs < 1 \<or> length xs > JB_MAX_CTX then die ''DiffusionGemma sequence exceeds context limit''
      else if rows < 2 \<or> odd rows then die ''matrix row count must be even''
      else dg_mm_data_ref F data xs rows cols)"

definition dg_mm :: "('f, 'd) fpu \<Rightarrow> DGTensor \<Rightarrow> 'f list list \<Rightarrow> nat \<Rightarrow> nat \<Rightarrow> 'f list list result" where
  "dg_mm F w xs rows cols =
     (if length (tn_shape w) \<noteq> 2 \<or> tn_shape w ! 0 \<noteq> rows \<or> tn_shape w ! 1 \<noteq> cols
      then die2 ''bad matrix shape'' (tn_name w)
      else dg_mm_data F (tensor_data w) xs rows cols)"

definition dg_mv_slice :: "('f, 'd) fpu \<Rightarrow> DGTensor \<Rightarrow> nat \<Rightarrow> 'f list \<Rightarrow> nat \<Rightarrow> nat \<Rightarrow> 'f list result" where
  "dg_mv_slice F w base x rows cols =
     (if length (tensor_data w) < (base + rows * cols) * 2 then Inl Undefined
      else Inr (map (\<lambda>r.
        foldl (\<lambda>s c. fl_add F s (fl_mul F (dg_bf F (tensor_data w) ((base + r * cols + c) * 2)) (x ! c)))
          (fl_lit F ''0.0f'') [0..<cols]) [0..<rows]))"

section \<open>NVFP4 products\<close>

record 'f DGNvMatrix =
  nm_w :: bytes
  nm_s :: bytes
  nm_global :: 'f

text \<open>\<open>memcpy\<close> of a little-endian float.\<close>

definition f32_at :: "('f, 'd) fpu \<Rightarrow> bytes \<Rightarrow> 'f result" where
  "f32_at F p =
     (if length p < 4 then Inl Undefined
      else Inr (fl_of_bits F (ucast (p ! 0) OR push_bit 8 (ucast (p ! 1)) OR push_bit 16 (ucast (p ! 2)) OR
                              push_bit 24 (ucast (p ! 3)))))"

definition dg_nvfp4_matrix ::
  "('f, 'd) fpu \<Rightarrow> DGTensor \<Rightarrow> DGTensor \<Rightarrow> DGTensor \<Rightarrow> nat \<Rightarrow> nat \<Rightarrow> 'f DGNvMatrix result" where
  "dg_nvfp4_matrix F w s g rows cols =
     (if tn_dtype w \<noteq> DG_U8 \<or> length (tn_shape w) \<noteq> 2 \<or> tn_shape w ! 0 \<noteq> rows \<or> tn_shape w ! 1 \<noteq> cols div 2 \<or>
         tn_dtype s \<noteq> DG_F8E4M3 \<or> length (tn_shape s) \<noteq> 2 \<or> tn_shape s ! 0 \<noteq> rows \<or> tn_shape s ! 1 \<noteq> cols div 16 \<or>
         tn_dtype g \<noteq> DG_F32 \<or> length (tn_shape g) \<noteq> 0 \<or> tn_bytes g \<noteq> 4 \<or> cols mod 32 \<noteq> 0 \<or> odd rows
      then die2 ''bad NVFP4 expert tensor'' (tn_name w)
      else bindE (f32_at F (tensor_data g)) (\<lambda>global.
        Inr \<lparr>nm_w = tensor_data w, nm_s = tensor_data s, nm_global = global\<rparr>))"

text \<open>One signed E2M1 value: its magnitude's index and its sign bit.\<close>

definition e2m1_value :: "('f, 'd) fpu \<Rightarrow> byte \<Rightarrow> bool \<Rightarrow> 'f" where
  "e2m1_value F i neg = (let w = e2m1_table F ! unat (i AND 7) in if neg then fl_neg F w else w)"

definition nvfp4_sum :: "('f, 'd) fpu \<Rightarrow> 'f DGNvMatrix \<Rightarrow> nat \<Rightarrow> nat \<Rightarrow> 'f list \<Rightarrow> 'f" where
  "nvfp4_sum F m cols r x =
     foldl (\<lambda>sum b.
       let scale = fl_mul F (dg_f8e4m3 F (nm_s m ! (r * (cols div 16) + b))) (nm_global m) in
       foldl (\<lambda>sum k.
         let v = nm_w m ! (r * (cols div 2) + b * 8 + k);
             wl = e2m1_value F v (v AND 8 \<noteq> 0); wh = e2m1_value F (drop_bit 4 v) (v AND 128 \<noteq> 0)
         in fl_add F sum (fl_mul F scale (fl_add F (fl_mul F wl (x ! (b * 16 + k * 2)))
              (fl_mul F wh (x ! (b * 16 + k * 2 + 1)))))) sum [0..<8]) (fl_zero F) [0..<cols div 16]"

definition dg_nvfp4_mm_ref :: "('f, 'd) fpu \<Rightarrow> 'f DGNvMatrix \<Rightarrow> 'f list list \<Rightarrow> nat \<Rightarrow> nat \<Rightarrow> 'f list list result" where
  "dg_nvfp4_mm_ref F m xs rows cols =
     (if length (nm_w m) < rows * (cols div 2) \<or> length (nm_s m) < rows * (cols div 16) then Inl Undefined
      else Inr (map (\<lambda>x. map (\<lambda>r. nvfp4_sum F m cols r x) [0..<rows]) xs))"

definition dg_nvfp4_mm ::
  "('f, 'd) fpu \<Rightarrow> DGTensor \<Rightarrow> DGTensor \<Rightarrow> DGTensor \<Rightarrow> 'f list list \<Rightarrow> nat \<Rightarrow> nat \<Rightarrow> 'f list list result" where
  "dg_nvfp4_mm F w s g xs rows cols =
     bindE (dg_nvfp4_matrix F w s g rows cols) (\<lambda>m. dg_nvfp4_mm_ref F m xs rows cols)"

section \<open>Elementary functions\<close>

text \<open>The strict builds' exponential.\<close>

definition dg_expf_scaled :: "('f, 'd) fpu \<Rightarrow> 'f \<Rightarrow> int \<Rightarrow> 'f" where
  "dg_expf_scaled F p e =
     (if e > 127 then fl_mul F (fl_mul F p (fl_of_bits F (push_bit 23 254))) (fl_lit F ''2.0f'')
      else if e < -126 then fl_mul F (fl_mul F p (fl_of_bits F (push_bit 23 (of_int (e + 253))))) (fl_lit F ''0x1p-126f'')
      else fl_mul F p (fl_of_bits F (push_bit 23 (of_int (e + 127)))))"

definition dg_expf :: "('f, 'd) fpu \<Rightarrow> 'f \<Rightarrow> 'f" where
  "dg_expf F x =
     (if \<not> fl_eq F x x then x
      else if fl_less F (fl_lit F ''88.72283935546875f'') x then fl_inf F
      else if fl_less F x (fl_neg F (fl_lit F ''103.97207641601562f'')) then fl_zero F
      else
        let e = fl_trunc F (fl_add F (fl_mul F x (fl_lit F ''1.44269504088896341f''))
                  (if fl_less F x (fl_zero F) then fl_neg F (fl_lit F ''0.5f'') else fl_lit F ''0.5f''));
            n = fl_int F e;
            r = fl_sub F x (fl_mul F n (fl_lit F ''0.693359375f''));
            r = fl_sub F r (fl_mul F n (fl_neg F (fl_lit F ''2.12194440e-4f'')));
            p = foldl (\<lambda>p c. fl_add F (fl_mul F p r) (fl_lit F c)) (fl_lit F ''1.9875691500e-4f'')
                  [''1.3981999507e-3f'', ''8.3334519073e-3f'', ''4.1665795894e-2f'', ''1.6666665459e-1f'', ''5.0000001201e-1f''];
            p = fl_add F (fl_add F (fl_mul F p (fl_mul F r r)) r) (fl_lit F ''1.0f'')
        in dg_expf_scaled F p e)"

definition dg_tanhf :: "('f, 'd) fpu \<Rightarrow> 'f \<Rightarrow> 'f" where
  "dg_tanhf F x =
     (let a = (if fl_less F x (fl_zero F) then fl_neg F x else x) in
      if fl_less F a (fl_lit F ''0x1p-12f'') then x
      else if fl_less F a (fl_lit F ''0.625f'') then
        let z = fl_mul F x x;
            p = fl_neg F (fl_lit F ''5.70498872745e-3f'');
            p = fl_add F (fl_mul F p z) (fl_lit F ''2.06390887954e-2f'');
            p = fl_sub F (fl_mul F p z) (fl_lit F ''5.37397155531e-2f'');
            p = fl_add F (fl_mul F p z) (fl_lit F ''1.33314422036e-1f'');
            p = fl_sub F (fl_mul F p z) (fl_lit F ''3.33332819422e-1f'')
        in fl_add F (fl_mul F (fl_mul F p z) x) x
      else if fl_le F (fl_lit F ''10.0f'') a then
        if fl_less F x (fl_zero F) then fl_neg F (fl_lit F ''1.0f'') else fl_lit F ''1.0f''
      else
        let t = fl_sub F (fl_lit F ''1.0f'')
                  (fl_div F (fl_lit F ''2.0f'') (fl_add F (dg_expf F (fl_add F a a)) (fl_lit F ''1.0f'')))
        in if fl_less F x (fl_zero F) then fl_neg F t else t)"

text \<open>The router's exponential, after its special cases.\<close>

definition dg_exp_poly :: "('f, 'd) fpu \<Rightarrow> 'd \<Rightarrow> 'd" where
  "dg_exp_poly F x =
     (let A = dbl F; t = mul_d A x x;
          s = foldl (\<lambda>s p. add_d A p (mul_d A t s)) (db_lit F ''4.13813679705723846039e-08'')
                [db_neg F (db_lit F ''1.65339022054652515390e-06''), db_lit F ''6.61375632143793436117e-05'',
                 db_neg F (db_lit F ''2.77777777770155933842e-03''), db_lit F ''1.66666666666666019037e-01'']
      in sub_d A x (mul_d A t s))"

definition dg_exp_reduced :: "('f, 'd) fpu \<Rightarrow> 'd \<Rightarrow> 'd \<Rightarrow> 'd \<Rightarrow> int \<Rightarrow> 'd" where
  "dg_exp_reduced F x hi lo k =
     (let A = dbl F; c = dg_exp_poly F x; one = db_lit F ''1.0''; two = db_lit F ''2.0'' in
      if k = 0 then sub_d A one (sub_d A (div_d A (mul_d A x c) (sub_d A c two)) x)
      else
        let y = sub_d A one (sub_d A (sub_d A lo (div_d A (mul_d A x c) (sub_d A two c))) hi) in
        if k \<ge> -1021 then db_of_bits F (db_bits F y + push_bit 52 (of_int k))
        else mul_d A (db_of_bits F (db_bits F y + push_bit 52 (of_int (k + 1000)))) (db_lit F ''9.33263618503218878990e-302''))"

definition dg_exp :: "('f, 'd) fpu \<Rightarrow> 'd \<Rightarrow> 'd" where
  "dg_exp F x =
     (let A = dbl F;
          ln2_hi = db_lit F ''6.93147180369123816490e-01''; ln2_lo = db_lit F ''1.90821492927058770002e-10'';
          hx = ucast (drop_bit 32 (db_bits F x)) AND 0x7fffffff :: u32;
          negative = (drop_bit 63 (db_bits F x) \<noteq> 0)
      in if hx \<ge> 0x40862E42 \<and> hx \<ge> 0x7ff00000 then
           (if \<not> db_eq F x x then add_d A x x else if negative then db_lit F ''0.0'' else x)
         else if hx \<ge> 0x40862E42 \<and> less_d A (db_lit F ''7.09782712893383973096e+02'') x then db_inf F
         else if hx \<ge> 0x40862E42 \<and> less_d A x (db_neg F (db_lit F ''7.45133219101941108420e+02'')) then db_lit F ''0.0''
         else if hx > 0x3fd62e42 then
           if hx < 0x3FF0A2B2 then
             let hi = (if negative then add_d A x ln2_hi else sub_d A x ln2_hi);
                 lo = (if negative then db_neg F ln2_lo else ln2_lo)
             in dg_exp_reduced F (sub_d A hi lo) hi lo (if negative then -1 else 1)
           else
             let k = db_trunc F (add_d A (mul_d A (db_lit F ''1.44269504088896338700e+00'') x)
                       (if negative then db_neg F (db_lit F ''0.5'') else db_lit F ''0.5''));
                 t = db_of_int F k;
                 hi = sub_d A x (mul_d A t ln2_hi);
                 lo = mul_d A t ln2_lo
             in dg_exp_reduced F (sub_d A hi lo) hi lo k
         else if hx < 0x3e300000 then add_d A (db_lit F ''1.0'') x
         else dg_exp_reduced F x (db_of_int F 0) (db_of_int F 0) 0)"

definition dg_gelu :: "('f, 'd) fpu \<Rightarrow> 'f \<Rightarrow> 'f" where
  "dg_gelu F x =
     fl_mul F (fl_mul F (fl_lit F ''.5f'') x)
       (fl_add F (fl_lit F ''1.0f'') (dg_tanhf F (fl_mul F (fl_lit F ''.7978845608028654f'')
         (fl_add F x (fl_mul F (fl_mul F (fl_mul F (fl_lit F ''.044715f'') x) x) x)))))"

definition dg_gelu_gate :: "('f, 'd) fpu \<Rightarrow> 'f list list \<Rightarrow> 'f list list \<Rightarrow> 'f list list" where
  "dg_gelu_gate F g h = map2 (map2 (\<lambda>g h. fl_mul F (dg_gelu F g) h)) g h"

definition dg_nvfp4_gated_each ::
  "('f, 'd) fpu \<Rightarrow> 'f DGNvMatrix \<Rightarrow> 'f DGNvMatrix \<Rightarrow> 'f list list \<Rightarrow> nat \<Rightarrow> nat \<Rightarrow> 'f list list result" where
  "dg_nvfp4_gated_each F gate up xs rows cols =
     bindE (dg_nvfp4_mm_ref F gate xs rows cols) (\<lambda>g.
     bindE (dg_nvfp4_mm_ref F up xs rows cols) (\<lambda>h. Inr (dg_gelu_gate F g h)))"

definition dg_nvfp4_gated :: "('f, 'd) fpu \<Rightarrow> DGNvExpert \<Rightarrow> 'f list list \<Rightarrow> nat \<Rightarrow> nat \<Rightarrow> 'f list list result" where
  "dg_nvfp4_gated F v xs rows cols =
     bindE (dg_nvfp4_matrix F (nx_wg v) (nx_sg v) (nx_gg v) rows cols) (\<lambda>gate.
     bindE (dg_nvfp4_matrix F (nx_wu v) (nx_su v) (nx_gu v) rows cols) (\<lambda>up.
       dg_nvfp4_gated_each F gate up xs rows cols))"

section \<open>Normalization and dot products\<close>

definition dg_rms_inverse :: "('f, 'd) fpu \<Rightarrow> 'f list \<Rightarrow> 'f" where
  "dg_rms_inverse F x =
     (let A = dbl F; ss = foldl (\<lambda>ss v. add_d A ss (mul_d A (wide F v) (wide F v))) (db_lit F ''0.0'') x in
      fl_div F (fl_lit F ''1.0f'')
        (fl_sqrt F (fl_add F (narrow F (div_d A ss (of_nat_d A (length x)))) (fl_lit F ''1e-6f''))))"

text \<open>A missing scale is 1.\<close>

definition dg_rms_ref :: "('f, 'd) fpu \<Rightarrow> DGTensor option \<Rightarrow> 'f list \<Rightarrow> 'f list result" where
  "dg_rms_ref F scale x =
     (let q = dg_rms_inverse F x in
      collect (\<lambda>i. bindE (case scale of Some t \<Rightarrow> dg_at F t i | None \<Rightarrow> Inr (fl_lit F ''1.0f'')) (\<lambda>s.
        Inr (fl_mul F (fl_mul F (x ! i) q) s))) [0..<length x])"

definition dg_dot_ref :: "('f, 'd) fpu \<Rightarrow> 'f list \<Rightarrow> 'f list \<Rightarrow> 'd" where
  "dg_dot_ref F a b =
     foldl (\<lambda>s (x, y). add_d (dbl F) s (mul_d (dbl F) (wide F x) (wide F y))) (db_of_int F 0) (zip a b)"

definition dg_dots_each :: "('f, 'd) fpu \<Rightarrow> 'f list \<Rightarrow> 'f list list \<Rightarrow> 'f list" where
  "dg_dots_each F a bs = map (\<lambda>b. narrow F (dg_dot_ref F a b)) bs"

section \<open>Entropy of the answer slots\<close>

text \<open>The requested ids: sorted, distinct, and at most 128, the smallest.\<close>

definition request_id :: "int list \<Rightarrow> int \<Rightarrow> int list" where
  "request_id requested i =
     (let at = length (takeWhile (\<lambda>r. r < i) requested) in
      if at < length requested \<and> requested ! at = i then requested
      else if length requested < DG_CHOICE_LABELS then take at requested @ i # drop at requested
      else if at < DG_CHOICE_LABELS then take DG_CHOICE_LABELS (take at requested @ i # drop at requested)
      else requested)"

definition requested_ids :: "int list list \<Rightarrow> int list" where
  "requested_ids label_ids = foldl request_id [] (concat label_ids)"

text \<open>Insert into a descending array of fixed size, in front of the first smaller value.\<close>

fun top_insert :: "('f, 'd) fpu \<Rightarrow> 'f \<Rightarrow> int \<Rightarrow> ('f \<times> int) list \<Rightarrow> ('f \<times> int) list" where
  "top_insert F z v [] = []"
| "top_insert F z v (u # us) = (if fl_less F (fst u) z then (z, v) # butlast (u # us) else u # top_insert F z v us)"

definition top_twenty :: "('f, 'd) fpu \<Rightarrow> 'f list \<Rightarrow> ('f \<times> int) list" where
  "top_twenty F row =
     fold (\<lambda>(v, z) tops. if \<not> fl_less F (fst (tops ! 19)) z then tops else top_insert F z (int v) tops)
       (enumerate 0 row) (replicate 20 (fl_neg F (fl_max F), -1))"

definition row_max :: "('f, 'd) fpu \<Rightarrow> 'f list \<Rightarrow> 'f" where
  "row_max F row = fold (\<lambda>z mx. if fl_less F mx z then z else mx) row (fl_neg F (fl_max F))"

definition entropy_term :: "'d arith \<Rightarrow> 'd \<Rightarrow> 'd \<Rightarrow> 'd" where
  "entropy_term A entropy p =
     (if less_d A (zero_d A) p then sub_d A entropy (mul_d A p (log_d A p)) else entropy)"

definition rd_id :: "'a list \<Rightarrow> int \<Rightarrow> 'a result" where
  "rd_id xs i = (if i < 0 then Inl Undefined else rd xs (nat i))"

fun entropy_requested :: "('f, 'd) fpu \<Rightarrow> 'f list \<Rightarrow> ('f \<times> int) list \<Rightarrow> 'f \<Rightarrow> 'd \<Rightarrow> int list \<Rightarrow> 'd \<Rightarrow> 'd result" where
  "entropy_requested F row tops mx den [] entropy = Inr entropy"
| "entropy_requested F row tops mx den (i # is) entropy =
     (if i \<in> set (map snd tops) then entropy_requested F row tops mx den is entropy
      else bindE (rd_id row i) (\<lambda>z.
        entropy_requested F row tops mx den is
          (entropy_term (dbl F) entropy (div_d (dbl F) (exp_d (dbl F) (sub_d (dbl F) (wide F z) (wide F mx))) den))))"

text \<open>One slot: the scores of its labels, and its entropy.\<close>

definition slot_entropy :: "('f, 'd) fpu \<Rightarrow> int list \<Rightarrow> 'f list \<Rightarrow> int list \<Rightarrow> ('d list \<times> 'd) result" where
  "slot_entropy F requested row ids =
     (let A = dbl F; tops = top_twenty F row; mx = row_max F row;
          terms = map (\<lambda>z. exp_d A (sub_d A (wide F z) (wide F mx))) row;
          den = foldl (add_d A) (zero_d A) terms;
          entropy = foldl (\<lambda>h (z, v). entropy_term A h (div_d A (exp_d A (sub_d A (wide F z) (wide F mx))) den)) (zero_d A) tops
      in bindE (collect (\<lambda>i. bindE (rd_id row i) (\<lambda>z. Inr (wide F z))) ids) (\<lambda>score.
         bindE (entropy_requested F row tops mx den requested entropy) (\<lambda>entropy. Inr (score, entropy))))"

definition dg_slot_logits_entropy ::
  "('f, 'd) fpu \<Rightarrow> int list list \<Rightarrow> 'f list list \<Rightarrow> ('d list list \<times> 'd) result" where
  "dg_slot_logits_entropy F label_ids logits =
     (if length logits < 1 \<or> length logits > DG_AUTO_READ_MAX_QUESTIONS then die ''bad DiffusionGemma answer slot count''
      else
        let requested = requested_ids label_ids;
            capped = map (map (\<lambda>z. fl_mul F (fl_lit F ''30.0f'') (dg_tanhf F (fl_div F z (fl_lit F ''30.0f''))))) logits
        in bindE (collect (\<lambda>(row, ids). slot_entropy F requested row ids) (zip capped label_ids)) (\<lambda>slots.
           Inr (map fst slots,
                fold (\<lambda>e mx. if less_d (dbl F) mx e then e else mx) (map snd slots) (zero_d (dbl F)))))"

end
