(* ===== verification/Forward.thy ===== *)
theory Forward
  imports Kernels
begin

text \<open>
  The forward passes of \<open>src/engine.inc\<close> on the CPU: rotary positions, attention over segments with
  cached keys and values, the router and its experts, a layer, and the passes that fill the K/V of
  a prompt, extend it by a suffix, and decode answer canvases.

  Rows of activations are lists of lists, a \<open>DGKV\<close> is its rows, and a pass returns what the code
  stores through its pointers. The arena that the rows live in is the subject of theory
  \<open>Workspace\<close>; the accelerator's passes are left out.
\<close>

record 'f DGKV =
  kv_k :: "'f list list"
  kv_v :: "'f list list"

abbreviation kv_n :: "'f DGKV \<Rightarrow> nat" where
  "kv_n c \<equiv> length (kv_k c)"

text \<open>The first \<open>n\<close> rows.\<close>

definition take_kv :: "nat \<Rightarrow> 'f DGKV \<Rightarrow> 'f DGKV" where
  "take_kv n c = \<lparr>kv_k = take n (kv_k c), kv_v = take n (kv_v c)\<rparr>"

datatype dg_mode = DG_CAUSAL | DG_CANVAS | DG_SUFFIX

definition dg_layer_tensor :: "DGModel \<Rightarrow> nat \<Rightarrow> string \<Rightarrow> DGTensor result" where
  "dg_layer_tensor m l tail = dg_tensor m (take 191 (layer_name l tail))"

definition dg_full :: "nat \<Rightarrow> bool" where
  "dg_full l \<longleftrightarrow> l mod DG_FULL_EVERY = DG_FULL_EVERY - 1"

definition dg_head_dim :: "nat \<Rightarrow> nat" where
  "dg_head_dim l = (if dg_full l then DG_FULL_HEAD_DIM else DG_LOCAL_HEAD_DIM)"

definition dg_kv_heads :: "nat \<Rightarrow> nat" where
  "dg_kv_heads l = (if dg_full l then DG_FULL_KV_HEADS else DG_LOCAL_KV_HEADS)"

text \<open>\<open>x + h * hw\<close>, for \<open>hw\<close> values.\<close>

definition head_slice :: "nat \<Rightarrow> nat \<Rightarrow> 'f list \<Rightarrow> 'f list" where
  "head_slice hw h x = take hw (drop (h * hw) x)"

section \<open>Heads and positions\<close>

definition dg_rope :: "('f, 'd) fpu \<Rightarrow> nat \<Rightarrow> nat \<Rightarrow> 'f list \<Rightarrow> 'f list \<Rightarrow> 'f list \<Rightarrow> 'f list" where
  "dg_rope F heads hw cv sv x =
     (let half = hw div 2 in
      concat (map (\<lambda>h.
        let v = head_slice hw h x in
        map (\<lambda>i. fl_sub F (fl_mul F (v ! i) (cv ! i)) (fl_mul F (v ! (i + half)) (sv ! i))) [0..<half] @
        map (\<lambda>i. fl_add F (fl_mul F (v ! (i + half)) (cv ! i)) (fl_mul F (v ! i) (sv ! i))) [0..<half]) [0..<heads]))"

definition dg_norm_heads :: "('f, 'd) fpu \<Rightarrow> DGTensor option \<Rightarrow> nat \<Rightarrow> nat \<Rightarrow> 'f list \<Rightarrow> 'f list result" where
  "dg_norm_heads F scale heads hw x =
     bindE (collect (\<lambda>h. dg_rms_ref F scale (head_slice hw h x)) [0..<heads]) (\<lambda>hs. Inr (concat hs))"

text \<open>The rotary frequency of pair \<open>i\<close>, and the angles of a position.\<close>

definition rope_inv :: "('f, 'd) fpu \<Rightarrow> nat \<Rightarrow> nat \<Rightarrow> 'f" where
  "rope_inv F l i =
     (let hw = dg_head_dim l; rotated = (if dg_full l then DG_FULL_ROPE_DIM else hw div 2) in
      if i < rotated then
        fl_pow F (if dg_full l then fl_lit F ''1000000.0f'' else fl_lit F ''10000.0f'')
          (fl_div F (fl_neg F (fl_int F (int (2 * i)))) (fl_int F (int hw)))
      else fl_int F 0)"

definition rope_angles :: "('f, 'd) fpu \<Rightarrow> nat \<Rightarrow> nat \<Rightarrow> 'f list" where
  "rope_angles F l pos = map (\<lambda>i. fl_mul F (fl_int F (int pos)) (rope_inv F l i)) [0..<dg_head_dim l div 2]"

text \<open>The queries, keys and values of one token at its position.\<close>

definition prepare_token ::
  "('f, 'd) fpu \<Rightarrow> nat \<Rightarrow> DGTensor \<Rightarrow> DGTensor \<Rightarrow> nat \<Rightarrow> 'f list \<times> 'f list \<times> 'f list \<Rightarrow> ('f list \<times> 'f list \<times> 'f list) result" where
  "prepare_token F l qnrm knrm pos = (\<lambda>(q, k, v).
     (let hw = dg_head_dim l; kvh = dg_kv_heads l;
          cv = map (fl_cos F) (rope_angles F l pos); sv = map (fl_sin F) (rope_angles F l pos) in
      bindE (dg_norm_heads F (Some qnrm) DG_HEADS hw q) (\<lambda>q.
      bindE (dg_norm_heads F (Some knrm) kvh hw k) (\<lambda>k.
      bindE (dg_norm_heads F None kvh hw v) (\<lambda>v.
        Inr (dg_rope F DG_HEADS hw cv sv q, dg_rope F kvh hw cv sv k, v))))))"

section \<open>Attention\<close>

text \<open>The first key a token attends to, and the end of its keys.\<close>

definition attention_range :: "bool \<Rightarrow> dg_mode \<Rightarrow> nat \<Rightarrow> nat \<Rightarrow> nat \<Rightarrow> nat \<times> nat" where
  "attention_range full mode old seq t =
     (let stop = (if mode = DG_CANVAS then old + seq else old + t + 1) in
      if full then (0, stop)
      else if mode = DG_CANVAS then
        let pos = old + t in
        (if pos \<ge> DG_LOCAL_WINDOW then pos - DG_LOCAL_WINDOW + 1 else 0,
         if stop > pos + DG_LOCAL_WINDOW then pos + DG_LOCAL_WINDOW else stop)
      else (if stop > DG_LOCAL_WINDOW then stop - DG_LOCAL_WINDOW else 0, stop))"

text \<open>The weighted values of one head: cached keys first, then the segment's own.\<close>

definition attention_head ::
  "('f, 'd) fpu \<Rightarrow> nat \<Rightarrow> nat \<Rightarrow> 'f list \<Rightarrow> 'f DGKV \<Rightarrow> 'f DGKV \<Rightarrow> nat \<Rightarrow> nat \<Rightarrow> 'f list" where
  "attention_head F hw kh qq cached own start stop =
     (let old = kv_n cached;
          split = (if stop < old then stop else old); fresh = (if start > old then start else old);
          ts = (if start < split then dg_dots_each F qq (map (head_slice hw kh) (span_of (kv_k cached) start split)) else []) @
               (if fresh < stop then dg_dots_each F qq (map (head_slice hw kh) (span_of (kv_k own) (fresh - old) (stop - old))) else []);
          mx = fold (\<lambda>t mx. if fl_less F mx t then t else mx) ts (fl_neg F (fl_max F));
          es = map (\<lambda>t. dg_expf F (fl_sub F t mx)) ts;
          den = foldl (fl_add F) (fl_zero F) es;
          vs = map (\<lambda>j. head_slice hw kh (if j < old then kv_v cached ! j else kv_v own ! (j - old))) [start..<stop]
      in foldl (\<lambda>oo (e, vv). map2 (\<lambda>y v. fl_add F y (fl_mul F (fl_div F e den) v)) oo vv)
           (replicate hw (fl_of_bits F 0)) (zip es vs))"

definition attention_token ::
  "('f, 'd) fpu \<Rightarrow> nat \<Rightarrow> dg_mode \<Rightarrow> nat \<Rightarrow> 'f DGKV \<Rightarrow> 'f DGKV \<Rightarrow> nat \<Rightarrow> 'f list \<Rightarrow> 'f list" where
  "attention_token F l mode seq cached own t q =
     (let hw = dg_head_dim l; (start, stop) = attention_range (dg_full l) mode (kv_n cached) seq t in
      concat (map (\<lambda>h. attention_head F hw (h div (DG_HEADS div dg_kv_heads l)) (head_slice hw h q) cached own start stop)
        [0..<DG_HEADS]))"

definition no_kv :: "'f DGKV" where
  "no_kv = \<lparr>kv_k = [], kv_v = []\<rparr>"

text \<open>The cache of segment \<open>s\<close>, and its own rows.\<close>

definition segment_cache :: "'f DGKV list option \<Rightarrow> nat \<Rightarrow> 'f DGKV" where
  "segment_cache cache s = (case cache of Some cs \<Rightarrow> cs ! s | None \<Rightarrow> no_kv)"

definition segment_own :: "nat \<Rightarrow> 'f list list \<Rightarrow> 'f list list \<Rightarrow> nat \<Rightarrow> 'f DGKV" where
  "segment_own seq k v s = \<lparr>kv_k = take seq (drop (s * seq) k), kv_v = take seq (drop (s * seq) v)\<rparr>"

text \<open>Each segment's K/V output; \<open>planned\<close> is the \<open>n\<close> its storage was planned for.\<close>

definition dg_kv_output ::
  "nat list \<Rightarrow> 'f DGKV list option \<Rightarrow> nat list \<Rightarrow> nat \<Rightarrow> nat \<Rightarrow> 'f list list \<Rightarrow> 'f list list \<Rightarrow> 'f DGKV list result" where
  "dg_kv_output planned cache lens segments seq k v =
     collect (\<lambda>s.
       let cached = segment_cache cache s; keep = lens ! s in
       if planned ! s \<noteq> kv_n cached + keep then die ''K/V output does not match planned storage''
       else Inr \<lparr>kv_k = kv_k cached @ take keep (drop (s * seq) k),
                 kv_v = kv_v cached @ take keep (drop (s * seq) v)\<rparr>) [0..<segments]"

text \<open>The tensors that come before the projections; full layers have no values of their own.\<close>

record at_weights =
  at_q :: DGTensor
  at_k :: DGTensor
  at_v :: "DGTensor option"
  at_qnorm :: DGTensor
  at_knorm :: DGTensor

definition dg_at_weights :: "DGModel \<Rightarrow> nat \<Rightarrow> at_weights result" where
  "dg_at_weights m l =
     bindE (dg_layer_tensor m l ''self_attn.q_proj.weight'') (\<lambda>qw.
     bindE (dg_layer_tensor m l ''self_attn.k_proj.weight'') (\<lambda>kw.
     bindE (if dg_full l then Inr None
            else bindE (dg_layer_tensor m l ''self_attn.v_proj.weight'') (\<lambda>w. Inr (Some w))) (\<lambda>vw.
     bindE (dg_layer_tensor m l ''self_attn.q_norm.weight'') (\<lambda>qnrm.
     bindE (dg_layer_tensor m l ''self_attn.k_norm.weight'') (\<lambda>knrm.
       Inr \<lparr>at_q = qw, at_k = kw, at_v = vw, at_qnorm = qnrm, at_knorm = knrm\<rparr>)))))"

text \<open>The position of row \<open>t\<close> of segment \<open>s\<close>.\<close>

definition row_pos :: "'f DGKV list option \<Rightarrow> nat \<Rightarrow> nat \<Rightarrow> nat \<Rightarrow> nat" where
  "row_pos cache pos0 s t = (case cache of Some cs \<Rightarrow> kv_n (cs ! s) | None \<Rightarrow> pos0) + t"

definition dg_attention_segments ::
  "('f, 'd) fpu \<Rightarrow> DGModel \<Rightarrow> nat \<Rightarrow> 'f list list \<Rightarrow> nat \<Rightarrow> nat \<Rightarrow> nat \<Rightarrow> 'f DGKV list option \<Rightarrow> nat list \<Rightarrow>
     nat list option \<Rightarrow> dg_mode \<Rightarrow> ('f list list \<times> 'f DGKV list) result" where
  "dg_attention_segments F m l x segments seq pos0 cache lens out mode =
     (let qn = DG_HEADS * dg_head_dim l; kn = dg_kv_heads l * dg_head_dim l in
      bindE (dg_at_weights m l) (\<lambda>W.
      bindE (dg_mm F (at_q W) x qn DG_H) (\<lambda>q.
      bindE (dg_mm F (at_k W) x kn DG_H) (\<lambda>k.
      bindE (case at_v W of Some w \<Rightarrow> dg_mm F w x kn DG_H | None \<Rightarrow> Inr k) (\<lambda>v.
      bindE (collect (\<lambda>ti. prepare_token F l (at_qnorm W) (at_knorm W) (row_pos cache pos0 (ti div seq) (ti mod seq))
                (q ! ti, k ! ti, v ! ti)) [0..<segments * seq]) (\<lambda>qkv.
      let q = map fst qkv; k = map (fst \<circ> snd) qkv; v = map (snd \<circ> snd) qkv;
          a = map (\<lambda>ti. attention_token F l mode seq (segment_cache cache (ti div seq))
                    (segment_own seq k v (ti div seq)) (ti mod seq) (q ! ti)) [0..<segments * seq] in
      bindE (dg_layer_tensor m l ''self_attn.o_proj.weight'') (\<lambda>ow.
      bindE (dg_mm F ow a DG_H qn) (\<lambda>x.
      bindE (case out of Some planned \<Rightarrow> dg_kv_output planned cache lens segments seq k v | None \<Rightarrow> Inr []) (\<lambda>kv.
        Inr (x, kv))))))))))"

definition dg_attention ::
  "('f, 'd) fpu \<Rightarrow> DGModel \<Rightarrow> nat \<Rightarrow> 'f list list \<Rightarrow> nat \<Rightarrow> 'f DGKV option \<Rightarrow> nat option \<Rightarrow> dg_mode \<Rightarrow> nat \<Rightarrow>
     ('f list list \<times> 'f DGKV list) result" where
  "dg_attention F m l x pos0 cache out mode batch =
     (let n = length x in
      if batch = 0 \<or> n mod batch \<noteq> 0 \<or> (out \<noteq> None \<and> batch \<noteq> 1) then die ''invalid attention batch''
      else
        let caches = (if mode \<noteq> DG_CAUSAL then map_option (replicate batch) cache else None) in
        dg_attention_segments F m l x batch (n div batch) pos0 caches (replicate batch (n div batch))
          (map_option (\<lambda>p. [p]) out) mode)"

section \<open>Routing\<close>

definition top_experts :: "('f, 'd) fpu \<Rightarrow> 'f list \<Rightarrow> ('f \<times> int) list" where
  "top_experts F rt =
     fold (\<lambda>(e, z). top_insert F z (int e)) (enumerate 0 rt)
       (map (\<lambda>k. (fl_neg F (fl_max F), int k)) [0..<DG_TOPK])"

definition dg_route_token :: "('f, 'd) fpu \<Rightarrow> 'f list \<Rightarrow> DGTensor \<Rightarrow> (nat \<times> 'f) list result" where
  "dg_route_token F rt re =
     (let A = dbl F; chosen = top_experts F rt;
          mx = fold (\<lambda>z mx. if fl_less F mx z then z else mx) (tl rt) (hd rt);
          total = foldl (\<lambda>s z. add_d A s (dg_exp F (sub_d A (wide F z) (wide F mx)))) (zero_d A) rt;
          ev = map (\<lambda>(z, e). narrow F (div_d A (dg_exp F (sub_d A (wide F z) (wide F mx))) total)) chosen;
          sel = foldl (\<lambda>s z. add_d A s (wide F z)) (zero_d A) ev
      in collect (\<lambda>((z, e), w). bindE (dg_at F re (nat e)) (\<lambda>scale.
           Inr (nat e, fl_mul F (fl_div F w (narrow F sel)) scale))) (zip chosen ev))"

section \<open>The feed-forward block\<close>

text \<open>The rows that go to expert \<open>e\<close>: tokens in order, and for each the place of \<open>e\<close> in its choice.\<close>

definition expert_owners :: "(nat \<times> 'f) list list \<Rightarrow> nat \<Rightarrow> (nat \<times> nat) list" where
  "expert_owners routed e =
     concat (map (\<lambda>t. map (Pair t) (filter (\<lambda>k. fst (routed ! t ! k) = e) [0..<DG_TOPK])) [0..<length routed])"

text \<open>One expert's product of its gathered rows, with NVFP4 or BF16 weights.\<close>

definition dg_expert ::
  "('f, 'd) fpu \<Rightarrow> DGModel \<Rightarrow> nat \<Rightarrow> (DGTensor \<times> DGTensor) option \<Rightarrow> nat \<Rightarrow> 'f list list \<Rightarrow> 'f list list result" where
  "dg_expert F m l bf e rows =
     (case bf of
        None \<Rightarrow>
          bindE (rd (md_nvexpert m) (l * DG_EXPERTS + e)) (\<lambda>v.
          bindE (dg_nvfp4_gated F v rows DG_MOE DG_H) (\<lambda>hid.
          bindE (rd (md_a2 m) l) (\<lambda>a2.
          bindE (dg_nvfp4_qdq_ref F hid DG_MOE (fl_of_bits F a2)) (\<lambda>qh.
            dg_nvfp4_mm F (nx_wd v) (nx_sd v) (nx_gd v) qh DG_H DG_MOE))))
      | Some (eg, ed) \<Rightarrow>
          bindE (dg_mm_data F (drop (e * DG_EXPERT_PAIR * DG_H * 2) (tensor_data eg)) rows DG_EXPERT_PAIR DG_H) (\<lambda>gu.
          let hid = map (\<lambda>g. map (\<lambda>i. fl_mul F (dg_gelu F (g ! i)) (g ! (DG_MOE + i))) [0..<DG_MOE]) gu in
          dg_mm_data F (drop (e * DG_H * DG_MOE * 2) (tensor_data ed)) hid DG_H DG_MOE))"

definition put_contrib ::
  "('f, 'd) fpu \<Rightarrow> (nat \<times> 'f) list list \<Rightarrow> (nat \<times> nat) list \<Rightarrow> 'f list list \<Rightarrow> 'f list list list \<Rightarrow> 'f list list list" where
  "put_contrib F routed owners eo contrib =
     fold (\<lambda>((t, k), src) contrib.
       contrib[t := (contrib ! t)[k := map (fl_mul F (snd (routed ! t ! k))) src]]) (zip owners eo) contrib"

text \<open>The gathered rows have the room of as many rows as there are tokens.\<close>

fun dg_experts ::
  "('f, 'd) fpu \<Rightarrow> DGModel \<Rightarrow> nat \<Rightarrow> (DGTensor \<times> DGTensor) option \<Rightarrow> (nat \<times> 'f) list list \<Rightarrow> 'f list list \<Rightarrow>
     nat list \<Rightarrow> 'f list list list \<Rightarrow> 'f list list list result" where
  "dg_experts F m l bf routed z [] contrib = Inr contrib"
| "dg_experts F m l bf routed z (e # es) contrib =
     (let owners = expert_owners routed e in
      if owners = [] then dg_experts F m l bf routed z es contrib
      else if length owners > length z then Inl Undefined
      else bindE (dg_expert F m l bf e (map (\<lambda>(t, k). z ! t) owners)) (\<lambda>eo.
        dg_experts F m l bf routed z es (put_contrib F routed owners eo contrib)))"

text \<open>The end of a token: its experts' rows summed in order, normalized, and added.\<close>

definition ff_tail ::
  "('f, 'd) fpu \<Rightarrow> DGTensor \<Rightarrow> DGTensor \<Rightarrow> 'f list \<Rightarrow> 'f list \<Rightarrow> 'f list list \<Rightarrow> 'f list result" where
  "ff_tail F p2 post r d contrib =
     (let mo = foldl (map2 (fl_add F)) (replicate DG_H (fl_of_bits F 0)) contrib in
      bindE (dg_rms_ref F (Some p2) mo) (\<lambda>mo.
      bindE (dg_rms_ref F (Some post) (map2 (fl_add F) d mo)) (\<lambda>sum.
        Inr (map2 (fl_add F) r sum))))"

text \<open>The router's input, from the token's residual.\<close>

definition router_input :: "('f, 'd) fpu \<Rightarrow> DGTensor \<Rightarrow> 'f list \<Rightarrow> 'f list result" where
  "router_input F rs r =
     bindE (dg_rms_ref F None r) (\<lambda>rin.
       collect (\<lambda>(i, v). bindE (dg_at F rs i) (\<lambda>s.
         Inr (fl_mul F v (fl_div F s (fl_sqrt F (fl_int F (int DG_H))))))) (enumerate 0 rin))"

text \<open>The block's tensors, in the order in which they are looked up.\<close>

record ff_weights =
  ff_pre :: DGTensor
  ff_gate :: DGTensor
  ff_up :: DGTensor
  ff_down :: DGTensor
  ff_p1 :: DGTensor
  ff_pre2 :: DGTensor
  ff_router :: DGTensor
  ff_scale :: DGTensor
  ff_expert_scale :: DGTensor
  ff_bf :: "(DGTensor \<times> DGTensor) option"
  ff_p2 :: DGTensor
  ff_post :: DGTensor

definition dg_ff_weights :: "DGModel \<Rightarrow> nat \<Rightarrow> ff_weights result" where
  "dg_ff_weights m l =
     bindE (dg_layer_tensor m l ''pre_feedforward_layernorm.weight'') (\<lambda>pre.
     bindE (dg_layer_tensor m l ''mlp.gate_proj.weight'') (\<lambda>gw.
     bindE (dg_layer_tensor m l ''mlp.up_proj.weight'') (\<lambda>uw.
     bindE (dg_layer_tensor m l ''mlp.down_proj.weight'') (\<lambda>dw.
     bindE (dg_layer_tensor m l ''post_feedforward_layernorm_1.weight'') (\<lambda>p1.
     bindE (dg_layer_tensor m l ''pre_feedforward_layernorm_2.weight'') (\<lambda>pre2.
     bindE (dg_layer_tensor m l ''router.proj.weight'') (\<lambda>rw.
     bindE (dg_layer_tensor m l ''router.scale'') (\<lambda>rs.
     bindE (dg_layer_tensor m l ''router.per_expert_scale'') (\<lambda>re.
     bindE (if md_nvfp4 m then Inr None
            else bindE (dg_layer_tensor m l ''experts.gate_up_proj'') (\<lambda>eg.
                 bindE (dg_layer_tensor m l ''experts.down_proj'') (\<lambda>ed. Inr (Some (eg, ed))))) (\<lambda>bf.
     bindE (dg_layer_tensor m l ''post_feedforward_layernorm_2.weight'') (\<lambda>p2.
     bindE (dg_layer_tensor m l ''post_feedforward_layernorm.weight'') (\<lambda>post.
       Inr \<lparr>ff_pre = pre, ff_gate = gw, ff_up = uw, ff_down = dw, ff_p1 = p1, ff_pre2 = pre2, ff_router = rw,
            ff_scale = rs, ff_expert_scale = re, ff_bf = bf, ff_p2 = p2, ff_post = post\<rparr>))))))))))))"

text \<open>The router's logits, which have to be finite.\<close>

definition checked_logits :: "('f, 'd) fpu \<Rightarrow> 'f list list \<Rightarrow> 'f list list result" where
  "checked_logits F route =
     (if \<not> list_all (list_all (fl_finite F)) route then die ''non-finite DiffusionGemma router logits'' else Inr route)"

text \<open>What the experts read: the normalized rows, quantized for NVFP4 experts.\<close>

definition expert_input :: "('f, 'd) fpu \<Rightarrow> DGModel \<Rightarrow> nat \<Rightarrow> 'f list list \<Rightarrow> 'f list list result" where
  "expert_input F m l z2 =
     (if md_nvfp4 m then bindE (rd (md_a13 m) l) (\<lambda>a13. dg_nvfp4_qdq_ref F z2 DG_H (fl_of_bits F a13)) else Inr z2)"

definition gated :: "('f, 'd) fpu \<Rightarrow> 'f list \<Rightarrow> 'f list \<Rightarrow> 'f list" where
  "gated F = map2 (\<lambda>g u. fl_mul F (dg_gelu F g) u)"

definition dg_ff :: "('f, 'd) fpu \<Rightarrow> DGModel \<Rightarrow> nat \<Rightarrow> 'f list list \<Rightarrow> 'f list list result" where
  "dg_ff F m l x =
     bindE (dg_ff_weights m l) (\<lambda>W.
     bindE (collect (dg_rms_ref F (Some (ff_pre W))) x) (\<lambda>z1.
     bindE (dg_mm F (ff_gate W) z1 DG_DENSE DG_H) (\<lambda>g.
     bindE (dg_mm F (ff_up W) z1 DG_DENSE DG_H) (\<lambda>u.
     bindE (dg_mm F (ff_down W) (map2 (gated F) g u) DG_H DG_DENSE) (\<lambda>d.
     bindE (collect (dg_rms_ref F (Some (ff_p1 W))) d) (\<lambda>d.
     bindE (collect (dg_rms_ref F (Some (ff_pre2 W))) x) (\<lambda>z2.
     bindE (collect (router_input F (ff_scale W)) x) (\<lambda>rin.
     bindE (dg_mm F (ff_router W) rin DG_EXPERTS DG_H) (\<lambda>route.
     bindE (checked_logits F route) (\<lambda>route.
     bindE (collect (\<lambda>rt. dg_route_token F rt (ff_expert_scale W)) route) (\<lambda>routed.
     bindE (expert_input F m l z2) (\<lambda>z.
     bindE (dg_experts F m l (ff_bf W) routed z [0..<DG_EXPERTS]
              (replicate (length x) (replicate DG_TOPK (replicate DG_H (fl_of_bits F 0))))) (\<lambda>contrib.
       collect (\<lambda>t. ff_tail F (ff_p2 W) (ff_post W) (x ! t) (d ! t) (contrib ! t)) [0..<length x])))))))))))))"

section \<open>A layer\<close>

text \<open>
  \<open>dg_layer\<close> and \<open>dg_layer_multi\<close> differ in their attention only.
\<close>

definition dg_layer_with ::
  "('f, 'd) fpu \<Rightarrow> DGModel \<Rightarrow> nat \<Rightarrow> ('f list list \<Rightarrow> ('f list list \<times> 'o) result) \<Rightarrow> 'f list list \<Rightarrow> ('f list list \<times> 'o) result" where
  "dg_layer_with F m l attention x =
     bindE (dg_layer_tensor m l ''input_layernorm.weight'') (\<lambda>inw.
     bindE (dg_layer_tensor m l ''post_attention_layernorm.weight'') (\<lambda>pa.
     bindE (collect (dg_rms_ref F (Some inw)) x) (\<lambda>z.
     bindE (attention z) (\<lambda>(z, kv).
     bindE (collect (dg_rms_ref F (Some pa)) z) (\<lambda>z.
     bindE (dg_ff F m l (map2 (map2 (fl_add F)) z x)) (\<lambda>x.
     bindE (dg_layer_tensor m l ''layer_scalar'') (\<lambda>sw.
     bindE (dg_at F sw 0) (\<lambda>sc.
       Inr (map (map (\<lambda>v. fl_mul F v sc)) x, kv)))))))))"

definition dg_layer ::
  "('f, 'd) fpu \<Rightarrow> DGModel \<Rightarrow> nat \<Rightarrow> 'f list list \<Rightarrow> nat \<Rightarrow> 'f DGKV option \<Rightarrow> nat option \<Rightarrow> dg_mode \<Rightarrow> nat \<Rightarrow>
     ('f list list \<times> 'f DGKV list) result" where
  "dg_layer F m l x pos0 cache out mode batch =
     dg_layer_with F m l (\<lambda>z. dg_attention F m l z pos0 cache out mode batch) x"

definition dg_layer_multi ::
  "('f, 'd) fpu \<Rightarrow> DGModel \<Rightarrow> nat \<Rightarrow> 'f list list \<Rightarrow> nat \<Rightarrow> nat \<Rightarrow> 'f DGKV list \<Rightarrow> nat list \<Rightarrow> nat list option \<Rightarrow> dg_mode \<Rightarrow>
     ('f list list \<times> 'f DGKV list) result" where
  "dg_layer_multi F m l x segments seq cache lens out mode =
     dg_layer_with F m l (\<lambda>z. dg_attention_segments F m l z segments seq 0 (Some cache) lens out mode) x"

section \<open>Passes\<close>

definition dg_embed :: "('f, 'd) fpu \<Rightarrow> DGModel \<Rightarrow> int list \<Rightarrow> bool \<Rightarrow> 'f list list result" where
  "dg_embed F m ids decoder =
     bindE (dg_tensor m (str ''model.decoder.embed_tokens.weight'')) (\<lambda>w.
     collect (\<lambda>i.
       if i < 0 then Inl Undefined
       else bindE (collect (\<lambda>c. bindE (dg_at F w (nat i * DG_H + c)) (\<lambda>v.
                Inr (fl_mul F v (fl_sqrt F (fl_int F (int DG_H)))))) [0..<DG_H]) (\<lambda>row.
            if decoder then dg_rms_ref F None row else Inr row)) ids)"

definition dg_final_norm :: "('f, 'd) fpu \<Rightarrow> DGModel \<Rightarrow> 'f list list \<Rightarrow> 'f list list result" where
  "dg_final_norm F m x =
     bindE (dg_tensor m (str ''model.decoder.norm.weight'')) (\<lambda>w. collect (dg_rms_ref F (Some w)) x)"

text \<open>The layers in order; each leaves its K/V.\<close>

fun run_layers :: "(nat \<Rightarrow> 'x \<Rightarrow> ('x \<times> 'o) result) \<Rightarrow> nat list \<Rightarrow> 'x \<Rightarrow> ('x \<times> 'o list) result" where
  "run_layers layer [] x = Inr (x, [])"
| "run_layers layer (l # ls) x =
     bindE (layer l x) (\<lambda>(x, y). bindE (run_layers layer ls x) (\<lambda>(x, ys). Inr (x, y # ys)))"

text \<open>The K/V of a prompt, one for each layer.\<close>

definition dg_prefill :: "('f, 'd) fpu \<Rightarrow> DGModel \<Rightarrow> int list \<Rightarrow> 'f DGKV list result" where
  "dg_prefill F m prompt =
     bindE (dg_embed F m prompt False) (\<lambda>enc.
     bindE (run_layers (\<lambda>l x. dg_layer F m l x 0 None (Some (length prompt)) DG_CAUSAL 1) [0..<DG_L] enc) (\<lambda>(x, kvs).
       Inr (map hd kvs)))"

text \<open>The K/V of a prefix and \<open>token\<close> after it; \<open>planned\<close> is the length its storage has.\<close>

definition dg_prefill_suffix :: "('f, 'd) fpu \<Rightarrow> DGModel \<Rightarrow> int list \<Rightarrow> 'f DGKV list \<Rightarrow> nat \<Rightarrow> 'f DGKV list result" where
  "dg_prefill_suffix F m token prefix planned =
     bindE (dg_embed F m token False) (\<lambda>x.
     bindE (run_layers (\<lambda>l x. dg_layer F m l x (kv_n (prefix ! l)) (Some (prefix ! l)) (Some planned) DG_SUFFIX 1) [0..<DG_L] x)
       (\<lambda>(x, kvs). Inr (map hd kvs)))"

text \<open>The hidden rows of \<open>batch\<close> canvases of the same width side by side, over one document's K/V.\<close>

definition dg_decode :: "('f, 'd) fpu \<Rightarrow> DGModel \<Rightarrow> 'f DGKV list \<Rightarrow> nat \<Rightarrow> int list \<Rightarrow> nat \<Rightarrow> 'f list list result" where
  "dg_decode F m kv np canvas batch =
     bindE (dg_embed F m canvas True) (\<lambda>dec.
     bindE (run_layers (\<lambda>l x. dg_layer F m l x np (Some (kv ! l)) None DG_CANVAS batch) [0..<DG_L] dec) (\<lambda>(x, _).
       dg_final_norm F m x))"

text \<open>
  Several documents: each suffix padded to \<open>seq\<close> tokens, and \<open>lens\<close> their own lengths; the result
  is every document's K/V by layer.
\<close>

definition dg_prefill_suffix_multi ::
  "('f, 'd) fpu \<Rightarrow> DGModel \<Rightarrow> int list \<Rightarrow> nat list \<Rightarrow> nat \<Rightarrow> 'f DGKV list \<Rightarrow> nat list \<Rightarrow> 'f DGKV list list result" where
  "dg_prefill_suffix_multi F m token lens seq prefix planned =
     (let batch = length lens in
      bindE (dg_embed F m token False) (\<lambda>x.
      bindE (run_layers (\<lambda>l x.
          dg_layer_multi F m l x batch seq (replicate batch (prefix ! l)) lens (Some planned) DG_SUFFIX) [0..<DG_L] x) (\<lambda>(x, kvs).
        Inr (map (\<lambda>b. map (\<lambda>l. kvs ! l ! b) [0..<DG_L]) [0..<batch]))))"

text \<open>Several documents' canvases; \<open>doc\<close> is the document of each.\<close>

definition dg_decode_multi ::
  "('f, 'd) fpu \<Rightarrow> DGModel \<Rightarrow> 'f DGKV list list \<Rightarrow> nat list \<Rightarrow> nat \<Rightarrow> int list \<Rightarrow> 'f list list result" where
  "dg_decode_multi F m kv doc seq canvas =
     (let segments = length doc in
      bindE (dg_embed F m canvas True) (\<lambda>x.
      bindE (run_layers (\<lambda>l x.
          dg_layer_multi F m l x segments seq (map (\<lambda>d. kv ! d ! l) doc) (replicate segments seq) None DG_CANVAS) [0..<DG_L] x)
        (\<lambda>(x, _). dg_final_norm F m x)))"

end
