(* ===== verification/Execute.thy ===== *)
theory Execute
  imports Job Forward
begin

text \<open>
  Executing jobs (\<open>src/decision.inc\<close>): scoring a read's hidden rows, the reads of one job, side by
  side or one after the other, the prefix cache of a session, and the microbatch of several jobs
  over one cached prefix.

  The model is a \<open>DGModel\<close> and the floats an \<open>fpu\<close>. Times and profiles are left out, and the arena
  of the rows is the subject of theory \<open>Workspace\<close>. A read's random canvas needs fuel for the
  rejections of the generator, and the rounds of reads are counted; \<open>OutOfFuel\<close> is neither an
  error of the program nor a result.
\<close>

section \<open>Scoring a read\<close>

text \<open>The hidden row of each question's slot.\<close>

definition dg_slot_rows :: "'d DGJob \<Rightarrow> 'h list \<Rightarrow> nat \<Rightarrow> 'h list result" where
  "dg_slot_rows g h segment0 =
     collect (\<lambda>x. rd h ((segment0 + x div jo_group_cap g) * jo_width g + jo_slot g ! x)) [0..<jo_nq g]"

text \<open>The score of one token: its logit, softly capped at 30.\<close>

definition dg_label_score :: "('f, 'd) fpu \<Rightarrow> DGTensor \<Rightarrow> 'f list \<Rightarrow> int \<Rightarrow> 'd result" where
  "dg_label_score F emb row i =
     (if i < 0 then Inl Undefined
      else bindE (dg_mv_slice F emb (nat i * DG_H) row 1 DG_H) (\<lambda>z.
        Inr (mul_d (dbl F) (db_of_int F 30) (db_tanh F (wide F (fl_div F (hd z) (fl_int F 30)))))))"

definition dg_job_score ::
  "('f, 'd) fpu \<Rightarrow> DGTensor \<Rightarrow> 'd DGJob \<Rightarrow> 'f list list \<Rightarrow> nat \<Rightarrow> nat \<Rightarrow> 'd DGJob result" where
  "dg_job_score F emb g h segment0 read =
     bindE (dg_sum_sizes (map dw_nc (jo_w g)) 0) (\<lambda>candidates.
     bindE (dg_slot_rows g h segment0) (\<lambda>rows.
     let auto = (jo_requested g = 0 \<and> read = 0) in
     bindE (if auto
            then bindE (dg_mm F emb rows DG_VOCAB DG_H) (dg_slot_logits_entropy F (jo_ids g))
            else bindE (collect (\<lambda>(row, ids). collect (dg_label_score F emb row) ids) (zip rows (jo_ids g))) (\<lambda>score.
              Inr (score, db_of_int F 0))) (\<lambda>(score, entropy).
     bindE (collect (normalize_scores (dbl F)) score) (\<lambda>prob.
       Inr (g\<lparr>jo_prob := map2 (map2 (add_d (dbl F))) (jo_prob g) prob,
              jo_reads := Suc (jo_reads g),
              jo_active := (if auto \<and> \<not> less_d (dbl F) (db_lit F ''.1'') entropy then False else jo_active g)\<rparr>)))))"

section \<open>The reads of a job\<close>

text \<open>The canvases of \<open>cnt\<close> reads from \<open>r\<close> on, in the job's buffer.\<close>

definition dg_read_canvases :: "nat \<Rightarrow> 'd DGJob \<Rightarrow> nat \<Rightarrow> nat \<Rightarrow> int list result" where
  "dg_read_canvases fuel g r cnt =
     (if cnt * (jo_width g * jo_groups g) > length (jo_canvas g) then Inl Undefined
      else bindE (collect (\<lambda>k. dg_job_canvas fuel g (r + k)) [0..<cnt]) (\<lambda>cs. Inr (concat cs)))"

fun dg_score_reads ::
  "('f, 'd) fpu \<Rightarrow> DGTensor \<Rightarrow> 'f list list \<Rightarrow> nat \<Rightarrow> nat list \<Rightarrow> 'd DGJob \<Rightarrow> 'd DGJob result" where
  "dg_score_reads F emb h r [] g = Inr g"
| "dg_score_reads F emb h r (k # ks) g = bindE (dg_job_score F emb g h (k * jo_groups g) (r + k)) (dg_score_reads F emb h r ks)"

definition dg_read_count :: "'d DGJob \<Rightarrow> nat \<Rightarrow> nat result" where
  "dg_read_count g r =
     (let per_read = jo_width g * jo_groups g in
      if per_read = 0 then Inl Undefined
      else
        let most = JB_MAX_CTX div per_read;
            cnt = (if jo_requested g = 0 \<and> r = 0 then 1 else jo_max_reads g - r)
        in Inr (if cnt > most then most else cnt))"

text \<open>The reads from \<open>r\<close> on: as many as fit share a decode, in at most \<open>rounds\<close> rounds.\<close>

fun dg_reads ::
  "('f, 'd) fpu \<Rightarrow> DGModel \<Rightarrow> DGTensor \<Rightarrow> 'f DGKV list \<Rightarrow> nat \<Rightarrow> nat \<Rightarrow> nat \<Rightarrow> 'd DGJob \<Rightarrow> 'd DGJob result" where
  "dg_reads F m emb kv fuel 0 r g = (if r < jo_max_reads g \<and> jo_active g then Inl OutOfFuel else Inr g)"
| "dg_reads F m emb kv fuel (Suc rounds) r g =
     (if r < jo_max_reads g \<and> jo_active g then
        bindE (dg_read_count g r) (\<lambda>cnt.
        bindE (dg_read_canvases fuel g r cnt) (\<lambda>canvas.
        bindE (dg_job_score_bytes g r) (\<lambda>tail.
        bindE (dg_decode F m kv (length (jo_pt g)) canvas (jo_groups g * cnt)) (\<lambda>h.
        bindE (dg_score_reads F emb h r [0..<cnt] g) (\<lambda>g.
          dg_reads F m emb kv fuel rounds (r + cnt) g)))))
      else Inr g)"

text \<open>With \<open>JB_CANVAS_SEQUENTIAL\<close>: read by read, and canvas by canvas.\<close>

fun dg_reads_sequential ::
  "('f, 'd) fpu \<Rightarrow> DGModel \<Rightarrow> DGTensor \<Rightarrow> 'f DGKV list \<Rightarrow> nat \<Rightarrow> nat list \<Rightarrow> 'd DGJob \<Rightarrow> 'd DGJob result" where
  "dg_reads_sequential F m emb kv fuel [] g = Inr g"
| "dg_reads_sequential F m emb kv fuel (r # rs) g =
     bindE (dg_job_canvas fuel g r) (\<lambda>canvas.
     bindE (collect (\<lambda>b. dg_decode F m kv (length (jo_pt g)) (take (jo_width g) (drop (b * jo_width g) canvas)) 1)
              [0..<jo_groups g]) (\<lambda>hs.
     bindE (dg_job_score_bytes g r) (\<lambda>bytes.
     bindE (dg_job_score F emb g (concat hs) 0 r) (\<lambda>g.
       if \<not> jo_active g then Inr g else dg_reads_sequential F m emb kv fuel rs g))))"

section \<open>The prefix cache\<close>

text \<open>An entry: the schema's system text, the tokens of the prefix, and their K/V by layer.\<close>

record 'f DGPrefixCache =
  pc_schema :: "bytes option"
  pc_ids :: "int list"
  pc_kv :: "'f DGKV list"

abbreviation pc_n :: "'f DGPrefixCache \<Rightarrow> nat" where
  "pc_n c \<equiv> length (pc_ids c)"

definition dg_prefix_free :: "'f DGPrefixCache \<Rightarrow> 'f DGPrefixCache" where
  "dg_prefix_free c = \<lparr>pc_schema = None, pc_ids = [], pc_kv = []\<rparr>"

fun common_prefix :: "'a list \<Rightarrow> 'a list \<Rightarrow> nat" where
  "common_prefix (x # xs) (y # ys) = (if x = y then Suc (common_prefix xs ys) else 0)"
| "common_prefix xs ys = 0"

definition prefix_hit :: "'f DGPrefixCache \<Rightarrow> 'd DGJob \<Rightarrow> bool" where
  "prefix_hit c g \<longleftrightarrow>
     (case pc_schema c of
        None \<Rightarrow> False
      | Some s \<Rightarrow> strcmp s (jo_sys g) = 0 \<and> pc_n c \<le> length (jo_pt g) \<and> pc_ids c = take (pc_n c) (jo_pt g))"

text \<open>
  The K/V of a job's prompt, what the cache did, and the tokens it had to process; and the cache
  afterwards, which a failing miss leaves empty.
\<close>

definition dg_prefix_prefill ::
  "('f, 'd) fpu \<Rightarrow> DGModel \<Rightarrow> 'd DGJob \<Rightarrow> 'f DGPrefixCache \<Rightarrow> ('f DGKV list \<times> string \<times> nat) result \<times> 'f DGPrefixCache" where
  "dg_prefix_prefill F m g c =
     (let pt = jo_pt g; common = common_prefix (jo_pre_tokens g) pt in
      if prefix_hit c g then
        (if length pt - pc_n c = 0 then die ''schema prefix consumes complete prompt''
         else bindE (dg_prefill_suffix F m (drop (pc_n c) pt) (pc_kv c) (length pt)) (\<lambda>kv.
           Inr (kv, ''hit'', length pt - pc_n c)), c)
      else if common = 0 \<or> common \<ge> length pt then (die ''cannot construct reusable schema prefix'', c)
      else
        case dg_prefill F m pt of
          Inl e \<Rightarrow> (Inl e, dg_prefix_free c)
        | Inr kv \<Rightarrow> (Inr (kv, ''miss'', length pt),
            \<lparr>pc_schema = Some (jo_sys g), pc_ids = take common pt, pc_kv = map (take_kv common) kv\<rparr>))"

section \<open>One job\<close>

text \<open>What the answers are made of.\<close>

record 'd outcome =
  oc_job :: "'d DGJob"
  oc_billed :: nat
  oc_cache_state :: string
  oc_cache_tokens :: nat
  oc_processed :: nat
  oc_microbatch :: nat

definition dg_billed :: "'d DGJob \<Rightarrow> nat" where
  "dg_billed g = length (jo_pt g) * (if jo_requested g \<noteq> 0 then jo_reads g else 1) mod 2 ^ 32"

definition dg_finish ::
  "('f, 'd) fpu \<Rightarrow> DGModel \<Rightarrow> nat \<Rightarrow> nat \<Rightarrow> 'd DGJob \<Rightarrow> 'f DGKV list \<Rightarrow> string \<Rightarrow> nat \<Rightarrow> nat \<Rightarrow> 'd outcome result" where
  "dg_finish F m fuel rounds g kv state tokens processed =
     bindE (dg_tensor m (str ''model.decoder.embed_tokens.weight'')) (\<lambda>emb.
     bindE (dg_reads F m emb kv fuel rounds 0 g) (\<lambda>g.
       Inr \<lparr>oc_job = dg_job_normalize (dbl F) g, oc_billed = dg_billed g, oc_cache_state = state,
            oc_cache_tokens = tokens, oc_processed = processed, oc_microbatch = 1\<rparr>))"

text \<open>
  The job without a cache, and with one. The tensor is looked up before the prefill, where a model
  without it fails before the cache changes.
\<close>

definition dg_systemone_uncached ::
  "('f, 'd) fpu \<Rightarrow> DGModel \<Rightarrow> nat \<Rightarrow> nat \<Rightarrow> 'd DGJob \<Rightarrow> 'd outcome result" where
  "dg_systemone_uncached F m fuel rounds g =
     bindE (dg_tensor m (str ''model.decoder.embed_tokens.weight'')) (\<lambda>emb.
     bindE (dg_prefill F m (jo_pt g)) (\<lambda>kv. dg_finish F m fuel rounds g kv ''off'' 0 (length (jo_pt g))))"

definition dg_systemone_execute ::
  "('f, 'd) fpu \<Rightarrow> DGModel \<Rightarrow> nat \<Rightarrow> nat \<Rightarrow> 'd DGJob \<Rightarrow> 'f DGPrefixCache \<Rightarrow> 'd outcome result \<times> 'f DGPrefixCache" where
  "dg_systemone_execute F m fuel rounds g c =
     (case dg_tensor m (str ''model.decoder.embed_tokens.weight'') of
        Inl e \<Rightarrow> (Inl e, c)
      | Inr emb \<Rightarrow>
          (let (r, c) = dg_prefix_prefill F m g c in
           (bindE r (\<lambda>(kv, state, processed). dg_finish F m fuel rounds g kv state (pc_n c) processed), c)))"

section \<open>A microbatch\<close>

text \<open>The longest suffix, and the bytes of the K/V of all prompts.\<close>

definition batch_seq :: "nat \<Rightarrow> 'd DGJob list \<Rightarrow> nat" where
  "batch_seq n gs = fold (\<lambda>g seq. if length (jo_pt g) - n > seq then length (jo_pt g) - n else seq) gs 0"

definition dg_kv_width :: "nat \<Rightarrow> nat" where
  "dg_kv_width l = (if l mod DG_FULL_EVERY = DG_FULL_EVERY - 1 then DG_FULL_KV_HEADS else DG_LOCAL_KV_HEADS) *
     (if l mod DG_FULL_EVERY = DG_FULL_EVERY - 1 then DG_FULL_HEAD_DIM else DG_LOCAL_HEAD_DIM)"

definition kv_token_bytes :: nat where
  "kv_token_bytes = sum_list (map (\<lambda>l. 2 * dg_kv_width l * 4) [0..<DG_L])"

definition batch_fits :: "'f DGPrefixCache \<Rightarrow> 'd DGJob list \<Rightarrow> bool" where
  "batch_fits c gs \<longleftrightarrow>
     (let g0 = hd gs; batch = length gs in
      list_all (prefix_hit c) gs \<and>
      list_all (\<lambda>g. jo_width g = jo_width g0 \<and> jo_groups g = jo_groups g0 \<and> jo_nq g = jo_nq g0) gs \<and>
      batch * jo_groups g0 * jo_width g0 \<le> JB_MAX_CTX \<and>
      batch * batch_seq (pc_n c) gs \<le> JB_MAX_CTX \<and>
      sum_list (map (\<lambda>g. length (jo_pt g) * kv_token_bytes) gs) \<le> JB_MICROBATCH_KV_LIMIT)"

text \<open>Each suffix, padded with zeros.\<close>

definition batch_tokens :: "nat \<Rightarrow> nat \<Rightarrow> 'd DGJob list \<Rightarrow> int list" where
  "batch_tokens n seq gs =
     concat (map (\<lambda>g. drop n (jo_pt g) @ replicate (seq - (length (jo_pt g) - n)) 0) gs)"

text \<open>
  Read \<open>r\<close> of the jobs that still read: their canvases together, then each job's scores from the row
  of its first canvas on.
\<close>

definition reading :: "nat \<Rightarrow> 'd DGJob \<Rightarrow> bool" where
  "reading r g \<longleftrightarrow> jo_active g \<and> r < jo_max_reads g"

fun batch_scores ::
  "('f, 'd) fpu \<Rightarrow> DGTensor \<Rightarrow> 'f list list \<Rightarrow> nat \<Rightarrow> 'd DGJob list \<Rightarrow> nat \<Rightarrow> 'd DGJob list result" where
  "batch_scores F emb h r [] at0 = Inr []"
| "batch_scores F emb h r (g # gs) at0 =
     (if reading r g then
        bindE (dg_job_score F emb g h at0 r) (\<lambda>g'.
        bindE (batch_scores F emb h r gs (at0 + jo_groups g)) (\<lambda>gs'. Inr (g' # gs')))
      else bindE (batch_scores F emb h r gs at0) (\<lambda>gs'. Inr (g # gs')))"

definition batch_round ::
  "('f, 'd) fpu \<Rightarrow> DGModel \<Rightarrow> DGTensor \<Rightarrow> 'f DGKV list list \<Rightarrow> nat \<Rightarrow> nat \<Rightarrow> nat \<Rightarrow> 'd DGJob list \<Rightarrow> 'd DGJob list result" where
  "batch_round F m emb kv fuel width r gs =
     bindE (collect (\<lambda>g. if reading r g then dg_job_canvas fuel g r else Inr []) gs) (\<lambda>canvases.
     let doc = concat (map (\<lambda>(b, g). if reading r g then replicate (jo_groups g) b else []) (enumerate 0 gs)) in
     bindE (collect (\<lambda>g. if reading r g then dg_job_score_bytes g r else Inr 0) gs) (\<lambda>bytes.
     bindE (dg_decode_multi F m kv doc width (concat canvases)) (\<lambda>h.
       batch_scores F emb h r gs 0)))"

fun batch_reads ::
  "('f, 'd) fpu \<Rightarrow> DGModel \<Rightarrow> DGTensor \<Rightarrow> 'f DGKV list list \<Rightarrow> nat \<Rightarrow> nat \<Rightarrow> nat list \<Rightarrow> 'd DGJob list \<Rightarrow> 'd DGJob list result" where
  "batch_reads F m emb kv fuel width [] gs = Inr gs"
| "batch_reads F m emb kv fuel width (r # rs) gs =
     (if sum_list (map (\<lambda>g. if reading r g then jo_groups g else 0) gs) = 0 then Inr gs
      else bindE (batch_round F m emb kv fuel width r gs) (batch_reads F m emb kv fuel width rs))"

text \<open>None when the jobs do not share the cache's entry or do not fit; the caller then runs them one by one.\<close>

definition dg_system_batch_execute ::
  "('f, 'd) fpu \<Rightarrow> DGModel \<Rightarrow> nat \<Rightarrow> 'f DGPrefixCache \<Rightarrow> 'd DGJob list \<Rightarrow> 'd outcome list option result" where
  "dg_system_batch_execute F m fuel c gs =
     (if length gs < 2 \<or> pc_schema c = None \<or> \<not> batch_fits c gs then Inr None
      else if \<exists>g \<in> set gs. length (jo_pt g) - pc_n c < 1 then die ''schema prefix consumes complete prompt''
      else
        let n = pc_n c; seq = batch_seq n gs; lens = map (\<lambda>g. length (jo_pt g) - n) gs;
            maxr = fold (\<lambda>g mx. if jo_max_reads g > mx then jo_max_reads g else mx) gs 0 in
        bindE (dg_prefill_suffix_multi F m (batch_tokens n seq gs) lens seq (pc_kv c) (map (\<lambda>g. length (jo_pt g)) gs)) (\<lambda>kv.
        bindE (dg_tensor m (str ''model.decoder.embed_tokens.weight'')) (\<lambda>emb.
        bindE (batch_reads F m emb kv fuel (jo_width (hd gs)) [0..<maxr] gs) (\<lambda>gs.
          Inr (Some (map (\<lambda>g. \<lparr>oc_job = dg_job_normalize (dbl F) g, oc_billed = dg_billed g, oc_cache_state = ''hit'',
            oc_cache_tokens = n, oc_processed = length (jo_pt g) - n, oc_microbatch = length gs\<rparr>) gs))))))"

section \<open>From requests\<close>

definition dg_systemone ::
  "('f, 'd) fpu \<Rightarrow> DGModel \<Rightarrow> DGTokenizer \<Rightarrow> nat \<Rightarrow> nat \<Rightarrow> bytes \<Rightarrow> nat \<Rightarrow> 'f DGPrefixCache \<Rightarrow>
     'd outcome result \<times> 'f DGPrefixCache" where
  "dg_systemone F m tok fuel rounds j len c =
     (case dg_job_prepare (dbl F) tok j len of
        Inl e \<Rightarrow> (Inl e, c)
      | Inr g \<Rightarrow> dg_systemone_execute F m fuel rounds g c)"

definition dg_systemone_parts ::
  "('f, 'd) fpu \<Rightarrow> DGModel \<Rightarrow> DGTokenizer \<Rightarrow> nat \<Rightarrow> nat \<Rightarrow> bytes \<Rightarrow> nat \<Rightarrow> bytes \<Rightarrow> bytes \<Rightarrow> nat \<Rightarrow> nat \<Rightarrow> 'f DGPrefixCache \<Rightarrow>
     'd outcome result \<times> 'f DGPrefixCache" where
  "dg_systemone_parts F m tok fuel rounds state_json state_length ident questions_json questions_length samples c =
     (case dg_job_prepare_parts (dbl F) tok state_json state_length ident questions_json questions_length samples of
        Inl e \<Rightarrow> (Inl e, c)
      | Inr g \<Rightarrow> dg_systemone_execute F m fuel rounds g c)"

definition dg_system_batch ::
  "('f, 'd) fpu \<Rightarrow> DGModel \<Rightarrow> DGTokenizer \<Rightarrow> nat \<Rightarrow> (bytes \<times> nat) list \<Rightarrow> 'f DGPrefixCache \<Rightarrow> 'd outcome list option result" where
  "dg_system_batch F m tok fuel rows c =
     (if length rows < 2 \<or> pc_schema c = None then Inr None
      else bindE (collect (\<lambda>(j, len). dg_job_prepare (dbl F) tok j len) rows) (dg_system_batch_execute F m fuel c))"

end
