(* ===== verification/TokenText.thy ===== *)
theory TokenText
  imports Bpe
begin

text \<open>
  What tokenization means: the special tokens are cut out of the text, leftmost and longest
  first, and the texts of the tokens spell the input, with the space mark for each space
  outside special tokens and byte tokens for the code points that the vocabulary lacks.
\<close>

section \<open>The text of tokens\<close>

definition dgt_token_text :: "DGTokenizer \<Rightarrow> nat \<Rightarrow> bytes" where
  "dgt_token_text d x = (case dt_by_id d ! x of Some v \<Rightarrow> vo_s v | None \<Rightarrow> [])"

definition dgt_text :: "DGTokenizer \<Rightarrow> nat list \<Rightarrow> bytes" where
  "dgt_text d xs = concat (map (dgt_token_text d) xs)"

lemma dgt_text_simps [simp]:
  "dgt_text d [] = []" "dgt_text d (x # xs) = dgt_token_text d x @ dgt_text d xs"
  "dgt_text d (xs @ ys) = dgt_text d xs @ dgt_text d ys"
  by (simp_all add: dgt_text_def)

lemma dgt_token_text_vocab: "dgt_ok d \<Longrightarrow> v \<in> set (dt_vocab d) \<Longrightarrow> dgt_token_text d (vo_u32 v) = vo_s v"
  using dgt_ok_vocab(4) [of d v] by (simp add: dgt_token_text_def)

lemma dgt_vfind_text:
  "dgt_ok d \<Longrightarrow> dgt_vfind d s = Some v \<Longrightarrow> length s \<le> UINT32_MAX \<Longrightarrow> dgt_token_text d (vo_u32 v) = s"
  using dgt_vfind_Some [of d s v] dgt_token_text_vocab [of d v] by simp

lemma dgt_ok_two_tokens:
  assumes "dgt_ok d" "u \<in> set (dt_vocab d)" "v \<in> set (dt_vocab d)"
  shows "length (vo_s u @ vo_s v) \<le> UINT32_MAX"
  using dgt_ok_vocab(5) [OF assms(1,2)] dgt_ok_vocab(5) [OF assms(1,3)] assms(1)
  by (simp add: dgt_ok_def JB_MAX_JSON_def)

lemma bpe_join_text:
  assumes "dgt_ok d" "bpe_join d a b = Inr v"
  shows "dgt_token_text d v = dgt_token_text d a @ dgt_token_text d b"
proof -
  obtain va vb w where w: "a < length (dt_by_id d)" "b < length (dt_by_id d)"
    "dt_by_id d ! a = Some va" "dt_by_id d ! b = Some vb"
    "dgt_vfind d (vo_s va @ vo_s vb) = Some w" "v = vo_u32 w"
    using assms(2) by (auto simp: bpe_join_def bindE_Inr_iff split: option.splits if_splits)
  have "va \<in> set (dt_vocab d)" "vb \<in> set (dt_vocab d)"
    using dgt_ok_by_id [OF assms(1)] w(1-4) assms(1) by (force simp: dgt_ok_def)+
  then show ?thesis
    using dgt_vfind_text [OF assms(1) w(5) dgt_ok_two_tokens [OF assms(1)]] w by (simp add: dgt_token_text_def)
qed

lemma bpe_merge_all_text:
  "dgt_ok d \<Longrightarrow> bpe_merge_all d xs = Inr ys \<Longrightarrow> dgt_text d ys = dgt_text d xs"
proof (induction d xs arbitrary: ys rule: bpe_merge_all.induct)
  case (1 d xs)
  show ?case
  proof (cases "bpe_best d xs")
    case None
    with "1.prems" show ?thesis by (simp add: bpe_merge_all.simps [of d xs])
  next
    case (Some p)
    then obtain r i where p: "bpe_best d xs = Some (r, i)" by (cases p) simp
    with "1.prems"(2) obtain v where v: "bpe_join d (xs ! i) (xs ! Suc i) = Inr v"
      "bpe_merge_all d (take i xs @ v # drop (Suc (Suc i)) xs) = Inr ys"
      by (auto simp: bpe_merge_all.simps [of d xs] bindE_Inr_iff)
    have i: "Suc i < length xs" using bpe_best_bound [OF p] .
    have "dgt_text d ys = dgt_text d (take i xs @ v # drop (Suc (Suc i)) xs)"
      using "1.IH" [OF p refl v(1) "1.prems"(1) v(2)] .
    also have "\<dots> = dgt_text d (take i xs @ xs ! i # xs ! Suc i # drop (Suc (Suc i)) xs)"
      using bpe_join_text [OF "1.prems"(1) v(1)] by simp
    also have "take i xs @ xs ! i # xs ! Suc i # drop (Suc (Suc i)) xs = xs"
      using i by (simp add: Cons_nth_drop_Suc)
    finally show ?thesis .
  qed
qed

text \<open>How a code point is spelled: by itself, or by byte tokens.\<close>

definition dgt_spell :: "DGTokenizer \<Rightarrow> u32 list \<Rightarrow> bytes" where
  "dgt_spell d cs = concat (map (\<lambda>c.
     if dgt_vfind d (put_utf8 c) \<noteq> None then put_utf8 c
     else concat (map dgt_byte_token (put_utf8 c))) cs)"

lemma bpe_bytes_text: "dgt_ok d \<Longrightarrow> bpe_bytes d bs = Inr xs \<Longrightarrow> dgt_text d xs = concat (map dgt_byte_token bs)"
proof (induction bs arbitrary: xs)
  case (Cons b bs)
  then obtain v ys where v: "dgt_vfind d (dgt_byte_token b) = Some v" "bpe_bytes d bs = Inr ys" "xs = vo_u32 v # ys"
    by (auto simp: bindE_Inr_iff split: option.splits)
  have "length (dgt_byte_token b) \<le> UINT32_MAX" by (simp add: dgt_byte_token_def)
  with dgt_vfind_text [OF Cons.prems(1) v(1)] Cons.IH [OF Cons.prems(1) v(2)] v(3) show ?case by simp
qed simp

lemma bpe_units_text: "dgt_ok d \<Longrightarrow> bpe_units d cs = Inr xs \<Longrightarrow> dgt_text d xs = dgt_spell d cs"
proof (induction cs arbitrary: xs)
  case (Cons c cs)
  then obtain ys zs where y: "bpe_unit d c = Inr ys" "bpe_units d cs = Inr zs" "xs = ys @ zs"
    by (auto simp: bindE_Inr_iff)
  have "length (put_utf8 c) \<le> UINT32_MAX" using length_put_utf8_le [of c] by simp
  then have "dgt_text d ys = (if dgt_vfind d (put_utf8 c) \<noteq> None then put_utf8 c
     else concat (map dgt_byte_token (put_utf8 c)))"
    using y(1) bpe_bytes_text [OF Cons.prems(1)] dgt_vfind_text [OF Cons.prems(1), of "put_utf8 c"]
    by (auto simp: bpe_unit_def split: option.splits)
  with Cons.IH [OF Cons.prems(1) y(2)] y(3) show ?case by (simp add: dgt_spell_def)
qed (simp add: dgt_spell_def)

lemma push_tokens: "push t x = Inr t' \<Longrightarrow> tk_v t' = tk_v t @ [x]"
  by (auto simp: push_def split: if_splits)

lemma push_list_tokens: "push_list xs t = Inr t' \<Longrightarrow> tk_v t' = tk_v t @ xs"
  by (induction xs arbitrary: t) (auto simp: bindE_Inr_iff dest!: push_tokens)

text \<open>Only UTF-8 has tokens.\<close>

lemma dgt_initial_utf8:
  "dgt_initial d slots s p ids = Inr xs \<Longrightarrow> p \<le> length s \<Longrightarrow>
     \<exists>cs. list_all scalar cs \<and> drop p s = concat (map put_utf8 cs)"
proof (induction "length s - p" arbitrary: p ids rule: less_induct)
  case less
  show ?case
  proof (cases "p < length s")
    case True
    then obtain c q where cp: "next_cp s (length s) p = Inr (c, q)"
      using less.prems(1) by (auto simp: dgt_initial.simps [of d slots s p] bindE_Inr_iff)
    note sound = next_cp_sound(1-4,6) [OF cp]
    obtain ids' where ids': "dgt_initial d slots s q ids' = Inr xs"
      using less.prems(1) True cp
      by (auto simp: dgt_initial.simps [of d slots s p] bindE_Inr_iff split: option.splits if_splits)
    have "\<exists>cs. list_all scalar cs \<and> drop q s = concat (map put_utf8 cs)"
      by (rule less.hyps [OF _ ids' sound(4)]) (use sound(4,5) True in linarith)
    then obtain cs where cs: "list_all scalar cs" "drop q s = concat (map put_utf8 cs)" by blast
    have "drop p s = span_of s p q @ drop q s"
    proof -
      have "drop q s = drop (q - p) (drop p s)" using sound(5) by simp
      then show ?thesis unfolding span_of_def by (simp only: append_take_drop_id)
    qed
    with sound cs show ?thesis by (intro exI [of _ "c # cs"]) simp
  next
    case False
    then show ?thesis using less.prems(2) by (intro exI [of _ "[]"]) simp
  qed
qed

text \<open>The tokens of a piece spell its code points.\<close>

lemma dgt_piece_text:
  assumes d: "dgt_ok d" and s: "length s \<le> UINT32_MAX" and r: "dgt_piece d s out = Inr out'"
  shows "\<exists>cs xs. list_all scalar cs \<and> s = concat (map put_utf8 cs) \<and>
    tk_v out' = tk_v out @ map int xs \<and> dgt_text d xs = dgt_spell d cs"
proof -
  obtain slots ids where "dgt_initial d slots s 0 [] = Inr ids"
    using r by (auto simp: dgt_piece_def Let_def bindE_Inr_iff)
  from dgt_initial_utf8 [OF this] obtain cs where cs: "list_all scalar cs" "s = concat (map put_utf8 cs)"
    by auto
  from r [unfolded dgt_piece_ref [OF d cs s]] obtain ids xs where
    "bpe_units d cs = Inr ids" "bpe_merge_all d ids = Inr xs" "push_list (map int xs) out = Inr out'"
    by (auto simp: bindE_Inr_iff simp del: map_map)
  with bpe_units_text [OF d] bpe_merge_all_text [OF d] push_list_tokens cs show ?thesis by metis
qed

section \<open>Cutting out the special tokens\<close>

text \<open>The longest special token at the start of a text, the first of that length.\<close>

definition special_prefix :: "DGTokenizer \<Rightarrow> bytes \<Rightarrow> Vocab option" where
  "special_prefix d t =
     fold (\<lambda>v hit. if take (length (vo_s v)) t = vo_s v \<and>
           (case hit of None \<Rightarrow> True | Some h \<Rightarrow> length (vo_s v) > length (vo_s h)) then Some v else hit)
       (dt_special d) None"

text \<open>
  The plain text before each special token, in order, and what follows the last one.
\<close>

function dgt_segments :: "DGTokenizer \<Rightarrow> bytes \<Rightarrow> bytes \<Rightarrow> (bytes \<times> Vocab) list \<times> bytes" where
  "dgt_segments d acc t =
     (case t of
        [] \<Rightarrow> ([], acc)
      | c # t' \<Rightarrow>
          (case special_prefix d t of
             Some v \<Rightarrow>
               if vo_s v = [] then ([], acc)
               else let (segs, rest) = dgt_segments d [] (drop (length (vo_s v)) t)
                    in ((acc, v) # segs, rest)
           | None \<Rightarrow> dgt_segments d (acc @ [c]) t'))"
  by pat_completeness auto
termination
  by (relation "measure (\<lambda>(d, acc, t). length t)") (auto simp: neq_Nil_conv)

declare dgt_segments.simps [simp del]

lemma special_prefix_Some: "special_prefix d t = Some v \<Longrightarrow> v \<in> set (dt_special d) \<and> take (length (vo_s v)) t = vo_s v"
proof -
  have "fold (\<lambda>v hit. if take (length (vo_s v)) t = vo_s v \<and>
           (case hit of None \<Rightarrow> True | Some h \<Rightarrow> length (vo_s v) > length (vo_s h)) then Some v else hit) vs h = Some v \<Longrightarrow>
      h = Some v \<or> v \<in> set vs \<and> take (length (vo_s v)) t = vo_s v" for vs h
    by (induction vs arbitrary: h) (auto split: if_splits)
  then show "special_prefix d t = Some v \<Longrightarrow> v \<in> set (dt_special d) \<and> take (length (vo_s v)) t = vo_s v"
    unfolding special_prefix_def by blast
qed

lemma special_prefix_None:
  assumes "\<And>v. v \<in> set (dt_special d) \<Longrightarrow> take (length (vo_s v)) t \<noteq> vo_s v"
  shows "special_prefix d t = None"
proof -
  have "fold (\<lambda>v hit. if take (length (vo_s v)) t = vo_s v \<and>
           (case hit of None \<Rightarrow> True | Some h \<Rightarrow> length (vo_s v) > length (vo_s h)) then Some v else hit) vs None = None"
    if "set vs \<subseteq> set (dt_special d)" for vs
    using that assms by (induction vs) auto
  then show ?thesis by (simp add: special_prefix_def)
qed

lemma special_match:
  "length (vo_s v) \<le> length s - i \<and> memcmp (span_of s i (i + length (vo_s v))) (vo_s v) = 0 \<longleftrightarrow>
     take (length (vo_s v)) (drop i s) = vo_s v" if "i < length s"
proof -
  have "length (vo_s v) \<le> length s - i" if "take (length (vo_s v)) (drop i s) = vo_s v"
    using arg_cong [OF that, of length] by simp
  moreover have "memcmp (take (length (vo_s v)) (drop i s)) (vo_s v) = 0 \<longleftrightarrow>
      take (length (vo_s v)) (drop i s) = vo_s v" if "length (vo_s v) \<le> length s - i"
    using that by (intro memcmp_eq_0) simp
  ultimately show ?thesis by (auto simp: span_of_def)
qed

lemma dgt_special_hit_prefix:
  "i < length s \<Longrightarrow> dgt_special_hit s i (dt_special d) None = special_prefix d (drop i s)"
proof -
  assume i: "i < length s"
  have "dgt_special_hit s i vs h = fold (\<lambda>v hit. if take (length (vo_s v)) (drop i s) = vo_s v \<and>
           (case hit of None \<Rightarrow> True | Some h \<Rightarrow> length (vo_s v) > length (vo_s h)) then Some v else hit) vs h" for vs h
    by (induction vs arbitrary: h) (simp_all only: dgt_special_hit.simps fold.simps conj_assoc [symmetric] special_match [OF i] o_apply id_apply)
  then show ?thesis by (simp add: special_prefix_def)
qed

text \<open>The table of first bytes only saves comparisons.\<close>

lemma special_first_exact:
  assumes "dgt_ok d" "\<not> dt_special_first d ! unat (hd t)"
  shows "special_prefix d t = None"
proof (rule special_prefix_None)
  fix v assume "v \<in> set (dt_special d)"
  then have v: "vo_s v \<noteq> []" "dt_special_first d ! unat (hd (vo_s v))"
    using assms(1) by (auto simp: dgt_ok_def list_all_iff)
  show "take (length (vo_s v)) t \<noteq> vo_s v"
  proof
    assume "take (length (vo_s v)) t = vo_s v"
    with v(1) have "hd (vo_s v) = hd t" by (metis hd_take length_greater_0_conv)
    with v(2) assms(2) show False by simp
  qed
qed

fun seg_tokens :: "DGTokenizer \<Rightarrow> (bytes \<times> Vocab) list \<Rightarrow> Tokens \<Rightarrow> Tokens result" where
  "seg_tokens d [] out = Inr out"
| "seg_tokens d ((p, v) # segs) out =
     bindE (if p \<noteq> [] then dgt_piece d (dgt_mark_spaces p) out else Inr out) (\<lambda>out.
     bindE (push out (vo_id v)) (seg_tokens d segs))"

lemma span_of_eq_Nil: "b \<le> length xs \<Longrightarrow> span_of xs a b = [] \<longleftrightarrow> b \<le> a"
  by (auto simp: span_of_def)

lemma span_of_snoc: "a \<le> b \<Longrightarrow> b < length xs \<Longrightarrow> span_of xs a (Suc b) = span_of xs a b @ [xs ! b]"
  using span_of_split [of a b "Suc b" xs] span_of_Cons [of b "Suc b" xs] by simp

lemma dgt_tokenize_loop_segments:
  assumes d: "dgt_ok d"
  shows "plain \<le> i \<Longrightarrow> i \<le> length s \<Longrightarrow> dgt_segments d (span_of s plain i) (drop i s) = (segs, rest) \<Longrightarrow>
    dgt_tokenize_loop d s i plain out = bindE (seg_tokens d segs out) (\<lambda>out. Inr (length s - length rest, out)) \<and>
    rest = span_of s (length s - length rest) (length s) \<and> length rest \<le> length s"
proof (induction "length s - i" arbitrary: i plain out segs rest rule: less_induct)
  case less
  show ?case
  proof (cases "i < length s")
    case False
    then have i: "i = length s" using less.prems by simp
    then have "segs = []" "rest = span_of s plain i" using less.prems(3) by (simp_all add: dgt_segments.simps)
    then show ?thesis using less.prems i by (simp add: dgt_tokenize_loop.simps)
  next
    case True
    have di: "drop i s = s ! i # drop (Suc i) s" using True by (simp add: Cons_nth_drop_Suc)
    have hit: "(if \<not> dt_special_first d ! unat (s ! i) then None else dgt_special_hit s i (dt_special d) None) =
        special_prefix d (drop i s)"
      using special_first_exact [OF d, of "drop i s"] dgt_special_hit_prefix [OF True, of d] di by simp
    show ?thesis
    proof (cases "special_prefix d (drop i s)")
      case None
      have "dgt_segments d (span_of s plain (Suc i)) (drop (Suc i) s) = (segs, rest)"
        using less.prems None True unfolding di
        by (simp add: dgt_segments.simps [of d _ "s ! i # drop (Suc i) s"] span_of_snoc)
      moreover have "dgt_tokenize_loop d s i plain out = dgt_tokenize_loop d s (Suc i) plain out"
        using hit None True by (subst dgt_tokenize_loop.simps) (auto split: if_splits)
      ultimately show ?thesis using less.hyps [of "Suc i" plain segs rest out] less.prems True by simp
    next
      case (Some v)
      then have v: "v \<in> set (dt_special d)" "take (length (vo_s v)) (drop i s) = vo_s v"
        using special_prefix_Some by blast+
      have ne: "vo_s v \<noteq> []" using d v(1) by (auto simp: dgt_ok_def list_all_iff)
      have le: "i + length (vo_s v) \<le> length s" using arg_cong [OF v(2), of length] True by simp
      obtain segs' where segs': "dgt_segments d [] (drop (i + length (vo_s v)) s) = (segs', rest)"
        "segs = (span_of s plain i, v) # segs'"
      proof -
        have "drop (i + length (vo_s v)) s = drop (length (vo_s v)) (s ! i # drop (Suc i) s)"
          unfolding di [symmetric] by (simp add: add.commute)
        then show thesis
          using less.prems(3) Some ne that unfolding di
          by (simp add: dgt_segments.simps [of d _ "s ! i # drop (Suc i) s"] split: prod.splits)
      qed
      have lt: "length s - (i + length (vo_s v)) < length s - i"
        using ne True by (cases "vo_s v") simp_all
      have "dgt_tokenize_loop d s i plain out =
          bindE (if i > plain then dgt_piece d (dgt_mark_spaces (span_of s plain i)) out else Inr out) (\<lambda>out.
          bindE (push out (vo_id v)) (dgt_tokenize_loop d s (i + length (vo_s v)) (i + length (vo_s v))))"
        using hit Some True ne by (subst dgt_tokenize_loop.simps) (auto split: if_splits)
      also have "dgt_tokenize_loop d s (i + length (vo_s v)) (i + length (vo_s v)) =
          (\<lambda>out. bindE (seg_tokens d segs' out) (\<lambda>out. Inr (length s - length rest, out)))"
        using less.hyps [of "i + length (vo_s v)" "i + length (vo_s v)" segs' rest] le segs' ne True lt
        by (intro ext) simp
      also have "bindE (if i > plain then dgt_piece d (dgt_mark_spaces (span_of s plain i)) out else Inr out) (\<lambda>out.
          bindE (push out (vo_id v)) (\<lambda>out. bindE (seg_tokens d segs' out) (\<lambda>out. Inr (length s - length rest, out)))) =
          bindE (seg_tokens d segs out) (\<lambda>out. Inr (length s - length rest, out))"
        using span_of_eq_Nil [of i s plain] True segs'(2) by (simp add: bindE_assoc not_le)
      finally show ?thesis
        using less.hyps [of "i + length (vo_s v)" "i + length (vo_s v)" segs' rest] le segs'(1) ne lt by simp
    qed
  qed
qed

lemma dgt_tokenize_segments:
  assumes "dgt_ok d"
  shows "dgt_tokenize d s =
    (let (segs, rest) = dgt_segments d [] s in
     bindE (seg_tokens d segs tokens_zero) (\<lambda>out.
     bindE (if rest \<noteq> [] then dgt_piece d (dgt_mark_spaces rest) out else Inr out) (\<lambda>out. Inr (tk_v out))))"
proof -
  obtain segs rest where g: "dgt_segments d [] s = (segs, rest)" by fastforce
  then have "dgt_segments d (span_of s 0 0) (drop 0 s) = (segs, rest)" by simp
  note loop = dgt_tokenize_loop_segments [OF assms le_refl le0 this, of tokens_zero]
  have rest: "span_of s (length s - length rest) (length s) = rest" using loop by simp
  have ne: "length s - length rest < length s \<longleftrightarrow> rest \<noteq> []"
  proof -
    have "length rest \<le> length s" using loop by blast
    then show ?thesis by (cases rest) auto
  qed
  show ?thesis using loop unfolding dgt_tokenize_def g Let_def
    by (simp add: bindE_assoc rest ne cong: if_cong)
qed

lemma dgt_segments_concat:
  "dgt_ok d \<Longrightarrow> dgt_segments d acc t = (segs, rest) \<Longrightarrow>
     acc @ t = concat (map (\<lambda>(p, v). p @ vo_s v) segs) @ rest \<and> snd ` set segs \<subseteq> set (dt_special d)"
proof (induction d acc t arbitrary: segs rest rule: dgt_segments.induct)
  case (1 d acc t)
  show ?case
  proof (cases t)
    case Nil
    with "1.prems" show ?thesis by (simp add: dgt_segments.simps)
  next
    case (Cons c t')
    show ?thesis
    proof (cases "special_prefix d t")
      case None
      then have "dgt_segments d (acc @ [c]) t' = (segs, rest)"
        using "1.prems"(2) Cons by (simp add: dgt_segments.simps [of d acc "c # t'"])
      with "1.IH"(1) [OF Cons None "1.prems"(1)] Cons show ?thesis by simp
    next
      case (Some v)
      then have v: "v \<in> set (dt_special d)" "take (length (vo_s v)) t = vo_s v"
        using special_prefix_Some by blast+
      then have ne: "vo_s v \<noteq> []" using "1.prems"(1) by (auto simp: dgt_ok_def list_all_iff)
      obtain segs' where g: "dgt_segments d [] (drop (length (vo_s v)) t) = (segs', rest)" "segs = (acc, v) # segs'"
        using "1.prems"(2) Cons Some ne
        by (auto simp: dgt_segments.simps [of d acc "c # t'"] split: prod.splits)
      have "t = vo_s v @ drop (length (vo_s v)) t" using v(2) by (metis append_take_drop_id)
      with "1.IH"(2) [OF Cons Some ne "1.prems"(1) g(1)] g(2) v(1) show ?thesis by simp
    qed
  qed
qed

text \<open>How a stretch of plain text is spelled: space marks, then byte tokens where needed.\<close>

definition dgt_spell_plain :: "DGTokenizer \<Rightarrow> bytes \<Rightarrow> bytes" where
  "dgt_spell_plain d p =
     (let s = dgt_mark_spaces p in
      case utf8_scan (length s) s (length s) 0 of Inr cs \<Rightarrow> dgt_spell d cs | Inl _ \<Rightarrow> [])"

definition dgt_spelling :: "DGTokenizer \<Rightarrow> bytes \<Rightarrow> bytes" where
  "dgt_spelling d s =
     (let (segs, rest) = dgt_segments d [] s in
      concat (map (\<lambda>(p, v). dgt_spell_plain d p @ vo_s v) segs) @ dgt_spell_plain d rest)"

lemma dgt_spell_plain_Nil [simp]: "dgt_spell_plain d [] = []"
  by (simp add: dgt_spell_plain_def dgt_mark_spaces_def dgt_spell_def)

lemma length_mark_spaces: "length (dgt_mark_spaces s) \<le> 3 * length s"
  by (induction s) (simp_all add: dgt_mark_spaces_def dgt_space_mark_def)

lemma plain_piece_text:
  assumes "dgt_ok d" "3 * length p \<le> UINT32_MAX"
    "(if p \<noteq> [] then dgt_piece d (dgt_mark_spaces p) out else Inr out) = Inr out'"
  shows "\<exists>xs. tk_v out' = tk_v out @ map int xs \<and> dgt_text d xs = dgt_spell_plain d p"
proof (cases "p = []")
  case True
  with assms(3) show ?thesis by (intro exI [of _ "[]"]) simp
next
  case False
  let ?s = "dgt_mark_spaces p"
  have "length ?s \<le> UINT32_MAX" using length_mark_spaces [of p] assms(2) by linarith
  with dgt_piece_text [OF assms(1), of ?s out out'] assms(3) False obtain cs xs where
    cs: "list_all scalar cs" "?s = concat (map put_utf8 cs)" and
    xs: "tk_v out' = tk_v out @ map int xs" "dgt_text d xs = dgt_spell d cs" by auto
  have "utf8_scan (length ?s) ?s (length ?s) 0 = Inr cs"
    using utf8_scan_iff [of "length ?s" ?s "length ?s" cs] cs by simp
  with xs show ?thesis by (auto simp: dgt_spell_plain_def Let_def)
qed

lemma seg_tokens_text:
  "dgt_ok d \<Longrightarrow> (\<forall>(p, v) \<in> set segs. 3 * length p \<le> UINT32_MAX \<and> v \<in> set (dt_special d)) \<Longrightarrow>
     seg_tokens d segs out = Inr out' \<Longrightarrow>
     \<exists>xs. tk_v out' = tk_v out @ map int xs \<and>
       dgt_text d xs = concat (map (\<lambda>(p, v). dgt_spell_plain d p @ vo_s v) segs)"
proof (induction segs arbitrary: out)
  case Nil
  then show ?case by (intro exI [of _ "[]"]) simp
next
  case (Cons pv segs)
  obtain p v where pv: "pv = (p, v)" by fastforce
  with Cons.prems(3) obtain o1 o2 where
    o: "(if p \<noteq> [] then dgt_piece d (dgt_mark_spaces p) out else Inr out) = Inr o1"
      "push o1 (vo_id v) = Inr o2" "seg_tokens d segs o2 = Inr out'"
    by (auto simp: bindE_Inr_iff simp del: if_splits)
  obtain xs where xs: "tk_v o1 = tk_v out @ map int xs" "dgt_text d xs = dgt_spell_plain d p"
    using plain_piece_text [OF Cons.prems(1) _ o(1)] Cons.prems(2) pv by auto
  obtain ys where ys: "tk_v out' = tk_v o2 @ map int ys"
    "dgt_text d ys = concat (map (\<lambda>(p, v). dgt_spell_plain d p @ vo_s v) segs)"
    using Cons.IH [OF Cons.prems(1) _ o(3)] Cons.prems(2) by auto
  have "v \<in> set (dt_special d)" using Cons.prems(2) pv by auto
  then have v: "v \<in> set (dt_vocab d)" using Cons.prems(1) by (auto simp: dgt_ok_def list_all_iff)
  have "tk_v out' = tk_v out @ map int (xs @ vo_u32 v # ys)"
    using xs(1) ys(1) push_tokens [OF o(2)] dgt_ok_vocab(3) [OF Cons.prems(1) v] by simp
  moreover have "dgt_text d (xs @ vo_u32 v # ys) = concat (map (\<lambda>(p, v). dgt_spell_plain d p @ vo_s v) (pv # segs))"
    using xs(2) ys(2) pv dgt_token_text_vocab [OF Cons.prems(1) v] by simp
  ultimately show ?case by blast
qed

lemma dgt_tokenize_spelling:
  assumes d: "dgt_ok d" and s: "3 * length s \<le> UINT32_MAX" and r: "dgt_tokenize d s = Inr ts"
  shows "\<exists>xs. ts = map int xs \<and> dgt_text d xs = dgt_spelling d s"
proof -
  obtain segs rest where g: "dgt_segments d [] s = (segs, rest)" by fastforce
  note c = dgt_segments_concat [OF d g]
  have len: "length p \<le> length s" if "(p, v) \<in> set segs" for p v
  proof -
    from that obtain as bs where "segs = as @ (p, v) # bs" by (meson split_list)
    with c show ?thesis by simp
  qed
  have seg: "\<forall>(p, v) \<in> set segs. 3 * length p \<le> UINT32_MAX \<and> v \<in> set (dt_special d)"
  proof (intro ballI, clarify)
    fix p v assume pv: "(p, v) \<in> set segs"
    have "3 * length p \<le> 3 * length s" using len [OF pv] by simp
    with s c pv show "3 * length p \<le> UINT32_MAX \<and> v \<in> set (dt_special d)" by fastforce
  qed
  have rest: "3 * length rest \<le> UINT32_MAX"
    using arg_cong [OF conjunct1 [OF c], of length] s by simp
  obtain o1 o2 where o: "seg_tokens d segs tokens_zero = Inr o1"
    "(if rest \<noteq> [] then dgt_piece d (dgt_mark_spaces rest) o1 else Inr o1) = Inr o2" "ts = tk_v o2"
    using r unfolding dgt_tokenize_segments [OF d] g Let_def prod.case by (auto simp only: bindE_Inr_iff sum.inject)
  obtain xs where xs: "tk_v o1 = tk_v tokens_zero @ map int xs"
    "dgt_text d xs = concat (map (\<lambda>(p, v). dgt_spell_plain d p @ vo_s v) segs)"
    using seg_tokens_text [OF d seg o(1)] by blast
  obtain ys where ys: "tk_v o2 = tk_v o1 @ map int ys" "dgt_text d ys = dgt_spell_plain d rest"
    using plain_piece_text [OF d rest o(2)] by blast
  have "ts = map int (xs @ ys)" using o(3) xs(1) ys(1) by (simp add: tokens_zero_def)
  moreover have "dgt_text d (xs @ ys) = dgt_spelling d s" using xs(2) ys(2) g by (simp add: dgt_spelling_def)
  ultimately show ?thesis by blast
qed

section \<open>A small tokenizer\<close>

text \<open>Letters, one merge, a space mark and one special token; \<open>z\<close> needs a byte token.\<close>

definition small_tokenizer :: DGTokenizer where
  "small_tokenizer =
     (let v = \<lambda>k s. \<lparr>vo_id = k, vo_s = s\<rparr>;
          vs = [v 5 (str ''<0x7A>''), v 4 (str ''<e>''), v 0 (str ''a''), v 2 (str ''ab''), v 1 (str ''b''),
                v 3 dgt_space_mark];
          by_id = [v 0 (str ''a''), v 1 (str ''b''), v 2 (str ''ab''), v 3 dgt_space_mark, v 4 (str ''<e>''),
                   v 5 (str ''<0x7A>'')]
      in \<lparr>dt_vocab = vs, dt_by_id = map Some by_id, dt_merge = [\<lparr>mg_a = 0, mg_b = 1, mg_rank = 0\<rparr>],
          dt_special = [v 4 (str ''<e>'')], dt_maxlen = 6,
          dt_special_first = (replicate 256 False)[60 := True]\<rparr>)"

lemma small_tokenizer_ok: "dgt_ok small_tokenizer"
  by code_simp

section \<open>Properties\<close>

text \<open>
  C15. Byte-pair encoding with the linked list and the candidate heap, whose stale candidates are
  skipped, gives for every piece of valid UTF-8 exactly what rescanning the whole list for the
  pair of least rank, leftmost first, after every merge gives: the same tokens or the same
  error. In particular the heap never outgrows its \<open>3 * slots\<close> entries, every array access is in
  bounds and the loop ends.
\<close>

theorem dgt_piece_reference:
  assumes "dgt_ok d" "list_all scalar cs" "s = concat (map put_utf8 cs)" "length s \<le> UINT32_MAX"
  shows "dgt_piece d s out =
    bindE (bpe_units d cs) (\<lambda>ids. bindE (bpe_merge_all d ids) (\<lambda>xs. push_list (map int xs) out))"
  by (rule dgt_piece_ref [OF assms])

theorem dgt_piece_reference_witness:
  "dgt_piece small_tokenizer (str ''abazab'') tokens_zero =
     bindE (bpe_units small_tokenizer [97, 98, 97, 122, 97, 98])
       (\<lambda>ids. bindE (bpe_merge_all small_tokenizer ids) (\<lambda>xs. push_list (map int xs) tokens_zero)) \<and>
   dgt_piece small_tokenizer (str ''abazab'') tokens_zero = Inr \<lparr>tk_v = [2, 0, 5, 2], tk_cap = 64\<rparr>"
proof -
  have "list_all scalar [97, 98, 97, 122, 97, 98]" "str ''abazab'' = concat (map put_utf8 [97, 98, 97, 122, 97, 98])"
    "length (str ''abazab'') \<le> UINT32_MAX" by code_simp+
  note r = dgt_piece_reference [OF small_tokenizer_ok this, of tokens_zero]
  have "bindE (bpe_units small_tokenizer [97, 98, 97, 122, 97, 98])
       (\<lambda>ids. bindE (bpe_merge_all small_tokenizer ids) (\<lambda>xs. push_list (map int xs) tokens_zero)) =
      Inr \<lparr>tk_v = [2, 0, 5, 2], tk_cap = 64\<rparr>" by code_simp
  with r show ?thesis by simp
qed

text \<open>
  C16. The tokens of a text spell it: their texts, joined, are the input with special tokens kept
  as they stand, every space outside them replaced by the space mark, and every code point
  that the vocabulary lacks replaced by its byte tokens. Special tokens are found leftmost and
  longest first.
\<close>

theorem dgt_tokenize_spells:
  assumes "dgt_ok d" "3 * length s \<le> UINT32_MAX" "dgt_tokenize d s = Inr ts"
  shows "\<exists>xs. ts = map int xs \<and> dgt_text d xs = dgt_spelling d s"
  by (rule dgt_tokenize_spelling [OF assms])

theorem dgt_tokenize_spells_witness:
  "(\<exists>xs. [0, 3, 4] = map int xs \<and> dgt_text small_tokenizer xs = dgt_spelling small_tokenizer (str ''a <e>'')) \<and>
   dgt_spelling small_tokenizer (str ''a <e>'') = str ''a'' @ dgt_space_mark @ str ''<e>''"
proof -
  have "3 * length (str ''a <e>'') \<le> UINT32_MAX" by simp
  moreover have "dgt_tokenize small_tokenizer (str ''a <e>'') = Inr [0, 3, 4]" by code_simp
  moreover have "dgt_spelling small_tokenizer (str ''a <e>'') = str ''a'' @ dgt_space_mark @ str ''<e>''"
    by code_simp
  ultimately show ?thesis using dgt_tokenize_spells [OF small_tokenizer_ok] by blast
qed

end
