(* ===== verification/TokenSafe.thy ===== *)
theory TokenSafe
  imports TokenText
begin

text \<open>
  Total correctness of the encoder (\<open>src/model.inc\<close>), for its clients: with well-formed tables,
  \<open>dgt_tokenize\<close> returns tokens or stops with one of the program's own errors on every text, and
  never reads or writes outside the arrays it works on.
\<close>

lemma dgt_fallback_ok:
  "length ids + length cs \<le> slots \<Longrightarrow> ensures (dgt_fallback d slots cs ids) (\<lambda>xs. length xs = length ids + length cs)"
  by (induction d slots cs ids rule: dgt_fallback.induct) (auto split: option.split)

lemma dgt_initial_defined:
  "length ids + (length s - p) \<le> slots \<Longrightarrow> defined (dgt_initial d slots s p ids)"
proof (induction "length s - p" arbitrary: p ids rule: less_induct)
  case less
  show ?case
  proof (cases "p < length s")
    case True
    note step = dgt_initial.simps [of d slots s p]
    show ?thesis
    proof (cases "next_cp s (length s) p")
      case (Inl e)
      with next_cp_defined [of p "length s" s] True step show ?thesis by (simp add: defined_def)
    next
      case (Inr v)
      then obtain c q where cp: "next_cp s (length s) p = Inr (c, q)" by (cases v) auto
      note sound = next_cp_sound(2-4,6) [OF cp]
      have "length (span_of s p q) = q - p" using sound by simp
      then have room: "length ids + length (span_of s p q) \<le> slots" using less.prems sound True by linarith
      have go: "defined (dgt_initial d slots s q ids')" if "length ids' \<le> length ids + (q - p)" for ids'
        by (rule less.hyps) (use that less.prems sound True in linarith)+
      have lt: "length ids < slots" using less.prems True by linarith
      show ?thesis
      proof (cases "dgt_vfind d (span_of s p q)")
        case (Some v)
        with lt go [of "ids @ [vo_u32 v]"] sound True step cp show ?thesis by simp
      next
        case None
        have "length xs \<le> length ids + (q - p)" if "dgt_fallback d slots (span_of s p q) ids = Inr xs" for xs
          using dgt_fallback_ok [OF room, of d] that \<open>length (span_of s p q) = q - p\<close> by (simp add: ensures_def)
        moreover have "defined (dgt_fallback d slots (span_of s p q) ids)"
          using dgt_fallback_ok [OF room, of d] by (simp add: ensures_def)
        ultimately have "defined (bindE (dgt_fallback d slots (span_of s p q) ids) (dgt_initial d slots s q))"
          by (intro defined_bindE go) simp_all
        with None True step cp show ?thesis by simp
      qed
    qed
  qed (simp add: dgt_initial.simps)
qed

lemma bpe_bytes_defined: "defined (bpe_bytes d cs)"
  by (induction cs) (auto split: option.split)

lemma bpe_units_defined: "defined (bpe_units d cs)"
proof (induction cs)
  case (Cons c cs)
  have "defined (bpe_unit d c)" by (auto simp: bpe_unit_def bpe_bytes_defined split: option.split)
  with Cons show ?case unfolding bpe_units.simps by (intro defined_bindE) simp_all
qed simp

lemma bpe_join_defined:
  assumes "dgt_ok d" "a < length (dt_vocab d)" "b < length (dt_vocab d)"
  shows "defined (bpe_join d a b)"
proof -
  have by_id: "length (dt_by_id d) = length (dt_vocab d)" "set (dt_by_id d) \<subseteq> Some ` set (dt_vocab d)"
    using assms(1) by (auto simp: dgt_ok_def)
  have some: "\<exists>v. dt_by_id d ! i = Some v" if "i < length (dt_vocab d)" for i
    using that by_id by (metis imageE nth_mem subsetD)
  obtain va vb where "dt_by_id d ! a = Some va" "dt_by_id d ! b = Some vb"
    using some [OF assms(2)] some [OF assms(3)] by blast
  then show ?thesis using assms by_id by (auto simp: bpe_join_def jb_size_add_def split: option.split)
qed

lemma bpe_merge_all_defined: "dgt_ok d \<Longrightarrow> defined (bpe_merge_all d xs)"
proof (induction d xs rule: bpe_merge_all.induct)
  case (1 d xs)
  show ?case
  proof (cases "bpe_best d xs")
    case (Some ri)
    then obtain r i where ri: "bpe_best d xs = Some (r, i)" by (cases ri) auto
    from bpe_best_Some [OF this] obtain m where "dgt_mfind d (xs ! i) (xs ! Suc i) = Some m" by auto
    then have "xs ! i < length (dt_vocab d) \<and> xs ! Suc i < length (dt_vocab d)"
      using dgt_mfind_Some [of d "xs ! i" "xs ! Suc i" m] 1(2) by (auto simp: dgt_ok_def list_all_iff)
    then have "defined (bpe_join d (xs ! i) (xs ! Suc i))" using bpe_join_defined 1(2) by blast
    with 1 ri show ?thesis by (subst bpe_merge_all.simps) auto
  qed (simp add: bpe_merge_all.simps)
qed

lemma push_defined: "defined (push t x)"
  by (simp add: push_def)

lemma push_list_defined: "defined (push_list xs out)"
  by (induction xs arbitrary: out) (auto simp: push_defined)

lemma dgt_piece_defined:
  assumes "dgt_ok d" "length s \<le> UINT32_MAX"
  shows "defined (dgt_piece d s out)"
proof (cases "\<exists>cs. list_all scalar cs \<and> s = concat (map put_utf8 cs)")
  case True
  then obtain cs where "list_all scalar cs" "s = concat (map put_utf8 cs)" by blast
  from dgt_piece_ref [OF assms(1) this assms(2)] show ?thesis
    by (auto intro!: defined_bindE bpe_units_defined bpe_merge_all_defined push_list_defined assms(1))
next
  case False
  let ?slots = "if length s \<noteq> 0 then length s else 1"
  have "defined (dgt_initial d ?slots s 0 [])" by (rule dgt_initial_defined) simp
  moreover have "dgt_initial d ?slots s 0 [] \<noteq> Inr ids" for ids
    using dgt_initial_utf8 [of d ?slots s 0 "[]" ids] False by auto
  ultimately obtain e where "dgt_initial d ?slots s 0 [] = Inl e" "e \<noteq> Undefined" "e \<noteq> OutOfFuel"
    by (cases "dgt_initial d ?slots s 0 []") (auto simp: defined_def)
  moreover have "bpe_scratch d ?slots = Inr ()"
    using assms by (intro bpe_scratch_ok) (auto simp: dgt_ok_def JB_MAX_JSON_def)
  ultimately show ?thesis unfolding dgt_piece_def Let_def by (simp add: defined_def)
qed

lemma dgt_tokenize_defined:
  assumes d: "dgt_ok d" and s: "3 * length s \<le> UINT32_MAX"
  shows "defined (dgt_tokenize d s)"
proof -
  obtain segs rest where g: "dgt_segments d [] s = (segs, rest)" by fastforce
  note c = dgt_segments_concat [OF d g]
  have "length p \<le> length s" if "(p, v) \<in> set segs" for p v
  proof -
    from that obtain as bs where "segs = as @ (p, v) # bs" by (meson split_list)
    with c show ?thesis by simp
  qed
  then have small: "\<forall>(p, v) \<in> set segs. 3 * length p \<le> UINT32_MAX" using s by fastforce
  have piece: "defined (if p \<noteq> [] then dgt_piece d (dgt_mark_spaces p) out else Inr out)"
    if "3 * length p \<le> UINT32_MAX" for p out
    using dgt_piece_defined [OF d, of "dgt_mark_spaces p" out] length_mark_spaces [of p] that by auto
  have "defined (seg_tokens d segs out)" for out
    using small
  proof (induction segs arbitrary: out)
    case (Cons pv segs)
    obtain p v where pv: "pv = (p, v)" by fastforce
    with Cons.prems have "3 * length p \<le> UINT32_MAX" by simp
    from piece [OF this] Cons pv show ?case by (auto simp: push_defined simp del: if_splits intro!: defined_bindE)
  qed simp
  moreover have "3 * length rest \<le> UINT32_MAX"
    using arg_cong [OF conjunct1 [OF c], of length] s by simp
  ultimately show ?thesis
    unfolding dgt_tokenize_segments [OF d] g Let_def prod.case
    by (intro defined_bindE piece) simp_all
qed

end
