(* ===== verification/Canonical.thy ===== *)
theory Canonical
  imports JsonWriter
begin

text \<open>
  What the writer writes. \<open>appends m z\<close> says that a writer appends exactly the text \<open>z\<close>, and
  that it fails only for want of room: past the buffer's limit or past \<open>2 ^ 63\<close> bytes. The value
  of a token tree is a \<open>jval\<close>; \<open>dg_json_value\<close> writes its text, which for sorted keys does not
  depend on the order of the members, and a JSON string it wrote is decoded by the tokenizer to
  the bytes it was made from.
\<close>

section \<open>Writers\<close>

definition db_ok :: "DGBuf \<Rightarrow> bool" where
  "db_ok b \<longleftrightarrow> (db_limit b = 0 \<or> length (db_p b) \<le> db_limit b) \<and>
     ((db_cap b = 0 \<and> db_p b = []) \<or>
      (\<exists>k \<le> 55. db_cap b = 256 * 2 ^ k \<and> length (db_p b) < db_cap b))"

definition db_room :: "DGBuf \<Rightarrow> nat \<Rightarrow> bool" where
  "db_room b k \<longleftrightarrow> (db_limit b = 0 \<or> length (db_p b) + k \<le> db_limit b) \<and>
     length (db_p b) + k < 9223372036854775808"

definition appends :: "(DGBuf \<Rightarrow> DGBuf result) \<Rightarrow> bytes \<Rightarrow> bool" where
  "appends m z \<longleftrightarrow> (\<forall>b. db_ok b \<longrightarrow>
     (if db_room b (length z) then
        \<exists>b'. m b = Inr b' \<and> db_ok b' \<and> db_p b' = db_p b @ z \<and> db_limit b' = db_limit b
      else dies (m b)))"

lemma db_ok_empty [simp]: "db_ok db_empty"
  by (simp add: db_ok_def db_empty_def)

lemma db_grow_power:
  "k \<le> 55 \<Longrightarrow> 256 * 2 ^ k < need \<Longrightarrow> need \<le> 9223372036854775808 \<Longrightarrow>
     \<exists>l \<le> 55. db_grow (256 * 2 ^ k) need = Inr (256 * 2 ^ l) \<and> need \<le> 256 * 2 ^ l"
proof (induction "55 - k" arbitrary: k)
  case 0
  then show ?case by simp
next
  case (Suc d)
  have k: "Suc k \<le> 55" "d = 55 - Suc k" using Suc by auto
  have le: "(256 :: nat) * 2 ^ k \<le> 9223372036854775807"
    using power_increasing [of k 54 "2 :: nat"] k by simp
  have step: "db_grow (256 * 2 ^ k) need = db_grow (256 * 2 ^ Suc k) need"
    using Suc.prems le by (subst db_grow.simps) (simp add: mult.commute mult.left_commute)
  show ?case
  proof (cases "256 * 2 ^ Suc k < need")
    case True
    from Suc.hyps(1) [OF k(2,1) True Suc.prems(3)] step show ?thesis by simp
  next
    case False
    then have "db_grow (256 * 2 ^ Suc k) need = Inr (256 * 2 ^ Suc k)" by (simp add: db_grow.simps)
    with step k False show ?thesis by (intro exI [of _ "Suc k"]) simp
  qed
qed

lemma db_grow_too_big:
  "k \<le> 55 \<Longrightarrow> 9223372036854775808 < need \<Longrightarrow> dies (db_grow (256 * 2 ^ k) need)"
proof (induction "55 - k" arbitrary: k)
  case 0
  then have "k = 55" by simp
  with 0 show ?case by (subst db_grow.simps) simp
next
  case (Suc d)
  have k: "Suc k \<le> 55" "d = 55 - Suc k" using Suc by auto
  have le: "(256 :: nat) * 2 ^ k \<le> 9223372036854775807"
    using power_increasing [of k 54 "2 :: nat"] k by simp
  have step: "db_grow (256 * 2 ^ k) need = db_grow (256 * 2 ^ Suc k) need"
    using Suc.prems le by (subst db_grow.simps) (simp add: mult.commute mult.left_commute)
  from Suc.hyps(1) [OF k(2,1) Suc.prems(2)] step show ?case by simp
qed

lemma dies_bindE [simp]: "dies m \<Longrightarrow> dies (bindE m k)"
  by (auto simp: dies_def)

lemma db_need_room:
  assumes "db_ok b" "db_room b k"
  shows "\<exists>c. db_need b k = Inr (b\<lparr>db_cap := c\<rparr>) \<and> length (db_p b) + k < c \<and> (\<exists>l \<le> 55. c = 256 * 2 ^ l)"
proof -
  let ?need = "length (db_p b) + k + 1"
  have guards: "\<not> (db_limit b \<noteq> 0 \<and> (length (db_p b) > db_limit b \<or> k > db_limit b - length (db_p b)))"
    "\<not> k > UINT64_MAX - length (db_p b) - 1" and need: "?need \<le> 9223372036854775808"
    using assms(2) by (auto simp: db_room_def)
  show ?thesis
  proof (cases "?need > db_cap b")
    case False
    with assms(1) have c: "\<exists>l \<le> 55. db_cap b = 256 * 2 ^ l" by (auto simp: db_ok_def)
    have "db_need b k = Inr b" using False guards by (simp add: db_need_def Let_def)
    then have "db_need b k = Inr (b\<lparr>db_cap := db_cap b\<rparr>)" by simp
    with False c show ?thesis by (intro exI [of _ "db_cap b"]) simp
  next
    case True
    obtain l where l: "l \<le> 55" "(if db_cap b \<noteq> 0 then db_cap b else 256) = 256 * 2 ^ l"
    proof (cases "db_cap b = 0")
      case True
      then show ?thesis by (intro that [of 0]) simp_all
    next
      case False
      with assms(1) obtain l where "l \<le> 55" "db_cap b = 256 * 2 ^ l" by (auto simp: db_ok_def)
      with False show ?thesis by (intro that [of l]) simp_all
    qed
    have "\<exists>m \<le> 55. db_grow (256 * 2 ^ l) ?need = Inr (256 * 2 ^ m) \<and> ?need \<le> 256 * 2 ^ m"
    proof (cases "256 * 2 ^ l < ?need")
      case True
      from db_grow_power [OF l(1) True need] show ?thesis by blast
    next
      case False
      then show ?thesis using l(1) by (intro exI [of _ l]) (simp add: db_grow.simps)
    qed
    then obtain m where "m \<le> 55" "db_grow (256 * 2 ^ l) ?need = Inr (256 * 2 ^ m)" "?need \<le> 256 * 2 ^ m"
      by blast
    with True guards l(2) show ?thesis
      by (intro exI [of _ "256 * 2 ^ m"]) (auto simp: db_need_def Let_def)
  qed
qed

lemma db_need_no_room:
  assumes "db_ok b" "\<not> db_room b k"
  shows "dies (db_need b k)"
proof (cases "db_limit b \<noteq> 0 \<and> (length (db_p b) > db_limit b \<or> k > db_limit b - length (db_p b))")
  case True
  then show ?thesis by (simp add: db_need_def Let_def)
next
  case False
  let ?need = "length (db_p b) + k + 1"
  from False assms(2) have need: "9223372036854775808 < ?need" by (auto simp: db_room_def)
  show ?thesis
  proof (cases "k > UINT64_MAX - length (db_p b) - 1")
    case True
    with False show ?thesis by (simp add: db_need_def Let_def)
  next
    case g: False
    obtain l where l: "l \<le> 55" "(if db_cap b \<noteq> 0 then db_cap b else 256) = 256 * 2 ^ l"
    proof (cases "db_cap b = 0")
      case True
      then show ?thesis by (intro that [of 0]) simp_all
    next
      case False
      with assms(1) obtain l where "l \<le> 55" "db_cap b = 256 * 2 ^ l" by (auto simp: db_ok_def)
      with False show ?thesis by (intro that [of l]) simp_all
    qed
    have "(256 :: nat) * 2 ^ l \<le> 9223372036854775808" using power_increasing [OF l(1), of "2 :: nat"] by simp
    moreover have "db_cap b \<le> (if db_cap b \<noteq> 0 then db_cap b else 256)" by simp
    ultimately have "db_cap b < ?need" using l(2) need by linarith
    with db_grow_too_big [OF l(1) need] l(2) g False show ?thesis
      by (simp add: db_need_def Let_def)
  qed
qed

lemma appends_db_mem: "appends (\<lambda>b. db_mem b z) z"
  unfolding appends_def
proof (intro allI impI)
  fix b assume b: "db_ok b"
  show "if db_room b (length z) then
        \<exists>b'. db_mem b z = Inr b' \<and> db_ok b' \<and> db_p b' = db_p b @ z \<and> db_limit b' = db_limit b
      else dies (db_mem b z)"
  proof (cases "db_room b (length z)")
    case True
    from db_need_room [OF b this] obtain c l where
      "db_need b (length z) = Inr (b\<lparr>db_cap := c\<rparr>)" "length (db_p b) + length z < c" "l \<le> 55" "c = 256 * 2 ^ l"
      by blast
    with True show ?thesis by (auto simp: db_mem_def db_ok_def db_room_def)
  next
    case False
    with db_need_no_room [OF b False] show ?thesis by (simp add: db_mem_def)
  qed
qed

lemma db_ch_mem: "db_ch b c = db_mem b [c]"
  by (simp add: db_ch_def db_mem_def)

lemma appends_db_ch: "appends (\<lambda>b. db_ch b c) [c]"
  unfolding db_ch_mem by (rule appends_db_mem)

lemma appends_Nil: "appends Inr []"
  unfolding appends_def
proof (intro allI impI)
  fix b assume b: "db_ok b"
  have "length (db_p b) < 9223372036854775808"
  proof (cases "db_cap b = 0")
    case False
    with b obtain k where k: "k \<le> 55" "length (db_p b) < 256 * 2 ^ k" by (auto simp: db_ok_def)
    have "(256 :: nat) * 2 ^ k \<le> 9223372036854775808" using power_increasing [OF k(1), of "2 :: nat"] by simp
    with k(2) show ?thesis by linarith
  qed (use b in \<open>auto simp: db_ok_def\<close>)
  then have "db_room b 0" using b by (auto simp: db_room_def db_ok_def)
  then show "if db_room b (length ([] :: bytes)) then
      \<exists>b'. Inr b = Inr b' \<and> db_ok b' \<and> db_p b' = db_p b @ [] \<and> db_limit b' = db_limit b
    else dies (Inr b :: DGBuf result)"
    using b by simp
qed

lemma appends_bindE:
  assumes m: "appends m y" and k: "appends k z"
  shows "appends (\<lambda>b. bindE (m b) k) (y @ z)"
  unfolding appends_def
proof (intro allI impI)
  fix b assume b: "db_ok b"
  show "if db_room b (length (y @ z)) then
        \<exists>b'. bindE (m b) k = Inr b' \<and> db_ok b' \<and> db_p b' = db_p b @ y @ z \<and> db_limit b' = db_limit b
      else dies (bindE (m b) k)"
  proof (cases "db_room b (length y)")
    case True
    with m b obtain b1 where b1: "m b = Inr b1" "db_ok b1" "db_p b1 = db_p b @ y" "db_limit b1 = db_limit b"
      by (fastforce simp: appends_def)
    have "db_room b1 (length z) = db_room b (length (y @ z))"
      using b1 by (simp add: db_room_def add.assoc)
    with k b1 show ?thesis by (auto simp: appends_def)
  next
    case False
    then have "\<not> db_room b (length (y @ z))" by (auto simp: db_room_def)
    with False m b show ?thesis by (auto simp: appends_def)
  qed
qed

lemma appends_empty:
  assumes "appends m z" "length z < 9223372036854775808"
  shows "\<exists>b. m db_empty = Inr b \<and> db_p b = z"
proof -
  have "db_room db_empty (length z)" using assms(2) by (simp add: db_room_def db_empty_def)
  with assms(1) obtain b where "m db_empty = Inr b" "db_p b = db_p db_empty @ z"
    unfolding appends_def using db_ok_empty by meson
  then show ?thesis by (simp add: db_empty_def)
qed

lemma appends_defined: "appends m z \<Longrightarrow> db_ok b \<Longrightarrow> defined (m b)"
  unfolding appends_def defined_iff by (metis (full_types))

section \<open>Strings\<close>

definition json_esc :: "bool \<Rightarrow> u32 \<Rightarrow> bytes" where
  "json_esc ascii cp =
     (if cp = 34 \<or> cp = 92 then [92, ucast cp]
      else if cp = 8 then [92, 98] else if cp = 12 then [92, 102] else if cp = 10 then [92, 110]
      else if cp = 13 then [92, 114] else if cp = 9 then [92, 116]
      else if cp < 32 \<or> (ascii \<and> cp > 127) then
        if cp \<le> 0xffff then [92, 117] @ hex04 cp
        else [92, 117] @ hex04 (0xd800 + drop_bit 10 (cp - 0x10000)) @
             [92, 117] @ hex04 (0xdc00 + ((cp - 0x10000) AND 1023))
      else put_utf8 cp)"

definition json_quote :: "bool \<Rightarrow> u32 list \<Rightarrow> bytes" where
  "json_quote ascii cs = 34 # concat (map (json_esc ascii) cs) @ [34]"

lemma appends_if:
  "(c \<Longrightarrow> appends m y) \<Longrightarrow> (\<not> c \<Longrightarrow> appends k z) \<Longrightarrow>
     appends (\<lambda>b. if c then m b else k b) (if c then y else z)"
  by simp

lemma appends_db_escape: "appends (\<lambda>b. db_escape b cp (put_utf8 cp) ascii) (json_esc ascii cp)"
  using appends_db_mem appends_bindE [OF appends_db_ch [of 92] appends_db_ch [of "ucast cp"]]
  unfolding db_escape_def json_esc_def Let_def
  by (intro appends_if) simp_all

lemma appends_db_json_loop:
  "list_all scalar cs \<Longrightarrow> span_of s i n = concat (map put_utf8 cs) \<Longrightarrow> i \<le> n \<Longrightarrow> n \<le> length s \<Longrightarrow>
     appends (\<lambda>b. db_json_loop b s n i ascii) (concat (map (json_esc ascii) cs))"
proof (induction cs arbitrary: i)
  case Nil
  then have "i = n" using length_span_of [of n s i] by simp
  then show ?case using appends_Nil by (simp add: db_json_loop.simps [abs_def])
next
  case (Cons c cs)
  let ?j = "i + length (put_utf8 c)"
  have len: "length (span_of s i n) = n - i" by (rule length_span_of [OF Cons.prems(4)])
  moreover have "length (span_of s i n) = length (put_utf8 c) + length (concat (map put_utf8 cs))"
    using Cons.prems(2) by simp
  ultimately have j: "?j \<le> n" "i < n"
    using Cons.prems(3) put_utf8_nonempty(2) [of c] by linarith+
  have "span_of s i n = span_of s i ?j @ span_of s ?j n" using j by (intro span_of_split) simp_all
  then have "span_of s i ?j @ span_of s ?j n = put_utf8 c @ concat (map put_utf8 cs)"
    using Cons.prems(2) by simp
  moreover have "length (span_of s i ?j) = length (put_utf8 c)" using j Cons.prems by simp
  ultimately have sp: "span_of s i ?j = put_utf8 c" "span_of s ?j n = concat (map put_utf8 cs)"
    by simp_all
  have "next_cp s n i = Inr (c, ?j)"
    using Cons.prems j sp by (intro next_cp_encoded) simp_all
  then have "(\<lambda>b. db_json_loop b s n i ascii) =
      (\<lambda>b. bindE (db_escape b c (put_utf8 c) ascii) (\<lambda>b. db_json_loop b s n ?j ascii))"
    using j sp by (intro ext) (simp add: db_json_loop.simps [of _ s n i])
  moreover have "appends (\<lambda>b. db_json_loop b s n ?j ascii) (concat (map (json_esc ascii) cs))"
    using Cons j sp by simp
  ultimately show ?case using appends_bindE [OF appends_db_escape] by simp
qed

lemma appends_db_json_string:
  assumes "list_all scalar cs" "s = concat (map put_utf8 cs)"
  shows "appends (\<lambda>b. db_json_string b s ascii) (json_quote ascii cs)"
proof -
  have "appends (\<lambda>b. db_json_loop b s (length s) 0 ascii) (concat (map (json_esc ascii) cs))"
    using assms by (intro appends_db_json_loop) (simp_all add: span_of_def)
  from appends_bindE [OF appends_db_ch [of 34] appends_bindE [OF this appends_db_ch [of 34]]]
  show ?thesis by (simp add: db_json_string_def json_quote_def)
qed

end
