(* ===== verification/JsonValue.thy ===== *)
theory JsonValue
  imports Canonical
begin

text \<open>
  The value of a JSON text, and its canonical form. \<open>jval_of\<close> reads the value off a token tree,
  \<open>jval_text\<close> is the text that \<open>dg_json_value\<close> writes for it. With sorted keys that text is the
  same for values that differ only in the order of object members, so the digest that seeds a
  request does not depend on white space, escapes or member order.
\<close>

section \<open>Values\<close>

datatype jval = VStr bytes | VPrim bytes | VArr "jval list" | VObj "(bytes \<times> jval) list"

definition string_token :: "nat \<Rightarrow> nat \<Rightarrow> JTok" where
  "string_token a e = \<lparr>jt_type = JT_STRING, jt_start = a, jt_end = int e, jt_parent = 0, jt_size = 0\<rparr>"

fun jval_of :: "bytes \<Rightarrow> jtree \<Rightarrow> jval result"
  and jvals_of :: "bytes \<Rightarrow> jtree list \<Rightarrow> jval list result"
  and jmembers_of :: "bytes \<Rightarrow> jtree list \<Rightarrow> (bytes \<times> jval) list result" where
  "jval_of s (JT ty a e ks) =
     (if ty = JT_STRING then bindE (jt_string s (string_token a e)) (\<lambda>z. Inr (VStr z))
      else if ty = JT_PRIMITIVE then Inr (VPrim (span_of s a e))
      else if ty = JT_ARRAY then bindE (jvals_of s ks) (\<lambda>vs. Inr (VArr vs))
      else bindE (jmembers_of s ks) (\<lambda>ms. Inr (VObj ms)))"
| "jvals_of s [] = Inr []"
| "jvals_of s (k # ks) = bindE (jval_of s k) (\<lambda>v. bindE (jvals_of s ks) (\<lambda>vs. Inr (v # vs)))"
| "jmembers_of s (k # v # ks) =
     bindE (jt_string s (string_token (jtr_start k) (jtr_end k))) (\<lambda>key.
     bindE (jval_of s v) (\<lambda>x. bindE (jmembers_of s ks) (\<lambda>ms. Inr ((key, x) # ms))))"
| "jmembers_of s ks = Inr []"

section \<open>Texts\<close>

definition code_points :: "bytes \<Rightarrow> u32 list" where
  "code_points z = (case utf8_scan (length z) z (length z) 0 of Inr cs \<Rightarrow> cs | Inl _ \<Rightarrow> [])"

fun join_items :: "bytes list \<Rightarrow> bytes" where
  "join_items [] = []"
| "join_items [x] = x"
| "join_items (x # xs) = x @ [44, 32] @ join_items xs"

definition member_text :: "bool \<Rightarrow> bytes \<times> bytes \<Rightarrow> bytes" where
  "member_text ascii m = json_quote ascii (code_points (fst m)) @ [58, 32] @ snd m"

definition key_cmp_of :: "bytes \<times> 'a \<Rightarrow> bytes \<times> 'a \<Rightarrow> int" where
  "key_cmp_of a b = strcmp (fst a) (fst b)"

fun jval_text :: "bool \<Rightarrow> bool \<Rightarrow> jval \<Rightarrow> bytes" where
  "jval_text sort_keys ascii (VStr z) = json_quote ascii (code_points z)"
| "jval_text sort_keys ascii (VPrim z) = z"
| "jval_text sort_keys ascii (VArr vs) = 91 # join_items (map (jval_text sort_keys ascii) vs) @ [93]"
| "jval_text sort_keys ascii (VObj ms) =
     (let ts = map (\<lambda>(k, v). (k, jval_text sort_keys ascii v)) ms
      in 123 # join_items (map (member_text ascii) (if sort_keys then qsort key_cmp_of ts else ts)) @ [125])"

section \<open>Writers that may also fail\<close>

text \<open>A writer that appends the text of a value, or fails where the value cannot be read.\<close>

definition writes :: "(DGBuf \<Rightarrow> DGBuf result) \<Rightarrow> ('a \<Rightarrow> bytes) \<Rightarrow> 'a result \<Rightarrow> bool" where
  "writes m f r \<longleftrightarrow> (case r of Inr v \<Rightarrow> appends m (f v) | Inl _ \<Rightarrow> (\<forall>b. db_ok b \<longrightarrow> dies (m b)))"

lemma writes_Inr [simp]: "writes m f (Inr v) \<longleftrightarrow> appends m (f v)"
  and writes_Inl [simp]: "writes m f (Inl e) \<longleftrightarrow> (\<forall>b. db_ok b \<longrightarrow> dies (m b))"
  by (simp_all add: writes_def)

lemma appends_dies:
  assumes "appends m y" "\<forall>b. db_ok b \<longrightarrow> dies (k b)" "db_ok b"
  shows "dies (bindE (m b) k)"
proof (cases "db_room b (length y)")
  case True
  with assms show ?thesis by (fastforce simp: appends_def)
next
  case False
  with assms show ?thesis by (simp add: appends_def)
qed

lemma writes_after:
  assumes "appends m y" "writes k f r"
  shows "writes (\<lambda>b. bindE (m b) k) (\<lambda>v. y @ f v) r"
  using assms appends_bindE [of m y k] appends_dies [of m y k] by (cases r) auto

lemma writes_before:
  assumes "writes m f r" "appends k y"
  shows "writes (\<lambda>b. bindE (m b) k) (\<lambda>v. f v @ y) r"
  using assms appends_bindE [of m _ k y] by (cases r) auto

lemma writes_seq:
  assumes "writes m f r" "writes k g q"
  shows "writes (\<lambda>b. bindE (m b) k) (\<lambda>(v, w). f v @ g w) (bindE r (\<lambda>v. bindE q (\<lambda>w. Inr (v, w))))"
proof (cases r)
  case (Inr v)
  with writes_after [of m "f v" k g q] assms show ?thesis by (cases q) auto
qed (use assms in auto)

lemma writes_cong:
  assumes "writes m f r" "r' = bindE r (\<lambda>v. Inr (h v))" "\<And>v. r = Inr v \<Longrightarrow> f v = g (h v)"
  shows "writes m g r'"
  using assms by (cases r) auto

section \<open>Sorting the members\<close>

lemma map_qsort_insert:
  "(\<And>y. y \<in> set xs \<Longrightarrow> cmp' (f x) (f y) = cmp x y) \<Longrightarrow>
     map f (qsort_insert cmp x xs) = qsort_insert cmp' (f x) (map f xs)"
  by (induction xs) simp_all

lemma map_qsort:
  "(\<And>x y. x \<in> set xs \<Longrightarrow> y \<in> set xs \<Longrightarrow> cmp' (f x) (f y) = cmp x y) \<Longrightarrow>
     map f (qsort cmp xs) = qsort cmp' (map f xs)"
proof (induction xs)
  case (Cons x xs)
  have "map f (qsort_insert cmp x (qsort cmp xs)) = qsort_insert cmp' (f x) (map f (qsort cmp xs))"
    by (rule map_qsort_insert) (simp add: Cons.prems)
  with Cons show ?case by simp
qed simp

interpretation member_order: total_cmp key_cmp_of
  by unfold_locales (auto simp: key_cmp_of_def strcmp.cmp_flip intro: strcmp.cmp_trans)

text \<open>Sorting by distinct keys gives the same list for the same members.\<close>

lemma sorted_members_unique:
  assumes "sorted_wrt (\<lambda>x y. key_cmp_of x y \<le> 0) xs" "sorted_wrt (\<lambda>x y. key_cmp_of x y \<le> 0) ys"
    "mset xs = mset ys" "distinct (map fst xs)"
  shows "xs = ys"
  using assms
proof (induction xs arbitrary: ys)
  case (Cons x xs)
  obtain y ys' where ys: "ys = y # ys'" using Cons.prems(3) by (cases ys) auto
  have xy: "x = y"
  proof (rule ccontr)
    assume ne: "x \<noteq> y"
    have "y \<in> set xs" "x \<in> set ys'"
      using Cons.prems(3) ne unfolding ys
      by (metis insert_iff list.set(2) set_mset_mset mset_eq_setD list.set_intros(1))+
    then have "key_cmp_of x y \<le> 0" "key_cmp_of y x \<le> 0" using Cons.prems(1,2) ys by auto
    then have "fst x = fst y"
      using strcmp.cmp_flip [of "fst x" "fst y"] by (auto simp: key_cmp_of_def)
    with \<open>y \<in> set xs\<close> Cons.prems(4) show False by auto
  qed
  with Cons ys show ?case by auto
qed simp

lemma qsort_members_unique:
  "mset xs = mset ys \<Longrightarrow> distinct (map fst xs) \<Longrightarrow> qsort key_cmp_of xs = qsort key_cmp_of ys"
  by (rule sorted_members_unique) (simp_all add: member_order.sorted_qsort distinct_map_qsort)

text \<open>Values that differ only in the order of the members of their objects.\<close>

inductive jval_same :: "jval \<Rightarrow> jval \<Rightarrow> bool" where
  same_Str: "jval_same (VStr z) (VStr z)"
| same_Prim: "jval_same (VPrim z) (VPrim z)"
| same_Arr: "list_all2 jval_same vs ws \<Longrightarrow> jval_same (VArr vs) (VArr ws)"
| same_Obj: "list_all2 (\<lambda>m n. fst m = fst n \<and> jval_same (snd m) (snd n)) ms ns \<Longrightarrow> mset ns = mset ls \<Longrightarrow>
    distinct (map fst ms) \<Longrightarrow> jval_same (VObj ms) (VObj ls)"

lemma jval_same_text: "jval_same v w \<Longrightarrow> jval_text True ascii v = jval_text True ascii w"
proof (induction rule: jval_same.induct)
  case (same_Arr vs ws)
  then have "map (jval_text True ascii) vs = map (jval_text True ascii) ws"
    by (induction rule: list_all2_induct) auto
  then show ?case by simp
next
  case (same_Obj ms ns ls)
  let ?t = "map (\<lambda>(k, v). (k, jval_text True ascii v))"
  have "?t ms = ?t ns" using same_Obj(1) by (induction rule: list_all2_induct) auto
  moreover have "mset (?t ns) = mset (?t ls)" using same_Obj(2) by simp
  moreover have "distinct (map fst (?t ms))"
    using same_Obj(3) by (simp add: comp_def split_beta)
  ultimately have "qsort key_cmp_of (?t ms) = qsort key_cmp_of (?t ls)"
    by (intro qsort_members_unique) simp_all
  then show ?case by simp
qed simp_all

section \<open>The writer writes the text of the value\<close>

lemma code_points_ok: "utf8_ok z \<Longrightarrow> list_all scalar (code_points z) \<and> z = concat (map put_utf8 (code_points z))"
proof -
  assume "utf8_ok z"
  then obtain cs where cs: "utf8_scan (length z) z (length z) 0 = Inr cs" using utf8_scan_ok by blast
  then have "list_all scalar cs" "z = concat (map put_utf8 cs)"
    using utf8_scan_iff [of "length z" z "length z" cs] by simp_all
  with cs show ?thesis by (simp add: code_points_def)
qed

lemma appends_quote: "utf8_ok z \<Longrightarrow> appends (\<lambda>b. db_json_string b z ascii) (json_quote ascii (code_points z))"
  using code_points_ok [of z] by (intro appends_db_json_string) auto

lemma jt_string_token:
  "jt_type t = JT_STRING \<Longrightarrow> jt_end t = int e \<Longrightarrow> jt_string s t = jt_string s (string_token (jt_start t) e)"
  by (simp add: jt_string_def jt_string_copy_def string_token_def)

lemma jt_string_utf8: "string_span s n a e \<Longrightarrow> jt_string s (string_token a e) = Inr z \<Longrightarrow> utf8_ok z"
  using jt_string_copy_Inr(2) [of s "string_token a e" z n] by (simp add: jt_string_def string_token_def)

lemma jt_string_dies: "string_span s n a e \<Longrightarrow> jt_string s (string_token a e) = Inl f \<Longrightarrow> \<exists>st m. f = Die st m"
  using jt_string_copy_defined [of "string_token a e" s n]
  by (cases f) (simp_all add: jt_string_def string_token_def)

text \<open>Children of arrays and objects at their places.\<close>

fun kid_at :: "nat \<Rightarrow> jtree list \<Rightarrow> nat list" where
  "kid_at i [] = []"
| "kid_at i (k # ks) = i # kid_at (i + jt_count k) ks"

fun value_kids :: "jtree list \<Rightarrow> jtree list" where
  "value_kids (k # v # ks) = v # value_kids ks"
| "value_kids _ = []"

lemma length_kid_at [simp]: "length (kid_at i ks) = length ks"
  by (induction ks arbitrary: i) simp_all

lemma length_value_kids [simp]: "length (value_kids ks) = length ks div 2"
  by (induction ks rule: value_kids.induct) simp_all

fun key_strings_of :: "bytes \<Rightarrow> jtree list \<Rightarrow> bytes list result" where
  "key_strings_of s (k # v # ks) = bindE (jt_string s (string_token (jtr_start k) (jtr_end k)))
     (\<lambda>z. bindE (key_strings_of s ks) (\<lambda>zs. Inr (z # zs)))"
| "key_strings_of s _ = Inr []"

lemma dg_elements_skip:
  "(\<forall>j \<in> {i..<i + m}. j < length ts \<and> int b < jt_parent (ts ! j)) \<Longrightarrow>
     dg_elements ts b i = dg_elements ts b (i + m)"
proof (induction m arbitrary: i)
  case (Suc m)
  then have "i < length ts" "int b < jt_parent (ts ! i)" by simp_all
  then have "dg_elements ts b i = dg_elements ts b (Suc i)" by (simp add: dg_elements.simps [of ts b i])
  also have "\<dots> = dg_elements ts b (Suc i + m)" using Suc.prems by (intro Suc.IH) auto
  finally show ?case by simp
qed simp

lemma dg_members_skip:
  "(\<forall>j \<in> {i..<i + m}. j < length ts \<and> int b < jt_parent (ts ! j)) \<Longrightarrow>
     dg_members s ts b nk i = dg_members s ts b nk (i + m)"
proof (induction m arbitrary: i)
  case (Suc m)
  have p: "int b < jt_parent (ts ! i)" using Suc.prems by simp
  have "dg_members s ts b nk i = dg_members s ts b nk (Suc i)"
  proof (cases "Suc i < length ts")
    case True
    with p show ?thesis by (simp add: dg_members.simps [of s ts b nk i])
  qed (simp add: dg_members.simps)
  also have "\<dots> = dg_members s ts b nk (Suc i + m)" using Suc.prems by (intro Suc.IH) auto
  finally show ?case by simp
qed simp

lemma elements_walk:
  assumes "ts = pre @ flats i (int b) ks @ post" "length pre = i" "b < i"
    "post = [] \<or> jt_parent (hd post) < int b"
  shows "dg_elements ts b i = kid_at i ks \<and>
    (\<forall>m < length ks. located ts (kid_at i ks ! m) (int b) (ks ! m))"
  using assms
proof (induction ks arbitrary: i pre)
  case Nil
  have "jt_parent (ts ! i) < int b" if "i < length ts"
    using that Nil by (cases post) (auto simp: nth_append)
  then show ?case by (auto simp: dg_elements.simps [of ts b i])
next
  case (Cons k ks)
  let ?i = "i + jt_count k"
  have ts: "ts = (pre @ flat i (int b) k) @ flats ?i (int b) ks @ post" "length (pre @ flat i (int b) k) = ?i"
    using Cons.prems by simp_all
  have IH: "dg_elements ts b ?i = kid_at ?i ks \<and> (\<forall>m < length ks. located ts (kid_at ?i ks ! m) (int b) (ks ! m))"
    using Cons.prems by (intro Cons.IH [OF ts]) simp_all
  have body: "\<forall>j \<in> {Suc i..<Suc i + (jt_count k - 1)}. j < length ts \<and> int b < jt_parent (ts ! j)"
    by (rule value_body [of ts pre i "int b" k "flats ?i (int b) ks @ post"]) (use Cons.prems in simp_all)
  have skip: "Suc i + (jt_count k - 1) = ?i" using jt_count_pos [of k] by simp
  have il: "i < length ts" "jt_parent (ts ! i) = int b"
    using Cons.prems jt_count_pos [of k] by (cases k; simp add: nth_append)+
  have "dg_elements ts b i = i # dg_elements ts b ?i"
    using il dg_elements_skip [OF body] unfolding skip by (simp add: dg_elements.simps [of ts b i])
  moreover have "located ts i (int b) k"
    unfolding located_def
  proof (intro conjI exI)
    show "int b < int i" using Cons.prems by simp
    show "ts = pre @ flat i (int b) k @ (flats ?i (int b) ks @ post)" using ts by simp
    show "length pre = i" by fact
    show "flats ?i (int b) ks @ post = [] \<or> jt_parent (hd (flats ?i (int b) ks @ post)) < int i"
      using Cons.prems(3,4) hd_flats [of ks ?i "int b" post] by (cases "ks = []") auto
  qed
  ultimately show ?case using IH by (auto simp: nth_Cons split: nat.splits)
qed

lemma members_walk:
  assumes "ts = pre @ flats i (int b) ks @ post" "length pre = i" "b < i" "pairs_ok ks" "jts_wf s n ks"
    "post = [] \<or> jt_parent (hd post) < int b" "length ks div 2 \<le> nk"
  shows "dg_members s ts b nk i = bindE (json_key_strings s ts (key_at i ks)) (\<lambda>keys. Inr (zip (key_at i ks) keys)) \<and>
    json_key_strings s ts (key_at i ks) = key_strings_of s ks \<and>
    (\<forall>m < length ks div 2. located ts (Suc (key_at i ks ! m)) (int b) (value_kids ks ! m)) \<and>
    jts_wf s n (value_kids ks)"
  using assms
proof (induction i ks arbitrary: pre nk rule: key_at.induct [case_names pair none single])
  case (pair i k v ks)
  obtain a e where k: "k = JT JT_STRING a e []" using pair by (cases k) auto
  let ?k = "\<lparr>jt_type = JT_STRING, jt_start = a, jt_end = int e, jt_parent = int b, jt_size = 0\<rparr>"
  let ?i = "Suc i + jt_count v"
  have ti: "ts ! i = ?k" and il: "Suc i < length ts"
    using pair k jt_count_pos [of v] by (simp_all add: nth_append)
  have v: "ts = (pre @ [?k]) @ flat (Suc i) (int b) v @ (flats ?i (int b) ks @ post)" "length (pre @ [?k]) = Suc i"
    using pair k by simp_all
  have body: "\<forall>j \<in> {Suc (Suc i)..<Suc (Suc i) + (jt_count v - 1)}. j < length ts \<and> int b < jt_parent (ts ! j)"
    by (rule value_body [OF v(1,2)]) (use pair in simp)
  have skip: "Suc (Suc i) + (jt_count v - 1) = ?i" using jt_count_pos [of v] by simp
  have ts: "ts = (pre @ ?k # flat (Suc i) (int b) v) @ flats ?i (int b) ks @ post"
    "length (pre @ ?k # flat (Suc i) (int b) v) = ?i" using pair k by simp_all
  have nk: "nk \<noteq> 0" "length ks div 2 \<le> nk - 1" using "pair.prems"(7) by simp_all
  have IH: "dg_members s ts b (nk - 1) ?i = bindE (json_key_strings s ts (key_at ?i ks)) (\<lambda>keys. Inr (zip (key_at ?i ks) keys)) \<and>
    json_key_strings s ts (key_at ?i ks) = key_strings_of s ks \<and>
    (\<forall>m < length ks div 2. located ts (Suc (key_at ?i ks ! m)) (int b) (value_kids ks ! m)) \<and>
    jts_wf s n (value_kids ks)"
    by (rule "pair.IH" [OF ts]) (use pair nk in simp_all)
  have "dg_members s ts b nk i = bindE (jt_string s (ts ! i)) (\<lambda>key.
      bindE (dg_members s ts b (nk - 1) ?i) (\<lambda>ks. Inr ((i, key) # ks)))"
    using ti il nk dg_members_skip [OF body] unfolding skip by (simp add: dg_members.simps [of s ts b nk i])
  then have M: "dg_members s ts b nk i = bindE (json_key_strings s ts (key_at i (k # v # ks)))
      (\<lambda>keys. Inr (zip (key_at i (k # v # ks)) keys))"
    using IH by (simp add: jt_string_def bindE_assoc)
  have "jt_string_copy s (ts ! i) = jt_string s (string_token a e)"
    using jt_string_token [of ?k e s] by (simp add: ti jt_string_def)
  then have S: "json_key_strings s ts (key_at i (k # v # ks)) = key_strings_of s (k # v # ks)"
    using IH by (simp add: k)
  have "located ts (Suc i) (int b) v"
    unfolding located_def
  proof (intro conjI exI)
    show "int b < int (Suc i)" using pair by simp
    show "ts = (pre @ [?k]) @ flat (Suc i) (int b) v @ (flats ?i (int b) ks @ post)" by (rule v)
    show "length (pre @ [?k]) = Suc i" by (rule v)
    show "flats ?i (int b) ks @ post = [] \<or> jt_parent (hd (flats ?i (int b) ks @ post)) < int (Suc i)"
      using "pair.prems"(3,6) hd_flats [of ks ?i "int b" post] by (cases "ks = []") auto
  qed
  with M S IH pair show ?case by (auto simp: nth_Cons split: nat.splits)
next
  case (none i)
  have "jt_parent (ts ! i) < int b" if "i < length ts"
    using that none by (cases post) (auto simp: nth_append)
  then show ?case by (auto simp: dg_members.simps [of s ts b nk i])
qed simp_all


section \<open>Arrays and objects\<close>

fun more_items :: "bool \<Rightarrow> bytes list \<Rightarrow> bytes" where
  "more_items first [] = []"
| "more_items first (x # xs) = (if first then [] else [44, 32]) @ x @ more_items False xs"

lemma more_items_join: "more_items True xs = join_items xs"
proof -
  have f: "more_items False xs = (if xs = [] then [] else [44, 32] @ join_items xs)" for xs
    by (induction xs rule: join_items.induct) simp_all
  show ?thesis by (cases xs) (auto simp: f neq_Nil_conv)
qed

fun seq_res :: "'a result list \<Rightarrow> 'a list result" where
  "seq_res [] = Inr []"
| "seq_res (r # rs) = bindE r (\<lambda>v. bindE (seq_res rs) (\<lambda>vs. Inr (v # vs)))"

lemma seq_res_Inr: "seq_res rs = Inr vs \<longleftrightarrow> rs = map Inr vs"
  by (induction rs arbitrary: vs) (auto simp: bindE_Inr_iff Cons_eq_map_conv)

lemma appends_separator: "appends (\<lambda>b. if \<not> first then db_mem b (str '', '') else Inr b) (if first then [] else [44, 32])"
  using appends_db_mem [of "[44, 32]"] appends_Nil by (cases first) simp_all

lemma writes_array:
  assumes "list_all2 (\<lambda>i k. writes (\<lambda>b. dg_json_value fuel b s ts i sk ascii) (jval_text sk ascii) (jval_of s k)) is ks"
  shows "writes (\<lambda>b. dg_json_array fuel b s ts is first sk ascii)
    (\<lambda>vs. more_items first (map (jval_text sk ascii) vs)) (jvals_of s ks)"
  using assms
proof (induction "is" ks arbitrary: first rule: list_all2_induct)
  case Nil
  then show ?case using appends_Nil by simp
next
  case (Cons i "is" k ks)
  from writes_after [OF appends_separator writes_seq [OF Cons(1) Cons(3) [of False]], of first]
  show ?case unfolding dg_json_array.simps
    by (rule writes_cong [where h = "\<lambda>(v, vs). v # vs"]) (auto simp: bindE_assoc cong: if_cong)
qed

lemma member_text_pair: "member_text ascii (k, t) = json_quote ascii (code_points k) @ [58, 32] @ t"
  by (simp add: member_text_def)

lemma writes_object:
  assumes "\<forall>(i, key, v) \<in> set M. utf8_ok key \<and>
    writes (\<lambda>b. dg_json_value fuel b s ts (Suc i) sk ascii) (jval_text sk ascii) (jval_of s v)"
  shows "writes (\<lambda>b. dg_json_object fuel b s ts (map (\<lambda>(i, key, v). (i, key)) M) first sk ascii)
    (\<lambda>ms. more_items first (map (member_text ascii) (map (\<lambda>(k, v). (k, jval_text sk ascii v)) ms)))
    (seq_res (map (\<lambda>(i, key, v). bindE (jval_of s v) (\<lambda>x. Inr (key, x))) M))"
  using assms
proof (induction M arbitrary: first)
  case Nil
  then show ?case using appends_Nil by simp
next
  case (Cons m M)
  obtain i key v where m: "m = (i, key, v)" by (cases m)
  have q: "appends (\<lambda>b. db_json_string b key ascii) (json_quote ascii (code_points key))"
    using Cons.prems m by (auto intro: appends_quote)
  have w: "writes (\<lambda>b. dg_json_value fuel b s ts (Suc i) sk ascii) (jval_text sk ascii) (jval_of s v)"
    using Cons.prems m by auto
  have IH: "writes (\<lambda>b. dg_json_object fuel b s ts (map (\<lambda>(i, key, v). (i, key)) M) False sk ascii)
    (\<lambda>ms. more_items False (map (member_text ascii) (map (\<lambda>(k, v). (k, jval_text sk ascii v)) ms)))
    (seq_res (map (\<lambda>(i, key, v). bindE (jval_of s v) (\<lambda>x. Inr (key, x))) M))"
    by (rule Cons.IH) (use Cons.prems in simp)
  from writes_after [OF appends_separator writes_after [OF q writes_after [OF appends_db_mem writes_seq [OF w IH]]], of first "str '': ''"]
  show ?case unfolding m list.map prod.case dg_json_object.simps
    by (rule writes_cong [where h = "\<lambda>(x, ms). (key, x) # ms"])
      (auto simp: bindE_assoc member_text_pair cong: if_cong)
qed

lemma key_strings_utf8:
  "pairs_ok ks \<Longrightarrow> jts_wf s n ks \<Longrightarrow> key_strings_of s ks = Inr keys \<Longrightarrow> list_all utf8_ok keys"
proof (induction ks arbitrary: keys rule: value_kids.induct)
  case (1 k v ks)
  then obtain a e where k: "k = JT JT_STRING a e []" "string_span s n a e" by (cases k) auto
  from 1 k obtain z zs where "jt_string s (string_token a e) = Inr z" "key_strings_of s ks = Inr zs" "keys = z # zs"
    by (auto simp: bindE_Inr_iff)
  with 1 jt_string_utf8 [OF k(2)] show ?case by simp
qed simp_all

lemma key_strings_dies:
  "pairs_ok ks \<Longrightarrow> jts_wf s n ks \<Longrightarrow> key_strings_of s ks = Inl f \<Longrightarrow> \<exists>st m. f = Die st m"
proof (induction ks rule: value_kids.induct)
  case (1 k v ks)
  then obtain a e where k: "k = JT JT_STRING a e []" "string_span s n a e" by (cases k) auto
  from 1 k jt_string_dies [OF k(2)] show ?case by (auto simp: bindE_Inl_iff)
qed simp_all

lemma key_strings_length: "key_strings_of s ks = Inr keys \<Longrightarrow> length keys = length ks div 2"
  by (induction s ks arbitrary: keys rule: key_strings_of.induct) (auto simp: bindE_Inr_iff)

lemma jmembers_no_keys: "key_strings_of s ks = Inl e \<Longrightarrow> \<exists>e. jmembers_of s ks = Inl e"
proof (induction ks arbitrary: e rule: value_kids.induct)
  case (1 k v ks)
  show ?case
  proof (cases "key_strings_of s ks")
    case (Inl f)
    with 1(1) obtain g where "jmembers_of s ks = Inl g" by blast
    then show ?thesis
      by (cases "jt_string s (string_token (jtr_start k) (jtr_end k))"; cases "jval_of s v") simp_all
  next
    case (Inr zs)
    with 1 show ?thesis by (auto simp: bindE_Inl_iff)
  qed
qed simp_all

definition member_res :: "bytes \<Rightarrow> nat \<times> bytes \<times> jtree \<Rightarrow> (bytes \<times> jval) result" where
  "member_res s = (\<lambda>(i, key, v). bindE (jval_of s v) (\<lambda>x. Inr (key, x)))"

lemma jmembers_keys:
  "key_strings_of s ks = Inr keys \<Longrightarrow> length js = length ks div 2 \<Longrightarrow>
     jmembers_of s ks = seq_res (map (member_res s) (zip js (zip keys (value_kids ks))))"
proof (induction ks arbitrary: keys js rule: value_kids.induct)
  case (1 k v ks)
  then obtain z zs j js' where z: "jt_string s (string_token (jtr_start k) (jtr_end k)) = Inr z"
    "key_strings_of s ks = Inr zs" "keys = z # zs" and js: "js = j # js'"
    by (cases js) (auto simp: bindE_Inr_iff)
  with 1 show ?case by (simp add: member_res_def bindE_assoc)
qed simp_all

text \<open>Sorting the pairs of indices and keys sorts the members.\<close>

lemma seq_res_sorted:
  assumes "seq_res (map (member_res s) M) = Inr ms"
  shows "seq_res (map (member_res s) (qsort (\<lambda>a b. strcmp (fst (snd a)) (fst (snd b))) M)) = Inr (qsort key_cmp_of ms)"
proof -
  define g where "g m = (case member_res s m of Inr v \<Rightarrow> v | Inl _ \<Rightarrow> ([], VStr []))" for m
  have ok: "member_res s m = Inr (g m) \<and> fst (g m) = fst (snd m)" if "m \<in> set M" for m
  proof -
    have "member_res s m \<in> Inr ` set ms" using assms that unfolding seq_res_Inr by (metis imageI set_map)
    then show ?thesis by (auto simp: g_def member_res_def bindE_Inr_iff split: prod.splits)
  qed
  have ms: "ms = map g M"
  proof -
    have "map (member_res s) M = map Inr (map g M)" using ok by simp
    moreover have "inj (Inr :: _ \<Rightarrow> (bytes \<times> jval) result)" by simp
    ultimately show ?thesis using assms unfolding seq_res_Inr by (metis inj_map_eq_map)
  qed
  let ?c = "\<lambda>a b. strcmp (fst (snd a)) (fst (snd b))"
  have "map g (qsort ?c M) = qsort key_cmp_of (map g M)"
    by (rule map_qsort) (simp add: key_cmp_of_def ok)
  moreover have "map (member_res s) (qsort ?c M) = map Inr (map g (qsort ?c M))" using ok by simp
  ultimately show ?thesis unfolding seq_res_Inr ms by simp
qed

lemma seq_res_sorted_fails:
  assumes "seq_res (map (member_res s) M) = Inl e"
  shows "\<exists>e. seq_res (map (member_res s) (qsort c M)) = Inl e"
proof (rule ccontr)
  assume "\<nexists>e. seq_res (map (member_res s) (qsort c M)) = Inl e"
  then obtain vs where vs: "map (member_res s) (qsort c M) = map Inr vs"
    by (metis seq_res_Inr sum.exhaust)
  have "\<exists>v. member_res s m = Inr v" if "m \<in> set M" for m
  proof -
    have "member_res s m \<in> set (map Inr vs)" using that unfolding vs [symmetric] by simp
    then show ?thesis by auto
  qed
  then obtain g where "\<forall>m \<in> set M. member_res s m = Inr (g m)" by metis
  then have "map (member_res s) M = map Inr (map g M)" by simp
  with assms show False using seq_res_Inr by (metis Inl_Inr_False)
qed

section \<open>The writer on a located tree\<close>

lemma writes_same_result:
  assumes "writes m f r" "\<And>v. q = Inr v \<Longrightarrow> r = Inr v" "\<And>e. q = Inl e \<Longrightarrow> \<exists>e'. r = Inl e'"
  shows "writes m f q"
  using assms by (cases q) force+

lemma jts_wf_nth: "jts_wf s n ks \<Longrightarrow> m < length ks \<Longrightarrow> jt_wf s n (ks ! m)"
  by (induction ks arbitrary: m) (auto simp: nth_Cons split: nat.splits)

lemma jts_height_nth: "m < length ks \<Longrightarrow> jt_height (ks ! m) \<le> jts_height ks"
proof (induction ks arbitrary: m)
  case (Cons k ks)
  then show ?case by (cases m) (auto simp: le_max_iff_disj)
qed simp

lemma value_kids_height: "m < length ks div 2 \<Longrightarrow> jt_height (value_kids ks ! m) \<le> jts_height ks"
proof (induction ks arbitrary: m rule: value_kids.induct)
  case (1 k v ks)
  then show ?case by (cases m) (auto simp: le_max_iff_disj)
qed simp_all

lemma dg_json_value_writes:
  "located ts at p tr \<Longrightarrow> jt_wf s n tr \<Longrightarrow> jt_height tr < fuel \<Longrightarrow>
     writes (\<lambda>b. dg_json_value fuel b s ts at sk ascii) (jval_text sk ascii) (jval_of s tr)"
proof (induction fuel arbitrary: at p tr)
  case (Suc fuel)
  obtain ty a e ks where tr: "tr = JT ty a e ks" by (cases tr)
  have t: "ts ! at = \<lparr>jt_type = ty, jt_start = a, jt_end = int e, jt_parent = p, jt_size = length ks\<rparr>"
    and al: "at < length ts" using located_token [OF Suc.prems(1) [unfolded tr]] by auto
  obtain pre post where w: "ts = pre @ flats (Suc at) (int at) ks @ post" "length pre = Suc at"
    "post = [] \<or> jt_parent (hd post) < int at" by (rule located_kids [OF Suc.prems(1) [unfolded tr]])
  consider (String) "ty = JT_STRING" "string_span s n a e" | (Primitive) "ty = JT_PRIMITIVE"
    | (Array) "ty = JT_ARRAY" "jts_wf s n ks" "jts_height ks < fuel"
    | (Object) "ty = JT_OBJECT" "jts_wf s n ks" "pairs_ok ks" "jts_height ks < fuel"
    using Suc.prems(2,3) unfolding tr by auto
  then show ?case
  proof cases
    case String
    have "jt_string s (ts ! at) = jt_string s (string_token a e)"
      using jt_string_token [of "ts ! at" e s] String(1) by (simp add: t)
    with String al jt_string_utf8 [OF String(2)] jt_string_dies [OF String(2)] appends_quote show ?thesis
      by (cases "jt_string s (string_token a e)") (auto simp: tr t dies_def)
  next
    case Primitive
    with al show ?thesis using appends_db_mem by (simp add: tr t)
  next
    case Array
    note ew = elements_walk [OF w(1,2) _ w(3)]
    have "list_all2 (\<lambda>i k. writes (\<lambda>b. dg_json_value fuel b s ts i sk ascii) (jval_text sk ascii) (jval_of s k))
        (kid_at (Suc at) ks) ks"
    proof (rule list_all2_all_nthI)
      fix m assume "m < length (kid_at (Suc at) ks)"
      then have m: "m < length ks" by simp
      show "writes (\<lambda>b. dg_json_value fuel b s ts (kid_at (Suc at) ks ! m) sk ascii) (jval_text sk ascii) (jval_of s (ks ! m))"
      proof (rule Suc.IH)
        show "located ts (kid_at (Suc at) ks ! m) (int at) (ks ! m)" using ew m by simp
        show "jt_wf s n (ks ! m)" using jts_wf_nth [OF Array(2) m] .
        show "jt_height (ks ! m) < fuel" using jts_height_nth [OF m] Array(3) by simp
      qed
    qed simp
    from writes_array [OF this, of True] have
      "writes (\<lambda>b. dg_json_array fuel b s ts (dg_elements ts at (Suc at)) True sk ascii)
        (\<lambda>vs. join_items (map (jval_text sk ascii) vs)) (jvals_of s ks)"
      using ew by (simp add: more_items_join)
    from writes_after [OF appends_db_ch [of 91] writes_before [OF this appends_db_ch [of 93]]]
    have "writes (\<lambda>b. dg_json_value (Suc fuel) b s ts at sk ascii)
        (\<lambda>vs. [91] @ join_items (map (jval_text sk ascii) vs) @ [93]) (jvals_of s ks)"
      using al Array(1) by (simp add: t)
    then show ?thesis
      by (rule writes_cong [where h = VArr]) (simp_all add: tr Array(1))
  next
    case Object
    have nk: "length ks div 2 \<le> length ks div 2" by simp
    note mw = members_walk [OF w(1,2) _ Object(3,2) w(3) nk]
    have value_ok: "writes (\<lambda>b. dg_json_value fuel b s ts (Suc (key_at (Suc at) ks ! m)) sk ascii) (jval_text sk ascii)
        (jval_of s (value_kids ks ! m))" if "m < length ks div 2" for m
      by (rule Suc.IH [of _ "int at"])
        (use mw that jts_wf_nth [of s n "value_kids ks" m] value_kids_height [of m ks] Object(4) in simp_all)
    have step: "dg_json_value (Suc fuel) b s ts at sk ascii =
      bindE (dg_members s ts at (length ks div 2) (Suc at)) (\<lambda>ms.
        if length ms \<noteq> length ks div 2 then die ''bad JSON object''
        else bindE (db_ch b 123) (\<lambda>b. bindE (dg_json_object fuel b s ts (if sk then qsort dg_key_cmp ms else ms)
           True sk ascii) (\<lambda>b. db_ch b 125)))" for b
      using al Object(1) by (simp add: t Let_def)
    have mem: "dg_members s ts at (length ks div 2) (Suc at) =
      bindE (key_strings_of s ks) (\<lambda>keys. Inr (zip (key_at (Suc at) ks) keys))" using mw by simp
    show ?thesis
    proof (cases "key_strings_of s ks")
      case (Inl f)
      from jmembers_no_keys [OF Inl] key_strings_dies [OF Object(3,2) Inl] show ?thesis
        using Object(1) by (auto simp: tr step mem Inl dies_def simp del: dg_json_value.simps)
    next
      case (Inr keys)
      define M where "M = zip (key_at (Suc at) ks) (zip keys (value_kids ks))"
      have len: "length keys = length ks div 2" by (rule key_strings_length [OF Inr])
      have utf: "list_all utf8_ok keys" by (rule key_strings_utf8 [OF Object(3,2) Inr])
      have jm: "jmembers_of s ks = seq_res (map (member_res s) M)"
        unfolding M_def by (rule jmembers_keys [OF Inr]) (simp add: length_key_at)
      have pairs: "zip (key_at (Suc at) ks) keys = map (\<lambda>(i, key, v). (i, key)) M"
        by (rule nth_equalityI) (simp_all add: M_def len length_key_at)
      let ?c = "\<lambda>a b. strcmp (fst (snd a)) (fst (snd b))"
      define S where "S = (if sk then qsort ?c M else M)"
      have lenM: "length M = length ks div 2" by (simp add: M_def len length_key_at)
      have sortp: "(if sk then qsort dg_key_cmp (map (\<lambda>(i, key, v). (i, key)) M) else map (\<lambda>(i, key, v). (i, key)) M) =
          map (\<lambda>(i, key, v). (i, key)) S"
        using map_qsort [of M dg_key_cmp "\<lambda>(i, key, v). (i, key)" ?c]
        by (simp add: S_def dg_key_cmp_def split_beta)
      have "set S = set M" by (simp add: S_def)
      have "\<forall>(i, key, v) \<in> set M. utf8_ok key \<and>
        writes (\<lambda>b. dg_json_value fuel b s ts (Suc i) sk ascii) (jval_text sk ascii) (jval_of s v)"
        using value_ok utf by (auto simp: M_def in_set_zip len length_key_at list_all_length)
      then have "\<forall>(i, key, v) \<in> set S. utf8_ok key \<and>
        writes (\<lambda>b. dg_json_value fuel b s ts (Suc i) sk ascii) (jval_text sk ascii) (jval_of s v)"
        using \<open>set S = set M\<close> by (simp only:)
      from writes_object [OF this, of True, folded member_res_def]
      have W: "writes (\<lambda>b. dg_json_object fuel b s ts (map (\<lambda>(i, key, v). (i, key)) S) True sk ascii)
        (\<lambda>ms. join_items (map (member_text ascii) (map (\<lambda>(k, v). (k, jval_text sk ascii v)) ms)))
        (seq_res (map (member_res s) S))" by (simp only: more_items_join)
      have "dg_json_value (Suc fuel) b s ts at sk ascii =
        bindE (db_ch b 123) (\<lambda>b. bindE (dg_json_object fuel b s ts (map (\<lambda>(i, key, v). (i, key)) S)
           True sk ascii) (\<lambda>b. db_ch b 125))" for b
        using step [of b] lenM by (simp add: mem Inr pairs sortp del: dg_json_value.simps)
      with writes_after [OF appends_db_ch [of 123] writes_before [OF W appends_db_ch [of 125]]]
      have O: "writes (\<lambda>b. dg_json_value (Suc fuel) b s ts at sk ascii)
        (\<lambda>ms. [123] @ join_items (map (member_text ascii) (map (\<lambda>(k, v). (k, jval_text sk ascii v)) ms)) @ [125])
        (seq_res (map (member_res s) S))" by (simp del: dg_json_value.simps)
      show ?thesis
      proof (cases "seq_res (map (member_res s) M)")
        case (Inl e)
        then obtain e' where "seq_res (map (member_res s) S) = Inl e'"
          using seq_res_sorted_fails [OF Inl, of ?c] Inl unfolding S_def by (cases sk) auto
        with O Inl jm show ?thesis using Object(1) by (simp add: tr del: dg_json_value.simps)
      next
        case (Inr ms)
        then have "seq_res (map (member_res s) S) = Inr (if sk then qsort key_cmp_of ms else ms)"
          using seq_res_sorted [OF Inr] by (simp add: S_def)
        moreover have "map (\<lambda>(k, v). (k, jval_text sk ascii v)) (qsort key_cmp_of ms) =
            qsort key_cmp_of (map (\<lambda>(k, v). (k, jval_text sk ascii v)) ms)"
          by (rule map_qsort) (simp add: key_cmp_of_def split_beta)
        ultimately show ?thesis using O Inr jm Object(1)
          by (cases sk) (simp_all add: tr Let_def del: dg_json_value.simps map_map)
      qed
    qed
  qed
qed simp

section \<open>Accepted texts\<close>

text \<open>The value of the tree at a token of an accepted text, and its canonical text.\<close>

lemma dg_json_canonical_text:
  assumes "json_tokens s n = Inr ts" "located ts at p tr" "jt_wf s n tr" "jt_height tr \<le> JB_MAX_DEPTH"
    "jval_of s tr = Inr v" "length (jval_text sk ascii v) < 9223372036854775808"
  shows "dg_json_canonical s ts at sk ascii = Inr (jval_text sk ascii v)"
proof -
  have "appends (\<lambda>b. dg_json b s ts at sk ascii) (jval_text sk ascii v)"
    using dg_json_value_writes [OF assms(2,3), of "Suc JB_MAX_DEPTH" sk ascii] assms(4,5)
    by (simp add: dg_json_def)
  from appends_empty [OF this assms(6)] show ?thesis by (auto simp: dg_json_canonical_def)
qed

text \<open>The tree of the whole text.\<close>

lemma json_tokens_root:
  assumes "json_tokens s n = Inr ts"
  obtains tr where "located ts 0 (-1) tr" "jt_wf s n tr" "jt_height tr \<le> JB_MAX_DEPTH"
proof -
  obtain tr where "ts = flat 0 (-1) tr" "jt_wf s n tr" "jt_height tr \<le> JB_MAX_DEPTH"
    by (rule json_tokens_InrE [OF assms])
  then show ?thesis by (intro that [of tr]) (simp_all add: located_def)
qed

definition reads_value :: "bytes \<Rightarrow> jval \<Rightarrow> bool" where
  "reads_value s v \<longleftrightarrow> (\<exists>ts tr. json_tokens s (length s) = Inr ts \<and> ts = flat 0 (-1) tr \<and>
     jt_wf s (length s) tr \<and> jt_height tr \<le> JB_MAX_DEPTH \<and> jval_of s tr = Inr v)"

lemma canonical_reads_value:
  assumes "reads_value s v" "length (jval_text sk ascii v) < 9223372036854775808"
  shows "\<exists>ts. json_tokens s (length s) = Inr ts \<and> dg_json_canonical s ts 0 sk ascii = Inr (jval_text sk ascii v)"
proof -
  obtain ts tr where t: "json_tokens s (length s) = Inr ts" "ts = flat 0 (-1) tr"
     "jt_wf s (length s) tr" "jt_height tr \<le> JB_MAX_DEPTH" "jval_of s tr = Inr v"
    using assms(1) by (auto simp: reads_value_def)
  have "located ts 0 (-1) tr" by (simp add: t(2) located_def)
  from dg_json_canonical_text [OF t(1) this t(3,4,5) assms(2)] t(1) show ?thesis by blast
qed

section \<open>Properties\<close>

text \<open>
  C11. The canonical form is a function of the value alone: two accepted texts whose values differ
  at most in the order of object members (whatever their white space, escapes and layout) have
  byte for byte the same sorted canonical form, which is the text of that value; the digest that
  seeds a decision's canvas is taken of these bytes.
\<close>

theorem dg_json_canonical_invariant:
  assumes "reads_value s v" "reads_value s' w" "jval_same v w"
    "length (jval_text True ascii v) < 9223372036854775808"
  shows "\<exists>ts ts'. json_tokens s (length s) = Inr ts \<and> json_tokens s' (length s') = Inr ts' \<and>
     dg_json_canonical s ts 0 True ascii = Inr (jval_text True ascii v) \<and>
     dg_json_canonical s' ts' 0 True ascii = dg_json_canonical s ts 0 True ascii"
proof -
  have "length (jval_text True ascii w) < 9223372036854775808"
    using assms(4) jval_same_text [OF assms(3)] by simp
  from canonical_reads_value [OF assms(1,4)] canonical_reads_value [OF assms(2) this]
    jval_same_text [OF assms(3), of ascii] show ?thesis by metis
qed

definition sample_text :: bytes where
  "sample_text = str ''{'' @ [34, 98, 34] @ str '':1, '' @ [34, 97, 34] @ str '': null}''"

definition sample_reordered :: bytes where
  "sample_reordered = str ''{'' @ [34, 92] @ str ''u0061'' @ [34] @ str '' :null,'' @ [34, 98, 34] @ str '':1}''"

lemma reads_valueI:
  "json_tokens s (length s) = Inr (flat 0 (-1) tr) \<Longrightarrow> jt_wf s (length s) tr \<Longrightarrow>
     jt_height tr \<le> JB_MAX_DEPTH \<Longrightarrow> jval_of s tr = Inr v \<Longrightarrow> reads_value s v"
  unfolding reads_value_def by blast

lemma reads_sample_text:
  "reads_value sample_text (VObj [([98], VPrim [49]), ([97], VPrim (str ''null''))])"
  by (rule reads_valueI [of _ "JT JT_OBJECT 0 18 [JT JT_STRING 2 3 [], JT JT_PRIMITIVE 5 6 [],
        JT JT_STRING 9 10 [], JT JT_PRIMITIVE 13 17 []]"]; code_simp)

lemma reads_sample_reordered:
  "reads_value sample_reordered (VObj [([97], VPrim (str ''null'')), ([98], VPrim [49])])"
  by (rule reads_valueI [of _ "JT JT_OBJECT 0 22 [JT JT_STRING 2 8 [], JT JT_PRIMITIVE 11 15 [],
        JT JT_STRING 17 18 [], JT JT_PRIMITIVE 20 21 []]"]; code_simp)

theorem dg_json_canonical_invariant_witness:
  "\<exists>ts ts'. json_tokens sample_text (length sample_text) = Inr ts \<and>
     json_tokens sample_reordered (length sample_reordered) = Inr ts' \<and>
     dg_json_canonical sample_reordered ts' 0 True True = dg_json_canonical sample_text ts 0 True True"
proof -
  have same: "jval_same (VObj [([98], VPrim [49]), ([97], VPrim (str ''null''))])
      (VObj [([97], VPrim (str ''null'')), ([98], VPrim [49])])"
    by (rule same_Obj [of _ "[([98], VPrim [49]), ([97], VPrim (str ''null''))]"])
      (simp_all add: same_Prim add_mset_commute)
  have len: "length (jval_text True True (VObj [([98], VPrim [49]), ([97], VPrim (str ''null''))])) < 9223372036854775808"
    by code_simp
  show ?thesis
    using dg_json_canonical_invariant [OF reads_sample_text reads_sample_reordered same len] by blast
qed

end
