(* ===== verification/QuestionSafe.thy ===== *)
theory QuestionSafe
  imports Questions TokenSafe JsonValue
begin

text \<open>
  What a request holds once it has been read (\<open>src/decision.inc\<close>): the questions of an accepted
  request are within the program's limits, their candidates and labels are distinct, and reading
  them, writing the prompt and checking a schema never leave an array.
\<close>

lemma ensures_bindI:
  "ensures m P \<Longrightarrow> (\<And>v. m = Inr v \<Longrightarrow> P v \<Longrightarrow> ensures (k v) Q) \<Longrightarrow> ensures (bindE m k) Q"
  by (cases m) (auto simp: ensures_def defined_def)

lemma ensures_bind_defined:
  "defined m \<Longrightarrow> (\<And>v. m = Inr v \<Longrightarrow> ensures (k v) Q) \<Longrightarrow> ensures (bindE m k) Q"
  by (rule ensures_bindI [of m "\<lambda>_. True"]) (simp_all add: ensures_def)

section \<open>Writing values of an accepted text\<close>

text \<open>A writer that keeps the buffer well-formed, or stops with one of the program's errors.\<close>

definition tidy :: "(DGBuf \<Rightarrow> DGBuf result) \<Rightarrow> bool" where
  "tidy m \<longleftrightarrow> (\<forall>b. db_ok b \<longrightarrow> ensures (m b) db_ok)"

lemma appends_tidy: "appends m z \<Longrightarrow> tidy m"
  by (fastforce simp: appends_def tidy_def ensures_def dies_def defined_def split: if_splits)

lemma writes_tidy: "writes m f r \<Longrightarrow> tidy m"
  by (cases r) (auto simp: tidy_def dies_def dest: appends_tidy [unfolded tidy_def])

text \<open>The tokens of a text that was accepted.\<close>

definition doc_ok :: "bytes \<Rightarrow> JTok list \<Rightarrow> bool" where
  "doc_ok s ts \<longleftrightarrow> (\<exists>n. json_tokens s n = Inr ts)"

lemma doc_ok_tree:
  assumes "doc_ok s ts" "i < length ts"
  obtains n q u where "located ts i q u" "jt_wf s n u" "jt_height u \<le> JB_MAX_DEPTH"
proof -
  obtain n where "json_tokens s n = Inr ts" using assms(1) by (auto simp: doc_ok_def)
  then obtain tr where tr: "ts = flat 0 (-1) tr" "jt_wf s n tr" "jt_height tr \<le> JB_MAX_DEPTH"
    by (rule json_tokens_InrE)
  obtain q u where "located (flat 0 (-1) tr) i q u" "jt_wf s n u" "jt_height u \<le> jt_height tr"
    using flat_located [of i tr s n] assms(2) tr by blast
  with tr that show thesis by (meson le_trans)
qed

lemma doc_ok_tokens:
  assumes "doc_ok s ts"
  obtains n where "tok_strings s n ts" "ts \<noteq> []"
proof -
  obtain n where n: "json_tokens s n = Inr ts" using assms by (auto simp: doc_ok_def)
  then obtain tr where "ts = flat 0 (-1) tr" by (rule json_tokens_InrE)
  then have "ts \<noteq> []" by (cases tr) simp
  with json_tokens_strings [OF n] show thesis by (rule that)
qed

lemma doc_ok_copy: "doc_ok s ts \<Longrightarrow> i < length ts \<Longrightarrow> defined (jt_string s (ts ! i))"
  using jt_string_copy_ok by (metis doc_ok_tokens jt_string_def)

lemma doc_ok_get: "doc_ok s ts \<Longrightarrow> ensures (jt_obj_get s ts obj key) (\<lambda>f. -1 \<le> f \<and> f < int (length ts))"
  using jt_obj_get_ok by (metis doc_ok_tokens)

lemma tidy_json: "doc_ok s ts \<Longrightarrow> at < length ts \<Longrightarrow> tidy (\<lambda>b. dg_json b s ts at sk ascii)"
proof -
  assume "doc_ok s ts" "at < length ts"
  then obtain n q u where u: "located ts at q u" "jt_wf s n u" "jt_height u \<le> JB_MAX_DEPTH"
    by (rule doc_ok_tree)
  have "jt_height u < Suc JB_MAX_DEPTH" using u(3) by simp
  from writes_tidy [OF dg_json_value_writes [OF u(1,2) this]] show ?thesis
    unfolding dg_json_def .
qed

lemma dg_json_canonical_defined:
  "doc_ok s ts \<Longrightarrow> at < length ts \<Longrightarrow> defined (dg_json_canonical s ts at sk ascii)"
  using tidy_json [of s ts at sk ascii]
  by (auto simp: dg_json_canonical_def tidy_def ensures_def)

lemma dg_strip_loop_ok:
  "f \<le> n \<Longrightarrow> n \<le> length s \<Longrightarrow> ensures (dg_strip_loop s n p f l) (\<lambda>(f, l). f \<le> n)"
proof (induction "n - p" arbitrary: p f l rule: less_induct)
  case less
  show ?case
  proof (cases "p < n")
    case True
    then have d: "defined (next_cp s n p)" using less.prems by (intro next_cp_defined)
    show ?thesis
    proof (cases "next_cp s n p")
      case (Inl e)
      with d True show ?thesis by (cases e) (simp_all add: dg_strip_loop.simps [of s n p])
    next
      case (Inr v)
      then obtain c q where cp: "next_cp s n p = Inr (c, q)" by (cases v) auto
      have "p < q" using next_cp_sound(6) [OF cp] .
      then have "ensures (dg_strip_loop s n q f' l') (\<lambda>(f, l). f \<le> n)" if "f' \<le> n" for f' l'
        by (intro less.hyps) (use that less.prems True in auto)
      with cp True less.prems show ?thesis by (simp add: dg_strip_loop.simps [of s n p])
    qed
  qed (use less.prems in \<open>simp add: dg_strip_loop.simps [of s n p]\<close>)
qed

lemma dg_text_of_defined: "doc_ok s ts \<Longrightarrow> at < length ts \<Longrightarrow> defined (dg_text_of s ts at)"
proof -
  assume d: "doc_ok s ts" "at < length ts"
  have "defined (dg_strip_loop z (length z) 0 (length z) 0)" for z
    using dg_strip_loop_ok [of "length z" "length z" z 0 0] by (simp add: ensures_def)
  with doc_ok_copy [OF d] dg_json_canonical_defined [OF d] d show ?thesis
    by (auto simp: dg_text_of_def intro!: defined_bindE)
qed

section \<open>Reading a request\<close>

definition request_ok :: "DGRequest \<Rightarrow> bool" where
  "request_ok r \<longleftrightarrow> doc_ok (rq_j r) (rq_t r) \<and> doc_ok (rq_qj r) (rq_qt r) \<and> rq_si r < length (rq_t r) \<and>
     rq_qroot r < length (rq_qt r) \<and> jt_type (rq_qt r ! rq_qroot r) = JT_OBJECT \<and> rq_requested r \<le> 32"

lemma dg_state_text_defined: "doc_ok s ts \<Longrightarrow> i < length ts \<Longrightarrow> defined (dg_state_text s ts i)"
  by (simp add: dg_state_text_def doc_ok_copy dg_json_canonical_defined)

lemma doc_ok_root: "doc_ok s ts \<Longrightarrow> 0 < length ts"
  by (metis doc_ok_tokens length_greater_0_conv)

lemma json_tokens_doc: "n \<le> length s \<Longrightarrow> ensures (json_tokens s n) (doc_ok s)"
  by (rule ensures_defined) (auto simp: doc_ok_def json_tokens_defined)

lemma dg_optional_int_ok: "ensures (dg_optional_int j t i name k) (\<lambda>v. i < 0 \<or> jt_literal j (t ! nat i) (str ''null'') \<longrightarrow> v = k)"
  by (auto simp: dg_optional_int_def intro: ensures_defined jt_nonnegative_int_ok)

lemma dg_request_parts_ok:
  assumes "state_length \<le> length state_json" "questions_length \<le> length questions_json"
  shows "ensures (dg_request_parts state_json state_length ident questions_json questions_length samples) request_ok"
proof (cases "samples > 32")
  case False
  show ?thesis unfolding dg_request_parts_def
    apply (simp only: False if_False)
    apply (rule ensures_bindI [OF json_tokens_doc [OF assms(1)]])
    apply (rule ensures_if, simp)
    apply (rule ensures_bind_defined, rule dg_state_text_defined, assumption, erule doc_ok_root)
    apply (rule ensures_bindI [OF json_tokens_doc [OF assms(2)]])
    using False by (auto simp: request_ok_def doc_ok_root)
qed (simp add: dg_request_parts_def)

lemma dg_request_parse_ok:
  assumes "len \<le> length j"
  shows "ensures (dg_request_parse j len) request_ok"
proof -
  have owned: "ensures (let r = \<lparr>rq_j = j, rq_qj = j, rq_t = t, rq_qt = t, rq_si = nat si, rq_qroot = nat qi,
                  rq_requested = requested, rq_separate = False, rq_state = state, rq_reqid = reqid,
                  rq_qowned = None\<rparr> in
         if jt_type (t ! nat qi) = JT_STRING then
           bindE (jt_string j (t ! nat qi)) (\<lambda>owned.
           bindE (json_tokens owned (length owned)) (\<lambda>qt.
             if qt = [] \<or> jt_type (qt ! 0) \<noteq> JT_OBJECT then die ''questions string is not a JSON object''
             else Inr (r\<lparr>rq_qj := owned, rq_qt := qt, rq_qroot := 0, rq_qowned := Some owned\<rparr>)))
         else Inr r) request_ok"
    if "doc_ok j t" "-1 \<le> si \<and> si < int (length t)" "-1 \<le> qi \<and> qi < int (length t)"
      "\<not> (si < 0 \<or> qi < 0 \<or> (jt_type (t ! nat qi) \<noteq> JT_OBJECT \<and> jt_type (t ! nat qi) \<noteq> JT_STRING))"
      "requested \<le> 32" for t si qi requested state reqid
  proof -
    have i: "nat si < length t" "nat qi < length t" using that by auto
    show ?thesis
    proof (cases "jt_type (t ! nat qi) = JT_STRING")
      case True
      show ?thesis
        apply (simp only: Let_def True if_True refl)
        apply (rule ensures_bind_defined [OF doc_ok_copy [OF that(1) i(2)]])
        apply (rule ensures_bindI [OF json_tokens_doc [OF le_refl]])
        using that(1,5) i by (auto simp: request_ok_def doc_ok_root)
    qed (use that i in \<open>auto simp: request_ok_def Let_def\<close>)
  qed
  have ident: "defined (if ii \<ge> 0 then bindE (jt_string j (t ! nat ii)) (\<lambda>z. Inr (Some z)) else Inr None)"
    if "doc_ok j t" "-1 \<le> ii \<and> ii < int (length t)" for t ii
  proof (cases "ii \<ge> 0")
    case True
    then have "nat ii < length t" using that by simp
    from doc_ok_copy [OF that(1) this] True show ?thesis by auto
  qed simp
  show ?thesis unfolding dg_request_parse_def
    apply (rule ensures_bindI [OF json_tokens_doc [OF assms]])
    apply (rule ensures_if, simp)
    apply (rule ensures_bindI, erule doc_ok_get)+
    apply (subst Let_def)
    apply (rule ensures_bindI [OF dg_optional_int_ok])+
    apply (rule ensures_if, simp)+
    apply (rule ensures_bind_defined [OF dg_state_text_defined], assumption, force)
    apply (rule ensures_bind_defined, rule ident, assumption, assumption)
    apply (rule owned, assumption, assumption, assumption, assumption)
    by auto
qed

section \<open>Candidates and labels\<close>

text \<open>Labels of different numbers differ.\<close>

lemma of_nat_byte_eq: "a < 256 \<Longrightarrow> b < 256 \<Longrightarrow> (of_nat a :: byte) = of_nat b \<longleftrightarrow> a = b"
proof -
  assume "a < 256" "b < 256"
  then have "unat (of_nat a :: byte) = a" "unat (of_nat b :: byte) = b"
    by (simp_all add: unsigned_of_nat take_bit_nat_eq_self)
  then show ?thesis by metis
qed

lemma decimal_digit: "n < 10 \<Longrightarrow> decimal n = [of_nat (48 + n)]"
  by (simp add: decimal.simps)

lemma decimal_small_inj: "inj_on decimal {..<10}"
  by (rule inj_onI) (simp add: decimal_digit of_nat_byte_eq del: of_nat_add of_nat_numeral)

lemma dg_choice_candidate_inj: "inj_on dg_choice_candidate {..<728}"
proof (rule inj_onI)
  fix a b assume "a \<in> {..<728::nat}" "b \<in> {..<728}" and e: "dg_choice_candidate a = dg_choice_candidate b"
  then have l: "a < 728" "b < 728" by simp_all
  have q: "(x - 52) div 26 < 26" if "x < 728" for x :: nat using that by (simp add: less_mult_imp_div_less)
  have m: "(x - 52) mod 26 < 26" for x :: nat by simp
  consider "a < 26" | "26 \<le> a" "a < 52" | "52 \<le> a" by linarith
  then show "a = b"
  proof cases
    case 3
    with e have "52 \<le> b" "(of_nat (65 + (a - 52) div 26) :: byte) = of_nat (65 + (b - 52) div 26)"
      "(of_nat (65 + (a - 52) mod 26) :: byte) = of_nat (65 + (b - 52) mod 26)"
      by (auto simp: dg_choice_candidate_def Let_def split: if_splits simp del: of_nat_add of_nat_numeral)
    then have "(a - 52) div 26 = (b - 52) div 26" "(a - 52) mod 26 = (b - 52) mod 26"
      using q [OF l(1)] q [OF l(2)] m [of a] m [of b]
      by (simp_all add: of_nat_byte_eq del: of_nat_add of_nat_numeral)
    then have "a - 52 = b - 52" by (metis mult_div_mod_eq)
    with 3 \<open>52 \<le> b\<close> show ?thesis by simp
  qed (use e l in \<open>auto simp: dg_choice_candidate_def Let_def of_nat_byte_eq split: if_splits
      simp del: of_nat_add of_nat_numeral\<close>)
qed

lemma dg_choice_loop_ok:
  assumes "dgt_ok tok"
  shows "ci \<le> 728 \<Longrightarrow> length out \<le> DG_CHOICE_LABELS \<Longrightarrow> distinct out \<Longrightarrow> set out \<subseteq> dg_choice_candidate ` {..<ci} \<Longrightarrow>
    ensures (dg_choice_loop tok base ci seen out)
      (\<lambda>ls. length ls \<le> DG_CHOICE_LABELS \<and> distinct ls \<and> set ls \<subseteq> dg_choice_candidate ` {..<728})"
proof (induction "728 - ci" arbitrary: ci seen out rule: less_induct)
  case less
  show ?case
  proof (cases "ci < 728 \<and> length out < DG_CHOICE_LABELS")
    case True
    let ?l = "dg_choice_candidate ci"
    have "length ?l \<le> 2" by (simp add: dg_choice_candidate_def Let_def)
    then have "3 * length (str ''q1: '' @ ?l) \<le> UINT32_MAX" by simp
    then have tk: "defined (dgt_tokenize tok (str ''q1: '' @ ?l))" by (rule dgt_tokenize_defined [OF assms])
    have fresh: "?l \<notin> set out"
    proof
      assume "?l \<in> set out"
      then obtain k where k: "k < ci" "?l = dg_choice_candidate k" using less.prems(4) by auto
      with dg_choice_candidate_inj True have "ci = k" by (auto dest: inj_onD)
      with k show False by simp
    qed
    have sub: "set out \<subseteq> dg_choice_candidate ` {..<Suc ci}" using less.prems(4) by (auto simp: lessThan_Suc)
    show ?thesis
      apply (subst dg_choice_loop.simps)
      apply (simp only: True if_True Let_def simp_thms)
      apply (rule ensures_bind_defined [OF tk])
      apply (rule ensures_if)
       apply (rule less.hyps)
      using less.prems True fresh sub by (auto intro!: less.hyps)
  qed (use less.prems in \<open>auto simp: dg_choice_loop.simps [of tok base ci]\<close>)
qed

lemma dg_choice_inventory_ok:
  assumes "dgt_ok tok"
  shows "ensures (dg_choice_inventory tok)
    (\<lambda>ls. length ls \<le> DG_CHOICE_LABELS \<and> distinct ls \<and> set ls \<subseteq> dg_choice_candidate ` {..<728})"
proof -
  have "defined (dgt_tokenize tok (str ''q1: A''))" by (rule dgt_tokenize_defined [OF assms]) simp
  then show ?thesis unfolding dg_choice_inventory_def
    by (rule ensures_bind_defined) (rule dg_choice_loop_ok [OF assms], simp_all)
qed

section \<open>Questions\<close>

lemma direct_keys_object:
  "key_tokens s n ts (jt_keys ts b i) \<Longrightarrow>
     direct_keys ts (int b) mx c i =
       (if c \<le> mx \<and> mx < c + length (jt_keys ts b i) then die ''too many JSON object entries''
        else Inr (jt_keys ts b i)) \<or> mx < c"
proof (induction ts b i arbitrary: c rule: jt_keys.induct)
  case (1 t obj i)
  note keys = jt_keys.simps [of t obj i] and step = direct_keys.simps [of t "int obj" mx c i]
  show ?case
  proof (cases "i < length t \<and> int obj \<le> jt_parent (t ! i)")
    case inside: True
    show ?thesis
    proof (cases "jt_parent (t ! i) = int obj")
      case True
      then have k: "jt_keys t obj i = i # jt_keys t obj (Suc (Suc i))" using keys inside by simp
      with 1(3) have "jt_type (t ! i) = JT_STRING" "key_tokens s n t (jt_keys t obj (Suc (Suc i)))" by simp_all
      with 1(1) [OF inside True, of "Suc c"] step inside True k show ?thesis by auto
    next
      case False
      then have k: "jt_keys t obj i = jt_keys t obj (Suc i)" using keys inside by simp
      with 1(2) [OF inside False, of c] 1(3) step inside False show ?thesis by auto
    qed
  qed (use keys step in auto)
qed

lemma direct_keys_ok:
  assumes "doc_ok s ts" "b < length ts" "jt_type (ts ! b) = JT_OBJECT"
  shows "ensures (direct_keys ts (int b) mx 0 (Suc b))
    (\<lambda>ks. ks = jt_keys ts b (Suc b) \<and> length ks \<le> mx \<and> (\<forall>k \<in> set ks. k < length ts))"
proof -
  obtain n where n: "json_tokens s n = Inr ts" using assms(1) by (auto simp: doc_ok_def)
  note k = json_object_members(1) [OF n assms(2,3)]
  show ?thesis using direct_keys_object [OF k, of mx 0] k by (auto simp: key_tokens_def)
qed

lemma dg_strings_keys: "dg_strings s ts ks = json_key_strings s ts ks"
  by (induction ks) (simp_all add: jt_string_def)

lemma dg_score_candidates_ok:
  "nc \<le> DG_MAX_SCORE \<Longrightarrow> ensures (dg_score_candidates zs cr nc)
     (\<lambda>cs. nc + length cs \<le> DG_MAX_SCORE \<and> cs = map decimal [nc..<nc + length cs])"
proof (induction zs cr nc rule: dg_score_candidates.induct)
  case (2 z zs cr nc)
  show ?case
  proof (cases "jt_parent z = cr \<and> nc < DG_MAX_SCORE")
    case True
    then have "ensures (dg_score_candidates zs cr (Suc nc))
        (\<lambda>cs. Suc nc + length cs \<le> DG_MAX_SCORE \<and> cs = map decimal [Suc nc..<Suc nc + length cs])"
      using 2 by simp
    then have "ensures (bindE (dg_score_candidates zs cr (Suc nc)) (\<lambda>cs. Inr (decimal nc # cs)))
        (\<lambda>cs. nc + length cs \<le> DG_MAX_SCORE \<and> cs = map decimal [nc..<nc + length cs])"
      by (rule ensures_bindI) (auto simp: upt_conv_Cons simp del: upt_Suc)
    with True show ?thesis by simp
  qed (use 2 in auto)
qed simp

definition question_kinds :: "bytes set" where
  "question_kinds = {str ''noul'', str ''choice'', str ''score''}"

lemma dg_candidates_ok:
  assumes "doc_ok s ts" "-1 \<le> cr \<and> cr < int (length ts)"
  shows "ensures (dg_candidates s ts kind cr) (\<lambda>cs. distinct cs \<and> kind \<in> question_kinds)"
proof -
  consider "kind = str ''noul''" | "kind = str ''choice''" "kind \<noteq> str ''noul''" |
    "kind = str ''score''" "kind \<noteq> str ''noul''" "kind \<noteq> str ''choice''" | "kind \<notin> question_kinds"
    unfolding question_kinds_def by blast
  then show ?thesis
  proof cases
    case 2
    show ?thesis
    proof (cases "cr < 0 \<or> jt_type (ts ! nat cr) \<noteq> JT_OBJECT")
      case False
      then have b: "nat cr < length ts" "jt_type (ts ! nat cr) = JT_OBJECT" "int (nat cr) = cr" using assms(2) by auto
      obtain n where n: "json_tokens s n = Inr ts" using assms(1) by (auto simp: doc_ok_def)
      have "defined (json_key_strings s ts (jt_keys ts (nat cr) (Suc (nat cr))))"
        using json_object_members(1) [OF n b(1,2)] by (rule json_key_strings_defined)
      moreover have "distinct keys" if "json_key_strings s ts (jt_keys ts (nat cr) (Suc (nat cr))) = Inr keys" for keys
        by (rule json_object_lookup(1) [OF n b(1,2) that])
      ultimately have "ensures (dg_strings s ts (jt_keys ts (nat cr) (Suc (nat cr)))) distinct"
        by (simp add: ensures_def dg_strings_keys)
      then have "ensures (bindE (direct_keys ts cr JB_MAX_CAND 0 (Suc (nat cr))) (dg_strings s ts)) distinct"
        by (intro ensures_bindI [OF direct_keys_ok [OF assms(1) b(1,2), of JB_MAX_CAND, unfolded b(3)]]) simp
      with 2 False show ?thesis
        by (auto simp: dg_candidates_def question_kinds_def simp del: str_simps ensures_bindE elim: ensures_mono)
    qed (use 2 in \<open>simp add: dg_candidates_def del: str_simps\<close>)
  next
    case 3
    have "ensures (dg_score_candidates (drop (Suc (nat cr)) ts) cr 0) distinct"
    proof (rule ensures_mono [OF dg_score_candidates_ok])
      fix cs assume "0 + length cs \<le> DG_MAX_SCORE \<and> cs = map decimal [0..<0 + length cs]"
      then have l: "length cs \<le> 10" and cs: "cs = map decimal [0..<length cs]" by (simp_all add: DG_MAX_SCORE_def)
      have "inj_on decimal (set [0..<length cs])" using l by (intro inj_on_subset [OF decimal_small_inj]) auto
      then have "distinct (map decimal [0..<length cs])" by (simp add: distinct_map)
      with cs show "distinct cs" by simp
    qed simp
    with 3 show ?thesis
      by (auto simp: dg_candidates_def question_kinds_def simp del: str_simps elim: ensures_mono)
  qed (auto simp: dg_candidates_def question_kinds_def)
qed

lemma dg_labels_ok:
  "(kind \<noteq> str ''noul'' \<Longrightarrow> kind \<noteq> str ''score'' \<Longrightarrow> \<forall>i \<in> set is. i < length choice) \<Longrightarrow>
     ensures (dg_labels kind choice is)
       (\<lambda>ls. length ls = length is \<and> (\<forall>i < length is. dg_decision_label kind (is ! i) choice = Inr (ls ! i)))"
proof (induction "is")
  case (Cons i "is")
  have "defined (dg_decision_label kind i choice)" using Cons.prems by (auto simp: dg_decision_label_def)
  moreover have "ensures (dg_labels kind choice is)
       (\<lambda>ls. length ls = length is \<and> (\<forall>i < length is. dg_decision_label kind (is ! i) choice = Inr (ls ! i)))"
    using Cons by simp
  ultimately show ?case unfolding dg_labels.simps
    by - (rule ensures_bind_defined, assumption, rule ensures_bindI, assumption,
      auto simp: nth_Cons' simp del: str_simps)
qed simp

text \<open>The labels of a question differ when the labels of choices do.\<close>

lemma dg_decision_label_inj:
  assumes "kind \<in> question_kinds" "distinct choice" "i < j"
    "dg_decision_label kind i choice = Inr l" "dg_decision_label kind j choice = Inr l"
    "kind = str ''noul'' \<Longrightarrow> j < 2" "kind = str ''score'' \<Longrightarrow> j < 10"
  shows False
proof -
  consider "kind = str ''noul''" | "kind = str ''score''" | "kind = str ''choice''"
    using assms(1) by (auto simp: question_kinds_def)
  then show False
  proof cases
    case 1
    with assms(6) have "j < 2" .
    with 1 assms(3-5) show ?thesis by (auto simp: dg_decision_label_def)
  next
    case 2
    with assms have "decimal i = decimal j" "i < 10" "j < 10" by (auto simp: dg_decision_label_def)
    with decimal_small_inj assms(3) show ?thesis by (auto dest: inj_onD)
  next
    case 3
    with assms(2-5) show ?thesis by (auto simp: dg_decision_label_def nth_eq_iff_index_eq)
  qed
qed

definition question_ok :: "JTok list \<Rightarrow> DecisionWork \<Rightarrow> bool" where
  "question_ok ts d \<longleftrightarrow>
     dw_key d < length ts \<and> -1 \<le> dw_criteria d \<and> dw_criteria d < int (length ts) \<and> dw_kind d \<in> question_kinds \<and>
     2 \<le> dw_nc d \<and> dw_nc d \<le> DG_CHOICE_LABELS \<and> (dw_kind d = str ''score'' \<longrightarrow> dw_nc d \<le> DG_MAX_SCORE) \<and>
     distinct (dw_cand d) \<and> length (dw_label d) = dw_nc d \<and> distinct (dw_label d)"

lemma dg_question_ok:
  assumes "doc_ok s ts" "key < length ts" "length choice = DG_CHOICE_LABELS" "distinct choice"
  shows "ensures (dg_question s ts choice key) (question_ok ts)"
proof -
  have noul: "length cs = 2" if "dg_candidates s ts (str ''noul'') cr = Inr cs" for cs cr
    using that by (auto simp: dg_candidates_def)
  show ?thesis unfolding dg_question_def Let_def
    apply (rule ensures_bindI [OF doc_ok_get [OF assms(1)]])+
    apply (rule ensures_if, simp)
    apply (rule ensures_bind_defined, rule doc_ok_copy [OF assms(1)], force)
    apply (rule ensures_bindI [OF dg_candidates_ok [OF assms(1)]], assumption)
    apply (rule ensures_if, simp)
    apply (rule ensures_bindI [OF dg_labels_ok])
    using assms(3) apply (force simp del: str_simps)
    subgoal premises p for ty cr kind cs ls
    proof -
      have len: "length ls = length cs" "\<And>i. i < length cs \<Longrightarrow> dg_decision_label kind i choice = Inr (ls ! i)"
        using p by auto
      have noul2: "kind = str ''noul'' \<Longrightarrow> length cs = 2" using noul [of cr cs] p by blast
      have score: "kind = str ''score'' \<Longrightarrow> length cs \<le> 10" using p by (auto simp: DG_MAX_SCORE_def)
      have kind: "kind \<in> question_kinds" using p by blast
      have differ: "ls ! i \<noteq> ls ! j" if ij: "i < j" "j < length ls" for i j
      proof
        assume eq: "ls ! i = ls ! j"
        have l: "i < length cs" "j < length cs" using ij len(1) by simp_all
        show False
          by (rule dg_decision_label_inj [OF kind assms(4) ij(1) len(2) [OF l(1)] len(2) [OF l(2), folded eq]])
            (use l noul2 score in fastforce)+
      qed
      then have "distinct ls" by (metis distinct_conv_nth nat_neq_iff)
      with p len assms(2) show ?thesis by (auto simp: question_ok_def simp del: str_simps)
    qed
    done
qed

lemma dg_question_list_ok:
  assumes "doc_ok s ts" "length choice = DG_CHOICE_LABELS" "distinct choice"
  shows "\<forall>k \<in> set keys. k < length ts \<Longrightarrow>
    ensures (dg_question_list s ts choice keys) (\<lambda>ws. length ws = length keys \<and> list_all (question_ok ts) ws)"
proof (induction keys)
  case (Cons k keys)
  have "ensures (dg_question s ts choice k) (question_ok ts)"
    using dg_question_ok [OF assms(1) _ assms(2,3)] Cons.prems by simp
  moreover have "ensures (dg_question_list s ts choice keys) (\<lambda>ws. length ws = length keys \<and> list_all (question_ok ts) ws)"
    using Cons by simp
  ultimately show ?case unfolding dg_question_list.simps
    by - (rule ensures_bindI, assumption, rule ensures_bindI, assumption, simp)
qed simp

lemma dg_questions_ok:
  assumes "request_ok r" "length choice = DG_CHOICE_LABELS" "distinct choice"
  shows "ensures (dg_questions r choice) (\<lambda>ws. 1 \<le> length ws \<and> length ws \<le> DG_MAX_QUESTIONS \<and>
    (rq_requested r = 0 \<longrightarrow> length ws \<le> DG_AUTO_READ_MAX_QUESTIONS) \<and> list_all (question_ok (rq_qt r)) ws)"
proof -
  have r: "doc_ok (rq_qj r) (rq_qt r)" "rq_qroot r < length (rq_qt r)" "jt_type (rq_qt r ! rq_qroot r) = JT_OBJECT"
    using assms(1) by (simp_all add: request_ok_def)
  show ?thesis unfolding dg_questions_def
    apply (rule ensures_bindI [OF direct_keys_ok [OF r]])
    apply (rule ensures_if, simp)+
    apply (rule ensures_mono [OF dg_question_list_ok [OF r(1) assms(2,3)]])
    by (auto simp: Suc_le_eq)
qed

section \<open>Properties\<close>

text \<open>
  C22. Reading the questions of an accepted request stops with one of the program's own errors or
  yields between 1 and 1024 questions, at most 128 when the number of reads is automatic; each has
  2 to 128 candidates (a score at most 10) that are pairwise different, a label for each that is
  different from its other labels, and token indices inside the request. The lookup of a choice's
  label never leaves the 128 labels.
\<close>

theorem questions_within_limits:
  assumes "dg_request_parse j (length j) = Inr r" "length choice = DG_CHOICE_LABELS" "distinct choice"
  shows "case dg_questions r choice of
     Inr ws \<Rightarrow> 1 \<le> length ws \<and> length ws \<le> DG_MAX_QUESTIONS \<and>
       (rq_requested r = 0 \<longrightarrow> length ws \<le> DG_AUTO_READ_MAX_QUESTIONS) \<and> list_all (question_ok (rq_qt r)) ws
   | Inl e \<Rightarrow> e \<noteq> Undefined \<and> e \<noteq> OutOfFuel"
proof -
  have "request_ok r" using dg_request_parse_ok [of "length j" j] assms(1) by (simp add: ensures_def)
  from dg_questions_ok [OF this assms(2,3)] show ?thesis
    by (auto simp: ensures_def defined_def split: sum.split)
qed

definition back_quoted :: "string \<Rightarrow> bytes" where
  "back_quoted s = map (\<lambda>c. if c = 96 then 34 else c) (str s)"

definition sample_request :: bytes where
  "sample_request = back_quoted ''{`state`:1,`questions`:{`a`:{`type`:`noul`}}}''"

definition token :: "jt_type \<Rightarrow> nat \<Rightarrow> int \<Rightarrow> int \<Rightarrow> nat \<Rightarrow> JTok" where
  "token ty a e p k = \<lparr>jt_type = ty, jt_start = a, jt_end = e, jt_parent = p, jt_size = k\<rparr>"

definition sample_tokens :: "JTok list" where
  "sample_tokens =
    [token JT_OBJECT 0 45 (-1) 4,
     token JT_STRING 2 7 0 0,
     token JT_PRIMITIVE 9 10 0 0,
     token JT_STRING 12 21 0 0,
     token JT_OBJECT 23 44 0 2,
     token JT_STRING 25 26 4 0,
     token JT_OBJECT 28 43 4 2,
     token JT_STRING 30 34 6 0,
     token JT_STRING 37 41 6 0]"

definition sample_question :: DecisionWork where
  "sample_question =
     \<lparr>dw_key = 5, dw_criteria = -1, dw_kind = str ''noul'', dw_cand = [str ''true'', str ''false''],
      dw_label = [str ''yes'', str ''no'']\<rparr>"

lemma sample_run:
  "bindE (dg_request_parse sample_request (length sample_request)) (\<lambda>r.
     bindE (dg_questions r (map dg_choice_candidate [0..<128])) (\<lambda>ws.
     bindE (jt_obj_get (rq_qj r) (rq_qt r) 6 (str ''instructions'')) (\<lambda>i.
     bindE (dg_seed_json r) (\<lambda>z.
       Inr (rq_qt r, ws, i, rq_requested r, rq_state r, z = z))))) =
   Inr (sample_tokens, [sample_question], -1, 0, [49], True)"
  by code_simp

theorem questions_within_limits_witness: "question_ok sample_tokens sample_question"
proof -
  let ?choice = "map dg_choice_candidate [0..<128]"
  have "length ?choice = DG_CHOICE_LABELS" by (simp add: DG_CHOICE_LABELS_def)
  moreover have "distinct ?choice"
    using inj_on_subset [OF dg_choice_candidate_inj, of "{..<128}"] by (simp add: distinct_map lessThan_atLeast0)
  moreover obtain r where "dg_request_parse sample_request (length sample_request) = Inr r"
    "dg_questions r ?choice = Inr [sample_question]" "rq_qt r = sample_tokens"
    using sample_run by (auto simp: bindE_Inr_iff)
  ultimately show ?thesis
    using questions_within_limits [of sample_request r ?choice] by auto
qed

end
