(* ===== verification/JobProofs.thy ===== *)
theory JobProofs
  imports Job QuestionSafe
begin

text \<open>
  What a prepared job guarantees (\<open>src/decision.inc\<close>): its canvases fit the context, every question
  has one slot inside its canvas, and the token recorded for a label is exactly what the tokenizer
  makes of the template with that label in place. The canvas of a read differs from the template
  only in the slots, and scoring stays inside the planned workspace and the hidden rows.
\<close>

section \<open>Loops\<close>

lemma if_die_Inr:
  "(if c then die s else m) = Inr y \<longleftrightarrow> \<not> c \<and> m = Inr y"
  by simp

section \<open>Slots\<close>

text \<open>The tokens of the answer template of a range of questions.\<close>

definition template_tokens :: "DGTokenizer \<Rightarrow> DecisionWork list \<Rightarrow> DGCanvas \<Rightarrow> nat list \<Rightarrow> int list result" where
  "template_tokens tok w c pick =
     bindE (dg_answer_template_range w (length w) (cv_start c) (cv_count c) pick) (dgt_tokenize tok)"

lemma dg_label_diff_one:
  "dg_label_diff v b z diff = Inr d \<Longrightarrow> length v = length b \<Longrightarrow>
     (if diff \<ge> 0 then v = b \<and> d = diff
      else (v = b \<and> d = diff) \<or> (\<exists>k < length b. d = int (z + k) \<and> v = b[k := v ! k]))"
proof (induction v b z diff rule: dg_label_diff.induct)
  case (1 v vs b bs z diff)
  show ?case
  proof (cases "v = b")
    case True
    with 1 have "if diff \<ge> 0 then vs = bs \<and> d = diff
        else (vs = bs \<and> d = diff) \<or> (\<exists>k < length bs. d = int (Suc z + k) \<and> vs = bs[k := vs ! k])" by simp
    with True show ?thesis by (auto split: if_splits intro: exI [of _ "Suc _"])
  next
    case False
    with 1 have "diff < 0" and "dg_label_diff vs bs (Suc z) (int z) = Inr d" by (simp_all split: if_splits)
    with 1 False have "vs = bs" "d = int z" by simp_all
    with \<open>diff < 0\<close> show ?thesis by (auto intro: exI [of _ 0])
  qed
qed simp_all

lemma dg_label_ids_exact:
  assumes "dg_label_ids tok w (cv_start c) (cv_count c) (cv_base c) x qs slot = Inr (s, ids)"
    "slot < int (length (cv_base c))"
  shows "length ids = length qs \<and> (if slot \<ge> 0 then s = slot else qs = [] \<and> s = slot \<or> 0 \<le> s) \<and> s < int (length (cv_base c)) \<and>
    (\<forall>i < length qs. template_tokens tok w c ((replicate (length w) 0)[x := qs ! i]) =
       Inr ((cv_base c)[nat s := ids ! i]))"
  using assms
proof (induction qs arbitrary: slot ids)
  case (Cons q qs)
  let ?base = "cv_base c"
  from Cons.prems(1) obtain a v d where v: "dg_answer_template_range w (length w) (cv_start c) (cv_count c)
      ((replicate (length w) 0)[x := q]) = Inr a" "dgt_tokenize tok a = Inr v" "length v = length ?base"
    "dg_label_diff v ?base 0 (-1) = Inr d" and d: "0 \<le> d" "slot \<ge> 0 \<longrightarrow> d = slot"
    by (auto simp: bindE_Inr_iff split: if_splits)
  with Cons.prems(1) obtain ids' where rest: "ids = v ! nat d # ids'"
    "dg_label_ids tok w (cv_start c) (cv_count c) ?base x qs d = Inr (s, ids')"
    by (auto simp: bindE_Inr_iff split: if_splits)
  from dg_label_diff_one [OF v(4,3)] d obtain k where k: "k < length ?base" "d = int k" "v = ?base[k := v ! k]"
    by auto
  have IH: "length ids' = length qs \<and> s = d \<and>
    (\<forall>i < length qs. template_tokens tok w c ((replicate (length w) 0)[x := qs ! i]) = Inr (?base[nat s := ids' ! i]))"
    using Cons.IH [OF rest(2)] k by simp
  have "template_tokens tok w c ((replicate (length w) 0)[x := q]) = Inr (?base[nat s := v ! nat d])"
    using v k IH by (simp add: template_tokens_def)
  with IH rest d k show ?case by (auto simp: nth_Cons')
qed simp

definition slot_exact :: "DGTokenizer \<Rightarrow> DecisionWork list \<Rightarrow> DGCanvas \<Rightarrow> nat \<Rightarrow> nat \<times> int list \<Rightarrow> bool" where
  "slot_exact tok w c x = (\<lambda>(s, ids). s < length (cv_base c) \<and> length ids = dw_nc (w ! x) \<and>
     (\<forall>q < dw_nc (w ! x). template_tokens tok w c ((replicate (length w) 0)[x := q]) = Inr ((cv_base c)[s := ids ! q])))"

lemma dg_job_question_exact:
  assumes "dg_job_question tok w (cv_start c) (cv_count c) (cv_base c) x = Inr p"
    "template_tokens tok w c (replicate (length w) 0) = Inr (cv_base c)" "2 \<le> dw_nc (w ! x)"
  shows "slot_exact tok w c x p"
proof -
  let ?n = "dw_nc (w ! x)"
  from assms(1) obtain slot ids where
    l: "dg_label_ids tok w (cv_start c) (cv_count c) (cv_base c) x [1..<?n] (-1) = Inr (slot, ids)" "0 \<le> slot"
    and p: "p = (nat slot, cv_base c ! nat slot # ids)" and x: "x < length w"
    by (auto simp: dg_job_question_def bindE_Inr_iff split: if_splits)
  have e: "length ids = ?n - 1" "slot < int (length (cv_base c))"
    "\<forall>i < ?n - 1. template_tokens tok w c ((replicate (length w) 0)[x := Suc i]) = Inr ((cv_base c)[nat slot := ids ! i])"
    using dg_label_ids_exact [OF l(1)] by (auto simp: nth_upt)
  have z: "(replicate (length w) (0::nat))[x := 0] = replicate (length w) 0"
    by (metis list_update_id nth_replicate x)
  have "template_tokens tok w c ((replicate (length w) 0)[x := q]) = Inr ((cv_base c)[nat slot := (cv_base c ! nat slot # ids) ! q])"
    if "q < ?n" for q
    using that e(3) assms(2) z by (cases q) auto
  with e p assms(3) l(2) show ?thesis by (auto simp: slot_exact_def)
qed

definition group_exact :: "DGTokenizer \<Rightarrow> DecisionWork list \<Rightarrow> nat \<Rightarrow> nat \<Rightarrow> DGCanvas \<times> nat \<times> (nat \<times> int list) list \<Rightarrow> bool" where
  "group_exact tok w cap b = (\<lambda>(c, cw, qs).
     cv_start c = b * cap \<and> cv_count c = min cap (length w - b * cap) \<and>
     length (cv_base c) < cw \<and> cw \<le> DG_CANVAS_TOKENS \<and> DG_CANVAS_ALIGN dvd cw \<and>
     list_all2 (slot_exact tok w c) [b * cap..<b * cap + cv_count c] qs)"

lemma dg_job_group_exact:
  assumes "dg_job_group tok w cap b = Inr p" "list_all (\<lambda>d. 2 \<le> dw_nc d) w"
  shows "group_exact tok w cap b p"
proof -
  define start where "start = b * cap"
  define cnt where "cnt = (if length w - start < cap then length w - start else cap)"
  from assms(1) obtain tx base qs where
    t: "dg_answer_template_range w (length w) start cnt (replicate (length w) 0) = Inr tx"
      "dgt_tokenize tok tx = Inr base" "length base + 1 \<le> DG_CANVAS_TOKENS"
    and qs: "collect (dg_job_question tok w start cnt base) [start..<start + cnt] = Inr qs"
    and p: "p = (\<lparr>cv_base = base, cv_start = start, cv_count = cnt\<rparr>,
      (length base + 1 + DG_CANVAS_ALIGN - 1) div DG_CANVAS_ALIGN * DG_CANVAS_ALIGN, qs)"
    unfolding dg_job_group_def Let_def start_def [symmetric] cnt_def [symmetric]
    by (auto simp: bindE_Inr_iff split: if_splits)
  define c where "c = \<lparr>cv_base = base, cv_start = start, cv_count = cnt\<rparr>"
  have tc: "template_tokens tok w c (replicate (length w) 0) = Inr (cv_base c)"
    using t by (simp add: template_tokens_def c_def)
  have each: "slot_exact tok w c x q" if "x \<in> {start..<start + cnt}" "dg_job_question tok w start cnt base x = Inr q" for x q
  proof (rule dg_job_question_exact [OF _ tc])
    show "dg_job_question tok w (cv_start c) (cv_count c) (cv_base c) x = Inr q" using that by (simp add: c_def)
    have "x < length w" using that by (auto simp: dg_job_question_def bindE_Inr_iff)
    then show "2 \<le> dw_nc (w ! x)" using assms(2) by (simp add: list_all_length)
  qed
  have "list_all2 (slot_exact tok w c) [start..<start + cnt] qs"
    using qs unfolding collect_Inr by (rule list.rel_mono_strong) (simp add: each)
  moreover have "length base < (length base + 16) div 16 * 16" "(length base + 16) div 16 * 16 \<le> 64"
    using t(3) by (auto simp: DG_CANVAS_TOKENS_def)
  ultimately show ?thesis
    using t(3) by (auto simp: group_exact_def p c_def start_def cnt_def DG_CANVAS_TOKENS_def DG_CANVAS_ALIGN_def)
qed

section \<open>Prepared jobs\<close>

text \<open>The questions of a job and of its groups.\<close>

lemma groups_cover:
  assumes "list_all2 (group_exact tok w cap) [0..<k] gs" "0 < cap"
  shows "list_all2 (\<lambda>x q. slot_exact tok w (fst (gs ! (x div cap))) x q) [0..<min (length w) (k * cap)]
     (concat (map (snd \<circ> snd) gs))"
  using assms(1)
proof (induction k arbitrary: gs)
  case (Suc k)
  then obtain gs' g where gs: "gs = gs' @ [g]" "list_all2 (group_exact tok w cap) [0..<k] gs'" "group_exact tok w cap k g"
    by (auto simp: list_all2_append1 list_all2_Cons1)
  obtain c cw qs where g: "g = (c, cw, qs)" by (cases g) auto
  have len: "length gs' = k" using list_all2_lengthD [OF gs(2)] by simp
  define n where "n = min (length w) (k * cap)"
  have split: "[0..<min (length w) (Suc k * cap)] = [0..<n] @ [k * cap..<k * cap + cv_count c]"
  proof -
    have cnt: "cv_count c = min cap (length w - k * cap)" using gs(3) g by (simp add: group_exact_def)
    show ?thesis
    proof (cases "k * cap \<le> length w")
      case True
      then have "min (length w) (Suc k * cap) = n + cv_count c" "n = k * cap"
        unfolding cnt n_def mult_Suc by linarith+
      then show ?thesis using upt_add_eq_append [of 0 n "cv_count c"] by simp
    qed (simp add: cnt n_def)
  qed
  have old: "list_all2 (\<lambda>x q. slot_exact tok w (fst ((gs' @ [g]) ! (x div cap))) x q) [0..<n] (concat (map (snd \<circ> snd) gs'))"
    using Suc.IH [OF gs(2)] unfolding n_def
  proof (rule list.rel_mono_strong)
    fix x q assume "x \<in> set [0..<min (length w) (k * cap)]" and s: "slot_exact tok w (fst (gs' ! (x div cap))) x q"
    then have "x div cap < k" by (simp add: less_mult_imp_div_less)
    with s len show "slot_exact tok w (fst ((gs' @ [g]) ! (x div cap))) x q" by (simp add: nth_append)
  qed
  have new: "list_all2 (\<lambda>x q. slot_exact tok w (fst ((gs' @ [g]) ! (x div cap))) x q) [k * cap..<k * cap + cv_count c] qs"
  proof -
    have "list_all2 (slot_exact tok w c) [k * cap..<k * cap + cv_count c] qs"
      using gs(3) unfolding g group_exact_def prod.case by blast
    moreover have "cv_count c \<le> cap" using gs(3) g by (simp add: group_exact_def)
    ultimately show ?thesis
    proof (elim list.rel_mono_strong)
      fix x q assume "x \<in> set [k * cap..<k * cap + cv_count c]" "slot_exact tok w c x q" "cv_count c \<le> cap"
      moreover from this have "x div cap = k" by (intro div_nat_eqI) (auto simp: mult.commute)
      ultimately show "slot_exact tok w (fst ((gs' @ [g]) ! (x div cap))) x q" using len g by (simp add: nth_append)
    qed
  qed
  show ?case unfolding split gs(1) using list_all2_appendI [OF old new] g by (simp add: comp_def)
qed simp

definition job_ok :: "DGTokenizer \<Rightarrow> 'd DGJob \<Rightarrow> bool" where
  "job_ok tok g \<longleftrightarrow>
     0 < jo_group_cap g \<and> 1 \<le> jo_nq g \<and> jo_nq g \<le> jo_groups g * jo_group_cap g \<and>
     (jo_groups g - 1) * jo_group_cap g < jo_nq g \<and> 1 \<le> jo_groups g \<and>
     length (jo_cv g) = jo_groups g \<and> 0 < jo_width g \<and> jo_width g \<le> DG_CANVAS_TOKENS \<and>
     DG_CANVAS_ALIGN dvd jo_width g \<and> jo_width g * jo_groups g \<le> JB_MAX_CTX \<and>
     list_all (\<lambda>c. length (cv_base c) < jo_width g) (jo_cv g) \<and>
     length (jo_slot g) = jo_nq g \<and> length (jo_ids g) = jo_nq g \<and>
     (\<forall>x < jo_nq g. slot_exact tok (jo_w g) (jo_cv g ! (x div jo_group_cap g)) x (jo_slot g ! x, jo_ids g ! x)) \<and>
     map length (jo_prob g) = map dw_nc (jo_w g) \<and> list_all (\<lambda>d. 2 \<le> dw_nc d \<and> dw_nc d \<le> DG_CHOICE_LABELS) (jo_w g) \<and>
     jo_nq g \<le> DG_MAX_QUESTIONS \<and> 1 \<le> jo_max_reads g \<and> jo_max_reads g \<le> 32 \<and> length (jo_pt g) \<le> JB_MAX_CTX \<and>
     length (jo_canvas g) = jo_width g * jo_groups g * min (JB_MAX_CTX div (jo_width g * jo_groups g)) (jo_max_reads g)"

lemma fold_max_bounds:
  "(\<forall>g \<in> set gs. (case g of (c, cw :: nat, q) \<Rightarrow> P cw)) \<Longrightarrow> gs \<noteq> [] \<Longrightarrow> m = 0 \<or> P m \<Longrightarrow>
     P (fold (\<lambda>(_, cw, _) m. max cw m) gs m) \<and> m \<le> fold (\<lambda>(_, cw, _) m. max cw m) gs m \<and>
     (\<forall>g \<in> set gs. fst (snd g) \<le> fold (\<lambda>(_, cw, _) m. max cw m) gs m)"
proof (induction gs arbitrary: m)
  case (Cons g gs)
  obtain c cw q where g: "g = (c, cw, q)" by (cases g) auto
  have "max cw m = cw \<or> (max cw m = m \<and> m \<noteq> 0)" by (auto simp: max_def)
  with Cons.prems g have "P (max cw m)" by auto
  with Cons g show ?case by (cases "gs = []") fastforce+
qed simp

lemma dg_job_layout_ok:
  assumes "dg_job_layout A tok r seed w sys pre pre_tokens prompt pt = Inr g"
    "1 \<le> length w" "length w \<le> DG_MAX_QUESTIONS" "list_all (\<lambda>d. 2 \<le> dw_nc d \<and> dw_nc d \<le> DG_CHOICE_LABELS) w"
    "length pt \<le> JB_MAX_CTX" "rq_requested r \<le> 32"
  shows "job_ok tok g"
proof -
  define cap where "cap = (if length w \<le> DG_CANVAS_ALIGN then length w else DG_CANVAS_GROUP)"
  define groups where "groups = (length w + cap - 1) div cap"
  define width where "width = (\<lambda>gs :: (DGCanvas \<times> nat \<times> (nat \<times> int list) list) list. fold (\<lambda>(_, cw, _) m. max cw m) gs 0)"
  define reads where "reads = (if rq_requested r \<noteq> 0 then rq_requested r else 4)"
  from assms(1) obtain gs where gs: "collect (dg_job_group tok w cap) [0..<groups] = Inr gs"
    and ctx: "width gs * groups \<le> JB_MAX_CTX"
    and g: "g = \<lparr>jo_rq = r, jo_w = w, jo_prob = map (\<lambda>d. replicate (dw_nc d) (zero_d A)) w,
                jo_seed = seed, jo_sys = sys, jo_pre = pre, jo_prompt = prompt, jo_pt = pt,
                jo_pre_tokens = pre_tokens, jo_group_cap = cap, jo_groups = groups, jo_width = width gs,
                jo_slot = map fst (concat (map (snd \<circ> snd) gs)), jo_ids = map snd (concat (map (snd \<circ> snd) gs)),
                jo_canvas = replicate (width gs * groups * (if JB_MAX_CTX div (width gs * groups) < reads
                  then JB_MAX_CTX div (width gs * groups) else reads)) 0, jo_cv = map fst gs,
                jo_requested = rq_requested r, jo_reads = 0, jo_max_reads = reads, jo_active = True\<rparr>"
    unfolding dg_job_layout_def Let_def cap_def [symmetric] groups_def [symmetric] width_def reads_def
    by (auto simp: bindE_Inr_iff if_die_Inr)
  have cap: "0 < cap" using assms(2) by (auto simp: cap_def DG_CANVAS_GROUP_def)
  have cover: "length w \<le> groups * cap" "(groups - 1) * cap < length w" "1 \<le> groups"
  proof -
    have q: "(length w - 1) div cap * cap \<le> length w - 1" "length w - 1 < Suc ((length w - 1) div cap) * cap"
      using cap div_times_less_eq_dividend [of "length w - 1" cap] dividend_less_times_div [OF cap, of "length w - 1"]
      by (simp_all add: mult.commute)
    have "length w + cap - 1 = cap + (length w - 1)" using assms(2) by simp
    then have "groups = Suc ((length w - 1) div cap)"
      using cap unfolding groups_def by (simp only: div_add_self1)
    moreover have "(length w - 1) div cap * cap < length w" using q(1) assms(2) by linarith
    ultimately show "length w \<le> groups * cap" "(groups - 1) * cap < length w" "1 \<le> groups" using q(2) by simp_all
  qed
  have group: "list_all2 (group_exact tok w cap) [0..<groups] gs"
    using gs unfolding collect_Inr
    by (rule list.rel_mono_strong) (use assms(4) in \<open>auto intro!: dg_job_group_exact simp: list_all_iff\<close>)
  have len: "length gs = groups" using list_all2_lengthD [OF group] by simp
  have each: "\<forall>g \<in> set gs. case g of (c, cw, q) \<Rightarrow>
      length (cv_base c) < cw \<and> cw \<le> DG_CANVAS_TOKENS \<and> DG_CANVAS_ALIGN dvd cw \<and> 0 < cw"
    using group by (fastforce simp: list_all2_conv_all_nth in_set_conv_nth group_exact_def)
  have "gs \<noteq> []" using len cover(3) by auto
  note bounds = fold_max_bounds [of gs "\<lambda>cw. cw \<le> DG_CANVAS_TOKENS \<and> DG_CANVAS_ALIGN dvd cw \<and> 0 < cw" 0, OF _ this]
  have width: "width gs \<le> DG_CANVAS_TOKENS" "DG_CANVAS_ALIGN dvd width gs" "0 < width gs"
    "list_all (\<lambda>c. length (cv_base c) < width gs) (map fst gs)"
    using bounds each by (fastforce simp: width_def list_all_iff)+
  have slots: "list_all2 (\<lambda>x q. slot_exact tok w (fst (gs ! (x div cap))) x q) [0..<length w] (concat (map (snd \<circ> snd) gs))"
    using groups_cover [OF group cap] cover(1) by (simp add: min_def)
  have "(x div cap) < length gs" if "x < length w" for x
    using that cover(1) len by (simp add: less_mult_imp_div_less)
  then show ?thesis
    using assms(2-6) cap cover ctx len width slots
    by (auto simp: job_ok_def g list_all2_conv_all_nth comp_def reads_def min_def list_all_iff simp del: length_concat)
qed

lemma dg_job_prepare_ok:
  assumes "dg_job_prepare_request A tok r = Inr g" "request_ok r" "dgt_ok tok"
  shows "job_ok tok g"
proof -
  from assms(1) obtain choice seed w sys pre pre_tokens prompt pt where
    choice: "dg_choice_inventory tok = Inr choice" "length choice = DG_CHOICE_LABELS" and w: "dg_questions r choice = Inr w"
    and rest: "\<not> length pt > JB_MAX_CTX" "dg_job_layout A tok r seed w sys pre pre_tokens prompt pt = Inr g"
    unfolding dg_job_prepare_request_def bindE_Inr_iff if_die_Inr by blast
  have "distinct choice" using dg_choice_inventory_ok [OF assms(3)] choice(1) by (simp add: ensures_def)
  from dg_questions_ok [OF assms(2) choice(2) this] w
  have "1 \<le> length w" "length w \<le> DG_MAX_QUESTIONS" "list_all (question_ok (rq_qt r)) w"
    by (simp_all add: ensures_def)
  with rest assms(2) show ?thesis
    by (intro dg_job_layout_ok [OF rest(2)]) (auto simp: list_all_iff question_ok_def request_ok_def)
qed

section \<open>The canvas of a read\<close>

definition canvas_of :: "nat \<Rightarrow> DGCanvas \<Rightarrow> int list" where
  "canvas_of width c = cv_base c @ DG_CANVAS_MASK_TOKEN # replicate (width - Suc (length (cv_base c))) 0"

lemma length_canvas_of: "length (cv_base c) < width \<Longrightarrow> length (canvas_of width c) = width"
  by (simp add: canvas_of_def)

lemma length_canvases:
  "list_all (\<lambda>c. length (cv_base c) < width) cs \<Longrightarrow> length (concat (map (canvas_of width) cs)) = width * length cs"
  by (induction cs) (simp_all add: length_canvas_of)

lemma dg_canvas_bases_exact:
  "list_all (\<lambda>c. length (cv_base c) < width) cs \<Longrightarrow> length pre = b * width \<Longrightarrow>
     dg_canvas_bases width cs b (pre @ replicate (width * length cs) 0) = Inr (pre @ concat (map (canvas_of width) cs))"
proof (induction cs arbitrary: b pre)
  case (Cons c cs)
  let ?n = "length (cv_base c)"
  define rest where "rest = replicate (width * length cs) (0::int)"
  have n: "?n < width" using Cons.prems(1) by simp
  have z: "replicate (width * length (c # cs)) (0::int) = replicate width 0 @ rest"
    by (simp add: rest_def replicate_add [symmetric])
  have "drop ?n (replicate width (0::int)) = 0 # replicate (width - Suc ?n) 0"
    using n by (metis drop_replicate Suc_diff_Suc replicate_Suc)
  then have w1: "wr_list (pre @ replicate width 0 @ rest) (b * width) (cv_base c) =
      Inr (pre @ cv_base c @ 0 # replicate (width - Suc ?n) 0 @ rest)"
    using n Cons.prems(2) by (simp add: wr_list_def)
  have w2: "wr (pre @ cv_base c @ 0 # replicate (width - Suc ?n) 0 @ rest)
      (b * width + ?n) DG_CANVAS_MASK_TOKEN = Inr ((pre @ canvas_of width c) @ rest)"
    using Cons.prems(2) by (simp add: wr_def canvas_of_def list_update_append)
  have "length (pre @ canvas_of width c) = Suc b * width"
    using Cons.prems(2) n by (simp add: length_canvas_of)
  from Cons.IH [OF _ this] Cons.prems(1) show ?case
    unfolding z dg_canvas_bases.simps w1 w2 bindE_simps rest_def [symmetric] by simp
qed simp

lemma dg_mt_vocab_range: "dg_mt_vocab fuel r = Inr (v, r') \<Longrightarrow> v < DG_VOCAB"
  by (induction fuel r rule: dg_mt_vocab.induct) (auto simp: Let_def split: prod.splits if_splits)

lemma dg_mt_vocab_fails: "dg_mt_vocab fuel r = Inl e \<Longrightarrow> e = OutOfFuel"
  by (induction fuel r rule: dg_mt_vocab.induct) (auto simp: Let_def split: prod.splits if_splits)

text \<open>The index of a question's slot in the canvases.\<close>

definition slot_at :: "nat \<Rightarrow> nat \<Rightarrow> nat list \<Rightarrow> nat \<Rightarrow> nat" where
  "slot_at cap width ss x = x div cap * width + ss ! x"

lemma dg_canvas_slots_exact:
  assumes "\<forall>x < length all. slot_at cap width all x < length dst" "ss = drop x all"
  shows "case dg_canvas_slots fuel cap width ss x rng dst of
     Inr dst' \<Rightarrow> length dst' = length dst \<and>
       (\<forall>k < length dst. (\<exists>y \<in> {x..<length all}. k = slot_at cap width all y) \<and> 0 \<le> dst' ! k \<and> dst' ! k < int DG_VOCAB \<or>
          (\<forall>y \<in> {x..<length all}. k \<noteq> slot_at cap width all y) \<and> dst' ! k = dst ! k)
   | Inl e \<Rightarrow> e = OutOfFuel"
  using assms
proof (induction ss arbitrary: x rng dst)
  case Nil
  then have "{x..<length all} = {}" by simp
  then show ?case by simp
next
  case (Cons s ss)
  have x: "x < length all" "s = all ! x" "ss = drop (Suc x) all"
    using Cons.prems(2) by (cases "x < length all"; simp add: Cons_nth_drop_Suc [symmetric])+
  show ?case
  proof (cases "dg_mt_vocab fuel rng")
    case (Inl e)
    then show ?thesis using dg_mt_vocab_fails by simp
  next
    case (Inr p)
    then obtain v rng' where v: "dg_mt_vocab fuel rng = Inr (v, rng')" by (cases p) auto
    let ?k = "slot_at cap width all x" and ?dst = "dst[slot_at cap width all x := int v]"
    have k: "?k < length dst" using Cons.prems(1) x(1) by simp
    have step: "dg_canvas_slots fuel cap width (s # ss) x rng dst = dg_canvas_slots fuel cap width ss (Suc x) rng' ?dst"
      using v k x(2) by (simp add: slot_at_def)
    have v': "0 \<le> int v \<and> int v < int DG_VOCAB" using dg_mt_vocab_range [OF v] by simp
    have set: "{x..<length all} = insert x {Suc x..<length all}" using x(1) by auto
    have "\<forall>x < length all. slot_at cap width all x < length ?dst" using Cons.prems(1) by simp
    note IH = Cons.IH [OF this x(3), of rng']
    show ?thesis
    proof (cases "dg_canvas_slots fuel cap width ss (Suc x) rng' ?dst")
      case (Inl e)
      with IH step show ?thesis by simp
    next
      case (Inr dst')
      then have len: "length dst' = length dst"
        and r: "\<forall>k < length dst. (\<exists>y \<in> {Suc x..<length all}. k = slot_at cap width all y) \<and> 0 \<le> dst' ! k \<and> dst' ! k < int DG_VOCAB \<or>
          (\<forall>y \<in> {Suc x..<length all}. k \<noteq> slot_at cap width all y) \<and> dst' ! k = ?dst ! k"
        using IH by simp_all
      have "(\<exists>y \<in> {x..<length all}. k = slot_at cap width all y) \<and> 0 \<le> dst' ! k \<and> dst' ! k < int DG_VOCAB \<or>
          (\<forall>y \<in> {x..<length all}. k \<noteq> slot_at cap width all y) \<and> dst' ! k = dst ! k" if "k < length dst" for k
        using r [rule_format, OF that] v' that unfolding set by (cases "k = ?k") auto
      with Inr len step show ?thesis by simp
    qed
  qed
qed

section \<open>Properties\<close>

lemma dg_job_prepare_job_ok:
  assumes "dg_job_prepare A tok j (length j) = Inr g" "dgt_ok tok"
  shows "job_ok tok g"
proof -
  from assms(1) obtain r where r: "dg_request_parse j (length j) = Inr r" "dg_job_prepare_request A tok r = Inr g"
    by (auto simp: dg_job_prepare_def bindE_Inr_iff)
  then have "request_ok r" using dg_request_parse_ok [of "length j" j] by (simp add: ensures_def)
  with r(2) assms(2) show ?thesis by (intro dg_job_prepare_ok)
qed

text \<open>
  C23. A prepared job fits: it has 1 to 1024 questions in groups whose canvases are at most 64
  tokens wide, a multiple of 16, and together at most 4096 tokens; every question has its slot
  inside the template of its group, and one token for each of its 2 to 128 candidates; the prompt
  is at most 4096 tokens, and 1 to 32 reads are made.
\<close>

theorem prepared_job_fits:
  assumes "dg_job_prepare A tok j (length j) = Inr g" "dgt_ok tok"
  shows "1 \<le> jo_nq g \<and> jo_nq g \<le> DG_MAX_QUESTIONS \<and>
    jo_width g \<le> DG_CANVAS_TOKENS \<and> DG_CANVAS_ALIGN dvd jo_width g \<and> jo_width g * jo_groups g \<le> JB_MAX_CTX \<and>
    list_all (\<lambda>c. length (cv_base c) < jo_width g) (jo_cv g) \<and> length (jo_cv g) = jo_groups g \<and>
    list_all (\<lambda>x. x div jo_group_cap g < jo_groups g \<and>
        jo_slot g ! x < length (cv_base (jo_cv g ! (x div jo_group_cap g))) \<and>
        length (jo_ids g ! x) = dw_nc (jo_w g ! x) \<and> 2 \<le> dw_nc (jo_w g ! x) \<and> dw_nc (jo_w g ! x) \<le> DG_CHOICE_LABELS)
      [0..<jo_nq g] \<and>
    1 \<le> jo_max_reads g \<and> jo_max_reads g \<le> 32 \<and> length (jo_pt g) \<le> JB_MAX_CTX"
proof -
  note ok = dg_job_prepare_job_ok [OF assms, unfolded job_ok_def]
  have "x div jo_group_cap g < jo_groups g" if "x < jo_nq g" for x
    using ok that by (simp add: less_mult_imp_div_less)
  with ok show ?thesis by (auto simp: list_all_iff slot_exact_def)
qed

text \<open>
  C24. The token of a label is what the tokenizer makes of it: for every question and candidate of a
  prepared job, tokenizing the answer template of the question's group with that candidate's label
  in place, and the first label for every other question, gives the canvas with the candidate's
  token in the question's slot and no other change.
\<close>

theorem label_token_exact:
  assumes "dg_job_prepare A tok j (length j) = Inr g" "dgt_ok tok"
    "x < jo_nq g" "q < dw_nc (jo_w g ! x)" "c = jo_cv g ! (x div jo_group_cap g)"
  shows "bindE (dg_answer_template_range (jo_w g) (jo_nq g) (cv_start c) (cv_count c) ((replicate (jo_nq g) 0)[x := q]))
      (dgt_tokenize tok) = Inr ((cv_base c)[jo_slot g ! x := jo_ids g ! x ! q])"
proof -
  have "slot_exact tok (jo_w g) c x (jo_slot g ! x, jo_ids g ! x)"
    using dg_job_prepare_job_ok [OF assms(1,2)] assms(3,5) unfolding job_ok_def by blast
  with assms(4) show ?thesis by (simp add: slot_exact_def template_tokens_def)
qed

lemma job_slots_inside:
  assumes "job_ok tok g" "x < jo_nq g"
  shows "slot_at (jo_group_cap g) (jo_width g) (jo_slot g) x < jo_width g * jo_groups g"
proof -
  let ?b = "x div jo_group_cap g"
  have b: "?b < jo_groups g" using assms by (simp add: job_ok_def less_mult_imp_div_less)
  have "jo_slot g ! x < length (cv_base (jo_cv g ! ?b))" "length (cv_base (jo_cv g ! ?b)) < jo_width g"
    using assms b by (auto simp: job_ok_def slot_exact_def list_all_length)
  moreover have "Suc ?b * jo_width g \<le> jo_groups g * jo_width g" using b by (intro mult_le_mono1) simp
  ultimately show ?thesis unfolding slot_at_def by (simp add: mult.commute)
qed

text \<open>
  C25. The canvas of a read is the templates of the groups side by side, each with the mask token
  after it and zeros up to the common width, except at the slots of the questions, which hold
  tokens of the vocabulary; no write leaves the canvas, and the only way to no canvas is that the
  draws of the generator run out.
\<close>

theorem read_canvas_exact:
  assumes "dg_job_prepare A tok j (length j) = Inr g" "dgt_ok tok"
  shows "case dg_job_canvas fuel g r of
     Inr dst \<Rightarrow> length dst = jo_width g * jo_groups g \<and>
       (\<forall>k < length dst.
          if \<exists>x < jo_nq g. k = slot_at (jo_group_cap g) (jo_width g) (jo_slot g) x
          then 0 \<le> dst ! k \<and> dst ! k < int DG_VOCAB
          else dst ! k = concat (map (canvas_of (jo_width g)) (jo_cv g)) ! k)
   | Inl e \<Rightarrow> e = OutOfFuel"
proof -
  note job = dg_job_prepare_job_ok [OF assms]
  let ?base = "concat (map (canvas_of (jo_width g)) (jo_cv g))" and ?rng = "dg_mt_seed (jo_seed g + of_nat r * 7919)"
  have w: "list_all (\<lambda>c. length (cv_base c) < jo_width g) (jo_cv g)" "length (jo_cv g) = jo_groups g"
    and len: "length (jo_slot g) = jo_nq g" using job by (simp_all add: job_ok_def)
  have base: "dg_canvas_bases (jo_width g) (jo_cv g) 0 (replicate (jo_width g * jo_groups g) 0) = Inr ?base"
    using dg_canvas_bases_exact [OF w(1), of "[]" 0] w(2) by simp
  have "\<forall>x < length (jo_slot g). slot_at (jo_group_cap g) (jo_width g) (jo_slot g) x < length ?base"
    using job_slots_inside [OF job] len by (simp add: length_canvases [OF w(1)] w(2))
  from dg_canvas_slots_exact [OF this, of "jo_slot g" 0 fuel ?rng] show ?thesis
    unfolding dg_job_canvas_def base bindE_simps len length_canvases [OF w(1)] w(2)
    by (fastforce split: sum.splits)
qed

end
