(* ===== verification/JobSample.thy ===== *)
theory JobSample
  imports JobProofs
begin

text \<open>
  A concrete job, for the witnesses: a tokenizer whose special tokens are whole texts, the labels
  and the template, prompt and prefix of one boolean question among them, and the job that
  preparing this question makes.
\<close>

section \<open>A tokenizer of whole texts\<close>

definition text_entry :: "bytes list \<Rightarrow> nat \<Rightarrow> Vocab" where
  "text_entry ts i = \<lparr>vo_id = int i, vo_s = ts ! i\<rparr>"

definition text_tokenizer :: "bytes list \<Rightarrow> DGTokenizer" where
  "text_tokenizer ts =
     (let vs = map (text_entry ts) [0..<length ts] in
      \<lparr>dt_vocab = qsort cmp_vocab vs, dt_by_id = map Some vs, dt_merge = [], dt_special = vs,
       dt_maxlen = sum_list (map length ts), dt_special_first = replicate 256 True\<rparr>)"

lemma text_tokenizer_ok:
  assumes "length ts < UINT32_MAX" "[] \<notin> set ts" "sum_list (map length ts) \<le> 2 * JB_MAX_JSON"
  shows "dgt_ok (text_tokenizer ts)"
proof -
  have "length (ts ! i) \<le> sum_list (map length ts)" if "i < length ts" for i
    using that member_le_sum_list [of "length (ts ! i)" "map length ts"] by simp
  moreover have "unat b < 256" for b :: byte
    using unsigned_less [of b] by simp
  ultimately show ?thesis using assms
    by (auto simp: dgt_ok_def text_tokenizer_def Let_def list_all_iff text_entry_def in_set_conv_nth
        intro: vocab_order.sorted_qsort)
qed

lemma special_prefix_longest:
  assumes "v \<in> set (dt_special d)" "take (length (vo_s v)) t = vo_s v"
  shows "\<exists>h. special_prefix d t = Some h \<and> length (vo_s v) \<le> length (vo_s h)"
proof -
  let ?f = "\<lambda>v hit. if take (length (vo_s v)) t = vo_s v \<and>
           (case hit of None \<Rightarrow> True | Some h \<Rightarrow> length (vo_s v) > length (vo_s h)) then Some v else hit"
  have keep: "\<exists>h. fold ?f vs hit = Some h \<and> length (vo_s g) \<le> length (vo_s h)" if "hit = Some g" for vs hit g
    using that
  proof (induction vs arbitrary: hit g)
    case (Cons w vs)
    then obtain g' where "?f w hit = Some g'" "length (vo_s g) \<le> length (vo_s g')"
      by (cases "take (length (vo_s w)) t = vo_s w \<and> length (vo_s g) < length (vo_s w)") auto
    with Cons.IH [of "?f w hit" g'] show ?case by fastforce
  qed simp
  have "\<exists>h. fold ?f vs hit = Some h \<and> length (vo_s v) \<le> length (vo_s h)" if "v \<in> set vs" for vs hit
    using that
  proof (induction vs arbitrary: hit)
    case (Cons w vs)
    show ?case
    proof (cases "w = v")
      case True
      have "\<exists>g. ?f v hit = Some g \<and> length (vo_s v) \<le> length (vo_s g)"
        using assms(2) by (cases hit) auto
      then obtain g where "?f v hit = Some g" "length (vo_s v) \<le> length (vo_s g)" by blast
      with keep [of "?f v hit" g vs] True show ?thesis by fastforce
    qed (use Cons in auto)
  qed simp
  from this [OF assms(1), of None] show ?thesis by (simp add: special_prefix_def)
qed

lemma text_tokenizer_whole:
  assumes "distinct ts" "[] \<notin> set ts" "i < length ts" "dgt_ok (text_tokenizer ts)"
  shows "dgt_tokenize (text_tokenizer ts) (ts ! i) = Inr [int i]"
proof -
  let ?d = "text_tokenizer ts" and ?v = "text_entry ts i" and ?t = "ts ! i"
  have sp: "dt_special ?d = map (text_entry ts) [0..<length ts]" by (simp add: text_tokenizer_def Let_def)
  then have v: "?v \<in> set (dt_special ?d)" using assms(3) by simp
  from special_prefix_longest [OF this, of ?t] obtain h where
    h: "special_prefix ?d ?t = Some h" "length ?t \<le> length (vo_s h)" by (auto simp: text_entry_def)
  from special_prefix_Some [OF h(1)] obtain k where k: "k < length ts" "h = text_entry ts k" "take (length (ts ! k)) ?t = ts ! k"
    by (auto simp: sp text_entry_def)
  with h(2) have "ts ! k = ?t" by (simp add: text_entry_def)
  with assms(1,3) k have h_v: "h = ?v" by (simp add: nth_eq_iff_index_eq)
  obtain c t' where t: "?t = c # t'" using assms(2,3) by (metis list.exhaust nth_mem)
  have "dgt_segments ?d [] ?t = ([([], ?v)], [])"
    using h(1) h_v unfolding t
    by (simp add: dgt_segments.simps [of ?d "[]" "c # t'"] dgt_segments.simps [of ?d "[]" "[]"] text_entry_def t)
  then show ?thesis
    unfolding dgt_tokenize_segments [OF assms(4)]
    by (simp add: push_def tokens_zero_def text_entry_def)
qed

section \<open>A job\<close>

definition job_yes :: bytes where
  "job_yes = dg_template_head @ str ''q1: yes''"

definition job_no :: bytes where
  "job_no = dg_template_head @ str ''q1: no''"

definition label_text :: "nat \<Rightarrow> bytes" where
  "label_text ci = str ''q1: '' @ dg_choice_candidate ci"

text \<open>The prefix, the prompt and the bytes of the seed of the sample request.\<close>

definition job_system :: bytes where
  "job_system = str ''Answer a fixed set of questions about the state the user provides. Each question lists its allowed answers; reply with exactly one label per question.'' @ [10]
     @ [10] @ str ''Question q1: Answer about the state.'' @ [10] @ str ''  yes'' @ [10] @ str ''  no'' @ [10]
     @ [10] @ back_quoted ''Reply with one line per question, in this order, formatted as `id: label`.''"

definition job_prefix :: bytes where
  "job_prefix = str ''<bos><|turn>system'' @ [10] @ job_system @ str ''<turn|>'' @ [10] @ str ''<|turn>user'' @ [10]"

definition job_prompt :: bytes where
  "job_prompt = job_prefix @ str ''1<turn|>'' @ [10] @ str ''<|turn>model'' @ [10]"

definition job_texts :: "bytes list" where
  "job_texts = map label_text [0..<128] @ [job_yes, job_no, job_prefix, job_prompt]"

definition job_tokenizer :: DGTokenizer where
  "job_tokenizer = text_tokenizer job_texts"

lemma job_lengths:
  "length job_yes = 35 \<and> length job_no = 34 \<and> length job_prefix = 314 \<and> length job_prompt = 336"
  by (simp add: job_yes_def job_no_def job_prefix_def job_prompt_def job_system_def back_quoted_def dg_template_head_def)

lemma label_lengths: "ci < 128 \<Longrightarrow> 5 \<le> length (label_text ci) \<and> length (label_text ci) \<le> 6"
  by (simp add: label_text_def dg_choice_candidate_def Let_def)

lemma job_texts_nth:
  "ci < 128 \<Longrightarrow> job_texts ! ci = label_text ci"
  "job_texts ! 128 = job_yes" "job_texts ! 129 = job_no" "job_texts ! 130 = job_prefix" "job_texts ! 131 = job_prompt"
  by (simp_all add: job_texts_def nth_append del: upt_rec_numeral)

lemma label_texts:
  "t \<in> set (map label_text [0..<128]) \<Longrightarrow> 5 \<le> length t \<and> length t \<le> 6"
  "length (map label_text [0..<128]) = 128"
  using label_lengths by (auto simp del: upt_rec_numeral)

lemma long_texts: "t \<in> set [job_yes, job_no, job_prefix, job_prompt] \<Longrightarrow> 6 < length t"
  using job_lengths by auto

lemma job_texts_nonempty: "[] \<notin> set job_texts"
proof
  assume "[] \<in> set job_texts"
  then consider "[] \<in> set (map label_text [0..<128])" | "[] \<in> set [job_yes, job_no, job_prefix, job_prompt]"
    unfolding job_texts_def set_append by blast
  then show False using label_texts(1) [of "[]"] long_texts [of "[]"] by cases (simp_all del: upt_rec_numeral)
qed

lemma job_texts_distinct: "distinct job_texts"
proof -
  have "inj_on label_text (set [0..<128])"
    using dg_choice_candidate_inj unfolding inj_on_def label_text_def append_same_eq same_append_eq by fastforce
  then have "distinct (map label_text [0..<128])" unfolding distinct_map by simp
  moreover have "distinct (map length [job_yes, job_no, job_prefix, job_prompt])"
    using job_lengths by simp
  then have "distinct [job_yes, job_no, job_prefix, job_prompt]" unfolding distinct_map by blast
  moreover have "set (map label_text [0..<128]) \<inter> set [job_yes, job_no, job_prefix, job_prompt] = {}"
    using label_texts(1) long_texts by (meson disjoint_iff not_le)
  ultimately show ?thesis unfolding job_texts_def distinct_append by blast
qed

lemma job_tokenizer_ok: "dgt_ok job_tokenizer"
  unfolding job_tokenizer_def
proof (rule text_tokenizer_ok [OF _ job_texts_nonempty])
  show "length job_texts < UINT32_MAX" by (simp add: job_texts_def del: upt_rec_numeral)
  have "sum_list (map length ts) \<le> 6 * length ts" if "\<forall>t \<in> set ts. length t \<le> 6" for ts :: "bytes list"
    using that by (induction ts) auto
  from this [of "map label_text [0..<128]"] label_texts have "sum_list (map length (map label_text [0..<128])) \<le> 768" by simp
  then show "sum_list (map length job_texts) \<le> 2 * JB_MAX_JSON"
    using job_lengths by (simp add: job_texts_def JB_MAX_JSON_def del: upt_rec_numeral)
qed

lemma job_tokens:
  "ci < 128 \<Longrightarrow> dgt_tokenize job_tokenizer (label_text ci) = Inr [int ci]"
  "dgt_tokenize job_tokenizer job_yes = Inr [128]" "dgt_tokenize job_tokenizer job_no = Inr [129]"
  "dgt_tokenize job_tokenizer job_prefix = Inr [130]" "dgt_tokenize job_tokenizer job_prompt = Inr [131]"
proof -
  have whole: "dgt_tokenize job_tokenizer (job_texts ! i) = Inr [int i]" if "i < 132" for i
    unfolding job_tokenizer_def
  proof (rule text_tokenizer_whole [OF job_texts_distinct])
    show "[] \<notin> set job_texts" by (rule job_texts_nonempty)
    show "i < length job_texts" using that by (simp add: job_texts_def del: upt_rec_numeral)
    show "dgt_ok (text_tokenizer job_texts)" using job_tokenizer_ok by (simp add: job_tokenizer_def)
  qed
  show "ci < 128 \<Longrightarrow> dgt_tokenize job_tokenizer (label_text ci) = Inr [int ci]"
    using whole [of ci] job_texts_nth(1) [of ci] by simp
  show "dgt_tokenize job_tokenizer job_yes = Inr [128]" "dgt_tokenize job_tokenizer job_no = Inr [129]"
    "dgt_tokenize job_tokenizer job_prefix = Inr [130]" "dgt_tokenize job_tokenizer job_prompt = Inr [131]"
    using whole [of 128] whole [of 129] whole [of 130] whole [of 131] job_texts_nth by simp_all
qed

lemma job_choice_loop:
  "ci \<le> 128 \<Longrightarrow> dg_choice_loop job_tokenizer [0] ci (map int [0..<ci]) (map dg_choice_candidate [0..<ci]) =
     Inr (map dg_choice_candidate [0..<128])"
proof (induction "128 - ci" arbitrary: ci)
  case 0
  then have "ci = 128" by simp
  then show ?case by (simp add: dg_choice_loop.simps DG_CHOICE_LABELS_def del: upt_Suc upt_rec_numeral)
next
  case (Suc d)
  have ci: "ci < 128" using Suc by simp
  have "dg_choice_loop job_tokenizer [0] ci (map int [0..<ci]) (map dg_choice_candidate [0..<ci]) =
      dg_choice_loop job_tokenizer [0] (Suc ci) (map int [0..<Suc ci]) (map dg_choice_candidate [0..<Suc ci])"
    using ci job_tokens(1) [OF ci]
    by (subst dg_choice_loop.simps) (auto simp: label_text_def DG_CHOICE_LABELS_def dg_label_ok_def Let_def)
  moreover have "d = 128 - Suc ci" "Suc ci \<le> 128" using Suc by auto
  ultimately show ?case using Suc.hyps(1) [of "Suc ci"] by simp
qed

lemma job_choices: "dg_choice_inventory job_tokenizer = Inr (map dg_choice_candidate [0..<128])"
  using job_tokens(1) [of 0] job_choice_loop [of 0]
  by (simp add: dg_choice_inventory_def label_text_def dg_choice_candidate_def)

text \<open>Writers into an unlimited buffer, for texts of less than 2 GiB.\<close>

definition open_buffer :: "DGBuf \<Rightarrow> bytes \<Rightarrow> bool" where
  "open_buffer b z \<longleftrightarrow> db_ok b \<and> db_limit b = 0 \<and> db_p b = z \<and> length z < 1000000"

lemma open_buffer_empty: "open_buffer db_empty []"
  by (simp add: open_buffer_def) (simp add: db_empty_def)

lemma open_db_mem:
  "open_buffer b y \<Longrightarrow> length y + length z < 1000000 \<Longrightarrow> \<exists>b'. db_mem b z = Inr b' \<and> open_buffer b' (y @ z)"
  using appends_db_mem [of z] by (auto simp: appends_def open_buffer_def db_room_def dest!: spec [of _ b])

lemma open_db_fmt:
  "open_buffer b y \<Longrightarrow> length y + length z < 1000000 \<Longrightarrow> \<exists>b'. db_fmt b z = Inr b' \<and> open_buffer b' (y @ z)"
  using open_db_mem [of b y z] by (simp add: db_fmt_def db_mem_def)

lemma db_fmt_text: "length z < 1000000 \<Longrightarrow> bindE (db_fmt db_empty z) (\<lambda>b. Inr (db_p b)) = Inr z"
  using open_db_fmt [OF open_buffer_empty, of z] by (auto simp: open_buffer_def)

lemma job_prefix_run: "dg_prefix_text job_system = Inr job_prefix"
  using job_lengths db_fmt_text [of job_prefix] by (simp add: dg_prefix_text_def job_prefix_def del: str_simps)

lemma job_prompt_run: "dg_prompt_text job_prefix [49] = Inr job_prompt"
  using job_lengths db_fmt_text [of job_prompt] by (simp add: dg_prompt_text_def job_prompt_def str_def)

lemma job_labels_run:
  assumes "open_buffer b y" "length y < 1000"
  shows "\<exists>b'. dg_prompt_labels j t sample_question [0..<2] b = Inr b' \<and>
    open_buffer b' (y @ str ''  yes'' @ [10] @ str ''  no'' @ [10])"
proof -
  have desc: "dg_description j t sample_question i = Inr None" for i
    by (simp add: dg_description_def sample_question_def)
  have line: "dg_label_line sample_question 0 None = str ''  yes'' @ [10]" "dg_label_line sample_question 1 None = str ''  no'' @ [10]"
    by (simp_all add: dg_label_line_def sample_question_def Let_def)
  have two: "[0..<2] = [0, 1 :: nat]" by (simp add: upt_rec)
  obtain b1 where b1: "db_fmt b (str ''  yes'' @ [10]) = Inr b1" "open_buffer b1 (y @ str ''  yes'' @ [10])"
    using open_db_fmt [OF assms(1), of "str ''  yes'' @ [10]"] assms(2) by auto
  obtain b2 where b2: "db_fmt b1 (str ''  no'' @ [10]) = Inr b2" "open_buffer b2 ((y @ str ''  yes'' @ [10]) @ str ''  no'' @ [10])"
    using open_db_fmt [OF b1(2), of "str ''  no'' @ [10]"] assms(2) by auto
  show ?thesis
    unfolding two dg_prompt_labels.simps desc bindE_simps line b1 b2(1) using b2(2) by (simp del: str_simps)
qed

lemma job_system_run:
  assumes "dg_instruction qj qt 6 = Inr (str ''Answer about the state.'')"
  shows "dg_system_prompt qj qt [sample_question] = Inr job_system"
proof -
  let ?opening = "str ''Answer a fixed set of questions about the state the user provides. Each question lists its allowed answers; reply with exactly one label per question.'' @ [10]"
  let ?q = "[10] @ str ''Question q'' @ decimal (Suc 0) @ str '': '' @ str ''Answer about the state.'' @ [10]"
  let ?labels = "str ''  yes'' @ [10] @ str ''  no'' @ [10]"
  let ?closing = "[10] @ str ''Reply with one line per question, in this order, formatted as '' @ [34] @ str ''id: label'' @ [34] @ str ''.''"
  have one: "decimal (Suc 0) = [49]" by (simp add: decimal_digit)
  have ins: "dg_instruction qj qt (int (Suc (dw_key sample_question))) = Inr (str ''Answer about the state.'')"
    using assms by (simp add: sample_question_def)
  have nc: "dw_nc sample_question = 2" by (simp add: sample_question_def)
  have short: "(if str ''Answer about the state.'' \<noteq> [] then str ''Answer about the state.'' else str ''Answer about the state.'') =
    str ''Answer about the state.''" by simp
  obtain b0 where b0: "db_mem db_empty ?opening = Inr b0" "open_buffer b0 ?opening"
    using open_db_mem [OF open_buffer_empty, of ?opening] by auto
  obtain b1 where b1: "db_fmt b0 ?q = Inr b1" "open_buffer b1 (?opening @ ?q)"
    using open_db_fmt [OF b0(2), of ?q] one by auto
  obtain b2 where b2: "dg_prompt_labels qj qt sample_question [0..<2] b1 = Inr b2" "open_buffer b2 ((?opening @ ?q) @ ?labels)"
    using job_labels_run [OF b1(2)] one by auto
  obtain b3 where b3: "db_fmt b2 ?closing = Inr b3" "open_buffer b3 (((?opening @ ?q) @ ?labels) @ ?closing)"
    using open_db_fmt [OF b2(2), of ?closing] one by auto
  have ten: "length [sample_question] \<le> 10" by simp
  have "dg_system_prompt qj qt [sample_question] = Inr (db_p b3)"
    unfolding dg_system_prompt_def b0(1) bindE_simps dg_prompt_questions.simps ins short b1(1) nc b2(1)
    using b3(1) by (simp only: ten if_True bindE_simps)
  moreover have "db_p b3 = job_system"
    using b3(2) one by (simp add: open_buffer_def job_system_def back_quoted_def)
  ultimately show ?thesis by simp
qed

section \<open>The sample job\<close>

definition sample_canvas :: DGCanvas where
  "sample_canvas = \<lparr>cv_base = [128], cv_start = 0, cv_count = 1\<rparr>"

lemma job_templates:
  "dg_answer_template_range [sample_question] 1 0 1 [0] = Inr job_yes"
  "dg_answer_template_range [sample_question] 1 0 1 [1] = Inr job_no"
  by code_simp+

lemma job_group_run:
  "dg_job_group job_tokenizer [sample_question] 1 0 = Inr (sample_canvas, 16, [(0, [128, 129])])"
proof -
  have q: "dg_job_question job_tokenizer [sample_question] 0 1 [128] 0 = Inr (0, [128, 129])"
    using job_templates(2) job_tokens(3)
    by (simp add: dg_job_question_def rd_def sample_question_def upt_rec)
  show ?thesis
    using job_templates(1) job_tokens(2) q
    by (simp add: dg_job_group_def sample_canvas_def DG_CANVAS_TOKENS_def DG_CANVAS_ALIGN_def Let_def)
qed

lemma job_maxlen: "1 \<le> dt_maxlen job_tokenizer"
  using member_le_sum_list [of "length job_yes" "map length job_texts"] job_lengths
  by (simp add: job_tokenizer_def text_tokenizer_def Let_def job_texts_def del: upt_rec_numeral)

lemma sample_job:
  obtains g where "dg_job_prepare A job_tokenizer sample_request (length sample_request) = Inr g"
    "jo_w g = [sample_question]" "jo_cv g = [sample_canvas]" "jo_width g = 16" "jo_groups g = 1" "jo_group_cap g = 1"
    "jo_slot g = [0]" "jo_ids g = [[128, 129]]" "jo_max_reads g = 4" "jo_requested g = 0"
proof -
  let ?choice = "map dg_choice_candidate [0..<128]"
  from sample_run obtain r z where
    r: "dg_request_parse sample_request (length sample_request) = Inr r"
      "dg_questions r ?choice = Inr [sample_question]" "jt_obj_get (rq_qj r) (rq_qt r) 6 (str ''instructions'') = Inr (-1)"
      "dg_seed_json r = Inr z" "rq_requested r = 0" "rq_state r = [49]"
    by (auto simp: bindE_Inr_iff simp del: upt_rec_numeral str_simps)
  obtain seed where seed: "dg_request_seed r = Inr seed" using r(4) by (simp add: dg_request_seed_def Let_def)
  have sys: "dg_system_prompt (rq_qj r) (rq_qt r) [sample_question] = Inr job_system"
    by (rule job_system_run) (simp add: dg_instruction_def r(3) del: str_simps)
  have "length ?choice = DG_CHOICE_LABELS" by (simp add: DG_CHOICE_LABELS_def del: upt_rec_numeral)
  then have "dg_job_prepare_request A job_tokenizer r =
      dg_job_layout A job_tokenizer r seed [sample_question] job_system job_prefix [130] job_prompt [131]"
    using job_lengths
    unfolding dg_job_prepare_request_def seed job_choices bindE_simps r(2) sys job_prefix_run job_tokens(4) r(6) job_prompt_run job_tokens(5)
    using job_maxlen by (simp add: JB_MAX_CTX_def)
  moreover have "\<exists>g. dg_job_layout A job_tokenizer r seed [sample_question] job_system job_prefix [130] job_prompt [131] = Inr g \<and>
      jo_w g = [sample_question] \<and> jo_cv g = [sample_canvas] \<and> jo_width g = 16 \<and> jo_groups g = 1 \<and> jo_group_cap g = 1 \<and>
      jo_slot g = [0] \<and> jo_ids g = [[128, 129]] \<and> jo_max_reads g = 4 \<and> jo_requested g = 0"
    using job_group_run r(5)
    by (simp add: dg_job_layout_def Let_def upt_rec DG_CANVAS_ALIGN_def JB_MAX_CTX_def)
  ultimately show ?thesis using r(1) that by (auto simp: dg_job_prepare_def)
qed

section \<open>Witnesses\<close>

definition int_arith :: "int arith" where
  "int_arith = \<lparr>zero_d = 0, one_d = 1, of_nat_d = int, add_d = (+), sub_d = (-), mul_d = (*), div_d = (div),
     less_d = (<), exp_d = (\<lambda>x. x), log_d = (\<lambda>x. x), abs_d = abs, tiny_d = 0, finite_d = (\<lambda>_. True)\<rparr>"

theorem prepared_job_fits_witness:
  "\<exists>g. dg_job_prepare int_arith job_tokenizer sample_request (length sample_request) = Inr g \<and>
     jo_width g = 16 \<and> jo_width g * jo_groups g \<le> JB_MAX_CTX \<and> jo_slot g ! 0 < length (cv_base (jo_cv g ! 0))"
proof -
  obtain g where g: "dg_job_prepare int_arith job_tokenizer sample_request (length sample_request) = Inr g"
    "jo_width g = 16" "jo_w g = [sample_question]" using sample_job by metis
  from prepared_job_fits [OF g(1) job_tokenizer_ok] g show ?thesis by auto
qed

theorem label_token_exact_witness:
  "bindE (dg_answer_template_range [sample_question] 1 0 1 [1]) (dgt_tokenize job_tokenizer) = Inr [129]"
proof -
  obtain g where g: "dg_job_prepare int_arith job_tokenizer sample_request (length sample_request) = Inr g"
    "jo_w g = [sample_question]" "jo_cv g = [sample_canvas]" "jo_slot g = [0]" "jo_ids g = [[128, 129]]" "jo_group_cap g = 1"
    using sample_job by metis
  from label_token_exact [OF g(1) job_tokenizer_ok, of 0 1 sample_canvas] g(2-) show ?thesis
    by (simp add: sample_canvas_def sample_question_def)
qed

theorem read_canvas_exact_witness:
  "\<exists>g. dg_job_prepare int_arith job_tokenizer sample_request (length sample_request) = Inr g \<and>
     (case dg_job_canvas 4 g 0 of
        Inr dst \<Rightarrow> length dst = 16 \<and> 0 \<le> dst ! 0 \<and> dst ! 0 < int DG_VOCAB \<and> dst ! 1 = DG_CANVAS_MASK_TOKEN \<and> dst ! 2 = 0
      | Inl e \<Rightarrow> e = OutOfFuel)"
proof -
  obtain g where g: "dg_job_prepare int_arith job_tokenizer sample_request (length sample_request) = Inr g"
    "jo_w g = [sample_question]" "jo_cv g = [sample_canvas]" "jo_slot g = [0]" "jo_width g = 16" "jo_groups g = 1"
    using sample_job by metis
  from read_canvas_exact [OF g(1) job_tokenizer_ok, of 4 0] g show ?thesis
    by (auto simp: slot_at_def canvas_of_def sample_canvas_def split: sum.splits)
qed

end
