(* ===== verification/Answers.thy ===== *)
theory Answers
  imports Questions Scores Arena JobSample
begin

text \<open>
  The answers of a decision (\<open>src/decision.inc\<close>), in their two forms: the JSON of
  \<open>dg_format_answers\<close> and the typed result of \<open>dg_typed_answers\<close>, which the code builds
  independently of each other from the engine's probabilities. The last section shows that the JSON
  is what one prints from the typed result.

  How \<open>printf\<close> writes a double, and the names of version, mathematics and kernels, are the fields
  of \<open>printing\<close>. Times are arguments. A string of the typed result is its bytes: the block that
  holds all of them is measured (\<open>dg_typed_size\<close>), not laid out.
\<close>

section \<open>Printing\<close>

record 'd printing =
  pr_number :: "'d \<Rightarrow> bytes"
  pr_millis :: "'d \<Rightarrow> bytes"
  pr_version :: bytes
  pr_math :: bytes
  pr_kernels :: bytes
  pr_threads :: nat

definition db_millis :: "'d printing \<Rightarrow> DGBuf \<Rightarrow> 'd \<Rightarrow> DGBuf result" where
  "db_millis pr b ms = db_decimal b (take 63 (pr_millis pr ms)) (int (length (pr_millis pr ms)))"

definition db_json_token :: "bytes \<Rightarrow> JTok \<Rightarrow> DGBuf \<Rightarrow> DGBuf result" where
  "db_json_token j t b =
     (if jt_type t = JT_STRING then bindE (jt_string j t) (\<lambda>s. db_json_string b s False)
      else db_mem b (span_of j (jt_start t) (nat (jt_end t))))"

text \<open>Calls on the same buffer, one after the other.\<close>

fun put_all :: "(DGBuf \<Rightarrow> DGBuf result) list \<Rightarrow> DGBuf \<Rightarrow> DGBuf result" where
  "put_all [] b = Inr b"
| "put_all (w # ws) b = bindE (w b) (put_all ws)"

definition in_quotes :: "string \<Rightarrow> bytes" where
  "in_quotes s = [34] @ str s @ [34]"

text \<open>A comma, the quoted name, and a colon.\<close>

definition member :: "string \<Rightarrow> bytes" where
  "member s = str '','' @ in_quotes s @ str '':''"

abbreviation number :: "'d printing \<Rightarrow> 'd \<Rightarrow> DGBuf \<Rightarrow> DGBuf result" where
  "number pr v \<equiv> (\<lambda>b. db_number (pr_number pr) b v)"

abbreviation fmt :: "bytes \<Rightarrow> DGBuf \<Rightarrow> DGBuf result" where
  "fmt z \<equiv> (\<lambda>b. db_fmt b z)"

abbreviation mem :: "bytes \<Rightarrow> DGBuf \<Rightarrow> DGBuf result" where
  "mem z \<equiv> (\<lambda>b. db_mem b z)"

abbreviation string_to :: "bytes \<Rightarrow> DGBuf \<Rightarrow> DGBuf result" where
  "string_to z \<equiv> (\<lambda>b. db_json_string b z False)"

section \<open>The answers as JSON\<close>

definition format_noul :: "'d arith \<Rightarrow> 'd printing \<Rightarrow> DecisionWork \<Rightarrow> 'd list \<Rightarrow> DGBuf \<Rightarrow> DGBuf result" where
  "format_noul A pr d p b =
     bindE (rd p 0) (\<lambda>yes. bindE (rd p 1) (\<lambda>no.
       put_all [fmt (member ''noul''), number pr yes, fmt (member ''probabilities'' @ str ''{'' @ in_quotes ''true'' @ str '':''),
         number pr yes, fmt (member ''false''), number pr no, fmt (str ''}'' @ member ''confidence''),
         number pr (confidence A p)] b))"

text \<open>The first of the most probable candidates.\<close>

fun json_top :: "'d arith \<Rightarrow> 'd list \<Rightarrow> nat list \<Rightarrow> nat \<Rightarrow> nat" where
  "json_top A p [] best = best"
| "json_top A p (i # is) best = json_top A p is (if less_d A (p ! best) (p ! i) then i else best)"

fun choice_members :: "'d printing \<Rightarrow> (bytes \<times> 'd) list \<Rightarrow> nat \<Rightarrow> DGBuf \<Rightarrow> DGBuf result" where
  "choice_members pr [] i b = Inr b"
| "choice_members pr ((z, v) # ps) i b =
     bindE (put_all ((if i \<noteq> 0 then [\<lambda>b. db_ch b 44] else []) @ [string_to z, \<lambda>b. db_ch b 58, number pr v]) b)
       (choice_members pr ps (Suc i))"

definition format_choice :: "'d arith \<Rightarrow> 'd printing \<Rightarrow> DecisionWork \<Rightarrow> 'd list \<Rightarrow> DGBuf \<Rightarrow> DGBuf result" where
  "format_choice A pr d p b =
     bindE (rd (dw_cand d) (json_top A p [1..<dw_nc d] 0)) (\<lambda>chosen.
       put_all [mem (member ''choice''), string_to chosen, mem (member ''probabilities'' @ str ''{''),
         choice_members pr (zip (dw_cand d) p) 0, fmt (str ''}'' @ member ''confidence''), number pr (confidence A p)] b)"

fun legend :: "bytes \<Rightarrow> JTok list \<Rightarrow> int \<Rightarrow> nat list \<Rightarrow> nat \<Rightarrow> DGBuf \<Rightarrow> DGBuf result" where
  "legend qj qt criteria [] zc b = Inr b"
| "legend qj qt criteria (z # zs) zc b =
     (if jt_parent (qt ! z) = criteria then
        bindE (put_all [fmt ((if zc \<noteq> 0 then str '','' else []) @ [34] @ decimal zc @ [34] @ str '':''),
          db_json_token qj (qt ! z)] b) (legend qj qt criteria zs (Suc zc))
      else legend qj qt criteria zs zc b)"

fun score_members :: "'d printing \<Rightarrow> 'd list \<Rightarrow> nat \<Rightarrow> DGBuf \<Rightarrow> DGBuf result" where
  "score_members pr [] i b = Inr b"
| "score_members pr (v # vs) i b =
     bindE (put_all [fmt ((if i \<noteq> 0 then str '','' else []) @ [34] @ decimal i @ [34] @ str '':''), number pr v] b)
       (score_members pr vs (Suc i))"

definition json_score :: "'d arith \<Rightarrow> 'd list \<Rightarrow> 'd" where
  "json_score A p = fold (\<lambda>i ev. add_d A ev (mul_d A (of_nat_d A i) (p ! i))) [0..<length p] (zero_d A)"

definition format_score ::
  "'d arith \<Rightarrow> 'd printing \<Rightarrow> bytes \<Rightarrow> JTok list \<Rightarrow> DecisionWork \<Rightarrow> 'd list \<Rightarrow> DGBuf \<Rightarrow> DGBuf result" where
  "format_score A pr qj qt d p b =
     put_all [fmt (member ''score''), number pr (json_score A p), fmt (member ''legend'' @ str ''{''),
       legend qj qt (dw_criteria d) [nat (dw_criteria d + 1)..<length qt] 0, mem (str ''}'' @ member ''probabilities'' @ str ''{''),
       score_members pr p 0, fmt (str ''}'' @ member ''confidence''), number pr (confidence A p)] b"

text \<open>The answers of the questions with their probabilities, from number \<open>x\<close> on.\<close>

fun format_answers ::
  "'d arith \<Rightarrow> 'd printing \<Rightarrow> bytes \<Rightarrow> JTok list \<Rightarrow> (DecisionWork \<times> 'd list) list \<Rightarrow> nat \<Rightarrow> DGBuf \<Rightarrow> DGBuf result" where
  "format_answers A pr qj qt [] x b = Inr b"
| "format_answers A pr qj qt ((d, p) # ds) x b =
     bindE (put_all (if x \<noteq> 0 then [\<lambda>b. db_ch b 44] else []) b) (\<lambda>b.
     bindE (rd qt (dw_key d)) (\<lambda>t. bindE (jt_string qj t) (\<lambda>k.
     bindE (put_all [string_to k, mem (str '':{'' @ in_quotes ''type'' @ str '':''), string_to (dw_kind d),
       if dw_kind d = str ''noul'' then format_noul A pr d p
       else if dw_kind d = str ''choice'' then format_choice A pr d p
       else format_score A pr qj qt d p,
       \<lambda>b. db_ch b 125] b) (format_answers A pr qj qt ds (Suc x)))))"

record 'd timing =
  ti_total :: 'd
  ti_prefill :: 'd
  ti_candidates :: 'd

definition dg_format_answers ::
  "'d arith \<Rightarrow> 'd printing \<Rightarrow> bytes \<Rightarrow> JTok list \<Rightarrow> DecisionWork list \<Rightarrow> 'd list list \<Rightarrow> bytes option \<Rightarrow> nat \<Rightarrow> 'd timing \<Rightarrow>
     nat \<Rightarrow> nat \<Rightarrow> bytes \<Rightarrow> nat \<Rightarrow> nat \<Rightarrow> nat \<Rightarrow> bytes result" where
  "dg_format_answers A pr qj qt w prob ident tokens ti reads canvases cache_state cache_tokens processed microbatch =
     bindE (put_all
       ([fmt (str ''{'' @ in_quotes ''model'' @ str '':'' @ [34] @ str ''jev-bush-diffusion-'' @ pr_version pr @ [34] @
           member ''math'' @ [34] @ pr_math pr @ [34] @ member ''kernels'' @ [34] @ pr_kernels pr @ [34] @
           member ''threads'' @ decimal (pr_threads pr) @ str '','')] @
        (case ident of None \<Rightarrow> [] | Some z \<Rightarrow> [mem (in_quotes ''id'' @ str '':''), string_to z, \<lambda>b. db_ch b 44]) @
        [mem (in_quotes ''answers'' @ str '':{''),
         format_answers A pr qj qt (zip w prob) 0,
         fmt (str ''}'' @ member ''usage'' @ str ''{'' @ in_quotes ''input_tokens'' @ str '':'' @ decimal tokens @
           member ''output_tokens'' @ str ''0'' @ member ''prefill_tokens'' @ decimal processed @ str ''}'' @
           member ''timing_ms'' @ str ''{'' @ in_quotes ''total'' @ str '':''),
         \<lambda>b. db_millis pr b (ti_total ti), fmt (member ''prefill''),
         \<lambda>b. db_millis pr b (ti_prefill ti), fmt (member ''decode''),
         \<lambda>b. db_millis pr b (sub_d A (sub_d A (ti_total ti) (ti_prefill ti)) (ti_candidates ti)), fmt (member ''candidates''),
         \<lambda>b. db_millis pr b (ti_candidates ti),
         fmt (member ''reads'' @ decimal reads @ member ''canvases'' @ decimal canvases @ member ''microbatch'' @
           decimal microbatch @ member ''prefix_cache'' @ [34] @ cache_state @ [34] @ member ''cache_tokens'' @
           decimal cache_tokens @ str ''}}'')]) db_empty) (\<lambda>b. Inr (db_p b))"

section \<open>The answers as values\<close>

datatype jb_decision_type = JB_DECISION_BOOLEAN | JB_DECISION_CHOICE | JB_DECISION_SCORE

record 'd jb_answer =
  an_id :: bytes
  an_type :: jb_decision_type
  an_probabilities :: "(bytes \<times> 'd) list"
  an_selected :: nat
  an_expected :: 'd
  an_confidence :: 'd

record 'd jb_result =
  re_answers :: "'d jb_answer list"
  re_input_tokens :: nat
  re_prefill_tokens :: nat
  re_timing :: "'d timing"

text \<open>The bytes of the one block; the sizes and alignments are those of the structures on 64 bits.\<close>

fun typed_strings :: "bytes \<Rightarrow> JTok list \<Rightarrow> DecisionWork list \<Rightarrow> nat \<Rightarrow> nat \<Rightarrow> (nat \<times> nat) result" where
  "typed_strings qj qt [] probabilities strings = Inr (probabilities, strings)"
| "typed_strings qj qt (d # w) probabilities strings =
     bindE (rd qt (dw_key d)) (\<lambda>t. bindE (jt_string qj t) (\<lambda>z.
     bindE (jb_size_add strings (length z + 1)) (\<lambda>strings.
     bindE (jb_size_add probabilities (dw_nc d)) (\<lambda>probabilities.
     bindE (fold (\<lambda>c m. bindE m (\<lambda>n. jb_size_add n (length c + 1))) (dw_cand d) (Inr strings))
       (typed_strings qj qt w probabilities)))))"

definition dg_typed_size :: "bytes \<Rightarrow> JTok list \<Rightarrow> DecisionWork list \<Rightarrow> nat result" where
  "dg_typed_size qj qt w =
     bindE (typed_strings qj qt w 0 0) (\<lambda>(probabilities, strings).
     bindE (jb_align_up 48 8) (\<lambda>n.
     bindE (jb_size_mul (length w) 64) (\<lambda>a. bindE (jb_size_add n a) (\<lambda>n.
     bindE (jb_align_up n 8) (\<lambda>n.
     bindE (jb_size_mul probabilities 24) (\<lambda>a. bindE (jb_size_add n a) (\<lambda>n.
       jb_size_add n strings)))))))"

text \<open>The loop over the candidates: the best probability so far and its index, and the expected score.\<close>

fun typed_pick :: "'d arith \<Rightarrow> bool \<Rightarrow> 'd list \<Rightarrow> nat \<Rightarrow> 'd \<Rightarrow> nat \<Rightarrow> 'd \<Rightarrow> nat \<times> 'd" where
  "typed_pick A scored [] c best selected expected = (selected, expected)"
| "typed_pick A scored (v # vs) c best selected expected =
     (let better = less_d A best v in
      typed_pick A scored vs (Suc c) (if better then v else best) (if better then c else selected)
        (if scored then add_d A expected (mul_d A (of_nat_d A c) v) else expected))"

definition minus_one :: "'d arith \<Rightarrow> 'd" where
  "minus_one A = sub_d A (zero_d A) (one_d A)"

definition typed_answer :: "'d arith \<Rightarrow> bytes \<Rightarrow> JTok list \<Rightarrow> DecisionWork \<Rightarrow> 'd list \<Rightarrow> 'd jb_answer result" where
  "typed_answer A qj qt d p =
     bindE (rd qt (dw_key d)) (\<lambda>t. bindE (jt_string qj t) (\<lambda>z.
       let type = (if dw_kind d = str ''noul'' then JB_DECISION_BOOLEAN
                   else if dw_kind d = str ''choice'' then JB_DECISION_CHOICE else JB_DECISION_SCORE);
           (selected, expected) = typed_pick A (type = JB_DECISION_SCORE) p 0 (minus_one A) 0 (zero_d A)
       in Inr \<lparr>an_id = z, an_type = type, an_probabilities = zip (dw_cand d) p, an_selected = selected,
            an_expected = expected, an_confidence = confidence A p\<rparr>))"

definition dg_typed_answers ::
  "'d arith \<Rightarrow> bytes \<Rightarrow> JTok list \<Rightarrow> DecisionWork list \<Rightarrow> 'd list list \<Rightarrow> nat \<Rightarrow> nat \<Rightarrow> 'd timing \<Rightarrow> 'd jb_result result" where
  "dg_typed_answers A qj qt w prob input_tokens prefill_tokens ti =
     bindE (dg_typed_size qj qt w) (\<lambda>nbytes.
     bindE (collect (\<lambda>(d, p). typed_answer A qj qt d p) (zip w prob)) (\<lambda>answers.
       Inr \<lparr>re_answers = answers, re_input_tokens = input_tokens, re_prefill_tokens = prefill_tokens, re_timing = ti\<rparr>))"

section \<open>One from the other\<close>

text \<open>The JSON of a typed answer; a score's legend is the question's.\<close>

definition print_answer ::
  "'d printing \<Rightarrow> bytes \<Rightarrow> JTok list \<Rightarrow> int \<Rightarrow> bytes \<Rightarrow> 'd jb_answer \<Rightarrow> DGBuf \<Rightarrow> DGBuf result" where
  "print_answer pr qj qt criteria kind a =
     (let probability = map snd (an_probabilities a) in
      put_all [string_to (an_id a), mem (str '':{'' @ in_quotes ''type'' @ str '':''), string_to kind,
       put_all ((case an_type a of
         JB_DECISION_BOOLEAN \<Rightarrow>
           [fmt (member ''noul''), number pr (probability ! 0), fmt (member ''probabilities'' @ str ''{'' @ in_quotes ''true'' @ str '':''),
            number pr (probability ! 0), fmt (member ''false''), number pr (probability ! 1)]
       | JB_DECISION_CHOICE \<Rightarrow>
           [mem (member ''choice''), string_to (fst (an_probabilities a ! an_selected a)),
            mem (member ''probabilities'' @ str ''{''), choice_members pr (an_probabilities a) 0]
       | JB_DECISION_SCORE \<Rightarrow>
           [fmt (member ''score''), number pr (an_expected a), fmt (member ''legend'' @ str ''{''),
            legend qj qt criteria [nat (criteria + 1)..<length qt] 0, mem (str ''}'' @ member ''probabilities'' @ str ''{''),
            score_members pr probability 0]) @
         [fmt (str ''}'' @ member ''confidence''), number pr (an_confidence a)]),
       \<lambda>b. db_ch b 125])"

fun print_answers ::
  "'d printing \<Rightarrow> bytes \<Rightarrow> JTok list \<Rightarrow> (DecisionWork \<times> 'd jb_answer) list \<Rightarrow> nat \<Rightarrow> DGBuf \<Rightarrow> DGBuf result" where
  "print_answers pr qj qt [] x b = Inr b"
| "print_answers pr qj qt ((d, a) # ds) x b =
     bindE (put_all (if x \<noteq> 0 then [\<lambda>b. db_ch b 44] else []) b) (\<lambda>b.
     bindE (print_answer pr qj qt (dw_criteria d) (dw_kind d) a b) (print_answers pr qj qt ds (Suc x)))"

lemma typed_pick_expected:
  "snd (typed_pick A True vs c best s e) = fold (\<lambda>i ev. add_d A ev (mul_d A (of_nat_d A (c + i)) (vs ! i))) [0..<length vs] e"
proof (induction vs arbitrary: c best s e)
  case (Cons v vs)
  have "[0..<length (v # vs)] = 0 # map Suc [0..<length vs]" by (simp add: map_Suc_upt upt_conv_Cons del: upt_Suc)
  then show ?case by (simp add: Cons fold_map comp_def Let_def del: upt_Suc)
qed simp

text \<open>The candidate that the typed result selects is the one that the JSON names.\<close>

lemma typed_pick_from:
  "s < length xs \<Longrightarrow> p = xs @ vs \<Longrightarrow>
     fst (typed_pick A scored vs (length xs) (p ! s) s e) = json_top A p [length xs..<length p] s"
proof (induction vs arbitrary: xs s e)
  case (Cons v vs)
  have p: "p = (xs @ [v]) @ vs" "p ! length xs = v" using Cons.prems(2) by simp_all
  have u: "[length xs..<length p] = length xs # [length (xs @ [v])..<length p]"
    using Cons.prems(2) by (simp add: upt_conv_Cons del: upt_Suc)
  have i: "fst (typed_pick A scored vs (Suc (length xs)) (p ! r) r e) = json_top A p [length (xs @ [v])..<length p] r"
    if "r \<le> length xs" for r e
    using Cons.IH [of r "xs @ [v]" e] p(1) that by simp
  show ?case unfolding u json_top.simps typed_pick.simps Let_def p(2)
    using i [of "length xs"] i [of s] Cons.prems(1) unfolding p(2) by simp
qed simp

lemma typed_pick_selected:
  assumes "less_d A (minus_one A) (p ! 0)" "p \<noteq> []"
  shows "fst (typed_pick A scored p 0 (minus_one A) 0 e) = json_top A p [1..<length p] 0"
proof -
  obtain v vs where p: "p = v # vs" using assms(2) by (cases p) auto
  then have "fst (typed_pick A scored p 0 (minus_one A) 0 e) =
      fst (typed_pick A scored vs (length [v]) (p ! 0) 0 (if scored then add_d A e (mul_d A (of_nat_d A 0) v) else e))"
    using assms(1) by (simp add: Let_def)
  also have "\<dots> = json_top A p [length [v]..<length p] 0" using p by (intro typed_pick_from) simp_all
  finally show ?thesis by simp
qed

lemma json_top_bound: "\<forall>i \<in> set is. i < n \<Longrightarrow> best < n \<Longrightarrow> json_top A p is best < n"
  by (induction "is" arbitrary: best) auto

lemma print_exact:
  assumes "typed_answer A qj qt d p = Inr a" "length p = dw_nc d" "2 \<le> dw_nc d" "less_d A (minus_one A) (p ! 0)"
  shows "bindE (rd qt (dw_key d)) (\<lambda>t. bindE (jt_string qj t) (\<lambda>k.
     put_all [string_to k, mem (str '':{'' @ in_quotes ''type'' @ str '':''), string_to (dw_kind d),
       if dw_kind d = str ''noul'' then format_noul A pr d p
       else if dw_kind d = str ''choice'' then format_choice A pr d p
       else format_score A pr qj qt d p,
       \<lambda>b. db_ch b 125] b)) = print_answer pr qj qt (dw_criteria d) (dw_kind d) a b"
proof -
  have p: "p \<noteq> []" "0 < length p" "Suc 0 < length p" using assms(2,3) by auto
  have t: "json_top A p [1..<dw_nc d] 0 < dw_nc d" using assms(3) by (intro json_top_bound) auto
  have sel: "fst (typed_pick A s p 0 (minus_one A) 0 e) = json_top A p [1..<dw_nc d] 0" for s e
    using typed_pick_selected [OF assms(4) p(1)] assms(2) by simp
  have sc: "snd (typed_pick A True p 0 best s (zero_d A)) = json_score A p" for best s
    by (simp add: typed_pick_expected json_score_def)
  from assms(1) obtain k z where k: "rd qt (dw_key d) = Inr k" "jt_string qj k = Inr z"
    unfolding typed_answer_def bindE_Inr_iff by blast
  define type where "type = (if dw_kind d = str ''noul'' then JB_DECISION_BOOLEAN
         else if dw_kind d = str ''choice'' then JB_DECISION_CHOICE else JB_DECISION_SCORE)"
  let ?pick = "typed_pick A (type = JB_DECISION_SCORE) p 0 (minus_one A) 0 (zero_d A)"
  have a: "a = \<lparr>an_id = z, an_type = type, an_probabilities = zip (dw_cand d) p, an_selected = fst ?pick,
      an_expected = snd ?pick, an_confidence = confidence A p\<rparr>"
    using assms(1) k unfolding typed_answer_def Let_def type_def [symmetric] case_prod_unfold by simp
  have m: "map snd (zip (dw_cand d) p) = p" using assms(2) by simp
  have r: "rd p 0 = Inr (p ! 0)" "rd p 1 = Inr (p ! 1)" using p by simp_all
  have lhs: "(if dw_kind d = str ''noul'' then format_noul A pr d p
       else if dw_kind d = str ''choice'' then format_choice A pr d p
       else format_score A pr qj qt d p) =
     put_all ((case type of
         JB_DECISION_BOOLEAN \<Rightarrow>
           [fmt (member ''noul''), number pr (p ! 0), fmt (member ''probabilities'' @ str ''{'' @ in_quotes ''true'' @ str '':''),
            number pr (p ! 0), fmt (member ''false''), number pr (p ! 1)]
       | JB_DECISION_CHOICE \<Rightarrow>
           [mem (member ''choice''), string_to (dw_cand d ! json_top A p [1..<dw_nc d] 0),
            mem (member ''probabilities'' @ str ''{''), choice_members pr (zip (dw_cand d) p) 0]
       | JB_DECISION_SCORE \<Rightarrow>
           [fmt (member ''score''), number pr (json_score A p), fmt (member ''legend'' @ str ''{''),
            legend qj qt (dw_criteria d) [nat (dw_criteria d + 1)..<length qt] 0, mem (str ''}'' @ member ''probabilities'' @ str ''{''),
            score_members pr p 0]) @ [fmt (str ''}'' @ member ''confidence''), number pr (confidence A p)])"
    unfolding type_def
    by (rule ext) (simp add: format_noul_def format_choice_def format_score_def r rd_in [OF t] del: str_simps One_nat_def)
  have n: "fst (zip (dw_cand d) p ! json_top A p [1..<dw_nc d] 0) = dw_cand d ! json_top A p [1..<dw_nc d] 0"
    using t assms(2) by simp
  show ?thesis unfolding k bindE_simps lhs print_answer_def Let_def a jb_answer.simps m sel n
    by (cases type) (simp_all add: sc del: str_simps)
qed


text \<open>The whole JSON of a typed result, and what only the JSON says.\<close>

definition print_result ::
  "'d arith \<Rightarrow> 'd printing \<Rightarrow> bytes \<Rightarrow> JTok list \<Rightarrow> DecisionWork list \<Rightarrow> bytes option \<Rightarrow> nat \<Rightarrow> nat \<Rightarrow> bytes \<Rightarrow> nat \<Rightarrow> nat \<Rightarrow>
     'd jb_result \<Rightarrow> bytes result" where
  "print_result A pr qj qt w ident reads canvases cache_state cache_tokens microbatch r =
     bindE (put_all
       ([fmt (str ''{'' @ in_quotes ''model'' @ str '':'' @ [34] @ str ''jev-bush-diffusion-'' @ pr_version pr @ [34] @
           member ''math'' @ [34] @ pr_math pr @ [34] @ member ''kernels'' @ [34] @ pr_kernels pr @ [34] @
           member ''threads'' @ decimal (pr_threads pr) @ str '','')] @
        (case ident of None \<Rightarrow> [] | Some z \<Rightarrow> [mem (in_quotes ''id'' @ str '':''), string_to z, \<lambda>b. db_ch b 44]) @
        [mem (in_quotes ''answers'' @ str '':{''),
         print_answers pr qj qt (zip w (re_answers r)) 0,
         fmt (str ''}'' @ member ''usage'' @ str ''{'' @ in_quotes ''input_tokens'' @ str '':'' @ decimal (re_input_tokens r) @
           member ''output_tokens'' @ str ''0'' @ member ''prefill_tokens'' @ decimal (re_prefill_tokens r) @ str ''}'' @
           member ''timing_ms'' @ str ''{'' @ in_quotes ''total'' @ str '':''),
         \<lambda>b. db_millis pr b (ti_total (re_timing r)), fmt (member ''prefill''),
         \<lambda>b. db_millis pr b (ti_prefill (re_timing r)), fmt (member ''decode''),
         \<lambda>b. db_millis pr b (sub_d A (sub_d A (ti_total (re_timing r)) (ti_prefill (re_timing r))) (ti_candidates (re_timing r))),
         fmt (member ''candidates''), \<lambda>b. db_millis pr b (ti_candidates (re_timing r)),
         fmt (member ''reads'' @ decimal reads @ member ''canvases'' @ decimal canvases @ member ''microbatch'' @
           decimal microbatch @ member ''prefix_cache'' @ [34] @ cache_state @ [34] @ member ''cache_tokens'' @
           decimal cache_tokens @ str ''}}'')]) db_empty) (\<lambda>b. Inr (db_p b))"

definition answerable :: "'d arith \<Rightarrow> DecisionWork \<Rightarrow> 'd list \<Rightarrow> bool" where
  "answerable A d p \<longleftrightarrow> length p = dw_nc d \<and> 2 \<le> dw_nc d \<and> less_d A (minus_one A) (p ! 0)"

lemma format_print:
  "list_all2 (answerable A) w prob \<Longrightarrow> collect (\<lambda>(d, p). typed_answer A qj qt d p) (zip w prob) = Inr as \<Longrightarrow>
     format_answers A pr qj qt (zip w prob) x b = print_answers pr qj qt (zip w as) x b"
proof (induction w prob arbitrary: as x b rule: list_all2_induct)
  case (Cons d w p prob)
  then obtain a as' where a: "typed_answer A qj qt d p = Inr a" "as = a # as'"
    and as: "collect (\<lambda>(d, p). typed_answer A qj qt d p) (zip w prob) = Inr as'" by (auto simp: bindE_Inr_iff)
  have e: "format_answers A pr qj qt (zip w prob) y c = print_answers pr qj qt (zip w as') y c" for y c
    by (rule Cons.IH [OF as])
  note print_exact [OF a(1), symmetric]
  with Cons.hyps(1) show ?case unfolding a(2)
    by (auto simp: answerable_def bindE_assoc e [abs_def] simp del: put_all.simps str_simps intro!: bindE_cong)
qed simp

text \<open>
  C37. The two forms of an answer agree: the JSON of a decision is the one that prints its typed
  result, question by question, the chosen candidate from the selected index and the score from the
  expected one, followed by the same usage and times; so an accepted request is told the same in both.
  The first probability of every question must lie above -1, where the typed search starts.
\<close>

theorem json_from_typed:
  assumes "dg_typed_answers A qj qt w prob tokens processed ti = Inr r" "list_all2 (answerable A) w prob"
  shows "dg_format_answers A pr qj qt w prob ident tokens ti reads canvases cache_state cache_tokens processed microbatch =
    print_result A pr qj qt w ident reads canvases cache_state cache_tokens microbatch r"
proof -
  from assms(1) obtain as where as: "collect (\<lambda>(d, p). typed_answer A qj qt d p) (zip w prob) = Inr as"
    and r: "r = \<lparr>re_answers = as, re_input_tokens = tokens, re_prefill_tokens = processed, re_timing = ti\<rparr>"
    unfolding dg_typed_answers_def bindE_Inr_iff by blast
  have "format_answers A pr qj qt (zip w prob) 0 = print_answers pr qj qt (zip w as) 0"
    by (rule ext) (rule format_print [OF assms(2) as])
  then show ?thesis unfolding dg_format_answers_def print_result_def r by simp
qed

definition sample_decision :: DecisionWork where
  "sample_decision = \<lparr>dw_key = 0, dw_criteria = -1, dw_kind = str ''choice'', dw_cand = [str ''x'', str ''y''], dw_label = []\<rparr>"

theorem json_from_typed_witness:
  "\<exists>r. dg_typed_answers int_arith (str ''a'') [\<lparr>jt_type = JT_STRING, jt_start = 0, jt_end = 1, jt_parent = -1, jt_size = 0\<rparr>]
       [sample_decision] [[1, 3]] 7 5 \<lparr>ti_total = 9, ti_prefill = 4, ti_candidates = 1\<rparr> = Inr r \<and>
     an_selected (re_answers r ! 0) = 1 \<and>
     (\<forall>pr. dg_format_answers int_arith pr (str ''a'') [\<lparr>jt_type = JT_STRING, jt_start = 0, jt_end = 1, jt_parent = -1, jt_size = 0\<rparr>]
       [sample_decision] [[1, 3]] None 7 \<lparr>ti_total = 9, ti_prefill = 4, ti_candidates = 1\<rparr> 1 1 (str ''off'') 0 5 1 =
      print_result int_arith pr (str ''a'') [\<lparr>jt_type = JT_STRING, jt_start = 0, jt_end = 1, jt_parent = -1, jt_size = 0\<rparr>]
       [sample_decision] None 1 1 (str ''off'') 0 1 r)"
proof -
  have t: "dg_typed_answers int_arith (str ''a'') [\<lparr>jt_type = JT_STRING, jt_start = 0, jt_end = 1, jt_parent = -1, jt_size = 0\<rparr>]
       [sample_decision] [[1, 3]] 7 5 \<lparr>ti_total = 9, ti_prefill = 4, ti_candidates = 1\<rparr> =
     Inr \<lparr>re_answers = [\<lparr>an_id = str ''a'', an_type = JB_DECISION_CHOICE, an_probabilities = [(str ''x'', 1), (str ''y'', 3)],
        an_selected = 1, an_expected = 0, an_confidence = 1\<rparr>],
      re_input_tokens = 7, re_prefill_tokens = 5, re_timing = \<lparr>ti_total = 9, ti_prefill = 4, ti_candidates = 1\<rparr>\<rparr>"
    by code_simp
  have "list_all2 (answerable int_arith) [sample_decision] [[1, 3]]"
    by (simp add: answerable_def sample_decision_def minus_one_def int_arith_def)
  from json_from_typed [OF t this] t show ?thesis by simp
qed

end
