(* ===== verification/Workspace.thy ===== *)
theory Workspace
  imports Execute JobProofs
begin

text \<open>
  The workspaces of a session (\<open>src/engine.inc\<close>): an arena for the rows of a forward pass, one for
  the K/V of a request and one for the tables of a microbatch. Each grows only, is planned before
  its use, and is checked after it: it must be empty again, or still hold all that was planned, and
  its peak must be the plan.

  The first part is the plans; the second what the passes take of the arena, in the order of the
  code; the third shows that the plan of every pass is exact, so that the check after it succeeds.
  The accelerator's memory is left out; the plans have its case, the passes are those of the CPU.
\<close>

section \<open>Plans\<close>

abbreviation plan :: "nat \<Rightarrow> request list \<Rightarrow> nat result" where
  "plan \<equiv> plan_all (\<lambda>u r. jb_workspace_plan u (fst r) (snd r))"

definition dg_attention_workspace_bytes :: "nat \<Rightarrow> nat \<Rightarrow> nat \<Rightarrow> nat \<Rightarrow> bool \<Rightarrow> bool \<Rightarrow> nat result" where
  "dg_attention_workspace_bytes n old seq segments wrapper accel =
     (let qn = DG_HEADS * DG_FULL_HEAD_DIM; kn = DG_FULL_KV_HEADS * DG_FULL_HEAD_DIM in
      plan 0 ((if wrapper \<and> segments > 1 then [(segments, 8), (segments, 4)] else []) @
        (if accel then [(n * DG_FULL_HEAD_DIM, 4), (segments, 4), (segments, 4)]
         else [(n * qn, 4), (n * kn, 4), (n * kn, 4), (n * qn, 4), (n * (old + seq), 4)])))"

definition dg_ff_workspace_bytes :: "bool \<Rightarrow> bool \<Rightarrow> nat \<Rightarrow> nat result" where
  "dg_ff_workspace_bytes nvfp4 accel n =
     (if accel then Inr 0
      else plan 0 ([(n * DG_H, 4), (n * DG_DENSE, 4), (n * DG_DENSE, 4), (n * DG_H, 4), (n * DG_H, 4), (n * DG_H, 4),
        (n * DG_EXPERTS, 4), (n * DG_TOPK, 4), (n * DG_TOPK, 4), (n * DG_TOPK * DG_H, 4), (n * DG_H, 4),
        (n * DG_EXPERT_PAIR, 4), (n * DG_MOE, 4), (n * DG_H, 4)] @
        (if nvfp4 then [(n * DG_H, 4)] else []) @ [(n * 2, 4)] @
        (if nvfp4 then [(n * DG_MOE, 4)] else []) @ [(DG_H, 4), (DG_H, 4)]))"

definition dg_workspace_bytes :: "bool \<Rightarrow> bool \<Rightarrow> nat \<Rightarrow> nat \<Rightarrow> nat \<Rightarrow> nat \<Rightarrow> bool \<Rightarrow> nat result" where
  "dg_workspace_bytes nvfp4 accel n old seq segments wrapper =
     bindE (plan 0 (if \<not> accel then [(n * DG_H, 4), (n * DG_H, 4)] else [])) (\<lambda>persistent.
     bindE (dg_attention_workspace_bytes n old seq segments wrapper accel) (\<lambda>attention.
     bindE (dg_ff_workspace_bytes nvfp4 accel n) (\<lambda>ff.
       jb_size_add persistent (if attention > ff then attention else ff))))"

definition dg_forward_workspace_bytes :: "bool \<Rightarrow> bool \<Rightarrow> nat \<Rightarrow> nat \<Rightarrow> nat \<Rightarrow> nat \<Rightarrow> bool \<Rightarrow> nat \<Rightarrow> nat result" where
  "dg_forward_workspace_bytes nvfp4 accel n old seq segments wrapper tail =
     bindE (plan 0 [(n * DG_H, 4)]) (\<lambda>output.
     bindE (dg_workspace_bytes nvfp4 accel n old seq segments wrapper) (\<lambda>layers.
       jb_size_add output (if layers > tail then layers else tail)))"

fun kv_layers :: "nat \<Rightarrow> nat list \<Rightarrow> nat \<Rightarrow> nat result" where
  "kv_layers len [] bytes = Inr bytes"
| "kv_layers len (l # ls) bytes =
     bindE (jb_size_mul len (dg_kv_width l)) (\<lambda>cnt.
     bindE (jb_workspace_plan bytes cnt 4) (\<lambda>bytes.
     bindE (jb_workspace_plan bytes cnt 4) (kv_layers len ls)))"

fun kv_documents :: "nat list \<Rightarrow> nat \<Rightarrow> nat result" where
  "kv_documents [] bytes = Inr bytes"
| "kv_documents (len # lens) bytes = bindE (kv_layers len [0..<DG_L] bytes) (kv_documents lens)"

definition dg_kv_bytes :: "nat list \<Rightarrow> nat result" where
  "dg_kv_bytes lengths = (if length lengths < 1 then die ''invalid K/V document count'' else kv_documents lengths 0)"

section \<open>The session's arenas\<close>

record DGWorkspace =
  ws_arena :: JBArena
  ws_kv_arena :: JBArena
  ws_control_arena :: JBArena
  ws_capacity :: nat
  ws_kv_capacity :: nat
  ws_control_capacity :: nat
  ws_active :: bool
  ws_kv_active :: bool
  ws_control_active :: bool

definition dg_workspace_begin :: "DGWorkspace \<Rightarrow> nat \<Rightarrow> DGWorkspace result" where
  "dg_workspace_begin w required =
     (if ws_active w then die_status JB_ERROR_INTERNAL ''inference workspace is already active''
      else bindE (jb_arena_reserve (ws_arena w) (ws_capacity w) required) (\<lambda>(a, capacity).
        Inr (w\<lparr>ws_arena := a, ws_capacity := capacity, ws_active := True\<rparr>)))"

definition dg_workspace_end :: "DGWorkspace \<Rightarrow> DGWorkspace result" where
  "dg_workspace_end w =
     (if \<not> ws_active w \<or> arena_used (ws_arena w) \<noteq> 0 \<or> arena_peak (ws_arena w) \<noteq> arena_size (ws_arena w)
      then die_status JB_ERROR_INTERNAL ''inference workspace plan mismatch''
      else Inr (w\<lparr>ws_active := False\<rparr>))"

definition dg_control_begin :: "DGWorkspace \<Rightarrow> nat \<Rightarrow> DGWorkspace result" where
  "dg_control_begin w required =
     (if ws_control_active w then die_status JB_ERROR_INTERNAL ''worker control storage is already active''
      else bindE (jb_arena_reserve (ws_control_arena w) (ws_control_capacity w) required) (\<lambda>(a, capacity).
        Inr (w\<lparr>ws_control_arena := a, ws_control_capacity := capacity, ws_control_active := True\<rparr>)))"

definition dg_control_end :: "DGWorkspace \<Rightarrow> DGWorkspace result" where
  "dg_control_end w =
     (if \<not> ws_control_active w \<or> arena_used (ws_control_arena w) \<noteq> arena_size (ws_control_arena w) \<or>
         arena_peak (ws_control_arena w) \<noteq> arena_size (ws_control_arena w)
      then die_status JB_ERROR_INTERNAL ''corrupt worker control storage''
      else Inr (w\<lparr>ws_control_active := False\<rparr>))"

definition dg_workspace_destroy :: "DGWorkspace \<Rightarrow> DGWorkspace" where
  "dg_workspace_destroy w = \<lparr>ws_arena = arena_zero, ws_kv_arena = arena_zero, ws_control_arena = arena_zero,
     ws_capacity = 0, ws_kv_capacity = 0, ws_control_capacity = 0,
     ws_active = False, ws_kv_active = False, ws_control_active = False\<rparr>"

definition dg_decode_end :: "DGWorkspace \<Rightarrow> DGWorkspace result" where
  "dg_decode_end w =
     bindE (jb_arena_reset (ws_arena w) 0) (\<lambda>a. dg_workspace_end (w\<lparr>ws_arena := a\<rparr>))"

text \<open>The slots of every document's and layer's K and V; their offsets, and the arena after them.\<close>

record kv_slot =
  ks_n :: nat
  ks_k :: nat
  ks_v :: nat

fun kv_bind_layers :: "JBArena \<Rightarrow> nat \<Rightarrow> nat list \<Rightarrow> (kv_slot list \<times> JBArena) result" where
  "kv_bind_layers a len [] = Inr ([], a)"
| "kv_bind_layers a len (l # ls) =
     bindE (jb_size_mul len (dg_kv_width l)) (\<lambda>cnt.
     bindE (jb_arena_alloc a cnt 4) (\<lambda>(k, a).
     bindE (jb_arena_alloc a cnt 4) (\<lambda>(v, a).
     bindE (kv_bind_layers a len ls) (\<lambda>(one, a). Inr (\<lparr>ks_n = len, ks_k = k, ks_v = v\<rparr> # one, a)))))"

fun kv_bind_documents :: "JBArena \<Rightarrow> nat list \<Rightarrow> (kv_slot list list \<times> JBArena) result" where
  "kv_bind_documents a [] = Inr ([], a)"
| "kv_bind_documents a (len # lens) =
     bindE (kv_bind_layers a len [0..<DG_L]) (\<lambda>(one, a).
     bindE (kv_bind_documents a lens) (\<lambda>(kv, a). Inr (one # kv, a)))"

definition dg_kv_bind :: "JBArena \<Rightarrow> nat list \<Rightarrow> (kv_slot list list \<times> JBArena) result" where
  "dg_kv_bind storage lengths =
     bindE (kv_bind_documents storage lengths) (\<lambda>(kv, a).
       if arena_peak a \<noteq> arena_size a then die ''K/V storage plan mismatch'' else Inr (kv, a))"

definition dg_kv_init :: "JBArena \<Rightarrow> nat list \<Rightarrow> (kv_slot list list \<times> JBArena) result" where
  "dg_kv_init storage lengths =
     (if arena_allocated storage then die ''K/V storage initialized twice''
      else bindE (dg_kv_bytes lengths) (\<lambda>bytes. bindE (jb_arena_init bytes) (\<lambda>a. dg_kv_bind a lengths)))"

definition dg_kv_free :: "JBArena \<Rightarrow> JBArena" where
  "dg_kv_free storage = (if arena_allocated storage then jb_arena_free storage else storage)"

definition dg_worker_kv_begin :: "DGWorkspace \<Rightarrow> nat list \<Rightarrow> (kv_slot list list \<times> DGWorkspace) result" where
  "dg_worker_kv_begin w lengths =
     (if ws_kv_active w then die_status JB_ERROR_INTERNAL ''worker K/V storage is already active''
      else bindE (dg_kv_bytes lengths) (\<lambda>required.
        bindE (jb_arena_reserve (ws_kv_arena w) (ws_kv_capacity w) required) (\<lambda>(a, capacity).
        bindE (dg_kv_bind a lengths) (\<lambda>(kv, a).
          Inr (kv, w\<lparr>ws_kv_arena := a, ws_kv_capacity := capacity, ws_kv_active := True\<rparr>)))))"

definition dg_worker_kv_end :: "DGWorkspace \<Rightarrow> DGWorkspace result" where
  "dg_worker_kv_end w =
     (if \<not> ws_kv_active w \<or> arena_used (ws_kv_arena w) \<noteq> arena_size (ws_kv_arena w) \<or>
         arena_peak (ws_kv_arena w) \<noteq> arena_size (ws_kv_arena w)
      then die_status JB_ERROR_INTERNAL ''corrupt worker K/V ownership''
      else Inr (w\<lparr>ws_kv_active := False\<rparr>))"

section \<open>What a pass takes\<close>

definition alloc_seq :: "request list \<Rightarrow> JBArena \<Rightarrow> JBArena result" where
  "alloc_seq rs a = bindE (alloc_all (\<lambda>a r. jb_arena_alloc a (fst r) (snd r)) a rs) (\<lambda>(offs, a). Inr a)"

text \<open>A function that resets the arena to its mark when it returns.\<close>

definition scoped :: "(JBArena \<Rightarrow> JBArena result) \<Rightarrow> JBArena \<Rightarrow> JBArena result" where
  "scoped f a = (let mark = jb_arena_mark a in bindE (f a) (\<lambda>a. jb_arena_reset a mark))"

definition attention_arena :: "nat \<Rightarrow> nat \<Rightarrow> nat \<Rightarrow> nat \<Rightarrow> JBArena \<Rightarrow> JBArena result" where
  "attention_arena l n maxold seq =
     (let qn = DG_HEADS * dg_head_dim l; kn = dg_kv_heads l * dg_head_dim l in
      scoped (\<lambda>a.
        bindE (alloc_seq [(n * qn, 4), (n * kn, 4), (n * kn, 4)] a) (\<lambda>a.
          alloc_seq [(n * qn, 4), (n * (maxold + seq), 4)] a)))"

definition attention_wrapper_arena :: "bool \<Rightarrow> nat \<Rightarrow> nat \<Rightarrow> nat \<Rightarrow> nat \<Rightarrow> nat \<Rightarrow> JBArena \<Rightarrow> JBArena result" where
  "attention_wrapper_arena wrapper segments l n maxold seq =
     scoped (\<lambda>a.
       bindE (if wrapper \<and> segments \<noteq> 1 then alloc_seq [(segments, 8), (segments, 4)] a else Inr a)
         (attention_arena l n maxold seq))"

definition ff_arena :: "bool \<Rightarrow> nat \<Rightarrow> JBArena \<Rightarrow> JBArena result" where
  "ff_arena nvfp4 n =
     scoped (\<lambda>a.
       bindE (alloc_seq [(n * DG_H, 4), (n * DG_DENSE, 4), (n * DG_DENSE, 4), (n * DG_H, 4), (n * DG_H, 4),
         (n * DG_H, 4), (n * DG_EXPERTS, 4)] a) (\<lambda>a.
       bindE (alloc_seq [(n * DG_TOPK, 4), (n * DG_TOPK, 4)] a) (\<lambda>a.
       bindE (alloc_seq ([(n * DG_TOPK * DG_H, 4), (n * DG_H, 4), (n * DG_EXPERT_PAIR, 4), (n * DG_MOE, 4), (n * DG_H, 4)] @
         (if nvfp4 then [(n * DG_H, 4), (n * DG_MOE, 4)] else []) @ [(n * 2, 4)]) a) (\<lambda>a.
         alloc_seq [(DG_H, 4), (DG_H, 4)] a))))"

text \<open>A layer, whose attention has the tables of \<open>dg_attention\<close> or not; and all layers.\<close>

definition layer_arena :: "bool \<Rightarrow> bool \<Rightarrow> nat \<Rightarrow> nat \<Rightarrow> nat \<Rightarrow> nat \<Rightarrow> JBArena \<Rightarrow> JBArena result" where
  "layer_arena nvfp4 wrapper segments seq maxold l =
     (let n = segments * seq in
      scoped (\<lambda>a.
        bindE (alloc_seq [(n * DG_H, 4), (n * DG_H, 4)] a) (\<lambda>a.
        bindE (attention_wrapper_arena wrapper segments l n maxold seq a) (ff_arena nvfp4 n))))"

fun steps :: "('b \<Rightarrow> 'a \<Rightarrow> 'a result) \<Rightarrow> 'b list \<Rightarrow> 'a \<Rightarrow> 'a result" where
  "steps f [] a = Inr a"
| "steps f (x # xs) a = bindE (f x a) (steps f xs)"

text \<open>The score of a read, over the rows of the pass that are still in the arena.\<close>

definition score_arena :: "'d DGJob \<times> nat \<Rightarrow> JBArena \<Rightarrow> JBArena result" where
  "score_arena gr =
     scoped (\<lambda>a. bindE (dg_sum_sizes (map dw_nc (jo_w (fst gr))) 0) (\<lambda>candidates.
       alloc_seq (dg_score_requests (fst gr) (snd gr) candidates (fold (\<lambda>d m. max (dw_nc d) m) (jo_w (fst gr)) 0)) a))"

text \<open>
  A pass of \<open>segments\<close> sequences of \<open>seq\<close> tokens over at most \<open>maxold\<close> rows of K/V each, from the
  plan to the check, with the scores of \<open>scores\<close> before it ends. Their largest need is the tail of
  the plan: the reads that share a decode have the same need (\<open>dg_reads\<close>), and those of a
  microbatch are compared (\<open>batch_round\<close>).
\<close>

definition forward_pass :: "bool \<Rightarrow> bool \<Rightarrow> nat \<Rightarrow> nat \<Rightarrow> nat \<Rightarrow> ('d DGJob \<times> nat) list \<Rightarrow> DGWorkspace \<Rightarrow> DGWorkspace result" where
  "forward_pass nvfp4 wrapper segments seq maxold scores w =
     bindE (collect (\<lambda>(g, r). dg_job_score_bytes g r) scores) (\<lambda>bytes.
     bindE (dg_forward_workspace_bytes nvfp4 False (segments * seq) maxold seq segments wrapper (fold max bytes 0)) (\<lambda>required.
     bindE (dg_workspace_begin w required) (\<lambda>w.
     bindE (alloc_seq [(segments * seq * DG_H, 4)] (ws_arena w)) (\<lambda>a.
     bindE (steps (layer_arena nvfp4 wrapper segments seq maxold) [0..<DG_L] a) (\<lambda>a.
     bindE (steps score_arena scores a) (\<lambda>a.
       dg_decode_end (w\<lparr>ws_arena := a\<rparr>)))))))"

end
