(* ===== verification/Api.thy ===== *)
theory Api
  imports Execute Answers Workspace
begin

text \<open>
  The public interface (\<open>src/api.inc\<close>): sessions over a model, the four decide calls, typed schemas
  as JSON, and the references to a model.

  The machine that a session runs on is a record: the floats, the model and its tokenizer, the fuel
  of the random canvases and of the rounds of reads, and how a double is printed. A call reports a
  status and its output, and leaves the session and the thread's error message; a failure of the
  program becomes a status (\<open>in_frame\<close>), \<open>Undefined\<close> and \<open>OutOfFuel\<close> do not. Pointers that may be
  NULL are options. The memory of failed calls is the subject of theory \<open>Alloc\<close>; accelerator locks,
  allocators of a call and the log callback are left out.
\<close>

section \<open>Sessions\<close>

definition JB_MAX_BATCH_INPUTS :: nat where "JB_MAX_BATCH_INPUTS = 16"

record ('f, 'd) machine =
  ma_fpu :: "('f, 'd) fpu"
  ma_model :: DGModel
  ma_tokenizer :: DGTokenizer
  ma_fuel :: nat
  ma_rounds :: nat
  ma_printing :: "'d printing"

record 'f jb_session =
  se_busy :: bool
  se_poisoned :: bool
  se_prefix :: "'f DGPrefixCache"
  se_questions :: "bytes option"
  se_error :: bytes

text \<open>A status and what comes with \<open>JB_OK\<close>; the session, if there is one, and the error message.\<close>

type_synonym ('a, 'f) reply = "(jb_status \<times> 'a option \<times> 'f jb_session option \<times> bytes) result"

definition jb_invalid :: "string \<Rightarrow> 'f jb_session option \<Rightarrow> ('a, 'f) reply" where
  "jb_invalid message s = Inr (JB_ERROR_INVALID_ARGUMENT, None, s, str message)"

text \<open>
  What a call ran: its result, whether an arena of the workspace was in use when it ended, and the
  cache. \<open>jb_call_cleanup\<close> poisons the session in that case.
\<close>

type_synonym ('a, 'f) ran = "'a result \<times> bool \<times> 'f DGPrefixCache"

definition jb_call_cleanup :: "bool \<Rightarrow> 'f jb_session \<Rightarrow> 'f jb_session" where
  "jb_call_cleanup active s = (if active then s\<lparr>se_poisoned := True\<rparr> else s)"

definition in_frame :: "bool \<Rightarrow> 'f jb_session \<Rightarrow> bytes \<Rightarrow> ('a, 'f) ran \<Rightarrow> ('a, 'f) reply" where
  "in_frame clears s message r =
     (case r of
        (Inr v, active, c) \<Rightarrow> Inr (JB_OK, Some v, Some (s\<lparr>se_prefix := c\<rparr>), if clears then [] else message)
      | (Inl (Die status m), active, c) \<Rightarrow>
          Inr (case status of None \<Rightarrow> JB_ERROR_REQUEST | Some st \<Rightarrow> st, None, Some (jb_call_cleanup active (s\<lparr>se_prefix := c\<rparr>)), m)
      | (Inl e, active, c) \<Rightarrow> Inl e)"

section \<open>Running jobs\<close>

text \<open>
  One prepared job over the cache. Its K/V are in use from after the tensor's lookup until the reads
  are done, and no other arena is outside that; the answers are made after it.
\<close>

definition run_job :: "('f, 'd) machine \<Rightarrow> ('d outcome \<Rightarrow> 'a result) \<Rightarrow> 'd DGJob result \<Rightarrow> 'f DGPrefixCache \<Rightarrow> ('a, 'f) ran" where
  "run_job M answer job c =
     (case job of
        Inl e \<Rightarrow> (Inl e, False, c)
      | Inr g \<Rightarrow>
          (case dg_tensor (ma_model M) (str ''model.decoder.embed_tokens.weight'') of
             Inl e \<Rightarrow> (Inl e, False, c)
           | Inr emb \<Rightarrow>
               (case dg_systemone_execute (ma_fpu M) (ma_model M) (ma_fuel M) (ma_rounds M) g c of
                  (Inl e, c) \<Rightarrow> (Inl e, True, c)
                | (Inr oc, c) \<Rightarrow> (answer oc, False, c))))"

fun run_jobs :: "('f, 'd) machine \<Rightarrow> ('d outcome \<Rightarrow> 'a result) \<Rightarrow> 'd DGJob result list \<Rightarrow> 'f DGPrefixCache \<Rightarrow> ('a list, 'f) ran" where
  "run_jobs M answer [] c = (Inr [], False, c)"
| "run_jobs M answer (j # js) c =
     (case run_job M answer j c of
        (Inl e, active, c) \<Rightarrow> (Inl e, active, c)
      | (Inr v, active, c) \<Rightarrow>
          (case run_jobs M answer js c of
             (Inl e, active, c) \<Rightarrow> (Inl e, active, c)
           | (Inr vs, active, c) \<Rightarrow> (Inr (v # vs), active, c)))"

text \<open>Several: as one microbatch when they share the entry and fit, else one after the other.\<close>

definition run_batch :: "('f, 'd) machine \<Rightarrow> ('d outcome \<Rightarrow> 'a result) \<Rightarrow> 'd DGJob result list \<Rightarrow> 'f DGPrefixCache \<Rightarrow> ('a list, 'f) ran" where
  "run_batch M answer js c =
     (if length js < 2 \<or> pc_schema c = None then run_jobs M answer js c
      else
        case collect (\<lambda>j. j) js of
          Inl e \<Rightarrow> (Inl e, False, c)
        | Inr gs \<Rightarrow>
            (case dg_system_batch_execute (ma_fpu M) (ma_model M) (ma_fuel M) c gs of
               Inl e \<Rightarrow> (Inl e, \<not> (\<exists>g \<in> set gs. length (jo_pt g) - pc_n c < 1), c)
             | Inr None \<Rightarrow> run_jobs M answer js c
             | Inr (Some ocs) \<Rightarrow> (collect answer ocs, False, c)))"

section \<open>The calls inside a session\<close>

definition json_answer :: "('f, 'd) machine \<Rightarrow> 'd timing \<Rightarrow> 'd outcome \<Rightarrow> bytes result" where
  "json_answer M ti oc =
     (let g = oc_job oc; rq = jo_rq g in
      dg_format_answers (dbl (ma_fpu M)) (ma_printing M) (rq_qj rq) (rq_qt rq) (jo_w g) (jo_prob g) (rq_reqid rq)
        (oc_billed oc) ti (jo_reads g) (jo_groups g) (str (oc_cache_state oc)) (oc_cache_tokens oc) (oc_processed oc) (oc_microbatch oc))"

definition typed_answers :: "('f, 'd) machine \<Rightarrow> 'd timing \<Rightarrow> 'd outcome \<Rightarrow> 'd jb_result result" where
  "typed_answers M ti oc =
     (let g = oc_job oc; rq = jo_rq g in
      dg_typed_answers (dbl (ma_fpu M)) (rq_qj rq) (rq_qt rq) (jo_w g) (jo_prob g) (oc_billed oc) (oc_processed oc) ti)"

definition jb_session_decide_json_call ::
  "('f, 'd) machine \<Rightarrow> 'd timing \<Rightarrow> bytes option \<Rightarrow> bool \<Rightarrow> 'f jb_session option \<Rightarrow> bytes \<Rightarrow> (bytes, 'f) reply" where
  "jb_session_decide_json_call M ti request outputs session message =
     (case (session, request) of
        (Some s, Some z) \<Rightarrow>
          if z = [] \<or> \<not> outputs then jb_invalid ''session, request, and output pointers are required'' session
          else if length z > JB_MAX_JSON then jb_invalid ''request JSON is too large'' session
          else in_frame True s message
            (run_job M (json_answer M ti) (dg_job_prepare (dbl (ma_fpu M)) (ma_tokenizer M) z (length z)) (se_prefix s))
      | _ \<Rightarrow> jb_invalid ''session, request, and output pointers are required'' session)"

text \<open>The requests of a batch, each of which must be there.\<close>

fun batch_requests :: "bytes option list \<Rightarrow> bytes list result" where
  "batch_requests [] = Inr []"
| "batch_requests (None # rs) = die ''batch request is empty''"
| "batch_requests (Some z # rs) =
     (if z = [] then die ''batch request is empty''
      else if length z > JB_MAX_JSON then die ''batch request JSON is too large''
      else bindE (batch_requests rs) (\<lambda>zs. Inr (z # zs)))"

definition jb_session_decide_json_batch_call ::
  "('f, 'd) machine \<Rightarrow> 'd timing \<Rightarrow> bytes option list option \<Rightarrow> bool \<Rightarrow> 'f jb_session option \<Rightarrow> bytes \<Rightarrow> (bytes list, 'f) reply" where
  "jb_session_decide_json_batch_call M ti requests outputs session message =
     (case (session, requests) of
        (Some s, Some rs) \<Rightarrow>
          if rs = [] \<or> length rs > JB_MAX_BATCH_INPUTS \<or> \<not> outputs then jb_invalid ''batch arguments are invalid'' session
          else in_frame True s message
            (case batch_requests rs of
               Inl e \<Rightarrow> (Inl e, False, se_prefix s)
             | Inr zs \<Rightarrow> run_batch M (json_answer M ti)
                 (map (\<lambda>z. dg_job_prepare (dbl (ma_fpu M)) (ma_tokenizer M) z (length z)) zs) (se_prefix s))
      | _ \<Rightarrow> jb_invalid ''batch arguments are invalid'' session)"

text \<open>A counted string: NULL with a length, or bytes.\<close>

datatype jb_string = Null nat | Bytes bytes

fun js_length :: "jb_string \<Rightarrow> nat" where
  "js_length (Null n) = n"
| "js_length (Bytes z) = length z"

fun js_bytes :: "jb_string \<Rightarrow> bytes" where
  "js_bytes (Null n) = []"
| "js_bytes (Bytes z) = z"

fun js_null :: "jb_string \<Rightarrow> bool" where
  "js_null (Null n) = True"
| "js_null (Bytes z) = False"

record jb_input =
  in_id :: jb_string
  in_state_json :: jb_string
  in_samples :: nat

definition input_invalid :: "jb_input \<Rightarrow> bool" where
  "input_invalid i \<longleftrightarrow>
     js_null (in_state_json i) \<or> js_length (in_state_json i) = 0 \<or> js_length (in_state_json i) > JB_MAX_JSON \<or>
     js_length (in_id i) > JB_MAX_JSON \<or> (js_length (in_id i) \<noteq> 0 \<and> js_null (in_id i)) \<or> 0 \<in> set (js_bytes (in_id i))"

definition prepare_input :: "('f, 'd) machine \<Rightarrow> bytes \<Rightarrow> jb_input \<Rightarrow> 'd DGJob result" where
  "prepare_input M q i =
     dg_job_prepare_parts (dbl (ma_fpu M)) (ma_tokenizer M) (js_bytes (in_state_json i)) (js_length (in_state_json i))
       (js_bytes (in_id i)) q (length q) (in_samples i)"

definition jb_session_decide_call ::
  "('f, 'd) machine \<Rightarrow> 'd timing \<Rightarrow> jb_input option \<Rightarrow> bool \<Rightarrow> 'f jb_session option \<Rightarrow> bytes \<Rightarrow> ('d jb_result, 'f) reply" where
  "jb_session_decide_call M ti input outputs session message =
     (case (session, input) of
        (Some s, Some i) \<Rightarrow>
          if \<not> outputs then jb_invalid ''session, input, and output pointer are required'' session
          else in_frame False s message
            (case se_questions s of
               None \<Rightarrow> (die ''typed inference requires a typed or JSON session schema'', False, se_prefix s)
             | Some q \<Rightarrow>
                 if input_invalid i then (die ''typed input is invalid'', False, se_prefix s)
                 else run_job M (typed_answers M ti) (prepare_input M q i) (se_prefix s))
      | _ \<Rightarrow> jb_invalid ''session, input, and output pointer are required'' session)"

definition jb_session_decide_batch_call ::
  "('f, 'd) machine \<Rightarrow> 'd timing \<Rightarrow> jb_input list option \<Rightarrow> bool \<Rightarrow> 'f jb_session option \<Rightarrow> bytes \<Rightarrow> ('d jb_result list, 'f) reply" where
  "jb_session_decide_batch_call M ti inputs outputs session message =
     (case (session, inputs) of
        (Some s, Some is) \<Rightarrow>
          if is = [] \<or> length is > JB_MAX_BATCH_INPUTS \<or> \<not> outputs then jb_invalid ''typed batch arguments are invalid'' session
          else in_frame False s message
            (case se_questions s of
               None \<Rightarrow> (die ''typed input is invalid'', False, se_prefix s)
             | Some q \<Rightarrow>
                 if list_ex input_invalid is then (die ''typed input is invalid'', False, se_prefix s)
                 else run_batch M (typed_answers M ti) (map (prepare_input M q) is) (se_prefix s))
      | _ \<Rightarrow> jb_invalid ''typed batch arguments are invalid'' session)"

section \<open>The calls\<close>

definition jb_session_acquire :: "'f jb_session option \<Rightarrow> (bool \<times> 'f jb_session option)" where
  "jb_session_acquire session =
     (case session of None \<Rightarrow> (True, None) | Some s \<Rightarrow> (\<not> se_busy s, Some (s\<lparr>se_busy := True\<rparr>)))"

definition jb_session_release :: "'f jb_session option \<Rightarrow> jb_status \<Rightarrow> bytes \<Rightarrow> 'f jb_session option" where
  "jb_session_release session status message =
     (case session of
        None \<Rightarrow> None
      | Some s \<Rightarrow> Some (if status = JB_OK then s\<lparr>se_error := [], se_busy := False\<rparr>
                       else s\<lparr>se_error := take 255 message, se_busy := False\<rparr>))"

definition jb_session_ready :: "'f jb_session option \<Rightarrow> bytes \<Rightarrow> jb_status \<times> bytes" where
  "jb_session_ready session message =
     (case session of
        None \<Rightarrow> (JB_OK, message)
      | Some s \<Rightarrow> if \<not> se_poisoned s then (JB_OK, message)
                 else (JB_ERROR_INTERNAL, str ''session is unusable after an inference failure''))"

definition jb_session_last_error :: "'f jb_session option \<Rightarrow> bytes" where
  "jb_session_last_error session = (case session of None \<Rightarrow> [] | Some s \<Rightarrow> se_error s)"

text \<open>The frame that the four decide calls share.\<close>

definition guarded :: "('f jb_session option \<Rightarrow> bytes \<Rightarrow> ('a, 'f) reply) \<Rightarrow> 'f jb_session option \<Rightarrow> bytes \<Rightarrow> ('a, 'f) reply" where
  "guarded call session message =
     (case jb_session_acquire session of
        (False, _) \<Rightarrow> jb_invalid ''session is already in use by another call'' session
      | (True, session) \<Rightarrow>
          (case jb_session_ready session message of
             (ready, message) \<Rightarrow>
               if ready \<noteq> JB_OK then Inr (ready, None, jb_session_release session ready message, message)
               else bindE (call session message) (\<lambda>(status, out, session, message).
                 Inr (status, out, jb_session_release session status message, message))))"

definition jb_session_decide_json ::
  "('f, 'd) machine \<Rightarrow> 'd timing \<Rightarrow> bytes option \<Rightarrow> bool \<Rightarrow> 'f jb_session option \<Rightarrow> bytes \<Rightarrow> (bytes, 'f) reply" where
  "jb_session_decide_json M ti request outputs = guarded (jb_session_decide_json_call M ti request outputs)"

definition jb_session_decide_json_batch ::
  "('f, 'd) machine \<Rightarrow> 'd timing \<Rightarrow> bytes option list option \<Rightarrow> bool \<Rightarrow> 'f jb_session option \<Rightarrow> bytes \<Rightarrow> (bytes list, 'f) reply" where
  "jb_session_decide_json_batch M ti requests outputs = guarded (jb_session_decide_json_batch_call M ti requests outputs)"

definition jb_session_decide ::
  "('f, 'd) machine \<Rightarrow> 'd timing \<Rightarrow> jb_input option \<Rightarrow> bool \<Rightarrow> 'f jb_session option \<Rightarrow> bytes \<Rightarrow> ('d jb_result, 'f) reply" where
  "jb_session_decide M ti input outputs = guarded (jb_session_decide_call M ti input outputs)"

definition jb_session_decide_batch ::
  "('f, 'd) machine \<Rightarrow> 'd timing \<Rightarrow> jb_input list option \<Rightarrow> bool \<Rightarrow> 'f jb_session option \<Rightarrow> bytes \<Rightarrow> ('d jb_result list, 'f) reply" where
  "jb_session_decide_batch M ti inputs outputs = guarded (jb_session_decide_batch_call M ti inputs outputs)"

section \<open>Models\<close>

text \<open>The count of references stays at its maximum; the last release destroys the model.\<close>

definition jb_model_retain :: "nat \<Rightarrow> nat" where
  "jb_model_retain references = (if references = UINT32_MAX then references else references + 1)"

definition jb_model_release :: "nat \<Rightarrow> nat \<times> bool" where
  "jb_model_release references =
     (if references = UINT32_MAX then (references, False) else ((references + UINT32_MAX) mod 2 ^ 32, references = 1))"

text \<open>An allocator's functions by name, 0 for NULL.\<close>

record jb_allocator =
  ja_struct_size :: nat
  ja_context :: nat
  ja_allocate :: nat
  ja_reallocate :: nat
  ja_release :: nat

definition jb_allocator_valid :: "jb_allocator \<Rightarrow> bool" where
  "jb_allocator_valid a \<longleftrightarrow> ja_struct_size a \<ge> 40 \<and> ja_allocate a \<noteq> 0 \<and> ja_reallocate a \<noteq> 0 \<and> ja_release a \<noteq> 0"

record jb_model_options =
  mo_struct_size :: nat
  mo_api_version :: nat
  mo_allocator :: jb_allocator
  mo_log_context :: nat
  mo_log :: nat

definition JB_API_VERSION :: nat where "JB_API_VERSION = 3"

text \<open>The checks of \<open>jb_model_load_ex\<close>: the message of a refusal, or the allocator it loads with.\<close>

definition model_load_options :: "jb_allocator \<Rightarrow> bool \<Rightarrow> bool \<Rightarrow> jb_model_options option \<Rightarrow> string + jb_allocator" where
  "model_load_options system_allocator directory output options =
     (if \<not> directory \<or> \<not> output then Inl ''model directory and output pointer are required''
      else case options of
        None \<Rightarrow> Inr system_allocator
      | Some mo \<Rightarrow>
          if mo_struct_size mo < 72 \<or> mo_api_version mo \<noteq> JB_API_VERSION then Inl ''model options version or size is incompatible''
          else if ja_allocate (mo_allocator mo) \<noteq> 0 \<or> ja_reallocate (mo_allocator mo) \<noteq> 0 \<or> ja_release (mo_allocator mo) \<noteq> 0 then
            (if \<not> jb_allocator_valid (mo_allocator mo) then Inl ''custom allocator is incomplete'' else Inr (mo_allocator mo))
          else Inr system_allocator)"

definition jb_status_string :: "nat \<Rightarrow> string" where
  "jb_status_string status =
     (let text = [''ok'', ''invalid argument'', ''I/O error'', ''model error'', ''request error'', ''out of memory'', ''internal error''] in
      if status < length text then text ! status else ''unknown error'')"

section \<open>Creating a session\<close>

definition jb_counted_string :: "jb_string \<Rightarrow> string \<Rightarrow> bool \<Rightarrow> bytes result" where
  "jb_counted_string s what required =
     (if js_length s \<noteq> 0 \<and> js_null s then die2 ''typed string has a NULL pointer'' (str what)
      else if required \<and> js_length s = 0 then die2 ''typed string is required'' (str what)
      else if js_length s > JB_MAX_JSON then die2 ''typed string is too large'' (str what)
      else if 0 \<in> set (js_bytes s) then die2 ''typed string contains NUL'' (str what)
      else Inr (js_bytes s))"

record jb_candidate =
  ca_id :: jb_string
  ca_description :: jb_string

text \<open>The type is a 32-bit number of the caller's; NULL candidates have a count.\<close>

record jb_question =
  qu_id :: jb_string
  qu_predicate :: jb_string
  qu_type :: nat
  qu_count :: nat
  qu_candidates :: "jb_candidate list option"

fun schema_candidates :: "nat \<Rightarrow> jb_candidate list \<Rightarrow> nat \<Rightarrow> DGBuf \<Rightarrow> DGBuf result" where
  "schema_candidates type [] c b = Inr b"
| "schema_candidates type (x # xs) c b =
     bindE (if c \<noteq> 0 then db_ch b 44 else Inr b) (\<lambda>b.
     bindE (if type = 0 then
              let fixed = (if c \<noteq> 0 then str ''false'' else str ''true'') in
              bindE (jb_counted_string (ca_id x) ''boolean candidate id'' False) (\<lambda>given.
                if given \<noteq> [] \<and> strcmp given fixed \<noteq> 0 then die (''boolean candidates are '' @ [CHR 0x22] @ ''true'' @ [CHR 0x22] @ '' then '' @ [CHR 0x22] @ ''false'' @ [CHR 0x22])
                else put_all [string_to fixed, \<lambda>b. db_ch b 58] b)
            else if type = 1 then
              bindE (jb_counted_string (ca_id x) ''candidate id'' True) (\<lambda>z. put_all [string_to z, \<lambda>b. db_ch b 58] b)
            else Inr b) (\<lambda>b.
     bindE (jb_counted_string (ca_description x) ''candidate description'' False) (\<lambda>description.
     bindE (string_to description b) (schema_candidates type xs (Suc c)))))"

definition schema_question :: "jb_question \<Rightarrow> nat \<Rightarrow> DGBuf \<Rightarrow> DGBuf result" where
  "schema_question q i b =
     (if qu_type q > 2 then die ''unknown typed decision type''
      else if qu_count q \<noteq> 0 \<and> qu_candidates q = None then die ''typed question has a NULL candidate array''
      else
        bindE (if i \<noteq> 0 then db_ch b 44 else Inr b) (\<lambda>b.
        bindE (jb_counted_string (qu_id q) ''question id'' True) (\<lambda>ident.
        bindE (jb_counted_string (qu_predicate q) ''question predicate'' True) (\<lambda>predicate.
        bindE (put_all [string_to ident, mem (str '':{'' @ in_quotes ''type'' @ str '':''),
          string_to (if qu_type q = 0 then str ''noul'' else if qu_type q = 1 then str ''choice'' else str ''score''),
          mem (member ''instructions''), string_to predicate, mem (member ''criteria'')] b) (\<lambda>b.
        bindE (if qu_type q = 0 \<and> qu_count q \<noteq> 2 then die ''boolean question needs two candidates''
               else db_ch b (if qu_type q = 2 then 91 else 123)) (\<lambda>b.
        if qu_count q < 2 \<or> qu_count q > JB_MAX_CAND then die ''typed question candidate count out of range''
        else
          case qu_candidates q of
            None \<Rightarrow> Inl Undefined
          | Some cs \<Rightarrow>
              if length cs \<noteq> qu_count q then Inl Undefined
              else bindE (schema_candidates (qu_type q) cs 0 b)
                (put_all [\<lambda>b. db_ch b (if qu_type q = 2 then 93 else 125), \<lambda>b. db_ch b 125])))))))"

fun schema_questions :: "jb_question list \<Rightarrow> nat \<Rightarrow> DGBuf \<Rightarrow> DGBuf result" where
  "schema_questions [] i b = Inr b"
| "schema_questions (q # qs) i b = bindE (schema_question q i b) (schema_questions qs (Suc i))"

text \<open>None for a schema that is missing, empty or too long.\<close>

definition jb_schema_json :: "jb_question list option \<Rightarrow> bytes option result" where
  "jb_schema_json schema =
     (case schema of
        None \<Rightarrow> Inr None
      | Some qs \<Rightarrow>
          if qs = [] \<or> length qs > DG_MAX_QUESTIONS then Inr None
          else bindE (put_all [\<lambda>b. db_ch b 123, schema_questions qs 0, \<lambda>b. db_ch b 125] (db_empty\<lparr>db_limit := JB_MAX_JSON\<rparr>)) (\<lambda>b.
            bindE (json_tokens (db_p b) (length (db_p b))) (\<lambda>t. Inr (Some (db_p b)))))"

text \<open>A new session, or the status and message of the failure; and the model's references.\<close>

type_synonym 'f created = "(jb_status \<times> 'f jb_session option \<times> bytes \<times> nat) result"

definition fresh_session :: "bytes option \<Rightarrow> 'f jb_session" where
  "fresh_session questions =
     \<lparr>se_busy = False, se_poisoned = False, se_prefix = \<lparr>pc_schema = None, pc_ids = [], pc_kv = []\<rparr>,
      se_questions = questions, se_error = []\<rparr>"

definition jb_session_create_json :: "('f, 'd) machine \<Rightarrow> bool \<Rightarrow> jb_string \<Rightarrow> bool \<Rightarrow> nat \<Rightarrow> bytes \<Rightarrow> 'f created" where
  "jb_session_create_json M model questions output references message =
     (if \<not> model \<or> \<not> output \<or> (js_null questions \<and> js_length questions \<noteq> 0)
      then Inr (JB_ERROR_INVALID_ARGUMENT, None, str ''model, schema, and output pointer are required'', references)
      else if js_length questions > JB_MAX_JSON
      then Inr (JB_ERROR_INVALID_ARGUMENT, None, str ''schema JSON is too large'', references)
      else
        case (if js_null questions then Inr ()
              else dg_schema_validate (ma_tokenizer M) (js_bytes questions) (js_length questions)) of
          Inr u \<Rightarrow> Inr (JB_OK, Some (fresh_session (if js_null questions then None else Some (js_bytes questions))), [],
            jb_model_retain references)
        | Inl (Die status m) \<Rightarrow> Inr (case status of None \<Rightarrow> JB_ERROR_REQUEST | Some st \<Rightarrow> st, None, m, references)
        | Inl e \<Rightarrow> Inl e)"

definition jb_session_create :: "('f, 'd) machine \<Rightarrow> bool \<Rightarrow> jb_question list option \<Rightarrow> bool \<Rightarrow> nat \<Rightarrow> bytes \<Rightarrow> 'f created" where
  "jb_session_create M model schema output references message =
     (if \<not> model \<or> schema = None \<or> \<not> output
      then Inr (JB_ERROR_INVALID_ARGUMENT, None, str ''model, typed schema, and output pointer are required'', references)
      else
        case jb_schema_json schema of
          Inl (Die status m) \<Rightarrow> Inr (case status of None \<Rightarrow> JB_ERROR_REQUEST | Some st \<Rightarrow> st, None, m, references)
        | Inl e \<Rightarrow> Inl e
        | Inr None \<Rightarrow> Inr (JB_ERROR_INVALID_ARGUMENT, None, str ''typed schema is empty or invalid'', references)
        | Inr (Some json) \<Rightarrow> jb_session_create_json M model (Bytes json) output references message)"

text \<open>Freeing a session releases its model.\<close>

definition jb_session_free :: "'f jb_session option \<Rightarrow> nat \<Rightarrow> nat \<times> bool" where
  "jb_session_free session references = (case session of None \<Rightarrow> (references, False) | Some s \<Rightarrow> jb_model_release references)"

end
