(* ===== verification/RowWise.thy ===== *)
theory RowWise
  imports Forward KernelProofs
begin

text \<open>
  Rows do not mix (\<open>src/engine.inc\<close>): matrix products, normalizations and the whole feed-forward
  block give each token the row it would have alone, although the block gathers the rows of all
  tokens by expert. Attention is the only step where tokens meet.
\<close>

section \<open>Passes over rows\<close>

text \<open>\<open>f\<close> on up to \<open>N\<close> rows is \<open>g\<close> on each of them.\<close>

definition rowwise :: "nat \<Rightarrow> ('a list \<Rightarrow> 'b list result) \<Rightarrow> ('a \<Rightarrow> 'b result) \<Rightarrow> bool" where
  "rowwise N f g \<longleftrightarrow> (\<forall>xs ys. 0 < length xs \<longrightarrow> length xs \<le> N \<longrightarrow>
     (f xs = Inr ys \<longleftrightarrow> length ys = length xs \<and> (\<forall>t < length xs. g (xs ! t) = Inr (ys ! t))))"

definition row1 :: "('a list \<Rightarrow> 'b list result) \<Rightarrow> 'a \<Rightarrow> 'b result" where
  "row1 f x = bindE (f [x]) (\<lambda>ys. Inr (hd ys))"

lemma rowwiseD:
  "rowwise N f g \<Longrightarrow> 0 < length xs \<Longrightarrow> length xs \<le> N \<Longrightarrow>
     f xs = Inr ys \<longleftrightarrow> length ys = length xs \<and> (\<forall>t < length xs. g (xs ! t) = Inr (ys ! t))"
  by (simp add: rowwise_def)

lemma collect_nth: "collect f xs = Inr ys \<longleftrightarrow> length ys = length xs \<and> (\<forall>t < length xs. f (xs ! t) = Inr (ys ! t))"
  unfolding collect_Inr list_all2_conv_all_nth by auto

lemma rowwise_never: "(\<And>xs ys. f xs \<noteq> Inr ys) \<Longrightarrow> (\<And>x y. g x \<noteq> Inr y) \<Longrightarrow> rowwise N f g"
  by (auto simp: rowwise_def)

lemma rowwise_pure:
  fixes h :: "'a \<Rightarrow> 'b"
  assumes "\<And>xs. 0 < length xs \<Longrightarrow> length xs \<le> N \<Longrightarrow> f xs = Inr (map h xs)" "\<And>x. g x = Inr (h x)"
  shows "rowwise N f g"
  unfolding rowwise_def
proof (intro allI impI)
  fix xs :: "'a list" and ys :: "'b list" assume "0 < length xs" "length xs \<le> N"
  moreover have "map h xs = ys \<longleftrightarrow> length ys = length xs \<and> (\<forall>t < length xs. h (xs ! t) = ys ! t)"
    unfolding list_eq_iff_nth_eq by auto
  ultimately show "f xs = Inr ys \<longleftrightarrow> length ys = length xs \<and> (\<forall>t < length xs. g (xs ! t) = Inr (ys ! t))"
    using assms by simp
qed

lemma rowwise_collect: "rowwise N (collect g) g"
  by (simp add: rowwise_def collect_nth)

text \<open>A list of values from a value for each index.\<close>

lemma list_choice:
  assumes "\<forall>t < n. \<exists>y. P t y"
  obtains ys where "length ys = n" "\<forall>t < n. P t (ys ! t)"
proof -
  from assms obtain f where "\<forall>t < n. P t (f t)" by metis
  then show ?thesis by (intro that [of "map f [0..<n]"]) simp_all
qed

lemma rowwise_bind:
  fixes f :: "'a list \<Rightarrow> 'b list result" and f' :: "'b list \<Rightarrow> 'c list result"
  assumes "rowwise N f g" "rowwise N f' g'"
  shows "rowwise N (\<lambda>xs. bindE (f xs) f') (\<lambda>x. bindE (g x) g')"
  unfolding rowwise_def
proof (intro allI impI)
  fix xs :: "'a list" and ys :: "'c list" assume n: "0 < length xs" "length xs \<le> N"
  note f = rowwiseD [OF assms(1) n]
  show "bindE (f xs) f' = Inr ys \<longleftrightarrow> length ys = length xs \<and> (\<forall>t < length xs. bindE (g (xs ! t)) g' = Inr (ys ! t))"
  proof
    assume "bindE (f xs) f' = Inr ys"
    then obtain zs where "f xs = Inr zs" "f' zs = Inr ys" by (auto simp: bindE_Inr_iff)
    moreover from this f have "length zs = length xs" "\<forall>t < length xs. g (xs ! t) = Inr (zs ! t)" by blast+
    ultimately show "length ys = length xs \<and> (\<forall>t < length xs. bindE (g (xs ! t)) g' = Inr (ys ! t))"
      using n rowwiseD [OF assms(2), of zs ys] by simp
  next
    assume r: "length ys = length xs \<and> (\<forall>t < length xs. bindE (g (xs ! t)) g' = Inr (ys ! t))"
    then have "\<forall>t < length xs. \<exists>z. g (xs ! t) = Inr z \<and> g' z = Inr (ys ! t)" by (simp add: bindE_Inr_iff)
    then obtain zs where "length zs = length xs" "\<forall>t < length xs. g (xs ! t) = Inr (zs ! t) \<and> g' (zs ! t) = Inr (ys ! t)"
      by (rule list_choice)
    moreover from this f have "f xs = Inr zs" by blast
    ultimately show "bindE (f xs) f' = Inr ys" using n r rowwiseD [OF assms(2), of zs ys] by simp
  qed
qed

lemma rowwise_map: "rowwise N f g \<Longrightarrow> rowwise N (\<lambda>xs. bindE (f xs) (\<lambda>ys. Inr (map h ys))) (\<lambda>x. bindE (g x) (\<lambda>y. Inr (h y)))"
  by (rule rowwise_bind) (auto intro: rowwise_pure)

text \<open>What a row gives is what the row alone gives.\<close>

lemma rowwise_one: "rowwise N f g \<Longrightarrow> 1 \<le> N \<Longrightarrow> row1 f x = Inr y \<longleftrightarrow> g x = Inr y"
proof -
  assume "rowwise N f g" "1 \<le> N"
  then have one: "f [x] = Inr ys \<longleftrightarrow> length ys = 1 \<and> g x = Inr (ys ! 0)" for ys
    using rowwiseD [of N f g "[x]" ys] by auto
  have "row1 f x = Inr y \<longleftrightarrow> (\<exists>ys. f [x] = Inr ys \<and> hd ys = y)" by (auto simp: row1_def bindE_Inr_iff)
  also have "\<dots> \<longleftrightarrow> g x = Inr y"
  proof
    assume "\<exists>ys. f [x] = Inr ys \<and> hd ys = y"
    then show "g x = Inr y" using one by (auto simp: hd_conv_nth length_Suc_conv)
  next
    assume "g x = Inr y"
    then show "\<exists>ys. f [x] = Inr ys \<and> hd ys = y" using one [of "[y]"] by (intro exI [of _ "[y]"]) simp
  qed
  finally show ?thesis .
qed

lemma rowwise_row1: "rowwise N f g \<Longrightarrow> 1 \<le> N \<Longrightarrow> rowwise N f (row1 f)"
  using rowwise_one [of N f g] by (simp add: rowwise_def)

lemma ctx_pos: "1 \<le> JB_MAX_CTX"
  by (simp add: JB_MAX_CTX_def)

section \<open>Kernels\<close>

lemma rowwise_if: "(c \<Longrightarrow> rowwise N f g) \<Longrightarrow> rowwise N (\<lambda>xs. if c then f xs else Inl e) (\<lambda>x. if c then g x else Inl e)"
  by (cases c) (auto intro: rowwise_never)

lemma dg_mm_data_rows:
  "rowwise JB_MAX_CTX (\<lambda>xs. dg_mm_data F data xs rows cols)
     (\<lambda>x. if \<not> (rows < 2 \<or> odd rows) \<and> \<not> length data < rows * cols * 2 then Inr (mm_token F data rows cols x) else Inl Undefined)"
proof (cases "rows < 2 \<or> odd rows \<or> length data < rows * cols * 2")
  case True
  then show ?thesis by (intro rowwise_never) (auto simp: dg_mm_data_def dg_mm_data_ref_tokens)
next
  case False
  then show ?thesis by (intro rowwise_pure) (auto simp: dg_mm_data_def dg_mm_data_ref_tokens)
qed

definition mm1 :: "('f, 'd) fpu \<Rightarrow> DGTensor \<Rightarrow> nat \<Rightarrow> nat \<Rightarrow> 'f list \<Rightarrow> 'f list result" where
  "mm1 F w rows cols = row1 (\<lambda>xs. dg_mm F w xs rows cols)"

lemma dg_mm_rows: "rowwise JB_MAX_CTX (\<lambda>xs. dg_mm F w xs rows cols) (mm1 F w rows cols)"
proof (cases "length (tn_shape w) \<noteq> 2 \<or> tn_shape w ! 0 \<noteq> rows \<or> tn_shape w ! 1 \<noteq> cols")
  case True
  then have "dg_mm F w xs rows cols = die2 ''bad matrix shape'' (tn_name w)" for xs by (simp add: dg_mm_def)
  then show ?thesis by (intro rowwise_never) (simp_all add: mm1_def row1_def)
next
  case False
  then have "dg_mm F w xs rows cols = dg_mm_data F (tensor_data w) xs rows cols" for xs by (simp add: dg_mm_def)
  then show ?thesis
    unfolding mm1_def using rowwise_row1 [OF dg_mm_data_rows ctx_pos] by simp
qed

lemma dg_nvfp4_mm_ref_rows:
  "rowwise N (\<lambda>xs. dg_nvfp4_mm_ref F m xs rows cols)
     (\<lambda>x. if length (nm_w m) < rows * (cols div 2) \<or> length (nm_s m) < rows * (cols div 16) then Inl Undefined
           else Inr (map (\<lambda>r. nvfp4_sum F m cols r x) [0..<rows]))"
proof (cases "length (nm_w m) < rows * (cols div 2) \<or> length (nm_s m) < rows * (cols div 16)")
  case True
  then show ?thesis by (intro rowwise_never) (auto simp: dg_nvfp4_mm_ref_def)
next
  case False
  then show ?thesis by (intro rowwise_pure) (auto simp: dg_nvfp4_mm_ref_def)
qed

lemma dg_nvfp4_qdq_ref_rows: "\<exists>g. rowwise N (\<lambda>xs. dg_nvfp4_qdq_ref F xs cols base) g"
proof (cases "qdq_scale_bad F cols base")
  case True
  then show ?thesis
    by (intro exI [of _ "\<lambda>_. die ''invalid NVFP4 activation scale''"] rowwise_never) (simp_all add: dg_nvfp4_qdq_ref_def)
next
  case False
  then show ?thesis unfolding dg_nvfp4_qdq_ref_def if_not_P [OF False] using rowwise_collect by (intro exI)
qed

lemma rowwise_const_bind:
  "(\<And>v. m = Inr v \<Longrightarrow> rowwise N (f v) (g v)) \<Longrightarrow> rowwise N (\<lambda>xs. bindE m (\<lambda>v. f v xs)) (\<lambda>x. bindE m (\<lambda>v. g v x))"
  by (cases m) (auto intro: rowwise_never)

lemma rowwise_const_ex:
  "(\<And>v. m = Inr v \<Longrightarrow> \<exists>g. rowwise N (f v) g) \<Longrightarrow> \<exists>g. rowwise N (\<lambda>xs. bindE m (\<lambda>v. f v xs)) g"
proof (cases m)
  case (Inl e)
  then show ?thesis by (intro exI [of _ "\<lambda>_. Inl e"] rowwise_never) simp_all
qed auto

lemma rowwise_bind_ex:
  "\<exists>g. rowwise N f g \<Longrightarrow> \<exists>g. rowwise N f' g \<Longrightarrow> \<exists>g. rowwise N (\<lambda>xs. bindE (f xs) f') g"
  using rowwise_bind by metis

lemma dg_nvfp4_gated_rows: "\<exists>g. rowwise N (\<lambda>xs. dg_nvfp4_gated F v xs rows cols) g"
proof -
  have "\<exists>g. rowwise N (\<lambda>xs. dg_nvfp4_gated_each F gate up xs rows cols) g" for gate up
  proof (cases "length (nm_w gate) < rows * (cols div 2) \<or> length (nm_s gate) < rows * (cols div 16) \<or>
      length (nm_w up) < rows * (cols div 2) \<or> length (nm_s up) < rows * (cols div 16)")
    case True
    then show ?thesis
      by (intro exI [of _ "\<lambda>_. Inl Undefined"] rowwise_never)
        (auto simp: dg_nvfp4_gated_each_def dg_nvfp4_mm_ref_def bindE_Inr_iff)
  next
    case False
    let ?p = "\<lambda>m x. map (\<lambda>r. nvfp4_sum F m cols r x) [0..<rows]"
    have "dg_nvfp4_gated_each F gate up xs rows cols =
        Inr (map (\<lambda>x. map2 (\<lambda>g h. fl_mul F (dg_gelu F g) h) (?p gate x) (?p up x)) xs)" for xs
      using False by (simp add: dg_nvfp4_gated_each_def dg_nvfp4_mm_ref_def dg_gelu_gate_def map2_map_map)
    then show ?thesis by (intro exI rowwise_pure) (assumption | rule refl)+
  qed
  then show ?thesis
    unfolding dg_nvfp4_gated_def by (intro rowwise_const_ex)
qed

section \<open>Rows by index\<close>

definition rows_of :: "nat \<Rightarrow> 'b list result \<Rightarrow> (nat \<Rightarrow> 'b result) \<Rightarrow> bool" where
  "rows_of n m g \<longleftrightarrow> (\<forall>ys. m = Inr ys \<longleftrightarrow> length ys = n \<and> (\<forall>t < n. g t = Inr (ys ! t)))"

lemma rows_ofD: "rows_of n m g \<Longrightarrow> m = Inr ys \<longleftrightarrow> length ys = n \<and> (\<forall>t < n. g t = Inr (ys ! t))"
  by (simp add: rows_of_def)

lemma rows_of_rowwise: "rowwise N f g \<Longrightarrow> 0 < n \<Longrightarrow> n \<le> N \<Longrightarrow> length xs = n \<Longrightarrow> rows_of n (f xs) (\<lambda>t. g (xs ! t))"
  unfolding rows_of_def using rowwiseD [of N f g xs] by simp

lemma rows_of_mm:
  "0 < n \<Longrightarrow> n \<le> JB_MAX_CTX \<Longrightarrow> length xs = n \<Longrightarrow> (\<And>t. t < n \<Longrightarrow> xs ! t = h t) \<Longrightarrow>
     rows_of n (dg_mm F w xs rows cols) (\<lambda>t. mm1 F w rows cols (h t))"
  using rows_of_rowwise [OF dg_mm_rows, of n xs F w rows cols] by (simp add: rows_of_def)

lemma rows_of_collect: "length xs = n \<Longrightarrow> rows_of n (collect f xs) (\<lambda>t. f (xs ! t))"
  unfolding rows_of_def by (simp add: collect_nth)

lemma rows_of_collect_upt: "rows_of n (collect f [0..<n]) f"
  unfolding rows_of_def collect_nth by auto

lemma rows_of_bind:
  assumes m: "rows_of n m g"
    and f: "\<And>ys. length ys = n \<Longrightarrow> \<forall>t < n. g t = Inr (ys ! t) \<Longrightarrow> rows_of n (f ys) (\<lambda>t. f' t (ys ! t))"
  shows "rows_of n (bindE m f) (\<lambda>t. bindE (g t) (f' t))"
  unfolding rows_of_def
proof (intro allI)
  fix zs
  show "bindE m f = Inr zs \<longleftrightarrow> length zs = n \<and> (\<forall>t < n. bindE (g t) (f' t) = Inr (zs ! t))"
  proof
    assume "bindE m f = Inr zs"
    then obtain ys where ys: "m = Inr ys" "f ys = Inr zs" by (auto simp: bindE_Inr_iff)
    have r: "length ys = n" "\<forall>t < n. g t = Inr (ys ! t)" using ys(1) unfolding rows_ofD [OF m] by blast+
    have "length zs = n \<and> (\<forall>t < n. f' t (ys ! t) = Inr (zs ! t))" using ys(2) unfolding rows_ofD [OF f [OF r]] .
    with r show "length zs = n \<and> (\<forall>t < n. bindE (g t) (f' t) = Inr (zs ! t))" by simp
  next
    assume r: "length zs = n \<and> (\<forall>t < n. bindE (g t) (f' t) = Inr (zs ! t))"
    then have "\<forall>t < n. \<exists>y. g t = Inr y \<and> f' t y = Inr (zs ! t)" by (simp add: bindE_Inr_iff)
    then obtain ys where ys: "length ys = n" "\<forall>t < n. g t = Inr (ys ! t) \<and> f' t (ys ! t) = Inr (zs ! t)"
      by (rule list_choice)
    then have "f ys = Inr zs" using rows_ofD [OF f [of ys]] r by simp
    moreover have "m = Inr ys" using rows_ofD [OF m] ys by simp
    ultimately show "bindE m f = Inr zs" by simp
  qed
qed

lemma rows_of_const:
  assumes "0 < n" "\<And>v. c = Inr v \<Longrightarrow> rows_of n (f v) (\<lambda>t. f' t v)"
  shows "rows_of n (bindE c f) (\<lambda>t. bindE c (f' t))"
proof (cases c)
  case (Inl e)
  then show ?thesis using assms(1) by (auto simp: rows_of_def)
qed (simp add: assms(2))

lemma rows_of_cong: "rows_of n m g \<Longrightarrow> (\<And>t. t < n \<Longrightarrow> g t = g' t) \<Longrightarrow> rows_of n m g'"
  by (simp add: rows_of_def)

lemma rows_of_map: "length ys = n \<Longrightarrow> rows_of n (Inr (map h ys)) (\<lambda>t. Inr (h (ys ! t)))"
  unfolding rows_of_def by (auto intro!: nth_equalityI)

lemma rows_of_map2: "length xs = n \<Longrightarrow> length ys = n \<Longrightarrow> rows_of n (Inr (map2 h xs ys)) (\<lambda>t. Inr (h (xs ! t) (ys ! t)))"
  unfolding rows_of_def by (auto intro!: nth_equalityI)

end
