(* ===== verification/FfRows.thy ===== *)
theory FfRows
  imports RowWise
begin

text \<open>
  The feed-forward block by token (\<open>dg_ff\<close> of \<open>src/engine.inc\<close>): rows are gathered by expert, multiplied
  together, and their products put back; \<open>ff_token\<close> is the same for one token, its experts one after the
  other.
\<close>

section \<open>One expert\<close>

lemma rowwise_premap: "\<exists>g. rowwise N f g \<Longrightarrow> \<exists>g. rowwise N (\<lambda>xs. f (map h xs)) g"
proof -
  assume "\<exists>g. rowwise N f g"
  then obtain g where g: "rowwise N f g" by blast
  have "rowwise N (\<lambda>xs. f (map h xs)) (g \<circ> h)"
    unfolding rowwise_def using rowwiseD [OF g] by simp
  then show ?thesis by blast
qed

lemma dg_expert_rows: "\<exists>g. rowwise JB_MAX_CTX (dg_expert F m l bf e) g"
proof (cases bf)
  case None
  have mm: "\<exists>g. rowwise JB_MAX_CTX (\<lambda>qh. dg_nvfp4_mm F w s g' qh DG_H DG_MOE) g" for w s g'
    unfolding dg_nvfp4_mm_def by (intro rowwise_const_ex exI) (rule dg_nvfp4_mm_ref_rows)
  have "\<exists>g. rowwise JB_MAX_CTX (\<lambda>rows. bindE (rd (md_nvexpert m) (l * DG_EXPERTS + e)) (\<lambda>v.
      bindE (dg_nvfp4_gated F v rows DG_MOE DG_H) (\<lambda>hid.
      bindE (rd (md_a2 m) l) (\<lambda>a2.
      bindE (dg_nvfp4_qdq_ref F hid DG_MOE (fl_of_bits F a2)) (\<lambda>qh.
        dg_nvfp4_mm F (nx_wd v) (nx_sd v) (nx_gd v) qh DG_H DG_MOE))))) g"
    by (intro rowwise_const_ex rowwise_bind_ex dg_nvfp4_gated_rows dg_nvfp4_qdq_ref_rows mm)
  with None show ?thesis by (simp add: dg_expert_def [abs_def])
next
  case (Some p)
  obtain eg ed where p: "p = (eg, ed)" by (cases p)
  have mm: "\<exists>g. rowwise JB_MAX_CTX (\<lambda>xs. dg_mm_data F data xs rows cols) g" for data rows cols
    using dg_mm_data_rows by (intro exI)
  show ?thesis
    unfolding dg_expert_def [abs_def] Some p option.case prod.case Let_def
    by (intro rowwise_bind_ex rowwise_premap mm)
qed

definition expert1 ::
  "('f, 'd) fpu \<Rightarrow> DGModel \<Rightarrow> nat \<Rightarrow> (DGTensor \<times> DGTensor) option \<Rightarrow> nat \<Rightarrow> 'f list \<Rightarrow> 'f list result" where
  "expert1 F m l bf e = row1 (dg_expert F m l bf e)"

lemma dg_expert_row1: "rowwise JB_MAX_CTX (dg_expert F m l bf e) (expert1 F m l bf e)"
  unfolding expert1_def using dg_expert_rows [of F m l bf e] rowwise_row1 ctx_pos by blast

section \<open>Owners\<close>

lemma set_expert_owners:
  "(t, k) \<in> set (expert_owners routed e) \<longleftrightarrow> t < length routed \<and> k < DG_TOPK \<and> fst (routed ! t ! k) = e"
  by (auto simp: expert_owners_def)

lemma distinct_pairs: "(\<And>t. distinct (g t)) \<Longrightarrow> distinct (concat (map (\<lambda>t. map (Pair t) (g t)) [0..<n]))"
  by (induction n) (auto simp: distinct_map inj_on_def)

lemma distinct_expert_owners: "distinct (expert_owners routed e)"
  unfolding expert_owners_def by (rule distinct_pairs) simp

definition choices_ok :: "(nat \<times> 'f) list list \<Rightarrow> bool" where
  "choices_ok routed \<longleftrightarrow> (\<forall>r \<in> set routed. length r = DG_TOPK \<and> distinct (map fst r))"

lemma owners_by_token:
  assumes "choices_ok routed"
  shows "distinct (map fst (expert_owners routed e))"
  unfolding distinct_map
proof (intro conjI inj_onI)
  show "distinct (expert_owners routed e)" by (rule distinct_expert_owners)
next
  fix p q assume pq: "p \<in> set (expert_owners routed e)" "q \<in> set (expert_owners routed e)" "fst p = fst q"
  obtain t k k' where e: "p = (t, k)" "q = (t, k')" using pq(3) by (cases p; cases q) auto
  with pq have t: "t < length routed" "k < DG_TOPK" "k' < DG_TOPK" "fst (routed ! t ! k) = fst (routed ! t ! k')"
    by (simp_all add: set_expert_owners)
  with assms have "length (routed ! t) = DG_TOPK" "distinct (map fst (routed ! t))" by (simp_all add: choices_ok_def)
  with t have "k = k'" using nth_eq_iff_index_eq [of "map fst (routed ! t)" k k'] by simp
  with e show "p = q" by simp
qed

lemma owners_fit: "choices_ok routed \<Longrightarrow> length (expert_owners routed e) \<le> length routed"
proof -
  assume "choices_ok routed"
  from distinct_card [OF owners_by_token [OF this], of e]
  have "card (set (map fst (expert_owners routed e))) = length (expert_owners routed e)" by (simp only: length_map)
  moreover have "set (map fst (expert_owners routed e)) \<subseteq> {..<length routed}"
  proof
    fix t assume "t \<in> set (map fst (expert_owners routed e))"
    then obtain k where "(t, k) \<in> set (expert_owners routed e)" by auto
    then show "t \<in> {..<length routed}" by (simp only: set_expert_owners lessThan_iff)
  qed
  then have "card (set (map fst (expert_owners routed e))) \<le> length routed"
    using card_mono [of "{..<length routed}"] by (metis card_lessThan finite_lessThan)
  ultimately show ?thesis by simp
qed

section \<open>Putting the products back\<close>

definition same_shape :: "'a list list \<Rightarrow> 'b list list \<Rightarrow> bool" where
  "same_shape c c' \<longleftrightarrow> map length c = map length c'"

lemma put_contrib_nth:
  assumes "length owners = length eo" "distinct owners"
    "\<forall>(t, k) \<in> set owners. t < length contrib \<and> k < length (contrib ! t)"
  shows "same_shape (put_contrib F routed owners eo contrib) contrib \<and>
    (\<forall>t < length contrib. \<forall>k < length (contrib ! t).
       put_contrib F routed owners eo contrib ! t ! k =
         (case map_of (zip owners eo) (t, k) of
            Some y \<Rightarrow> map (fl_mul F (snd (routed ! t ! k))) y | None \<Rightarrow> contrib ! t ! k))"
  using assms
proof (induction owners eo arbitrary: contrib rule: list_induct2)
  case Nil
  then show ?case by (simp add: put_contrib_def same_shape_def)
next
  case (Cons ow os y ys)
  obtain t0 k0 where ow: "ow = (t0, k0)" by (cases ow)
  define c1 where "c1 = contrib[t0 := (contrib ! t0)[k0 := map (fl_mul F (snd (routed ! t0 ! k0))) y]]"
  have t0: "t0 < length contrib" "k0 < length (contrib ! t0)" using Cons.prems ow by auto
  have len: "length c1 = length contrib" "\<And>t. t < length contrib \<Longrightarrow> length (c1 ! t) = length (contrib ! t)"
    using t0 by (simp_all add: c1_def nth_list_update)
  have put: "put_contrib F routed (ow # os) (y # ys) contrib = put_contrib F routed os ys c1"
    by (simp add: put_contrib_def c1_def ow)
  have new: "map_of (zip os ys) (t0, k0) = None" using Cons.prems(1) ow Cons.hyps
    by (simp add: map_of_zip_is_None)
  have IH: "same_shape (put_contrib F routed os ys c1) c1 \<and>
    (\<forall>t < length c1. \<forall>k < length (c1 ! t). put_contrib F routed os ys c1 ! t ! k =
         (case map_of (zip os ys) (t, k) of Some y \<Rightarrow> map (fl_mul F (snd (routed ! t ! k))) y | None \<Rightarrow> c1 ! t ! k))"
  proof (rule Cons.IH)
    show "distinct os" using Cons.prems(1) by simp
    show "\<forall>(t, k) \<in> set os. t < length c1 \<and> k < length (c1 ! t)"
    proof (intro ballI, clarify)
      fix t k assume "(t, k) \<in> set os"
      then have "t < length contrib \<and> k < length (contrib ! t)" using Cons.prems(2) by auto
      then show "t < length c1 \<and> k < length (c1 ! t)" by (simp add: len)
    qed
  qed
  have "same_shape c1 contrib" unfolding same_shape_def by (rule nth_equalityI) (simp_all add: len)
  with IH have "same_shape (put_contrib F routed os ys c1) contrib" by (simp add: same_shape_def)
  moreover have "put_contrib F routed os ys c1 ! t ! k =
      (case map_of (zip (ow # os) (y # ys)) (t, k) of Some y \<Rightarrow> map (fl_mul F (snd (routed ! t ! k))) y | None \<Rightarrow> contrib ! t ! k)"
    if "t < length contrib" "k < length (contrib ! t)" for t k
  proof (cases "(t, k) = (t0, k0)")
    case True
    with IH that len new t0 show ?thesis by (simp add: ow c1_def)
  next
    case False
    then have "c1 ! t ! k = contrib ! t ! k" using that t0 by (auto simp: c1_def nth_list_update)
    moreover have "map_of (zip (ow # os) (y # ys)) (t, k) = map_of (zip os ys) (t, k)" using False by (auto simp: ow)
    moreover have "put_contrib F routed os ys c1 ! t ! k =
        (case map_of (zip os ys) (t, k) of Some y \<Rightarrow> map (fl_mul F (snd (routed ! t ! k))) y | None \<Rightarrow> c1 ! t ! k)"
      using IH that by (simp add: len)
    ultimately show ?thesis by (simp split: option.split)
  qed
  ultimately show ?case unfolding put by blast
qed

section \<open>All experts\<close>

text \<open>What the row of token \<open>t\<close> and place \<open>k\<close> has after the experts \<open>es\<close>.\<close>

definition contrib_ok ::
  "('f, 'd) fpu \<Rightarrow> DGModel \<Rightarrow> nat \<Rightarrow> (DGTensor \<times> DGTensor) option \<Rightarrow> (nat \<times> 'f) list list \<Rightarrow> 'f list list \<Rightarrow> nat set \<Rightarrow>
     'f list list list \<Rightarrow> 'f list list list \<Rightarrow> bool" where
  "contrib_ok F m l bf routed z E c c' \<longleftrightarrow> same_shape c' c \<and>
     (\<forall>t < length routed. \<forall>k < DG_TOPK.
        if fst (routed ! t ! k) \<in> E
        then \<exists>y. expert1 F m l bf (fst (routed ! t ! k)) (z ! t) = Inr y \<and> c' ! t ! k = map (fl_mul F (snd (routed ! t ! k))) y
        else c' ! t ! k = c ! t ! k)"

definition contrib_shape :: "(nat \<times> 'f) list list \<Rightarrow> 'f list list list \<Rightarrow> bool" where
  "contrib_shape routed c \<longleftrightarrow> length c = length routed \<and> (\<forall>t < length routed. length (c ! t) = DG_TOPK)"

lemma same_shape_contrib: "same_shape c' c \<Longrightarrow> contrib_shape routed c \<Longrightarrow> contrib_shape routed c'"
  unfolding same_shape_def contrib_shape_def by (metis length_map nth_map)

lemma expert_step:
  assumes "choices_ok routed" "length z = length routed" "length routed \<le> JB_MAX_CTX" "contrib_shape routed c"
    "expert_owners routed e \<noteq> []"
  shows "(\<exists>eo. dg_expert F m l bf e (map (\<lambda>(t, k). z ! t) (expert_owners routed e)) = Inr eo \<and>
      c1 = put_contrib F routed (expert_owners routed e) eo c) \<longleftrightarrow> contrib_ok F m l bf routed z {e} c c1"
proof -
  let ?os = "expert_owners routed e"
  have in_os: "t < length c \<and> k < length (c ! t)" if "(t, k) \<in> set ?os" for t k
    using that assms(4) by (simp add: set_expert_owners contrib_shape_def)
  have rows: "dg_expert F m l bf e (map (\<lambda>(t, k). z ! t) ?os) = Inr eo \<longleftrightarrow>
      length eo = length ?os \<and> (\<forall>i < length ?os. expert1 F m l bf e (z ! fst (?os ! i)) = Inr (eo ! i))" for eo
    using rowwiseD [OF dg_expert_row1, of "map (\<lambda>(t, k). z ! t) ?os"] assms(5) owners_fit [OF assms(1), of e] assms(3)
    by (simp add: case_prod_beta)
  have put: "same_shape (put_contrib F routed ?os eo c) c \<and>
    (\<forall>t < length routed. \<forall>k < DG_TOPK. put_contrib F routed ?os eo c ! t ! k =
         (case map_of (zip ?os eo) (t, k) of Some y \<Rightarrow> map (fl_mul F (snd (routed ! t ! k))) y | None \<Rightarrow> c ! t ! k))"
    if "length eo = length ?os" for eo
    using put_contrib_nth [of ?os eo c F routed] that in_os distinct_expert_owners [of routed e] assms(4)
    by (fastforce simp: contrib_shape_def)
  have at: "map_of (zip ?os eo) (?os ! i) = Some (eo ! i)" if "length eo = length ?os" "i < length ?os" for eo i
    using that distinct_expert_owners [of routed e] by (simp add: map_of_zip_nth)
  have out: "map_of (zip ?os eo) (t, k) = None" if "length eo = length ?os" "t < length routed" "k < DG_TOPK" "fst (routed ! t ! k) \<noteq> e" for eo t k
    using that by (simp add: map_of_zip_is_None set_expert_owners)
  show ?thesis
  proof
    assume "\<exists>eo. dg_expert F m l bf e (map (\<lambda>(t, k). z ! t) ?os) = Inr eo \<and> c1 = put_contrib F routed ?os eo c"
    then obtain eo where eo: "length eo = length ?os" "\<forall>i < length ?os. expert1 F m l bf e (z ! fst (?os ! i)) = Inr (eo ! i)"
      and c1: "c1 = put_contrib F routed ?os eo c" using rows by blast
    show "contrib_ok F m l bf routed z {e} c c1"
      unfolding contrib_ok_def
    proof (intro conjI allI impI)
      show "same_shape c1 c" using put [OF eo(1)] c1 by blast
      fix t k assume t: "t < length routed" "k < DG_TOPK"
      show "if fst (routed ! t ! k) \<in> {e}
        then \<exists>y. expert1 F m l bf (fst (routed ! t ! k)) (z ! t) = Inr y \<and> c1 ! t ! k = map (fl_mul F (snd (routed ! t ! k))) y
        else c1 ! t ! k = c ! t ! k"
      proof (cases "fst (routed ! t ! k) = e")
        case True
        then have "(t, k) \<in> set ?os" using t by (simp add: set_expert_owners)
        then obtain i where i: "i < length ?os" "?os ! i = (t, k)" by (auto simp: in_set_conv_nth)
        with at [OF eo(1) i(1)] eo(2) put [OF eo(1)] c1 t True show ?thesis by auto
      next
        case False
        with out [OF eo(1) t] put [OF eo(1)] c1 t show ?thesis by auto
      qed
    qed
  next
    assume ok: "contrib_ok F m l bf routed z {e} c c1"
    have "\<forall>i < length ?os. \<exists>y. expert1 F m l bf e (z ! fst (?os ! i)) = Inr y \<and>
        c1 ! fst (?os ! i) ! snd (?os ! i) = map (fl_mul F (snd (routed ! fst (?os ! i) ! snd (?os ! i)))) y"
    proof (intro allI impI)
      fix i assume "i < length ?os"
      then have i: "?os ! i \<in> set ?os" by (rule nth_mem)
      obtain t k where tk: "?os ! i = (t, k)" by (cases "?os ! i")
      have "t < length routed" "k < DG_TOPK" "fst (routed ! t ! k) = e"
        using i unfolding tk set_expert_owners by simp_all
      with ok tk show "\<exists>y. expert1 F m l bf e (z ! fst (?os ! i)) = Inr y \<and>
          c1 ! fst (?os ! i) ! snd (?os ! i) = map (fl_mul F (snd (routed ! fst (?os ! i) ! snd (?os ! i)))) y"
        unfolding contrib_ok_def by force
    qed
    then obtain eo where eo: "length eo = length ?os" "\<forall>i < length ?os. expert1 F m l bf e (z ! fst (?os ! i)) = Inr (eo ! i) \<and>
        c1 ! fst (?os ! i) ! snd (?os ! i) = map (fl_mul F (snd (routed ! fst (?os ! i) ! snd (?os ! i)))) (eo ! i)"
      by (rule list_choice)
    have "c1 ! t ! k = put_contrib F routed ?os eo c ! t ! k" if t: "t < length routed" "k < DG_TOPK" for t k
    proof (cases "fst (routed ! t ! k) = e")
      case True
      then have "(t, k) \<in> set ?os" using t by (simp add: set_expert_owners)
      then obtain i where i: "i < length ?os" "?os ! i = (t, k)" by (auto simp: in_set_conv_nth)
      with at [OF eo(1) i(1)] eo(2) put [OF eo(1)] t show ?thesis by auto
    next
      case False
      with out [OF eo(1) t] put [OF eo(1)] ok t show ?thesis by (auto simp: contrib_ok_def)
    qed
    moreover have "same_shape c1 c" "same_shape (put_contrib F routed ?os eo c) c"
      using ok put [OF eo(1)] by (auto simp: contrib_ok_def)
    then have "contrib_shape routed c1" "contrib_shape routed (put_contrib F routed ?os eo c)"
      using same_shape_contrib assms(4) by blast+
    ultimately have "c1 = put_contrib F routed ?os eo c"
      unfolding contrib_shape_def by (intro nth_equalityI) auto
    with rows eo show "\<exists>eo. dg_expert F m l bf e (map (\<lambda>(t, k). z ! t) ?os) = Inr eo \<and> c1 = put_contrib F routed ?os eo c"
      by blast
  qed
qed

lemma contrib_ok_trans:
  assumes "contrib_ok F m l bf routed z {e} c c1" "contrib_ok F m l bf routed z E c1 c2" "e \<notin> E"
  shows "contrib_ok F m l bf routed z (insert e E) c c2"
  using assms unfolding contrib_ok_def same_shape_def by (auto split: if_splits)

lemma contrib_ok_split:
  assumes "contrib_ok F m l bf routed z (insert e E) c c2" "e \<notin> E" "contrib_shape routed c"
  obtains c1 where "contrib_ok F m l bf routed z {e} c c1" "contrib_ok F m l bf routed z E c1 c2"
proof -
  define c1 where "c1 = map (\<lambda>t. map (\<lambda>k. if fst (routed ! t ! k) = e then c2 ! t ! k else c ! t ! k) [0..<DG_TOPK]) [0..<length routed]"
  have len: "length c = length routed" "\<And>t. t < length routed \<Longrightarrow> length (c ! t) = DG_TOPK" using assms(3) by (simp_all add: contrib_shape_def)
  have c1: "same_shape c1 c" unfolding same_shape_def c1_def by (rule nth_equalityI) (simp_all add: len)
  have at: "c1 ! t ! k = (if fst (routed ! t ! k) = e then c2 ! t ! k else c ! t ! k)" if "t < length routed" "k < DG_TOPK" for t k
    using that by (simp add: c1_def)
  have "contrib_ok F m l bf routed z {e} c c1" "contrib_ok F m l bf routed z E c1 c2"
    using assms(1,2) at c1 unfolding contrib_ok_def same_shape_def by (auto split: if_splits)
  then show ?thesis by (rule that)
qed

lemma dg_experts_exact:
  assumes "choices_ok routed" "length z = length routed" "length routed \<le> JB_MAX_CTX" "distinct es" "contrib_shape routed c"
  shows "dg_experts F m l bf routed z es c = Inr c' \<longleftrightarrow> contrib_ok F m l bf routed z (set es) c c'"
  using assms(4,5)
proof (induction es arbitrary: c)
  case Nil
  have "contrib_ok F m l bf routed z {} c c' \<longleftrightarrow> c' = c"
  proof
    assume ok: "contrib_ok F m l bf routed z {} c c'"
    then have "contrib_shape routed c'" using same_shape_contrib Nil.prems(2) by (auto simp: contrib_ok_def)
    with ok Nil.prems(2) show "c' = c" unfolding contrib_ok_def contrib_shape_def by (intro nth_equalityI) auto
  qed (simp add: contrib_ok_def same_shape_def)
  then show ?case by auto
next
  case (Cons e es)
  have e: "e \<notin> set es" "distinct es" using Cons.prems by simp_all
  show ?case
  proof (cases "expert_owners routed e = []")
    case True
    then have "fst (routed ! t ! k) \<noteq> e" if "t < length routed" "k < DG_TOPK" for t k
      using set_expert_owners [of t k routed e] that by auto
    then have "contrib_ok F m l bf routed z (insert e (set es)) c c' \<longleftrightarrow> contrib_ok F m l bf routed z (set es) c c'"
      by (auto simp: contrib_ok_def)
    with Cons.IH [OF e(2) Cons.prems(2)] True show ?thesis by simp
  next
    case False
    note step = expert_step [OF assms(1-3) Cons.prems(2) False]
    have fit: "\<not> length z < length (expert_owners routed e)" using owners_fit [OF assms(1)] assms(2) by (simp add: not_less)
    have "dg_experts F m l bf routed z (e # es) c = Inr c' \<longleftrightarrow>
        (\<exists>eo. dg_expert F m l bf e (map (\<lambda>(t, k). z ! t) (expert_owners routed e)) = Inr eo \<and>
          dg_experts F m l bf routed z es (put_contrib F routed (expert_owners routed e) eo c) = Inr c')"
      using False fit by (simp add: Let_def bindE_Inr_iff)
    also have "\<dots> \<longleftrightarrow> (\<exists>c1. contrib_ok F m l bf routed z {e} c c1 \<and> dg_experts F m l bf routed z es c1 = Inr c')"
      unfolding step [symmetric] by blast
    also have "\<dots> \<longleftrightarrow> (\<exists>c1. contrib_ok F m l bf routed z {e} c c1 \<and> contrib_ok F m l bf routed z (set es) c1 c')"
    proof -
      have "contrib_shape routed c1" if "contrib_ok F m l bf routed z {e} c c1" for c1
        using that same_shape_contrib Cons.prems(2) by (auto simp: contrib_ok_def)
      then show ?thesis using Cons.IH [OF e(2)] by blast
    qed
    also have "\<dots> \<longleftrightarrow> contrib_ok F m l bf routed z (set (e # es)) c c'"
    proof
      assume "\<exists>c1. contrib_ok F m l bf routed z {e} c c1 \<and> contrib_ok F m l bf routed z (set es) c1 c'"
      then show "contrib_ok F m l bf routed z (set (e # es)) c c'" using contrib_ok_trans e(1) by fastforce
    next
      assume "contrib_ok F m l bf routed z (set (e # es)) c c'"
      then have "contrib_ok F m l bf routed z (insert e (set es)) c c'" by simp
      then obtain c1 where "contrib_ok F m l bf routed z {e} c c1" "contrib_ok F m l bf routed z (set es) c1 c'"
        by (rule contrib_ok_split [OF _ e(1) Cons.prems(2)])
      then show "\<exists>c1. contrib_ok F m l bf routed z {e} c c1 \<and> contrib_ok F m l bf routed z (set es) c1 c'" by blast
    qed
    finally show ?thesis .
  qed
qed

end
