(* ===== verification/FfToken.thy ===== *)
theory FfToken
  imports FfRows
begin

text \<open>
  The feed-forward block of one token (\<open>dg_ff\<close> of \<open>src/engine.inc\<close>), and that the block, which gathers
  the rows of every expert, gives each token this row: the experts of a token are different, so every
  contribution is written once.
\<close>

section \<open>Routing\<close>

lemma length_top_insert: "length (top_insert F z v us) = length us"
  by (induction us) auto

lemma set_top_insert: "set (top_insert F z v us) \<subseteq> insert (z, v) (set us)"
  by (induction us) (auto dest: in_set_butlastD)

lemma fold_top:
  "length (fold (\<lambda>(e, z). top_insert F z (int e)) es us) = length us \<and>
   set (fold (\<lambda>(e, z). top_insert F z (int e)) es us) \<subseteq> set us \<union> (\<lambda>(e, z). (z, int e)) ` set es"
proof (induction es arbitrary: us)
  case (Cons a es)
  obtain e z where a: "a = (e, z)" by (cases a)
  show ?case using Cons.IH [of "top_insert F z (int e) us"] set_top_insert [of F z "int e" us]
    by (auto simp: a length_top_insert)
qed simp

lemma length_top_experts: "length (top_experts F rt) = DG_TOPK"
  unfolding top_experts_def using fold_top by (metis length_map length_upt diff_zero)

lemma set_top_experts:
  assumes "length rt = DG_EXPERTS" "(z, e) \<in> set (top_experts F rt)"
  shows "0 \<le> e \<and> nat e < DG_EXPERTS"
proof -
  have "(z, e) \<in> set (map (\<lambda>k. (fl_neg F (fl_max F), int k)) [0..<DG_TOPK]) \<union> (\<lambda>(e, z). (z, int e)) ` set (enumerate 0 rt)"
    using assms(2) fold_top unfolding top_experts_def by blast
  then show ?thesis using assms(1)
    by (auto simp: DG_TOPK_def DG_EXPERTS_def in_set_enumerate_eq)
qed

lemma collect_map_fst:
  "collect f xs = Inr ys \<Longrightarrow> (\<And>x y. f x = Inr y \<Longrightarrow> h y = g x) \<Longrightarrow> map h ys = map g xs"
  unfolding collect_nth by (intro nth_equalityI) auto

lemma collect_zip_fst:
  assumes "collect f (zip as bs) = Inr r" "length bs = length as" "\<And>z e w y. f ((z, e), w) = Inr y \<Longrightarrow> fst y = nat e"
  shows "map fst r = map (nat \<circ> snd) as"
proof -
  have "map fst r = map (nat \<circ> snd \<circ> fst) (zip as bs)"
    using assms(1) by (rule collect_map_fst) (auto dest!: assms(3))
  also have "\<dots> = map (nat \<circ> snd) (map fst (zip as bs))" by simp
  also have "map fst (zip as bs) = as" using assms(2) by simp
  finally show ?thesis .
qed

lemma route_choice: "dg_route_token F rt re = Inr r \<Longrightarrow> map fst r = map (nat \<circ> snd) (top_experts F rt)"
  unfolding dg_route_token_def Let_def by (erule collect_zip_fst) (auto simp: bindE_Inr_iff)

lemma route_length: "dg_route_token F rt re = Inr r \<Longrightarrow> length r = DG_TOPK"
  using route_choice [of F rt re r] length_top_experts [of F rt] by (metis length_map)

lemma route_experts:
  assumes "dg_route_token F rt re = Inr r" "length rt = DG_EXPERTS"
  shows "fst ` set r \<subseteq> {..<DG_EXPERTS}"
proof -
  have "fst ` set r = (nat \<circ> snd) ` set (top_experts F rt)"
    using arg_cong [OF route_choice [OF assms(1)], of set] by simp
  also have "\<dots> \<subseteq> {..<DG_EXPERTS}"
  proof
    fix e assume "e \<in> (nat \<circ> snd) ` set (top_experts F rt)"
    then obtain z e' where "(z, e') \<in> set (top_experts F rt)" "e = nat e'" by auto
    with set_top_experts [OF assms(2)] show "e \<in> {..<DG_EXPERTS}" by blast
  qed
  finally show ?thesis .
qed

section \<open>The block\<close>

text \<open>The router's logits of a token.\<close>

definition token_logits :: "('f, 'd) fpu \<Rightarrow> ff_weights \<Rightarrow> 'f list \<Rightarrow> 'f list result" where
  "token_logits F W x =
     bindE (router_input F (ff_scale W) x) (\<lambda>rin.
     bindE (mm1 F (ff_router W) DG_EXPERTS DG_H rin) (\<lambda>rt.
       if list_all (fl_finite F) rt then Inr rt else die ''non-finite DiffusionGemma router logits''))"

definition ff_token :: "('f, 'd) fpu \<Rightarrow> DGModel \<Rightarrow> nat \<Rightarrow> 'f list \<Rightarrow> 'f list result" where
  "ff_token F m l x =
     bindE (dg_ff_weights m l) (\<lambda>W.
     bindE (dg_rms_ref F (Some (ff_pre W)) x) (\<lambda>z1.
     bindE (mm1 F (ff_gate W) DG_DENSE DG_H z1) (\<lambda>g.
     bindE (mm1 F (ff_up W) DG_DENSE DG_H z1) (\<lambda>u.
     bindE (mm1 F (ff_down W) DG_H DG_DENSE (gated F g u)) (\<lambda>d.
     bindE (dg_rms_ref F (Some (ff_p1 W)) d) (\<lambda>d.
     bindE (dg_rms_ref F (Some (ff_pre2 W)) x) (\<lambda>z2.
     bindE (token_logits F W x) (\<lambda>rt.
     bindE (dg_route_token F rt (ff_expert_scale W)) (\<lambda>routed.
     bindE (row1 (expert_input F m l) z2) (\<lambda>z.
     bindE (collect (\<lambda>(e, w). bindE (expert1 F m l (ff_bf W) e z) (\<lambda>y. Inr (map (fl_mul F w) y))) routed) (\<lambda>contrib.
       ff_tail F (ff_p2 W) (ff_post W) x d contrib)))))))))))"

text \<open>The choice of a token names no expert twice.\<close>

definition distinct_route :: "('f, 'd) fpu \<Rightarrow> DGModel \<Rightarrow> nat \<Rightarrow> 'f list \<Rightarrow> bool" where
  "distinct_route F m l x \<longleftrightarrow>
     (\<forall>W rt r. dg_ff_weights m l = Inr W \<longrightarrow> token_logits F W x = Inr rt \<longrightarrow>
        dg_route_token F rt (ff_expert_scale W) = Inr r \<longrightarrow> distinct (map fst r))"

lemma experts_rows:
  fixes F :: "('f, 'd) fpu"
  assumes n: "0 < n" "n \<le> JB_MAX_CTX" and len: "length routed = n" "length z = n" and ok: "choices_ok routed"
    and small: "\<forall>t < n. fst ` set (routed ! t) \<subseteq> {..<DG_EXPERTS}"
  shows "rows_of n (dg_experts F m l bf routed z [0..<DG_EXPERTS] (replicate n (replicate DG_TOPK y0)))
    (\<lambda>t. collect (\<lambda>(e, w). bindE (expert1 F m l bf e (z ! t)) (\<lambda>y. Inr (map (fl_mul F w) y))) (routed ! t))"
  unfolding rows_of_def
proof (intro allI)
  fix c' :: "'f list list list"
  let ?c = "replicate n (replicate DG_TOPK y0)"
  let ?one = "\<lambda>t (e, w). bindE (expert1 F m l bf e (z ! t)) (\<lambda>y. Inr (map (fl_mul F w) y))"
  have r: "length (routed ! t) = DG_TOPK" if "t < n" for t using ok that len by (simp add: choices_ok_def)
  have e: "fst (routed ! t ! k) \<in> {..<DG_EXPERTS}" if "t < n" "k < DG_TOPK" for t k
  proof -
    have "routed ! t ! k \<in> set (routed ! t)" using that r by simp
    with small that show ?thesis by blast
  qed
  have shape: "same_shape c' ?c \<longleftrightarrow> length c' = n \<and> (\<forall>t < n. length (c' ! t) = DG_TOPK)"
    unfolding same_shape_def by (auto intro!: nth_equalityI simp: in_set_conv_nth list_eq_iff_nth_eq [of "map length c'"])
  have one: "?one t (routed ! t ! k) = Inr v \<longleftrightarrow>
      (\<exists>y. expert1 F m l bf (fst (routed ! t ! k)) (z ! t) = Inr y \<and> v = map (fl_mul F (snd (routed ! t ! k))) y)" for t k v
    by (cases "routed ! t ! k") (auto simp: bindE_Inr_iff)
  have "contrib_shape routed ?c" by (simp add: contrib_shape_def len)
  then have "dg_experts F m l bf routed z [0..<DG_EXPERTS] ?c = Inr c' \<longleftrightarrow>
      contrib_ok F m l bf routed z {..<DG_EXPERTS} ?c c'"
    using dg_experts_exact [OF ok, of z "[0..<DG_EXPERTS]" ?c F m l bf c'] len n by (simp add: atLeast0LessThan)
  also have "\<dots> \<longleftrightarrow> same_shape c' ?c \<and> (\<forall>t < n. \<forall>k < DG_TOPK. ?one t (routed ! t ! k) = Inr (c' ! t ! k))"
    unfolding contrib_ok_def len one using e by simp
  also have "\<dots> \<longleftrightarrow> length c' = n \<and> (\<forall>t < n. collect (?one t) (routed ! t) = Inr (c' ! t))"
    unfolding shape collect_nth by (auto simp: r)
  finally show "dg_experts F m l bf routed z [0..<DG_EXPERTS] ?c = Inr c' \<longleftrightarrow>
      length c' = n \<and> (\<forall>t < n. collect (?one t) (routed ! t) = Inr (c' ! t))" .
qed

lemma checked_logits_rows:
  assumes "0 < n" "length route = n"
  shows "rows_of n (checked_logits F route)
    (\<lambda>t. if list_all (fl_finite F) (route ! t) then Inr (route ! t) else die ''non-finite DiffusionGemma router logits'')"
  unfolding rows_of_def checked_logits_def list_all_length [of "list_all (fl_finite F)"] using assms
  by (auto intro!: nth_equalityI split: if_splits)

lemma expert_input_rows: "rowwise JB_MAX_CTX (expert_input F m l) (row1 (expert_input F m l))"
proof -
  have "\<exists>g. rowwise JB_MAX_CTX (expert_input F m l) g"
  proof (cases "md_nvfp4 m")
    case True
    then show ?thesis unfolding expert_input_def [abs_def] by (simp, intro rowwise_const_ex dg_nvfp4_qdq_ref_rows)
  next
    case False
    have "rowwise JB_MAX_CTX (\<lambda>xs. Inr xs) Inr" by (rule rowwise_pure [where h = "\<lambda>x. x"]) simp_all
    with False show ?thesis unfolding expert_input_def [abs_def] by auto
  qed
  then show ?thesis using rowwise_row1 ctx_pos by blast
qed

lemma mm_len: "mm1 F w rows cols x = Inr y \<Longrightarrow> length y = rows"
  using rowwiseD [OF dg_mm_rows, of "[x]" F w rows cols "[y]"] ctx_pos
  by (auto simp: dg_mm_def dg_mm_data_def dg_mm_data_ref_tokens mm_token_def Let_def split: if_splits)

lemma token_logits_length: "token_logits F W x = Inr rt \<Longrightarrow> length rt = DG_EXPERTS"
  by (auto simp: token_logits_def bindE_Inr_iff mm_len split: if_splits)

lemma dg_ff_rows:
  assumes n: "0 < n" "n \<le> JB_MAX_CTX" "length xs = n" and ok: "\<forall>t < n. distinct_route F m l (xs ! t)"
  shows "rows_of n (dg_ff F m l xs) (\<lambda>t. ff_token F m l (xs ! t))"
proof -
  note mm = rows_of_rowwise [OF dg_mm_rows n(1,2)]
  have "rows_of n (dg_ff F m l xs) (\<lambda>t.
     bindE (dg_ff_weights m l) (\<lambda>W.
     bindE (dg_rms_ref F (Some (ff_pre W)) (xs ! t)) (\<lambda>z1.
     bindE (mm1 F (ff_gate W) DG_DENSE DG_H z1) (\<lambda>g.
     bindE (mm1 F (ff_up W) DG_DENSE DG_H z1) (\<lambda>u.
     bindE (mm1 F (ff_down W) DG_H DG_DENSE (gated F g u)) (\<lambda>d.
     bindE (dg_rms_ref F (Some (ff_p1 W)) d) (\<lambda>d.
     bindE (dg_rms_ref F (Some (ff_pre2 W)) (xs ! t)) (\<lambda>z2.
     bindE (router_input F (ff_scale W) (xs ! t)) (\<lambda>rin.
     bindE (mm1 F (ff_router W) DG_EXPERTS DG_H rin) (\<lambda>rt.
     bindE (if list_all (fl_finite F) rt then Inr rt else die ''non-finite DiffusionGemma router logits'') (\<lambda>rt.
     bindE (dg_route_token F rt (ff_expert_scale W)) (\<lambda>routed.
     bindE (row1 (expert_input F m l) z2) (\<lambda>z.
     bindE (collect (\<lambda>(e, w). bindE (expert1 F m l (ff_bf W) e z) (\<lambda>y. Inr (map (fl_mul F w) y))) routed) (\<lambda>contrib.
       ff_tail F (ff_p2 W) (ff_post W) (xs ! t) d contrib))))))))))))))"
    unfolding dg_ff_def
    apply (rule rows_of_const [OF n(1)])
    apply (rule rows_of_bind [OF rows_of_collect [OF n(3)]])
    apply (rule rows_of_bind [OF rows_of_mm [OF n(1,2)]], assumption, rule refl)
    apply (rule rows_of_bind [OF rows_of_mm [OF n(1,2)]], assumption, rule refl)
    apply (rule rows_of_bind [OF rows_of_mm [OF n(1,2)]], simp, simp)
    apply (rule rows_of_bind [OF rows_of_collect], assumption)
    apply (rule rows_of_bind [OF rows_of_collect [OF n(3)]])
    apply (rule rows_of_bind [OF rows_of_collect [OF n(3)]])
    apply (rule rows_of_bind [OF rows_of_mm [OF n(1,2)]], assumption, rule refl)
    apply (rule rows_of_bind [OF checked_logits_rows [OF n(1)]], assumption)
    apply (rule rows_of_bind [OF rows_of_collect], assumption)
    apply (rule rows_of_bind [OF rows_of_rowwise [OF expert_input_rows n(1,2)]], assumption)
    subgoal premises p for W z1 g u d d' z2 rin rt rt' routed z
    proof -
      have r: "dg_route_token F (rt' ! t) (ff_expert_scale W) = Inr (routed ! t)" if "t < n" for t using p that by blast
      have logits: "token_logits F W (xs ! t) = Inr (rt' ! t)" if "t < n" for t
        using p that by (simp add: token_logits_def)
      have "choices_ok routed"
        unfolding choices_ok_def all_set_conv_all_nth
      proof (intro allI impI)
        fix t assume "t < length routed"
        then have "t < n" using p by simp
        with r [OF this] logits [OF this] route_length ok p(1)
        show "length (routed ! t) = DG_TOPK \<and> distinct (map fst (routed ! t))" unfolding distinct_route_def by blast
      qed
      moreover have "\<forall>t < n. fst ` set (routed ! t) \<subseteq> {..<DG_EXPERTS}"
        using route_experts [OF r] token_logits_length [OF logits] by blast
      moreover have "length routed = n" "length z = n" using p by blast+
      ultimately show ?thesis
        unfolding n(3) using n by (intro rows_of_bind [OF experts_rows] rows_of_collect_upt)
    qed
    done
  then show ?thesis
    by (rule rows_of_cong) (simp add: ff_token_def token_logits_def bindE_assoc)
qed

text \<open>
  C28. The feed-forward block does not mix tokens, although it multiplies the rows of all tokens that
  an expert has together: on 1 to 4096 tokens it gives each token's row what \<open>ff_token\<close> gives
  it alone, which runs the chosen experts one after the other, and it fails only when a token alone
  fails. No token may choose an expert twice, for which the gathered rows would have no room.
\<close>

theorem ff_by_token:
  assumes "0 < length xs" "length xs \<le> JB_MAX_CTX" "\<forall>x \<in> set xs. distinct_route F m l x"
  shows "dg_ff F m l xs = Inr ys \<longleftrightarrow> length ys = length xs \<and> (\<forall>t < length xs. ff_token F m l (xs ! t) = Inr (ys ! t))"
  using dg_ff_rows [of "length xs" xs F m l] assms by (intro rows_ofD) simp

end
