(* ===== verification/Exact.thy ===== *)
theory Exact
  imports Kernels Complex_Main
begin

text \<open>
  The number formats of the kernels (\<open>src/kernels_scalar.inc\<close>) under exact arithmetic: the values
  of the E4M3 encodings, and the rounding to the nearest of them.
\<close>

section \<open>Exact arithmetic\<close>

text \<open>
  The arithmetic of the number formats with exact results: a value is a rational, and the bits of
  a \<open>float\<close> have the value of the format. It has the constants that the formats use.
\<close>

definition single_value :: "u32 \<Rightarrow> rat" where
  "single_value b =
     (let e = unat (drop_bit 23 b AND 255); m = of_nat (unat (b AND 0x7fffff));
          v = (if e = 0 then m / 2 ^ 149 else if e < 150 then (2 ^ 23 + m) / 2 ^ (150 - e) else (2 ^ 23 + m) * 2 ^ (e - 150))
      in if drop_bit 31 b = 0 then v else - v)"

definition exact_literal :: "string \<Rightarrow> rat" where
  "exact_literal s =
     (if s = ''0x1p-9f'' then 1 / 512 else if s = ''.5f'' then 1 / 2 else if s = ''1.5f'' then 3 / 2
      else if s = ''0.0f'' then 0 else if s = ''1.0f'' then 1 else if s = ''2.0f'' then 2 else 0)"

definition exact_arith :: "rat arith" where
  "exact_arith = \<lparr>zero_d = 0, one_d = 1, of_nat_d = of_nat, add_d = (+), sub_d = (-), mul_d = (*), div_d = (/),
     less_d = (<), exp_d = (\<lambda>x. 1 + x), log_d = (\<lambda>x. x - 1), abs_d = abs, tiny_d = 0, finite_d = (\<lambda>_. True)\<rparr>"

definition exact_fpu :: "(rat, rat) fpu" where
  "exact_fpu = \<lparr>fl_of_bits = single_value, fl_lit = exact_literal, fl_int = of_int, fl_trunc = floor,
     fl_add = (+), fl_sub = (-), fl_mul = (*), fl_div = (/), fl_pow = (\<lambda>x y. x), fl_neg = uminus, fl_abs = abs,
     fl_sqrt = (\<lambda>x. x), fl_cos = (\<lambda>x. 1), fl_sin = (\<lambda>x. 0), fl_less = (<), fl_le = (\<le>), fl_eq = (=),
     fl_finite = (\<lambda>_. True), fl_signbit = (\<lambda>x. x < 0), fl_max = 340282346638528859811704183484516925440,
     fl_inf = 2 ^ 128, wide = (\<lambda>x. x), narrow = (\<lambda>x. x), dbl = exact_arith, db_lit = exact_literal,
     db_of_int = of_int, db_trunc = floor, db_bits = (\<lambda>_. 0), db_of_bits = (\<lambda>_. 0), db_neg = uminus, db_eq = (=),
     db_inf = 2 ^ 1024, db_tanh = (\<lambda>x. x)\<rparr>"

section \<open>The values of E4M3\<close>

lemma field_div_mod: "r < b \<Longrightarrow> (b * q + r) mod b = r \<and> (b * q + r) div b = (q :: nat)"
  by simp

text \<open>In units of \<open>2 ^ -9\<close>.\<close>

definition f8_units :: "nat \<Rightarrow> nat" where
  "f8_units n = (if n < 8 then n else (8 + n mod 8) * 2 ^ (n div 8 - 1))"

lemma f8_units_Suc: "f8_units n < f8_units (Suc n)"
proof (cases "n < 8")
  case True
  then show ?thesis by (cases "n = 7") (simp_all add: f8_units_def)
next
  case False
  define e m where "e = n div 8 - 1" and "m = n mod 8"
  have n: "n = 8 * Suc e + m" and m: "m < 8" using False by (simp_all add: e_def m_def)
  show ?thesis
  proof (cases "m = 7")
    case True
    then have "Suc n = 8 * Suc (Suc e)" using n by simp
    then show ?thesis using n True by (simp add: f8_units_def)
  next
    case False
    then have s: "Suc n = 8 * Suc e + Suc m" "Suc m < 8" using n m by simp_all
    have "f8_units (8 * Suc e + k) = (8 + k) * 2 ^ e" if "k < 8" for k
    proof -
      have "(8 * Suc e + k) mod 8 = k" "(8 * Suc e + k) div 8 = Suc e" using field_div_mod [OF that] by blast+
      then show ?thesis unfolding f8_units_def by simp
    qed
    from this [OF m] this [OF s(2)] show ?thesis unfolding s(1) n by simp
  qed
qed

lemma f8_units_less: "a < b \<Longrightarrow> f8_units a < f8_units b"
  by (rule lift_Suc_mono_less [of f8_units]) (rule f8_units_Suc)

lemma single_value_fields:
  assumes "unat b = 2 ^ 23 * (e + 120) + 2 ^ 20 * m" "e < 30" "m < 8"
  shows "single_value b = of_nat (8 + m) * 2 ^ e / 1024"
proof -
  have "unat (drop_bit 23 b AND 255) = e + 120"
    using assms nat_and_low [of "unat (drop_bit 23 b)" 8] by (simp add: unsigned_and_eq unat_drop_bit)
  moreover have "unat (b AND 0x7fffff) = 2 ^ 20 * m"
    using field_div_mod [of "2 ^ 20 * m" "2 ^ 23" "e + 120"] assms nat_and_low [of "unat b" 23] by (simp add: unsigned_and_eq)
  moreover have "unat (drop_bit 31 b) = 0" using assms by (simp add: unat_drop_bit)
  then have "drop_bit 31 b = 0" by (simp only: unsigned_eq_0_iff)
  moreover have "(2 ^ 23 + 2 ^ 20 * of_nat m) / 2 ^ (30 - e) = (of_nat (8 + m) * 2 ^ e / 1024 :: rat)"
  proof -
    have "(2 :: rat) ^ 30 = 2 ^ (30 - e) * 2 ^ e" using assms by (simp flip: power_add)
    then show ?thesis by (simp add: field_simps)
  qed
  ultimately show ?thesis using assms by (simp add: single_value_def Let_def)
qed

lemma f8_value:
  assumes "n < 128"
  shows "dg_f8e4m3 exact_fpu (of_nat n) = of_nat (f8_units n) / 512"
proof -
  define u where "u = (of_nat n :: byte)"
  have u: "unat u = n" using assms by (simp add: u_def unsigned_of_nat take_bit_nat_eq_self)
  define e m where "e = drop_bit 3 (ucast u) AND (15 :: u32)" and "m = ucast u AND (7 :: u32)"
  have "unat e = n div 8 mod 16"
    using nat_and_low [of "n div 8" 4] by (simp add: e_def unsigned_and_eq unat_drop_bit u)
  then have e: "unat e = n div 8" using assms by simp
  have m: "unat m = n mod 8" using nat_and_low [of n 3] by (simp add: m_def unsigned_and_eq u)
  have sign: "drop_bit 7 u = 0"
  proof -
    have "unat (drop_bit 7 u) = 0" using assms u by (simp add: unat_drop_bit)
    then show ?thesis by (simp only: unsigned_eq_0_iff)
  qed
  show ?thesis
  proof (cases "n < 8")
    case True
    with e have "e = 0" by (simp add: unat_eq_0 [symmetric])
    then show ?thesis using sign True m
      unfolding dg_f8e4m3_def u_def [symmetric] e_def [symmetric] m_def [symmetric] Let_def
      by (simp add: exact_fpu_def exact_literal_def f8_units_def uint_nat)
  next
    case False
    have "unat (push_bit 23 (e + 120)) = 2 ^ 23 * (n div 8 + 120)"
      using assms e by (simp add: push_bit_eq_mult unat_word_ariths)
    moreover have "unat (push_bit 20 m) = 2 ^ 20 * (n mod 8)"
      using m by (simp add: push_bit_eq_mult unat_word_ariths)
    ultimately have b: "unat (push_bit 23 (e + 120) OR push_bit 20 m) = 2 ^ 23 * (n div 8 + 120) + 2 ^ 20 * (n mod 8)"
      using nat_or_disjoint [of "2 ^ 20 * (n mod 8)" 23 "n div 8 + 120"] by (simp only: unsigned_or_eq) simp
    have "e \<noteq> 0" using e False by auto
    moreover have "single_value (push_bit 23 (e + 120) OR push_bit 20 m) = of_nat (f8_units n) / 512"
    proof -
      have "(2 :: rat) ^ (n div 8) = 2 * 2 ^ (n div 8 - 1)" using False by (simp flip: power_Suc)
      then show ?thesis using single_value_fields [OF b] assms False by (simp add: f8_units_def)
    qed
    ultimately show ?thesis using sign
      unfolding dg_f8e4m3_def u_def [symmetric] e_def [symmetric] m_def [symmetric] Let_def
      by (simp add: exact_fpu_def)
  qed
qed

section \<open>Rounding\<close>

lemma f8_search_neighbours:
  assumes "lo < hi" "f8_search F x lo hi = (a, b)"
    "fl_less F (dg_f8e4m3 F (of_nat lo)) x" "\<not> fl_less F (dg_f8e4m3 F (of_nat hi)) x"
  shows "b = Suc a \<and> lo \<le> a \<and> b \<le> hi \<and> fl_less F (dg_f8e4m3 F (of_nat a)) x \<and> \<not> fl_less F (dg_f8e4m3 F (of_nat b)) x"
  using assms
proof (induction "hi - lo" arbitrary: lo hi rule: less_induct)
  case less
  show ?case
  proof (cases "lo + 1 < hi")
    case False
    with less.prems show ?thesis by (simp add: f8_search.simps [of F x lo hi])
  next
    case True
    define m where "m = (lo + hi) div 2"
    have m: "lo < m" "m < hi" using True by (simp_all add: m_def)
    have step: "f8_search F x lo hi = (if fl_less F (dg_f8e4m3 F (of_nat m)) x then f8_search F x m hi else f8_search F x lo m)"
      using True by (simp add: f8_search.simps [of F x lo hi] Let_def m_def)
    show ?thesis
    proof (cases "fl_less F (dg_f8e4m3 F (of_nat m)) x")
      case True
      have "hi - m < hi - lo" using m by simp
      from less.hyps [OF this] less.prems m True step show ?thesis by auto
    next
      case False
      have "m - lo < hi - lo" using m by simp
      from less.hyps [OF this] less.prems m False step show ?thesis by auto
    qed
  qed
qed

text \<open>
  C27. Rounding to E4M3 is to the nearest encoding, ties to the even one: for a value between 0 and
  the largest encoding, the result is the value of one of the codes 0 to 126, no code is nearer,
  and of two codes as near the even one is taken. The arithmetic is exact; the codes' values are
  those of the format's bits.
\<close>

theorem f8_round_nearest:
  assumes "0 < x" "x < 448"
  shows "\<exists>n \<le> 126. dg_f8e4m3_round exact_fpu x = dg_f8e4m3 exact_fpu (of_nat n) \<and>
    (\<forall>m \<le> 126. m \<noteq> n \<longrightarrow>
       \<bar>x - dg_f8e4m3 exact_fpu (of_nat n)\<bar> < \<bar>x - dg_f8e4m3 exact_fpu (of_nat m)\<bar> \<or>
       (\<bar>x - dg_f8e4m3 exact_fpu (of_nat n)\<bar> = \<bar>x - dg_f8e4m3 exact_fpu (of_nat m)\<bar> \<and> even n))"
proof -
  let ?F = exact_fpu and ?v = "\<lambda>n. dg_f8e4m3 exact_fpu (of_nat n)"
  have ops: "fl_less ?F = (<)" "fl_le ?F = (\<le>)" "fl_eq ?F = (=)" "fl_sub ?F = (-)" "fl_int ?F = of_int" "fl_zero ?F = 0"
    by (simp_all add: exact_fpu_def fl_zero_def)
  have mono: "?v a \<le> ?v b" if "a \<le> b" "b \<le> 126" for a b
    using that f8_units_less [of a b] by (cases "a = b") (simp_all add: f8_value)
  have strict: "?v a < ?v b" if "a < b" "b \<le> 126" for a b
    using that f8_units_less [of a b] by (simp add: f8_value)
  have ends: "?v 0 = 0" "?v 126 = 448" using f8_value [of 0] f8_value [of 126] by (simp_all add: f8_units_def)
  obtain lo hi where search: "f8_search ?F x 0 126 = (lo, hi)" by (cases "f8_search ?F x 0 126") auto
  have near: "hi = Suc lo" "hi \<le> 126" "?v lo < x" "x \<le> ?v hi"
  proof -
    have "fl_less ?F (?v 0) x" "\<not> fl_less ?F (?v 126) x" using ends assms by (simp_all add: ops)
    moreover have "0 < (126 :: nat)" by simp
    ultimately have "hi = Suc lo \<and> 0 \<le> lo \<and> hi \<le> 126 \<and> ?v lo < x \<and> x \<le> ?v hi"
      using f8_search_neighbours [OF _ search] unfolding ops not_less by blast
    then show "hi = Suc lo" "hi \<le> 126" "?v lo < x" "x \<le> ?v hi" by blast+
  qed
  define n where "n = (if x - ?v lo < ?v hi - x \<or> (x - ?v lo = ?v hi - x \<and> even lo) then lo else hi)"
  have round: "dg_f8e4m3_round ?F x = ?v n"
    using assms search by (auto simp: dg_f8e4m3_round_def ops Let_def n_def)
  have below: "x - ?v lo < x - ?v m" if "m < lo" for m using strict [of m lo] that near by simp
  have above: "?v hi - x < ?v m - x" if "hi < m" "m \<le> 126" for m using strict [of hi m] that by simp
  have "\<bar>x - ?v n\<bar> < \<bar>x - ?v m\<bar> \<or> (\<bar>x - ?v n\<bar> = \<bar>x - ?v m\<bar> \<and> even n)" if m: "m \<le> 126" "m \<noteq> n" for m
  proof -
    consider "m < lo" | "m = lo" | "m = hi" | "hi < m" using near(1) by linarith
    then show ?thesis
      using near m below [of m] above [of m] unfolding n_def
      by cases (auto simp: abs_if split: if_splits)
  qed
  then show ?thesis using round near by (intro exI [of _ n]) (auto simp: n_def)
qed

theorem f8_round_nearest_witness:
  "\<exists>n \<le> 126. dg_f8e4m3_round exact_fpu (17 / 16) = dg_f8e4m3 exact_fpu (of_nat n)"
  using f8_round_nearest [of "17 / 16"] by auto

end
