(* ===== verification/TopK.thy ===== *)
theory TopK
  imports FfToken Exact
begin

text \<open>
  The router's choice (\<open>dg_route_token\<close> of \<open>src/engine.inc\<close>): the experts of the largest logits, the
  smaller index first among equals, when enough logits are above the array's initial \<open>-FLT_MAX\<close>.
\<close>

section \<open>Ordered floats\<close>

text \<open>What the code needs of \<open><\<close>: a strict weak order of the finite values.\<close>

locale float_order =
  fixes F :: "('f, 'd) fpu"
  assumes low_finite: "fl_finite F (fl_neg F (fl_max F))"
    and less_irrefl: "fl_finite F x \<Longrightarrow> \<not> fl_less F x x"
    and less_trans: "fl_finite F x \<Longrightarrow> fl_finite F y \<Longrightarrow> fl_finite F z \<Longrightarrow> fl_less F x y \<Longrightarrow> fl_less F y z \<Longrightarrow> fl_less F x z"
    and not_less_trans: "fl_finite F x \<Longrightarrow> fl_finite F y \<Longrightarrow> fl_finite F z \<Longrightarrow> \<not> fl_less F x y \<Longrightarrow> \<not> fl_less F y z \<Longrightarrow> \<not> fl_less F x z"

text \<open>Insertion without the limit of the array.\<close>

fun ins :: "('f, 'd) fpu \<Rightarrow> 'f \<Rightarrow> int \<Rightarrow> ('f \<times> int) list \<Rightarrow> ('f \<times> int) list" where
  "ins F z v [] = [(z, v)]"
| "ins F z v (u # us) = (if fl_less F (fst u) z then (z, v) # u # us else u # ins F z v us)"

lemma length_ins [simp]: "length (ins F z v us) = Suc (length us)"
  by (induction us) auto

lemma set_ins [simp]: "set (ins F z v us) = insert (z, v) (set us)"
  by (induction us) auto

lemma top_insert_ins: "top_insert F z v us = take (length us) (ins F z v us)"
  by (induction us) (auto simp: butlast_conv_take)

lemma take_ins: "take k (ins F z v (take k us)) = take k (ins F z v us)"
proof (induction us arbitrary: k)
  case (Cons u us)
  show ?case by (cases k) (auto simp: Cons.IH take_Cons' min_def)
qed simp

abbreviation ins_all :: "('f, 'd) fpu \<Rightarrow> (nat \<times> 'f) list \<Rightarrow> ('f \<times> int) list \<Rightarrow> ('f \<times> int) list" where
  "ins_all F \<equiv> fold (\<lambda>(e, z). ins F z (int e))"

lemma fold_top_ins: "k \<le> length us \<Longrightarrow>
  fold (\<lambda>(e, z). top_insert F z (int e)) es (take k us) = take k (ins_all F es us)"
proof (induction es arbitrary: us)
  case (Cons a es)
  obtain e z where a: "a = (e, z)" by (cases a)
  have "top_insert F z (int e) (take k us) = take k (ins F z (int e) us)"
    using Cons.prems by (simp add: top_insert_ins take_ins min_absorb2)
  with Cons.IH [of "ins F z (int e) us"] Cons.prems show ?case by (simp add: a)
qed simp

text \<open>The order of the choice: the larger value first, then the smaller index.\<close>

definition ahead :: "('f, 'd) fpu \<Rightarrow> 'f \<times> int \<Rightarrow> 'f \<times> int \<Rightarrow> bool" where
  "ahead F p q \<longleftrightarrow> fl_less F (fst q) (fst p) \<or> \<not> fl_less F (fst p) (fst q) \<and> snd p < snd q"

context float_order begin

lemma ins_sorted:
  assumes "sorted_wrt (ahead F) us" "\<forall>u \<in> set us. fl_finite F (fst u) \<and> snd u < v" "fl_finite F z"
  shows "sorted_wrt (ahead F) (ins F z v us)"
  using assms
proof (induction us)
  case (Cons u us)
  show ?case
  proof (cases "fl_less F (fst u) z")
    case True
    have "fl_less F (fst q) z" if q: "q \<in> set us" for q
    proof (rule ccontr)
      assume n: "\<not> fl_less F (fst q) z"
      have "ahead F u q" "fl_finite F (fst q)" "fl_finite F (fst u)" using Cons.prems q by auto
      then have "\<not> fl_less F (fst u) (fst q)" unfolding ahead_def using less_trans less_irrefl by blast
      with n not_less_trans [of "fst u" "fst q" z] Cons.prems q True show False by auto
    qed
    with True Cons.prems show ?thesis by (auto simp: ahead_def)
  next
    case False
    with Cons show ?thesis by (auto simp: ahead_def)
  qed
qed simp

lemma ins_all_sorted:
  assumes "sorted_wrt (ahead F) us" "\<forall>u \<in> set us. fl_finite F (fst u) \<and> snd u < int n"
    "\<forall>z \<in> set rt. fl_finite F z"
  shows "sorted_wrt (ahead F) (ins_all F (filter P (enumerate n rt)) us) \<and>
    set (ins_all F (filter P (enumerate n rt)) us) = (\<lambda>(e, z). (z, int e)) ` set (filter P (enumerate n rt)) \<union> set us \<and>
    length (ins_all F (filter P (enumerate n rt)) us) = length (filter P (enumerate n rt)) + length us"
  using assms
proof (induction rt arbitrary: n us)
  case (Cons z rt)
  have next_small: "\<forall>u \<in> set us. fl_finite F (fst u) \<and> snd u < int (Suc n)" using Cons.prems by auto
  show ?case
  proof (cases "P (n, z)")
    case True
    have "sorted_wrt (ahead F) (ins F z (int n) us)" using Cons.prems by (intro ins_sorted) auto
    from Cons.IH [OF this, of "Suc n"] next_small Cons.prems True show ?thesis by auto
  next
    case False
    with Cons.IH [OF Cons.prems(1) next_small] Cons.prems show ?thesis by simp
  qed
qed simp

lemma ins_above:
  assumes "D \<noteq> []" "\<forall>u \<in> set D. fst u = lo" "fl_less F lo z"
  shows "ins F z v (S @ D @ E) = ins F z v S @ D @ E"
  using assms by (induction S) (auto simp: neq_Nil_conv)

lemma ins_below:
  assumes "\<forall>u \<in> set us. \<not> fl_less F (fst u) z"
  shows "ins F z v (us @ E) = us @ ins F z v E"
  using assms by (induction us) auto

lemma ins_all_split:
  assumes "D \<noteq> []" "\<forall>u \<in> set D. fst u = lo" "fl_finite F lo" "\<forall>z \<in> set rt. fl_finite F z"
    "\<forall>u \<in> set S. fl_finite F (fst u) \<and> fl_less F lo (fst u)"
  shows "\<exists>E'. ins_all F (enumerate n rt) (S @ D @ E) = ins_all F (filter (\<lambda>(e, z). fl_less F lo z) (enumerate n rt)) S @ D @ E'"
  using assms(4,5)
proof (induction rt arbitrary: n S E)
  case (Cons z rt)
  show ?case
  proof (cases "fl_less F lo z")
    case True
    with ins_above [OF assms(1,2) True] Cons.IH [of "ins F z (int n) S" "Suc n" E] Cons.prems show ?thesis by auto
  next
    case False
    have "\<not> fl_less F (fst u) z" if "u \<in> set (S @ D)" for u
      using that False Cons.prems assms(2,3) less_trans [of lo "fst u" z] by auto
    then have "ins F z (int n) (S @ D @ E) = S @ D @ ins F z (int n) E" using ins_below [of "S @ D" z "int n" E] by simp
    with False Cons.IH [of S "Suc n" "ins F z (int n) E"] Cons.prems show ?thesis by simp
  qed
qed auto

lemma top_experts_largest:
  assumes "\<forall>z \<in> set rt. fl_finite F z"
    "DG_TOPK \<le> length (filter (fl_less F (fl_neg F (fl_max F))) rt)"
  shows "sorted_wrt (ahead F) (top_experts F rt) \<and>
    (\<forall>p \<in> set (top_experts F rt). \<exists>e < length rt. p = (rt ! e, int e)) \<and>
    (\<forall>e < length rt. (rt ! e, int e) \<notin> set (top_experts F rt) \<longrightarrow> (\<forall>p \<in> set (top_experts F rt). ahead F p (rt ! e, int e)))"
proof -
  let ?lo = "fl_neg F (fl_max F)"
  let ?D = "map (\<lambda>k. (?lo, int k)) [0..<DG_TOPK]" and ?es = "filter (\<lambda>(e, z). fl_less F ?lo z) (enumerate 0 rt)"
  define S where "S = ins_all F ?es []"
  have D: "?D \<noteq> []" "\<forall>u \<in> set ?D. fst u = ?lo" by (simp_all add: DG_TOPK_def)
  obtain E where E: "ins_all F (enumerate 0 rt) ?D = S @ ?D @ E"
    using ins_all_split [OF D low_finite assms(1), of "[]" 0 "[]"] by (auto simp: S_def)
  have S: "sorted_wrt (ahead F) S" "set S = (\<lambda>(e, z). (z, int e)) ` set ?es" "length S = length ?es"
    using ins_all_sorted [of "[]" 0 rt "\<lambda>(e, z). fl_less F ?lo z"] assms(1) by (simp_all add: S_def)
  have "length ?es = length (filter (fl_less F ?lo) rt)"
    using length_filter_map [of "fl_less F ?lo" snd "enumerate 0 rt"] by (simp add: comp_def case_prod_unfold)
  with assms(2) S(3) have long: "DG_TOPK \<le> length S" by simp
  have "top_experts F rt = take DG_TOPK (ins_all F (enumerate 0 rt) ?D)"
    unfolding top_experts_def using fold_top_ins [of DG_TOPK ?D F "enumerate 0 rt"] by simp
  with E long have top: "top_experts F rt = take DG_TOPK S" by simp
  have at: "\<exists>e < length rt. p = (rt ! e, int e) \<and> fl_less F ?lo (rt ! e)" if "p \<in> set S" for p
    using that unfolding S(2) by (auto simp: in_set_enumerate_eq)
  show ?thesis
  proof (intro conjI ballI allI impI)
    show "sorted_wrt (ahead F) (top_experts F rt)" unfolding top using S(1) by (rule sorted_wrt_take)
  next
    fix p assume "p \<in> set (top_experts F rt)"
    then have "p \<in> set S" unfolding top by (rule in_set_takeD)
    with at show "\<exists>e < length rt. p = (rt ! e, int e)" by blast
  next
    fix e p assume e: "e < length rt" "(rt ! e, int e) \<notin> set (top_experts F rt)" and p: "p \<in> set (top_experts F rt)"
    have pS: "p \<in> set S" using p unfolding top by (rule in_set_takeD)
    show "ahead F p (rt ! e, int e)"
    proof (cases "fl_less F ?lo (rt ! e)")
      case True
      then have "(rt ! e, int e) \<in> set S" unfolding S(2) using e(1) by (force simp: in_set_enumerate_eq)
      with e(2) have "(rt ! e, int e) \<in> set (drop DG_TOPK S)" unfolding top by (metis append_take_drop_id UnE set_append)
      moreover have "sorted_wrt (ahead F) (take DG_TOPK S @ drop DG_TOPK S)" using S(1) by simp
      ultimately show ?thesis using p unfolding top sorted_wrt_append by blast
    next
      case False
      obtain e' where e': "e' < length rt" "p = (rt ! e', int e')" "fl_less F ?lo (rt ! e')" using at [OF pS] by blast
      with False e(1) assms(1) have "fl_less F (rt ! e) (rt ! e')"
        using not_less_trans [of ?lo "rt ! e" "rt ! e'"] low_finite by auto
      then show ?thesis by (simp add: ahead_def e'(2))
    qed
  qed
qed

end

interpretation exact: float_order exact_fpu
  by unfold_locales (auto simp: exact_fpu_def)

section \<open>The choice\<close>

lemma sorted_irreflexive: "sorted_wrt R xs \<Longrightarrow> (\<And>x. x \<in> set xs \<Longrightarrow> \<not> R x x) \<Longrightarrow> distinct xs"
  by (induction xs) auto

definition expert_ahead :: "('f, 'd) fpu \<Rightarrow> 'f list \<Rightarrow> nat \<Rightarrow> nat \<Rightarrow> bool" where
  "expert_ahead F rt i j \<longleftrightarrow> fl_less F (rt ! j) (rt ! i) \<or> \<not> fl_less F (rt ! i) (rt ! j) \<and> i < j"

lemma route_exact:
  assumes "float_order F" "length rt = DG_EXPERTS" "\<forall>z \<in> set rt. fl_finite F z"
    "DG_TOPK \<le> length (filter (fl_less F (fl_neg F (fl_max F))) rt)"
    "dg_route_token F rt re = Inr r"
  shows "length r = DG_TOPK \<and> distinct (map fst r) \<and> sorted_wrt (expert_ahead F rt) (map fst r) \<and>
    (\<forall>i \<in> set (map fst r). i < DG_EXPERTS \<and>
      (\<forall>j < DG_EXPERTS. j \<notin> set (map fst r) \<longrightarrow> expert_ahead F rt i j))"
proof -
  let ?T = "top_experts F rt"
  have T: "sorted_wrt (ahead F) ?T" "\<And>p. p \<in> set ?T \<Longrightarrow> \<exists>e < length rt. p = (rt ! e, int e)"
    "\<And>e p. e < length rt \<Longrightarrow> (rt ! e, int e) \<notin> set ?T \<Longrightarrow> p \<in> set ?T \<Longrightarrow> ahead F p (rt ! e, int e)"
    using float_order.top_experts_largest [OF assms(1,3,4)] by blast+
  have ids: "map fst r = map (nat \<circ> snd) ?T" by (rule route_choice [OF assms(5)])
  have ahead: "ahead F p (rt ! e, int e) = expert_ahead F rt (nat (snd p)) e" if "p \<in> set ?T" for p e
    using T(2) [OF that] by (auto simp: ahead_def expert_ahead_def)
  have "sorted_wrt (\<lambda>p q. expert_ahead F rt (nat (snd p)) (nat (snd q))) ?T"
    using T(1) by (rule sorted_wrt_mono_rel [rotated]) (use T(2) ahead in fastforce)
  then have sorted: "sorted_wrt (expert_ahead F rt) (map fst r)" unfolding ids by (simp add: sorted_wrt_map)
  have low: "i < DG_EXPERTS" "\<forall>j < DG_EXPERTS. j \<notin> set (map fst r) \<longrightarrow> expert_ahead F rt i j"
    if i: "i \<in> set (map fst r)" for i
  proof -
    obtain p where p: "p \<in> set ?T" "i = nat (snd p)" using i unfolding ids by auto
    with T(2) [OF p(1)] assms(2) show "i < DG_EXPERTS" by auto
    show "\<forall>j < DG_EXPERTS. j \<notin> set (map fst r) \<longrightarrow> expert_ahead F rt i j"
    proof (intro allI impI)
      fix j assume j: "j < DG_EXPERTS" "j \<notin> set (map fst r)"
      then have "(rt ! j, int j) \<notin> set ?T" unfolding ids by force
      with T(3) [of j p] j(1) p assms(2) ahead [OF p(1), of j] show "expert_ahead F rt i j" by simp
    qed
  qed
  have "distinct (map fst r)"
    using sorted
  proof (rule sorted_irreflexive)
    fix i assume "i \<in> set (map fst r)"
    then have "rt ! i \<in> set rt" using low(1) assms(2) by simp
    then show "\<not> expert_ahead F rt i i" using float_order.less_irrefl [OF assms(1)] assms(3) by (simp add: expert_ahead_def)
  qed
  with sorted low route_length [OF assms(5)] show ?thesis by blast
qed

lemma route_distinct:
  assumes "float_order F" "length rt = DG_EXPERTS" "\<forall>z \<in> set rt. fl_finite F z"
    "DG_TOPK \<le> length (filter (fl_less F (fl_neg F (fl_max F))) rt)" "dg_route_token F rt re = Inr r"
  shows "distinct (map fst r)"
  using route_exact [OF assms] by blast

text \<open>
  C29. Routing chooses eight different experts, those of the largest logits in descending order, the
  smaller index first among equals: every chosen expert is ahead of the ones after it, and of every
  expert that is not chosen. The logits have to be finite, and eight of them above \<open>-FLT_MAX\<close>.
\<close>

theorem router_takes_largest:
  assumes "float_order F" "length rt = DG_EXPERTS" "\<forall>z \<in> set rt. fl_finite F z"
    "DG_TOPK \<le> length (filter (fl_less F (fl_neg F (fl_max F))) rt)"
    "dg_route_token F rt re = Inr r"
  shows "length r = DG_TOPK \<and> distinct (map fst r) \<and> sorted_wrt (expert_ahead F rt) (map fst r) \<and>
    (\<forall>i \<in> set (map fst r). i < DG_EXPERTS \<and>
      (\<forall>j < DG_EXPERTS. j \<notin> set (map fst r) \<longrightarrow> expert_ahead F rt i j))"
  using assms by (rule route_exact)

definition sample_scale :: DGTensor where
  "sample_scale = \<lparr>tn_name = [], tn_data = replicate 256 0, tn_at = 0, tn_shape = [128], tn_bytes = 256, tn_dtype = DG_BF16\<rparr>"

lemma collect_some: "(\<And>x. x \<in> set xs \<Longrightarrow> \<exists>y. f x = Inr y) \<Longrightarrow> \<exists>ys. collect f xs = Inr ys"
  by (induction xs) (simp, force)

lemma collect_zip_some:
  "(\<And>z e w. (z, e) \<in> set as \<Longrightarrow> \<exists>y. f ((z, e), w) = Inr y) \<Longrightarrow> \<exists>ys. collect f (zip as bs) = Inr ys"
  by (rule collect_some) (auto dest: set_zip_leftD)

lemma route_total:
  assumes "length rt = DG_EXPERTS" "\<And>e. e < DG_EXPERTS \<Longrightarrow> \<exists>v. dg_at F re e = Inr v"
  shows "\<exists>r. dg_route_token F rt re = Inr r"
  unfolding dg_route_token_def Let_def
proof (rule collect_zip_some)
  fix z e w assume "(z, e) \<in> set (top_experts F rt)"
  from set_top_experts [OF assms(1) this] obtain v where v: "dg_at F re (nat e) = Inr v" using assms(2) by blast
  have "\<exists>y. bindE (dg_at F re (nat e)) (\<lambda>scale. Inr (nat e, g scale)) = Inr y" for g :: "'a \<Rightarrow> 'a" by (simp add: v)
  then show "\<exists>y. (case ((z, e), w) of (x, y) \<Rightarrow> (case x of (z, e) \<Rightarrow> \<lambda>w. bindE (dg_at F re (nat e)) (\<lambda>scale.
    Inr (nat e, fl_mul F (fl_div F w (narrow F (foldl (\<lambda>s z. add_d (dbl F) s (wide F z)) (zero_d (dbl F)) ev))) scale))) y) = Inr y" for ev
    by simp
qed

lemma sample_routes: "\<exists>r. dg_route_token exact_fpu (map of_nat [0..<128]) sample_scale = Inr r"
  by (rule route_total) (simp_all add: DG_EXPERTS_def dg_at_def tensor_data_def sample_scale_def)

theorem router_takes_largest_witness:
  "\<exists>r. dg_route_token exact_fpu (map of_nat [0..<128]) sample_scale = Inr r \<and> length r = DG_TOPK \<and> distinct (map fst r)"
proof -
  obtain r where r: "dg_route_token exact_fpu (map of_nat [0..<128]) sample_scale = Inr r" using sample_routes by blast
  show ?thesis
    using router_takes_largest [OF exact.float_order_axioms _ _ _ r] r
    by (simp add: DG_EXPERTS_def DG_TOPK_def exact_fpu_def filter_map del: upt_rec_numeral)
qed

section \<open>Flat floats\<close>

text \<open>Floats whose operations all give 1, for which every token's logits are equal.\<close>

definition flat_arith :: "int arith" where
  "flat_arith = \<lparr>zero_d = 1, one_d = 1, of_nat_d = (\<lambda>_. 1), add_d = (\<lambda>_ _. 1), sub_d = (\<lambda>_ _. 1), mul_d = (\<lambda>_ _. 1),
     div_d = (\<lambda>_ _. 1), less_d = (<), exp_d = (\<lambda>_. 1), log_d = (\<lambda>_. 1), abs_d = abs, tiny_d = 0, finite_d = (\<lambda>_. True)\<rparr>"

definition flat_fpu :: "(int, int) fpu" where
  "flat_fpu = \<lparr>fl_of_bits = (\<lambda>_. 1), fl_lit = (\<lambda>_. 1), fl_int = (\<lambda>_. 1), fl_trunc = (\<lambda>x. x),
     fl_add = (\<lambda>_ _. 1), fl_sub = (\<lambda>_ _. 1), fl_mul = (\<lambda>_ _. 1), fl_div = (\<lambda>_ _. 1), fl_pow = (\<lambda>_ _. 1), fl_neg = uminus,
     fl_abs = abs, fl_sqrt = (\<lambda>_. 1), fl_cos = (\<lambda>_. 1), fl_sin = (\<lambda>_. 1), fl_less = (<), fl_le = (\<le>), fl_eq = (=),
     fl_finite = (\<lambda>_. True), fl_signbit = (\<lambda>x. x < 0), fl_max = 5, fl_inf = 6, wide = (\<lambda>x. x), narrow = (\<lambda>x. x),
     dbl = flat_arith, db_lit = (\<lambda>_. 1), db_of_int = (\<lambda>_. 1), db_trunc = (\<lambda>x. x), db_bits = (\<lambda>_. 0),
     db_of_bits = (\<lambda>_. 1), db_neg = uminus, db_eq = (=), db_inf = 6, db_tanh = (\<lambda>_. 1)\<rparr>"

interpretation flat: float_order flat_fpu
  by unfold_locales (auto simp: flat_fpu_def)

lemma flat_mm:
  assumes "mm1 flat_fpu w rows cols x = Inr y"
  shows "y = replicate rows 1"
proof -
  have one: "fold (\<lambda>c s. 1) cs (1 :: int) = 1" for cs :: "nat list" by (induction cs) simp_all
  have "length y = rows" by (rule mm_len [OF assms])
  moreover have "\<forall>r < rows. y ! r = 1"
    using assms rowwiseD [OF dg_mm_rows, of "[x]" flat_fpu w rows cols "[y]"] ctx_pos one
    by (auto simp: dg_mm_def dg_mm_data_def dg_mm_data_ref_tokens mm_token_def fl_zero_def flat_fpu_def Let_def split: if_splits)
  ultimately show ?thesis by (auto intro: nth_equalityI)
qed

lemma flat_routes: "distinct_route flat_fpu m l x"
  unfolding distinct_route_def
proof (intro allI impI)
  fix W rt r assume "token_logits flat_fpu W x = Inr rt" and r: "dg_route_token flat_fpu rt (ff_expert_scale W) = Inr r"
  then have rt: "rt = replicate DG_EXPERTS 1" by (auto simp: token_logits_def bindE_Inr_iff flat_mm split: if_splits)
  show "distinct (map fst r)"
    by (rule route_distinct [OF flat.float_order_axioms _ _ _ r]) (simp_all add: rt flat_fpu_def DG_EXPERTS_def DG_TOPK_def)
qed

text \<open>
  With the other logits all at \<open>-FLT_MAX\<close> the choice can name an expert twice: an initial place of the
  array, for expert 3 here, is left in it beside the expert's own.
\<close>

theorem router_can_repeat:
  "map snd (top_experts flat_fpu ((replicate 128 (fl_neg flat_fpu (fl_max flat_fpu)))[3 := 0])) = [3, 0, 1, 2, 3, 4, 5, 6]"
  by code_simp

theorem ff_by_token_witness:
  "\<forall>m l ys. dg_ff flat_fpu m l [replicate DG_H 1, replicate DG_H 2] = Inr ys \<longleftrightarrow>
     length ys = length [replicate DG_H 1, replicate DG_H (2 :: int)] \<and>
     (\<forall>t < length [replicate DG_H 1, replicate DG_H (2 :: int)].
        ff_token flat_fpu m l ([replicate DG_H 1, replicate DG_H 2] ! t) = Inr (ys ! t))"
  by (intro allI ff_by_token) (simp_all add: JB_MAX_CTX_def flat_routes)

end
