(* ===== verification/Segments.thy ===== *)
theory Segments
  imports TopK
begin

text \<open>
  Segments do not mix either: attention over several segments gives each what it has alone.
\<close>

section \<open>Blocks of a list\<close>

definition block :: "nat \<Rightarrow> 'a list \<Rightarrow> nat \<Rightarrow> 'a list" where
  "block n xs b = take n (drop (b * n) xs)"

lemma block_room: "b < B \<Longrightarrow> b * n + n \<le> B * (n :: nat)"
  by (metis Suc_leI add.commute mult_Suc mult_le_mono1)

lemma block_index: "b < B \<Longrightarrow> t < n \<Longrightarrow> b * n + t < B * (n :: nat)"
  using block_room [of b B n] by linarith

lemma length_block: "length xs = B * n \<Longrightarrow> b < B \<Longrightarrow> length (block n xs b) = n"
  using block_room [of b B n] by (simp add: block_def)

lemma nth_block: "length xs = B * n \<Longrightarrow> b < B \<Longrightarrow> t < n \<Longrightarrow> block n xs b ! t = xs ! (b * n + t)"
  using block_index [of b B t n] by (simp add: block_def)

lemma map_block: "block n (map f xs) b = map f (block n xs b)"
  by (simp add: block_def take_map drop_map)

lemma map2_block: "block n (map2 f xs ys) b = map2 f (block n xs b) (block n ys b)"
  by (simp add: block_def take_map drop_map take_zip drop_zip)

lemma block_one: "length xs = n \<Longrightarrow> block n xs 0 = xs"
  by (simp add: block_def)

lemma all_blocks:
  assumes "0 < (n :: nat)"
  shows "(\<forall>i < B * (n :: nat). P (i div n) (i mod n) i) \<longleftrightarrow> (\<forall>b < B. \<forall>t < n. P b t (b * n + t))"
proof
  assume l: "\<forall>i < B * n. P (i div n) (i mod n) i"
  show "\<forall>b < B. \<forall>t < n. P b t (b * n + t)"
  proof (intro allI impI)
    fix b t assume "b < B" "t < n"
    with l [rule_format, of "b * n + t"] block_index [of b B t n] show "P b t (b * n + t)" by simp
  qed
next
  assume r: "\<forall>b < B. \<forall>t < n. P b t (b * n + t)"
  show "\<forall>i < B * n. P (i div n) (i mod n) i"
  proof (intro allI impI)
    fix i assume "i < B * n"
    then have "i div n < B" "i mod n < n" using assms by (auto simp: less_mult_imp_div_less)
    with r have "P (i div n) (i mod n) (i div n * n + i mod n)" by blast
    then show "P (i div n) (i mod n) i" by simp
  qed
qed

text \<open>Lists by their blocks.\<close>

lemma concat_block:
  assumes "\<forall>z \<in> set zs. length z = n" "b < length zs"
  shows "block n (concat zs) b = zs ! b"
  using assms
proof (induction zs arbitrary: b)
  case (Cons z zs)
  then show ?case by (cases b) (auto simp: block_def)
qed simp

lemma length_concat_blocks: "\<forall>z \<in> set zs. length z = n \<Longrightarrow> length (concat zs) = length zs * n"
  by (induction zs) auto

lemma blocks_choice:
  assumes "\<forall>b < B. \<exists>y. length y = n \<and> P b y"
  obtains ys where "length ys = B * n" "\<forall>b < B. P b (block n ys b)"
proof -
  obtain zs where zs: "length zs = B" "\<forall>b < B. length (zs ! b) = n \<and> P b (zs ! b)"
    using assms by (rule list_choice)
  then have "\<forall>z \<in> set zs. length z = n" by (auto simp: in_set_conv_nth)
  with zs length_concat_blocks [OF this] concat_block [OF this] show ?thesis by (intro that [of "concat zs"]) auto
qed

section \<open>Steps that work by block\<close>

definition blocks_of :: "nat \<Rightarrow> nat \<Rightarrow> 'b list result \<Rightarrow> (nat \<Rightarrow> 'b list result) \<Rightarrow> bool" where
  "blocks_of B n m g \<longleftrightarrow> (\<forall>ys. m = Inr ys \<longleftrightarrow> length ys = B * n \<and> (\<forall>b < B. g b = Inr (block n ys b)))"

lemma blocks_ofD: "blocks_of B n m g \<Longrightarrow> m = Inr ys \<longleftrightarrow> length ys = B * n \<and> (\<forall>b < B. g b = Inr (block n ys b))"
  by (simp add: blocks_of_def)

lemma blocks_of_rows:
  assumes "rows_of (B * n) m g" "\<And>b. b < B \<Longrightarrow> rows_of n (h b) (\<lambda>t. g (b * n + t))" "0 < n"
  shows "blocks_of B n m h"
  unfolding blocks_of_def
proof (intro allI)
  fix ys
  have "(\<forall>i < B * n. g i = Inr (ys ! i)) \<longleftrightarrow> (\<forall>b < B. \<forall>t < n. g (b * n + t) = Inr (ys ! (b * n + t)))"
    by (rule all_blocks [OF assms(3)])
  moreover have "(\<forall>t < n. g (b * n + t) = Inr (ys ! (b * n + t))) \<longleftrightarrow> h b = Inr (block n ys b)"
    if "length ys = B * n" "b < B" for b
    unfolding rows_ofD [OF assms(2) [OF that(2)]] using length_block [OF that] nth_block [OF that] by auto
  ultimately show "m = Inr ys \<longleftrightarrow> length ys = B * n \<and> (\<forall>b < B. h b = Inr (block n ys b))"
    unfolding rows_ofD [OF assms(1)] by blast
qed

lemma blocks_of_bind:
  assumes m: "blocks_of B n m g" and len: "\<And>b y. b < B \<Longrightarrow> g b = Inr y \<Longrightarrow> length y = n"
    and f: "\<And>ys. length ys = B * n \<Longrightarrow> blocks_of B k (f ys) (\<lambda>b. f' b (block n ys b))"
  shows "blocks_of B k (bindE m f) (\<lambda>b. bindE (g b) (f' b))"
  unfolding blocks_of_def
proof (intro allI)
  fix zs
  show "bindE m f = Inr zs \<longleftrightarrow> length zs = B * k \<and> (\<forall>b < B. bindE (g b) (f' b) = Inr (block k zs b))"
  proof
    assume "bindE m f = Inr zs"
    then obtain ys where ys: "m = Inr ys" "f ys = Inr zs" by (auto simp: bindE_Inr_iff)
    have r: "length ys = B * n" "\<forall>b < B. g b = Inr (block n ys b)" using ys(1) unfolding blocks_ofD [OF m] by blast+
    have "length zs = B * k \<and> (\<forall>b < B. f' b (block n ys b) = Inr (block k zs b))"
      using ys(2) unfolding blocks_ofD [OF f [OF r(1)]] .
    with r show "length zs = B * k \<and> (\<forall>b < B. bindE (g b) (f' b) = Inr (block k zs b))" by simp
  next
    assume r: "length zs = B * k \<and> (\<forall>b < B. bindE (g b) (f' b) = Inr (block k zs b))"
    then have "\<forall>b < B. \<exists>y. length y = n \<and> g b = Inr y \<and> f' b y = Inr (block k zs b)"
      using len by (fastforce simp: bindE_Inr_iff)
    then obtain ys where ys: "length ys = B * n" "\<forall>b < B. g b = Inr (block n ys b) \<and> f' b (block n ys b) = Inr (block k zs b)"
      by (rule blocks_choice)
    then have "f ys = Inr zs" unfolding blocks_ofD [OF f [OF ys(1)]] using r by blast
    moreover have "m = Inr ys" unfolding blocks_ofD [OF m] using ys by blast
    ultimately show "bindE m f = Inr zs" by simp
  qed
qed

lemma blocks_of_const:
  assumes "0 < B" "\<And>v. c = Inr v \<Longrightarrow> blocks_of B n (f v) (\<lambda>b. f' b v)"
  shows "blocks_of B n (bindE c f) (\<lambda>b. bindE c (f' b))"
proof (cases c)
  case (Inl e)
  then show ?thesis using assms(1) by (auto simp: blocks_of_def)
qed (simp add: assms(2))

lemma blocks_of_cong: "blocks_of B n m g \<Longrightarrow> (\<And>b. b < B \<Longrightarrow> g b = g' b) \<Longrightarrow> blocks_of B n m g'"
  by (simp add: blocks_of_def)

section \<open>Attention by token\<close>

definition token_qkv ::
  "('f, 'd) fpu \<Rightarrow> nat \<Rightarrow> at_weights \<Rightarrow> nat \<Rightarrow> 'f list \<Rightarrow> ('f list \<times> 'f list \<times> 'f list) result" where
  "token_qkv F l W pos x =
     (let qn = DG_HEADS * dg_head_dim l; kn = dg_kv_heads l * dg_head_dim l in
      bindE (mm1 F (at_q W) qn DG_H x) (\<lambda>q.
      bindE (mm1 F (at_k W) kn DG_H x) (\<lambda>k.
      bindE (case at_v W of Some w \<Rightarrow> mm1 F w kn DG_H x | None \<Rightarrow> Inr k) (\<lambda>v.
        prepare_token F l (at_qnorm W) (at_knorm W) pos (q, k, v)))))"

definition token_out :: "('f, 'd) fpu \<Rightarrow> DGModel \<Rightarrow> nat \<Rightarrow> 'f list \<Rightarrow> 'f list result" where
  "token_out F m l a =
     bindE (dg_layer_tensor m l ''self_attn.o_proj.weight'') (\<lambda>ow. mm1 F ow DG_H (DG_HEADS * dg_head_dim l) a)"

text \<open>The K/V rows of prepared tokens.\<close>

definition own_kv :: "('f list \<times> 'f list \<times> 'f list) list \<Rightarrow> 'f DGKV" where
  "own_kv qkv = \<lparr>kv_k = map (fst \<circ> snd) qkv, kv_v = map (snd \<circ> snd) qkv\<rparr>"

lemma own_kv_sel: "kv_k (own_kv qkv) = map (fst \<circ> snd) qkv" "kv_v (own_kv qkv) = map (snd \<circ> snd) qkv"
  by (simp_all add: own_kv_def)

lemma rows_of_collect_iff: "rows_of n m g \<Longrightarrow> m = Inr ys \<longleftrightarrow> collect g [0..<n] = Inr ys"
  unfolding rows_of_def collect_nth by auto

lemma rows_of_kv:
  assumes "0 < n" "n \<le> JB_MAX_CTX" "length x = n" "length k = n" "\<forall>t < n. mm1 F (at_k W) rows cols (x ! t) = Inr (k ! t)"
  shows "rows_of n (case at_v W of Some w \<Rightarrow> dg_mm F w x rows cols | None \<Rightarrow> Inr k)
    (\<lambda>t. case at_v W of Some w \<Rightarrow> mm1 F w rows cols (x ! t) | None \<Rightarrow> Inr (k ! t))"
proof (cases "at_v W")
  case None
  then show ?thesis using assms(4) by (auto simp: rows_of_def intro: nth_equalityI)
next
  case (Some w)
  then show ?thesis using rows_of_mm [OF assms(1-3) refl] by simp
qed

lemma qkv_rows:
  assumes "0 < n" "n \<le> JB_MAX_CTX" "length x = n"
  shows "rows_of n
    (bindE (dg_mm F (at_q W) x (DG_HEADS * dg_head_dim l) DG_H) (\<lambda>q.
     bindE (dg_mm F (at_k W) x (dg_kv_heads l * dg_head_dim l) DG_H) (\<lambda>k.
     bindE (case at_v W of Some w \<Rightarrow> dg_mm F w x (dg_kv_heads l * dg_head_dim l) DG_H | None \<Rightarrow> Inr k) (\<lambda>v.
       collect (\<lambda>ti. prepare_token F l (at_qnorm W) (at_knorm W) (pos ti) (q ! ti, k ! ti, v ! ti)) [0..<n]))))
    (\<lambda>t. token_qkv F l W (pos t) (x ! t))"
  unfolding token_qkv_def Let_def
  by (intro rows_of_bind [OF rows_of_mm [OF assms refl]] rows_of_bind [OF rows_of_kv [OF assms]] rows_of_collect_upt)

lemma attention_by_token:
  assumes "0 < segments * seq" "segments * seq \<le> JB_MAX_CTX" "length x = segments * seq"
  shows "dg_attention_segments F m l x segments seq pos0 cache lens out mode = Inr r \<longleftrightarrow>
    (\<exists>W qkv y kv. dg_at_weights m l = Inr W \<and>
      collect (\<lambda>i. token_qkv F l W (row_pos cache pos0 (i div seq) (i mod seq)) (x ! i)) [0..<segments * seq] = Inr qkv \<and>
      collect (\<lambda>i. token_out F m l (attention_token F l mode seq (segment_cache cache (i div seq))
          (segment_own seq (kv_k (own_kv qkv)) (kv_v (own_kv qkv)) (i div seq)) (i mod seq) (map fst qkv ! i))) [0..<segments * seq] = Inr y \<and>
      (case out of Some planned \<Rightarrow> dg_kv_output planned cache lens segments seq (kv_k (own_kv qkv)) (kv_v (own_kv qkv))
       | None \<Rightarrow> Inr []) = Inr kv \<and> r = (y, kv))"
proof -
  let ?n = "segments * seq"
  let ?a = "\<lambda>qkv i. attention_token F l mode seq (segment_cache cache (i div seq))
          (segment_own seq (kv_k (own_kv qkv)) (kv_v (own_kv qkv)) (i div seq)) (i mod seq) (map fst qkv ! i)"
  have out: "rows_of ?n (bindE (dg_layer_tensor m l ''self_attn.o_proj.weight'') (\<lambda>ow.
      dg_mm F ow (map (?a qkv) [0..<?n]) DG_H (DG_HEADS * dg_head_dim l))) (\<lambda>i. token_out F m l (?a qkv i))" for qkv
    unfolding token_out_def by (rule rows_of_const [OF assms(1)], rule rows_of_mm [OF assms(1,2)]) simp_all
  show ?thesis
    unfolding rows_of_collect_iff [OF qkv_rows [OF assms], symmetric] rows_of_collect_iff [OF out, symmetric]
    unfolding dg_attention_segments_def Let_def own_kv_sel
    by (auto simp: bindE_Inr_iff)
qed

section \<open>Attention by segment\<close>

lemma block_own: "segment_own n (kv_k (own_kv qkv)) (kv_v (own_kv qkv)) b = own_kv (block n qkv b)"
  by (simp add: segment_own_def own_kv_def block_def take_map drop_map)

text \<open>One segment: its tokens' queries, keys and values, and its rows.\<close>

definition segment_rows ::
  "('f, 'd) fpu \<Rightarrow> DGModel \<Rightarrow> nat \<Rightarrow> dg_mode \<Rightarrow> 'f DGKV \<Rightarrow> nat \<Rightarrow> 'f list list \<Rightarrow>
     (('f list \<times> 'f list \<times> 'f list) list \<times> 'f list list) \<Rightarrow> bool" where
  "segment_rows F m l mode c pos x = (\<lambda>(qkv, y). \<exists>W. dg_at_weights m l = Inr W \<and>
     length qkv = length x \<and> (\<forall>t < length x. token_qkv F l W (pos + t) (x ! t) = Inr (qkv ! t)) \<and>
     length y = length x \<and>
     (\<forall>t < length x. token_out F m l (attention_token F l mode (length x) c (own_kv qkv) t (fst (qkv ! t))) = Inr (y ! t)))"

lemma attention_by_segment:
  assumes n: "0 < segments" "0 < seq" "segments * seq \<le> JB_MAX_CTX" "length x = segments * seq"
  shows "dg_attention_segments F m l x segments seq pos0 cache lens out mode = Inr (y, kv) \<longleftrightarrow>
    (\<exists>qkv. length qkv = segments * seq \<and> length y = segments * seq \<and>
      (\<forall>b < segments. segment_rows F m l mode (segment_cache cache b) (row_pos cache pos0 b 0) (block seq x b)
         (block seq qkv b, block seq y b)) \<and>
      (case out of Some planned \<Rightarrow> dg_kv_output planned cache lens segments seq (kv_k (own_kv qkv)) (kv_v (own_kv qkv))
       | None \<Rightarrow> Inr []) = Inr kv)"
proof -
  have pos: "0 < segments * seq" using n by simp
  have fq: "map fst qkv ! i = fst (qkv ! i)" if "length qkv = segments * seq" "i < segments * seq" for qkv :: "('a list \<times> 'a list \<times> 'a list) list" and i
    using that by simp
  have row: "row_pos cache pos0 b 0 + t = row_pos cache pos0 b t" for b t
    by (simp add: row_pos_def)
  have q: "(\<forall>i < segments * seq. token_qkv F l W (row_pos cache pos0 (i div seq) (i mod seq)) (x ! i) = Inr (qkv ! i)) \<longleftrightarrow>
      (\<forall>b < segments. \<forall>t < length (block seq x b). token_qkv F l W (row_pos cache pos0 b 0 + t) (block seq x b ! t) = Inr (block seq qkv b ! t))"
    if "length qkv = segments * seq" for W qkv
    using all_blocks [OF n(2), of segments "\<lambda>b t i. token_qkv F l W (row_pos cache pos0 b t) (x ! i) = Inr (qkv ! i)"] that
    by (simp add: length_block [OF n(4)] nth_block [OF n(4)] nth_block [OF that] row)
  have oo: "(\<forall>i < segments * seq. token_out F m l (attention_token F l mode seq (segment_cache cache (i div seq))
          (segment_own seq (kv_k (own_kv qkv)) (kv_v (own_kv qkv)) (i div seq)) (i mod seq) (map fst qkv ! i)) = Inr (y ! i)) \<longleftrightarrow>
      (\<forall>b < segments. \<forall>t < length (block seq x b). token_out F m l (attention_token F l mode (length (block seq x b)) (segment_cache cache b)
          (own_kv (block seq qkv b)) t (fst (block seq qkv b ! t))) = Inr (block seq y b ! t))"
    if "length qkv = segments * seq" "length y = segments * seq" for qkv
    using all_blocks [OF n(2), of segments "\<lambda>b t i. token_out F m l (attention_token F l mode seq (segment_cache cache b)
          (own_kv (block seq qkv b)) t (fst (qkv ! i))) = Inr (y ! i)"] that
    by (simp add: length_block [OF n(4)] nth_block [OF that(1)] nth_block [OF that(2)] block_own fq)
  have len: "length (block seq qkv b) = length (block seq x b)" if "b < segments" "length qkv = segments * seq" for b and qkv :: "'z list"
    using length_block [OF that(2,1)] length_block [OF n(4) that(1)] by simp
  show ?thesis
  proof
    assume "dg_attention_segments F m l x segments seq pos0 cache lens out mode = Inr (y, kv)"
    then obtain W qkv where W: "dg_at_weights m l = Inr W" and l1: "length qkv = segments * seq" and l2: "length y = segments * seq"
      and 1: "\<forall>i < segments * seq. token_qkv F l W (row_pos cache pos0 (i div seq) (i mod seq)) (x ! i) = Inr (qkv ! i)"
      and 2: "\<forall>i < segments * seq. token_out F m l (attention_token F l mode seq (segment_cache cache (i div seq))
          (segment_own seq (kv_k (own_kv qkv)) (kv_v (own_kv qkv)) (i div seq)) (i mod seq) (map fst qkv ! i)) = Inr (y ! i)"
      and kv: "(case out of Some planned \<Rightarrow> dg_kv_output planned cache lens segments seq (kv_k (own_kv qkv)) (kv_v (own_kv qkv))
        | None \<Rightarrow> Inr []) = Inr kv"
      unfolding attention_by_token [OF pos n(3,4)] collect_nth by auto
    have "segment_rows F m l mode (segment_cache cache b) (row_pos cache pos0 b 0) (block seq x b) (block seq qkv b, block seq y b)"
      if b: "b < segments" for b
      unfolding segment_rows_def prod.case using W 1 [unfolded q [OF l1]] 2 [unfolded oo [OF l1 l2]] len [OF b l1] len [OF b l2] b by blast
    with l1 l2 kv show "\<exists>qkv. length qkv = segments * seq \<and> length y = segments * seq \<and>
      (\<forall>b < segments. segment_rows F m l mode (segment_cache cache b) (row_pos cache pos0 b 0) (block seq x b)
         (block seq qkv b, block seq y b)) \<and>
      (case out of Some planned \<Rightarrow> dg_kv_output planned cache lens segments seq (kv_k (own_kv qkv)) (kv_v (own_kv qkv))
       | None \<Rightarrow> Inr []) = Inr kv" by blast
  next
    assume "\<exists>qkv. length qkv = segments * seq \<and> length y = segments * seq \<and>
      (\<forall>b < segments. segment_rows F m l mode (segment_cache cache b) (row_pos cache pos0 b 0) (block seq x b)
         (block seq qkv b, block seq y b)) \<and>
      (case out of Some planned \<Rightarrow> dg_kv_output planned cache lens segments seq (kv_k (own_kv qkv)) (kv_v (own_kv qkv))
       | None \<Rightarrow> Inr []) = Inr kv"
    then obtain qkv where l: "length qkv = segments * seq" "length y = segments * seq"
      and rows: "\<And>b. b < segments \<Longrightarrow> segment_rows F m l mode (segment_cache cache b) (row_pos cache pos0 b 0) (block seq x b)
         (block seq qkv b, block seq y b)"
      and kv: "(case out of Some planned \<Rightarrow> dg_kv_output planned cache lens segments seq (kv_k (own_kv qkv)) (kv_v (own_kv qkv))
       | None \<Rightarrow> Inr []) = Inr kv" by blast
    obtain W where W: "dg_at_weights m l = Inr W" using rows [OF n(1)] unfolding segment_rows_def by blast
    note r = rows [unfolded segment_rows_def prod.case W sum.inject]
    have "\<forall>i < segments * seq. token_qkv F l W (row_pos cache pos0 (i div seq) (i mod seq)) (x ! i) = Inr (qkv ! i)"
      unfolding q [OF l(1)] using r by blast
    moreover have "\<forall>i < segments * seq. token_out F m l (attention_token F l mode seq (segment_cache cache (i div seq))
          (segment_own seq (kv_k (own_kv qkv)) (kv_v (own_kv qkv)) (i div seq)) (i mod seq) (map fst qkv ! i)) = Inr (y ! i)"
      unfolding oo [OF l] using r by blast
    ultimately show "dg_attention_segments F m l x segments seq pos0 cache lens out mode = Inr (y, kv)"
      unfolding attention_by_token [OF pos n(3,4)] collect_nth using W l kv by auto
  qed
qed

section \<open>Passes over canvases\<close>

definition rows_only :: "('x \<times> 'o) result \<Rightarrow> 'x result" where
  "rows_only m = bindE m (\<lambda>(x, _). Inr x)"

lemma rows_only_Inr: "rows_only m = Inr x \<longleftrightarrow> (\<exists>y. m = Inr (x, y))"
  by (auto simp: rows_only_def bindE_Inr_iff)

lemma rows_only_bind: "rows_only (bindE m f) = bindE m (\<lambda>v. rows_only (f v))"
  by (simp add: rows_only_def bindE_assoc)

lemma blocks_of_collect:
  "length x = B * n \<Longrightarrow> 0 < n \<Longrightarrow> blocks_of B n (collect f x) (\<lambda>b. collect f (block n x b))"
  by (rule blocks_of_rows [OF rows_of_collect], assumption, rule rows_of_cong [OF rows_of_collect])
    (simp_all add: length_block nth_block)

lemma blocks_of_map:
  "length x = B * n \<Longrightarrow> 0 < n \<Longrightarrow> blocks_of B n (Inr (map f x)) (\<lambda>b. Inr (map f (block n x b)))"
  using blocks_of_collect [of x B n "\<lambda>v. Inr (f v)"] by (simp add: collect_pure)

lemma blocks_of_ff:
  assumes "0 < B" "0 < n" "B * n \<le> JB_MAX_CTX" "length x = B * n" "\<forall>x. distinct_route F m l x"
  shows "blocks_of B n (dg_ff F m l x) (\<lambda>b. dg_ff F m l (block n x b))"
proof (rule blocks_of_rows)
  show "rows_of (B * n) (dg_ff F m l x) (\<lambda>t. ff_token F m l (x ! t))" using assms by (intro dg_ff_rows) simp_all
  have le: "n \<le> JB_MAX_CTX" using assms(1,3) by (metis One_nat_def Suc_leI le_trans mult_le_mono1 nat_mult_1)
  fix b assume b: "b < B"
  show "rows_of n (dg_ff F m l (block n x b)) (\<lambda>t. ff_token F m l (x ! (b * n + t)))"
  proof (rule rows_of_cong)
    show "rows_of n (dg_ff F m l (block n x b)) (\<lambda>t. ff_token F m l (block n x b ! t))"
      using assms(5) by (intro dg_ff_rows assms(2) le length_block [OF assms(4) b]) blast
  qed (simp add: nth_block [OF assms(4) b])
qed (rule assms(2))

lemma collect_length: "collect f xs = Inr ys \<Longrightarrow> length ys = length xs"
  by (simp add: collect_nth)

lemma dg_ff_length: "dg_ff F m l x = Inr y \<Longrightarrow> length y = length x"
  unfolding dg_ff_def by (auto simp: bindE_Inr_iff dest!: collect_length)

text \<open>An attention that works by segment: \<open>att1 b\<close> is what segment \<open>b\<close> has alone.\<close>

definition by_segment :: "nat \<Rightarrow> nat \<Rightarrow> ('f list list \<Rightarrow> ('f list list \<times> 'o) result) \<Rightarrow>
    (nat \<Rightarrow> 'f list list \<Rightarrow> ('f list list \<times> 'p) result) \<Rightarrow> bool" where
  "by_segment B n att att1 \<longleftrightarrow>
     (\<forall>z. length z = B * n \<longrightarrow> blocks_of B n (rows_only (att z)) (\<lambda>b. rows_only (att1 b (block n z b)))) \<and>
     (\<forall>b < B. \<forall>z y. length z = n \<longrightarrow> rows_only (att1 b z) = Inr y \<longrightarrow> length y = n)"

lemma by_segment_len:
  "by_segment B n att att1 \<Longrightarrow> b < B \<Longrightarrow> length z = n \<Longrightarrow> rows_only (att1 b z) = Inr y \<Longrightarrow> length y = n"
  unfolding by_segment_def by blast

lemma by_segment_cong:
  assumes "by_segment B n att att1" "\<And>z. length z = B * n \<Longrightarrow> att z = att' z" "\<And>b z. b < B \<Longrightarrow> att1 b z = att1' b z"
  shows "by_segment B n att' att1'"
  using assms unfolding by_segment_def blocks_of_def by simp

lemma layer_blocks:
  assumes "0 < B" "0 < n" "B * n \<le> JB_MAX_CTX" "length x = B * n" "\<forall>x. distinct_route F m l x" "by_segment B n att att1"
  shows "blocks_of B n (rows_only (dg_layer_with F m l att x)) (\<lambda>b. rows_only (dg_layer_with F m l (att1 b) (block n x b)))"
proof -
  have eq: "rows_only (dg_layer_with F m l att x) =
     bindE (dg_layer_tensor m l ''input_layernorm.weight'') (\<lambda>inw.
     bindE (dg_layer_tensor m l ''post_attention_layernorm.weight'') (\<lambda>pa.
     bindE (collect (dg_rms_ref F (Some inw)) x) (\<lambda>z.
     bindE (rows_only (att z)) (\<lambda>z.
     bindE (collect (dg_rms_ref F (Some pa)) z) (\<lambda>z.
     bindE (dg_ff F m l (map2 (map2 (fl_add F)) z x)) (\<lambda>x.
     bindE (dg_layer_tensor m l ''layer_scalar'') (\<lambda>sw.
     bindE (dg_at F sw 0) (\<lambda>sc. Inr (map (map (\<lambda>v. fl_mul F v sc)) x)))))))))" for att :: "'a list list \<Rightarrow> ('a list list \<times> 'z) result" and x
    unfolding dg_layer_with_def rows_only_def by (simp add: bindE_assoc case_prod_unfold cong: bindE_cong)
  note b = length_block [OF assms(4)]
  have att: "length z = B * n \<Longrightarrow> blocks_of B n (rows_only (att z)) (\<lambda>b. rows_only (att1 b (block n z b)))" for z
    using assms(6) by (simp add: by_segment_def)
  note att_len = by_segment_len [OF assms(6)]
  show ?thesis
    unfolding eq
    apply (rule blocks_of_const [OF assms(1)])
    apply (rule blocks_of_const [OF assms(1)])
    apply (rule blocks_of_bind [OF blocks_of_collect [OF assms(4,2)]])
     apply (simp add: collect_length b)
    apply (rule blocks_of_bind)
      apply (erule att)
     apply (rule att_len, assumption, erule (1) length_block, assumption)
    apply (rule blocks_of_bind [OF blocks_of_collect [OF _ assms(2)]], assumption)
     apply (drule collect_length, simp only:, rule length_block, assumption, assumption)
    apply (rule blocks_of_cong)
     apply (rule blocks_of_bind [OF blocks_of_ff [OF assms(1-3) _ assms(5)]])
       apply (simp add: assms(4))
      apply (drule dg_ff_length, simp only:, rule length_block [where B = B], simp add: assms(4), assumption)
     apply (rule blocks_of_const [OF assms(1)])
     apply (rule blocks_of_const [OF assms(1)])
     apply (rule blocks_of_map [OF _ assms(2)], assumption)
    apply (simp add: map2_block)
    done
qed

fun run_rows :: "(nat \<Rightarrow> 'x \<Rightarrow> ('x \<times> 'o) result) \<Rightarrow> nat list \<Rightarrow> 'x \<Rightarrow> 'x result" where
  "run_rows layer [] x = Inr x"
| "run_rows layer (l # ls) x = bindE (rows_only (layer l x)) (run_rows layer ls)"

lemma run_layers_rows: "rows_only (run_layers layer ls x) = run_rows layer ls x"
  by (induction ls arbitrary: x) (simp_all add: rows_only_def bindE_assoc case_prod_unfold cong: bindE_cong)

text \<open>A pass over canvases with an attention of each layer; its rows.\<close>

definition canvas_pass ::
  "('f, 'd) fpu \<Rightarrow> DGModel \<Rightarrow> (nat \<Rightarrow> 'f list list \<Rightarrow> ('f list list \<times> 'o) result) \<Rightarrow> int list \<Rightarrow> 'f list list result" where
  "canvas_pass F m att canvas =
     bindE (dg_embed F m canvas True) (\<lambda>x.
     bindE (run_rows (\<lambda>l. dg_layer_with F m l (att l)) [0..<DG_L] x) (dg_final_norm F m))"

lemma layer_length: 
  assumes "rows_only (dg_layer_with F m l att x) = Inr y" 
    "\<And>z w. length z = length x \<Longrightarrow> rows_only (att z) = Inr w \<Longrightarrow> length w = length x"
  shows "length y = length x"
proof -
  obtain inw pa z w kv u v sc where
    z: "collect (dg_rms_ref F (Some inw)) x = Inr z" and w: "att z = Inr (w, kv)"
    and u: "collect (dg_rms_ref F (Some pa)) w = Inr u"
    and v: "dg_ff F m l (map2 (map2 (fl_add F)) u x) = Inr v" and y: "y = map (map (\<lambda>v. fl_mul F v sc)) v"
    using assms(1) unfolding dg_layer_with_def rows_only_Inr bindE_Inr_iff by (auto simp: bindE_Inr_iff; blast)
  have "rows_only (att z) = Inr w" using w by (simp add: rows_only_def)
  with assms(2) collect_length [OF z] have "length w = length x" by blast
  with collect_length [OF u] dg_ff_length [OF v] show ?thesis by (simp add: y)
qed

lemma run_rows_blocks:
  assumes n: "0 < B" "0 < n" "B * n \<le> JB_MAX_CTX" and ok: "\<forall>l x. distinct_route F m l x"
    and att: "\<And>l. by_segment B n (att l) (\<lambda>b. att1 b l)" and "length x = B * n"
  shows "blocks_of B n (run_rows (\<lambda>l. dg_layer_with F m l (att l)) ls x)
    (\<lambda>b. run_rows (\<lambda>l. dg_layer_with F m l (att1 b l)) ls (block n x b))"
  using assms(6)
proof (induction ls arbitrary: x)
  case Nil
  then show ?case using blocks_of_map [of x B n "\<lambda>v. v"] n(2) by simp
next
  case (Cons l ls)
  have "blocks_of B n (bindE (rows_only (dg_layer_with F m l (att l) x)) (run_rows (\<lambda>l. dg_layer_with F m l (att l)) ls))
    (\<lambda>b. bindE (rows_only (dg_layer_with F m l (att1 b l) (block n x b))) (run_rows (\<lambda>l. dg_layer_with F m l (att1 b l)) ls))"
  proof (rule blocks_of_bind [OF layer_blocks [OF n Cons.prems _ att]])
    show "\<forall>x. distinct_route F m l x" using ok by blast
  next
    fix b y assume b: "b < B" and y: "rows_only (dg_layer_with F m l (att1 b l) (block n x b)) = Inr y"
    have l: "length (block n x b) = n" by (rule length_block [OF Cons.prems b])
    have "length w = length (block n x b)" if "length z = length (block n x b)" "rows_only (att1 b l z) = Inr w" for z w
      unfolding l by (rule by_segment_len [OF att b _ that(2)]) (simp add: that(1) l)
    with y have "length y = length (block n x b)" by (rule layer_length)
    with l show "length y = n" by simp
  next
    fix ys :: "'a list list" assume "length ys = B * n"
    then show "blocks_of B n (run_rows (\<lambda>l. dg_layer_with F m l (att l)) ls ys)
      (\<lambda>b. run_rows (\<lambda>l. dg_layer_with F m l (att1 b l)) ls (block n ys b))" by (rule Cons.IH)
  qed
  then show ?case by simp
qed

lemma run_rows_length:
  assumes "\<And>l z w. length z = length x \<Longrightarrow> rows_only (att l z) = Inr w \<Longrightarrow> length w = length x"
    "run_rows (\<lambda>l. dg_layer_with F m l (att l)) ls x = Inr y"
  shows "length y = length x"
  using assms
proof (induction ls arbitrary: x)
  case Nil
  from Nil.prems(2) show ?case by simp
next
  case (Cons l ls)
  from Cons.prems(2) obtain z where z: "rows_only (dg_layer_with F m l (att l) x) = Inr z"
    "run_rows (\<lambda>l. dg_layer_with F m l (att l)) ls z = Inr y" by (auto simp: bindE_Inr_iff)
  have len: "length z = length x" using z(1) by (rule layer_length) (rule Cons.prems(1))
  have "length y = length z"
  proof (rule Cons.IH [OF _ z(2)])
    fix l v w assume "length v = length z" "rows_only (att l v) = Inr w"
    then show "length w = length z" unfolding len by (rule Cons.prems(1))
  qed
  with len show ?case by simp
qed

lemma canvas_pass_blocks:
  assumes n: "0 < B" "0 < n" "B * n \<le> JB_MAX_CTX" "length canvas = B * n" and ok: "\<forall>l x. distinct_route F m l x"
    and att: "\<And>l. by_segment B n (att l) (\<lambda>b. att1 b l)"
  shows "blocks_of B n (canvas_pass F m att canvas) (\<lambda>b. canvas_pass F m (att1 b) (block n canvas b))"
proof -
  have "length y = n" if "b < B" "length x = n" "run_rows (\<lambda>l. dg_layer_with F m l (att1 b l)) [0..<DG_L] x = Inr y" for b x y
  proof -
    have "length w = length x" if "length z = length x" "rows_only (att1 b l z) = Inr w" for l z w
      unfolding \<open>length x = n\<close> by (rule by_segment_len [OF att \<open>b < B\<close> _ that(2)]) (simp add: that(1) \<open>length x = n\<close>)
    from run_rows_length [OF this that(3)] that(2) show ?thesis by simp
  qed
  note run = blocks_of_bind [OF run_rows_blocks [OF n(1-3) ok att] this]
  show ?thesis
    unfolding canvas_pass_def dg_embed_def dg_final_norm_def bindE_assoc
    apply (rule blocks_of_const [OF n(1)])
    apply (rule blocks_of_bind [OF blocks_of_collect [OF n(4,2)]])
     apply (drule collect_length, simp only:, rule length_block [OF n(4)], assumption)
    apply (rule run, assumption, assumption, erule (1) length_block, assumption)
    apply (rule blocks_of_const [OF n(1)])
    apply (rule blocks_of_collect [OF _ n(2)], assumption)
    done
qed

section \<open>Canvases\<close>

lemma one_segment:
  assumes "0 < n" "n \<le> JB_MAX_CTX" "length z = n"
  shows "rows_only (dg_attention F m l z np (Some c) None DG_CANVAS 1) = Inr y \<longleftrightarrow>
    (\<exists>qkv. length qkv = n \<and> length y = n \<and> segment_rows F m l DG_CANVAS c (kv_n c) z (qkv, y))"
proof -
  have "rows_only (dg_attention F m l z np (Some c) None DG_CANVAS 1) = Inr y \<longleftrightarrow>
      (\<exists>kv. dg_attention_segments F m l z 1 n np (Some [c]) [n] None DG_CANVAS = Inr (y, kv))"
    using assms by (simp add: dg_attention_def rows_only_Inr Let_def)
  also have "\<dots> \<longleftrightarrow> (\<exists>qkv. length qkv = n \<and> length y = n \<and> segment_rows F m l DG_CANVAS c (kv_n c) z (qkv, y))"
    using attention_by_segment [of 1 n z F m l np "Some [c]" "[n]" None DG_CANVAS y] assms
    by (auto simp: segment_cache_def row_pos_def block_one)
  finally show ?thesis .
qed

lemma segments_by_segment:
  assumes n: "0 < B" "0 < n" "B * n \<le> JB_MAX_CTX" and cs: "length cs = B"
  shows "by_segment B n (\<lambda>z. dg_attention_segments F m l z B n p0 (Some cs) lens None DG_CANVAS)
    (\<lambda>b z. dg_attention F m l z np (Some (cs ! b)) None DG_CANVAS 1)"
  unfolding by_segment_def blocks_of_def
proof (intro conjI allI impI)
  have le: "n \<le> JB_MAX_CTX" using n(1,3) by (metis One_nat_def Suc_leI le_trans mult_le_mono1 nat_mult_1)
  fix z ys :: "'a list list" assume z: "length z = B * n"
  let ?one = "\<lambda>b qkv y. segment_rows F m l DG_CANVAS (cs ! b) (kv_n (cs ! b)) (block n z b) (qkv, y)"
  have "rows_only (dg_attention_segments F m l z B n p0 (Some cs) lens None DG_CANVAS) = Inr ys \<longleftrightarrow>
      length ys = B * n \<and> (\<exists>qkv. length qkv = B * n \<and> (\<forall>b < B. ?one b (block n qkv b) (block n ys b)))"
    unfolding rows_only_Inr using attention_by_segment [OF n z, of F m l p0 "Some cs" lens None DG_CANVAS ys]
    by (auto simp: segment_cache_def row_pos_def)
  also have "\<dots> \<longleftrightarrow> length ys = B * n \<and> (\<forall>b < B. \<exists>qkv. length qkv = n \<and> ?one b qkv (block n ys b))"
  proof -
    have "(\<exists>qkv. length qkv = B * n \<and> (\<forall>b < B. ?one b (block n qkv b) (block n ys b))) \<longleftrightarrow>
        (\<forall>b < B. \<exists>qkv. length qkv = n \<and> ?one b qkv (block n ys b))"
    proof
      assume "\<exists>qkv. length qkv = B * n \<and> (\<forall>b < B. ?one b (block n qkv b) (block n ys b))"
      then show "\<forall>b < B. \<exists>qkv. length qkv = n \<and> ?one b qkv (block n ys b)" using length_block by blast
    next
      assume "\<forall>b < B. \<exists>qkv. length qkv = n \<and> ?one b qkv (block n ys b)"
      then obtain qkv where "length qkv = B * n" "\<forall>b < B. ?one b (block n qkv b) (block n ys b)"
        by (rule blocks_choice)
      then show "\<exists>qkv. length qkv = B * n \<and> (\<forall>b < B. ?one b (block n qkv b) (block n ys b))" by blast
    qed
    then show ?thesis by blast
  qed
  also have "\<dots> \<longleftrightarrow> length ys = B * n \<and>
      (\<forall>b < B. rows_only (dg_attention F m l (block n z b) np (Some (cs ! b)) None DG_CANVAS 1) = Inr (block n ys b))"
  proof -
    have "rows_only (dg_attention F m l (block n z b) np (Some (cs ! b)) None DG_CANVAS 1) = Inr (block n ys b) \<longleftrightarrow>
        (\<exists>qkv. length qkv = n \<and> ?one b qkv (block n ys b))" if "length ys = B * n" "b < B" for b
      unfolding one_segment [OF n(2) le length_block [OF z that(2)]] using length_block [OF that] by simp
    then show ?thesis by blast
  qed
  finally show "rows_only (dg_attention_segments F m l z B n p0 (Some cs) lens None DG_CANVAS) = Inr ys \<longleftrightarrow> length ys = B * n \<and>
      (\<forall>b < B. rows_only (dg_attention F m l (block n z b) np (Some (cs ! b)) None DG_CANVAS 1) = Inr (block n ys b))" .
next
  have le: "n \<le> JB_MAX_CTX" using n(1,3) by (metis One_nat_def Suc_leI le_trans mult_le_mono1 nat_mult_1)
  fix b z y assume "length z = n" "rows_only (dg_attention F m l z np (Some (cs ! b)) None DG_CANVAS 1) = Inr y"
  with one_segment [OF n(2) le] show "length y = n" by blast
qed

lemma batch_by_segment:
  assumes "0 < B" "0 < n" "B * n \<le> JB_MAX_CTX"
  shows "by_segment B n (\<lambda>z. dg_attention F m l z np (Some c) None DG_CANVAS B)
    (\<lambda>b z. dg_attention F m l z np (Some c) None DG_CANVAS 1)"
proof -
  have "dg_attention F m l z np (Some c) None DG_CANVAS B =
      dg_attention_segments F m l z B n np (Some (replicate B c)) (replicate B n) None DG_CANVAS" if "length z = B * n" for z
    using that assms by (simp add: dg_attention_def Let_def)
  then show ?thesis
    by (intro by_segment_cong [OF segments_by_segment [OF assms, of "replicate B c" F m l np "replicate B n" np]]) simp_all
qed

lemma decode_pass:
  "dg_decode F m kv np canvas batch = canvas_pass F m (\<lambda>l z. dg_attention F m l z np (Some (kv ! l)) None DG_CANVAS batch) canvas"
  unfolding dg_decode_def canvas_pass_def run_layers_rows [symmetric] rows_only_def dg_layer_def
  by (simp add: bindE_assoc case_prod_unfold cong: bindE_cong)

lemma decode_multi_pass:
  "dg_decode_multi F m kv doc seq canvas =
     canvas_pass F m (\<lambda>l z. dg_attention_segments F m l z (length doc) seq 0 (Some (map (\<lambda>d. kv ! d ! l) doc))
       (replicate (length doc) seq) None DG_CANVAS) canvas"
  unfolding dg_decode_multi_def canvas_pass_def run_layers_rows [symmetric] rows_only_def dg_layer_multi_def
  by (simp add: bindE_assoc case_prod_unfold Let_def cong: bindE_cong)

lemma decode_batch_blocks:
  assumes "0 < batch" "0 < width" "batch * width \<le> JB_MAX_CTX" "length canvas = batch * width"
    "\<forall>l x. distinct_route F m l x"
  shows "blocks_of batch width (dg_decode F m kv np canvas batch) (\<lambda>b. dg_decode F m kv np (block width canvas b) 1)"
  unfolding decode_pass
  by (rule canvas_pass_blocks [OF assms]) (rule batch_by_segment [OF assms(1-3)])

lemma decode_multi_blocks:
  assumes "0 < length doc" "0 < width" "length doc * width \<le> JB_MAX_CTX" "length canvas = length doc * width"
    "\<forall>l x. distinct_route F m l x"
  shows "blocks_of (length doc) width (dg_decode_multi F m kv doc width canvas)
    (\<lambda>s. dg_decode F m (kv ! (doc ! s)) np (block width canvas s) 1)"
  unfolding decode_pass decode_multi_pass
proof (rule canvas_pass_blocks [OF assms])
  fix l
  have "by_segment (length doc) width (\<lambda>z. dg_attention_segments F m l z (length doc) width 0 (Some (map (\<lambda>d. kv ! d ! l) doc))
      (replicate (length doc) width) None DG_CANVAS)
    (\<lambda>b z. dg_attention F m l z np (Some (map (\<lambda>d. kv ! d ! l) doc ! b)) None DG_CANVAS 1)"
    by (rule segments_by_segment [OF assms(1-3)]) simp
  then show "by_segment (length doc) width (\<lambda>z. dg_attention_segments F m l z (length doc) width 0 (Some (map (\<lambda>d. kv ! d ! l) doc))
      (replicate (length doc) width) None DG_CANVAS)
    (\<lambda>b z. dg_attention F m l z np (Some (kv ! (doc ! b) ! l)) None DG_CANVAS 1)"
    by (rule by_segment_cong) simp_all
qed

text \<open>
  C31. Decoding a batch of canvases side by side over one document's K/V gives each canvas the hidden
  rows it has when it is decoded alone, and fails only when one of them fails alone. No token may
  choose an expert twice.
\<close>

theorem decode_batch_alone:
  assumes "0 < batch" "0 < width" "batch * width \<le> JB_MAX_CTX" "length canvas = batch * width"
    "\<forall>l x. distinct_route F m l x"
  shows "dg_decode F m kv np canvas batch = Inr h \<longleftrightarrow> length h = batch * width \<and>
    (\<forall>b < batch. dg_decode F m kv np (block width canvas b) 1 = Inr (block width h b))"
  by (rule blocks_ofD [OF decode_batch_blocks [OF assms]])

text \<open>
  C30. Decoding the canvases of several documents together gives each canvas the hidden rows that it
  has alone, over the K/V of its own document.
\<close>

theorem decode_multi_alone:
  assumes "0 < length doc" "0 < width" "length doc * width \<le> JB_MAX_CTX" "length canvas = length doc * width"
    "\<forall>l x. distinct_route F m l x"
  shows "dg_decode_multi F m kv doc width canvas = Inr h \<longleftrightarrow> length h = length doc * width \<and>
    (\<forall>s < length doc. dg_decode F m (kv ! (doc ! s)) np (block width canvas s) 1 = Inr (block width h s))"
  by (rule blocks_ofD [OF decode_multi_blocks [OF assms]])

theorem decode_batch_alone_witness:
  "\<forall>m kv np h. dg_decode flat_fpu m kv np [1, 2, 3, 4] 2 = Inr h \<longleftrightarrow> length h = 2 * 2 \<and>
    (\<forall>b < 2. dg_decode flat_fpu m kv np (block 2 [1, 2, 3, 4] b) 1 = Inr (block 2 h b))"
  by (intro allI decode_batch_alone) (simp_all add: JB_MAX_CTX_def flat_routes)

theorem decode_multi_alone_witness:
  "\<forall>m kv np h. dg_decode_multi flat_fpu m kv [1, 0] 2 [1, 2, 3, 4] = Inr h \<longleftrightarrow> length h = length [1, 0 :: nat] * 2 \<and>
    (\<forall>s < length [1, 0 :: nat]. dg_decode flat_fpu m (kv ! ([1, 0] ! s)) np (block 2 [1, 2, 3, 4] s) 1 = Inr (block 2 h s))"
  by (intro allI decode_multi_alone) (simp_all add: JB_MAX_CTX_def flat_routes)

end
