(* ===== verification/Prefix.thy ===== *)
theory Prefix
  imports Segments
begin

text \<open>
  Causal attention sees the past only, and it sees a cached row as it sees a row of its own. So the
  K/V of a prompt is the K/V of its beginning, extended by a suffix pass over the rest.
\<close>

section \<open>Cached rows and own rows\<close>

definition append_kv :: "'f DGKV \<Rightarrow> 'f DGKV \<Rightarrow> 'f DGKV" where
  "append_kv c d = \<lparr>kv_k = kv_k c @ kv_k d, kv_v = kv_v c @ kv_v d\<rparr>"

definition even_kv :: "'f DGKV \<Rightarrow> bool" where
  "even_kv c \<longleftrightarrow> length (kv_v c) = length (kv_k c)"

lemma kv_sel [simp]:
  "kv_k (append_kv c d) = kv_k c @ kv_k d" "kv_v (append_kv c d) = kv_v c @ kv_v d"
  "kv_k (take_kv n c) = take n (kv_k c)" "kv_v (take_kv n c) = take n (kv_v c)"
  "kv_k no_kv = []" "kv_v no_kv = []"
  by (simp_all add: append_kv_def take_kv_def no_kv_def)

lemma even_own [simp]: "even_kv (own_kv qkv)" "even_kv no_kv"
  by (simp_all add: even_kv_def own_kv_sel)

lemma own_kv_append: "own_kv (a @ b) = append_kv (own_kv a) (own_kv b)"
  by (simp add: own_kv_def append_kv_def)

lemma own_kv_take: "own_kv (take n a) = take_kv n (own_kv a)"
  by (simp add: own_kv_def take_kv_def take_map)

lemma append_no_kv [simp]: "append_kv no_kv c = c"
  by (simp add: append_kv_def no_kv_def)

lemma span_join:
  "stop \<le> length xs + length ys \<Longrightarrow> start \<le> stop \<Longrightarrow>
   span_of (xs @ ys) start stop =
     (if start < min stop (length xs) then span_of xs start (min stop (length xs)) else []) @
     (if max start (length xs) < stop then span_of ys (max start (length xs) - length xs) (stop - length xs) else [])"
  by (auto simp: span_of_def min_def max_def)

text \<open>The weighted values, from the scores and the values.\<close>

definition weigh :: "('f, 'd) fpu \<Rightarrow> nat \<Rightarrow> 'f list \<Rightarrow> 'f list list \<Rightarrow> 'f list" where
  "weigh F hw ts vs =
     (let mx = fold (\<lambda>t mx. if fl_less F mx t then t else mx) ts (fl_neg F (fl_max F));
          es = map (\<lambda>t. dg_expf F (fl_sub F t mx)) ts; den = foldl (fl_add F) (fl_zero F) es
      in foldl (\<lambda>oo (e, vv). map2 (\<lambda>y v. fl_add F y (fl_mul F (fl_div F e den) v)) oo vv)
           (replicate hw (fl_of_bits F 0)) (zip es vs))"

definition key_scores :: "('f, 'd) fpu \<Rightarrow> 'f list \<Rightarrow> nat \<Rightarrow> nat \<Rightarrow> 'f list list \<Rightarrow> nat \<Rightarrow> nat \<Rightarrow> 'f list" where
  "key_scores F qq hw kh K a b = (if a < b then dg_dots_each F qq (map (head_slice hw kh) (span_of K a b)) else [])"

lemma head_weigh:
  "attention_head F hw kh qq c own start stop =
     weigh F hw (key_scores F qq hw kh (kv_k c) start (min stop (kv_n c)) @
       (if max start (kv_n c) < stop
        then dg_dots_each F qq (map (head_slice hw kh) (span_of (kv_k own) (max start (kv_n c) - kv_n c) (stop - kv_n c))) else []))
      (map (\<lambda>j. head_slice hw kh (if j < kv_n c then kv_v c ! j else kv_v own ! (j - kv_n c))) [start..<stop])"
proof -
  have "(if stop < kv_n c then stop else kv_n c) = min stop (kv_n c)" "(if start > kv_n c then start else kv_n c) = max start (kv_n c)"
    by auto
  then show ?thesis unfolding attention_head_def weigh_def key_scores_def Let_def by simp
qed

lemma head_alone:
  "attention_head F hw kh qq no_kv K start stop =
     weigh F hw (key_scores F qq hw kh (kv_k K) start stop) (map (\<lambda>j. head_slice hw kh (kv_v K ! j)) [start..<stop])"
  unfolding head_weigh by (simp add: key_scores_def)

lemma head_cached:
  assumes "even_kv c" "stop \<le> kv_n c + kv_n own" "start \<le> stop"
  shows "attention_head F hw kh qq c own start stop = attention_head F hw kh qq no_kv (append_kv c own) start stop"
proof -
  have "key_scores F qq hw kh (kv_k c) start (min stop (kv_n c)) @
      (if max start (kv_n c) < stop
       then dg_dots_each F qq (map (head_slice hw kh) (span_of (kv_k own) (max start (kv_n c) - kv_n c) (stop - kv_n c))) else []) =
      key_scores F qq hw kh (kv_k c @ kv_k own) start stop"
    unfolding key_scores_def dg_dots_each_def using span_join [OF assms(2,3)] by auto
  moreover have "(if j < kv_n c then kv_v c ! j else kv_v own ! (j - kv_n c)) = (kv_v c @ kv_v own) ! j" for j
    using assms(1) by (simp add: even_kv_def nth_append)
  ultimately show ?thesis unfolding head_alone kv_sel by (simp only: head_weigh)
qed

lemma head_past:
  assumes "stop \<le> n"
  shows "attention_head F hw kh qq no_kv (take_kv n K) start stop = attention_head F hw kh qq no_kv K start stop"
proof -
  have "span_of (take n (kv_k K)) start stop = span_of (kv_k K) start stop"
    using assms by (simp add: span_of_def drop_take min_absorb1 diff_le_mono)
  moreover have "map (\<lambda>j. head_slice hw kh (take n (kv_v K) ! j)) [start..<stop] = map (\<lambda>j. head_slice hw kh (kv_v K ! j)) [start..<stop]"
    using assms by (intro map_cong) auto
  ultimately show ?thesis unfolding head_alone kv_sel key_scores_def by (simp only:)
qed

section \<open>A token and its past\<close>

text \<open>The attention of the token at position \<open>p\<close>, to the rows \<open>K\<close> up to its own.\<close>

definition past_attention :: "('f, 'd) fpu \<Rightarrow> nat \<Rightarrow> 'f DGKV \<Rightarrow> nat \<Rightarrow> 'f list \<Rightarrow> 'f list" where
  "past_attention F l K p q = attention_token F l DG_CAUSAL 0 no_kv K p q"

lemma range_causal:
  "mode \<noteq> DG_CANVAS \<Longrightarrow> attention_range full mode old n t = attention_range full DG_CAUSAL 0 0 (old + t)"
  "attention_range full DG_CAUSAL 0 0 p = (start, stop) \<Longrightarrow> start \<le> stop \<and> stop = p + 1"
  by (auto simp: attention_range_def Let_def split: if_splits)

lemma token_past:
  assumes "mode \<noteq> DG_CANVAS" "even_kv c" "t < kv_n own"
  shows "attention_token F l mode n c own t q = past_attention F l (append_kv c own) (kv_n c + t) q"
proof -
  obtain start stop where r: "attention_range (dg_full l) DG_CAUSAL 0 0 (kv_n c + t) = (start, stop)"
    by (cases "attention_range (dg_full l) DG_CAUSAL 0 0 (kv_n c + t)")
  with range_causal(2) [OF r] assms(3) have "stop \<le> kv_n c + kv_n own" "start \<le> stop" by simp_all
  note cached = head_cached [OF assms(2) this]
  show ?thesis
    by (simp add: past_attention_def attention_token_def range_causal(1) [OF assms(1)] r Let_def cached)
qed

lemma past_take:
  assumes "p < n"
  shows "past_attention F l (take_kv n K) p q = past_attention F l K p q"
proof -
  obtain start stop where r: "attention_range (dg_full l) DG_CAUSAL 0 0 p = (start, stop)"
    by (cases "attention_range (dg_full l) DG_CAUSAL 0 0 p")
  with range_causal(2) [OF r] assms(1) have "stop \<le> n" by simp
  note past = head_past [OF this]
  show ?thesis by (simp add: past_attention_def attention_token_def r Let_def past)
qed

text \<open>The tokens of a causal segment after the rows \<open>c\<close>.\<close>

definition past_rows ::
  "('f, 'd) fpu \<Rightarrow> DGModel \<Rightarrow> nat \<Rightarrow> 'f DGKV \<Rightarrow> 'f list list \<Rightarrow> (('f list \<times> 'f list \<times> 'f list) list \<times> 'f list list) \<Rightarrow> bool" where
  "past_rows F m l c x = (\<lambda>(qkv, y). \<exists>W. dg_at_weights m l = Inr W \<and>
     length qkv = length x \<and> (\<forall>t < length x. token_qkv F l W (kv_n c + t) (x ! t) = Inr (qkv ! t)) \<and>
     length y = length x \<and>
     (\<forall>t < length x. token_out F m l (past_attention F l (append_kv c (own_kv qkv)) (kv_n c + t) (fst (qkv ! t))) = Inr (y ! t)))"

lemma segment_past:
  assumes "mode \<noteq> DG_CANVAS" "even_kv c"
  shows "segment_rows F m l mode c (kv_n c) x (qkv, y) \<longleftrightarrow> past_rows F m l c x (qkv, y)"
proof -
  have "attention_token F l mode (length x) c (own_kv qkv) t (fst (qkv ! t)) =
      past_attention F l (append_kv c (own_kv qkv)) (kv_n c + t) (fst (qkv ! t))" if "length qkv = length x" "t < length x" for t
    using that by (intro token_past [OF assms]) (simp add: own_kv_sel)
  then show ?thesis unfolding segment_rows_def past_rows_def prod.case by (metis (no_types, lifting))
qed

lemma all_less_sum: "(\<forall>t < a + b. P t) \<longleftrightarrow> (\<forall>t < a. P t) \<and> (\<forall>t < b. P (a + t :: nat))"
proof (intro iffI conjI allI impI)
  fix t assume r: "(\<forall>t < a. P t) \<and> (\<forall>t < b. P (a + t))" and t: "t < a + b"
  show "P t"
  proof (cases "t < a")
    case False
    with t have "t - a < b" by simp
    with r have "P (a + (t - a))" by blast
    with False show ?thesis by simp
  qed (use r in blast)
qed auto

text \<open>A segment in two parts: the second comes after the rows of the first.\<close>

lemma past_append:
  assumes "even_kv c" "length qp = length xp" "length yp = length xp"
  shows "past_rows F m l c (xp @ xs) (qp @ qs, yp @ ys) \<longleftrightarrow>
    past_rows F m l c xp (qp, yp) \<and> past_rows F m l (append_kv c (own_kv qp)) xs (qs, ys)"
proof -
  let ?n = "length xp" and ?K = "append_kv c (own_kv (qp @ qs))"
  have K: "append_kv (append_kv c (own_kv qp)) (own_kv qs) = ?K" "even_kv ?K"
    "append_kv c (own_kv qp) = take_kv (kv_n c + ?n) ?K"
    using assms by (simp_all add: append_kv_def own_kv_def even_kv_def take_kv_def)
  have n: "kv_n (append_kv c (own_kv qp)) = kv_n c + ?n" by (simp add: own_kv_sel assms(2))
  have first: "past_attention F l ?K (kv_n c + t) q = past_attention F l (append_kv c (own_kv qp)) (kv_n c + t) q" if "t < ?n" for t q
    unfolding K(3) by (rule past_take [symmetric]) (use that in simp)
  have all: "(\<forall>t < length (xp @ xs). P t) \<longleftrightarrow> (\<forall>t < ?n. P t) \<and> (\<forall>t < length xs. P (?n + t))" for P
    using all_less_sum by simp
  have at: "(xp @ xs) ! t = xp ! t" "(qp @ qs) ! t = qp ! t" "(yp @ ys) ! t = yp ! t" if "t < ?n" for t
    using that assms(2,3) by (simp_all add: nth_append)
  have at': "(xp @ xs) ! (?n + t) = xs ! t" "(qp @ qs) ! (?n + t) = qs ! t" "(yp @ ys) ! (?n + t) = ys ! t" for t
    using assms(2,3) by (simp_all add: nth_append)
  show ?thesis
  proof (cases "dg_at_weights m l")
    case (Inr W)
    show ?thesis
      unfolding past_rows_def prod.case all K(1) n Inr at' add.assoc
      using assms(2,3) by (simp add: at first cong: conj_cong) blast
  qed (simp add: past_rows_def)
qed

section \<open>Causal attention in two parts\<close>

definition causal_kv :: "('f, 'd) fpu \<Rightarrow> DGModel \<Rightarrow> nat \<Rightarrow> 'f DGKV \<Rightarrow> 'f list list \<Rightarrow> 'f list list \<times> 'f DGKV list \<Rightarrow> bool" where
  "causal_kv F m l c x = (\<lambda>(y, kv). \<exists>qkv. past_rows F m l c x (qkv, y) \<and> kv = [append_kv c (own_kv qkv)])"

lemma kv_one:
  assumes "length qkv = n"
  shows "dg_kv_output [planned] cache [n] 1 n (kv_k (own_kv qkv)) (kv_v (own_kv qkv)) = Inr kv \<longleftrightarrow>
    planned = kv_n (segment_cache cache 0) + n \<and> kv = [append_kv (segment_cache cache 0) (own_kv qkv)]"
  using assms by (auto simp: dg_kv_output_def own_kv_sel append_kv_def Let_def)

lemma past_rows_length: "past_rows F m l c x (qkv, y) \<Longrightarrow> length qkv = length x \<and> length y = length x"
  by (auto simp: past_rows_def)

lemma one_block:
  "length z = n \<Longrightarrow> length q = n \<Longrightarrow> length y = n \<Longrightarrow>
     (\<forall>b < (1 :: nat). Q b (block n z b) (block n q b, block n y b)) \<longleftrightarrow> Q 0 z (q, y)"
  by (simp add: block_one)

lemma one_causal:
  assumes "0 < length z" "length z \<le> JB_MAX_CTX" "mode \<noteq> DG_CANVAS" "even_kv (segment_cache cache 0)"
    "row_pos cache p0 0 0 = kv_n (segment_cache cache 0)"
  shows "dg_attention_segments F m l z 1 (length z) p0 cache [length z] (Some [planned]) mode = Inr (y, kv) \<longleftrightarrow>
    planned = kv_n (segment_cache cache 0) + length z \<and> causal_kv F m l (segment_cache cache 0) z (y, kv)"
proof -
  let ?c = "segment_cache cache 0" and ?n = "length z"
  let ?out = "\<lambda>qkv. dg_kv_output [planned] cache [?n] 1 ?n (kv_k (own_kv qkv)) (kv_v (own_kv qkv)) = Inr kv"
  have "dg_attention_segments F m l z 1 ?n p0 cache [?n] (Some [planned]) mode = Inr (y, kv) \<longleftrightarrow>
      (\<exists>qkv. length qkv = 1 * ?n \<and> length y = 1 * ?n \<and>
        (\<forall>b < 1. segment_rows F m l mode (segment_cache cache b) (row_pos cache p0 b 0) (block ?n z b) (block ?n qkv b, block ?n y b)) \<and>
        (case Some [planned] of Some planned \<Rightarrow> dg_kv_output planned cache [?n] 1 ?n (kv_k (own_kv qkv)) (kv_v (own_kv qkv))
         | None \<Rightarrow> Inr []) = Inr kv)"
    by (rule attention_by_segment) (use assms(1,2) in simp_all)
  also have "\<dots> \<longleftrightarrow> (\<exists>qkv. length qkv = ?n \<and> length y = ?n \<and> segment_rows F m l mode ?c (kv_n ?c) z (qkv, y) \<and> ?out qkv)"
    unfolding mult_1 option.case assms(5) [symmetric]
    by (intro ex_cong1 conj_cong refl) (rule one_block [where Q = "\<lambda>b. segment_rows F m l mode (segment_cache cache b) (row_pos cache p0 b 0)"], simp_all)
  also have "\<dots> \<longleftrightarrow> (\<exists>qkv. past_rows F m l ?c z (qkv, y) \<and> planned = kv_n ?c + ?n \<and> kv = [append_kv ?c (own_kv qkv)])"
  proof (rule ex_cong1)
    fix qkv
    show "(length qkv = ?n \<and> length y = ?n \<and> segment_rows F m l mode ?c (kv_n ?c) z (qkv, y) \<and> ?out qkv) \<longleftrightarrow>
        (past_rows F m l ?c z (qkv, y) \<and> planned = kv_n ?c + ?n \<and> kv = [append_kv ?c (own_kv qkv)])"
    proof (cases "past_rows F m l ?c z (qkv, y)")
      case True
      with past_rows_length [OF this] kv_one [of qkv ?n planned cache kv] show ?thesis
        unfolding segment_past [OF assms(3,4)] by simp
    qed (simp add: segment_past [OF assms(3,4)])
  qed
  also have "\<dots> \<longleftrightarrow> planned = kv_n ?c + ?n \<and> causal_kv F m l ?c z (y, kv)" by (auto simp: causal_kv_def)
  finally show ?thesis .
qed

lemma causal_attention:
  assumes "0 < length z" "length z \<le> JB_MAX_CTX"
  shows "dg_attention F m l z 0 None (Some planned) DG_CAUSAL 1 = Inr (y, kv) \<longleftrightarrow>
    planned = length z \<and> causal_kv F m l no_kv z (y, kv)"
proof -
  have "dg_attention F m l z 0 None (Some planned) DG_CAUSAL 1 =
      dg_attention_segments F m l z 1 (length z) 0 None [length z] (Some [planned]) DG_CAUSAL"
    by (simp add: dg_attention_def Let_def)
  with one_causal [OF assms, of DG_CAUSAL None 0 F m l planned y kv] show ?thesis
    by (simp add: segment_cache_def row_pos_def)
qed

lemma suffix_length:
  assumes "0 < length z" "length z \<le> JB_MAX_CTX" "dg_attention F m l z p0 (Some c) (Some planned) DG_SUFFIX 1 = Inr (y, kv)"
  shows "length y = length z"
proof -
  have "dg_attention_segments F m l z 1 (length z) p0 (Some [c]) [length z] (Some [planned]) DG_SUFFIX = Inr (y, kv)"
    using assms(3) by (simp add: dg_attention_def Let_def)
  then show ?thesis using assms(1,2) by (subst (asm) attention_by_segment) auto
qed

lemma suffix_attention:
  assumes "0 < length z" "length z \<le> JB_MAX_CTX" "even_kv c"
  shows "dg_attention F m l z p0 (Some c) (Some planned) DG_SUFFIX 1 = Inr (y, kv) \<longleftrightarrow>
    planned = kv_n c + length z \<and> causal_kv F m l c z (y, kv)"
proof -
  have "dg_attention F m l z p0 (Some c) (Some planned) DG_SUFFIX 1 =
      dg_attention_segments F m l z 1 (length z) p0 (Some [c]) [length z] (Some [planned]) DG_SUFFIX"
    by (simp add: dg_attention_def Let_def)
  with one_causal [OF assms(1,2), of DG_SUFFIX "Some [c]" p0 F m l planned y kv] assms(3) show ?thesis
    by (simp add: segment_cache_def row_pos_def)
qed

lemma causal_even: "causal_kv F m l c x (y, [k]) \<Longrightarrow> even_kv c \<Longrightarrow> even_kv k \<and> kv_n k = kv_n c + length x \<and> length y = length x"
  by (auto simp: causal_kv_def past_rows_def even_kv_def own_kv_sel)

lemma causal_append:
  assumes "even_kv c"
  shows "causal_kv F m l c (xp @ xs) (y, kv) \<longleftrightarrow>
    (\<exists>yp ys k. y = yp @ ys \<and> causal_kv F m l c xp (yp, [k]) \<and> causal_kv F m l k xs (ys, kv))"
proof
  assume "causal_kv F m l c (xp @ xs) (y, kv)"
  then obtain qkv where q: "past_rows F m l c (xp @ xs) (qkv, y)" "kv = [append_kv c (own_kv qkv)]"
    by (auto simp: causal_kv_def)
  define qp qs yp ys where "qp = take (length xp) qkv" and "qs = drop (length xp) qkv"
    and "yp = take (length xp) y" and "ys = drop (length xp) y"
  have len: "length qkv = length (xp @ xs)" "length y = length (xp @ xs)" using q(1) by (auto simp: past_rows_def)
  have e: "qkv = qp @ qs" "y = yp @ ys" "length qp = length xp" "length yp = length xp"
    using len by (simp_all add: qp_def qs_def yp_def ys_def)
  have "past_rows F m l c xp (qp, yp) \<and> past_rows F m l (append_kv c (own_kv qp)) xs (qs, ys)"
    using q(1) unfolding e(1,2) past_append [OF assms e(3,4)] .
  moreover have "kv = [append_kv (append_kv c (own_kv qp)) (own_kv qs)]"
    unfolding q(2) e(1) own_kv_append by (simp add: append_kv_def)
  ultimately show "\<exists>yp ys k. y = yp @ ys \<and> causal_kv F m l c xp (yp, [k]) \<and> causal_kv F m l k xs (ys, kv)"
    using e(2) unfolding causal_kv_def by blast
next
  assume "\<exists>yp ys k. y = yp @ ys \<and> causal_kv F m l c xp (yp, [k]) \<and> causal_kv F m l k xs (ys, kv)"
  then obtain yp ys qp qs where y: "y = yp @ ys" and p: "past_rows F m l c xp (qp, yp)"
    and s: "past_rows F m l (append_kv c (own_kv qp)) xs (qs, ys)" "kv = [append_kv (append_kv c (own_kv qp)) (own_kv qs)]"
    by (auto simp: causal_kv_def)
  have "length qp = length xp" "length yp = length xp" using p by (auto simp: past_rows_def)
  with p s have "past_rows F m l c (xp @ xs) (qp @ qs, y)" unfolding y using past_append [OF assms] by blast
  then show "causal_kv F m l c (xp @ xs) (y, kv)"
    unfolding causal_kv_def prod.case s(2) by (intro exI [of _ "qp @ qs"]) (simp add: own_kv_append append_kv_def)
qed

section \<open>A causal layer in two parts\<close>

lemma collect_append_iff:
  "collect f (xs @ ys) = Inr zs \<longleftrightarrow> (\<exists>as bs. zs = as @ bs \<and> collect f xs = Inr as \<and> collect f ys = Inr bs)"
  by (auto simp: collect_append bindE_Inr_iff)

lemma ff_append:
  assumes "0 < length xp" "0 < length xs" "length (xp @ xs) \<le> JB_MAX_CTX" "\<forall>x. distinct_route F m l x"
  shows "dg_ff F m l (xp @ xs) = Inr y \<longleftrightarrow>
    (\<exists>yp ys. y = yp @ ys \<and> dg_ff F m l xp = Inr yp \<and> dg_ff F m l xs = Inr ys)"
proof -
  have "dg_ff F m l x = Inr y \<longleftrightarrow> collect (ff_token F m l) x = Inr y" if "0 < length x" "length x \<le> JB_MAX_CTX" for x y
    using rows_ofD [OF dg_ff_rows [OF that refl], of F m l y] assms(4) by (simp add: collect_nth)
  with assms(1-3) show ?thesis by (simp add: collect_append_iff)
qed

text \<open>The layers up to their K/V: \<open>run_layers\<close> with one K/V each.\<close>

lemma layer_with_iff:
  "dg_layer_with F m l att x = Inr (y, kv) \<longleftrightarrow>
    (\<exists>inw pa sw sc z w u v. dg_layer_tensor m l ''input_layernorm.weight'' = Inr inw \<and>
      dg_layer_tensor m l ''post_attention_layernorm.weight'' = Inr pa \<and>
      dg_layer_tensor m l ''layer_scalar'' = Inr sw \<and> dg_at F sw 0 = Inr sc \<and>
      collect (dg_rms_ref F (Some inw)) x = Inr z \<and> att z = Inr (w, kv) \<and>
      collect (dg_rms_ref F (Some pa)) w = Inr u \<and> dg_ff F m l (map2 (map2 (fl_add F)) u x) = Inr v \<and>
      y = map (map (\<lambda>a. fl_mul F a sc)) v)"
  (is "_ \<longleftrightarrow> ?r")
proof
  assume "dg_layer_with F m l att x = Inr (y, kv)"
  then show ?r unfolding dg_layer_with_def by (auto simp: bindE_Inr_iff; blast)
next
  assume ?r
  then show "dg_layer_with F m l att x = Inr (y, kv)" unfolding dg_layer_with_def by auto
qed

lemma map2_append: "length us = length xs \<Longrightarrow> map2 f (us @ vs) (xs @ ys) = map2 f us xs @ map2 f vs ys"
  by simp

lemma layer_parts:
  assumes n: "0 < length xp" "0 < length xs" "length (xp @ xs) \<le> JB_MAX_CTX" and ok: "\<forall>x. distinct_route F m l x"
    and att: "\<And>zp zs y kv. length zp = length xp \<Longrightarrow> length zs = length xs \<Longrightarrow>
      att (zp @ zs) = Inr (y, kv) \<longleftrightarrow> (\<exists>yp ys k. y = yp @ ys \<and> attp zp = Inr (yp, [k]) \<and> atts k zs = Inr (ys, kv))"
    and lenp: "\<And>zp yp k. length zp = length xp \<Longrightarrow> attp zp = Inr (yp, [k]) \<Longrightarrow> length yp = length xp"
    and lens: "\<And>zs ys k kv. length zs = length xs \<Longrightarrow> atts k zs = Inr (ys, kv) \<Longrightarrow> length ys = length xs"
  shows "dg_layer_with F m l att (xp @ xs) = Inr (y, kv) \<longleftrightarrow>
    (\<exists>yp ys k. y = yp @ ys \<and> dg_layer_with F m l attp xp = Inr (yp, [k]) \<and> dg_layer_with F m l (atts k) xs = Inr (ys, kv))"
proof
  assume "dg_layer_with F m l att (xp @ xs) = Inr (y, kv)"
  then obtain inw pa sw sc z w u v where
    t: "dg_layer_tensor m l ''input_layernorm.weight'' = Inr inw" "dg_layer_tensor m l ''post_attention_layernorm.weight'' = Inr pa"
      "dg_layer_tensor m l ''layer_scalar'' = Inr sw" "dg_at F sw 0 = Inr sc"
    and z: "collect (dg_rms_ref F (Some inw)) (xp @ xs) = Inr z" and w: "att z = Inr (w, kv)"
    and u: "collect (dg_rms_ref F (Some pa)) w = Inr u" and v: "dg_ff F m l (map2 (map2 (fl_add F)) u (xp @ xs)) = Inr v"
    and y: "y = map (map (\<lambda>a. fl_mul F a sc)) v"
    unfolding layer_with_iff by blast
  obtain zp zs where zz: "z = zp @ zs" "collect (dg_rms_ref F (Some inw)) xp = Inr zp" "collect (dg_rms_ref F (Some inw)) xs = Inr zs"
    using z unfolding collect_append_iff by blast
  note lz = collect_length [OF zz(2)] collect_length [OF zz(3)]
  obtain wp ws k where ww: "w = wp @ ws" "attp zp = Inr (wp, [k])" "atts k zs = Inr (ws, kv)"
    using w unfolding zz(1) att [OF lz] by blast
  obtain up us where uu: "u = up @ us" "collect (dg_rms_ref F (Some pa)) wp = Inr up" "collect (dg_rms_ref F (Some pa)) ws = Inr us"
    using u unfolding ww(1) collect_append_iff by blast
  have lu: "length up = length xp" "length us = length xs"
    using collect_length [OF uu(2)] lenp [OF lz(1) ww(2)] collect_length [OF uu(3)] lens [OF lz(2) ww(3)] by simp_all
  have "\<exists>vp vs. v = vp @ vs \<and> dg_ff F m l (map2 (map2 (fl_add F)) up xp) = Inr vp \<and> dg_ff F m l (map2 (map2 (fl_add F)) us xs) = Inr vs"
    using v unfolding uu(1) map2_append [OF lu(1)] using ff_append [OF _ _ _ ok, of "map2 (map2 (fl_add F)) up xp" "map2 (map2 (fl_add F)) us xs" v] n lu by simp
  then obtain vp vs where vv: "v = vp @ vs" "dg_ff F m l (map2 (map2 (fl_add F)) up xp) = Inr vp" "dg_ff F m l (map2 (map2 (fl_add F)) us xs) = Inr vs"
    by blast
  show "\<exists>yp ys k. y = yp @ ys \<and> dg_layer_with F m l attp xp = Inr (yp, [k]) \<and> dg_layer_with F m l (atts k) xs = Inr (ys, kv)"
    unfolding layer_with_iff y vv(1) map_append using t zz ww uu vv by blast
next
  assume "\<exists>yp ys k. y = yp @ ys \<and> dg_layer_with F m l attp xp = Inr (yp, [k]) \<and> dg_layer_with F m l (atts k) xs = Inr (ys, kv)"
  then obtain yp ys k where y: "y = yp @ ys" and p: "dg_layer_with F m l attp xp = Inr (yp, [k])"
    and q: "dg_layer_with F m l (atts k) xs = Inr (ys, kv)" by blast
  obtain inw pa sw sc zp wp up vp where
    t: "dg_layer_tensor m l ''input_layernorm.weight'' = Inr inw" "dg_layer_tensor m l ''post_attention_layernorm.weight'' = Inr pa"
      "dg_layer_tensor m l ''layer_scalar'' = Inr sw" "dg_at F sw 0 = Inr sc"
    and pp: "collect (dg_rms_ref F (Some inw)) xp = Inr zp" "attp zp = Inr (wp, [k])" "collect (dg_rms_ref F (Some pa)) wp = Inr up"
      "dg_ff F m l (map2 (map2 (fl_add F)) up xp) = Inr vp" "yp = map (map (\<lambda>a. fl_mul F a sc)) vp"
    using p unfolding layer_with_iff by blast
  obtain inw' pa' sw' sc' zs ws us vs where
    t': "dg_layer_tensor m l ''input_layernorm.weight'' = Inr inw'" "dg_layer_tensor m l ''post_attention_layernorm.weight'' = Inr pa'"
      "dg_layer_tensor m l ''layer_scalar'' = Inr sw'" "dg_at F sw' 0 = Inr sc'"
    and ss': "collect (dg_rms_ref F (Some inw')) xs = Inr zs" "atts k zs = Inr (ws, kv)" "collect (dg_rms_ref F (Some pa')) ws = Inr us"
      "dg_ff F m l (map2 (map2 (fl_add F)) us xs) = Inr vs" "ys = map (map (\<lambda>a. fl_mul F a sc')) vs"
    using q unfolding layer_with_iff by blast
  have same: "inw' = inw" "pa' = pa" "sw' = sw" using t t' by simp_all
  then have "sc' = sc" using t t' by simp
  with ss' same have
    ss: "collect (dg_rms_ref F (Some inw)) xs = Inr zs" "atts k zs = Inr (ws, kv)" "collect (dg_rms_ref F (Some pa)) ws = Inr us"
      "dg_ff F m l (map2 (map2 (fl_add F)) us xs) = Inr vs" "ys = map (map (\<lambda>a. fl_mul F a sc)) vs"
    by simp_all
  note lz = collect_length [OF pp(1)] collect_length [OF ss(1)]
  have lu: "length up = length xp" "length us = length xs"
    using collect_length [OF pp(3)] lenp [OF lz(1) pp(2)] collect_length [OF ss(3)] lens [OF lz(2) ss(2)] by simp_all
  have "collect (dg_rms_ref F (Some inw)) (xp @ xs) = Inr (zp @ zs)" "att (zp @ zs) = Inr (wp @ ws, kv)"
    "collect (dg_rms_ref F (Some pa)) (wp @ ws) = Inr (up @ us)"
    using pp(1-3) ss(1-3) att [OF lz] by (auto simp: collect_append_iff)
  moreover have "dg_ff F m l (map2 (map2 (fl_add F)) (up @ us) (xp @ xs)) = Inr (vp @ vs)"
    unfolding map2_append [OF lu(1)]
    using ff_append [OF _ _ _ ok, of "map2 (map2 (fl_add F)) up xp" "map2 (map2 (fl_add F)) us xs" "vp @ vs"] n lu pp(4) ss(4) by simp
  ultimately show "dg_layer_with F m l att (xp @ xs) = Inr (y, kv)"
    unfolding layer_with_iff y pp(5) ss(5) map_append [symmetric] using t by blast
qed

section \<open>A causal pass in two parts\<close>

lemma causal_layer:
  assumes "0 < length xp" "0 < length xs" "length (xp @ xs) \<le> JB_MAX_CTX" "\<forall>x. distinct_route F m l x"
  shows "dg_layer F m l (xp @ xs) 0 None (Some (length (xp @ xs))) DG_CAUSAL 1 = Inr (y, kv) \<longleftrightarrow>
    (\<exists>yp ys k. y = yp @ ys \<and> dg_layer F m l xp 0 None (Some (length xp)) DG_CAUSAL 1 = Inr (yp, [k]) \<and>
      dg_layer F m l xs (kv_n k) (Some k) (Some (length (xp @ xs))) DG_SUFFIX 1 = Inr (ys, kv))"
  unfolding dg_layer_def
proof (rule layer_parts [OF assms])
  fix zp zs :: "'a list list" and y kv
  assume l: "length zp = length xp" "length zs = length xs"
  have "dg_attention F m l (zp @ zs) 0 None (Some (length (xp @ xs))) DG_CAUSAL 1 = Inr (y, kv) \<longleftrightarrow>
      causal_kv F m l no_kv (zp @ zs) (y, kv)"
    using causal_attention [of "zp @ zs" F m l "length (xp @ xs)" y kv] assms l by simp
  also have "\<dots> \<longleftrightarrow> (\<exists>yp ys k. y = yp @ ys \<and> causal_kv F m l no_kv zp (yp, [k]) \<and> causal_kv F m l k zs (ys, kv))"
    by (rule causal_append) simp
  also have "\<dots> \<longleftrightarrow> (\<exists>yp ys k. y = yp @ ys \<and> dg_attention F m l zp 0 None (Some (length xp)) DG_CAUSAL 1 = Inr (yp, [k]) \<and>
      dg_attention F m l zs (kv_n k) (Some k) (Some (length (xp @ xs))) DG_SUFFIX 1 = Inr (ys, kv))"
  proof -
    have "causal_kv F m l no_kv zp (yp, [k]) \<and> causal_kv F m l k zs (ys, kv) \<longleftrightarrow>
        dg_attention F m l zp 0 None (Some (length xp)) DG_CAUSAL 1 = Inr (yp, [k]) \<and>
        dg_attention F m l zs (kv_n k) (Some k) (Some (length (xp @ xs))) DG_SUFFIX 1 = Inr (ys, kv)" for yp ys k
      using causal_attention [of zp F m l "length xp" yp "[k]"] suffix_attention [of zs k F m l "kv_n k" "length (xp @ xs)" ys kv]
        causal_even [of F m l no_kv zp yp k] assms l by auto
    then show ?thesis by blast
  qed
  finally show "dg_attention F m l (zp @ zs) 0 None (Some (length (xp @ xs))) DG_CAUSAL 1 = Inr (y, kv) \<longleftrightarrow>
      (\<exists>yp ys k. y = yp @ ys \<and> dg_attention F m l zp 0 None (Some (length xp)) DG_CAUSAL 1 = Inr (yp, [k]) \<and>
      dg_attention F m l zs (kv_n k) (Some k) (Some (length (xp @ xs))) DG_SUFFIX 1 = Inr (ys, kv))" .
next
  fix zp yp :: "'a list list" and k
  assume "length zp = length xp" "dg_attention F m l zp 0 None (Some (length xp)) DG_CAUSAL 1 = Inr (yp, [k])"
  with causal_attention [of zp F m l "length xp" yp "[k]"] causal_even [of F m l no_kv zp yp k] assms show "length yp = length xp" by simp
next
  fix zs ys :: "'a list list" and k kv
  assume z: "length zs = length xs" and a: "dg_attention F m l zs (kv_n k) (Some k) (Some (length (xp @ xs))) DG_SUFFIX 1 = Inr (ys, kv)"
  from suffix_length [OF _ _ a] assms z show "length ys = length xs" by simp
qed

lemma causal_layer_one:
  assumes "0 < length x" "length x \<le> JB_MAX_CTX" "dg_layer F m l x 0 None (Some (length x)) DG_CAUSAL 1 = Inr (y, kv)"
  shows "length y = length x \<and> (\<exists>k. kv = [k] \<and> even_kv k \<and> kv_n k = length x)"
proof -
  obtain z w u v inw pa sc where z: "collect (dg_rms_ref F (Some inw)) x = Inr z"
    and w: "dg_attention F m l z 0 None (Some (length x)) DG_CAUSAL 1 = Inr (w, kv)"
    and u: "collect (dg_rms_ref F (Some pa)) w = Inr u" and v: "dg_ff F m l (map2 (map2 (fl_add F)) u x) = Inr v"
    and y: "y = map (map (\<lambda>a. fl_mul F a sc)) v"
    using assms(3) unfolding dg_layer_def layer_with_iff by blast
  have lz: "length z = length x" by (rule collect_length [OF z])
  have c: "causal_kv F m l no_kv z (w, kv)" using causal_attention [of z F m l "length x" w kv] w lz assms(1,2) by simp
  then obtain k where k: "kv = [k]" by (auto simp: causal_kv_def)
  with causal_even [of F m l no_kv z w k] c lz have "even_kv k" "kv_n k = length x" "length w = length x" by simp_all
  with k collect_length [OF u] dg_ff_length [OF v] y show ?thesis by simp
qed

text \<open>The suffix layers over a K/V for each layer.\<close>

definition suffix_layers ::
  "('f, 'd) fpu \<Rightarrow> DGModel \<Rightarrow> (nat \<Rightarrow> 'f DGKV) \<Rightarrow> nat \<Rightarrow> nat \<Rightarrow> 'f list list \<Rightarrow> ('f list list \<times> 'f DGKV list) result" where
  "suffix_layers F m pf planned l x = dg_layer F m l x (kv_n (pf l)) (Some (pf l)) (Some planned) DG_SUFFIX 1"

definition causal_layers :: "('f, 'd) fpu \<Rightarrow> DGModel \<Rightarrow> nat \<Rightarrow> nat \<Rightarrow> 'f list list \<Rightarrow> ('f list list \<times> 'f DGKV list) result" where
  "causal_layers F m n l x = dg_layer F m l x 0 None (Some n) DG_CAUSAL 1"

lemma run_layers_cong: "(\<And>l x. l \<in> set ls \<Longrightarrow> f l x = g l x) \<Longrightarrow> run_layers f ls x = run_layers g ls x"
  by (induction ls arbitrary: x) (simp_all cong: bindE_cong)

lemma suffix_length_layer:
  assumes "0 < length x" "length x \<le> JB_MAX_CTX" "suffix_layers F m pf planned l x = Inr (y, kv)"
  shows "length y = length x"
proof -
  let ?att = "\<lambda>z. dg_attention F m l z (kv_n (pf l)) (Some (pf l)) (Some planned) DG_SUFFIX 1"
  have "rows_only (dg_layer_with F m l ?att x) = Inr y"
    using assms(3) by (simp add: suffix_layers_def dg_layer_def rows_only_def)
  moreover have "length w = length x" if "length z = length x" "rows_only (?att z) = Inr w" for z w
    using suffix_length [of z F m l "kv_n (pf l)" "pf l" planned w] assms(1,2) that by (auto simp: rows_only_Inr)
  ultimately show ?thesis by (rule layer_length)
qed

lemma run_causal_parts:
  assumes "0 < length xp" "0 < length xs" "length (xp @ xs) \<le> JB_MAX_CTX" "\<forall>l x. distinct_route F m l x" "distinct ls"
  shows "run_layers (causal_layers F m (length (xp @ xs))) ls (xp @ xs) = Inr (y, kvs) \<longleftrightarrow>
    (\<exists>pf yp ys. y = yp @ ys \<and> length yp = length xp \<and>
      run_layers (causal_layers F m (length xp)) ls xp = Inr (yp, map (\<lambda>l. [pf l]) ls) \<and>
      run_layers (suffix_layers F m pf (length (xp @ xs))) ls xs = Inr (ys, kvs))"
  using assms
proof (induction ls arbitrary: xp xs y kvs)
  case Nil
  then show ?case by auto
next
  case (Cons l ls)
  let ?N = "length (xp @ xs)"
  have ok: "\<forall>x. distinct_route F m l x" using Cons.prems(4) by blast
  have d: "l \<notin> set ls" "distinct ls" using Cons.prems(5) by simp_all
  have step: "causal_layers F m ?N l (xp @ xs) = Inr (z, kv) \<longleftrightarrow>
      (\<exists>zp zs k. z = zp @ zs \<and> causal_layers F m (length xp) l xp = Inr (zp, [k]) \<and>
        suffix_layers F m (\<lambda>_. k) ?N l xs = Inr (zs, kv))" for z kv
    unfolding causal_layers_def suffix_layers_def using causal_layer [OF Cons.prems(1-3) ok] by blast
  have len: "length zp = length xp" if "causal_layers F m (length xp) l xp = Inr (zp, kv)" for zp kv
    using causal_layer_one [of xp F m l zp kv] that Cons.prems(1,3) by (simp add: causal_layers_def)
  have lens: "length zs = length xs" if "suffix_layers F m pf ?N l xs = Inr (zs, kv)" for zs kv pf
    using suffix_length_layer [OF _ _ that] Cons.prems(2,3) by simp
  have IH: "run_layers (causal_layers F m ?N) ls (zp @ zs) = Inr (y, kvs) \<longleftrightarrow>
      (\<exists>pf yp ys. y = yp @ ys \<and> length yp = length xp \<and>
        run_layers (causal_layers F m (length xp)) ls zp = Inr (yp, map (\<lambda>l. [pf l]) ls) \<and>
        run_layers (suffix_layers F m pf ?N) ls zs = Inr (ys, kvs))"
    if "length zp = length xp" "length zs = length xs" for zp zs y kvs
    using Cons.IH [of zp zs y kvs] that Cons.prems d by simp
  show ?case
  proof
    assume "run_layers (causal_layers F m ?N) (l # ls) (xp @ xs) = Inr (y, kvs)"
    then obtain z kv ks where z: "causal_layers F m ?N l (xp @ xs) = Inr (z, kv)"
      and r: "run_layers (causal_layers F m ?N) ls z = Inr (y, ks)" and kvs: "kvs = kv # ks" by (auto simp: bindE_Inr_iff)
    obtain zp zs k where zz: "z = zp @ zs" "causal_layers F m (length xp) l xp = Inr (zp, [k])"
      "suffix_layers F m (\<lambda>_. k) ?N l xs = Inr (zs, kv)" using z unfolding step by blast
    obtain pf yp ys where p: "y = yp @ ys" "length yp = length xp"
      "run_layers (causal_layers F m (length xp)) ls zp = Inr (yp, map (\<lambda>l. [pf l]) ls)"
      "run_layers (suffix_layers F m pf ?N) ls zs = Inr (ys, ks)"
      using r unfolding zz(1) IH [OF len [OF zz(2)] lens [OF zz(3)]] by blast
    have m1: "map (\<lambda>i. [(pf(l := k)) i]) ls = map (\<lambda>l. [pf l]) ls" using d(1) by (intro map_cong) auto
    have m2: "run_layers (suffix_layers F m (pf(l := k)) ?N) ls zs = run_layers (suffix_layers F m pf ?N) ls zs"
      using d(1) by (intro run_layers_cong) (auto simp: suffix_layers_def)
    have m3: "suffix_layers F m (pf(l := k)) ?N l xs = Inr (zs, kv)" using zz(3) by (simp add: suffix_layers_def)
    show "\<exists>pf yp ys. y = yp @ ys \<and> length yp = length xp \<and>
      run_layers (causal_layers F m (length xp)) (l # ls) xp = Inr (yp, map (\<lambda>l. [pf l]) (l # ls)) \<and>
      run_layers (suffix_layers F m pf ?N) (l # ls) xs = Inr (ys, kvs)"
      by (rule exI [of _ "pf(l := k)"], rule exI [of _ yp], rule exI [of _ ys])
        (simp add: p m1 m2 m3 zz(2) kvs del: length_append map_eq_conv fun_upd_apply, simp)
  next
    assume "\<exists>pf yp ys. y = yp @ ys \<and> length yp = length xp \<and>
      run_layers (causal_layers F m (length xp)) (l # ls) xp = Inr (yp, map (\<lambda>l. [pf l]) (l # ls)) \<and>
      run_layers (suffix_layers F m pf ?N) (l # ls) xs = Inr (ys, kvs)"
    then obtain pf yp ys zp zs kv ks where y: "y = yp @ ys" "length yp = length xp"
      and p: "causal_layers F m (length xp) l xp = Inr (zp, [pf l])"
        "run_layers (causal_layers F m (length xp)) ls zp = Inr (yp, map (\<lambda>l. [pf l]) ls)"
      and q: "suffix_layers F m pf ?N l xs = Inr (zs, kv)" "run_layers (suffix_layers F m pf ?N) ls zs = Inr (ys, ks)"
      and kvs: "kvs = kv # ks" by (auto simp: bindE_Inr_iff)
    have q': "suffix_layers F m (\<lambda>_. pf l) ?N l xs = Inr (zs, kv)" using q(1) by (simp add: suffix_layers_def)
    have "causal_layers F m ?N l (xp @ xs) = Inr (zp @ zs, kv)" unfolding step using p(1) q' by blast
    moreover have "run_layers (causal_layers F m ?N) ls (zp @ zs) = Inr (y, ks)"
      unfolding IH [OF len [OF p(1)] lens [OF q']] using y p(2) q(2) by blast
    ultimately show "run_layers (causal_layers F m ?N) (l # ls) (xp @ xs) = Inr (y, kvs)" by (simp add: kvs)
  qed
qed

section \<open>The prefix cache\<close>

lemma causal_kvs:
  assumes "0 < length x" "length x \<le> JB_MAX_CTX"
    "run_layers (causal_layers F m (length x)) ls x = Inr (y, map (\<lambda>l. [pf l]) ls)"
  shows "\<forall>l \<in> set ls. even_kv (pf l) \<and> kv_n (pf l) = length x"
  using assms
proof (induction ls arbitrary: x)
  case (Cons l ls)
  then obtain z where z: "causal_layers F m (length x) l x = Inr (z, [pf l])"
    and r: "run_layers (causal_layers F m (length x)) ls z = Inr (y, map (\<lambda>l. [pf l]) ls)" by (auto simp: bindE_Inr_iff)
  from causal_layer_one [of x F m l z "[pf l]"] z Cons.prems
  have "length z = length x" "even_kv (pf l)" "kv_n (pf l) = length x" by (simp_all add: causal_layers_def)
  with Cons.IH [of z] r Cons.prems show ?case by simp
qed simp

lemma suffix_extends:
  assumes "0 < length x" "length x \<le> JB_MAX_CTX" "even_kv (pf l)" "suffix_layers F m pf planned l x = Inr (y, kv)"
  shows "take_kv (kv_n (pf l)) (hd kv) = pf l"
proof -
  obtain z w inw where z: "collect (dg_rms_ref F (Some inw)) x = Inr z"
    and w: "dg_attention F m l z (kv_n (pf l)) (Some (pf l)) (Some planned) DG_SUFFIX 1 = Inr (w, kv)"
    using assms(4) unfolding suffix_layers_def dg_layer_def layer_with_iff by blast
  have "causal_kv F m l (pf l) z (w, kv)"
    using suffix_attention [of z "pf l" F m l "kv_n (pf l)" planned w kv] w collect_length [OF z] assms(1-3) by simp
  then obtain c where "kv = [append_kv (pf l) c]" by (auto simp: causal_kv_def)
  with assms(3) show ?thesis by (simp add: take_kv_def append_kv_def even_kv_def)
qed

lemma suffix_kvs:
  assumes "0 < length x" "length x \<le> JB_MAX_CTX" "\<forall>l \<in> set ls. even_kv (pf l) \<and> kv_n (pf l) = n"
    "run_layers (suffix_layers F m pf planned) ls x = Inr (y, kvs)"
  shows "map (take_kv n \<circ> hd) kvs = map pf ls"
  using assms
proof (induction ls arbitrary: x kvs)
  case (Cons l ls)
  then obtain z kv ks where z: "suffix_layers F m pf planned l x = Inr (z, kv)"
    and r: "run_layers (suffix_layers F m pf planned) ls z = Inr (y, ks)" "kvs = kv # ks" by (auto simp: bindE_Inr_iff)
  have "length z = length x" by (rule suffix_length_layer [OF Cons.prems(1,2) z])
  with Cons.IH [of z ks] r Cons.prems suffix_extends [of x pf l F m planned z kv] z show ?case by simp
qed simp

lemma embed_append:
  "dg_embed F m (p @ s) d = Inr x \<longleftrightarrow> (\<exists>xp xs. x = xp @ xs \<and> dg_embed F m p d = Inr xp \<and> dg_embed F m s d = Inr xs)"
  unfolding dg_embed_def
  by (cases "dg_tensor m (str ''model.decoder.embed_tokens.weight'')") (simp_all add: collect_append_iff)

lemma embed_length: "dg_embed F m p d = Inr x \<Longrightarrow> length x = length p"
  by (auto simp: dg_embed_def bindE_Inr_iff dest: collect_length)

lemma prefill_suffix_layers:
  "dg_prefill_suffix F m s (map pf [0..<DG_L]) planned = Inr kvs \<longleftrightarrow>
    (\<exists>x y ks. dg_embed F m s False = Inr x \<and> run_layers (suffix_layers F m pf planned) [0..<DG_L] x = Inr (y, ks) \<and> kvs = map hd ks)"
proof -
  have "run_layers (\<lambda>l x. dg_layer F m l x (kv_n (map pf [0..<DG_L] ! l)) (Some (map pf [0..<DG_L] ! l)) (Some planned) DG_SUFFIX 1) [0..<DG_L] x =
      run_layers (suffix_layers F m pf planned) [0..<DG_L] x" for x
    by (rule run_layers_cong) (simp add: suffix_layers_def)
  then show ?thesis unfolding dg_prefill_suffix_def by (auto simp: bindE_Inr_iff)
qed

lemma causal_run_length:
  assumes "0 < n" "n \<le> JB_MAX_CTX" "length x = n" "run_layers (causal_layers F m n) ls x = Inr (y, kvs)"
  shows "length y = n"
  using assms(3,4)
proof (induction ls arbitrary: x kvs)
  case (Cons l ls)
  from Cons.prems(2) obtain z kv ks where z: "causal_layers F m n l x = Inr (z, kv)"
    "run_layers (causal_layers F m n) ls z = Inr (y, ks)" by (auto simp: bindE_Inr_iff)
  have "length z = n" using causal_layer_one [of x F m l z kv] z(1) Cons.prems(1) assms(1,2) by (simp add: causal_layers_def)
  from Cons.IH [OF this z(2)] show ?case .
qed simp

lemma prefill_parts:
  assumes "p \<noteq> []" "s \<noteq> []" "length (p @ s) \<le> JB_MAX_CTX" "\<forall>l x. distinct_route F m l x"
  shows "dg_prefill F m (p @ s) = Inr kvs \<longleftrightarrow>
    (\<exists>pf xp yp. dg_embed F m p False = Inr xp \<and>
      run_layers (causal_layers F m (length p)) [0..<DG_L] xp = Inr (yp, map (\<lambda>l. [pf l]) [0..<DG_L]) \<and>
      dg_prefill_suffix F m s (map pf [0..<DG_L]) (length (p @ s)) = Inr kvs)"
proof -
  have "dg_prefill F m (p @ s) = Inr kvs \<longleftrightarrow>
      (\<exists>x y ks. dg_embed F m (p @ s) False = Inr x \<and> run_layers (causal_layers F m (length (p @ s))) [0..<DG_L] x = Inr (y, ks) \<and>
        kvs = map hd ks)"
    unfolding dg_prefill_def causal_layers_def [abs_def] by (auto simp: bindE_Inr_iff)
  also have "\<dots> \<longleftrightarrow> (\<exists>xp xs y ks. dg_embed F m p False = Inr xp \<and> dg_embed F m s False = Inr xs \<and>
      run_layers (causal_layers F m (length (xp @ xs))) [0..<DG_L] (xp @ xs) = Inr (y, ks) \<and> kvs = map hd ks)"
    (is "?a \<longleftrightarrow> ?b")
  proof
    assume ?a
    then obtain xp xs y ks where e: "dg_embed F m p False = Inr xp" "dg_embed F m s False = Inr xs"
      and r: "run_layers (causal_layers F m (length (p @ s))) [0..<DG_L] (xp @ xs) = Inr (y, ks)" "kvs = map hd ks"
      unfolding embed_append by blast
    have "length (p @ s) = length (xp @ xs)" using embed_length [OF e(1)] embed_length [OF e(2)] by simp
    with e r show ?b by metis
  next
    assume ?b
    then obtain xp xs y ks where e: "dg_embed F m p False = Inr xp" "dg_embed F m s False = Inr xs"
      and r: "run_layers (causal_layers F m (length (xp @ xs))) [0..<DG_L] (xp @ xs) = Inr (y, ks)" "kvs = map hd ks"
      by blast
    have "length (p @ s) = length (xp @ xs)" using embed_length [OF e(1)] embed_length [OF e(2)] by simp
    with e r show ?a unfolding embed_append by metis
  qed
  also have "\<dots> \<longleftrightarrow> (\<exists>xp xs pf yp ys ks. dg_embed F m p False = Inr xp \<and> dg_embed F m s False = Inr xs \<and>
      run_layers (causal_layers F m (length p)) [0..<DG_L] xp = Inr (yp, map (\<lambda>l. [pf l]) [0..<DG_L]) \<and>
      run_layers (suffix_layers F m pf (length (p @ s))) [0..<DG_L] xs = Inr (ys, ks) \<and> kvs = map hd ks)"
  proof -
    have "(\<exists>y. run_layers (causal_layers F m (length (xp @ xs))) [0..<DG_L] (xp @ xs) = Inr (y, ks)) \<longleftrightarrow>
        (\<exists>pf yp ys. run_layers (causal_layers F m (length p)) [0..<DG_L] xp = Inr (yp, map (\<lambda>l. [pf l]) [0..<DG_L]) \<and>
          run_layers (suffix_layers F m pf (length (p @ s))) [0..<DG_L] xs = Inr (ys, ks))"
      if "dg_embed F m p False = Inr xp" "dg_embed F m s False = Inr xs" for xp xs ks
    proof -
      note l = embed_length [OF that(1)] embed_length [OF that(2)]
      have n: "0 < length xp" "0 < length xs" "length (xp @ xs) \<le> JB_MAX_CTX" using assms(1-3) l by simp_all
      have N: "length (p @ s) = length (xp @ xs)" "length p = length xp" using l by simp_all
      show ?thesis
        unfolding run_causal_parts [OF n assms(4) distinct_upt] N
        using causal_run_length [OF n(1)] n(3) by (simp, blast)
    qed
    then show ?thesis by metis
  qed
  also have "\<dots> \<longleftrightarrow> (\<exists>pf xp yp. dg_embed F m p False = Inr xp \<and>
      run_layers (causal_layers F m (length p)) [0..<DG_L] xp = Inr (yp, map (\<lambda>l. [pf l]) [0..<DG_L]) \<and>
      dg_prefill_suffix F m s (map pf [0..<DG_L]) (length (p @ s)) = Inr kvs)"
    unfolding prefill_suffix_layers by metis
  finally show ?thesis .
qed

lemma cached_rows:
  assumes "p \<noteq> []" "s \<noteq> []" "length (p @ s) \<le> JB_MAX_CTX" "\<forall>l x. distinct_route F m l x" "dg_prefill F m (p @ s) = Inr kvs"
  obtains pf xp yp where "dg_embed F m p False = Inr xp"
    "run_layers (causal_layers F m (length p)) [0..<DG_L] xp = Inr (yp, map (\<lambda>l. [pf l]) [0..<DG_L])"
    "map (take_kv (length p)) kvs = map pf [0..<DG_L]" "\<forall>l < DG_L. even_kv (pf l)"
proof -
  obtain pf xp yp where e: "dg_embed F m p False = Inr xp"
    and c: "run_layers (causal_layers F m (length p)) [0..<DG_L] xp = Inr (yp, map (\<lambda>l. [pf l]) [0..<DG_L])"
    and s: "dg_prefill_suffix F m s (map pf [0..<DG_L]) (length (p @ s)) = Inr kvs"
    using assms(5) unfolding prefill_parts [OF assms(1-4)] by blast
  obtain x y ks where x: "dg_embed F m s False = Inr x"
    "run_layers (suffix_layers F m pf (length (p @ s))) [0..<DG_L] x = Inr (y, ks)" "kvs = map hd ks"
    using s unfolding prefill_suffix_layers by blast
  note l = embed_length [OF e] embed_length [OF x(1)]
  have even: "\<forall>l \<in> set [0..<DG_L]. even_kv (pf l) \<and> kv_n (pf l) = length xp"
    by (rule causal_kvs) (use assms(1,3) l c in simp_all)
  then have "map (take_kv (length p) \<circ> hd) ks = map pf [0..<DG_L]"
    by (intro suffix_kvs [OF _ _ _ x(2)]) (use assms(2,3) l in simp_all)
  then have kvs: "map (take_kv (length p)) kvs = map pf [0..<DG_L]" by (simp add: x(3))
  have "\<forall>l < DG_L. even_kv (pf l)" using even by auto
  with e c kvs show ?thesis by (rule that)
qed

lemma cached_rows_exact:
  assumes "p \<noteq> []" "s \<noteq> []" "s' \<noteq> []" "length (p @ s) \<le> JB_MAX_CTX" "length (p @ s') \<le> JB_MAX_CTX"
    "\<forall>l x. distinct_route F m l x" "dg_prefill F m (p @ s) = Inr kvs"
  shows "dg_prefill_suffix F m s' (map (take_kv (length p)) kvs) (length (p @ s')) = Inr r \<longleftrightarrow>
    dg_prefill F m (p @ s') = Inr r"
proof -
  obtain pf xp yp where e: "dg_embed F m p False = Inr xp"
    and c: "run_layers (causal_layers F m (length p)) [0..<DG_L] xp = Inr (yp, map (\<lambda>l. [pf l]) [0..<DG_L])"
    and kvs: "map (take_kv (length p)) kvs = map pf [0..<DG_L]" by (rule cached_rows [OF assms(1,2,4,6,7)])
  have same: "map pf' [0..<DG_L] = map pf [0..<DG_L]"
    if "run_layers (causal_layers F m (length p)) [0..<DG_L] xp = Inr (yp', map (\<lambda>l. [pf' l]) [0..<DG_L])" for pf' yp'
    using that c by simp
  show ?thesis unfolding kvs prefill_parts [OF assms(1,3,5,6)] e using c same by (metis sum.inject(2))
qed

text \<open>
  C32. The prefix cache is exact: a miss that prefills \<open>p @ s\<close> and keeps the first K/V rows, followed by
  a hit that extends them by the suffix pass over \<open>s'\<close>, gives the K/V of a prefill of \<open>p @ s'\<close>, bit
  for bit, and fails only when one of the two prefills fails. No token may choose an expert twice.
\<close>

theorem cached_prefix_exact:
  assumes "p \<noteq> []" "s \<noteq> []" "s' \<noteq> []" "length (p @ s) \<le> JB_MAX_CTX" "length (p @ s') \<le> JB_MAX_CTX"
    "\<forall>l x. distinct_route F m l x"
  shows "bindE (dg_prefill F m (p @ s)) (\<lambda>kvs.
      dg_prefill_suffix F m s' (map (take_kv (length p)) kvs) (length (p @ s'))) = Inr r \<longleftrightarrow>
    (\<exists>kvs. dg_prefill F m (p @ s) = Inr kvs) \<and> dg_prefill F m (p @ s') = Inr r"
  unfolding bindE_Inr_iff using cached_rows_exact [OF assms] by blast

theorem cached_prefix_exact_witness:
  "\<forall>m r. bindE (dg_prefill flat_fpu m ([1, 2] @ [3])) (\<lambda>kvs.
      dg_prefill_suffix flat_fpu m [4, 5] (map (take_kv (length [1, 2 :: int])) kvs) (length ([1, 2] @ [4, 5 :: int]))) = Inr r \<longleftrightarrow>
    (\<exists>kvs. dg_prefill flat_fpu m ([1, 2] @ [3]) = Inr kvs) \<and> dg_prefill flat_fpu m ([1, 2] @ [4, 5]) = Inr r"
  by (intro allI cached_prefix_exact) (simp_all add: JB_MAX_CTX_def flat_routes)

end
