(* ===== verification/Cache.thy ===== *)
theory Cache
  imports Execute Prefix JobSample
begin

text \<open>
  The prefix cache of a session is transparent. Its entry is at every moment either empty or the
  first K/V rows of a prefill that succeeded, whatever requests came before and however they ended;
  so a hit extends them to what a prefill of the whole prompt gives, and the answers are those of a
  run without a cache.
\<close>

section \<open>The entry\<close>

definition cache_ok :: "('f, 'd) fpu \<Rightarrow> DGModel \<Rightarrow> 'f DGPrefixCache \<Rightarrow> bool" where
  "cache_ok F m c \<longleftrightarrow> pc_schema c = None \<or>
     (\<exists>s kvs. pc_ids c \<noteq> [] \<and> s \<noteq> [] \<and> length (pc_ids c @ s) \<le> JB_MAX_CTX \<and>
        dg_prefill F m (pc_ids c @ s) = Inr kvs \<and> pc_kv c = map (take_kv (pc_n c)) kvs)"

lemma empty_cache_ok [simp]: "cache_ok F m (dg_prefix_free c)"
  by (simp add: cache_ok_def dg_prefix_free_def)

lemma hit_exact:
  assumes "cache_ok F m c" "prefix_hit c g" "length (jo_pt g) \<noteq> pc_n c" "length (jo_pt g) \<le> JB_MAX_CTX"
    "\<forall>l x. distinct_route F m l x"
  shows "dg_prefill_suffix F m (drop (pc_n c) (jo_pt g)) (pc_kv c) (length (jo_pt g)) = Inr kv \<longleftrightarrow>
    dg_prefill F m (jo_pt g) = Inr kv"
proof -
  let ?p = "pc_ids c" and ?s = "drop (pc_n c) (jo_pt g)"
  have h: "pc_n c \<le> length (jo_pt g)" "?p = take (pc_n c) (jo_pt g)" and h': "pc_schema c \<noteq> None"
    using assms(2) by (auto simp: prefix_hit_def split: option.splits)
  from h' obtain s kvs where s: "?p \<noteq> []" "s \<noteq> []" "length (?p @ s) \<le> JB_MAX_CTX" "dg_prefill F m (?p @ s) = Inr kvs"
    and kv: "pc_kv c = map (take_kv (pc_n c)) kvs"
    using assms(1) unfolding cache_ok_def by (elim disjE exE conjE) simp_all
  have pt: "?p @ ?s = jo_pt g" using h(2) append_take_drop_id [of "pc_n c" "jo_pt g"] by simp
  have "?s \<noteq> []" using h(1) assms(3) by simp
  from cached_rows_exact [OF s(1,2) this s(3) _ assms(5) s(4), of kv] show ?thesis
    unfolding pt kv using assms(4) by blast
qed

lemma common_prefix_le: "common_prefix xs ys \<le> length ys"
  by (induction xs ys rule: common_prefix.induct) auto

lemma prefix_prefill_exact:
  assumes "cache_ok F m c" "length (jo_pt g) \<le> JB_MAX_CTX" "\<forall>l x. distinct_route F m l x"
    "dg_prefix_prefill F m g c = (r, c')"
  shows "cache_ok F m c'" "r = Inr (kv, state, n) \<Longrightarrow> dg_prefill F m (jo_pt g) = Inr kv"
proof -
  let ?k = "common_prefix (jo_pre_tokens g) (jo_pt g)"
  have "cache_ok F m c' \<and> (r = Inr (kv, state, n) \<longrightarrow> dg_prefill F m (jo_pt g) = Inr kv)"
  proof (cases "prefix_hit c g")
    case True
    then have "c' = c" using assms(4) by (auto simp: dg_prefix_prefill_def Let_def split: if_splits)
    moreover have "dg_prefill F m (jo_pt g) = Inr kv" if "r = Inr (kv, state, n)"
    proof -
      have "pc_n c \<le> length (jo_pt g)" using True by (auto simp: prefix_hit_def split: option.splits)
      moreover have "length (jo_pt g) - pc_n c \<noteq> 0" using True assms(4) that
        by (auto simp: dg_prefix_prefill_def Let_def split: if_splits)
      ultimately show ?thesis using hit_exact [OF assms(1) True _ assms(2,3)] True assms(4) that
        by (auto simp: dg_prefix_prefill_def Let_def bindE_Inr_iff split: if_splits)
    qed
    ultimately show ?thesis using assms(1) by blast
  next
    case False
    show ?thesis
    proof (cases "?k = 0 \<or> ?k \<ge> length (jo_pt g)")
      case True
      then show ?thesis using False assms(1,4) by (auto simp: dg_prefix_prefill_def Let_def)
    next
      case k: False
      show ?thesis
      proof (cases "dg_prefill F m (jo_pt g)")
        case (Inl e)
        then show ?thesis using False k assms(4) by (auto simp: dg_prefix_prefill_def Let_def)
      next
        case (Inr kvs)
        then have c': "c' = \<lparr>pc_schema = Some (jo_sys g), pc_ids = take ?k (jo_pt g), pc_kv = map (take_kv ?k) kvs\<rparr>"
          and r: "r = Inr (kvs, ''miss'', length (jo_pt g))"
          using False k assms(4) by (auto simp: dg_prefix_prefill_def Let_def)
        have "take ?k (jo_pt g) \<noteq> []" "drop ?k (jo_pt g) \<noteq> []" "take ?k (jo_pt g) @ drop ?k (jo_pt g) = jo_pt g"
          using k by auto
        with Inr assms(2) k have "cache_ok F m c'" unfolding cache_ok_def c'
          by (intro disjI2 exI [of _ "drop ?k (jo_pt g)"] exI [of _ kvs]) simp
        with r Inr show ?thesis by simp
      qed
    qed
  qed
  then show "cache_ok F m c'" "r = Inr (kv, state, n) \<Longrightarrow> dg_prefill F m (jo_pt g) = Inr kv" by blast+
qed

lemma execute_exact:
  assumes "cache_ok F m c" "length (jo_pt g) \<le> JB_MAX_CTX" "\<forall>l x. distinct_route F m l x"
    "dg_systemone_execute F m fuel rounds g c = (r, c')"
  shows "cache_ok F m c'" "r = Inr oc \<Longrightarrow> \<exists>o'. dg_systemone_uncached F m fuel rounds g = Inr o' \<and>
    oc_job oc = oc_job o' \<and> oc_billed oc = oc_billed o'"
proof -
  obtain p c1 where p: "dg_prefix_prefill F m g c = (p, c1)" by (cases "dg_prefix_prefill F m g c")
  note x = prefix_prefill_exact [OF assms(1-3) p]
  show "cache_ok F m c'" using assms(1,4) x(1) by (auto simp: dg_systemone_execute_def p split: sum.splits)
  assume "r = Inr oc"
  then obtain emb kv state n where e: "dg_tensor m (str ''model.decoder.embed_tokens.weight'') = Inr emb"
    and kv: "p = Inr (kv, state, n)" and f: "dg_finish F m fuel rounds g kv state (pc_n c1) n = Inr oc"
    using assms(4) by (auto simp: dg_systemone_execute_def p bindE_Inr_iff split: sum.splits)
  let ?o = "oc\<lparr>oc_cache_state := ''off'', oc_cache_tokens := 0, oc_processed := length (jo_pt g)\<rparr>"
  have "dg_finish F m fuel rounds g kv ''off'' 0 (length (jo_pt g)) = Inr ?o" "oc_job oc = oc_job ?o" "oc_billed oc = oc_billed ?o"
    using f by (auto simp: dg_finish_def bindE_Inr_iff)
  with x(2) [OF kv] e show "\<exists>o'. dg_systemone_uncached F m fuel rounds g = Inr o' \<and>
      oc_job oc = oc_job o' \<and> oc_billed oc = oc_billed o'"
    unfolding dg_systemone_uncached_def by (intro exI [of _ ?o]) simp
qed

section \<open>Sessions\<close>

text \<open>The caches that a session's requests can leave, whether they succeed or fail.\<close>

inductive cache_after :: "('f, 'd) fpu \<Rightarrow> DGModel \<Rightarrow> DGTokenizer \<Rightarrow> 'f DGPrefixCache \<Rightarrow> bool" for F m tok where
  fresh: "cache_after F m tok (dg_prefix_free c)"
| request: "cache_after F m tok c \<Longrightarrow> dg_systemone F m tok fuel rounds j (length j) c = (r, c') \<Longrightarrow> cache_after F m tok c'"

lemma job_prompt_fits:
  "dg_job_prepare A tok j (length j) = Inr g \<Longrightarrow> dgt_ok tok \<Longrightarrow> length (jo_pt g) \<le> JB_MAX_CTX"
  using dg_job_prepare_job_ok unfolding job_ok_def by blast

lemma cache_after_ok:
  assumes "cache_after F m tok c" "dgt_ok tok" "\<forall>l x. distinct_route F m l x"
  shows "cache_ok F m c"
  using assms(1)
proof induction
  case (request c fuel rounds j r c')
  show ?case
  proof (cases "dg_job_prepare (dbl F) tok j (length j)")
    case (Inl e)
    then show ?thesis using request by (simp add: dg_systemone_def)
  next
    case (Inr g)
    then show ?thesis using request execute_exact(1) [OF _ job_prompt_fits [OF Inr assms(2)] assms(3)]
      by (auto simp: dg_systemone_def)
  qed
qed simp

text \<open>
  C35. Whatever requests a session has answered or failed before, the cache it kept changes no answer:
  a request that succeeds over it has the job, with the probability sums of all questions, and the
  billed tokens that it has without a cache. No token may choose an expert twice.
\<close>

theorem cache_transparent:
  assumes "cache_after F m tok c" "dgt_ok tok" "\<forall>l x. distinct_route F m l x"
    "dg_systemone F m tok fuel rounds j (length j) c = (Inr oc, c')"
  shows "\<exists>o'. bindE (dg_job_prepare (dbl F) tok j (length j)) (dg_systemone_uncached F m fuel rounds) = Inr o' \<and>
    oc_job oc = oc_job o' \<and> oc_billed oc = oc_billed o'"
proof (cases "dg_job_prepare (dbl F) tok j (length j)")
  case (Inr g)
  then have "dg_systemone_execute F m fuel rounds g c = (Inr oc, c')" using assms(4) by (simp add: dg_systemone_def)
  from execute_exact(2) [OF cache_after_ok [OF assms(1-3)] job_prompt_fits [OF Inr assms(2)] assms(3) this] Inr
  show ?thesis by simp
qed (use assms(4) in \<open>simp add: dg_systemone_def\<close>)

theorem cache_transparent_witness:
  "\<forall>m fuel rounds. case dg_systemone flat_fpu m job_tokenizer fuel rounds sample_request (length sample_request)
       (dg_prefix_free \<lparr>pc_schema = None, pc_ids = [], pc_kv = []\<rparr>) of
     (Inr oc, c') \<Rightarrow> (\<exists>o'. bindE (dg_job_prepare (dbl flat_fpu) job_tokenizer sample_request (length sample_request))
         (dg_systemone_uncached flat_fpu m fuel rounds) = Inr o' \<and> oc_job oc = oc_job o' \<and> oc_billed oc = oc_billed o')
   | (Inl e, c') \<Rightarrow> True"
  by (auto split: prod.splits sum.splits
      intro: cache_transparent [OF cache_after.fresh job_tokenizer_ok] simp: flat_routes)

end
