(* ===== verification/Sessions.thy ===== *)
theory Sessions
  imports Api Cache TopK
begin

text \<open>
  What a caller relies on: every call comes back with a status and a free session, and the answers
  of a session do not depend on what it was asked before.
\<close>

section \<open>Any of the calls\<close>

datatype 'd api_call =
    DecideJson "'d timing" "bytes option" bool
  | DecideJsonBatch "'d timing" "bytes option list option" bool
  | Decide "'d timing" "jb_input option" bool
  | DecideBatch "'d timing" "jb_input list option" bool

definition perform ::
  "('f, 'd) machine \<Rightarrow> 'd api_call \<Rightarrow> 'f jb_session option \<Rightarrow> bytes \<Rightarrow> (jb_status \<times> 'f jb_session option \<times> bytes) result" where
  "perform M c session message =
     (case c of
        DecideJson ti z out \<Rightarrow> bindE (jb_session_decide_json M ti z out session message) (\<lambda>(st, v, s, msg). Inr (st, s, msg))
      | DecideJsonBatch ti zs out \<Rightarrow> bindE (jb_session_decide_json_batch M ti zs out session message) (\<lambda>(st, v, s, msg). Inr (st, s, msg))
      | Decide ti i out \<Rightarrow> bindE (jb_session_decide M ti i out session message) (\<lambda>(st, v, s, msg). Inr (st, s, msg))
      | DecideBatch ti is out \<Rightarrow> bindE (jb_session_decide_batch M ti is out session message) (\<lambda>(st, v, s, msg). Inr (st, s, msg)))"

text \<open>What the engine does for a call.\<close>

definition ended :: "('a, 'f) ran \<Rightarrow> unit result" where
  "ended r = bindE (fst r) (\<lambda>v. Inr ())"

definition call_run :: "('f, 'd) machine \<Rightarrow> 'd api_call \<Rightarrow> 'f jb_session \<Rightarrow> unit result" where
  "call_run M c s =
     (case c of
        DecideJson ti (Some z) out \<Rightarrow>
          ended (run_job M (json_answer M ti) (dg_job_prepare (dbl (ma_fpu M)) (ma_tokenizer M) z (length z)) (se_prefix s))
      | DecideJsonBatch ti (Some zs) out \<Rightarrow>
          bindE (batch_requests zs) (\<lambda>zs. ended (run_batch M (json_answer M ti)
            (map (\<lambda>z. dg_job_prepare (dbl (ma_fpu M)) (ma_tokenizer M) z (length z)) zs) (se_prefix s)))
      | Decide ti (Some i) out \<Rightarrow>
          (case se_questions s of None \<Rightarrow> Inr () | Some q \<Rightarrow> ended (run_job M (typed_answers M ti) (prepare_input M q i) (se_prefix s)))
      | DecideBatch ti (Some is) out \<Rightarrow>
          (case se_questions s of None \<Rightarrow> Inr () | Some q \<Rightarrow> ended (run_batch M (typed_answers M ti) (map (prepare_input M q) is) (se_prefix s)))
      | _ \<Rightarrow> Inr ())"

section \<open>Every call comes back\<close>

text \<open>What a call inside a free session that is not poisoned may do to it.\<close>

definition inside :: "'f jb_session \<Rightarrow> ('a, 'f) reply \<Rightarrow> bool" where
  "inside s r \<longleftrightarrow> (\<exists>st v s' msg. r = Inr (st, v, Some s', msg) \<and> se_busy s' = se_busy s \<and> se_questions s' = se_questions s)"

lemma inside_invalid: "inside s (jb_invalid m (Some s))"
  by (simp add: inside_def jb_invalid_def)

lemma inside_frame:
  assumes "defined (fst r)"
  shows "inside s (in_frame clears s message r)"
proof -
  obtain v active c where r: "r = (v, active, c)" by (cases r)
  show ?thesis
  proof (cases v)
    case (Inl e)
    then show ?thesis using assms r
      by (cases e) (auto simp: inside_def in_frame_def jb_call_cleanup_def defined_def)
  qed (simp add: r inside_def in_frame_def)
qed

lemma ended_defined: "defined (ended r) \<Longrightarrow> defined (fst r)"
  by (cases "fst r") (auto simp: ended_def defined_def)

lemma batch_requests_defined: "defined (batch_requests rs)"
proof (induction rs)
  case (Cons r rs)
  then show ?case by (cases r) auto
qed simp

lemma guarded_returns:
  assumes "\<not> se_busy s \<Longrightarrow> \<not> se_poisoned s \<Longrightarrow> inside (s\<lparr>se_busy := True\<rparr>) (call (Some (s\<lparr>se_busy := True\<rparr>)) message)"
  shows "\<exists>st v s' msg'. guarded call (Some s) message = Inr (st, v, Some s', msg') \<and>
    (if se_busy s then st = JB_ERROR_INVALID_ARGUMENT \<and> s' = s
     else \<not> se_busy s' \<and> se_questions s' = se_questions s \<and>
       (if st = JB_OK then se_error s' = [] else se_error s' = take 255 msg') \<and>
       (se_poisoned s \<longrightarrow> st = JB_ERROR_INTERNAL \<and> se_poisoned s' \<and> se_prefix s' = se_prefix s))"
proof (cases "se_busy s \<or> se_poisoned s")
  case True
  then show ?thesis
    by (cases "se_busy s") (auto simp: guarded_def jb_session_acquire_def jb_session_ready_def jb_invalid_def jb_session_release_def)
next
  case False
  then obtain st v s' msg where "call (Some (s\<lparr>se_busy := True\<rparr>)) message = Inr (st, v, Some s', msg)" "se_questions s' = se_questions s"
    using assms by (auto simp: inside_def)
  with False show ?thesis
    by (auto simp: guarded_def jb_session_acquire_def jb_session_ready_def jb_session_release_def)
qed

lemma call_inside:
  assumes "defined (call_run M c s)" "s' = s\<lparr>se_busy := True\<rparr>"
  shows "case c of
      DecideJson ti z out \<Rightarrow> inside s' (jb_session_decide_json_call M ti z out (Some s') message)
    | DecideJsonBatch ti zs out \<Rightarrow> inside s' (jb_session_decide_json_batch_call M ti zs out (Some s') message)
    | Decide ti i out \<Rightarrow> inside s' (jb_session_decide_call M ti i out (Some s') message)
    | DecideBatch ti is out \<Rightarrow> inside s' (jb_session_decide_batch_call M ti is out (Some s') message)"
proof (cases c)
  case (DecideJson ti z out)
  then show ?thesis using assms
    by (cases z) (auto simp: jb_session_decide_json_call_def call_run_def intro!: inside_invalid inside_frame ended_defined)
next
  case (DecideJsonBatch ti zs out)
  show ?thesis
  proof (cases zs)
    case None
    then show ?thesis using DecideJsonBatch by (simp add: jb_session_decide_json_batch_call_def inside_invalid)
  next
    case (Some rs)
    have "defined (fst (case batch_requests rs of Inl e \<Rightarrow> (Inl e, False, se_prefix s')
        | Inr zs \<Rightarrow> run_batch M (json_answer M ti) (map (\<lambda>z. dg_job_prepare (dbl (ma_fpu M)) (ma_tokenizer M) z (length z)) zs) (se_prefix s')))"
    proof (cases "batch_requests rs")
      case (Inl e)
      then show ?thesis using batch_requests_defined [of rs] by (simp add: defined_def)
    next
      case (Inr zs')
      then show ?thesis using assms DecideJsonBatch Some by (auto simp: call_run_def intro: ended_defined)
    qed
    then show ?thesis using DecideJsonBatch Some
      by (auto simp: jb_session_decide_json_batch_call_def intro!: inside_invalid inside_frame)
  qed
next
  case (Decide ti i out)
  then show ?thesis using assms
    by (cases i; cases "se_questions s")
      (auto simp: jb_session_decide_call_def call_run_def intro!: inside_invalid inside_frame intro: ended_defined)
next
  case (DecideBatch ti "is" out)
  then show ?thesis using assms
    by (cases "is"; cases "se_questions s")
      (auto simp: jb_session_decide_batch_call_def call_run_def intro!: inside_invalid inside_frame intro: ended_defined)
qed

text \<open>
  C38. Every decide call comes back: when the engine's run ends, in answers or in a failure of the
  program, the call returns a status, the session is free for the next call, and its error is the
  message of a failed call or empty after a successful one. A session in use by another call is
  refused and left as it is; a poisoned one answers with an internal error and keeps its cache.
\<close>

theorem calls_return:
  assumes "defined (call_run M c s)"
  shows "\<exists>st s' msg'. perform M c (Some s) msg = Inr (st, Some s', msg') \<and>
    (if se_busy s then st = JB_ERROR_INVALID_ARGUMENT \<and> s' = s
     else \<not> se_busy s' \<and> se_questions s' = se_questions s \<and>
       (if st = JB_OK then se_error s' = [] else se_error s' = take 255 msg') \<and>
       (se_poisoned s \<longrightarrow> st = JB_ERROR_INTERNAL \<and> se_poisoned s' \<and> se_prefix s' = se_prefix s))"
proof -
  note i = call_inside [OF assms refl, of msg]
  show ?thesis
  proof (cases c)
    case (DecideJson ti z out)
    from guarded_returns [of s "jb_session_decide_json_call M ti z out" msg] i show ?thesis
      by (fastforce simp: DecideJson perform_def jb_session_decide_json_def)
  next
    case (DecideJsonBatch ti zs out)
    from guarded_returns [of s "jb_session_decide_json_batch_call M ti zs out" msg] i show ?thesis
      by (fastforce simp: DecideJsonBatch perform_def jb_session_decide_json_batch_def)
  next
    case (Decide ti j out)
    from guarded_returns [of s "jb_session_decide_call M ti j out" msg] i show ?thesis
      by (fastforce simp: Decide perform_def jb_session_decide_def)
  next
    case (DecideBatch ti js out)
    from guarded_returns [of s "jb_session_decide_batch_call M ti js out" msg] i show ?thesis
      by (fastforce simp: DecideBatch perform_def jb_session_decide_batch_def)
  qed
qed


theorem calls_return_witness:
  "\<forall>m tok fuel rounds pr ti. let M = \<lparr>ma_fpu = flat_fpu, ma_model = m, ma_tokenizer = tok, ma_fuel = fuel, ma_rounds = rounds, ma_printing = pr\<rparr>
     in \<exists>st s' msg'. perform M (DecideJson ti (Some (str ''['')) True) (Some (fresh_session None)) [] = Inr (st, Some s', msg') \<and> \<not> se_busy s'"
proof (intro allI)
  fix m tok fuel rounds pr and ti :: "int timing"
  let ?M = "\<lparr>ma_fpu = flat_fpu, ma_model = m, ma_tokenizer = tok, ma_fuel = fuel, ma_rounds = rounds, ma_printing = pr\<rparr>"
  let ?c = "DecideJson ti (Some (str ''['')) True"
  have "dg_request_parse (str ''['') 1 = die ''unterminated JSON container''" by code_simp
  then have "dg_request_parse (str ''['') (length (str ''['')) = die ''unterminated JSON container''" by (simp del: str_simps)
  then have "defined (call_run ?M ?c (fresh_session None))"
    by (simp add: call_run_def run_job_def dg_job_prepare_def ended_def die_def defined_def del: str_simps)
  from calls_return [OF this, of "[]"] show "let M = ?M in \<exists>st s' msg'.
      perform M ?c (Some (fresh_session None)) [] = Inr (st, Some s', msg') \<and> \<not> se_busy s'"
    unfolding Let_def by (auto simp: fresh_session_def)
qed

section \<open>Answers do not depend on the past\<close>

lemma prompt_fits:
  assumes "dg_job_prepare_request A tok r = Inr g"
  shows "length (jo_pt g) \<le> JB_MAX_CTX"
proof -
  have "dg_job_layout A tok r seed w sys pre pre_tokens prompt pt = Inr g \<Longrightarrow> jo_pt g = pt"
    for seed w sys pre pre_tokens prompt pt
    by (auto simp: dg_job_layout_def bindE_Inr_iff Let_def split: if_splits)
  with assms show ?thesis
    by (auto simp: dg_job_prepare_request_def bindE_Inr_iff split: if_splits)
qed

definition fits :: "'d DGJob result \<Rightarrow> bool" where
  "fits j \<longleftrightarrow> (\<forall>g. j = Inr g \<longrightarrow> length (jo_pt g) \<le> JB_MAX_CTX)"

lemma prepared_fits: "fits (dg_job_prepare A tok z n)" "fits (prepare_input M q i)"
  by (auto simp: fits_def dg_job_prepare_def prepare_input_def dg_job_prepare_parts_def bindE_Inr_iff intro: prompt_fits)

abbreviation kept :: "('f, 'd) machine \<Rightarrow> 'f DGPrefixCache \<Rightarrow> bool" where
  "kept M \<equiv> cache_ok (ma_fpu M) (ma_model M)"

abbreviation routes :: "('f, 'd) machine \<Rightarrow> bool" where
  "routes M \<equiv> \<forall>l x. distinct_route (ma_fpu M) (ma_model M) l x"

lemma run_job_kept:
  assumes "kept M c" "fits j" "routes M" "run_job M answer j c = (r, active, c')"
  shows "kept M c'" "r = Inr v \<Longrightarrow> \<exists>oc o'. answer oc = Inr v \<and>
    bindE j (dg_systemone_uncached (ma_fpu M) (ma_model M) (ma_fuel M) (ma_rounds M)) = Inr o' \<and>
    oc_job oc = oc_job o' \<and> oc_billed oc = oc_billed o'"
proof -
  have "kept M c' \<and> (r = Inr v \<longrightarrow> (\<exists>oc o'. answer oc = Inr v \<and>
    bindE j (dg_systemone_uncached (ma_fpu M) (ma_model M) (ma_fuel M) (ma_rounds M)) = Inr o' \<and>
    oc_job oc = oc_job o' \<and> oc_billed oc = oc_billed o'))"
  proof (cases j)
    case (Inl e)
    then show ?thesis using assms(1,4) by (auto simp: run_job_def)
  next
    case (Inr g)
    then have g: "length (jo_pt g) \<le> JB_MAX_CTX" using assms(2) by (simp add: fits_def)
    obtain x c1 where x: "dg_systemone_execute (ma_fpu M) (ma_model M) (ma_fuel M) (ma_rounds M) g c = (x, c1)"
      by (cases "dg_systemone_execute (ma_fpu M) (ma_model M) (ma_fuel M) (ma_rounds M) g c")
    note e = execute_exact [OF assms(1) g assms(3) x]
    show ?thesis
    proof (cases "dg_tensor (ma_model M) (str ''model.decoder.embed_tokens.weight'')")
      case (Inl e)
      then show ?thesis using Inr assms(1,4) by (auto simp: run_job_def)
    next
      case t: (Inr emb)
      show ?thesis
      proof (cases x)
        case (Inl f)
        then show ?thesis using Inr t x e(1) assms(4) by (auto simp: run_job_def)
      next
        case o: (Inr oc)
        then have "r = answer oc" "c' = c1" using Inr t x assms(4) by (simp_all add: run_job_def)
        with e(1) e(2) [OF o] Inr show ?thesis by auto
      qed
    qed
  qed
  then show "kept M c'" "r = Inr v \<Longrightarrow> \<exists>oc o'. answer oc = Inr v \<and>
    bindE j (dg_systemone_uncached (ma_fpu M) (ma_model M) (ma_fuel M) (ma_rounds M)) = Inr o' \<and>
    oc_job oc = oc_job o' \<and> oc_billed oc = oc_billed o'" by blast+
qed

lemma run_jobs_kept:
  "kept M c \<Longrightarrow> list_all fits js \<Longrightarrow> routes M \<Longrightarrow> run_jobs M answer js c = (r, active, c') \<Longrightarrow> kept M c'"
proof (induction js arbitrary: c r active c')
  case (Cons j js)
  obtain x a c1 where x: "run_job M answer j c = (x, a, c1)" by (cases "run_job M answer j c")
  have k: "kept M c1" using run_job_kept(1) [OF Cons.prems(1) _ Cons.prems(3) x] Cons.prems(2) by simp
  obtain y b c2 where y: "run_jobs M answer js c1 = (y, b, c2)" by (cases "run_jobs M answer js c1")
  have "kept M c2" using Cons.IH [OF k _ Cons.prems(3) y] Cons.prems(2) by simp
  with k Cons.prems(4) x y show ?case by (auto split: sum.splits)
qed simp

lemma run_batch_kept:
  assumes "kept M c" "list_all fits js" "routes M" "run_batch M answer js c = (r, active, c')"
  shows "kept M c'"
  using assms run_jobs_kept [OF assms(1-3)]
  by (auto simp: run_batch_def split: if_splits sum.splits option.splits)

text \<open>The sessions that calls lead to, whatever they return.\<close>

inductive session_after :: "('f, 'd) machine \<Rightarrow> 'f jb_session \<Rightarrow> bool" for M where
  created: "session_after M (fresh_session questions)"
| called: "session_after M s \<Longrightarrow> perform M c (Some s) msg = Inr (st, Some s', msg') \<Longrightarrow> session_after M s'"

definition keeps :: "('f, 'd) machine \<Rightarrow> ('a, 'f) reply \<Rightarrow> bool" where
  "keeps M r \<longleftrightarrow> (\<forall>st v s' msg. r = Inr (st, v, Some s', msg) \<longrightarrow> kept M (se_prefix s'))"

lemma keeps_invalid: "kept M (se_prefix s) \<Longrightarrow> keeps M (jb_invalid m (Some s))"
  by (simp add: keeps_def jb_invalid_def)

lemma keeps_frame: "kept M (snd (snd r)) \<Longrightarrow> keeps M (in_frame clears s message r)"
  by (cases r; cases "fst r") (auto simp: keeps_def in_frame_def jb_call_cleanup_def split: failure.splits)

lemma keeps_guarded:
  assumes "kept M (se_prefix s)" "keeps M (call (Some (s\<lparr>se_busy := True\<rparr>)) message)"
  shows "keeps M (guarded call (Some s) message)"
proof (cases "se_busy s \<or> se_poisoned s")
  case True
  then show ?thesis using assms(1)
    by (cases "se_busy s") (auto simp: keeps_def guarded_def jb_session_acquire_def jb_session_ready_def jb_invalid_def jb_session_release_def)
next
  case False
  have "kept M (se_prefix s')" if "guarded call (Some s) message = Inr (st, v, Some s', msg)" for st v s' msg
  proof -
    from that False obtain t m where "call (Some (s\<lparr>se_busy := True\<rparr>)) message = Inr (st, v, t, m)" "jb_session_release t st m = Some s'"
      by (auto simp: guarded_def jb_session_acquire_def jb_session_ready_def bindE_Inr_iff)
    with assms(2) show ?thesis by (cases t) (auto simp: keeps_def jb_session_release_def split: if_splits)
  qed
  then show ?thesis by (simp add: keeps_def)
qed

lemma ran_kept:
  assumes "kept M c" "routes M"
  shows "fits j \<Longrightarrow> kept M (snd (snd (run_job M answer j c)))"
    "list_all fits js \<Longrightarrow> kept M (snd (snd (run_batch M answer js c)))"
  using run_job_kept(1) [OF assms(1) _ assms(2)] run_batch_kept [OF assms(1) _ assms(2)]
  by (metis prod.collapse)+

lemma perform_kept:
  assumes "kept M (se_prefix s)" "routes M" "perform M c (Some s) msg = Inr (st, Some s', msg')"
  shows "kept M (se_prefix s')"
proof (cases c)
  case (DecideJson ti z out)
  have "keeps M (jb_session_decide_json M ti z out (Some s) msg)" unfolding jb_session_decide_json_def
    by (intro keeps_guarded assms(1), cases z)
      (auto simp: jb_session_decide_json_call_def assms(1) intro!: keeps_invalid keeps_frame ran_kept(1) [OF _ assms(2)] prepared_fits)
  with assms(3) show ?thesis by (auto simp: DecideJson perform_def keeps_def bindE_Inr_iff)
next
  case (DecideJsonBatch ti zs out)
  have "keeps M (jb_session_decide_json_batch M ti zs out (Some s) msg)" unfolding jb_session_decide_json_batch_def
    by (intro keeps_guarded assms(1), cases zs)
      (auto simp: jb_session_decide_json_batch_call_def assms(1) list_all_iff split: sum.splits
        intro!: keeps_invalid keeps_frame ran_kept(2) [OF _ assms(2)] prepared_fits)
  with assms(3) show ?thesis by (auto simp: DecideJsonBatch perform_def keeps_def bindE_Inr_iff)
next
  case (Decide ti i out)
  have "keeps M (jb_session_decide M ti i out (Some s) msg)" unfolding jb_session_decide_def
    by (intro keeps_guarded assms(1), cases i)
      (auto simp: jb_session_decide_call_def assms(1) split: option.splits
        intro!: keeps_invalid keeps_frame ran_kept(1) [OF _ assms(2)] prepared_fits)
  with assms(3) show ?thesis by (auto simp: Decide perform_def keeps_def bindE_Inr_iff)
next
  case (DecideBatch ti "is" out)
  have "keeps M (jb_session_decide_batch M ti is out (Some s) msg)" unfolding jb_session_decide_batch_def
    by (intro keeps_guarded assms(1), cases "is")
      (auto simp: jb_session_decide_batch_call_def assms(1) list_all_iff split: option.splits
        intro!: keeps_invalid keeps_frame ran_kept(2) [OF _ assms(2)] prepared_fits)
  with assms(3) show ?thesis by (auto simp: DecideBatch perform_def keeps_def bindE_Inr_iff)
qed

lemma session_kept: "session_after M s \<Longrightarrow> routes M \<Longrightarrow> kept M (se_prefix s)"
proof (induction rule: session_after.induct)
  case (created questions)
  show ?case by (simp add: fresh_session_def cache_ok_def)
next
  case (called s c msg st s' msg')
  show ?case by (rule perform_kept [OF called.IH [OF called.prems] called.prems called.hyps(2)])
qed

text \<open>
  C39. The answers of a session do not depend on its past. After any calls, of any of the four kinds
  and with any outcome, a typed call that succeeds gives the answers and the count of input tokens
  that the job of its input has when it is run alone, without a session's cache. No token may choose
  an expert twice.
\<close>

theorem answers_history_free:
  assumes "session_after M s" "\<forall>l x. distinct_route (ma_fpu M) (ma_model M) l x"
    "jb_session_decide M ti (Some i) True (Some s) msg = Inr (JB_OK, Some r, s', msg')"
  shows "\<exists>q o' r'. se_questions s = Some q \<and>
    bindE (prepare_input M q i) (dg_systemone_uncached (ma_fpu M) (ma_model M) (ma_fuel M) (ma_rounds M)) = Inr o' \<and>
    typed_answers M ti o' = Inr r' \<and> re_answers r = re_answers r' \<and> re_input_tokens r = re_input_tokens r'"
proof -
  let ?s = "s\<lparr>se_busy := True\<rparr>"
  have "\<not> se_busy s" "\<not> se_poisoned s" using assms(3)
    by (auto simp: jb_session_decide_def guarded_def jb_session_acquire_def jb_session_ready_def jb_invalid_def split: bool.splits)
  with assms(3) obtain t m where call: "jb_session_decide_call M ti (Some i) True (Some ?s) msg = Inr (JB_OK, Some r, t, m)"
    by (auto simp: jb_session_decide_def guarded_def jb_session_acquire_def jb_session_ready_def bindE_Inr_iff)
  then obtain q a c where q: "se_questions s = Some q" "run_job M (typed_answers M ti) (prepare_input M q i) (se_prefix s) = (Inr r, a, c)"
    by (auto simp: jb_session_decide_call_def in_frame_def die_defs split: option.splits if_splits prod.splits sum.splits failure.splits)
  from run_job_kept(2) [OF session_kept [OF assms(1,2)] prepared_fits(2) assms(2) q(2) refl] obtain oc o' where
    o: "typed_answers M ti oc = Inr r"
      "bindE (prepare_input M q i) (dg_systemone_uncached (ma_fpu M) (ma_model M) (ma_fuel M) (ma_rounds M)) = Inr o'"
      "oc_job oc = oc_job o'" "oc_billed oc = oc_billed o'" by blast
  then have "typed_answers M ti o' = Inr (r\<lparr>re_prefill_tokens := oc_processed o'\<rparr>)"
    by (auto simp: typed_answers_def dg_typed_answers_def Let_def bindE_Inr_iff)
  with q(1) o(2) show ?thesis by (intro exI [of _ q] exI [of _ o'] exI [of _ "r\<lparr>re_prefill_tokens := oc_processed o'\<rparr>"]) simp
qed

definition sample_input :: jb_input where
  "sample_input = \<lparr>in_id = Null 0, in_state_json = Bytes [49], in_samples = 1\<rparr>"

theorem answers_history_free_witness:
  "\<forall>m tok fuel rounds pr ti q. let M = \<lparr>ma_fpu = flat_fpu, ma_model = m, ma_tokenizer = tok, ma_fuel = fuel, ma_rounds = rounds, ma_printing = pr\<rparr>
     in case jb_session_decide M ti (Some sample_input) True (Some (fresh_session (Some q))) [] of
       Inr (JB_OK, Some r, s', msg') \<Rightarrow> (\<exists>o' r'.
         bindE (prepare_input M q sample_input) (dg_systemone_uncached flat_fpu m fuel rounds) = Inr o' \<and>
         typed_answers M ti o' = Inr r' \<and> re_answers r = re_answers r')
     | _ \<Rightarrow> True"
proof (intro allI)
  fix m tok fuel rounds pr q and ti :: "int timing"
  let ?M = "\<lparr>ma_fpu = flat_fpu, ma_model = m, ma_tokenizer = tok, ma_fuel = fuel, ma_rounds = rounds, ma_printing = pr\<rparr>"
  have F: "\<forall>l x. distinct_route (ma_fpu ?M) (ma_model ?M) l x" by (simp add: flat_routes)
  note a = answers_history_free [OF session_after.created F, of ti sample_input "Some q" "[]"]
  show "let M = ?M in case jb_session_decide M ti (Some sample_input) True (Some (fresh_session (Some q))) [] of
       Inr (JB_OK, Some r, s', msg') \<Rightarrow> (\<exists>o' r'.
         bindE (prepare_input M q sample_input) (dg_systemone_uncached flat_fpu m fuel rounds) = Inr o' \<and>
         typed_answers M ti o' = Inr r' \<and> re_answers r = re_answers r')
     | _ \<Rightarrow> True"
    unfolding Let_def
  proof (cases "jb_session_decide ?M ti (Some sample_input) True (Some (fresh_session (Some q))) []")
    case (Inr p)
    obtain st v s' msg' where p: "p = (st, v, s', msg')" by (cases p)
    show "case jb_session_decide ?M ti (Some sample_input) True (Some (fresh_session (Some q))) [] of
       Inr (JB_OK, Some r, s', msg') \<Rightarrow> (\<exists>o' r'.
         bindE (prepare_input ?M q sample_input) (dg_systemone_uncached flat_fpu m fuel rounds) = Inr o' \<and>
         typed_answers ?M ti o' = Inr r' \<and> re_answers r = re_answers r')
     | _ \<Rightarrow> True"
    proof (cases "st = JB_OK \<and> v \<noteq> None")
      case True
      then obtain r where v: "st = JB_OK" "v = Some r" by auto
      from a [OF Inr [unfolded p v]] have "\<exists>o' r'.
         bindE (prepare_input ?M q sample_input) (dg_systemone_uncached flat_fpu m fuel rounds) = Inr o' \<and>
         typed_answers ?M ti o' = Inr r' \<and> re_answers r = re_answers r'"
        by (auto simp: fresh_session_def)
      then show ?thesis by (simp add: Inr p v)
    qed (cases st; cases v; simp add: Inr p)
  qed simp
qed

end
