(* ===== verification/Reads.thy ===== *)
theory Reads
  imports Execute Segments JobSample TopK
begin

text \<open>
  The reads of a job that share one decode give what the same reads give one after the other, canvas
  by canvas: every read is a block of the common rows, its canvases are blocks of that block, and
  scoring it changes nothing that a later read looks at, except whether the job is active.
\<close>

section \<open>Blocks of blocks\<close>

lemma block_block:
  assumes "b < G"
  shows "block n (block (G * n) xs k) b = block n xs (k * G + b)"
proof -
  have "b * n + n \<le> G * n" by (rule block_room [OF assms])
  then have "min n (G * n - b * n) = n" by simp
  then show ?thesis by (simp add: block_def drop_take add.commute distrib_right mult.assoc)
qed

lemma concat_blocks: "length ys = G * n \<Longrightarrow> concat (map (block n ys) [0..<G]) = ys"
proof (induction G arbitrary: ys)
  case (Suc G)
  have "concat (map (block n (take (G * n) ys)) [0..<G]) = take (G * n) ys" by (rule Suc.IH) (use Suc.prems in simp)
  moreover have "map (block n (take (G * n) ys)) [0..<G] = map (block n ys) [0..<G]"
  proof (rule map_cong [OF refl])
    fix b assume "b \<in> set [0..<G]"
    then have "b * n + n \<le> G * n" by (intro block_room) simp
    then show "block n (take (G * n) ys) b = block n ys b" by (simp add: block_def drop_take)
  qed
  moreover have "block n ys G = drop (G * n) ys" using Suc.prems by (simp add: block_def)
  ultimately show ?case by simp
qed simp

text \<open>Collecting lists of one length and joining them.\<close>

lemma joined_blocks:
  assumes "\<And>b y. b < G \<Longrightarrow> g b = Inr y \<Longrightarrow> length y = n"
  shows "bindE (collect g [0..<G]) (\<lambda>hs. Inr (concat hs)) = Inr ys \<longleftrightarrow>
    length ys = G * n \<and> (\<forall>b < G. g b = Inr (block n ys b))"
proof
  assume "bindE (collect g [0..<G]) (\<lambda>hs. Inr (concat hs)) = Inr ys"
  then obtain hs where hs: "length hs = G" "\<forall>b < G. g b = Inr (hs ! b)" "ys = concat hs"
    by (auto simp: bindE_Inr_iff collect_nth)
  then have "\<forall>z \<in> set hs. length z = n" using assms by (auto simp: in_set_conv_nth)
  with length_concat_blocks [OF this] concat_block [OF this] hs
  show "length ys = G * n \<and> (\<forall>b < G. g b = Inr (block n ys b))" by simp
next
  assume r: "length ys = G * n \<and> (\<forall>b < G. g b = Inr (block n ys b))"
  then have "collect g [0..<G] = Inr (map (block n ys) [0..<G])" by (simp add: collect_nth)
  with r concat_blocks [of ys G n] show "bindE (collect g [0..<G]) (\<lambda>hs. Inr (concat hs)) = Inr ys" by simp
qed

lemma blocks_of_joined:
  assumes "\<And>b y. b < G \<Longrightarrow> g b = Inr y \<Longrightarrow> length y = n"
  shows "blocks_of G n (bindE (collect g [0..<G]) (\<lambda>hs. Inr (concat hs))) g"
  unfolding blocks_of_def by (intro allI joined_blocks assms)

text \<open>Blocks of \<open>n\<close> are blocks of \<open>G * n\<close>, each the join of \<open>G\<close> of them.\<close>

lemma blocks_of_join:
  assumes m: "blocks_of (B * G) n m g" and len: "\<And>b y. b < B * G \<Longrightarrow> g b = Inr y \<Longrightarrow> length y = n" and G: "0 < G"
  shows "blocks_of B (G * n) m (\<lambda>k. bindE (collect (\<lambda>b. g (k * G + b)) [0..<G]) (\<lambda>hs. Inr (concat hs)))"
  unfolding blocks_of_def
proof (intro allI)
  fix ys
  have inner: "bindE (collect (\<lambda>b. g (k * G + b)) [0..<G]) (\<lambda>hs. Inr (concat hs)) = Inr (block (G * n) ys k) \<longleftrightarrow>
      (\<forall>b < G. g (k * G + b) = Inr (block n ys (k * G + b)))" if "k < B" "length ys = B * (G * n)" for k
  proof -
    have "length (block (G * n) ys k) = G * n" using that by (intro length_block)
    moreover have "k * G + b < B * G" if "b < G" for b using \<open>k < B\<close> that by (rule block_index)
    ultimately show ?thesis using joined_blocks [of G "\<lambda>b. g (k * G + b)" n "block (G * n) ys k"] len
      by (auto simp: block_block)
  qed
  have "(\<forall>i < B * G. g i = Inr (block n ys i)) \<longleftrightarrow> (\<forall>k < B. \<forall>b < G. g (k * G + b) = Inr (block n ys (k * G + b)))"
    using all_blocks [OF G, of B "\<lambda>_ _ i. g i = Inr (block n ys i)"] .
  with inner show "m = Inr ys \<longleftrightarrow> length ys = B * (G * n) \<and>
      (\<forall>k < B. bindE (collect (\<lambda>b. g (k * G + b)) [0..<G]) (\<lambda>hs. Inr (concat hs)) = Inr (block (G * n) ys k))"
    unfolding blocks_ofD [OF m] by (auto simp: mult.assoc)
qed

section \<open>What a read looks at\<close>

text \<open>The job after some scores: other sums, other counts, and active or not.\<close>

definition unscored :: "'d DGJob \<Rightarrow> 'd DGJob" where
  "unscored g = g\<lparr>jo_prob := [], jo_reads := 0, jo_active := True\<rparr>"

abbreviation rescored :: "'d DGJob \<Rightarrow> 'd DGJob \<Rightarrow> bool" where
  "rescored g g' \<equiv> unscored g' = unscored g"

lemma unscored_fields:
  "jo_w (unscored g) = jo_w g" "jo_width (unscored g) = jo_width g" "jo_groups (unscored g) = jo_groups g"
  "jo_group_cap (unscored g) = jo_group_cap g" "jo_slot (unscored g) = jo_slot g" "jo_ids (unscored g) = jo_ids g"
  "jo_pt (unscored g) = jo_pt g" "jo_requested (unscored g) = jo_requested g"
  "jo_max_reads (unscored g) = jo_max_reads g" "jo_canvas (unscored g) = jo_canvas g"
  by (simp_all add: unscored_def)

lemma rescored_fields:
  assumes "rescored g g'"
  shows "jo_w g' = jo_w g" "jo_width g' = jo_width g" "jo_groups g' = jo_groups g" "jo_group_cap g' = jo_group_cap g"
    "jo_slot g' = jo_slot g" "jo_ids g' = jo_ids g" "jo_pt g' = jo_pt g" "jo_requested g' = jo_requested g"
    "jo_max_reads g' = jo_max_reads g" "jo_canvas g' = jo_canvas g"
  using unscored_fields [of g] unscored_fields [of g'] unfolding assms by simp_all

lemma unscored_canvas: "dg_job_canvas fuel (unscored g) r = dg_job_canvas fuel g r"
  by (simp add: unscored_def dg_job_canvas_def)

lemma unscored_bytes: "dg_job_score_bytes (unscored g) r = dg_job_score_bytes g r"
  by (simp add: unscored_def dg_job_score_bytes_def dg_score_requests_def)

lemma job_score_rescored:
  assumes "dg_job_score F emb g h s r = Inr g'"
  shows "rescored g g'" "jo_requested g \<noteq> 0 \<or> r \<noteq> 0 \<Longrightarrow> jo_active g' = jo_active g"
proof -
  from assms obtain p e where "g' = g\<lparr>jo_prob := p, jo_reads := Suc (jo_reads g),
      jo_active := (if (jo_requested g = 0 \<and> r = 0) \<and> \<not> less_d (dbl F) (db_lit F ''.1'') e then False else jo_active g)\<rparr>"
    unfolding dg_job_score_def Let_def bindE_Inr_iff case_prod_unfold
    by (elim exE conjE) (rule that, drule Inr_inject, erule sym)
  then show "rescored g g'" "jo_requested g \<noteq> 0 \<or> r \<noteq> 0 \<Longrightarrow> jo_active g' = jo_active g"
    by (auto simp: unscored_def)
qed

text \<open>Where the job's slots and buffer lie.\<close>

definition reads_ok :: "'d DGJob \<Rightarrow> bool" where
  "reads_ok g \<longleftrightarrow> 0 < jo_width g \<and> 0 < jo_groups g \<and> jo_width g * jo_groups g \<le> JB_MAX_CTX \<and> 1 \<le> jo_max_reads g \<and>
     (\<forall>x < jo_nq g. x div jo_group_cap g < jo_groups g \<and> jo_slot g ! x < jo_width g) \<and>
     length (jo_canvas g) = jo_width g * jo_groups g * min (JB_MAX_CTX div (jo_width g * jo_groups g)) (jo_max_reads g)"

lemma rescored_reads_ok: "rescored g g' \<Longrightarrow> reads_ok g' = reads_ok g"
  unfolding reads_ok_def by (simp only: rescored_fields [of g g'])

lemma job_reads_ok:
  assumes "job_ok tok g"
  shows "reads_ok g"
proof -
  have "x div jo_group_cap g < jo_groups g \<and> jo_slot g ! x < jo_width g" if "x < jo_nq g" for x
  proof -
    have d: "x div jo_group_cap g < jo_groups g"
      using assms that by (intro less_mult_imp_div_less) (auto simp: job_ok_def)
    have "slot_exact tok (jo_w g) (jo_cv g ! (x div jo_group_cap g)) x (jo_slot g ! x, jo_ids g ! x)"
      using assms that by (simp add: job_ok_def)
    then have "jo_slot g ! x < length (cv_base (jo_cv g ! (x div jo_group_cap g)))" by (simp add: slot_exact_def)
    also have "\<dots> < jo_width g" using assms d by (simp add: job_ok_def list_all_length)
    finally show ?thesis using d by simp
  qed
  with assms show ?thesis by (simp add: job_ok_def reads_ok_def)
qed

section \<open>One read\<close>

text \<open>The rows of a read, canvas by canvas, and reads scored from rows.\<close>

definition read_rows ::
  "('f, 'd) fpu \<Rightarrow> DGModel \<Rightarrow> 'f DGKV list \<Rightarrow> nat \<Rightarrow> 'd DGJob \<Rightarrow> nat \<Rightarrow> 'f list list result" where
  "read_rows F m kv fuel g r =
     bindE (dg_job_canvas fuel g r) (\<lambda>canvas.
     bindE (dg_job_score_bytes g r) (\<lambda>bytes.
     bindE (collect (\<lambda>b. dg_decode F m kv (length (jo_pt g)) (block (jo_width g) canvas b) 1) [0..<jo_groups g]) (\<lambda>hs.
       Inr (concat hs))))"

fun score_rows ::
  "('f, 'd) fpu \<Rightarrow> DGTensor \<Rightarrow> (nat \<times> 'f list list) list \<Rightarrow> 'd DGJob \<Rightarrow> 'd DGJob result" where
  "score_rows F emb [] g = Inr g"
| "score_rows F emb ((r, h) # rs) g = bindE (dg_job_score F emb g h 0 r) (score_rows F emb rs)"

lemma rescored_read_rows: "rescored g g' \<Longrightarrow> read_rows F m kv fuel g' r = read_rows F m kv fuel g r"
  unfolding read_rows_def
  by (simp only: rescored_fields [of g g'] unscored_canvas [of _ g', symmetric] unscored_canvas [of _ g, symmetric]
      unscored_bytes [of g', symmetric] unscored_bytes [of g, symmetric])

text \<open>A read is scored on its own rows; those of read \<open>k\<close> of a common decode are its block of them.\<close>

lemma job_score_rows:
  assumes "reads_ok g" "at0 * jo_width g + jo_groups g * jo_width g \<le> length h"
  shows "dg_job_score F emb g h at0 r = dg_job_score F emb g (take (jo_groups g * jo_width g) (drop (at0 * jo_width g) h)) 0 r"
proof -
  let ?W = "jo_width g" and ?G = "jo_groups g"
  have "rd h ((at0 + x div jo_group_cap g) * ?W + jo_slot g ! x) =
      rd (take (?G * ?W) (drop (at0 * ?W) h)) ((0 + x div jo_group_cap g) * ?W + jo_slot g ! x)" if "x < jo_nq g" for x
  proof -
    have "x div jo_group_cap g * ?W + jo_slot g ! x < ?G * ?W"
      using assms(1) that by (intro block_index) (simp_all add: reads_ok_def)
    then show ?thesis using assms(2) by (simp add: distrib_right add.assoc)
  qed
  then have "dg_slot_rows g h at0 = dg_slot_rows g (take (?G * ?W) (drop (at0 * ?W) h)) 0"
    unfolding dg_slot_rows_def by (intro collect_cong) simp_all
  then show ?thesis by (simp add: dg_job_score_def)
qed

lemma job_score_block:
  assumes "reads_ok g" "length h = n * (jo_groups g * jo_width g)" "k < n"
  shows "dg_job_score F emb g h (k * jo_groups g) r = dg_job_score F emb g (block (jo_groups g * jo_width g) h k) 0 r"
  using job_score_rows [OF assms(1), of "k * jo_groups g" h F emb r] block_room [OF assms(3), of "jo_groups g * jo_width g"] assms(2)
  by (simp add: block_def mult.assoc)

lemma score_reads_rows:
  assumes "reads_ok g" "length h = n * (jo_groups g * jo_width g)" "list_all (\<lambda>k. k < n) ks"
  shows "dg_score_reads F emb h r ks g = score_rows F emb (map (\<lambda>k. (r + k, block (jo_groups g * jo_width g) h k)) ks) g"
  using assms
proof (induction ks arbitrary: g)
  case (Cons k ks)
  have "dg_score_reads F emb h r ks g' = score_rows F emb (map (\<lambda>k. (r + k, block (jo_groups g * jo_width g) h k)) ks) g'"
    if "dg_job_score F emb g (block (jo_groups g * jo_width g) h k) 0 (r + k) = Inr g'" for g'
  proof -
    note s = job_score_rescored(1) [OF that]
    show ?thesis using Cons.IH [of g'] Cons.prems unfolding rescored_reads_ok [OF s] rescored_fields(2,3) [OF s] by simp
  qed
  then show ?case using Cons.prems job_score_block [of g h n k] by (auto intro!: bindE_cong)
qed simp

lemma score_rows_rescored: "score_rows F emb ps g = Inr g' \<Longrightarrow> rescored g g'"
proof (induction ps arbitrary: g)
  case (Cons p ps)
  then show ?case by (cases p) (auto simp: bindE_Inr_iff dest!: job_score_rescored(1))
qed simp

lemma score_rows_active:
  "score_rows F emb ps g = Inr g' \<Longrightarrow> jo_active g \<Longrightarrow> \<forall>p \<in> set ps. jo_requested g \<noteq> 0 \<or> fst p \<noteq> 0 \<Longrightarrow> jo_active g'"
proof (induction ps arbitrary: g)
  case (Cons p ps)
  then obtain g1 where g1: "dg_job_score F emb g (snd p) 0 (fst p) = Inr g1" "score_rows F emb ps g1 = Inr g'"
    by (cases p) (auto simp: bindE_Inr_iff)
  note s = job_score_rescored [OF g1(1)]
  show ?case using Cons.IH [OF g1(2)] Cons.prems s(2) rescored_fields(8) [OF s(1)] by auto
qed simp

section \<open>One read after the other\<close>

lemma sequential_step:
  "dg_reads_sequential F m emb kv fuel (r # rs) g = Inr g' \<longleftrightarrow>
     (\<exists>h g1. read_rows F m kv fuel g r = Inr h \<and> dg_job_score F emb g h 0 r = Inr g1 \<and>
        (if jo_active g1 then dg_reads_sequential F m emb kv fuel rs g1 = Inr g' else g' = g1))"
  by (auto simp: read_rows_def bindE_Inr_iff block_def split: if_splits)

lemma sequential_append:
  assumes "jo_active g" "\<forall>r \<in> set rs. jo_requested g \<noteq> 0 \<or> r \<noteq> 0"
  shows "dg_reads_sequential F m emb kv fuel (rs @ ss) g = Inr g' \<longleftrightarrow>
     (\<exists>hs g1. collect (read_rows F m kv fuel g) rs = Inr hs \<and> score_rows F emb (zip rs hs) g = Inr g1 \<and>
        jo_active g1 \<and> dg_reads_sequential F m emb kv fuel ss g1 = Inr g')"
  using assms
proof (induction rs arbitrary: g)
  case (Cons r rs)
  have "(if jo_active g1 then dg_reads_sequential F m emb kv fuel (rs @ ss) g1 = Inr g' else g' = g1) \<longleftrightarrow>
      (\<exists>hs g2. collect (read_rows F m kv fuel g) rs = Inr hs \<and> score_rows F emb (zip rs hs) g1 = Inr g2 \<and>
        jo_active g2 \<and> dg_reads_sequential F m emb kv fuel ss g2 = Inr g')"
    if "dg_job_score F emb g h 0 r = Inr g1" for h g1
  proof -
    note s = job_score_rescored [OF that]
    have e: "read_rows F m kv fuel g1 = read_rows F m kv fuel g" by (intro ext rescored_read_rows s)
    have a: "jo_active g1" using s(2) Cons.prems by fastforce
    show ?thesis using Cons.IH [of g1] Cons.prems a unfolding e rescored_fields(8) [OF s(1)] by fastforce
  qed
  then show ?case unfolding append_Cons sequential_step by (fastforce simp: bindE_Inr_iff)
qed simp

section \<open>Reads that share a decode\<close>

lemma canvas_length: "dg_job_canvas fuel g r = Inr c \<Longrightarrow> length c = jo_groups g * jo_width g"
proof -
  have b: "dg_canvas_bases w cs k dst = Inr dst' \<Longrightarrow> length dst' = length dst" for w cs k dst dst'
    by (induction w cs k dst rule: dg_canvas_bases.induct) (auto simp: bindE_Inr_iff wr_list_def split: if_splits)
  have s: "dg_canvas_slots fuel cap w ss x rng dst = Inr dst' \<Longrightarrow> length dst' = length dst" for cap w ss x rng dst dst'
    by (induction fuel cap w ss x rng dst rule: dg_canvas_slots.induct) (auto simp: bindE_Inr_iff)
  assume "dg_job_canvas fuel g r = Inr c"
  then show ?thesis by (auto simp: dg_job_canvas_def bindE_Inr_iff dest!: b s)
qed

lemma width_fits: "reads_ok g \<Longrightarrow> jo_width g \<le> JB_MAX_CTX"
proof -
  assume g: "reads_ok g"
  then have "jo_width g \<le> jo_width g * jo_groups g" by (simp add: reads_ok_def)
  also have "\<dots> \<le> JB_MAX_CTX" using g by (simp add: reads_ok_def)
  finally show ?thesis .
qed

lemma decode_length:
  assumes "dg_decode F m kv np c 1 = Inr y" "length c = W" "0 < W" "W \<le> JB_MAX_CTX" "\<forall>l x. distinct_route F m l x"
  shows "length y = W"
proof -
  have "blocks_of 1 W (dg_decode F m kv np c 1) (\<lambda>b. dg_decode F m kv np (block W c b) 1)"
    by (rule decode_batch_blocks) (use assms(2-5) in simp_all)
  then have "length y = 1 * W" using assms(1) unfolding blocks_of_def by blast
  then show ?thesis by simp
qed

lemma read_rows_length:
  assumes "read_rows F m kv fuel g r = Inr h" "reads_ok g" "\<forall>l x. distinct_route F m l x"
  shows "length h = jo_groups g * jo_width g"
proof -
  let ?W = "jo_width g" and ?G = "jo_groups g"
  from assms(1) obtain c where c: "dg_job_canvas fuel g r = Inr c"
    and h: "bindE (collect (\<lambda>b. dg_decode F m kv (length (jo_pt g)) (block ?W c b) 1) [0..<?G]) (\<lambda>hs. Inr (concat hs)) = Inr h"
    unfolding read_rows_def bindE_Inr_iff by blast
  have "length y = ?W" if "b < ?G" "dg_decode F m kv (length (jo_pt g)) (block ?W c b) 1 = Inr y" for b y
    using decode_length [OF that(2) length_block [OF canvas_length [OF c] that(1)] _ width_fits assms(3)] assms(2)
    by (simp add: reads_ok_def)
  then show ?thesis by (rule conjunct1 [OF iffD1 [OF joined_blocks h]])
qed

definition common_rows ::
  "('f, 'd) fpu \<Rightarrow> DGModel \<Rightarrow> 'f DGKV list \<Rightarrow> nat \<Rightarrow> 'd DGJob \<Rightarrow> nat \<Rightarrow> nat \<Rightarrow> 'f list list result" where
  "common_rows F m kv fuel g r cnt =
     bindE (dg_read_canvases fuel g r cnt) (\<lambda>canvas.
     bindE (dg_job_score_bytes g r) (\<lambda>bytes.
       dg_decode F m kv (length (jo_pt g)) canvas (jo_groups g * cnt)))"

lemma bytes_same:
  "jo_requested g \<noteq> 0 \<or> r \<noteq> 0 \<Longrightarrow> dg_job_score_bytes g (r + k) = dg_job_score_bytes g r"
  by (auto simp: dg_job_score_bytes_def dg_score_requests_def)

lemma common_rows_blocks:
  assumes g: "reads_ok g" and cnt: "0 < cnt" "cnt * (jo_groups g * jo_width g) \<le> length (jo_canvas g)"
    "cnt * (jo_groups g * jo_width g) \<le> JB_MAX_CTX" and one: "cnt = 1 \<or> jo_requested g \<noteq> 0 \<or> r \<noteq> 0"
    and F: "\<forall>l x. distinct_route F m l x"
  shows "blocks_of cnt (jo_groups g * jo_width g) (common_rows F m kv fuel g r cnt) (\<lambda>k. read_rows F m kv fuel g (r + k))"
proof -
  let ?W = "jo_width g" and ?G = "jo_groups g" and ?np = "length (jo_pt g)"
  have pos: "0 < ?G" "0 < ?W" using g by (simp_all add: reads_ok_def)
  have c: "dg_read_canvases fuel g r cnt =
      bindE (collect (\<lambda>k. dg_job_canvas fuel g (r + k)) [0..<cnt]) (\<lambda>cs. Inr (concat cs))"
    using cnt(2) by (simp add: dg_read_canvases_def mult.commute mult.left_commute)
  have d: "blocks_of cnt (?G * ?W) (bindE (dg_job_score_bytes g r) (\<lambda>bytes. dg_decode F m kv ?np canvas (?G * cnt)))
      (\<lambda>k. bindE (dg_job_score_bytes g (r + k)) (\<lambda>bytes.
        bindE (collect (\<lambda>b. dg_decode F m kv ?np (block ?W (block (?G * ?W) canvas k) b) 1) [0..<?G]) (\<lambda>hs. Inr (concat hs))))"
    if l: "length canvas = cnt * (?G * ?W)" for canvas
  proof -
    have "blocks_of (cnt * ?G) ?W (dg_decode F m kv ?np canvas (cnt * ?G)) (\<lambda>b. dg_decode F m kv ?np (block ?W canvas b) 1)"
      by (rule decode_batch_blocks) (use pos cnt l F in \<open>simp_all add: mult.assoc\<close>)
    then have "blocks_of cnt (?G * ?W) (dg_decode F m kv ?np canvas (cnt * ?G))
        (\<lambda>k. bindE (collect (\<lambda>b. dg_decode F m kv ?np (block ?W canvas (k * ?G + b)) 1) [0..<?G]) (\<lambda>hs. Inr (concat hs)))"
    proof (rule blocks_of_join [OF _ _ pos(1)])
      fix b y assume b: "b < cnt * ?G" and y: "dg_decode F m kv ?np (block ?W canvas b) 1 = Inr y"
      have w: "length (block ?W canvas b) = 1 * ?W" using length_block [of canvas "cnt * ?G" ?W b] b l by (simp add: mult.assoc)
      show "length y = ?W" using decode_length [OF y _ pos(2) _ F] w g width_fits [OF g] by simp
    qed
    then have "blocks_of cnt (?G * ?W) (bindE (dg_job_score_bytes g r) (\<lambda>bytes. dg_decode F m kv ?np canvas (cnt * ?G)))
        (\<lambda>k. bindE (dg_job_score_bytes g r) (\<lambda>bytes.
          bindE (collect (\<lambda>b. dg_decode F m kv ?np (block ?W canvas (k * ?G + b)) 1) [0..<?G]) (\<lambda>hs. Inr (concat hs))))"
      by (intro blocks_of_const cnt(1))
    then have "blocks_of cnt (?G * ?W) (bindE (dg_job_score_bytes g r) (\<lambda>bytes. dg_decode F m kv ?np canvas (cnt * ?G)))
      (\<lambda>k. bindE (dg_job_score_bytes g (r + k)) (\<lambda>bytes.
        bindE (collect (\<lambda>b. dg_decode F m kv ?np (block ?W (block (?G * ?W) canvas k) b) 1) [0..<?G]) (\<lambda>hs. Inr (concat hs))))"
    proof (rule blocks_of_cong)
      fix k assume "k < cnt"
      with one bytes_same [of g r k] have "dg_job_score_bytes g (r + k) = dg_job_score_bytes g r" by fastforce
      moreover have "collect (\<lambda>b. dg_decode F m kv ?np (block ?W canvas (k * ?G + b)) 1) [0..<?G] =
          collect (\<lambda>b. dg_decode F m kv ?np (block ?W (block (?G * ?W) canvas k) b) 1) [0..<?G]"
        by (intro collect_cong) (simp_all add: block_block)
      ultimately show "bindE (dg_job_score_bytes g r) (\<lambda>bytes.
          bindE (collect (\<lambda>b. dg_decode F m kv ?np (block ?W canvas (k * ?G + b)) 1) [0..<?G]) (\<lambda>hs. Inr (concat hs))) =
        bindE (dg_job_score_bytes g (r + k)) (\<lambda>bytes.
          bindE (collect (\<lambda>b. dg_decode F m kv ?np (block ?W (block (?G * ?W) canvas k) b) 1) [0..<?G]) (\<lambda>hs. Inr (concat hs)))"
        by simp
    qed
    then show ?thesis by (simp add: mult.commute)
  qed
  show ?thesis unfolding common_rows_def read_rows_def c
    by (rule blocks_of_bind [OF blocks_of_joined]) (rule canvas_length, assumption, rule canvas_length, assumption, rule d, assumption)
qed


lemma common_round:
  assumes "reads_ok g" "0 < cnt" "cnt * (jo_groups g * jo_width g) \<le> length (jo_canvas g)"
    "cnt * (jo_groups g * jo_width g) \<le> JB_MAX_CTX" "cnt = 1 \<or> jo_requested g \<noteq> 0 \<or> r \<noteq> 0"
    and F: "\<forall>l x. distinct_route F m l x"
  shows "bindE (common_rows F m kv fuel g r cnt) (\<lambda>h. dg_score_reads F emb h r [0..<cnt] g) = Inr g1 \<longleftrightarrow>
    (\<exists>hs. collect (read_rows F m kv fuel g) [r..<r + cnt] = Inr hs \<and> score_rows F emb (zip [r..<r + cnt] hs) g = Inr g1)"
proof -
  let ?N = "jo_groups g * jo_width g"
  note b = blocks_ofD [OF common_rows_blocks [OF assms]]
  have upt: "[r..<r + cnt] = map ((+) r) [0..<cnt]" by (rule nth_equalityI) simp_all
  have rows: "collect (read_rows F m kv fuel g) [r..<r + cnt] = collect (\<lambda>k. read_rows F m kv fuel g (r + k)) [0..<cnt]"
    unfolding upt collect_map by (simp add: comp_def)
  have score: "dg_score_reads F emb h r [0..<cnt] g = score_rows F emb (zip [r..<r + cnt] (map (block ?N h) [0..<cnt])) g"
    if "length h = cnt * ?N" for h
    using score_reads_rows [OF assms(1) that, of "[0..<cnt]"] unfolding upt
    by (simp add: list_all_iff zip_map_map map_zip_map zip_same_conv_map comp_def)
  show ?thesis
  proof
    assume "bindE (common_rows F m kv fuel g r cnt) (\<lambda>h. dg_score_reads F emb h r [0..<cnt] g) = Inr g1"
    then obtain h where h: "common_rows F m kv fuel g r cnt = Inr h" "dg_score_reads F emb h r [0..<cnt] g = Inr g1"
      by (auto simp: bindE_Inr_iff)
    then have l: "length h = cnt * ?N" "\<forall>k < cnt. read_rows F m kv fuel g (r + k) = Inr (block ?N h k)" unfolding b by blast+
    then have "collect (\<lambda>k. read_rows F m kv fuel g (r + k)) [0..<cnt] = Inr (map (block ?N h) [0..<cnt])"
      by (simp add: collect_nth)
    with score [OF l(1)] h(2) rows
    show "\<exists>hs. collect (read_rows F m kv fuel g) [r..<r + cnt] = Inr hs \<and> score_rows F emb (zip [r..<r + cnt] hs) g = Inr g1" by auto
  next
    assume "\<exists>hs. collect (read_rows F m kv fuel g) [r..<r + cnt] = Inr hs \<and> score_rows F emb (zip [r..<r + cnt] hs) g = Inr g1"
    then obtain hs where hs: "collect (\<lambda>k. read_rows F m kv fuel g (r + k)) [0..<cnt] = Inr hs"
      "score_rows F emb (zip [r..<r + cnt] hs) g = Inr g1" unfolding rows by blast
    then have "length (concat hs) = cnt * ?N \<and> (\<forall>k < cnt. read_rows F m kv fuel g (r + k) = Inr (block ?N (concat hs) k))"
      using joined_blocks [of cnt "\<lambda>k. read_rows F m kv fuel g (r + k)" ?N "concat hs"] read_rows_length [OF _ assms(1) F] by simp
    moreover from this have "map (block ?N (concat hs)) [0..<cnt] = hs"
      using hs(1) by (auto simp: collect_nth intro: nth_equalityI)
    moreover from calculation have "common_rows F m kv fuel g r cnt = Inr (concat hs)" unfolding b by blast
    ultimately show "bindE (common_rows F m kv fuel g r cnt) (\<lambda>h. dg_score_reads F emb h r [0..<cnt] g) = Inr g1"
      using score [of "concat hs"] hs(2) by simp
  qed
qed

text \<open>A round of \<open>dg_reads\<close>, and what the number of its reads satisfies.\<close>

lemma reads_step:
  assumes "r < jo_max_reads g" "jo_active g" "dg_read_count g r = Inr cnt"
  shows "dg_reads F m emb kv fuel (Suc rounds) r g =
    bindE (bindE (common_rows F m kv fuel g r cnt) (\<lambda>h. dg_score_reads F emb h r [0..<cnt] g)) (dg_reads F m emb kv fuel rounds (r + cnt))"
  using assms by (simp add: common_rows_def bindE_assoc)

lemma read_count:
  assumes "reads_ok g" "r < jo_max_reads g"
  obtains cnt where "dg_read_count g r = Inr cnt" "0 < cnt" "r + cnt \<le> jo_max_reads g"
    "cnt * (jo_groups g * jo_width g) \<le> length (jo_canvas g)" "cnt * (jo_groups g * jo_width g) \<le> JB_MAX_CTX"
    "cnt = 1 \<or> jo_requested g \<noteq> 0 \<or> r \<noteq> 0"
proof -
  let ?P = "jo_width g * jo_groups g"
  define most where "most = JB_MAX_CTX div ?P"
  define want where "want = (if jo_requested g = 0 \<and> r = 0 then 1 else jo_max_reads g - r)"
  have P: "0 < ?P" "?P \<le> JB_MAX_CTX" using assms(1) by (simp_all add: reads_ok_def)
  then have most: "1 \<le> most" "most * ?P \<le> JB_MAX_CTX"
    using div_le_mono [OF P(2), of ?P] by (simp_all add: most_def)
  have want: "1 \<le> want" "r + want \<le> jo_max_reads g" "want = 1 \<or> jo_requested g \<noteq> 0 \<or> r \<noteq> 0"
    using assms(2) by (auto simp: want_def)
  have len: "length (jo_canvas g) = ?P * min most (jo_max_reads g)" using assms(1) by (simp add: reads_ok_def most_def)
  have "min want most * ?P \<le> ?P * min most (jo_max_reads g)" 
  proof -
    have "min want most \<le> min most (jo_max_reads g)" using want(2) by (auto simp: min_def)
    then show ?thesis by (metis mult.commute mult_le_mono2)
  qed
  moreover have "min want most * ?P \<le> JB_MAX_CTX" using most(2) by (meson le_trans min.cobounded2 mult_le_mono1)
  moreover have "dg_read_count g r = Inr (min want most)"
    using P(1) by (simp add: dg_read_count_def Let_def most_def want_def min_def)
  ultimately show ?thesis using most(1) want len by (intro that [of "min want most"]) (auto simp: mult.commute)
qed

text \<open>A first run of reads: one automatic read, or reads that leave the job active.\<close>

lemma sequential_run:
  assumes "jo_active g" "0 < cnt" "cnt = 1 \<or> jo_requested g \<noteq> 0 \<or> r \<noteq> 0"
  shows "dg_reads_sequential F m emb kv fuel ([r..<r + cnt] @ rs) g = Inr g' \<longleftrightarrow>
    (\<exists>hs g1. collect (read_rows F m kv fuel g) [r..<r + cnt] = Inr hs \<and> score_rows F emb (zip [r..<r + cnt] hs) g = Inr g1 \<and>
      (if jo_active g1 then dg_reads_sequential F m emb kv fuel rs g1 = Inr g' else g' = g1))"
proof (cases "cnt = 1")
  case True
  then have r: "[r..<r + cnt] = [r]" by simp
  show ?thesis unfolding r append_Cons append_Nil sequential_step by (fastforce simp: bindE_Inr_iff)
next
  case False
  then have n: "\<forall>r \<in> set [r..<r + cnt]. jo_requested g \<noteq> 0 \<or> r \<noteq> 0" using assms(3) by auto
  have "jo_active g1"
    if "collect (read_rows F m kv fuel g) [r..<r + cnt] = Inr hs" "score_rows F emb (zip [r..<r + cnt] hs) g = Inr g1" for hs g1
  proof -
    have "\<forall>p \<in> set (zip [r..<r + cnt] hs). jo_requested g \<noteq> 0 \<or> fst p \<noteq> 0" using n by (auto dest!: set_zip_leftD)
    then show ?thesis by (rule score_rows_active [OF that(2) assms(1)])
  qed
  then show ?thesis unfolding sequential_append [OF assms(1) n] by fastforce
qed

lemma reads_sequential_from:
  assumes "reads_ok g" "jo_active g" "jo_max_reads g \<le> r + rounds" "\<forall>l x. distinct_route F m l x"
  shows "dg_reads F m emb kv fuel rounds r g = Inr g' \<longleftrightarrow> dg_reads_sequential F m emb kv fuel [r..<jo_max_reads g] g = Inr g'"
  using assms
proof (induction rounds arbitrary: r g)
  case (Suc rounds)
  show ?case
  proof (cases "r < jo_max_reads g")
    case True
    from read_count [OF Suc.prems(1) True] obtain cnt where c: "dg_read_count g r = Inr cnt" "0 < cnt" "r + cnt \<le> jo_max_reads g"
      "cnt * (jo_groups g * jo_width g) \<le> length (jo_canvas g)" "cnt * (jo_groups g * jo_width g) \<le> JB_MAX_CTX"
      "cnt = 1 \<or> jo_requested g \<noteq> 0 \<or> r \<noteq> 0" by blast
    have split: "[r..<jo_max_reads g] = [r..<r + cnt] @ [r + cnt..<jo_max_reads g]" using upt_add_eq_append [of r "r + cnt" "jo_max_reads g - (r + cnt)"] c(3) by simp
    have after: "dg_reads F m emb kv fuel rounds (r + cnt) g1 = Inr g' \<longleftrightarrow>
        (if jo_active g1 then dg_reads_sequential F m emb kv fuel [r + cnt..<jo_max_reads g] g1 = Inr g' else g' = g1)"
      if "score_rows F emb ps g = Inr g1" for g1 ps
    proof -
      note s = score_rows_rescored [OF that]
      have "jo_max_reads g \<le> r + cnt + rounds" using Suc.prems(3) c(2) by simp
      then show ?thesis
        using Suc.IH [of g1 "r + cnt"] Suc.prems(1,4) unfolding rescored_reads_ok [OF s] rescored_fields(9) [OF s]
        by (cases rounds) auto
    qed
    show ?thesis
      unfolding reads_step [OF True Suc.prems(2) c(1)] split sequential_run [OF Suc.prems(2) c(2,6)]
        bindE_Inr_iff [of _ "dg_reads F m emb kv fuel rounds (r + cnt)"]
        common_round [OF Suc.prems(1) c(2,4-6) Suc.prems(4)]
      using after by blast
  qed simp
qed simp


lemma job_prepare_active:
  assumes "dg_job_prepare_request A tok r = Inr g"
  shows "jo_active g"
proof -
  have "dg_job_layout A tok r seed w sys pre pre_tokens prompt pt = Inr g \<Longrightarrow> jo_active g"
    for r seed w sys pre pre_tokens prompt pt
    by (auto simp: dg_job_layout_def bindE_Inr_iff Let_def split: if_splits)
  with assms show ?thesis
    by (auto simp: dg_job_prepare_request_def bindE_Inr_iff split: if_splits)
qed

text \<open>
  C34. The reads of a prepared job, of which as many as fit share a decode, end with the job that
  reading them one after the other and canvas by canvas ends with, and return only then; as many
  rounds as there are reads are enough. No token may choose an expert twice.
\<close>

theorem reads_sequential:
  assumes "dg_job_prepare (dbl F) tok j (length j) = Inr g" "dgt_ok tok" "jo_max_reads g \<le> rounds"
    "\<forall>l x. distinct_route F m l x"
  shows "dg_reads F m emb kv fuel rounds 0 g = Inr g' \<longleftrightarrow>
    dg_reads_sequential F m emb kv fuel [0..<jo_max_reads g] g = Inr g'"
proof (rule reads_sequential_from)
  show "jo_active g" using assms(1) job_prepare_active by (auto simp: dg_job_prepare_def bindE_Inr_iff)
qed (use job_reads_ok [OF dg_job_prepare_job_ok [OF assms(1,2)]] assms(3,4) in simp_all)

theorem reads_sequential_witness:
  "\<exists>g. dg_job_prepare (dbl flat_fpu) job_tokenizer sample_request (length sample_request) = Inr g \<and>
     (\<forall>m emb kv fuel g'. dg_reads flat_fpu m emb kv fuel 4 0 g = Inr g' \<longleftrightarrow>
        dg_reads_sequential flat_fpu m emb kv fuel [0..<jo_max_reads g] g = Inr g')"
proof -
  obtain g where g: "dg_job_prepare (dbl flat_fpu) job_tokenizer sample_request (length sample_request) = Inr g"
    "jo_max_reads g = 4" using sample_job by metis
  from reads_sequential [OF g(1) job_tokenizer_ok] g flat_routes show ?thesis by (intro exI [of _ g]) simp
qed

end
