(* ===== verification/Padding.thy ===== *)
theory Padding
  imports Prefix
begin

text \<open>
  Suffixes of several documents, padded to one length: what is computed for the padding never reaches
  a document's K/V.
\<close>

section \<open>Parts of rows\<close>

abbreviation part :: "nat \<Rightarrow> nat \<Rightarrow> 'a list \<Rightarrow> 'a list" where
  "part i n xs \<equiv> take n (drop i xs)"

lemma collect_part: "collect f xs = Inr ys \<Longrightarrow> collect f (part i n xs) = Inr (part i n ys)"
  unfolding collect_nth by auto

lemma ff_part:
  assumes "length x \<le> JB_MAX_CTX" "part i n x \<noteq> []" "\<forall>x. distinct_route F m l x" "dg_ff F m l x = Inr y"
  shows "dg_ff F m l (part i n x) = Inr (part i n y)"
proof -
  have eq: "dg_ff F m l x = Inr y \<longleftrightarrow> collect (ff_token F m l) x = Inr y" if "0 < length x" "length x \<le> JB_MAX_CTX" for x y
    using rows_ofD [OF dg_ff_rows [OF that refl], of F m l y] assms(3) by (simp add: collect_nth)
  have "0 < length x" using assms(2) by auto
  with assms(1,4) have "collect (ff_token F m l) x = Inr y" using eq by blast
  then have "collect (ff_token F m l) (part i n x) = Inr (part i n y)" by (rule collect_part)
  moreover have "0 < length (part i n x)" "length (part i n x) \<le> JB_MAX_CTX" using assms(1,2) by auto
  ultimately show ?thesis using eq by blast
qed

lemma part_map2: "part i n (map2 f us xs) = map2 f (part i n us) (part i n xs)"
  by (simp add: take_map drop_map take_zip drop_zip)

lemma part_block: "n \<le> seq \<Longrightarrow> part (b * seq) n xs = take n (block seq xs b)"
  by (simp add: block_def min_absorb1)

section \<open>Attention\<close>

lemma past_take_rows:
  assumes "past_rows F m l c x (qkv, y)" "even_kv c" "n \<le> length x"
  shows "past_rows F m l c (take n x) (take n qkv, take n y)"
proof -
  have len: "length qkv = length x" "length y = length x" using past_rows_length [OF assms(1)] by simp_all
  have "past_rows F m l c (take n x @ drop n x) (take n qkv @ drop n qkv, take n y @ drop n y)" using assms(1) by simp
  moreover have "length (take n qkv) = length (take n x)" "length (take n y) = length (take n x)" using len by simp_all
  ultimately show ?thesis using past_append [OF assms(2)] by blast
qed

lemma kv_output_nth:
  assumes "dg_kv_output planned cache lens segments seq k v = Inr kv" "b < segments"
  shows "length kv = segments" "planned ! b = kv_n (segment_cache cache b) + lens ! b"
    "kv ! b = append_kv (segment_cache cache b) \<lparr>kv_k = part (b * seq) (lens ! b) k, kv_v = part (b * seq) (lens ! b) v\<rparr>"
proof -
  have "length kv = segments \<and> (\<forall>s < segments.
      (if planned ! s \<noteq> kv_n (segment_cache cache s) + lens ! s then die ''K/V output does not match planned storage''
       else Inr \<lparr>kv_k = kv_k (segment_cache cache s) @ part (s * seq) (lens ! s) k,
                 kv_v = kv_v (segment_cache cache s) @ part (s * seq) (lens ! s) v\<rparr>) = Inr (kv ! s))"
    using assms(1) unfolding dg_kv_output_def collect_nth Let_def by auto
  with assms(2) show "length kv = segments" "planned ! b = kv_n (segment_cache cache b) + lens ! b"
    "kv ! b = append_kv (segment_cache cache b) \<lparr>kv_k = part (b * seq) (lens ! b) k, kv_v = part (b * seq) (lens ! b) v\<rparr>"
    by (auto simp: append_kv_def split: if_splits)
qed

lemma padded_attention:
  assumes n: "0 < segments" "0 < seq" "segments * seq \<le> JB_MAX_CTX" "length z = segments * seq" and b: "b < segments"
    and len: "0 < lens ! b" "lens ! b \<le> seq" and c: "cs ! b = c" "even_kv c"
    and a: "dg_attention_segments F m l z segments seq 0 (Some cs) lens (Some planned) DG_SUFFIX = Inr (y, kv)"
  shows "length y = length z \<and>
    dg_attention F m l (part (b * seq) (lens ! b) z) (kv_n c) (Some c) (Some (planned ! b)) DG_SUFFIX 1 =
      Inr (part (b * seq) (lens ! b) y, [kv ! b])"
proof -
  obtain qkv where q: "length qkv = segments * seq" "length y = segments * seq"
    and r: "segment_rows F m l DG_SUFFIX (segment_cache (Some cs) b) (row_pos (Some cs) 0 b 0) (block seq z b) (block seq qkv b, block seq y b)"
    and o: "dg_kv_output planned (Some cs) lens segments seq (kv_k (own_kv qkv)) (kv_v (own_kv qkv)) = Inr kv"
    using a b unfolding attention_by_segment [OF n] by auto
  let ?n = "lens ! b"
  have "past_rows F m l c (block seq z b) (block seq qkv b, block seq y b)"
    using r segment_past [of DG_SUFFIX c F m l "block seq z b" "block seq qkv b" "block seq y b"] c
    by (simp add: segment_cache_def row_pos_def)
  then have p: "past_rows F m l c (take ?n (block seq z b)) (take ?n (block seq qkv b), take ?n (block seq y b))"
    by (rule past_take_rows [OF _ c(2)]) (simp add: length_block [OF n(4) b] len(2))
  have k: "kv ! b = append_kv c (own_kv (take ?n (block seq qkv b)))" "planned ! b = kv_n c + ?n"
    using kv_output_nth [OF o b] len(2)
    by (simp_all add: segment_cache_def c(1) own_kv_def block_def take_map drop_map min_absorb1)
  have "causal_kv F m l c (part (b * seq) ?n z) (part (b * seq) ?n y, [kv ! b])"
    unfolding causal_kv_def part_block [OF len(2)] using p k(1) by auto
  moreover have l: "length (part (b * seq) ?n z) = ?n"
    unfolding part_block [OF len(2)] using length_block [OF n(4) b] len(2) by simp
  moreover have "?n \<le> JB_MAX_CTX" using len(2) n(1,3) by (metis One_nat_def Suc_leI le_trans mult_le_mono1 nat_mult_1)
  ultimately show ?thesis using suffix_attention [of "part (b * seq) ?n z" c F m l "kv_n c" "planned ! b"] c(2) len(1) k(2) q(2) n(4)
    by simp
qed

section \<open>Layers and passes\<close>

lemma padded_layer:
  assumes n: "0 < segments" "0 < seq" "segments * seq \<le> JB_MAX_CTX" "length x = segments * seq" and b: "b < segments"
    and len: "0 < lens ! b" "lens ! b \<le> seq" and c: "cs ! b = c" "even_kv c" and ok: "\<forall>x. distinct_route F m l x"
    and a: "dg_layer_multi F m l x segments seq cs lens (Some planned) DG_SUFFIX = Inr (y, kv)"
  shows "length y = length x \<and> suffix_layers F m (\<lambda>_. c) (planned ! b) l (part (b * seq) (lens ! b) x) =
    Inr (part (b * seq) (lens ! b) y, [kv ! b])"
proof -
  let ?part = "part (b * seq) (lens ! b)"
  obtain inw pa sw sc z w u v where
    t: "dg_layer_tensor m l ''input_layernorm.weight'' = Inr inw" "dg_layer_tensor m l ''post_attention_layernorm.weight'' = Inr pa"
      "dg_layer_tensor m l ''layer_scalar'' = Inr sw" "dg_at F sw 0 = Inr sc"
    and z: "collect (dg_rms_ref F (Some inw)) x = Inr z"
    and w: "dg_attention_segments F m l z segments seq 0 (Some cs) lens (Some planned) DG_SUFFIX = Inr (w, kv)"
    and u: "collect (dg_rms_ref F (Some pa)) w = Inr u" and v: "dg_ff F m l (map2 (map2 (fl_add F)) u x) = Inr v"
    and y: "y = map (map (\<lambda>a. fl_mul F a sc)) v"
    using a unfolding dg_layer_multi_def layer_with_iff by blast
  have lz: "length z = segments * seq" using collect_length [OF z] n(4) by simp
  note w' = padded_attention [OF n(1-3) lz b len c w]
  have lu: "length u = length x" using w' collect_length [OF u] lz n(4) by simp
  have "?part (map2 (map2 (fl_add F)) u x) \<noteq> []"
    unfolding part_block [OF len(2)] using length_block [of "map2 (map2 (fl_add F)) u x" segments seq b] b n(2,4) len lu by fastforce
  then have "dg_ff F m l (map2 (map2 (fl_add F)) (?part u) (?part x)) = Inr (?part v)"
    unfolding part_map2 [symmetric] by (intro ff_part [OF _ _ ok v]) (use n lu in simp_all)
  moreover have "?part y = map (map (\<lambda>a. fl_mul F a sc)) (?part v)" by (simp add: y take_map drop_map)
  ultimately have "suffix_layers F m (\<lambda>_. c) (planned ! b) l (?part x) = Inr (?part y, [kv ! b])"
    unfolding suffix_layers_def dg_layer_def layer_with_iff using t collect_part [OF z] w' collect_part [OF u] by blast
  with dg_ff_length [OF v] lu y show ?thesis by simp
qed

lemma padded_layers:
  assumes n: "0 < segments" "0 < seq" "segments * seq \<le> JB_MAX_CTX" "length x = segments * seq" and b: "b < segments"
    and len: "0 < lens ! b" "lens ! b \<le> seq" and c: "\<forall>l \<in> set ls. even_kv (pf l)" and ok: "\<forall>l x. distinct_route F m l x"
    and r: "run_layers (\<lambda>l x. dg_layer_multi F m l x segments seq (replicate segments (pf l)) lens (Some planned) DG_SUFFIX) ls x = Inr (y, kvs)"
  shows "length kvs = length ls \<and> run_layers (suffix_layers F m pf (planned ! b)) ls (part (b * seq) (lens ! b) x) =
    Inr (part (b * seq) (lens ! b) y, map (\<lambda>kv. [kv ! b]) kvs)"
  using n(4) c r
proof (induction ls arbitrary: x kvs)
  case (Cons l ls)
  obtain z kv ks where z: "dg_layer_multi F m l x segments seq (replicate segments (pf l)) lens (Some planned) DG_SUFFIX = Inr (z, kv)"
    and k: "run_layers (\<lambda>l x. dg_layer_multi F m l x segments seq (replicate segments (pf l)) lens (Some planned) DG_SUFFIX) ls z = Inr (y, ks)"
      "kvs = kv # ks"
    using Cons.prems(3) by (auto simp: bindE_Inr_iff)
  have "length z = length x \<and> suffix_layers F m (\<lambda>_. pf l) (planned ! b) l (part (b * seq) (lens ! b) x) =
      Inr (part (b * seq) (lens ! b) z, [kv ! b])"
    by (rule padded_layer [OF n(1-3) Cons.prems(1) b len _ _ _ z]) (use Cons.prems(2) b ok in simp_all)
  moreover have "suffix_layers F m (\<lambda>_. pf l) (planned ! b) l = suffix_layers F m pf (planned ! b) l" by (simp add: suffix_layers_def fun_eq_iff)
  ultimately show ?case using Cons.IH [of z ks] Cons.prems(1,2) k by simp
qed simp

lemma suffix_padded:
  assumes "0 < length lens" "0 < seq" "length lens * seq \<le> JB_MAX_CTX" "length token = length lens * seq"
    "\<forall>n \<in> set lens. 0 < n \<and> n \<le> seq" "length prefix = DG_L" "\<forall>c \<in> set prefix. even_kv c" "\<forall>l x. distinct_route F m l x"
    "dg_prefill_suffix_multi F m token lens seq prefix planned = Inr kvs"
  shows "length kvs = length lens \<and> (\<forall>b < length lens.
    dg_prefill_suffix F m (part (b * seq) (lens ! b) token) prefix (planned ! b) = Inr (kvs ! b))"
proof -
  let ?B = "length lens"
  obtain x y ks where x: "dg_embed F m token False = Inr x"
    and r: "run_layers (\<lambda>l x. dg_layer_multi F m l x ?B seq (replicate ?B (prefix ! l)) lens (Some planned) DG_SUFFIX) [0..<DG_L] x = Inr (y, ks)"
    and kvs: "kvs = map (\<lambda>b. map (\<lambda>l. ks ! l ! b) [0..<DG_L]) [0..<?B]"
    using assms(9) unfolding dg_prefill_suffix_multi_def by (auto simp: bindE_Inr_iff Let_def)
  have lx: "length x = ?B * seq" using embed_length [OF x] assms(4) by simp
  have pf: "prefix = map ((!) prefix) [0..<DG_L]" using map_nth [of prefix] assms(6) by simp
  have "dg_prefill_suffix F m (part (b * seq) (lens ! b) token) prefix (planned ! b) = Inr (kvs ! b)" if b: "b < ?B" for b
  proof -
    have len: "0 < lens ! b" "lens ! b \<le> seq" using assms(5) b by simp_all
    have even: "\<forall>l \<in> set [0..<DG_L]. even_kv (prefix ! l)" using assms(6,7) by simp
    note p = padded_layers [OF assms(1-3) lx b len even assms(8) r]
    obtain w where "dg_tensor m (str ''model.decoder.embed_tokens.weight'') = Inr w" using x by (auto simp: dg_embed_def bindE_Inr_iff)
    then have e: "dg_embed F m (part (b * seq) (lens ! b) token) False = Inr (part (b * seq) (lens ! b) x)"
      using x collect_part unfolding dg_embed_def by auto
    have k: "map hd (map (\<lambda>kv. [kv ! b]) ks) = kvs ! b"
      using p b by (simp add: kvs) (intro nth_equalityI, simp_all)
    show ?thesis
      by (subst pf, subst prefill_suffix_layers) (use p e k [symmetric] in metis)
  qed
  with kvs show ?thesis by simp
qed

text \<open>
  C33. Padding is unseen: when the suffixes of several documents, each padded to the longest, go
  through one pass, every document's K/V is the one that its own tokens give alone, without padding.
  No token may choose an expert twice.
\<close>

theorem suffix_padding_unseen:
  assumes "0 < length lens" "0 < seq" "length lens * seq \<le> JB_MAX_CTX" "length token = length lens * seq"
    "\<forall>n \<in> set lens. 0 < n \<and> n \<le> seq" "length prefix = DG_L" "\<forall>c \<in> set prefix. even_kv c" "\<forall>l x. distinct_route F m l x"
  shows "case dg_prefill_suffix_multi F m token lens seq prefix planned of
      Inr kvs \<Rightarrow> length kvs = length lens \<and> (\<forall>b < length lens.
        dg_prefill_suffix F m (take (lens ! b) (drop (b * seq) token)) prefix (planned ! b) = Inr (kvs ! b))
    | Inl e \<Rightarrow> True"
  by (cases "dg_prefill_suffix_multi F m token lens seq prefix planned") (simp_all add: suffix_padded [OF assms])

theorem suffix_padding_unseen_witness:
  "\<forall>m planned. case dg_prefill_suffix_multi flat_fpu m [1, 2, 3, 0] [2, 1] 2 (replicate DG_L no_kv) planned of
      Inr kvs \<Rightarrow> length kvs = length [2, 1 :: nat] \<and> (\<forall>b < length [2, 1 :: nat].
        dg_prefill_suffix flat_fpu m (take ([2, 1] ! b) (drop (b * 2) [1, 2, 3, 0])) (replicate DG_L no_kv) (planned ! b) = Inr (kvs ! b))
    | Inl e \<Rightarrow> True"
  by (intro allI suffix_padding_unseen) (simp_all add: JB_MAX_CTX_def DG_L_def flat_routes)

end
