(* ===== verification/Microbatch.thy ===== *)
theory Microbatch
  imports Cache Reads Padding
begin

text \<open>
  A microbatch over one cached prefix (\<open>dg_system_batch_execute\<close>) ends every job as the job ends when
  it runs alone: the padded suffix pass gives each its own K/V, and in every round the canvases of
  the jobs that still read share a decode whose rows belong to the canvases one by one.
\<close>

section \<open>A round\<close>

text \<open>The documents of the canvases of a round, from document \<open>b\<close> on.\<close>

definition round_docs :: "nat \<Rightarrow> nat \<Rightarrow> 'd DGJob list \<Rightarrow> nat list" where
  "round_docs r b gs = concat (map (\<lambda>(b, g). if reading r g then replicate (jo_groups g) b else []) (enumerate b gs))"

lemma round_docs_simps [simp]:
  "round_docs r b [] = []"
  "round_docs r b (g # gs) = (if reading r g then replicate (jo_groups g) b else []) @ round_docs r (Suc b) gs"
  by (simp_all add: round_docs_def)

definition round_canvas :: "nat \<Rightarrow> nat \<Rightarrow> 'd DGJob \<Rightarrow> int list result" where
  "round_canvas fuel r g = (if reading r g then dg_job_canvas fuel g r else Inr [])"

text \<open>What a round makes of one job.\<close>

definition round_job ::
  "('f, 'd) fpu \<Rightarrow> DGModel \<Rightarrow> DGTensor \<Rightarrow> 'f DGKV list \<Rightarrow> nat \<Rightarrow> nat \<Rightarrow> 'd DGJob \<Rightarrow> 'd DGJob \<Rightarrow> bool" where
  "round_job F m emb kv fuel r g g' \<longleftrightarrow>
     (if reading r g then \<exists>h. read_rows F m kv fuel g r = Inr h \<and> dg_job_score F emb g h 0 r = Inr g' else g' = g)"

lemma round_canvases_length:
  assumes "\<forall>g \<in> set gs. jo_width g = W" "collect (round_canvas fuel r) gs = Inr cs"
  shows "length (concat cs) = length (round_docs r b gs) * W"
  using assms
proof (induction gs arbitrary: b cs)
  case (Cons g gs)
  then obtain c ds where c: "round_canvas fuel r g = Inr c" "collect (round_canvas fuel r) gs = Inr ds" "cs = c # ds"
    by (auto simp: bindE_Inr_iff)
  have "length c = (if reading r g then jo_groups g * W else 0)"
    using c(1) canvas_length [of fuel g r c] Cons.prems(1) by (simp add: round_canvas_def split: if_splits)
  with Cons.IH [OF _ c(2), of "Suc b"] Cons.prems(1) c(3) show ?case by (simp add: distrib_right)
qed simp

lemma block_append: "length xs = G * n \<Longrightarrow> block n (xs @ ys) (G + s) = block n ys s"
  by (simp add: block_def distrib_right drop_append)

lemma block_append_left:
  assumes "length xs = G * n" "s < G"
  shows "block n (xs @ ys) s = block n xs s"
  using block_room [OF assms(2), of n] assms(1) by (simp add: block_def)

lemma block_part: "s < G \<Longrightarrow> block n (part (a * n) (G * n) xs) s = block n xs (a + s)"
  using block_room [of s G n] by (simp add: block_def drop_take min_def distrib_right add.commute)

lemma scores_by_job:
  assumes "\<forall>g \<in> set gs. reads_ok g \<and> jo_width g = W" "collect (round_canvas fuel r) gs = Inr cs"
    "\<forall>g \<in> set gs. reading r g \<longrightarrow> (\<exists>n. dg_job_score_bytes g r = Inr n)"
    "\<And>s np. s < length (round_docs r b gs) \<Longrightarrow>
       dg_decode F m (kvs ! (round_docs r b gs ! s)) np (block W (concat cs) s) 1 = Inr (block W h (at0 + s))"
    "(at0 + length (round_docs r b gs)) * W \<le> length h"
    "batch_scores F emb h r gs at0 = Inr gs'"
  shows "length gs' = length gs \<and> (\<forall>k < length gs. round_job F m emb (kvs ! (b + k)) fuel r (gs ! k) (gs' ! k))"
  using assms
proof (induction gs arbitrary: b at0 cs gs')
  case (Cons g gs)
  obtain c ds where c: "round_canvas fuel r g = Inr c" "collect (round_canvas fuel r) gs = Inr ds" "cs = c # ds"
    using Cons.prems(2) by (auto simp: bindE_Inr_iff)
  have g: "reads_ok g" "jo_width g = W" and gs: "\<forall>g \<in> set gs. reads_ok g \<and> jo_width g = W"
    "\<forall>g \<in> set gs. reading r g \<longrightarrow> (\<exists>n. dg_job_score_bytes g r = Inr n)" using Cons.prems(1,3) by auto
  let ?n = "if reading r g then jo_groups g else 0"
  have lc: "length c = ?n * W"
    using c(1) canvas_length [of fuel g r c] g(2) by (simp add: round_canvas_def split: if_splits)
  obtain g' ds' where g': "gs' = g' # ds'" "batch_scores F emb h r gs (at0 + ?n) = Inr ds'"
    "if reading r g then dg_job_score F emb g h at0 r = Inr g' else g' = g"
    using Cons.prems(6) by (cases "reading r g") (auto simp: bindE_Inr_iff)
  have docs: "round_docs r b (g # gs) ! (?n + s) = round_docs r (Suc b) gs ! s" for s by (simp add: nth_append)
  have "length ds' = length gs \<and> (\<forall>k < length gs. round_job F m emb (kvs ! (Suc b + k)) fuel r (gs ! k) (ds' ! k))"
  proof (rule Cons.IH [OF gs(1) c(2) gs(2) _ _ g'(2)])
    fix s np assume "s < length (round_docs r (Suc b) gs)"
    then have "?n + s < length (round_docs r b (g # gs))" by simp
    from Cons.prems(4) [OF this, of np]
    show "dg_decode F m (kvs ! (round_docs r (Suc b) gs ! s)) np (block W (concat ds) s) 1 = Inr (block W h (at0 + ?n + s))"
      unfolding docs c(3) concat.simps block_append [OF lc] by (simp add: add.assoc)
  next
    show "(at0 + ?n + length (round_docs r (Suc b) gs)) * W \<le> length h" using Cons.prems(5) by (cases "reading r g") (simp_all add: add.assoc)
  qed
  moreover have "round_job F m emb (kvs ! b) fuel r g g'"
  proof (cases "reading r g")
    case True
    let ?G = "jo_groups g" and ?np = "length (jo_pt g)"
    let ?h = "part (at0 * W) (?G * W) h"
    have room: "at0 * W + ?G * W \<le> length h" using Cons.prems(5) True by (simp add: distrib_right)
    then have lh: "length ?h = ?G * W" by simp
    have "dg_decode F m (kvs ! b) ?np (block W c s) 1 = Inr (block W ?h s)" if s: "s < ?G" for s
    proof -
      have "round_docs r b (g # gs) ! s = b" "s < length (round_docs r b (g # gs))" using s True by (simp_all add: nth_append)
      then show ?thesis using Cons.prems(4) [of s ?np] s block_append_left [of c ?G W s] lc True c(3) by (simp add: block_part)
    qed
    then have "collect (\<lambda>s. dg_decode F m (kvs ! b) ?np (block W c s) 1) [0..<?G] = Inr (map (block W ?h) [0..<?G])"
      by (simp add: collect_nth)
    then have "read_rows F m (kvs ! b) fuel g r = Inr ?h"
      using Cons.prems(3) c(1) True g(2) concat_blocks [OF lh] by (auto simp: read_rows_def round_canvas_def)
    then show ?thesis using g'(3) True job_score_rows [OF g(1), of at0 h F emb r] room g(2) by (auto simp: round_job_def)
  qed (use g'(3) in \<open>simp add: round_job_def\<close>)
  ultimately show ?case unfolding g'(1) by (auto simp: nth_Cons split: nat.splits)
qed simp

lemma batch_round_by_job:
  assumes "\<forall>g \<in> set gs. reads_ok g \<and> jo_width g = W" "length (round_docs r 0 gs) * W \<le> JB_MAX_CTX" "round_docs r 0 gs \<noteq> []"
    "\<forall>l x. distinct_route F m l x" "batch_round F m emb kvs fuel W r gs = Inr gs'"
  shows "length gs' = length gs \<and> (\<forall>k < length gs. round_job F m emb (kvs ! k) fuel r (gs ! k) (gs' ! k))"
proof -
  let ?docs = "round_docs r 0 gs"
  obtain cs bs h where cs: "collect (round_canvas fuel r) gs = Inr cs"
    and bs: "collect (\<lambda>g. if reading r g then dg_job_score_bytes g r else Inr 0) gs = Inr bs"
    and h: "dg_decode_multi F m kvs ?docs W (concat cs) = Inr h" and s: "batch_scores F emb h r gs 0 = Inr gs'"
    using assms(5) unfolding batch_round_def round_canvas_def [symmetric] round_docs_def [symmetric] Let_def bindE_Inr_iff by blast
  have lc: "length (concat cs) = length ?docs * W" by (rule round_canvases_length [OF _ cs]) (use assms(1) in blast)
  have "gs \<noteq> []" using assms(3) by auto
  then have W: "0 < W" using assms(1) by (cases gs) (auto simp: reads_ok_def)
  have d: "length h = length ?docs * W \<and> (\<forall>s < length ?docs. dg_decode F m (kvs ! (?docs ! s)) np (block W (concat cs) s) 1 = Inr (block W h s))" for np
    using blocks_ofD [OF decode_multi_blocks [OF _ W assms(2) lc assms(4)], of kvs h np] h assms(3) by simp
  have "\<exists>n. dg_job_score_bytes g r = Inr n" if "g \<in> set gs" "reading r g" for g
    using bs that by (auto simp: collect_nth in_set_conv_nth split: if_splits)
  then have "length gs' = length gs \<and> (\<forall>k < length gs. round_job F m emb (kvs ! (0 + k)) fuel r (gs ! k) (gs' ! k))"
    using d by (intro scores_by_job [OF assms(1) cs _ _ _ s]) auto
  then show ?thesis by simp
qed

section \<open>All rounds\<close>

lemma round_job_rescored: "round_job F m emb kv fuel r g g' \<Longrightarrow> rescored g g'"
  by (auto simp: round_job_def dest: job_score_rescored(1) split: if_splits)

text \<open>Reading a job alone from read \<open>r\<close> on.\<close>

definition reads_from ::
  "('f, 'd) fpu \<Rightarrow> DGModel \<Rightarrow> DGTensor \<Rightarrow> 'f DGKV list \<Rightarrow> nat \<Rightarrow> nat \<Rightarrow> 'd DGJob \<Rightarrow> 'd DGJob \<Rightarrow> bool" where
  "reads_from F m emb kv fuel r g g' \<longleftrightarrow>
     (if jo_active g then dg_reads_sequential F m emb kv fuel [r..<jo_max_reads g] g = Inr g' else g' = g)"

lemma reads_from_done: "\<not> reading r g \<Longrightarrow> reads_from F m emb kv fuel r g g"
  by (auto simp: reads_from_def reading_def)

lemma reads_from_step:
  assumes "round_job F m emb kv fuel r g g1" "reads_from F m emb kv fuel (Suc r) g1 g'"
  shows "reads_from F m emb kv fuel r g g'"
proof (cases "reading r g")
  case True
  then have a: "jo_active g" "[r..<jo_max_reads g] = r # [Suc r..<jo_max_reads g]" by (auto simp: reading_def upt_rec)
  obtain h where h: "read_rows F m kv fuel g r = Inr h" "dg_job_score F emb g h 0 r = Inr g1"
    using assms(1) True by (auto simp: round_job_def)
  have "jo_max_reads g1 = jo_max_reads g" by (rule rescored_fields(9) [OF job_score_rescored(1) [OF h(2)]])
  with assms(2) a h show ?thesis unfolding reads_from_def a(2) sequential_step by auto
next
  case False
  then have "g1 = g" using assms(1) by (simp add: round_job_def)
  with assms(2) False show ?thesis by (auto simp: reads_from_def reading_def)
qed

lemma round_docs_length: "length (round_docs r b gs) = sum_list (map (\<lambda>g. if reading r g then jo_groups g else 0) gs)"
  by (induction gs arbitrary: b) simp_all

lemma round_docs_le: "length (round_docs r b gs) \<le> sum_list (map jo_groups gs)"
  by (induction gs arbitrary: b) (simp_all, metis add.commute trans_le_add2)

lemma batch_reads_by_job:
  assumes "\<forall>g \<in> set gs. reads_ok g \<and> jo_width g = W" "sum_list (map jo_groups gs) * W \<le> JB_MAX_CTX"
    "\<forall>l x. distinct_route F m l x" "\<forall>g \<in> set gs. jo_max_reads g \<le> r + n"
    "batch_reads F m emb kvs fuel W [r..<r + n] gs = Inr gs'"
  shows "length gs' = length gs \<and> (\<forall>k < length gs. reads_from F m emb (kvs ! k) fuel r (gs ! k) (gs' ! k))"
  using assms
proof (induction n arbitrary: r gs)
  case 0
  then have "\<not> reading r (gs ! k)" if "k < length gs" for k using that nth_mem [OF that] by (fastforce simp: reading_def)
  with 0 show ?case by (auto intro: reads_from_done)
next
  case (Suc n)
  have upt: "[r..<r + Suc n] = r # [Suc r..<Suc r + n]" by (simp add: upt_rec)
  show ?case
  proof (cases "round_docs r 0 gs = []")
    case True
    then have "sum_list (map (\<lambda>g. if reading r g then jo_groups g else 0) gs) = 0" using round_docs_length [of r 0 gs] by simp
    moreover have "\<not> reading r (gs ! k)" if "k < length gs" for k
    proof -
      have "(if reading r (gs ! k) then jo_groups (gs ! k) else 0) = 0" using calculation that by (simp del: if_split_eq1)
      then show ?thesis using Suc.prems(1) nth_mem [OF that] by (auto simp: reads_ok_def split: if_splits)
    qed
    moreover have "gs' = gs" using Suc.prems(5) calculation(1) unfolding upt by simp
    ultimately show ?thesis by (simp add: reads_from_done)
  next
    case False
    then have "sum_list (map (\<lambda>g. if reading r g then jo_groups g else 0) gs) \<noteq> 0" unfolding round_docs_length [of r 0 gs, symmetric] by simp
    then obtain gs1 where b: "batch_round F m emb kvs fuel W r gs = Inr gs1"
      and rest: "batch_reads F m emb kvs fuel W [Suc r..<Suc r + n] gs1 = Inr gs'"
      using Suc.prems(5) unfolding upt batch_reads.simps(2) by (simp only: if_False bindE_Inr_iff) blast
    have "length (round_docs r 0 gs) * W \<le> JB_MAX_CTX"
      using Suc.prems(2) round_docs_le [of r 0 gs] by (meson le_trans mult_le_mono1)
    note step = batch_round_by_job [OF Suc.prems(1) this False Suc.prems(3) b]
    have s: "rescored (gs ! k) (gs1 ! k)" if "k < length gs" for k using step that round_job_rescored by blast
    have all: "\<forall>k < length gs. reads_ok (gs1 ! k) \<and> jo_width (gs1 ! k) = W \<and> jo_groups (gs1 ! k) = jo_groups (gs ! k) \<and>
        jo_max_reads (gs1 ! k) \<le> Suc r + n"
      using Suc.prems(1,4) rescored_reads_ok [OF s] rescored_fields(2,3,9) [OF s] by simp
    have "map jo_groups gs1 = map jo_groups gs" using step all by (intro nth_equalityI) simp_all
    then have "length gs' = length gs1 \<and> (\<forall>k < length gs1. reads_from F m emb (kvs ! k) fuel (Suc r) (gs1 ! k) (gs' ! k))"
      using step all Suc.prems(2) by (intro Suc.IH [OF _ _ Suc.prems(3) _ rest]) (auto simp: in_set_conv_nth)
    then show ?thesis using step by (auto intro: reads_from_step)
  qed
qed

section \<open>The whole microbatch\<close>

definition runnable :: "'d DGJob \<Rightarrow> bool" where
  "runnable g \<longleftrightarrow> reads_ok g \<and> jo_active g \<and> length (jo_pt g) \<le> JB_MAX_CTX \<and> jo_max_reads g \<le> 32"

lemma cache_even:
  assumes "cache_ok F m c" "pc_schema c \<noteq> None" "\<forall>l x. distinct_route F m l x"
  shows "length (pc_kv c) = DG_L" "\<forall>k \<in> set (pc_kv c). even_kv k"
proof -
  obtain s kvs where s: "pc_ids c \<noteq> []" "s \<noteq> []" "length (pc_ids c @ s) \<le> JB_MAX_CTX" "dg_prefill F m (pc_ids c @ s) = Inr kvs"
    and kv: "pc_kv c = map (take_kv (pc_n c)) kvs"
    using assms(1,2) unfolding cache_ok_def by (elim disjE exE conjE) simp_all
  obtain pf where "map (take_kv (pc_n c)) kvs = map pf [0..<DG_L]" "\<forall>l < DG_L. even_kv (pf l)"
    by (rule cached_rows [OF s(1-3) assms(3) s(4)])
  with kv show "length (pc_kv c) = DG_L" "\<forall>k \<in> set (pc_kv c). even_kv k" by auto
qed

lemma longest_ge: "m \<le> fold (\<lambda>g m. if f g > m then f g else m) gs (m :: nat)"
  "g \<in> set gs \<Longrightarrow> f g \<le> fold (\<lambda>g m. if f g > m then f g else m) gs m"
proof (induction gs arbitrary: m)
  case (Cons x xs)
  {
    case 1
    show ?case using Cons(1) [of "f x"] Cons(1) [of m] by simp
  next
    case 2
    then show ?case using Cons(1) [of "f x"] Cons(1) [of m] Cons(2) by auto
  }
qed simp_all

lemma batch_prefill:
  assumes "cache_ok F m c" "pc_schema c \<noteq> None" "batch_fits c gs" "gs \<noteq> []" "\<forall>g \<in> set gs. pc_n c < length (jo_pt g) \<and> length (jo_pt g) \<le> JB_MAX_CTX"
    "\<forall>l x. distinct_route F m l x"
    "dg_prefill_suffix_multi F m (batch_tokens (pc_n c) (batch_seq (pc_n c) gs) gs) (map (\<lambda>g. length (jo_pt g) - pc_n c) gs)
       (batch_seq (pc_n c) gs) (pc_kv c) (map (\<lambda>g. length (jo_pt g)) gs) = Inr kvs"
    "k < length gs"
  shows "dg_prefill F m (jo_pt (gs ! k)) = Inr (kvs ! k)"
proof -
  let ?n = "pc_n c" and ?seq = "batch_seq (pc_n c) gs" and ?g = "gs ! k"
  let ?row = "\<lambda>g. drop ?n (jo_pt g) @ replicate (?seq - (length (jo_pt g) - ?n)) 0"
  have seq: "\<forall>g \<in> set gs. length (jo_pt g) - ?n \<le> ?seq"
    unfolding batch_seq_def using longest_ge(2) [of _ gs "\<lambda>g. length (jo_pt g) - ?n" 0] by blast
  then have rows: "\<forall>z \<in> set (map ?row gs). length z = ?seq" by auto
  have g: "?g \<in> set gs" using assms(8) by simp
  have len: "length (batch_tokens ?n ?seq gs) = length gs * ?seq"
    using length_concat_blocks [OF rows] by (simp add: batch_tokens_def)
  have "0 < ?seq" using seq g assms(5) by fastforce
  have "part (k * ?seq) (length (jo_pt ?g) - ?n) (batch_tokens ?n ?seq gs) = take (length (jo_pt ?g) - ?n) (block ?seq (batch_tokens ?n ?seq gs) k)"
    using seq g by (simp add: part_block)
  also have "block ?seq (batch_tokens ?n ?seq gs) k = ?row ?g"
    unfolding batch_tokens_def using concat_block [OF rows, of k] assms(8) by simp
  finally have p: "part (k * ?seq) (length (jo_pt ?g) - ?n) (batch_tokens ?n ?seq gs) = drop ?n (jo_pt ?g)" by simp
  have "dg_prefill_suffix F m (drop ?n (jo_pt ?g)) (pc_kv c) (length (jo_pt ?g)) = Inr (kvs ! k)"
    using suffix_padded [OF _ \<open>0 < ?seq\<close> _ _ _ cache_even [OF assms(1,2,6)] assms(6,7)] assms(3-5,8) seq len p
    by (auto simp: batch_fits_def Let_def)
  moreover have "prefix_hit c ?g" using assms(3) g by (auto simp: batch_fits_def list_all_iff Let_def)
  moreover have "length (jo_pt ?g) \<noteq> ?n" "length (jo_pt ?g) \<le> JB_MAX_CTX" using assms(5) g by auto
  ultimately show ?thesis using hit_exact [OF assms(1) _ _ _ assms(6)] by blast
qed

lemma batch_execute_exact:
  assumes "cache_ok F m c" "\<forall>g \<in> set gs. runnable g" "\<forall>l x. distinct_route F m l x" "32 \<le> rounds"
    "dg_system_batch_execute F m fuel c gs = Inr (Some ocs)"
  shows "list_all2 (\<lambda>g oc. \<exists>o'. dg_systemone_uncached F m fuel rounds g = Inr o' \<and>
    oc_job oc = oc_job o' \<and> oc_billed oc = oc_billed o') gs ocs"
proof -
  let ?n = "pc_n c" and ?seq = "batch_seq (pc_n c) gs"
  define maxr where "maxr = fold (\<lambda>g mx. if jo_max_reads g > mx then jo_max_reads g else mx) gs 0"
  have b: "\<not> length gs < 2" "pc_schema c \<noteq> None" "batch_fits c gs" "\<not> (\<exists>g \<in> set gs. length (jo_pt g) - ?n < 1)"
    using assms(5) by (auto simp: dg_system_batch_execute_def die_defs split: if_splits)
  then obtain kvs emb gs' where kvs: "dg_prefill_suffix_multi F m (batch_tokens ?n ?seq gs) (map (\<lambda>g. length (jo_pt g) - ?n) gs)
       ?seq (pc_kv c) (map (\<lambda>g. length (jo_pt g)) gs) = Inr kvs"
    and emb: "dg_tensor m (str ''model.decoder.embed_tokens.weight'') = Inr emb"
    and reads: "batch_reads F m emb kvs fuel (jo_width (hd gs)) [0..<maxr] gs = Inr gs'"
    and ocs: "ocs = map (\<lambda>g. \<lparr>oc_job = dg_job_normalize (dbl F) g, oc_billed = dg_billed g, oc_cache_state = ''hit'',
      oc_cache_tokens = ?n, oc_processed = length (jo_pt g) - ?n, oc_microbatch = length gs'\<rparr>) gs'"
    using assms(5) unfolding dg_system_batch_execute_def maxr_def Let_def by (auto simp: bindE_Inr_iff simp del: str_simps)
  have same: "\<forall>g \<in> set gs. jo_width g = jo_width (hd gs) \<and> jo_groups g = jo_groups (hd gs)" "length gs * jo_groups (hd gs) * jo_width (hd gs) \<le> JB_MAX_CTX"
    using b(3) by (auto simp: batch_fits_def list_all_iff Let_def)
  have "map jo_groups gs = replicate (length gs) (jo_groups (hd gs))" using same(1) by (intro nth_equalityI) simp_all
  then have "sum_list (map jo_groups gs) * jo_width (hd gs) \<le> JB_MAX_CTX" using same(2) by (simp add: sum_list_replicate)
  moreover have "\<forall>g \<in> set gs. jo_max_reads g \<le> 0 + maxr" unfolding maxr_def using longest_ge(2) [of _ gs jo_max_reads 0] by simp
  ultimately have r: "length gs' = length gs \<and> (\<forall>k < length gs. reads_from F m emb (kvs ! k) fuel 0 (gs ! k) (gs' ! k))"
    using assms(2) same(1) reads by (intro batch_reads_by_job [OF _ _ assms(3), of gs "jo_width (hd gs)"]) (auto simp: runnable_def)
  show ?thesis unfolding list_all2_conv_all_nth
  proof (intro conjI allI impI)
    show "length gs = length ocs" using r ocs by simp
    fix k assume k: "k < length gs"
    then have g: "gs ! k \<in> set gs" by simp
    have "dg_prefill F m (jo_pt (gs ! k)) = Inr (kvs ! k)"
      using assms(2) b k by (intro batch_prefill [OF assms(1) b(2,3) _ _ assms(3) kvs]) (auto simp: runnable_def Suc_le_eq not_less)
    moreover have ok: "runnable (gs ! k)" using assms(2) g by blast
    then have "dg_reads F m emb (kvs ! k) fuel rounds 0 (gs ! k) = Inr (gs' ! k)"
      using reads_sequential_from [OF _ _ _ assms(3), of "gs ! k" 0 rounds emb "kvs ! k" fuel "gs' ! k"] r k assms(4)
      by (simp add: runnable_def reads_from_def)
    ultimately have "dg_systemone_uncached F m fuel rounds (gs ! k) = Inr \<lparr>oc_job = dg_job_normalize (dbl F) (gs' ! k),
        oc_billed = dg_billed (gs' ! k), oc_cache_state = ''off'', oc_cache_tokens = 0, oc_processed = length (jo_pt (gs ! k)), oc_microbatch = 1\<rparr>"
      using emb by (simp add: dg_systemone_uncached_def dg_finish_def)
    then show "\<exists>o'. dg_systemone_uncached F m fuel rounds (gs ! k) = Inr o' \<and>
        oc_job (ocs ! k) = oc_job o' \<and> oc_billed (ocs ! k) = oc_billed o'" using ocs k r by simp
  qed
qed

end
