(* ===== verification/Batches.thy ===== *)
theory Batches
  imports Sessions Microbatch
begin

text \<open>
  A typed batch call gives every input the answers it has alone, whether the session ran the jobs as
  one microbatch over its cached prefix or one after the other.
\<close>

section \<open>Jobs\<close>

lemma prepared_runnable:
  assumes "dg_job_prepare_request A tok r = Inr g" "request_ok r" "dgt_ok tok"
  shows "runnable g"
proof -
  have ok: "job_ok tok g" by (rule dg_job_prepare_ok [OF assms])
  show ?thesis using job_reads_ok [OF ok] job_prepare_active [OF assms(1)] ok by (simp add: runnable_def job_ok_def)
qed

lemma prepare_input_runnable:
  assumes "prepare_input M q i = Inr g" "\<not> input_invalid i" "dgt_ok (ma_tokenizer M)"
  shows "runnable g"
proof -
  obtain r where r: "dg_request_parts (js_bytes (in_state_json i)) (js_length (in_state_json i)) (js_bytes (in_id i)) q (length q) (in_samples i) = Inr r"
    "dg_job_prepare_request (dbl (ma_fpu M)) (ma_tokenizer M) r = Inr g"
    using assms(1) by (auto simp: prepare_input_def dg_job_prepare_parts_def bindE_Inr_iff)
  have "js_length (in_state_json i) \<le> length (js_bytes (in_state_json i))"
    using assms(2) by (cases "in_state_json i") (auto simp: input_invalid_def)
  from dg_request_parts_ok [OF this order_refl] r(1) have "request_ok r" by (metis ensures_def sum.case(2))
  from prepared_runnable [OF r(2) this assms(3)] show ?thesis .
qed

text \<open>A job's answer, and the answer of the job run alone without a cache.\<close>

definition alone :: "('f, 'd) machine \<Rightarrow> ('d outcome \<Rightarrow> 'a result) \<Rightarrow> 'd DGJob result \<Rightarrow> 'a \<Rightarrow> bool" where
  "alone M answer j v \<longleftrightarrow> (\<exists>oc o'. answer oc = Inr v \<and>
     bindE j (dg_systemone_uncached (ma_fpu M) (ma_model M) (ma_fuel M) (ma_rounds M)) = Inr o' \<and>
     oc_job oc = oc_job o' \<and> oc_billed oc = oc_billed o')"

lemma run_jobs_alone:
  "kept M c \<Longrightarrow> list_all fits js \<Longrightarrow> routes M \<Longrightarrow> run_jobs M answer js c = (Inr vs, active, c') \<Longrightarrow> list_all2 (alone M answer) js vs"
proof (induction js arbitrary: c vs active c')
  case (Cons j js)
  obtain x a c1 where x: "run_job M answer j c = (x, a, c1)" by (cases "run_job M answer j c")
  have k: "kept M c1" using run_job_kept(1) [OF Cons.prems(1) _ Cons.prems(3) x] Cons.prems(2) by simp
  obtain y b c2 where y: "run_jobs M answer js c1 = (y, b, c2)" by (cases "run_jobs M answer js c1")
  obtain v ws where v: "x = Inr v" "y = Inr ws" "vs = v # ws" using Cons.prems(4) x y by (auto split: sum.splits)
  have "alone M answer j v" unfolding alone_def using Cons.prems(2) by (intro run_job_kept(2) [OF Cons.prems(1) _ Cons.prems(3) x v(1)]) simp
  moreover have "list_all2 (alone M answer) js ws" using Cons.IH [OF k _ Cons.prems(3)] Cons.prems(2) y v(2) by simp
  ultimately show ?case by (simp add: v(3))
qed simp

lemma run_batch_alone:
  assumes "kept M c" "\<forall>j \<in> set js. \<forall>g. j = Inr g \<longrightarrow> runnable g" "routes M" "32 \<le> ma_rounds M"
    "run_batch M answer js c = (Inr vs, active, c')"
  shows "list_all2 (alone M answer) js vs"
proof (cases "run_jobs M answer js c = (Inr vs, active, c')")
  case True
  have "list_all fits js" using assms(2) by (auto simp: list_all_iff fits_def runnable_def)
  from run_jobs_alone [OF assms(1) this assms(3) True] show ?thesis .
next
  case False
  then obtain gs ocs where gs: "collect (\<lambda>j. j) js = Inr gs"
    "dg_system_batch_execute (ma_fpu M) (ma_model M) (ma_fuel M) c gs = Inr (Some ocs)" "collect answer ocs = Inr vs"
    using assms(5) by (auto simp: run_batch_def split: if_splits sum.splits option.splits)
  then have js: "length gs = length js" "\<forall>k < length js. js ! k = Inr (gs ! k)" by (simp_all add: collect_nth)
  then have "\<forall>g \<in> set gs. runnable g" using assms(2) by (metis in_set_conv_nth)
  from batch_execute_exact [OF assms(1) this assms(3,4) gs(2)] gs(3) js show ?thesis
    by (auto simp: list_all2_conv_all_nth collect_nth alone_def)
qed

section \<open>Typed batches\<close>

lemma typed_answers_alone:
  assumes "alone M (typed_answers M ti) j r"
  shows "\<exists>o' r'. bindE j (dg_systemone_uncached (ma_fpu M) (ma_model M) (ma_fuel M) (ma_rounds M)) = Inr o' \<and>
    typed_answers M ti o' = Inr r' \<and> re_answers r = re_answers r' \<and> re_input_tokens r = re_input_tokens r'"
proof -
  from assms obtain oc o' where o: "typed_answers M ti oc = Inr r"
    "bindE j (dg_systemone_uncached (ma_fpu M) (ma_model M) (ma_fuel M) (ma_rounds M)) = Inr o'"
    "oc_job oc = oc_job o'" "oc_billed oc = oc_billed o'" by (auto simp: alone_def)
  then have "typed_answers M ti o' = Inr (r\<lparr>re_prefill_tokens := oc_processed o'\<rparr>)"
    by (auto simp: typed_answers_def dg_typed_answers_def Let_def bindE_Inr_iff)
  with o(2) show ?thesis by (intro exI [of _ o'] exI [of _ "r\<lparr>re_prefill_tokens := oc_processed o'\<rparr>"]) simp
qed

text \<open>
  C40. A typed batch call that succeeds gives every input, in order, the answers and the count of input
  tokens that the job of this input has when it is run alone, without a session's cache: whatever
  calls came before, and whether the jobs went through as one microbatch over the cached prefix or
  one after the other. As many rounds as a job can have reads are enough. No token may choose an
  expert twice.
\<close>

theorem batch_answers_alone:
  assumes "session_after M s" "\<forall>l x. distinct_route (ma_fpu M) (ma_model M) l x" "dgt_ok (ma_tokenizer M)" "32 \<le> ma_rounds M"
    "jb_session_decide_batch M ti (Some is) True (Some s) msg = Inr (JB_OK, Some rs, s', msg')"
  shows "\<exists>q. se_questions s = Some q \<and> list_all2 (\<lambda>i r. \<exists>o' r'.
    bindE (prepare_input M q i) (dg_systemone_uncached (ma_fpu M) (ma_model M) (ma_fuel M) (ma_rounds M)) = Inr o' \<and>
    typed_answers M ti o' = Inr r' \<and> re_answers r = re_answers r' \<and> re_input_tokens r = re_input_tokens r') is rs"
proof -
  let ?s = "s\<lparr>se_busy := True\<rparr>"
  have "\<not> se_busy s" "\<not> se_poisoned s" using assms(5)
    by (auto simp: jb_session_decide_batch_def guarded_def jb_session_acquire_def jb_session_ready_def jb_invalid_def split: bool.splits)
  with assms(5) obtain t m where call: "jb_session_decide_batch_call M ti (Some is) True (Some ?s) msg = Inr (JB_OK, Some rs, t, m)"
    by (auto simp: jb_session_decide_batch_def guarded_def jb_session_acquire_def jb_session_ready_def bindE_Inr_iff)
  then obtain q a c where q: "se_questions s = Some q" "\<not> list_ex input_invalid is"
      "run_batch M (typed_answers M ti) (map (prepare_input M q) is) (se_prefix s) = (Inr rs, a, c)"
    by (auto simp: jb_session_decide_batch_call_def in_frame_def jb_invalid_def die_defs split: option.splits if_splits prod.splits sum.splits failure.splits)
  have "\<forall>j \<in> set (map (prepare_input M q) is). \<forall>g. j = Inr g \<longrightarrow> runnable g"
    using q(2) assms(3) by (auto simp: list_ex_iff intro: prepare_input_runnable)
  from run_batch_alone [OF session_kept [OF assms(1,2)] this assms(2,4) q(3)]
  have "list_all2 (\<lambda>i r. alone M (typed_answers M ti) (prepare_input M q i) r) is rs" by (simp add: list_all2_map1)
  with q(1) show ?thesis by (intro exI [of _ q] conjI) (assumption, erule list_all2_mono, rule typed_answers_alone)
qed

theorem batch_answers_alone_witness:
  "\<forall>m fuel pr ti q. let M = \<lparr>ma_fpu = flat_fpu, ma_model = m, ma_tokenizer = job_tokenizer, ma_fuel = fuel, ma_rounds = 32, ma_printing = pr\<rparr>
     in case jb_session_decide_batch M ti (Some [sample_input, sample_input]) True (Some (fresh_session (Some q))) [] of
       Inr (JB_OK, Some rs, s', msg') \<Rightarrow> list_all2 (\<lambda>i r. \<exists>o' r'.
         bindE (prepare_input M q i) (dg_systemone_uncached flat_fpu m fuel 32) = Inr o' \<and>
         typed_answers M ti o' = Inr r' \<and> re_answers r = re_answers r' \<and> re_input_tokens r = re_input_tokens r') [sample_input, sample_input] rs
     | _ \<Rightarrow> True"
proof (intro allI)
  fix m fuel pr q and ti :: "int timing"
  let ?M = "\<lparr>ma_fpu = flat_fpu, ma_model = m, ma_tokenizer = job_tokenizer, ma_fuel = fuel, ma_rounds = 32, ma_printing = pr\<rparr>"
  let ?call = "jb_session_decide_batch ?M ti (Some [sample_input, sample_input]) True (Some (fresh_session (Some q))) []"
  have F: "\<forall>l x. distinct_route (ma_fpu ?M) (ma_model ?M) l x" "dgt_ok (ma_tokenizer ?M)" "32 \<le> ma_rounds ?M"
    by (simp_all add: flat_routes job_tokenizer_ok)
  note a = batch_answers_alone [OF session_after.created F, of ti "[sample_input, sample_input]" "Some q" "[]"]
  have "list_all2 (\<lambda>i r. \<exists>o' r'. bindE (prepare_input ?M q i) (dg_systemone_uncached flat_fpu m fuel 32) = Inr o' \<and>
      typed_answers ?M ti o' = Inr r' \<and> re_answers r = re_answers r' \<and> re_input_tokens r = re_input_tokens r') [sample_input, sample_input] rs"
    if "?call = Inr (JB_OK, Some rs, s', msg')" for rs s' msg'
    using a [OF that] by (simp add: fresh_session_def)
  note hit = this
  show "let M = ?M in case jb_session_decide_batch M ti (Some [sample_input, sample_input]) True (Some (fresh_session (Some q))) [] of
       Inr (JB_OK, Some rs, s', msg') \<Rightarrow> list_all2 (\<lambda>i r. \<exists>o' r'.
         bindE (prepare_input M q i) (dg_systemone_uncached flat_fpu m fuel 32) = Inr o' \<and>
         typed_answers M ti o' = Inr r' \<and> re_answers r = re_answers r' \<and> re_input_tokens r = re_input_tokens r') [sample_input, sample_input] rs
     | _ \<Rightarrow> True"
    unfolding Let_def
  proof (cases ?call)
    case (Inr p)
    obtain st v s' msg' where p: "p = (st, v, s', msg')" by (cases p)
    show "case ?call of
       Inr (JB_OK, Some rs, s', msg') \<Rightarrow> list_all2 (\<lambda>i r. \<exists>o' r'.
         bindE (prepare_input ?M q i) (dg_systemone_uncached flat_fpu m fuel 32) = Inr o' \<and>
         typed_answers ?M ti o' = Inr r' \<and> re_answers r = re_answers r' \<and> re_input_tokens r = re_input_tokens r') [sample_input, sample_input] rs
     | _ \<Rightarrow> True"
    proof (cases "st = JB_OK \<and> v \<noteq> None")
      case True
      then obtain rs where v: "st = JB_OK" "v = Some rs" by auto
      show ?thesis using hit [OF Inr [unfolded p v]] unfolding Inr p v prod.case sum.case jb_status.case option.case .
    qed (cases st; cases v; simp add: Inr p)
  qed simp
qed

end
