(* ===== verification/RoundTrip.thy ===== *)
theory RoundTrip
  imports Canonical
begin

text \<open>
  Reading back a JSON string that the program wrote: the tokenizer accepts it as one string token
  and decodes it to the bytes it was made from, in both the plain and the ASCII form.
\<close>

section \<open>Reading a span\<close>

lemma span_nth: "span_of s i (i + length x) = x \<Longrightarrow> k < length x \<Longrightarrow> s ! (i + k) = x ! k"
  by (metis add_diff_cancel_left' length_take min.strict_boundedE nth_drop nth_take span_of_def length_drop
      less_or_eq_imp_le min_less_iff_conj nat_less_le add.commute le_add_diff_inverse less_diff_conv trans_less_add1 nth_take_lemma)

lemma span_append:
  assumes "span_of s i (i + length (x @ y)) = x @ y" "i + length (x @ y) \<le> length s"
  shows "span_of s i (i + length x) = x" "span_of s (i + length x) (i + length x + length y) = y"
proof -
  have "span_of s i (i + length (x @ y)) =
      span_of s i (i + length x) @ span_of s (i + length x) (i + length (x @ y))"
    by (intro span_of_split) simp_all
  moreover have "length (span_of s i (i + length x)) = length x" using assms(2) by simp
  ultimately show "span_of s i (i + length x) = x" "span_of s (i + length x) (i + length x + length y) = y"
    using assms(1) by (simp_all add: add.assoc)
qed

section \<open>Hexadecimal digits\<close>

definition hex_value :: "byte \<Rightarrow> u32" where
  "hex_value c = (if sint c \<le> 57 then scast c - 48 else ucast (tolower c) - 97 + 10)"

lemma hex_digits:
  "list_all (\<lambda>d. hex_value (hex_digit d) = of_nat d \<and> isxdigit (hex_digit d)) [0..<16]"
  by code_simp

lemma hex_digit_value: "d < 16 \<Longrightarrow> hex_value (hex_digit d) = of_nat d" "d < 16 \<Longrightarrow> isxdigit (hex_digit d)"
  using hex_digits by (simp_all add: list_all_iff)

lemma length_hex04 [simp]: "length (hex04 v) = 4"
  by (simp add: hex04_def)

lemma hex04_nth: "hex04 v ! 0 = hex_digit (unat v div 4096 mod 16)" "hex04 v ! 1 = hex_digit (unat v div 256 mod 16)"
  "hex04 v ! 2 = hex_digit (unat v div 16 mod 16)" "hex04 v ! 3 = hex_digit (unat v mod 16)"
  by (simp_all add: hex04_def)

lemma hex_compose: "push_bit 4 (of_nat a) + of_nat d = (of_nat (16 * a + d) :: u32)"
  by (simp add: push_bit_eq_mult)

lemma hex4_loop_Suc:
  "hex4_loop j at (Suc k) v = bindE (rd j at) (\<lambda>c. hex4_loop j (Suc at) k (push_bit 4 v + hex_value c))"
  by (simp add: hex_value_def)

lemma four_digits:
  "b * 16 + r0 = n \<Longrightarrow> c * 16 + r1 = b \<Longrightarrow> d * 16 + r2 = c \<Longrightarrow> r3 = d \<Longrightarrow>
     16 * (16 * (16 * r3 + r2) + r1) + r0 = (n :: nat)"
  by simp

lemma hex4_hex04:
  assumes "span_of s i (i + 4) = hex04 v" "i + 4 \<le> length s" "v \<le> 0xffff"
  shows "hex4 s i = Inr v"
proof -
  let ?n = "unat v"
  have n: "\<And>k. k < 4 \<Longrightarrow> s ! (i + k) = hex04 v ! k" using span_nth [of s i "hex04 v"] assms(1) by simp
  have nth: "s ! (i + 0) = hex04 v ! 0" "s ! (i + 1) = hex04 v ! 1" "s ! (i + 2) = hex04 v ! 2"
    "s ! (i + 3) = hex04 v ! 3" by (rule n, simp)+
  have "?n div 4096 < 16" using assms(3) by (simp add: word_le_nat_alt)
  have "?n div 16 * 16 + ?n mod 16 = ?n" "?n div 256 * 16 + ?n div 16 mod 16 = ?n div 16"
    "?n div 4096 * 16 + ?n div 256 mod 16 = ?n div 256"
    using div_mult_mod_eq [of ?n 16] div_mult_mod_eq [of "?n div 16" 16] div_mult_mod_eq [of "?n div 256" 16]
    by (simp_all add: div_mult2_eq [symmetric])
  moreover have "?n div 4096 mod 16 = ?n div 4096" using \<open>?n div 4096 < 16\<close> by simp
  ultimately have q: "16 * (16 * (16 * (?n div 4096 mod 16) + ?n div 256 mod 16) + ?n div 16 mod 16) + ?n mod 16 = ?n"
    by (rule four_digits)
  have m: "hex_value (hex_digit (x mod 16)) = of_nat (x mod 16)" for x
    by (rule hex_digit_value) simp
  have r: "rd s i = Inr (s ! i)" "rd s (Suc i) = Inr (s ! (i + 1))" "rd s (Suc (Suc i)) = Inr (s ! (i + 2))"
    "rd s (Suc (Suc (Suc i))) = Inr (s ! (i + 3))"
    using assms(2) by (simp_all add: numeral_eq_Suc)
  have "hex4 s i = Inr (push_bit 4 (push_bit 4 (push_bit 4 (push_bit 4 0 + hex_value (s ! (i + 0))) +
      hex_value (s ! (i + 1))) + hex_value (s ! (i + 2))) + hex_value (s ! (i + 3)))"
    using r by (simp add: hex4_def hex4_loop_Suc numeral_eq_Suc del: hex4_loop.simps(2))
  also have "push_bit 4 (push_bit 4 (push_bit 4 (push_bit 4 0 + hex_value (s ! (i + 0))) +
      hex_value (s ! (i + 1))) + hex_value (s ! (i + 2))) + hex_value (s ! (i + 3)) =
      of_nat (16 * (16 * (16 * (16 * 0 + ?n div 4096 mod 16) + ?n div 256 mod 16) + ?n div 16 mod 16) + ?n mod 16)"
    unfolding nth hex04_nth m hex_compose [symmetric] by simp
  also have "\<dots> = of_nat ?n" unfolding mult_0_right add_0 q ..
  finally show ?thesis by simp
qed

section \<open>One character\<close>

text \<open>The escape of \<open>c\<close> at \<open>i\<close>: the scan passes over it, and decoding gives the bytes of \<open>c\<close>.\<close>

definition reads_as :: "bytes \<Rightarrow> bytes \<Rightarrow> bool" where
  "reads_as x y \<longleftrightarrow> (\<forall>s n e i. span_of s i (i + length x) = x \<longrightarrow> i + length x \<le> n \<longrightarrow> n \<le> length s \<longrightarrow>
     json_string_loop s n i = json_string_loop s n (i + length x) \<and>
     (i + length x \<le> e \<longrightarrow> e \<le> length s \<longrightarrow>
        jt_copy_loop s i e = bindE (jt_copy_loop s (i + length x) e) (\<lambda>z. Inr (y @ z))))"

lemma reads_asD:
  assumes "reads_as x y" "span_of s i (i + length x) = x" "i + length x \<le> n" "n \<le> length s"
  shows "json_string_loop s n i = json_string_loop s n (i + length x)"
    "i + length x \<le> e \<Longrightarrow> e \<le> length s \<Longrightarrow>
       jt_copy_loop s i e = bindE (jt_copy_loop s (i + length x) e) (\<lambda>z. Inr (y @ z))"
  using assms unfolding reads_as_def by blast+

lemma reads_as_Nil: "reads_as [] []"
  by (auto simp: reads_as_def bindE_def split: sum.splits)

lemma reads_as_append:
  assumes "reads_as x y" "reads_as x' y'"
  shows "reads_as (x @ x') (y @ y')"
  unfolding reads_as_def
proof (intro allI impI)
  fix s n e i
  assume sp: "span_of s i (i + length (x @ x')) = x @ x'" and n: "i + length (x @ x') \<le> n" "n \<le> length s"
  have n': "i + length (x @ x') \<le> length s" using n by simp
  note sp' = span_append [OF sp n']
  have a: "i + length x \<le> n" "i + length x + length x' \<le> n" using n by simp_all
  show "json_string_loop s n i = json_string_loop s n (i + length (x @ x')) \<and>
     (i + length (x @ x') \<le> e \<longrightarrow> e \<le> length s \<longrightarrow>
        jt_copy_loop s i e = bindE (jt_copy_loop s (i + length (x @ x')) e) (\<lambda>z. Inr ((y @ y') @ z)))"
    using reads_asD(1) [OF assms(1) sp'(1) a(1) n(2)] reads_asD(1) [OF assms(2) sp'(2) a(2) n(2)]
      reads_asD(2) [OF assms(1) sp'(1) a(1) n(2), of e] reads_asD(2) [OF assms(2) sp'(2) a(2) n(2), of e]
    by (simp add: bindE_assoc add.assoc)
qed

lemma reads_as_byte:
  assumes "b \<noteq> 34" "b \<noteq> 92" "\<not> b < 0x20"
  shows "reads_as [b] [b]"
  unfolding reads_as_def
proof (intro allI impI)
  fix s n e i
  assume sp: "span_of s i (i + length [b]) = [b]" and n: "i + length [b] \<le> n" "n \<le> length s"
  have b: "s ! i = b" using span_nth [of s i "[b]" 0] sp by simp
  show "json_string_loop s n i = json_string_loop s n (i + length [b]) \<and>
     (i + length [b] \<le> e \<longrightarrow> e \<le> length s \<longrightarrow>
        jt_copy_loop s i e = bindE (jt_copy_loop s (i + length [b]) e) (\<lambda>z. Inr ([b] @ z)))"
    using n b assms by (simp add: json_string_loop.simps [of s n i] jt_copy_loop.simps [of s i e])
qed

lemma reads_as_bytes: "\<forall>b \<in> set x. b \<noteq> 34 \<and> b \<noteq> 92 \<and> \<not> b < 0x20 \<Longrightarrow> reads_as x x"
proof (induction x)
  case (Cons b x)
  with reads_as_append [OF reads_as_byte [of b], of x x] show ?case by simp
qed (rule reads_as_Nil)

lemma reads_as_short:
  assumes "c \<in> set [34, 92, 47, 98, 102, 110, 114, 116]"
  shows "reads_as [92, c] [json_unescape c]"
  unfolding reads_as_def
proof (intro allI impI)
  fix s n e i
  assume sp: "span_of s i (i + length [92, c]) = [92, c]" and n: "i + length [92, c] \<le> n" "n \<le> length s"
  have b: "s ! i = 92" "s ! Suc i = c"
    using span_nth [of s i "[92, c]" 0] span_nth [of s i "[92, c]" 1] sp by simp_all
  have c: "c \<noteq> 117" "c \<noteq> 0" using assms by auto
  show "json_string_loop s n i = json_string_loop s n (i + length [92, c]) \<and>
     (i + length [92, c] \<le> e \<longrightarrow> e \<le> length s \<longrightarrow>
        jt_copy_loop s i e = bindE (jt_copy_loop s (i + length [92, c]) e) (\<lambda>z. Inr ([json_unescape c] @ z)))"
    using n b c assms by (simp add: json_string_loop.simps [of s n i] jt_copy_loop.simps [of s i e])
qed

lemma unicode_escape_hex04:
  assumes "span_of s i (i + 4) = hex04 v" "i + 4 \<le> n" "n \<le> length s"
  shows "json_unicode_escape s n 4 i = Inr (i + 4)"
proof -
  have k: "s ! (i + k) = hex04 v ! k" if "k < 4" for k using span_nth [of s i "hex04 v"] assms(1) that by simp
  have x: "isxdigit (s ! i)" "isxdigit (s ! (i + 1))" "isxdigit (s ! (i + 2))" "isxdigit (s ! (i + 3))"
    using k [of 0] k [of 1] k [of 2] k [of 3] hex04_nth hex_digit_value(2) by simp_all
  then show ?thesis using assms by (simp add: numeral_eq_Suc)
qed

lemma json_string_loop_u:
  "s ! i = 92 \<Longrightarrow> s ! Suc i = 117 \<Longrightarrow> Suc i < n \<Longrightarrow> n \<le> length s \<Longrightarrow>
     json_unicode_escape s n 4 (i + 2) = Inr q \<Longrightarrow> json_string_loop s n i = json_string_loop s n q"
  by (simp add: json_string_loop.simps [of s n i])

lemma jt_copy_loop_u:
  "s ! i = 92 \<Longrightarrow> s ! Suc i = 117 \<Longrightarrow> i < e \<Longrightarrow> Suc i < length s \<Longrightarrow> hex4 s (i + 2) = Inr v \<Longrightarrow>
     (0xd800 \<le> v \<and> v \<le> 0xdbff) = False \<Longrightarrow> (0xdc00 \<le> v \<and> v \<le> 0xdfff) = False \<Longrightarrow> v \<noteq> 0 \<Longrightarrow>
     jt_copy_loop s i e = bindE (jt_copy_loop s (i + 6) e) (\<lambda>z. Inr (put_utf8 v @ z))"
  by (auto simp: jt_copy_loop.simps [of s i e])

lemma jt_copy_loop_uu:
  "s ! i = 92 \<Longrightarrow> s ! Suc i = 117 \<Longrightarrow> s ! (i + 6) = 92 \<Longrightarrow> s ! (i + 7) = 117 \<Longrightarrow> i + 12 \<le> e \<Longrightarrow> e \<le> length s \<Longrightarrow>
     hex4 s (i + 2) = Inr u \<Longrightarrow> hex4 s (i + 8) = Inr v \<Longrightarrow>
     (0xd800 \<le> u \<and> u \<le> 0xdbff) = True \<Longrightarrow> (v < 0xdc00 \<or> v > 0xdfff) = False \<Longrightarrow>
     jt_copy_loop s i e = bindE (jt_copy_loop s (i + 12) e)
       (\<lambda>z. Inr (put_utf8 (0x10000 + push_bit 10 (u - 0xd800) + (v - 0xdc00)) @ z))"
  by (simp add: jt_copy_loop.simps [of s i e])

lemma reads_as_u4:
  assumes v: "v \<le> 0xffff" "v \<noteq> 0" "\<not> (0xd800 \<le> v \<and> v \<le> 0xdfff)"
  shows "reads_as ([92, 117] @ hex04 v) (put_utf8 v)"
  unfolding reads_as_def
proof (intro allI impI)
  fix s n e i
  let ?x = "[92, 117] @ hex04 v"
  assume sp: "span_of s i (i + length ?x) = ?x" and n: "i + length ?x \<le> n" "n \<le> length s"
  have b: "s ! i = 92" "s ! Suc i = 117"
    using span_nth [of s i ?x 0] span_nth [of s i ?x 1] sp by simp_all
  have h: "span_of s (i + 2) (i + 2 + 4) = hex04 v"
    using span_append(2) [of s i "[92, 117]" "hex04 v"] sp n by simp
  have u: "json_unicode_escape s n 4 (i + 2) = Inr (i + 6)"
    using unicode_escape_hex04 [OF h] n by simp
  have x4: "hex4 s (i + 2) = Inr v" using hex4_hex04 [OF h] n v by simp
  have nz: "(0xd800 \<le> v \<and> v \<le> 0xdbff) = False" "(0xdc00 \<le> v \<and> v \<le> 0xdfff) = False"
    using v(3) by (auto simp: word_le_nat_alt)
  show "json_string_loop s n i = json_string_loop s n (i + length ?x) \<and>
     (i + length ?x \<le> e \<longrightarrow> e \<le> length s \<longrightarrow>
        jt_copy_loop s i e = bindE (jt_copy_loop s (i + length ?x) e) (\<lambda>z. Inr (put_utf8 v @ z)))"
    using n json_string_loop_u [OF b _ n(2) u] jt_copy_loop_u [OF b _ _ x4 nz v(2), of e] by simp
qed

lemma surrogate_split:
  assumes "c \<le> 0x10ffff" "\<not> c \<le> 0xffff"
  defines "u \<equiv> 0xd800 + drop_bit 10 (c - 0x10000)" and "v \<equiv> 0xdc00 + ((c - 0x10000) AND 1023)"
  shows "0xd800 \<le> u" "u \<le> 0xdbff" "0xdc00 \<le> v" "v \<le> 0xdfff"
    "0x10000 + push_bit 10 (u - 0xd800) + (v - 0xdc00) = (c :: u32)"
proof -
  define d where "d = c - 0x10000"
  have d: "unat d \<le> 1048575"
    using assms(1,2) by (simp add: d_def unat_sub word_le_nat_alt)
  have q: "unat (drop_bit 10 d) \<le> 1023" using d by (simp add: unat_drop_bit)
  have t: "d AND 1023 = take_bit 10 d" by (simp add: take_bit_eq_mask mask_eq_exp_minus_1)
  have r: "unat (d AND 1023) \<le> 1023"
    using nat_and_low [of "unat d" 10] by (simp add: unsigned_and_eq)
  have u: "unat u = 55296 + unat (drop_bit 10 d)" and v: "unat v = 56320 + unat (d AND 1023)"
    using q r by (simp_all add: u_def v_def d_def [symmetric] unat_word_ariths)
  show "0xd800 \<le> u" "u \<le> 0xdbff" "0xdc00 \<le> v" "v \<le> 0xdfff"
    using q r u v by (simp_all add: word_le_nat_alt)
  have "push_bit 10 (drop_bit 10 d) + (d AND 1023) = d"
    unfolding t by (rule bits_ident)
  then have "0x10000 + (push_bit 10 (u - 0xd800) + (v - 0xdc00)) = 0x10000 + d"
    by (simp only: u_def v_def d_def [symmetric] add_diff_cancel_left')
  then show "0x10000 + push_bit 10 (u - 0xd800) + (v - 0xdc00) = c"
    by (simp add: d_def add.assoc)
qed

lemma reads_as_u8:
  assumes c: "c \<le> 0x10ffff" "\<not> c \<le> 0xffff"
  shows "reads_as ([92, 117] @ hex04 (0xd800 + drop_bit 10 (c - 0x10000)) @
     [92, 117] @ hex04 (0xdc00 + ((c - 0x10000) AND 1023))) (put_utf8 c)"
  unfolding reads_as_def
proof (intro allI impI)
  fix s n e i
  define u v where "u = 0xd800 + drop_bit 10 (c - 0x10000)" and "v = 0xdc00 + ((c - 0x10000) AND 1023)"
  note uv = surrogate_split [OF c, folded u_def v_def]
  let ?x = "[92, 117] @ hex04 u @ [92, 117] @ hex04 v"
  assume "span_of s i (i + length ([92, 117] @ hex04 (0xd800 + drop_bit 10 (c - 0x10000)) @
     [92, 117] @ hex04 (0xdc00 + ((c - 0x10000) AND 1023)))) = [92, 117] @ hex04 (0xd800 + drop_bit 10 (c - 0x10000)) @
     [92, 117] @ hex04 (0xdc00 + ((c - 0x10000) AND 1023))"
  then have sp: "span_of s i (i + length ?x) = ?x" unfolding u_def v_def .
  assume "i + length ([92, 117] @ hex04 (0xd800 + drop_bit 10 (c - 0x10000)) @
     [92, 117] @ hex04 (0xdc00 + ((c - 0x10000) AND 1023))) \<le> n" and ns: "n \<le> length s"
  then have n: "i + length ?x \<le> n" by simp
  have b: "s ! i = 92" "s ! Suc i = 117" "s ! (i + 6) = 92" "s ! (i + 7) = 117"
    using span_nth [of s i ?x 0] span_nth [of s i ?x 1] span_nth [of s i ?x 6] span_nth [of s i ?x 7] sp
    by (simp_all add: nth_append)
  have h: "span_of s (i + 2) (i + 2 + 4) = hex04 u" "span_of s (i + 8) (i + 8 + 4) = hex04 v"
    using span_append(2) [of s i "[92, 117] @ hex04 u @ [92, 117]" "hex04 v"]
      span_append(2) [of s i "[92, 117]" "hex04 u"]
      span_append(1) [of s i "[92, 117] @ hex04 u" "[92, 117] @ hex04 v"] sp n ns by simp_all
  have le: "u \<le> 0xffff" "v \<le> 0xffff" using uv by (auto simp: word_le_nat_alt)
  have x: "json_unicode_escape s n 4 (i + 2) = Inr (i + 6)" "json_unicode_escape s n 4 (i + 8) = Inr (i + 12)"
    using unicode_escape_hex04 [OF h(1)] unicode_escape_hex04 [OF h(2)] n ns by simp_all
  have x4: "hex4 s (i + 2) = Inr u" "hex4 s (i + 8) = Inr v"
    using hex4_hex04 [OF h(1)] hex4_hex04 [OF h(2)] le n ns by simp_all
  have c0: "(0xd800 \<le> u \<and> u \<le> 0xdbff) = True" "(v < 0xdc00 \<or> v > 0xdfff) = False"
    using uv by (auto simp: word_le_nat_alt word_less_nat_alt)
  have "json_string_loop s n i = json_string_loop s n (i + 6)"
    using n by (intro json_string_loop_u b(1,2) ns x(1)) simp
  also have "\<dots> = json_string_loop s n (i + 12)"
    using n b(4) x(2) by (intro json_string_loop_u b(3) ns) (simp_all add: eval_nat_numeral)
  finally have 1: "json_string_loop s n i = json_string_loop s n (i + 12)" .
  have "jt_copy_loop s i e = bindE (jt_copy_loop s (i + 12) e)
      (\<lambda>z. Inr (put_utf8 (0x10000 + push_bit 10 (u - 0xd800) + (v - 0xdc00)) @ z))"
    if "i + 12 \<le> e" "e \<le> length s"
    by (rule jt_copy_loop_uu [OF b that x4 c0])
  then show "json_string_loop s n i = json_string_loop s n (i + length ([92, 117] @ hex04 (0xd800 + drop_bit 10 (c - 0x10000)) @
     [92, 117] @ hex04 (0xdc00 + ((c - 0x10000) AND 1023)))) \<and>
     (i + length ([92, 117] @ hex04 (0xd800 + drop_bit 10 (c - 0x10000)) @
     [92, 117] @ hex04 (0xdc00 + ((c - 0x10000) AND 1023))) \<le> e \<longrightarrow> e \<le> length s \<longrightarrow>
        jt_copy_loop s i e = bindE (jt_copy_loop s (i + length ([92, 117] @ hex04 (0xd800 + drop_bit 10 (c - 0x10000)) @
     [92, 117] @ hex04 (0xdc00 + ((c - 0x10000) AND 1023)))) e) (\<lambda>z. Inr (put_utf8 c @ z)))"
    using 1 uv(5) by simp
qed

lemma put_utf8_low: "c \<le> 0x7f \<Longrightarrow> put_utf8 c = [ucast c]"
  by (simp add: put_utf8_def)

lemma put_utf8_high_bytes:
  assumes "scalar c" "\<not> c \<le> 0x7f" "b \<in> set (put_utf8 c)"
  shows "128 \<le> unat b"
proof -
  have "unat b \<in> set (utf8_nat (unat c))" using assms scalar_utf8_nat by auto
  with assms(2) show ?thesis by (auto simp: utf8_nat.simps word_le_nat_alt split: if_splits)
qed

lemma reads_as_raw:
  assumes "scalar c" "c \<noteq> 34" "c \<noteq> 92" "\<not> c < 32"
  shows "reads_as (put_utf8 c) (put_utf8 c)"
proof (rule reads_as_bytes, rule ballI)
  fix b assume b: "b \<in> set (put_utf8 c)"
  show "b \<noteq> 34 \<and> b \<noteq> 92 \<and> \<not> b < 0x20"
  proof (cases "c \<le> 0x7f")
    case True
    then have u: "unat b = unat c" "unat c < 128"
      using b by (auto simp: put_utf8_low word_le_nat_alt)
    have "unat c \<noteq> unat (34 :: u32)" "unat c \<noteq> unat (92 :: u32)"
      using assms(2,3) by (simp_all only: word_unat_eq_iff not_False_eq_True)
    then have "unat c \<noteq> 34" "unat c \<noteq> 92" by simp_all
    with u assms(4) show ?thesis by (auto simp: word_less_nat_alt)
  next
    case False
    from put_utf8_high_bytes [OF assms(1) this b] show ?thesis by (auto simp: word_less_nat_alt)
  qed
qed

lemma reads_as_esc:
  assumes "scalar c" "c \<noteq> 0"
  shows "reads_as (json_esc ascii c) (put_utf8 c)"
proof -
  have short: "reads_as [92, 34] [34]" "reads_as [92, 92] [92]" "reads_as [92, 98] [8]" "reads_as [92, 102] [12]"
    "reads_as [92, 110] [10]" "reads_as [92, 114] [13]" "reads_as [92, 116] [9]"
    using reads_as_short [of 34] reads_as_short [of 92] reads_as_short [of 98] reads_as_short [of 102]
      reads_as_short [of 110] reads_as_short [of 114] reads_as_short [of 116]
    by (simp_all add: json_unescape_def)
  consider "c = 34 \<or> c = 92 \<or> c = 8 \<or> c = 12 \<or> c = 10 \<or> c = 13 \<or> c = 9"
    | "c \<noteq> 34" "c \<noteq> 92" "c \<noteq> 8" "c \<noteq> 12" "c \<noteq> 10" "c \<noteq> 13" "c \<noteq> 9" by blast
  then show ?thesis
  proof cases
    case 1
    then show ?thesis
      by (elim disjE) (simp_all add: json_esc_def short put_utf8_def)
  next
    case 2
    show ?thesis
    proof (cases "c < 32 \<or> (ascii \<and> c > 127)")
      case True
      show ?thesis
      proof (cases "c \<le> 0xffff")
        case le: True
        with reads_as_u4 [OF le assms(2)] assms(1) True 2 show ?thesis
          by (simp add: json_esc_def scalar_def)
      next
        case False
        have "c \<le> 0x10ffff" using assms(1) by (simp add: scalar_def)
        from reads_as_u8 [OF this False] True False 2 show ?thesis by (simp add: json_esc_def)
      qed
    next
      case False
      then have "json_esc ascii c = put_utf8 c" using 2 by (auto simp: json_esc_def)
      then show ?thesis using reads_as_raw [OF assms(1)] 2 False by simp
    qed
  qed
qed

lemma reads_as_escapes:
  "list_all scalar cs \<Longrightarrow> 0 \<notin> set cs \<Longrightarrow>
     reads_as (concat (map (json_esc ascii) cs)) (concat (map put_utf8 cs))"
  by (induction cs) (auto simp: reads_as_Nil intro!: reads_as_append reads_as_esc)

section \<open>A whole string\<close>

lemma json_quote_tokens:
  fixes ascii :: bool
  assumes "list_all scalar cs" "0 \<notin> set cs"
  defines "q \<equiv> json_quote ascii cs"
  defines "t \<equiv> \<lparr>jt_type = JT_STRING, jt_start = 1, jt_end = int (length q - 1), jt_parent = -1, jt_size = 0\<rparr>"
  assumes n: "length q \<le> JB_MAX_JSON"
  shows "json_tokens q (length q) = Inr [t]" "jt_string_copy q t = Inr (concat (map put_utf8 cs))"
proof -
  define x where "x = concat (map (json_esc ascii) cs)"
  have q: "q = 34 # x @ [34]" by (simp add: q_def json_quote_def x_def)
  have r: "reads_as x (concat (map put_utf8 cs))"
    unfolding x_def by (rule reads_as_escapes [OF assms(1,2)])
  have lq: "length q = length x + 2" "q ! Suc (length x) = 34" by (simp_all add: q)
  have sp: "span_of q 1 (1 + length x) = x" by (simp add: q span_of_def)
  have "json_string_loop q (length q) 1 = json_string_loop q (length q) (1 + length x)"
    using reads_asD(1) [OF r sp] by (simp add: q)
  also have "\<dots> = Inr (length q)"
    using lq by (simp add: json_string_loop.simps [of q "Suc (Suc (length x))" "Suc (length x)"])
  finally have l: "json_string_loop q (length q) 1 = Inr (length q)" .
  have "jt_copy_loop q 1 (1 + length x) = bindE (jt_copy_loop q (1 + length x) (1 + length x)) (\<lambda>z. Inr (concat (map put_utf8 cs) @ z))"
    using reads_asD(2) [OF r sp, of "length q" "1 + length x"] by (simp add: q)
  then have c: "jt_copy_loop q 1 (length q - 1) = Inr (concat (map put_utf8 cs))"
    by (simp add: q jt_copy_loop.simps [of _ "Suc (length x)"])
  have "utf8_scan (length (concat (map put_utf8 cs))) (concat (map put_utf8 cs))
      (length (concat (map put_utf8 cs))) 0 = Inr cs"
    using assms(1) by (simp add: utf8_scan_iff)
  then show "jt_string_copy q t = Inr (concat (map put_utf8 cs))"
    using c by (simp add: jt_string_copy_def t_def)
  let ?p = "\<lparr>jp_s = q, jp_n = length q, jp_pos = 0, jp_t = [], jp_cap = 0, jp_depth = 0\<rparr>"
  have sk: "skip_space ?p = ?p" by (simp add: skip_space_def skip_while.simps q isspace_def)
  let ?p1 = "\<lparr>jp_s = q, jp_n = length q, jp_pos = length q, jp_t = [t], jp_cap = 256, jp_depth = 0\<rparr>"
  have "json_parse_value (2 * length q + 1) ?p (-1) = Inr (?p1, 0)"
    using l by (simp add: sk Let_def json_parse_string_tok_def jt_new_def t_def)
      (simp add: q of_nat_diff)
  moreover have "json_check_keys q [t] = Inr ()"
    by (simp add: json_check_keys_def json_check_keys_from.simps json_check_object_def t_def)
  moreover have "skip_space ?p1 = ?p1" by (simp add: skip_space_def skip_while.simps)
  ultimately show "json_tokens q (length q) = Inr [t]"
    using n by (simp add: json_tokens_def)
qed

section \<open>Properties\<close>

text \<open>
  C10. A JSON string the program writes reads back as itself: for every NUL-free valid UTF-8 text
  whose written form is within the input limit, in the plain and in the ASCII form, the writer
  appends exactly one quoted text to an empty buffer, the tokenizer accepts that as a single
  string token, and decoding the token gives the original bytes.
\<close>

theorem json_string_round_trip:
  assumes "list_all scalar cs" "0 \<notin> set cs" "length (json_quote ascii cs) \<le> JB_MAX_JSON"
    "s = concat (map put_utf8 cs)"
  shows "\<exists>b t. db_json_string db_empty s ascii = Inr b \<and>
     json_tokens (db_p b) (length (db_p b)) = Inr [t] \<and> jt_string_copy (db_p b) t = Inr s"
proof -
  have "length (json_quote ascii cs) < 9223372036854775808" using assms(3) by (simp add: JB_MAX_JSON_def)
  from appends_empty [OF appends_db_json_string [OF assms(1,4)] this] obtain b where
    "db_json_string db_empty s ascii = Inr b" "db_p b = json_quote ascii cs" by blast
  with json_quote_tokens [OF assms(1,2,3)] assms(4) show ?thesis by metis
qed

theorem json_string_round_trip_witness:
  "\<exists>b t. db_json_string db_empty (concat (map put_utf8 [0x22, 0xe9, 10, 0x1f600])) True = Inr b \<and>
     json_tokens (db_p b) (length (db_p b)) = Inr [t] \<and>
     jt_string_copy (db_p b) t = Inr (concat (map put_utf8 [0x22, 0xe9, 10, 0x1f600]))"
  by (rule json_string_round_trip [OF _ _ _ refl])
    (simp_all add: scalar_def json_quote_def json_esc_def JB_MAX_JSON_def)

end
