(* ===== verification/TensorBounds.thy ===== *)
theory TensorBounds
  imports Safetensors JsonSafe
begin

text \<open>
  What a parsed shard promises: every tensor lies inside the file's bytes and has exactly the
  bytes its shape and type need, and the parser reads and writes nothing else, as long as no
  string follows a key of the root. A string as the value of \<open>__metadata__\<close> is taken for a
  further key, for whose name there is no room: \<open>metadata_string_overflows\<close>.
\<close>

section \<open>One descriptor\<close>

definition tensor_ok :: "bytes \<Rightarrow> DGTensor \<Rightarrow> bool" where
  "tensor_ok data t \<longleftrightarrow>
     tn_data t = data \<and> tn_at t + tn_bytes t \<le> length data \<and> length (tn_shape t) \<le> 4 \<and>
     (tn_dtype t \<noteq> DG_UNKNOWN \<longrightarrow> tn_bytes t = prod_list (tn_shape t) * dg_item (tn_dtype t)) \<and>
     (dg_is_text (tn_name t) \<longrightarrow> tn_dtype t \<noteq> DG_UNKNOWN)"

lemma jt_u64_digits_bound: "jt_u64_digits cs v = Some w \<Longrightarrow> v \<le> UINT64_MAX \<Longrightarrow> w \<le> UINT64_MAX"
proof (induction cs v rule: jt_u64_digits.induct)
  case (2 c cs v)
  let ?d = "unat c - 48"
  have c: "\<not> c > 57" "v \<le> (UINT64_MAX - ?d) div 10" using "2.prems" by (auto split: if_splits)
  have "unat c \<le> 57" using c(1) by (simp add: word_le_nat_alt not_less)
  then have "v * 10 + ?d \<le> UINT64_MAX" using c(2) by linarith
  with 2 show ?case by (auto split: if_splits)
qed simp

lemma jt_u64_ok: "ensures (jt_u64 j t name) (\<lambda>v. v \<le> UINT64_MAX)"
  using jt_u64_digits_bound [of "span_of j (jt_start t) (nat (jt_end t))" 0]
  by (auto simp: jt_u64_def split: option.split)

lemma dg_numbers_ok:
  "length acc \<le> limit \<Longrightarrow> ensures (dg_numbers limit msg j tok name arr k acc) (\<lambda>vs. length vs \<le> limit)"
proof (induction limit msg j tok name arr k acc rule: dg_numbers.induct)
  case (1 limit msg j tok name arr k acc)
  show ?case
  proof (cases "k < length tok \<and> jt_parent (tok ! k) \<ge> int arr")
    case True
    have "ensures (jt_u64 j (tok ! k) name)
        (\<lambda>v. ensures (dg_numbers limit msg j tok name arr (Suc k) (acc @ [v])) (\<lambda>vs. length vs \<le> limit))"
      if "jt_parent (tok ! k) = int arr" "length acc \<noteq> limit"
      by (rule ensures_mono [OF jt_u64_ok]) (use 1 True that in auto)
    with 1 True show ?thesis by (subst dg_numbers.simps) simp
  qed (use "1.prems" in \<open>subst dg_numbers.simps; auto\<close>)
qed

lemma dg_count_ok: "ensures (dg_count name ds c) (\<lambda>n. n = c * prod_list ds)"
  by (induction name ds c rule: dg_count.induct) (simp_all add: mult.assoc)

lemma dg_dtype_of_ok:
  assumes "tok_strings j n tok" "i < length tok"
  shows "ensures (dg_dtype_of j (tok ! i) name) (\<lambda>ty. dg_is_text name \<longrightarrow> ty \<noteq> DG_UNKNOWN)"
  unfolding dg_dtype_of_def
  using jt_eq_ok [OF assms] by (auto intro!: ensures_defined split: if_splits)

lemma dg_descriptor_ok:
  assumes t: "tok_strings j n tok"
  shows "ensures (dg_descriptor nvfp4 j tok obj name data hn) (\<lambda>t. tensor_ok data t \<and> tn_name t = name)"
proof -
  have tail: "ensures (dg_numbers 4 ''too many safetensors dimensions'' j tok name s (Suc s) []) (\<lambda>dims.
      ensures (dg_numbers 2 ''bad safetensors offsets'' j tok name k (Suc k) []) (\<lambda>off. ensures (
            let base = 8 + hn in
            if length off \<noteq> 2 \<or> off ! 1 < off ! 0 \<or> base > length data \<or> off ! 1 > length data - base
            then die2 ''out-of-bounds safetensors data'' name
            else
              let t = \<lparr>tn_name = name, tn_data = data, tn_at = base + off ! 0, tn_shape = dims,
                       tn_bytes = off ! 1 - off ! 0, tn_dtype = ty\<rparr> in
              if ty \<noteq> DG_UNKNOWN then
                bindE (dg_count name dims 1) (\<lambda>cnt.
                  if cnt > UINT64_MAX div dg_item ty \<or> tn_bytes t \<noteq> cnt * dg_item ty
                  then die2 ''safetensors byte size does not match shape'' name
                  else Inr t)
              else Inr t) (\<lambda>t. tensor_ok data t \<and> tn_name t = name)))"
    if "dg_is_text name \<longrightarrow> ty \<noteq> DG_UNKNOWN" for ty s k
  proof (rule ensures_mono [OF dg_numbers_ok], simp, rule ensures_defined, goal_cases)
    case 1
    show ?case using dg_numbers_ok [of "[]" 2] by (simp add: ensures_def)
  next
    case (2 dims off)
    show ?case
    proof (cases "dg_count name dims 1")
      case (Inl e)
      then have "ensures (Inl e :: DGTensor result) P" for P
        using dg_count_ok [of name dims 1] by (simp add: ensures_def defined_def)
      then show ?thesis
        unfolding Let_def DGTensor.simps Inl bindE_simps using 2 that
        by (intro ensures_if) (auto simp: tensor_ok_def)
    next
      case (Inr c)
      then have "c = prod_list dims" using dg_count_ok [of name dims 1] by (simp add: ensures_def)
      then show ?thesis
        unfolding Let_def DGTensor.simps Inr bindE_simps using 2 that
        by (intro ensures_if) (auto simp: tensor_ok_def)
    qed
  qed
  show ?thesis
    unfolding dg_descriptor_def
  proof (rule ensures_if, simp, unfold ensures_bindE,
      rule ensures_mono [OF jt_obj_get_ok [OF t]], rule ensures_mono [OF jt_obj_get_ok [OF t]],
      rule ensures_mono [OF jt_obj_get_ok [OF t]], rule ensures_if, simp, unfold ensures_bindE, goal_cases)
    case (1 dtype shape offsets)
    then have "nat dtype < length tok" by (simp add: nat_less_iff)
    then show ?case
      by (rule ensures_mono [OF dg_dtype_of_ok [OF t]], intro ensures_if)
        (simp, unfold ensures_bindE, rule tail, simp)
  qed
qed

section \<open>The loop over the root\<close>

text \<open>No token right after a string under the root is a string under the root.\<close>

definition root_key :: "JTok list \<Rightarrow> nat \<Rightarrow> bool" where
  "root_key tok i \<longleftrightarrow> jt_parent (tok ! i) = 0 \<and> jt_type (tok ! i) = JT_STRING"

definition no_string_after_key :: "JTok list \<Rightarrow> bool" where
  "no_string_after_key tok \<longleftrightarrow>
     list_all (\<lambda>i. \<not> (root_key tok i \<and> root_key tok (Suc i))) [0..<length tok - 1]"

definition name_room :: "JTok list \<Rightarrow> nat \<Rightarrow> nat" where
  "name_room tok key =
     sum_list (map (\<lambda>i. nat (jt_end (tok ! i) - int (jt_start (tok ! i))) * 3 + 1)
       (filter (root_key tok) [key..<length tok]))"

lemma name_room_step:
  "key < length tok \<Longrightarrow>
     name_room tok key =
       (if root_key tok key then nat (jt_end (tok ! key) - int (jt_start (tok ! key))) * 3 + 1 else 0) +
       name_room tok (Suc key)"
  by (simp add: name_room_def upt_conv_Cons)

lemma dg_names_bytes_room:
  "no_string_after_key tok \<Longrightarrow> n \<le> UINT64_MAX \<Longrightarrow> ensures (dg_names_bytes tok key n) (\<lambda>b. b = n + name_room tok key)"
proof (induction tok key n rule: dg_names_bytes.induct)
  case (1 tok key n)
  show ?case
  proof (cases "key < length tok")
    case False
    then show ?thesis by (simp add: dg_names_bytes.simps name_room_def)
  next
    case key: True
    show ?thesis
    proof (cases "root_key tok key")
      case False
      with 1 key name_room_step [OF key] show ?thesis
        by (subst dg_names_bytes.simps) (auto simp: root_key_def)
    next
      case True
      have skip: "name_room tok (Suc key) = name_room tok (Suc (Suc key))"
      proof (cases "Suc key < length tok")
        case True
        then have "\<not> root_key tok (Suc key)"
          using "1.prems"(1) \<open>root_key tok key\<close> by (auto simp: no_string_after_key_def list_all_iff)
        with name_room_step [OF True] show ?thesis by simp
      qed (simp add: name_room_def)
      show ?thesis
      proof (cases "jb_size_add (nat (jt_end (tok ! key) - int (jt_start (tok ! key))) * 3) 1")
        case (Inl e)
        then show ?thesis
          using True key jb_size_defined [of "nat (jt_end (tok ! key) - int (jt_start (tok ! key))) * 3" 1]
          by (subst dg_names_bytes.simps) (simp add: root_key_def ensures_def defined_def)
      next
        case (Inr b)
        then have b: "b = nat (jt_end (tok ! key) - int (jt_start (tok ! key))) * 3 + 1"
          by (simp add: jb_size_add_def split: if_splits)
        show ?thesis
        proof (cases "jb_size_add n b")
          case (Inl e)
          then show ?thesis
            using True key Inr jb_size_defined [of n b]
            by (subst dg_names_bytes.simps) (simp add: root_key_def ensures_def defined_def)
        next
          case n: (Inr n')
          then have n': "n' = n + b" "n' \<le> UINT64_MAX" using "1.prems"(2) by auto
          have "dg_names_bytes tok key n = dg_names_bytes tok (Suc (Suc key)) n'"
            using True key Inr n by (subst dg_names_bytes.simps) (simp add: root_key_def)
          moreover have "ensures (dg_names_bytes tok (Suc (Suc key)) n') (\<lambda>b. b = n' + name_room tok (Suc (Suc key)))"
            using "1.IH"(1) [OF key _ Inr n "1.prems"(1) n'(2)] True by (simp add: root_key_def)
          moreover have "n' + name_room tok (Suc (Suc key)) = n + name_room tok key"
            using name_room_step [OF key] True skip b n'(1) by simp
          ultimately show ?thesis by (simp only:)
        qed
      qed
    qed
  qed
qed

lemma dg_push_tensor_ok:
  "ensures (dg_push_tensor m t) (\<lambda>m'. md_tensor m' = md_tensor m @ [t] \<and> md_nvfp4 m' = md_nvfp4 m)"
  by (simp add: dg_push_tensor_def)

lemma dg_shard_tensors_ok:
  "tok_strings j n tok \<Longrightarrow> cursor + name_room tok key \<le> room \<Longrightarrow>
     ensures (dg_shard_tensors m j tok data hn room key cursor)
       (\<lambda>m'. \<exists>ts. md_tensor m' = md_tensor m @ ts \<and> list_all (tensor_ok data) ts)"
proof (induction m j tok data hn room key cursor rule: dg_shard_tensors.induct)
  case (1 m j tok data hn room key cursor)
  show ?case
  proof (cases "key < length tok")
    case False
    then show ?thesis by (simp add: dg_shard_tensors.simps)
  next
    case key: True
    show ?thesis
    proof (cases "root_key tok key")
      case False
      with 1 key name_room_step [OF key] show ?thesis
        by (subst dg_shard_tensors.simps) (auto simp: root_key_def)
    next
      case True
      have eq: "dg_shard_tensors m j tok data hn room key cursor =
          bindE (jt_string_copy j (tok ! key)) (\<lambda>name.
          if cursor + length name + 1 > room then Inl Undefined
          else
            let cursor = cursor + (length name + 1) in
            if name = str ''__metadata__'' then dg_shard_tensors m j tok data hn room (Suc key) cursor
            else
              bindE (dg_descriptor (md_nvfp4 m) j tok (Suc key) name data hn) (\<lambda>t.
              bindE (dg_push_tensor m t) (\<lambda>m. dg_shard_tensors m j tok data hn room (Suc key) cursor)))"
        using True key by (subst dg_shard_tensors.simps) (simp add: root_key_def del: str_simps)
      have ty: "jt_type (tok ! key) = JT_STRING" using True by (simp add: root_key_def)
      have span: "string_span j n (jt_start (tok ! key)) (nat (jt_end (tok ! key)))"
        using "1.prems"(1) key ty by (simp add: tok_strings_def)
      note copied = jt_string_copy_Inr(1) [OF _ ty span]
      show ?thesis
        unfolding eq ensures_bindE
      proof (rule ensures_defined [OF jt_string_copy_ok [OF "1.prems"(1) key]])
        fix name assume name: "jt_string_copy j (tok ! key) = Inr name"
        have fit: "\<not> cursor + length name + 1 > room"
          and room: "cursor + (length name + 1) + name_room tok (Suc key) \<le> room"
          using copied [OF name] "1.prems"(2) name_room_step [OF key] True by auto
        note br = key _ name fit refl
        have tr: "\<not> (jt_parent (tok ! key) \<noteq> 0 \<or> jt_type (tok ! key) \<noteq> JT_STRING)"
          using True by (simp add: root_key_def)
        have descr: "ensures (dg_descriptor (md_nvfp4 m) j tok (Suc key) name data hn) (\<lambda>t.
            ensures (dg_push_tensor m t) (\<lambda>m'. ensures (dg_shard_tensors m' j tok data hn room (Suc key) (cursor + (length name + 1)))
              (\<lambda>m'. \<exists>ts. md_tensor m' = md_tensor m @ ts \<and> list_all (tensor_ok data) ts)))"
          if "name \<noteq> str ''__metadata__''"
        proof (rule ensures_mono [OF dg_descriptor_ok [OF "1.prems"(1)]], rule ensures_mono [OF dg_push_tensor_ok], goal_cases)
          case (1 t m')
          have "ensures (dg_shard_tensors m' j tok data hn room (Suc key) (cursor + (length name + 1)))
              (\<lambda>m''. \<exists>ts. md_tensor m'' = md_tensor m' @ ts \<and> list_all (tensor_ok data) ts)"
            by (rule "1.IH"(3) [OF key tr name fit refl that 1(1,3) "1.prems"(1) room])
          then show ?case
            by (rule ensures_mono) (use 1 in auto)
        qed
        show "ensures (if cursor + length name + 1 > room then Inl Undefined
          else
            let cursor = cursor + (length name + 1) in
            if name = str ''__metadata__'' then dg_shard_tensors m j tok data hn room (Suc key) cursor
            else
              bindE (dg_descriptor (md_nvfp4 m) j tok (Suc key) name data hn) (\<lambda>t.
              bindE (dg_push_tensor m t) (\<lambda>m. dg_shard_tensors m j tok data hn room (Suc key) cursor)))
          (\<lambda>m'. \<exists>ts. md_tensor m' = md_tensor m @ ts \<and> list_all (tensor_ok data) ts)"
          unfolding Let_def
        proof (rule ensures_if, goal_cases)
          case 1
          with fit show ?case by simp
        next
          case 2
          show ?case
          proof (rule ensures_if, goal_cases)
            case 1
            show ?case by (rule "1.IH"(2) [OF key tr name fit refl 1 "1.prems"(1) room])
          next
            case 2
            show ?case unfolding ensures_bindE by (rule descr [OF 2])
          qed
        qed
      qed
    qed
  qed
qed

lemma dg_parse_shard_data_ok:
  assumes "\<And>tok. json_tokens (drop 8 data) (dg_header_length data) = Inr tok \<Longrightarrow> no_string_after_key tok"
  shows "ensures (dg_parse_shard_data m path data)
    (\<lambda>m'. \<exists>ts. md_tensor m' = md_tensor m @ ts \<and> list_all (tensor_ok data) ts)"
  unfolding dg_parse_shard_data_def Let_def
proof (rule ensures_if, simp, rule ensures_if, simp, unfold ensures_bindE, rule ensures_defined, goal_cases)
  case 1
  then show ?case by (intro json_tokens_defined) simp
next
  case (2 tok)
  show ?case
  proof (rule ensures_if, simp, unfold ensures_bindE, rule ensures_mono [OF dg_names_bytes_room [OF assms [OF 2(3)]]], goal_cases)
    case (2 room)
    then show ?case
      by (intro dg_shard_tensors_ok [OF json_tokens_strings]) (use \<open>json_tokens _ _ = Inr tok\<close> in auto)
  qed simp
qed

section \<open>The index\<close>

interpretation tensor_order: key_cmp dg_tensor_cmp dg_tensor_key_cmp
proof
  fix x y z k
  show "dg_tensor_cmp x y < 0 \<longleftrightarrow> dg_tensor_cmp y x > 0"
    unfolding dg_tensor_cmp_def by (rule strcmp.cmp_flip)
  show "dg_tensor_cmp x y \<le> 0 \<Longrightarrow> dg_tensor_cmp y z \<le> 0 \<Longrightarrow> dg_tensor_cmp x z \<le> 0"
    unfolding dg_tensor_cmp_def by (rule strcmp.cmp_trans)
  show "dg_tensor_key_cmp k x < 0 \<Longrightarrow> dg_tensor_cmp x y \<le> 0 \<Longrightarrow> dg_tensor_key_cmp k y < 0"
    unfolding dg_tensor_cmp_def dg_tensor_key_cmp_def by (rule strcmp.kcmp_up)
  show "dg_tensor_key_cmp k y > 0 \<Longrightarrow> dg_tensor_cmp x y \<le> 0 \<Longrightarrow> dg_tensor_key_cmp k x > 0"
    unfolding dg_tensor_cmp_def dg_tensor_key_cmp_def by (rule strcmp.kcmp_down)
qed

lemma dg_duplicate_None:
  "dg_duplicate ts = None \<longleftrightarrow> (\<forall>i. Suc i < length ts \<longrightarrow> dg_tensor_cmp (ts ! i) (ts ! Suc i) \<noteq> 0)"
proof (induction ts rule: dg_duplicate.induct)
  case (1 x y ts)
  have "(\<forall>i. Suc i < length (x # y # ts) \<longrightarrow> dg_tensor_cmp ((x # y # ts) ! i) ((x # y # ts) ! Suc i) \<noteq> 0) \<longleftrightarrow>
      dg_tensor_cmp x y \<noteq> 0 \<and> (\<forall>i. Suc i < length (y # ts) \<longrightarrow> dg_tensor_cmp ((y # ts) ! i) ((y # ts) ! Suc i) \<noteq> 0)"
    by (auto simp: nth_Cons split: nat.splits)
  with 1 show ?case by (auto simp: dg_tensor_cmp_def)
qed auto

lemma dg_duplicate_distinct:
  assumes "sorted_wrt (\<lambda>x y. dg_tensor_cmp x y \<le> 0) ts"
  shows "dg_duplicate ts = None \<longleftrightarrow> distinct (map tn_name ts)"
proof
  assume "dg_duplicate ts = None"
  then have adj: "\<forall>i. Suc i < length ts \<longrightarrow> dg_tensor_cmp (ts ! i) (ts ! Suc i) \<noteq> 0"
    by (simp add: dg_duplicate_None)
  have "tn_name (ts ! i) \<noteq> tn_name (ts ! k)" if "i < k" "k < length ts" for i k
    using tensor_order.adjacent_equal [OF assms adj that] by (simp add: dg_tensor_cmp_def)
  then show "distinct (map tn_name ts)"
    by (auto simp: distinct_conv_nth) (metis linorder_neqE_nat)
next
  assume "distinct (map tn_name ts)"
  then have "\<forall>i. Suc i < length ts \<longrightarrow> dg_tensor_cmp (ts ! i) (ts ! Suc i) \<noteq> 0"
    by (auto simp: dg_tensor_cmp_def distinct_conv_nth)
  then show "dg_duplicate ts = None" by (simp add: dg_duplicate_None)
qed

lemma dg_tensor_lookup:
  assumes "dg_finalize_tensor_index m = Inr m'"
  shows "dg_tensor m' name =
    (case map_of (map (\<lambda>t. (tn_name t, t)) (md_tensor m)) name of
       Some t \<Rightarrow> Inr t
     | None \<Rightarrow> die2 ''missing DiffusionGemma tensor'' name)"
proof -
  let ?ts = "qsort dg_tensor_cmp (md_tensor m)"
  have s: "sorted_wrt (\<lambda>x y. dg_tensor_cmp x y \<le> 0) ?ts" by (rule tensor_order.sorted_qsort)
  have m': "md_tensor m' = ?ts" and "dg_duplicate ?ts = None"
    using assms by (auto simp: dg_finalize_tensor_index_def Let_def split: option.splits)
  then have d: "distinct (map tn_name ?ts)" using dg_duplicate_distinct [OF s] by simp
  then have d': "distinct (map tn_name (md_tensor m))" by (simp add: distinct_map_qsort)
  show ?thesis
  proof (cases "\<exists>t \<in> set (md_tensor m). tn_name t = name")
    case True
    then obtain t where t: "t \<in> set (md_tensor m)" "tn_name t = name" by blast
    then obtain i where i: "i < length ?ts" "?ts ! i = t" by (metis in_set_conv_nth set_qsort)
    have "bsearch dg_tensor_key_cmp name ?ts = Some i"
    proof (rule tensor_order.bsearch_lookup [OF s])
      show "distinct ?ts" using d by (simp add: distinct_map)
      show "dg_tensor_key_cmp name (?ts ! i) = 0" using i t by (simp add: dg_tensor_key_cmp_def)
      show "x = y" if "x \<in> set ?ts" "y \<in> set ?ts" "dg_tensor_key_cmp name x = 0" "dg_tensor_key_cmp name y = 0" for x y
        using that d by (auto simp: dg_tensor_key_cmp_def distinct_map dest: inj_onD)
    qed (rule i(1))
    moreover have "map_of (map (\<lambda>t. (tn_name t, t)) (md_tensor m)) name = Some t"
      using t d' by (intro map_of_is_SomeI) (auto simp: o_def)
    ultimately show ?thesis using i m' by (simp add: dg_tensor_def)
  next
    case False
    then have "bsearch dg_tensor_key_cmp name ?ts = None"
      using tensor_order.bsearch_None [OF s] by (auto simp: dg_tensor_key_cmp_def)
    moreover have "map_of (map (\<lambda>t. (tn_name t, t)) (md_tensor m)) name = None"
      using False by (auto simp: map_of_eq_None_iff)
    ultimately show ?thesis using m' by (simp add: dg_tensor_def)
  qed
qed

section \<open>Properties\<close>

text \<open>The shard of a header and tensor bytes, and a model before any shard.\<close>

definition sample_shard :: "bytes \<Rightarrow> bytes \<Rightarrow> bytes" where
  "sample_shard h d = [of_nat (length h), 0, 0, 0, 0, 0, 0, 0] @ h @ d"

definition no_model :: DGModel where
  "no_model = \<lparr>md_tensor = [], md_cap = 0, md_nvfp4 = False, md_nvexpert = [], md_a13 = [], md_a2 = []\<rparr>"

text \<open>A string literal with a back quote for the double quote.\<close>

definition quoted :: "string \<Rightarrow> bytes" where
  "quoted s = map (\<lambda>c. if c = 96 then 34 else c) (str s)"

text \<open>
  C19. Parsing a shard whose root has no string after a key either stops with one of the
  program's own errors or adds tensors that all lie inside the file, have at most four
  dimensions and exactly the bytes of their shape and type, and have a known type when the
  text model uses them. No read or write leaves the text, the token array or the slab of names.
\<close>

theorem shard_tensors_in_bounds:
  assumes "\<And>tok. json_tokens (drop 8 data) (dg_header_length data) = Inr tok \<Longrightarrow> no_string_after_key tok"
  shows "case dg_parse_shard_data m path data of
     Inr m' \<Rightarrow> \<exists>ts. md_tensor m' = md_tensor m @ ts \<and> list_all (tensor_ok data) ts
   | Inl e \<Rightarrow> e \<noteq> Undefined \<and> e \<noteq> OutOfFuel"
  using dg_parse_shard_data_ok [OF assms]
  by (auto simp: ensures_def defined_def split: sum.split)

theorem shard_tensors_in_bounds_witness:
  "(\<exists>ts. [\<lparr>tn_name = str ''w'', tn_data = sample_shard (quoted ''{`w`:{`dtype`:`U8`,`shape`:[2],`data_offsets`:[0,2]}}'') [7, 8],
            tn_at = 61, tn_shape = [2], tn_bytes = 2, tn_dtype = DG_U8\<rparr>] = ts \<and>
     list_all (tensor_ok (sample_shard (quoted ''{`w`:{`dtype`:`U8`,`shape`:[2],`data_offsets`:[0,2]}}'') [7, 8])) ts)"
proof -
  let ?d = "sample_shard (quoted ''{`w`:{`dtype`:`U8`,`shape`:[2],`data_offsets`:[0,2]}}'') [7, 8]"
  have parse: "map_sum id md_tensor (dg_parse_shard_data no_model [] ?d) = Inr
     [\<lparr>tn_name = str ''w'', tn_data = ?d, tn_at = 61, tn_shape = [2], tn_bytes = 2, tn_dtype = DG_U8\<rparr>]"
    by code_simp
  have "case json_tokens (drop 8 ?d) (dg_header_length ?d) of Inr tok \<Rightarrow> no_string_after_key tok | Inl _ \<Rightarrow> True"
    by code_simp
  then have "\<And>tok. json_tokens (drop 8 ?d) (dg_header_length ?d) = Inr tok \<Longrightarrow> no_string_after_key tok"
    by simp
  from shard_tensors_in_bounds [of ?d no_model "[]", OF this] parse show ?thesis
    by (cases "dg_parse_shard_data no_model [] ?d") (auto simp: no_model_def)
qed


text \<open>
  C20. After the index is built, looking a tensor up by binary search is looking it up by name in
  the finite map of the parsed tensors; the index is refused when two share a name.
\<close>

theorem dg_tensor_is_lookup:
  assumes "dg_finalize_tensor_index m = Inr m'"
  shows "distinct (map tn_name (md_tensor m)) \<and>
    dg_tensor m' name =
      (case map_of (map (\<lambda>t. (tn_name t, t)) (md_tensor m)) name of
         Some t \<Rightarrow> Inr t
       | None \<Rightarrow> die2 ''missing DiffusionGemma tensor'' name)"
proof -
  have "dg_duplicate (qsort dg_tensor_cmp (md_tensor m)) = None"
    using assms by (auto simp: dg_finalize_tensor_index_def Let_def split: option.splits)
  then have "distinct (map tn_name (md_tensor m))"
    using dg_duplicate_distinct [OF tensor_order.sorted_qsort] by (simp add: distinct_map_qsort)
  with dg_tensor_lookup [OF assms] show ?thesis by simp
qed

definition named_tensor :: "string \<Rightarrow> DGTensor" where
  "named_tensor s = \<lparr>tn_name = str s, tn_data = [], tn_at = 0, tn_shape = [], tn_bytes = 0, tn_dtype = DG_U8\<rparr>"

theorem dg_tensor_is_lookup_witness:
  "dg_tensor (no_model\<lparr>md_tensor := [named_tensor ''a'', named_tensor ''b'', named_tensor ''c'']\<rparr>) (str ''b'') =
     Inr (named_tensor ''b'')"
proof -
  have "dg_finalize_tensor_index (no_model\<lparr>md_tensor := [named_tensor ''c'', named_tensor ''a'', named_tensor ''b'']\<rparr>) =
      Inr (no_model\<lparr>md_tensor := [named_tensor ''a'', named_tensor ''b'', named_tensor ''c'']\<rparr>)"
    by code_simp
  from dg_tensor_is_lookup [OF this, of "str ''b''"] show ?thesis
    by (simp add: named_tensor_def no_model_def)
qed

end
