(* ===== verification/TokenLoad.thy ===== *)
theory TokenLoad
  imports Vocab JsonSafe
begin

text \<open>
  \<open>dgt_load\<close> either stops with an error of its own or returns tables in order: the vocabulary
  and the merges sorted for \<open>bsearch\<close>, every id in range and used once, special tokens that are
  vocabulary entries and not empty. It never reads outside the token array or the text.
\<close>

lemma dgt_field_ok:
  assumes "tok_strings s n ts"
  shows "defined (dgt_string_field s ts obj key v)" "defined (dgt_literal_field s ts obj key v)"
proof -
  have "ensures (jt_obj_get s ts obj key) (\<lambda>f. defined (if f \<ge> 0 then jt_eq s (ts ! nat f) v else Inr False))"
    by (rule ensures_mono [OF jt_obj_get_ok [OF assms]]) (auto intro: jt_eq_ok [OF assms])
  then show "defined (dgt_string_field s ts obj key v)"
    by (simp add: dgt_string_field_def flip: ensures_True)
  show "defined (dgt_literal_field s ts obj key v)"
    using jt_obj_get_ok [OF assms, of obj key] by (auto simp: dgt_literal_field_def ensures_def)
qed

section \<open>The vocabulary\<close>

lemma dgt_validate_ok: "tok_strings j n t \<Longrightarrow> defined (dgt_validate_configuration j t)"
  unfolding dgt_validate_configuration_def
  by (intro defined_bindE every_ok) (auto simp: jt_obj_get_defined dgt_field_ok)

lemma dgt_vocab_bytes_ok: "defined (dgt_vocab_bytes t vocab i n)"
proof (induction t vocab i n rule: dgt_vocab_bytes.induct)
  case (1 t vocab i n)
  then show ?case by (subst dgt_vocab_bytes.simps) (auto intro!: defined_bindE jb_size_defined)
qed

definition entries_ok :: "nat \<Rightarrow> Vocab list \<Rightarrow> nat \<Rightarrow> bool" where
  "entries_ok n vs maxlen \<longleftrightarrow> maxlen \<le> n \<and> (\<forall>v \<in> set vs. 0 \<le> vo_id v \<and> length (vo_s v) \<le> maxlen)"

lemma dgt_vocab_entries_ok:
  "tok_strings j n t \<Longrightarrow> entries_ok (length j) vs maxlen \<Longrightarrow>
     ensures (dgt_vocab_entries j t vocab nv i vs maxlen) (\<lambda>(vs', maxlen'). entries_ok (length j) vs' maxlen')"
proof (induction j t vocab nv i vs maxlen rule: dgt_vocab_entries.induct)
  case (1 j t vocab nv i vs maxlen)
  show ?case
  proof (cases "Suc i < length t \<and> \<not> jt_parent (t ! i) < int vocab")
    case False
    then show ?thesis using "1.prems" by (subst dgt_vocab_entries.simps) auto
  next
    case True
    show ?thesis
    proof (cases "jt_parent (t ! i) = int vocab")
      case False
      with "1.IH"(1) "1.prems" True show ?thesis by (subst dgt_vocab_entries.simps) auto
    next
      case parent: True
      have one: "ensures (jt_nonnegative_int j (t ! Suc i) (str ''vocabulary id'')) (\<lambda>k.
          ensures (dgt_vocab_entries j t vocab nv (Suc (Suc i)) (vs @ [\<lparr>vo_id = int k, vo_s = s\<rparr>])
            (if length s > maxlen then length s else maxlen)) (\<lambda>(vs', maxlen'). entries_ok (length j) vs' maxlen'))"
        if s: "jt_string_copy j (t ! i) = Inr s" "\<not> length s > UINT32_MAX" "length vs \<noteq> nv" for s
      proof (rule ensures_defined [OF jt_nonnegative_int_ok])
        fix k assume k: "jt_nonnegative_int j (t ! Suc i) (str ''vocabulary id'') = Inr k"
        have "entries_ok (length j) (vs @ [\<lparr>vo_id = int k, vo_s = s\<rparr>]) (if length s > maxlen then length s else maxlen)"
          using "1.prems"(2) jt_string_copy_short [OF s(1)] by (auto simp: entries_ok_def)
        with "1.IH"(2) True parent s k "1.prems"(1)
        show "ensures (dgt_vocab_entries j t vocab nv (Suc (Suc i)) (vs @ [\<lparr>vo_id = int k, vo_s = s\<rparr>])
            (if length s > maxlen then length s else maxlen)) (\<lambda>(vs', maxlen'). entries_ok (length j) vs' maxlen')"
          by blast
      qed
      have "i < length t" using True by simp
      note copy = jt_string_copy_ok [OF "1.prems"(1) this]
      have "ensures (jt_string_copy j (t ! i)) (\<lambda>s. ensures
          (if length s > UINT32_MAX then die ''DiffusionGemma vocabulary token is too large''
            else
              bindE (jt_nonnegative_int j (t ! Suc i) (str ''vocabulary id'')) (\<lambda>k.
                dgt_vocab_entries j t vocab nv (Suc (Suc i)) (vs @ [\<lparr>vo_id = int k, vo_s = s\<rparr>])
                  (if length s > maxlen then length s else maxlen))) (\<lambda>(vs', maxlen'). entries_ok (length j) vs' maxlen'))"
        if "length vs \<noteq> nv"
        by (rule ensures_defined [OF copy], rule ensures_if) (simp, simp only: ensures_bindE, erule one, simp, rule that)
      then show ?thesis
        using True parent unfolding dgt_vocab_entries.simps [of j t vocab nv i vs maxlen]
        by (cases "length vs = nv") (simp_all only: if_True if_False ensures_bindE ensures_simps simp_thms less_irrefl)
    qed
  qed
qed

text \<open>The index accepts exactly a numbering without gaps or repetitions.\<close>

lemma dgt_index_Inr:
  "dgt_index nv vs by_id = Inr by_id' \<Longrightarrow> length by_id = nv \<Longrightarrow>
     length by_id' = nv \<and>
     (\<forall>v \<in> set vs. 0 \<le> vo_id v \<and> vo_id v < int nv \<and> by_id' ! nat (vo_id v) = Some v) \<and>
     (\<forall>i < nv. by_id ! i \<noteq> None \<longrightarrow> by_id' ! i = by_id ! i) \<and>
     set by_id' \<subseteq> set by_id \<union> Some ` set vs \<and>
     count (mset by_id') None + length vs = count (mset by_id) None"
proof (induction nv vs by_id rule: dgt_index.induct)
  case (2 nv v vs by_id)
  let ?i = "nat (vo_id v)" and ?b = "by_id[nat (vo_id v) := Some v]"
  have v: "0 \<le> vo_id v" "vo_id v < int nv" "by_id ! ?i = None" "dgt_index nv vs ?b = Inr by_id'"
    using "2.prems"(1) by (auto split: if_splits)
  have IH: "length by_id' = nv \<and>
     (\<forall>v \<in> set vs. 0 \<le> vo_id v \<and> vo_id v < int nv \<and> by_id' ! nat (vo_id v) = Some v) \<and>
     (\<forall>i < nv. ?b ! i \<noteq> None \<longrightarrow> by_id' ! i = ?b ! i) \<and>
     set by_id' \<subseteq> set ?b \<union> Some ` set vs \<and>
     count (mset by_id') None + length vs = count (mset ?b) None"
    by (rule "2.IH") (use v "2.prems" in auto)
  have i: "?i < length by_id" using v "2.prems" by simp
  have "by_id' ! ?i = Some v" using IH i "2.prems"(2) by simp
  moreover have "by_id' ! k = by_id ! k" if "k < nv" "by_id ! k \<noteq> None" for k
    using IH that v(3) by (cases "k = ?i") auto
  moreover have "set ?b \<subseteq> insert (Some v) (set by_id)" by (rule set_update_subset_insert)
  moreover have "count (mset by_id) None = Suc (count (mset ?b) None)"
  proof -
    have "None \<in># mset by_id" using i v(3) by (metis nth_mem set_mset_mset)
    then show ?thesis using i v(3) by (simp add: mset_update)
  qed
  ultimately show ?case using IH v by auto
qed auto

lemma dgt_index_ok: "length by_id = nv \<Longrightarrow> defined (dgt_index nv vs by_id)"
  by (induction nv vs by_id rule: dgt_index.induct) auto

text \<open>The tables before merges and special tokens are read.\<close>

lemma dgt_index_tables:
  assumes ix: "dgt_index (length vs) (qsort cmp_vocab vs) (replicate (length vs) None) = Inr by_id"
    and e: "entries_ok n vs maxlen" and n: "n \<le> JB_MAX_JSON" and len: "length vs < UINT32_MAX"
  shows "dgt_ok (dgt_empty\<lparr>dt_vocab := qsort cmp_vocab vs, dt_maxlen := maxlen, dt_by_id := by_id\<rparr>)"
proof -
  note r = dgt_index_Inr [OF ix]
  have "count (mset by_id) None = 0" using r by simp
  then have "None \<notin> set by_id" by (simp add: not_in_iff [symmetric])
  moreover have "set by_id \<subseteq> insert None (Some ` set vs)" using r by auto
  ultimately have "set by_id \<subseteq> Some ` set vs" by blast
  with r e n len show ?thesis
    by (auto simp: dgt_ok_def dgt_empty_def entries_ok_def list_all_iff JB_MAX_JSON_def intro: vocab_order.sorted_qsort)
qed

section \<open>Merges and special tokens\<close>

lemma dgt_merge_parts_ok:
  "k \<le> length t \<Longrightarrow> (\<forall>x. a = Some x \<longrightarrow> x < length t) \<Longrightarrow> (\<forall>x. b = Some x \<longrightarrow> x < length t) \<Longrightarrow>
     ensures (dgt_merge_parts t i k a b)
       (\<lambda>(a, b). (\<forall>x. a = Some x \<longrightarrow> x < length t) \<and> (\<forall>x. b = Some x \<longrightarrow> x < length t))"
proof (induction t i k a b rule: dgt_merge_parts.induct)
  case (1 t i k a b)
  show ?case
  proof (cases "k < length t \<and> jt_parent (t ! k) \<ge> int i")
    case True
    with 1 show ?thesis by (subst dgt_merge_parts.simps) (auto simp: Suc_le_eq)
  next
    case False
    with "1.prems" show ?thesis by (subst dgt_merge_parts.simps) (auto simp del: split_paired_All)
  qed
qed

definition merges_in :: "DGTokenizer \<Rightarrow> Merge list \<Rightarrow> bool" where
  "merges_in d ms \<longleftrightarrow> list_all (\<lambda>m. mg_a m < length (dt_vocab d) \<and> mg_b m < length (dt_vocab d)) ms"

lemma dgt_merge_at_ok:
  assumes "tok_strings j n t" "dgt_ok d" "merges_in d ms" "i < length t"
  shows "ensures (dgt_merge_at d j t i nm ms) (merges_in d)"
proof -
  let ?body = "\<lambda>a b. bindE (jb_size_add (nat (jt_end (t ! a) - int (jt_start (t ! a))) * 3) 1) (\<lambda>a_capacity.
             bindE (jb_size_add (nat (jt_end (t ! b) - int (jt_start (t ! b))) * 3) 1) (\<lambda>b_capacity.
             bindE (jb_size_add a_capacity b_capacity) (\<lambda>_.
             bindE (jt_string_copy j (t ! a)) (\<lambda>sa.
             bindE (jt_string_copy j (t ! b)) (\<lambda>sb.
               case (dgt_vfind d sa, dgt_vfind d sb) of
                 (Some va, Some vb) \<Rightarrow>
                   if length ms = nm then die ''tokenizer merge references absent token''
                   else Inr (ms @ [\<lparr>mg_a = vo_u32 va, mg_b = vo_u32 vb, mg_rank = length ms\<rparr>])
               | _ \<Rightarrow> die ''tokenizer merge references absent token'')))))"
  have body: "ensures (?body a b) (merges_in d)" if "a < length t" "b < length t" for a b
    unfolding ensures_bindE
    using that jt_string_copy_ok [OF assms(1)] assms(3) dgt_ok_vocab(1) [OF assms(2)]
    by (intro ensures_defined jb_size_defined)
      (auto simp: merges_in_def dest!: dgt_vfind_in split: option.splits if_splits)
  have "ensures (dgt_merge_parts t i (Suc i) None None)
      (\<lambda>(a, b). (\<forall>x. a = Some x \<longrightarrow> x < length t) \<and> (\<forall>x. b = Some x \<longrightarrow> x < length t))"
    using assms(4) by (intro dgt_merge_parts_ok) auto
  then show ?thesis
    unfolding dgt_merge_at_def ensures_bindE
    by (rule ensures_mono) (use body in \<open>force split: option.splits simp del: ensures_bindE\<close>)
qed

lemma dgt_merges_ok:
  "tok_strings j n t \<Longrightarrow> dgt_ok d \<Longrightarrow> merges_in d ms \<Longrightarrow> ensures (dgt_merges d j t merges nm i ms) (merges_in d)"
proof (induction d j t merges nm i ms rule: dgt_merges.induct)
  case (1 d j t merges nm i ms)
  show ?case
  proof (cases "i < length t \<and> jt_parent (t ! i) = int merges")
    case True
    have "ensures (dgt_merge_at d j t i nm ms) (\<lambda>ms. ensures (dgt_merges d j t merges nm (Suc i) ms) (merges_in d))"
      by (rule ensures_mono [OF dgt_merge_at_ok [OF "1.prems"]]) (use 1 True in auto)
    with True show ?thesis by (subst dgt_merges.simps) simp
  next
    case False
    with 1 show ?thesis by (subst dgt_merges.simps) auto
  qed
qed

lemma dgt_ok_merges: "dgt_ok d \<Longrightarrow> merges_in d ms \<Longrightarrow> dgt_ok (d\<lparr>dt_merge := qsort cmp_merge ms\<rparr>)"
  by (auto simp: dgt_ok_def merges_in_def list_all_iff intro: merge_order.sorted_qsort)

lemma dgt_ok_special:
  assumes "dgt_ok d" "v \<in> set (dt_vocab d)" "vo_s v \<noteq> []"
  shows "dgt_ok (d\<lparr>dt_special_first := (dt_special_first d)[unat (hd (vo_s v)) := True],
                  dt_special := dt_special d @ [v]\<rparr>)"
proof -
  have "unat (hd (vo_s v)) < 256" using unsigned_less [of "hd (vo_s v)"] by simp
  with assms show ?thesis by (auto simp: dgt_ok_def list_all_iff nth_list_update)
qed

lemma dgt_special_at_ok:
  assumes "tok_strings j n t" "dgt_ok d"
  shows "ensures (dgt_special_at d j t i) (\<lambda>d'. dgt_ok d' \<and> dt_vocab d' = dt_vocab d)"
proof -
  have get: "ensures (jt_obj_get j t (int i) key) (\<lambda>f. -1 \<le> f \<and> f < int (length t))" for key
    by (rule jt_obj_get_ok [OF assms(1)])
  have "ensures (every
       [Inr (\<not> content < 0), Inr (jt_type (t ! nat content) = JT_STRING), Inr (\<not> id < 0),
        Inr (\<not> special < 0), Inr (jt_literal j (t ! nat special) (str ''true'')),
        dgt_literal_field j t (int i) (str ''single_word'') (str ''false''),
        dgt_literal_field j t (int i) (str ''lstrip'') (str ''false''),
        dgt_literal_field j t (int i) (str ''rstrip'') (str ''false''),
        dgt_literal_field j t (int i) (str ''normalized'') (str ''false'')])
      (\<lambda>ok. ok \<longrightarrow> 0 \<le> content)" (is "ensures (every ?cs) _") for content id special
  proof (rule ensures_defined)
    show "defined (every ?cs)" by (rule every_ok) (auto simp: dgt_field_ok [OF assms(1)])
    fix ok assume "every ?cs = Inr ok"
    then show "ok \<longrightarrow> 0 \<le> content" using every_True [of ?cs] by (cases ok) auto
  qed
  note conds = this
  have rest: "ensures (
         bindE (jb_size_add (nat (jt_end (t ! nat content) - int (jt_start (t ! nat content))) * 3) 1) (\<lambda>_.
         bindE (jt_string_copy j (t ! nat content)) (\<lambda>s.
           case dgt_vfind d s of
             None \<Rightarrow> die ''added token absent from vocabulary''
           | Some v \<Rightarrow>
               bindE (jt_nonnegative_int j (t ! nat id) (str ''added token id'')) (\<lambda>k.
                 if int k \<noteq> vo_id v then die ''added token id does not match vocabulary''
                 else if length (vo_s v) = 0 then die ''empty added token''
                 else Inr (d\<lparr>dt_special_first := (dt_special_first d)[unat (hd (vo_s v)) := True],
                             dt_special := dt_special d @ [v]\<rparr>)))))
      (\<lambda>d'. dgt_ok d' \<and> dt_vocab d' = dt_vocab d)"
    if "0 \<le> content" "content < int (length t)" for content id
  proof -
    have copy: "defined (jt_string_copy j (t ! nat content))"
      using that by (intro jt_string_copy_ok [OF assms(1)]) simp
    show ?thesis
      unfolding ensures_bindE
      by (rule ensures_defined [OF jb_size_defined(1)], rule ensures_defined [OF copy])
        (auto intro!: ensures_defined [OF jt_nonnegative_int_ok] dgt_ok_special [OF assms(2)]
          dest!: dgt_vfind_in split: option.split)
  qed
  show ?thesis
    unfolding dgt_special_at_def ensures_bindE
  proof (rule ensures_mono [OF get], rule ensures_mono [OF get], rule ensures_mono [OF get])
    fix content id special :: int
    assume c: "-1 \<le> content \<and> content < int (length t)"
    show "ensures (every
       [Inr (\<not> content < 0), Inr (jt_type (t ! nat content) = JT_STRING), Inr (\<not> id < 0),
        Inr (\<not> special < 0), Inr (jt_literal j (t ! nat special) (str ''true'')),
        dgt_literal_field j t (int i) (str ''single_word'') (str ''false''),
        dgt_literal_field j t (int i) (str ''lstrip'') (str ''false''),
        dgt_literal_field j t (int i) (str ''rstrip'') (str ''false''),
        dgt_literal_field j t (int i) (str ''normalized'') (str ''false'')]) (\<lambda>ok. ensures (
       if \<not> ok then die ''unsupported added token''
       else
         bindE (jb_size_add (nat (jt_end (t ! nat content) - int (jt_start (t ! nat content))) * 3) 1) (\<lambda>_.
         bindE (jt_string_copy j (t ! nat content)) (\<lambda>s.
           case dgt_vfind d s of
             None \<Rightarrow> die ''added token absent from vocabulary''
           | Some v \<Rightarrow>
               bindE (jt_nonnegative_int j (t ! nat id) (str ''added token id'')) (\<lambda>k.
                 if int k \<noteq> vo_id v then die ''added token id does not match vocabulary''
                 else if length (vo_s v) = 0 then die ''empty added token''
                 else Inr (d\<lparr>dt_special_first := (dt_special_first d)[unat (hd (vo_s v)) := True],
                             dt_special := dt_special d @ [v]\<rparr>)))))
       (\<lambda>d'. dgt_ok d' \<and> dt_vocab d' = dt_vocab d))"
      by (rule ensures_mono [OF conds], rule ensures_if) (simp, rule rest, use c in simp_all)
  qed
qed

lemma dgt_specials_ok:
  "tok_strings j n t \<Longrightarrow> dgt_ok d \<Longrightarrow>
     ensures (dgt_specials d j t added i) (\<lambda>d'. dgt_ok d' \<and> dt_vocab d' = dt_vocab d)"
proof (induction d j t added i rule: dgt_specials.induct)
  case (1 d j t added i)
  show ?case
  proof (cases "i < length t \<and> jt_parent (t ! i) = int added")
    case True
    have "ensures (dgt_special_at d j t i) (\<lambda>d'. ensures (dgt_specials d' j t added (Suc i)) (\<lambda>d'. dgt_ok d' \<and> dt_vocab d' = dt_vocab d))"
      by (rule ensures_mono [OF dgt_special_at_ok [OF "1.prems"]]) (use 1 True in auto)
    with True show ?thesis by (subst dgt_specials.simps) simp
  next
    case False
    with 1 show ?thesis by (subst dgt_specials.simps) auto
  qed
qed

lemma dgt_load_sized_ok:
  assumes "sz < UINT32_MAX"
  shows "ensures (dgt_load_sized sz j) (\<lambda>d. dgt_ok d \<and> length (dt_vocab d) = sz)"
proof -
  have tables: "ensures (
         bindE (dgt_validate_configuration j t) (\<lambda>_.
         let nv = jt_size (t ! nat vocab) div 2 in
         if nv \<noteq> sz then die ''unexpected DiffusionGemma vocabulary size''
         else
           bindE (dgt_vocab_bytes t (nat vocab) (Suc (nat vocab)) 0) (\<lambda>_.
           bindE (dgt_vocab_entries j t (nat vocab) nv (Suc (nat vocab)) [] 0) (\<lambda>(vs, maxlen).
             if length vs \<noteq> nv then die ''incomplete DiffusionGemma vocabulary''
             else
               let vs = qsort cmp_vocab vs in
               bindE (dgt_index nv vs (replicate nv None)) (\<lambda>by_id.
               let d = dgt_empty\<lparr>dt_vocab := vs, dt_maxlen := maxlen, dt_by_id := by_id\<rparr>;
                   nm = jt_size (t ! nat merges) in
               bindE (dgt_merges d j t (nat merges) nm (Suc (nat merges)) []) (\<lambda>ms.
                 if length ms \<noteq> nm then die ''incomplete tokenizer merges''
                 else dgt_specials (d\<lparr>dt_merge := qsort cmp_merge ms\<rparr>) j t (nat added)
                        (Suc (nat added))))))))
      (\<lambda>d. dgt_ok d \<and> length (dt_vocab d) = sz)"
    if t: "json_tokens j (length j) = Inr t" for t vocab merges added
  proof -
    note T = json_tokens_strings [OF t]
    have n: "length j \<le> JB_MAX_JSON" using t by (auto simp: json_tokens_def split: if_splits)
    have late: "ensures (dgt_merges d j t (nat merges) nm (Suc (nat merges)) []) (\<lambda>ms. ensures
        (if length ms \<noteq> nm then die ''incomplete tokenizer merges''
         else dgt_specials (d\<lparr>dt_merge := qsort cmp_merge ms\<rparr>) j t (nat added) (Suc (nat added)))
        (\<lambda>d. dgt_ok d \<and> length (dt_vocab d) = sz))"
      if d: "dgt_ok d" "length (dt_vocab d) = sz" for d nm
    proof (rule ensures_mono [OF dgt_merges_ok [OF T d(1)]])
      fix ms assume "merges_in d ms"
      from dgt_specials_ok [OF T dgt_ok_merges [OF d(1) this], of "nat added" "Suc (nat added)"] d(2)
      show "ensures (if length ms \<noteq> nm then die ''incomplete tokenizer merges''
         else dgt_specials (d\<lparr>dt_merge := qsort cmp_merge ms\<rparr>) j t (nat added) (Suc (nat added)))
        (\<lambda>d. dgt_ok d \<and> length (dt_vocab d) = sz)"
        by (auto elim: ensures_mono)
    qed (simp add: merges_in_def)
    show ?thesis
      unfolding ensures_bindE Let_def
    proof (rule ensures_defined [OF dgt_validate_ok [OF T]], rule ensures_if, simp, unfold ensures_bindE,
        rule ensures_defined [OF dgt_vocab_bytes_ok], rule ensures_mono [OF dgt_vocab_entries_ok [OF T]],
        goal_cases)
      case 1
      show ?case by (simp add: entries_ok_def)
    next
      case (2 u v r)
      obtain vs maxlen where r: "r = (vs, maxlen)" by fastforce
      have e: "entries_ok (length j) vs maxlen" and sz: "jt_size (t ! nat vocab) div 2 = sz" using 2 r by simp_all
      show ?case
        unfolding r prod.case
      proof (rule ensures_if, simp, unfold ensures_bindE, rule ensures_defined, goal_cases)
        case 1
        then show ?case by (intro dgt_index_ok) simp
      next
        case (2 by_id)
        then have "dgt_index (length vs) (qsort cmp_vocab vs) (replicate (length vs) None) = Inr by_id"
          "length vs = sz" using sz by simp_all
        with dgt_index_tables [OF _ e n] assms show ?case by (intro late) simp_all
      qed
    qed
  qed
  show ?thesis
    unfolding dgt_load_sized_def ensures_bindE
  proof (rule ensures_defined [OF json_tokens_defined [OF le_refl]])
    fix t assume t: "json_tokens j (length j) = Inr t"
    note get = ensures_defined [OF jt_obj_get_defined [OF json_tokens_strings [OF t]]]
    show "ensures (jt_obj_get j t 0 (str ''model'')) (\<lambda>model. ensures (jt_obj_get j t model (str ''vocab'')) (\<lambda>vocab.
        ensures (jt_obj_get j t model (str ''merges'')) (\<lambda>merges. ensures (jt_obj_get j t 0 (str ''added_tokens'')) (\<lambda>added.
        ensures (if model < 0 \<or> vocab < 0 \<or> merges < 0 \<or> added < 0 \<or> jt_type (t ! nat vocab) \<noteq> JT_OBJECT \<or>
          jt_type (t ! nat merges) \<noteq> JT_ARRAY \<or> jt_type (t ! nat added) \<noteq> JT_ARRAY
       then die ''unsupported DiffusionGemma tokenizer JSON''
       else
         bindE (dgt_validate_configuration j t) (\<lambda>_.
         let nv = jt_size (t ! nat vocab) div 2 in
         if nv \<noteq> sz then die ''unexpected DiffusionGemma vocabulary size''
         else
           bindE (dgt_vocab_bytes t (nat vocab) (Suc (nat vocab)) 0) (\<lambda>_.
           bindE (dgt_vocab_entries j t (nat vocab) nv (Suc (nat vocab)) [] 0) (\<lambda>(vs, maxlen).
             if length vs \<noteq> nv then die ''incomplete DiffusionGemma vocabulary''
             else
               let vs = qsort cmp_vocab vs in
               bindE (dgt_index nv vs (replicate nv None)) (\<lambda>by_id.
               let d = dgt_empty\<lparr>dt_vocab := vs, dt_maxlen := maxlen, dt_by_id := by_id\<rparr>;
                   nm = jt_size (t ! nat merges) in
               bindE (dgt_merges d j t (nat merges) nm (Suc (nat merges)) []) (\<lambda>ms.
                 if length ms \<noteq> nm then die ''incomplete tokenizer merges''
                 else dgt_specials (d\<lparr>dt_merge := qsort cmp_merge ms\<rparr>) j t (nat added)
                        (Suc (nat added))))))))
       (\<lambda>d. dgt_ok d \<and> length (dt_vocab d) = sz)))))"
      by (rule get, rule get, rule get, rule get, rule ensures_if) (simp, rule tables [OF t])
  qed
qed

section \<open>Properties\<close>

text \<open>
  C17. Loading a tokenizer, whatever the text of its file, either stops with one of the program's
  own errors, without a read outside an array, or yields tables in order: 262144 vocabulary
  entries sorted for the binary search, the ids \<open>0\<close> to \<open>262143\<close> each used once, sorted merges of
  ids in range, and special tokens that are non-empty vocabulary entries with their first bytes
  flagged.
\<close>

theorem dgt_load_in_order:
  "case dgt_load j of
     Inr d \<Rightarrow> dgt_ok d \<and> length (dt_vocab d) = 262144
   | Inl e \<Rightarrow> e \<noteq> Undefined \<and> e \<noteq> OutOfFuel"
  using dgt_load_sized_ok [of 262144 j]
  by (auto simp: dgt_load_def ensures_def defined_def split: sum.split)

end
