(* ===== verification/WorkspaceProofs.thy ===== *)
theory WorkspaceProofs
  imports Workspace JobSample
begin

text \<open>
  The plans of the workspaces are exact: a pass that has reserved what its plan says neither runs
  out of its arena nor leaves some of it unused, whatever its layers are, and the slots of the K/V
  fill theirs.
\<close>

section \<open>What requests need\<close>

text \<open>The bytes of requests from a multiple of 64 on, each from the next multiple.\<close>

definition up64 :: "nat \<Rightarrow> nat" where
  "up64 k = (k + 63) div 64 * 64"

fun need :: "request list \<Rightarrow> nat" where
  "need [] = 0"
| "need [r] = fst r * snd r"
| "need (r # rs) = up64 (fst r * snd r) + need rs"

lemma up64_bounds: "k \<le> up64 k" "up64 k \<le> k + 63" "64 dvd up64 k" "64 dvd k \<Longrightarrow> up64 k = k"
  unfolding up64_def by presburger+

lemma up64_le: "k \<le> up64 k + j"
  using up64_bounds(1) [of k] by linarith

lemma up64_add: "64 dvd u \<Longrightarrow> up64 (u + k) = u + up64 k"
proof -
  assume "64 dvd u"
  then obtain q where u: "u = 64 * q" by (rule dvdE)
  have "(64 * q + (k + 63)) div 64 = q + (k + 63) div 64" by (rule div_mult_self4) simp
  then show ?thesis unfolding up64_def u by (simp add: add.assoc)
qed

lemma need_Cons: "rs \<noteq> [] \<Longrightarrow> need (r # rs) = up64 (fst r * snd r) + need rs"
  by (cases rs) simp_all

lemma need_append: "rs \<noteq> [] \<Longrightarrow> ss \<noteq> [] \<Longrightarrow> need (rs @ ss) = up64 (need rs) + need ss"
proof (induction rs)
  case (Cons r rs)
  then show ?case using up64_bounds(3) [of "fst r * snd r"] by (cases "rs = []") (simp_all add: need_Cons up64_add)
qed simp

text \<open>Far from the limits of \<open>size_t\<close>.\<close>

abbreviation roomy :: "nat \<Rightarrow> bool" where
  "roomy k \<equiv> k \<le> 4611686018427387904"

lemma plan_step:
  assumes "roomy (up64 u + c * z)"
  shows "jb_workspace_plan u c z = Inr (up64 u + c * z)"
proof -
  have "u + 63 \<le> UINT64_MAX" using assms up64_bounds(1) [of u] by simp
  then show ?thesis using assms by (subst jb_workspace_plan_Inr) (simp_all add: up64_def)
qed

lemma plan_need:
  "64 dvd u \<Longrightarrow> roomy (u + need rs) \<Longrightarrow> rs \<noteq> [] \<Longrightarrow> plan u rs = Inr (u + need rs)"
proof -
  have gen: "roomy (up64 u + need rs) \<Longrightarrow> rs \<noteq> [] \<Longrightarrow> plan u rs = Inr (up64 u + need rs)" for u
  proof (induction rs arbitrary: u)
    case (Cons r rs)
    show ?case
    proof (cases "rs = []")
      case True
      then show ?thesis using Cons.prems by (simp add: plan_step)
    next
      case False
      let ?v = "up64 u + fst r * snd r"
      have v: "up64 ?v + need rs = up64 u + need (r # rs)" using False up64_add [OF up64_bounds(3)] by (simp add: need_Cons)
      moreover have "?v \<le> up64 ?v" by (rule up64_bounds(1))
      ultimately have "roomy ?v" "roomy (up64 ?v + need rs)" using Cons.prems(1) by simp_all
      with Cons.IH [of ?v] False v show ?thesis by (simp add: plan_step)
    qed
  qed simp
  then show "64 dvd u \<Longrightarrow> roomy (u + need rs) \<Longrightarrow> rs \<noteq> [] \<Longrightarrow> plan u rs = Inr (u + need rs)"
    using up64_bounds(4) by simp
qed

section \<open>What a function takes of an arena\<close>

text \<open>
  From the next multiple of 64: \<open>takes f k\<close> is that \<open>f\<close> keeps \<open>k\<close> bytes, \<open>costs f k\<close> that it
  gives all back, after having had \<open>k\<close> at the most.
\<close>

definition room :: "JBArena \<Rightarrow> nat \<Rightarrow> bool" where
  "room a k \<longleftrightarrow> up64 (arena_used a) + k \<le> arena_size a \<and> roomy (arena_size a) \<and> arena_used a \<le> arena_peak a"

definition reach :: "JBArena \<Rightarrow> nat \<Rightarrow> JBArena" where
  "reach a k = a\<lparr>arena_peak := max (arena_peak a) (up64 (arena_used a) + k)\<rparr>"

definition takes :: "(JBArena \<Rightarrow> JBArena result) \<Rightarrow> nat \<Rightarrow> bool" where
  "takes f k \<longleftrightarrow> (\<forall>a. room a k \<longrightarrow> f a = Inr ((reach a k)\<lparr>arena_used := up64 (arena_used a) + k\<rparr>))"

definition costs :: "(JBArena \<Rightarrow> JBArena result) \<Rightarrow> nat \<Rightarrow> bool" where
  "costs f k \<longleftrightarrow> (\<forall>a. room a k \<longrightarrow> f a = Inr (reach a k))"

definition aligned_costs :: "(JBArena \<Rightarrow> JBArena result) \<Rightarrow> nat \<Rightarrow> bool" where
  "aligned_costs f k \<longleftrightarrow> (\<forall>a. 64 dvd arena_used a \<longrightarrow> room a k \<longrightarrow> f a = Inr (reach a k))"

lemma takes_alloc:
  assumes "rs \<noteq> []"
  shows "takes (alloc_seq rs) (need rs)"
proof -
  have gen: "alloc_seq rs a = Inr (a\<lparr>arena_used := up64 (arena_used a) + need rs,
        arena_peak := max (arena_peak a) (up64 (arena_used a) + need rs)\<rparr>)"
    if "up64 (arena_used a) + need rs \<le> arena_size a" "roomy (arena_size a)" "rs \<noteq> []" for rs a
    using that
  proof (induction rs arbitrary: a)
    case (Cons r rs)
    let ?v = "up64 (arena_used a) + fst r * snd r"
    let ?a = "a\<lparr>arena_used := ?v, arena_peak := (if ?v > arena_peak a then ?v else arena_peak a)\<rparr>"
    have "?v \<le> up64 (arena_used a) + need (r # rs)"
      using up64_bounds(1) [of "fst r * snd r"] by (cases "rs = []") (simp_all add: need_Cons)
    with Cons.prems have v: "?v \<le> arena_size a" "roomy ?v" by simp_all
    moreover have "arena_used a \<le> UINT64_MAX" using v(2) up64_bounds(1) [of "arena_used a"] by simp
    ultimately have st: "\<exists>off. jb_arena_alloc a (fst r) (snd r) = Inr (off, ?a)"
      using jb_arena_alloc_as_planned [OF _ plan_step [of "arena_used a" "fst r" "snd r"]] by blast
    show ?case
    proof (cases "rs = []")
      case True
      with st show ?thesis by (auto simp: alloc_seq_def max_def)
    next
      case False
      have e: "up64 ?v + need rs = up64 (arena_used a) + need (r # rs)"
        using False up64_add [OF up64_bounds(3)] by (simp add: need_Cons)
      have "?v \<le> up64 ?v" by (rule up64_bounds(1))
      with e have "max (max (arena_peak a) ?v) (up64 ?v + need rs) = max (arena_peak a) (up64 ?v + need rs)" by simp
      moreover have "alloc_seq rs ?a = Inr (?a\<lparr>arena_used := up64 ?v + need rs,
          arena_peak := max (arena_peak ?a) (up64 ?v + need rs)\<rparr>)"
        using Cons.IH [of ?a] Cons.prems e False by simp
      moreover have "alloc_seq (r # rs) a = alloc_seq rs ?a" using st by (auto simp: alloc_seq_def bindE_assoc case_prod_unfold)
      ultimately show ?thesis using e by (simp add: max_def split: if_splits)
    qed
  qed simp
  show ?thesis unfolding takes_def using gen assms by (simp add: room_def reach_def)
qed

lemma alloc_seq_append: "bindE (alloc_seq rs a) (alloc_seq ss) = alloc_seq (rs @ ss) a"
proof (induction rs arbitrary: a)
  case (Cons r rs)
  have "alloc_seq (q # qs) a = bindE (jb_arena_alloc a (fst q) (snd q)) (\<lambda>(off, a). alloc_seq qs a)" for q qs a
    by (simp add: alloc_seq_def bindE_assoc case_prod_unfold)
  then show ?case by (simp add: bindE_assoc case_prod_unfold Cons)
qed (simp add: alloc_seq_def)

lemma takes_costs:
  assumes "takes f k" "costs g j"
  shows "costs (scoped (\<lambda>a. bindE (f a) g)) (up64 k + j)"
  unfolding costs_def
proof (intro allI impI)
  fix a assume a: "room a (up64 k + j)"
  let ?b = "(reach a k)\<lparr>arena_used := up64 (arena_used a) + k\<rparr>"
  have "f a = Inr ?b" using assms(1) a up64_bounds(1) [of k] by (simp add: takes_def room_def)
  moreover have u: "up64 (up64 (arena_used a) + k) = up64 (arena_used a) + up64 k" by (rule up64_add [OF up64_bounds(3)])
  then have "room ?b j" using a by (simp add: room_def reach_def)
  then have "g ?b = Inr (reach ?b j)" using assms(2) by (simp add: costs_def)
  moreover have "arena_used a \<le> up64 (arena_used a)" "k \<le> up64 k" by (rule up64_bounds(1))+
  ultimately show "scoped (\<lambda>a. bindE (f a) g) a = Inr (reach a (up64 k + j))"
    using u by (simp add: scoped_def jb_arena_mark_def jb_arena_reset_def reach_def add.assoc Let_def max_def)
qed

lemma takes_scoped: "takes f k \<Longrightarrow> costs (scoped f) k"
  by (simp add: up64_le [THEN leD] takes_def costs_def scoped_def jb_arena_mark_def jb_arena_reset_def reach_def Let_def)

lemma costs_scoped: "costs f k \<Longrightarrow> costs (scoped f) k"
  by (simp add: costs_def scoped_def jb_arena_mark_def jb_arena_reset_def reach_def Let_def)

lemma room_less: "room a k \<Longrightarrow> j \<le> k \<Longrightarrow> room a j"
  by (simp add: room_def)

lemma costs_then:
  assumes "costs f k" "costs g j"
  shows "costs (\<lambda>a. bindE (f a) g) (max k j)"
  unfolding costs_def
proof (intro allI impI)
  fix a assume a: "room a (max k j)"
  then have "room a k" by (rule room_less) simp
  then have "f a = Inr (reach a k)" using assms(1) by (simp add: costs_def)
  moreover have "room (reach a k) j" using room_less [OF a, of j] by (simp add: room_def reach_def le_max_iff_disj)
  then have "g (reach a k) = Inr (reach (reach a k) j)" using assms(2) by (simp add: costs_def)
  ultimately show "bindE (f a) g = Inr (reach a (max k j))" by (simp add: reach_def max_def)
qed

lemma aligned_costsD: "aligned_costs f k \<Longrightarrow> 64 dvd arena_used a \<Longrightarrow> room a k \<Longrightarrow> f a = Inr (reach a k)"
  by (simp add: aligned_costs_def)

lemma costs_aligned: "costs f k \<Longrightarrow> aligned_costs f k"
  by (simp add: costs_def aligned_costs_def)

lemma fold_max: "fold (\<lambda>x. max (k x)) xs v = max v (fold (\<lambda>x. max (k x)) xs (0 :: nat))"
proof (induction xs arbitrary: v)
  case (Cons x xs)
  show ?case using Cons [of "max (k x) v"] Cons [of "k x"] by (simp add: max.assoc max.commute max.left_commute)
qed simp

lemma costs_steps:
  "(\<And>x. x \<in> set xs \<Longrightarrow> costs (f x) (k x)) \<Longrightarrow> aligned_costs (steps f xs) (fold (\<lambda>x. max (k x)) xs 0)"
proof (induction xs)
  case Nil
  show ?case by (simp add: aligned_costs_def reach_def room_def up64_bounds(4))
next
  case (Cons x xs)
  let ?K = "fold (\<lambda>x. max (k x)) xs 0"
  have m: "fold (\<lambda>x. max (k x)) (x # xs) 0 = max (k x) ?K" using fold_max [of k xs "k x"] by simp
  show ?case unfolding aligned_costs_def m
  proof (intro allI impI)
    fix a assume d: "64 dvd arena_used a" and a: "room a (max (k x) ?K)"
    from a have "room a (k x)" by (rule room_less) simp
    then have "f x a = Inr (reach a (k x))" using Cons.prems by (simp add: costs_def)
    moreover have "room (reach a (k x)) ?K" using room_less [OF a, of ?K] by (simp add: room_def reach_def le_max_iff_disj)
    then have "steps f xs (reach a (k x)) = Inr (reach (reach a (k x)) ?K)"
      using Cons d by (simp add: aligned_costs_def reach_def)
    ultimately show "steps f (x # xs) a = Inr (reach a (max (k x) ?K))" by (simp add: reach_def max_def)
  qed
qed

section \<open>The passes\<close>

lemma up64_times: "64 dvd c \<Longrightarrow> up64 (n * c) = n * c" "64 dvd c \<Longrightarrow> up64 (c * n) = c * n"
  by (simp_all add: up64_bounds(4))

text \<open>The needs of a layer's parts; \<open>s\<close> is that of the tables of \<open>dg_attention\<close>.\<close>

definition table_need :: "bool \<Rightarrow> nat \<Rightarrow> nat" where
  "table_need wrapper segments = (if wrapper \<and> segments > 1 then up64 (up64 (segments * 8) + segments * 4) else 0)"

definition attention_need :: "bool \<Rightarrow> nat \<Rightarrow> nat \<Rightarrow> nat \<Rightarrow> nat" where
  "attention_need full n maxold seq = n * (if full then 73728 else 49152) + n * (maxold + seq) * 4"

definition ff_need :: "bool \<Rightarrow> nat \<Rightarrow> nat" where
  "ff_need nvfp4 n = n * (if nvfp4 then 197632 else 183552) + 2 * up64 (32 * n) + up64 (8 * n) + 22528"

lemma attention_rows:
  assumes "64 dvd q" "64 dvd k"
  shows "need [(n * q, 4), (n * k, 4), (n * k, 4), (n * q, 4), (n * r, 4)] = n * (q * 8 + k * 8) + n * r * 4"
proof -
  have "up64 (n * q * 4) = n * q * 4" "up64 (n * k * 4) = n * k * 4" using assms by (simp_all add: up64_bounds(4))
  then show ?thesis by (simp add: algebra_simps)
qed

lemma attention_costs: "costs (attention_arena l n maxold seq) (attention_need (dg_full l) n maxold seq)"
proof -
  let ?q = "DG_HEADS * dg_head_dim l" and ?k = "dg_kv_heads l * dg_head_dim l"
  have d: "64 dvd ?q" "64 dvd ?k"
    by (simp_all add: DG_HEADS_def dg_head_dim_def dg_kv_heads_def DG_FULL_HEAD_DIM_def DG_LOCAL_HEAD_DIM_def
        DG_FULL_KV_HEADS_def DG_LOCAL_KV_HEADS_def)
  have e: "?q * 8 + ?k * 8 = (if dg_full l then 73728 else 49152)"
    by (simp add: DG_HEADS_def dg_head_dim_def dg_kv_heads_def DG_FULL_HEAD_DIM_def DG_LOCAL_HEAD_DIM_def
        DG_FULL_KV_HEADS_def DG_LOCAL_KV_HEADS_def)
  have "costs (scoped (alloc_seq [(n * ?q, 4), (n * ?k, 4), (n * ?k, 4), (n * ?q, 4), (n * (maxold + seq), 4)]))
      (attention_need (dg_full l) n maxold seq)"
    using takes_scoped [OF takes_alloc, of "[(n * ?q, 4), (n * ?k, 4), (n * ?k, 4), (n * ?q, 4), (n * (maxold + seq), 4)]"]
    unfolding attention_rows [OF d] e attention_need_def by simp
  then show ?thesis unfolding attention_arena_def Let_def alloc_seq_append by simp
qed

lemma table_rows:
  "rs \<noteq> [] \<Longrightarrow> need ((if wrapper \<and> segments > 1 then [(segments, 8), (segments, 4)] else []) @ rs) =
     table_need wrapper segments + need rs"
  using need_append [of "[(segments, 8), (segments, 4)]" rs] by (simp add: table_need_def)

lemma attention_plan:
  assumes "roomy (table_need wrapper segments + attention_need True n old seq)"
  shows "dg_attention_workspace_bytes n old seq segments wrapper False = Inr (table_need wrapper segments + attention_need True n old seq)"
proof -
  let ?rs = "[(n * 8192, 4), (n * 1024, 4), (n * 1024, 4), (n * 8192, 4), (n * (old + seq), 4 :: nat)]"
  have rs: "need ?rs = attention_need True n old seq"
    by (subst attention_rows) (simp_all add: attention_need_def)
  show ?thesis using assms rs table_rows [of ?rs]
      plan_need [of 0 "(if wrapper \<and> segments > 1 then [(segments, 8), (segments, 4)] else []) @ ?rs"]
    by (simp add: dg_attention_workspace_bytes_def DG_HEADS_def DG_FULL_HEAD_DIM_def DG_FULL_KV_HEADS_def Let_def del: need.simps)
qed

lemma wrapper_costs:
  assumes "0 < segments"
  shows "costs (attention_wrapper_arena wrapper segments l n maxold seq)
     (table_need wrapper segments + attention_need (dg_full l) n maxold seq)"
proof (cases "wrapper \<and> segments > 1")
  case True
  have "takes (alloc_seq [(segments, 8), (segments, 4)]) (need [(segments, 8), (segments, 4)])" by (rule takes_alloc) simp
  from takes_costs [OF this attention_costs, of l n maxold seq] True show ?thesis
    by (simp add: attention_wrapper_arena_def table_need_def)
next
  case False
  with assms have w: "\<not> (wrapper \<and> segments \<noteq> 1)" by linarith
  have "attention_wrapper_arena wrapper segments l n maxold seq = scoped (attention_arena l n maxold seq)"
    unfolding attention_wrapper_arena_def if_not_P [OF w] bindE_simps by simp
  moreover have "table_need wrapper segments = 0" using False by (auto simp: table_need_def)
  ultimately show ?thesis using costs_scoped [OF attention_costs] by simp
qed


lemma up64_row: "up64 11264 = 11264"
  by (simp add: up64_def)

lemmas ff_sizes = DG_H_def DG_DENSE_def DG_EXPERTS_def DG_TOPK_def DG_EXPERT_PAIR_def DG_MOE_def up64_times up64_row ff_need_def

lemma ff_costs: "costs (ff_arena nvfp4 n) (ff_need nvfp4 n)"
proof -
  let ?rs = "[(n * DG_H, 4), (n * DG_DENSE, 4), (n * DG_DENSE, 4), (n * DG_H, 4), (n * DG_H, 4),
         (n * DG_H, 4), (n * DG_EXPERTS, 4)] @ [(n * DG_TOPK, 4), (n * DG_TOPK, 4)] @
      ([(n * DG_TOPK * DG_H, 4), (n * DG_H, 4), (n * DG_EXPERT_PAIR, 4), (n * DG_MOE, 4), (n * DG_H, 4)] @
         (if nvfp4 then [(n * DG_H, 4), (n * DG_MOE, 4)] else []) @ [(n * 2, 4)]) @ [(DG_H, 4), (DG_H, 4 :: nat)]"
  have "need ?rs = ff_need nvfp4 n" by (cases nvfp4) (simp_all add: ff_sizes)
  moreover have "ff_arena nvfp4 n = scoped (alloc_seq ?rs)"
    unfolding ff_arena_def alloc_seq_append bindE_assoc append_assoc by simp
  ultimately show ?thesis using takes_scoped [OF takes_alloc, of ?rs] by simp
qed

lemma ff_plan: "roomy (ff_need nvfp4 n) \<Longrightarrow> dg_ff_workspace_bytes nvfp4 False n = Inr (ff_need nvfp4 n)"
proof -
  let ?rs = "[(n * DG_H, 4), (n * DG_DENSE, 4), (n * DG_DENSE, 4), (n * DG_H, 4), (n * DG_H, 4), (n * DG_H, 4),
        (n * DG_EXPERTS, 4), (n * DG_TOPK, 4), (n * DG_TOPK, 4), (n * DG_TOPK * DG_H, 4), (n * DG_H, 4),
        (n * DG_EXPERT_PAIR, 4), (n * DG_MOE, 4), (n * DG_H, 4)] @
        (if nvfp4 then [(n * DG_H, 4)] else []) @ [(n * 2, 4)] @
        (if nvfp4 then [(n * DG_MOE, 4)] else []) @ [(DG_H, 4), (DG_H, 4 :: nat)]"
  have e: "need ?rs = ff_need nvfp4 n" by (cases nvfp4) (simp_all add: ff_sizes)
  assume "roomy (ff_need nvfp4 n)"
  then show ?thesis using plan_need [of 0 ?rs] unfolding e dg_ff_workspace_bytes_def by simp
qed

definition layer_need :: "bool \<Rightarrow> bool \<Rightarrow> nat \<Rightarrow> nat \<Rightarrow> nat \<Rightarrow> bool \<Rightarrow> nat" where
  "layer_need nvfp4 wrapper segments seq maxold full =
     segments * seq * 22528 + max (table_need wrapper segments + attention_need full (segments * seq) maxold seq) (ff_need nvfp4 (segments * seq))"

lemma layer_costs:
  assumes "0 < segments"
  shows "costs (layer_arena nvfp4 wrapper segments seq maxold l) (layer_need nvfp4 wrapper segments seq maxold (dg_full l))"
proof -
  let ?n = "segments * seq"
  have "up64 (need [(?n * DG_H, 4), (?n * DG_H, 4)]) = ?n * 22528" by (simp add: DG_H_def up64_times)
  moreover have "takes (alloc_seq [(?n * DG_H, 4), (?n * DG_H, 4)]) (need [(?n * DG_H, 4), (?n * DG_H, 4)])"
    by (rule takes_alloc) simp
  ultimately show ?thesis
    using takes_costs [OF _ costs_then [OF wrapper_costs [OF assms, of wrapper l ?n maxold seq] ff_costs [of nvfp4 ?n]]]
    unfolding layer_arena_def Let_def layer_need_def by metis
qed

text \<open>The layers together cost what one with full attention costs; there is one.\<close>

lemma layers_cost:
  assumes "0 < segments"
  shows "aligned_costs (steps (layer_arena nvfp4 wrapper segments seq maxold) [0..<DG_L]) (layer_need nvfp4 wrapper segments seq maxold True)"
proof -
  let ?k = "\<lambda>l. layer_need nvfp4 wrapper segments seq maxold (dg_full l)" and ?K = "layer_need nvfp4 wrapper segments seq maxold True"
  have le: "?k l \<le> ?K" for l
    unfolding layer_need_def attention_need_def by (intro add_left_mono max.mono) simp_all
  have upper: "fold (\<lambda>l. max (?k l)) ls v \<le> ?K" if "v \<le> ?K" for ls v
    using that by (induction ls arbitrary: v) (simp_all add: le)
  have lower: "?k l \<le> fold (\<lambda>l. max (?k l)) ls v" if "l \<in> set ls" for ls v l
    using that
  proof (induction ls arbitrary: v)
    case (Cons x ls)
    have "?k x \<le> fold (\<lambda>l. max (?k l)) (x # ls) v" using fold_max [of ?k ls "max (?k x) v"] by simp
    with Cons show ?case by auto
  qed simp
  have "dg_full 5" "5 \<in> set [0..<DG_L]" by (simp_all add: dg_full_def DG_FULL_EVERY_def DG_L_def del: upt_rec_numeral)
  with lower [where l = 5 and ls = "[0..<DG_L]" and v = 0] upper [where ls = "[0..<DG_L]" and v = 0] have "fold (\<lambda>l. max (?k l)) [0..<DG_L] 0 = ?K" by simp
  moreover have "aligned_costs (steps (layer_arena nvfp4 wrapper segments seq maxold) [0..<DG_L]) (fold (\<lambda>l. max (?k l)) [0..<DG_L] 0)"
    by (rule costs_steps) (rule layer_costs [OF assms])
  ultimately show ?thesis by simp
qed


section \<open>Scores\<close>

lemma need_le: "need rs \<le> sum_list (map (\<lambda>r. fst r * snd r + 63) rs)"
proof (induction rs)
  case (Cons r rs)
  then show ?case using up64_bounds(2) [of "fst r * snd r"] by (cases "rs = []") (simp_all add: need_Cons)
qed simp

lemma sum_sizes: "roomy (n + sum_list ns) \<Longrightarrow> dg_sum_sizes ns n = Inr (n + sum_list ns)"
  by (induction ns arbitrary: n) (simp_all add: jb_size_add_ok add.assoc)

definition few :: "'d DGJob \<Rightarrow> bool" where
  "few g \<longleftrightarrow> jo_nq g \<le> DG_MAX_QUESTIONS \<and> list_all (\<lambda>d. dw_nc d \<le> DG_CHOICE_LABELS) (jo_w g)"

definition score_need :: "'d DGJob \<times> nat \<Rightarrow> nat" where
  "score_need gr = need (dg_score_requests (fst gr) (snd gr) (sum_list (map dw_nc (jo_w (fst gr))))
     (fold (\<lambda>d m. max (dw_nc d) m) (jo_w (fst gr)) 0))"

lemma few_bounds:
  assumes "few g"
  shows "sum_list (map dw_nc (jo_w g)) \<le> 131072" "fold (\<lambda>d m. max (dw_nc d) m) (jo_w g) 0 \<le> 128"
proof -
  have "list_all (\<lambda>d. dw_nc d \<le> 128) w \<Longrightarrow> sum_list (map dw_nc w) \<le> length w * 128" for w :: "DecisionWork list"
    by (induction w) auto
  with assms show "sum_list (map dw_nc (jo_w g)) \<le> 131072"
    unfolding few_def DG_MAX_QUESTIONS_def DG_CHOICE_LABELS_def by fastforce
  have "list_all (\<lambda>d. dw_nc d \<le> 128) w \<Longrightarrow> v \<le> 128 \<Longrightarrow> fold (\<lambda>d m. max (dw_nc d) m) w v \<le> 128" for v and w :: "DecisionWork list"
    by (induction w arbitrary: v) auto
  with assms show "fold (\<lambda>d m. max (dw_nc d) m) (jo_w g) 0 \<le> 128"
    unfolding few_def DG_CHOICE_LABELS_def by simp
qed

lemma score_need_small: "few (fst gr) \<Longrightarrow> score_need gr \<le> 2000000000"
proof -
  assume f: "few (fst gr)"
  have "jo_nq (fst gr) \<le> 1024" using f by (simp add: few_def DG_MAX_QUESTIONS_def)
  then show ?thesis using few_bounds [OF f] need_le unfolding score_need_def
    by (rule_tac order_trans [OF need_le]) (simp add: dg_score_requests_def DG_H_def DG_VOCAB_def)
qed

lemma score_runs:
  assumes "few (fst gr)"
  shows "costs (score_arena gr) (score_need gr)" "dg_job_score_bytes (fst gr) (snd gr) = Inr (score_need gr)"
proof -
  let ?rs = "dg_score_requests (fst gr) (snd gr) (sum_list (map dw_nc (jo_w (fst gr)))) (fold (\<lambda>d m. max (dw_nc d) m) (jo_w (fst gr)) 0)"
  have n: "?rs \<noteq> []" by (simp add: dg_score_requests_def)
  have c: "dg_sum_sizes (map dw_nc (jo_w (fst gr))) 0 = Inr (sum_list (map dw_nc (jo_w (fst gr))))"
    using sum_sizes [of 0] few_bounds(1) [OF assms] by simp
  show "costs (score_arena gr) (score_need gr)"
    unfolding score_arena_def c bindE_simps score_need_def by (rule takes_scoped [OF takes_alloc [OF n]])
  show "dg_job_score_bytes (fst gr) (snd gr) = Inr (score_need gr)"
    unfolding dg_job_score_bytes_def c bindE_simps score_need_def
    using plan_need [of 0 ?rs] n score_need_small [OF assms] by (simp add: score_need_def)
qed

section \<open>The whole pass\<close>

lemma layer_plan:
  assumes "0 < segments" "0 < seq" "segments * seq \<le> JB_MAX_CTX" "maxold \<le> JB_MAX_CTX"
  shows "dg_workspace_bytes nvfp4 False (segments * seq) maxold seq segments wrapper = Inr (layer_need nvfp4 wrapper segments seq maxold True)"
    "layer_need nvfp4 wrapper segments seq maxold True \<le> 2000000000"
proof -
  define n where "n = segments * seq"
  have n: "0 < n" "n \<le> 4096" "segments \<le> n" "seq \<le> n" using assms(1-3) by (simp_all add: n_def JB_MAX_CTX_def)
  have "n * (maxold + seq) \<le> 4096 * 8192" using n assms(4) by (intro mult_le_mono) (simp_all add: JB_MAX_CTX_def)
  then have at: "attention_need True n maxold seq \<le> 500000000" using n by (simp add: attention_need_def)
  have tb: "table_need wrapper segments \<le> 60000"
    using up64_bounds(2) [of "segments * 8"] up64_bounds(2) [of "up64 (segments * 8) + segments * 4"] n by (simp add: table_need_def)
  have ff: "ff_need nvfp4 n \<le> 900000000"
    using up64_bounds(2) [of "32 * n"] up64_bounds(2) [of "8 * n"] n by (cases nvfp4) (simp_all add: ff_need_def)
  show small: "layer_need nvfp4 wrapper segments seq maxold True \<le> 2000000000"
    unfolding layer_need_def n_def [symmetric] using at tb ff n by simp
  have "plan 0 [(n * DG_H, 4), (n * DG_H, 4)] = Inr (n * 22528)"
    using plan_need [of 0 "[(n * DG_H, 4), (n * DG_H, 4)]"] n by (simp add: DG_H_def up64_times)
  moreover have "dg_attention_workspace_bytes n maxold seq segments wrapper False =
      Inr (table_need wrapper segments + attention_need True n maxold seq)"
    by (rule attention_plan) (use at tb in simp)
  moreover have "dg_ff_workspace_bytes nvfp4 False n = Inr (ff_need nvfp4 n)" by (rule ff_plan) (use ff in simp)
  ultimately show "dg_workspace_bytes nvfp4 False (segments * seq) maxold seq segments wrapper =
      Inr (layer_need nvfp4 wrapper segments seq maxold True)"
    using small unfolding dg_workspace_bytes_def n_def [symmetric] layer_need_def
    by (auto simp: jb_size_add_def max_def)
qed


lemma room_reserved:
  assumes "roomy required"
  shows "\<exists>a capacity'. jb_arena_reserve b capacity required = Inr (a, capacity') \<and> arena_size a = required \<and>
    arena_used a = 0 \<and> arena_peak a = 0 \<and> capacity' = max capacity required"
  using assms by (auto simp: jb_arena_reserve_def jb_arena_init_def jb_size_add_def bindE_Inr_iff max_def)

lemma pass_runs:
  assumes "\<not> ws_active w" "0 < segments" "0 < seq" "segments * seq \<le> JB_MAX_CTX" "maxold \<le> JB_MAX_CTX"
    "\<forall>gr \<in> set scores. few (fst gr)"
  shows "\<exists>w'. forward_pass nvfp4 wrapper segments seq maxold scores w = Inr w' \<and> \<not> ws_active w' \<and>
    ws_capacity w \<le> ws_capacity w' \<and> arena_size (ws_arena w') \<le> ws_capacity w' \<and>
    ws_kv_arena w' = ws_kv_arena w \<and> ws_control_arena w' = ws_control_arena w"
proof -
  let ?n = "segments * seq" and ?K = "layer_need nvfp4 wrapper segments seq maxold True"
  let ?T = "fold (\<lambda>gr. max (score_need gr)) scores 0"
  define R where "R = ?n * 11264 + max ?K ?T"
  have n: "?n \<le> 4096" using assms(4) by (simp add: JB_MAX_CTX_def)
  note layers = layer_plan [OF assms(2-5), of nvfp4 wrapper]
  have "\<forall>gr \<in> set gs. few (fst gr) \<Longrightarrow> v \<le> 2000000000 \<Longrightarrow> fold (\<lambda>gr. max (score_need gr)) gs v \<le> 2000000000" for gs v
    by (induction gs arbitrary: v) (auto simp: score_need_small)
  from this [of scores 0] assms(6) have T: "?T \<le> 2000000000" by simp
  then have R: "roomy R" using layers(2) n by (simp add: R_def max_def)
  have bytes: "collect (\<lambda>(g, r). dg_job_score_bytes g r) scores = Inr (map score_need scores)"
    unfolding collect_pure [symmetric]
    by (rule collect_cong) (use assms(6) in \<open>auto simp: case_prod_unfold score_runs(2)\<close>)
  have tail: "fold max (map score_need scores) 0 = ?T" by (simp add: fold_map comp_def)
  have out: "plan 0 [(?n * DG_H, 4)] = Inr (?n * 11264)" using plan_need [of 0 "[(?n * DG_H, 4)]"] n by (simp add: DG_H_def)
  have required: "dg_forward_workspace_bytes nvfp4 False ?n maxold seq segments wrapper ?T = Inr R"
  proof -
    have "(if ?K > ?T then ?K else ?T) = max ?K ?T" by (simp add: max_def)
    moreover have "jb_size_add (?n * 11264) (max ?K ?T) = Inr R" using R by (simp add: jb_size_add_ok R_def del: max.bounded_iff)
    ultimately show ?thesis unfolding dg_forward_workspace_bytes_def layers(1) out bindE_simps by (simp only:)
  qed
  from room_reserved [OF R, of "ws_arena w" "ws_capacity w"] obtain a c where
    a: "jb_arena_reserve (ws_arena w) (ws_capacity w) R = Inr (a, c)" "arena_size a = R" "arena_used a = 0" "arena_peak a = 0"
      "c = max (ws_capacity w) R" by blast
  let ?w = "w\<lparr>ws_arena := a, ws_capacity := c, ws_active := True\<rparr>"
  have beg: "dg_workspace_begin w R = Inr ?w" using assms(1) a(1) by (simp add: dg_workspace_begin_def)
  let ?b = "a\<lparr>arena_peak := ?n * 11264, arena_used := ?n * 11264\<rparr>"
  have "room a (need [(?n * DG_H, 4)])" using a R by (simp add: room_def R_def DG_H_def up64_def)
  with takes_alloc [of "[(?n * DG_H, 4)]"] a have b: "alloc_seq [(?n * DG_H, 4)] a = Inr ?b"
    by (simp add: takes_def reach_def DG_H_def up64_def)
  have u: "64 dvd arena_used ?b" "up64 (?n * 11264) = ?n * 11264" by (simp_all add: up64_times)
  have "room ?b ?K" "room (reach ?b ?K) ?T" using a R u by (simp_all add: room_def reach_def R_def le_max_iff_disj)
  moreover have sc: "aligned_costs (steps score_arena scores) ?T"
    by (rule costs_steps) (rule score_runs(1), use assms(6) in blast)
  ultimately have c: "steps (layer_arena nvfp4 wrapper segments seq maxold) [0..<DG_L] ?b = Inr (reach ?b ?K)"
    "steps score_arena scores (reach ?b ?K) = Inr (reach (reach ?b ?K) ?T)"
    using aligned_costsD [OF layers_cost [OF assms(2)] u(1)] aligned_costsD [OF sc, of "reach ?b ?K"] u(1)
    by (simp_all add: reach_def)
  let ?z = "w\<lparr>ws_arena := a\<lparr>arena_peak := R, arena_used := 0\<rparr>, ws_capacity := c, ws_active := False\<rparr>"
  have "dg_decode_end (?w\<lparr>ws_arena := reach (reach ?b ?K) ?T\<rparr>) = Inr ?z"
    using a(2) u(2) by (simp add: dg_decode_end_def jb_arena_reset_def dg_workspace_end_def reach_def R_def max_def)
  then have "forward_pass nvfp4 wrapper segments seq maxold scores w = Inr ?z"
    unfolding forward_pass_def bytes bindE_simps tail required beg using b c by simp
  then show ?thesis using a by simp
qed


section \<open>The K/V of a request\<close>

definition kv_requests :: "nat list \<Rightarrow> nat list \<Rightarrow> request list" where
  "kv_requests ls lens = concat (map (\<lambda>len. concat (map (\<lambda>l. [(len * dg_kv_width l, 4), (len * dg_kv_width l, 4)]) ls)) lens)"

lemma plan_append: "plan u (rs @ ss) = bindE (plan u rs) (\<lambda>v. plan v ss)"
  by (induction rs arbitrary: u) (simp_all add: bindE_assoc)

lemma kv_width_small: "dg_kv_width l \<le> 2048"
  by (simp add: dg_kv_width_def DG_FULL_KV_HEADS_def DG_LOCAL_KV_HEADS_def DG_FULL_HEAD_DIM_def DG_LOCAL_HEAD_DIM_def)

lemma kv_count: "len \<le> JB_MAX_CTX \<Longrightarrow> jb_size_mul len (dg_kv_width l) = Inr (len * dg_kv_width l)"
proof -
  assume "len \<le> JB_MAX_CTX"
  then have "len * dg_kv_width l \<le> JB_MAX_CTX * 2048" using kv_width_small by (intro mult_le_mono)
  then show ?thesis by (simp only: jb_size_mul_Inr) (simp add: JB_MAX_CTX_def)
qed

lemma kv_layers_plan:
  "len \<le> JB_MAX_CTX \<Longrightarrow> kv_layers len ls bytes = plan bytes (kv_requests ls [len])"
  by (induction ls arbitrary: bytes) (auto simp: kv_requests_def kv_count intro!: bindE_cong)

lemma kv_documents_plan:
  "list_all (\<lambda>len. len \<le> JB_MAX_CTX) lens \<Longrightarrow> kv_documents lens bytes = plan bytes (kv_requests [0..<DG_L] lens)"
proof (induction lens arbitrary: bytes)
  case (Cons len lens)
  have "kv_requests [0..<DG_L] (len # lens) = kv_requests [0..<DG_L] [len] @ kv_requests [0..<DG_L] lens" by (simp add: kv_requests_def)
  with Cons show ?case by (auto simp: plan_append kv_layers_plan intro!: bindE_cong)
qed (simp add: kv_requests_def)

lemma alloc_seq_Cons: "alloc_seq (r # rs) a = bindE (jb_arena_alloc a (fst r) (snd r)) (\<lambda>(off, a). alloc_seq rs a)"
  by (simp add: alloc_seq_def bindE_assoc case_prod_unfold)

lemma kv_bind_layers_seq:
  "len \<le> JB_MAX_CTX \<Longrightarrow> alloc_seq (kv_requests ls [len]) a = Inr a' \<Longrightarrow>
     \<exists>kv. kv_bind_layers a len ls = Inr (kv, a') \<and> length kv = length ls"
proof (induction ls arbitrary: a)
  case (Cons l ls)
  then obtain k b v c where "jb_arena_alloc a (len * dg_kv_width l) 4 = Inr (k, b)" "jb_arena_alloc b (len * dg_kv_width l) 4 = Inr (v, c)"
    "alloc_seq (kv_requests ls [len]) c = Inr a'"
    by (auto simp: kv_requests_def alloc_seq_Cons bindE_Inr_iff)
  with Cons.IH [of c] Cons.prems(1) show ?case by (auto simp: kv_count)
qed (simp add: kv_requests_def alloc_seq_def)

lemma kv_bind_seq:
  "list_all (\<lambda>len. len \<le> JB_MAX_CTX) lens \<Longrightarrow> alloc_seq (kv_requests [0..<DG_L] lens) a = Inr a' \<Longrightarrow>
     \<exists>kv. kv_bind_documents a lens = Inr (kv, a') \<and> length kv = length lens \<and> list_all (\<lambda>d. length d = DG_L) kv"
proof (induction lens arbitrary: a)
  case (Cons len lens)
  have "kv_requests [0..<DG_L] (len # lens) = kv_requests [0..<DG_L] [len] @ kv_requests [0..<DG_L] lens" by (simp add: kv_requests_def)
  with Cons.prems(2) obtain b where b: "alloc_seq (kv_requests [0..<DG_L] [len]) a = Inr b" "alloc_seq (kv_requests [0..<DG_L] lens) b = Inr a'"
    by (auto simp: alloc_seq_append [symmetric] bindE_Inr_iff)
  from kv_bind_layers_seq [OF _ b(1)] Cons.prems(1) obtain kv where "kv_bind_layers a len [0..<DG_L] = Inr (kv, b)" "length kv = DG_L" by auto
  with Cons.IH [OF _ b(2)] Cons.prems(1) show ?case by auto
qed (simp add: kv_requests_def alloc_seq_def)

text \<open>
  The K/V of at most 4096 documents of at most 4096 tokens each: the slab is planned, its slots
  fill it, and it is found full at the end.
\<close>

theorem kv_plan_exact:
  assumes "\<not> ws_kv_active w" "lengths \<noteq> []" "length lengths \<le> JB_MAX_CTX" "list_all (\<lambda>len. len \<le> JB_MAX_CTX) lengths"
  shows "\<exists>kv w' w''. dg_worker_kv_begin w lengths = Inr (kv, w') \<and> length kv = length lengths \<and>
    list_all (\<lambda>d. length d = DG_L) kv \<and> dg_worker_kv_end w' = Inr w'' \<and> \<not> ws_kv_active w''"
proof -
  let ?rs = "kv_requests [0..<DG_L] lengths"
  have l: "length lengths \<le> 4096" "list_all (\<lambda>len. len \<le> 4096) lengths" using assms(3,4) by (simp_all add: JB_MAX_CTX_def)
  have "sum_list (map (\<lambda>r. fst r * snd r + 63) (kv_requests ls lens)) \<le> length lens * (length ls * 80000000)"
    if "list_all (\<lambda>len. len \<le> 4096) lens" for ls lens
  proof -
    have one: "sum_list (map (\<lambda>r. fst r * snd r + 63) (concat (map (\<lambda>l. [(len * dg_kv_width l, 4), (len * dg_kv_width l, 4)]) ls)))
        \<le> length ls * 80000000" if "len \<le> 4096" for len
    proof (induction ls)
      case (Cons l ls)
      have "len * dg_kv_width l \<le> 4096 * 2048" by (intro mult_le_mono that kv_width_small)
      with Cons show ?case by simp
    qed simp
    show ?thesis using that
    proof (induction lens)
      case (Cons len lens)
      then show ?case using one [of len] by (simp add: kv_requests_def)
    qed (simp add: kv_requests_def)
  qed
  from order_trans [OF need_le this [OF l(2)], of "[0..<DG_L]"] l(1)
  have R: "roomy (need ?rs)" by (simp add: DG_L_def del: upt_rec_numeral)
  have "[0..<DG_L] = 0 # [1..<DG_L]" by (simp add: DG_L_def upt_conv_Cons del: upt_rec_numeral)
  then have ne: "?rs \<noteq> []" using assms(2) by (cases lengths) (simp_all add: kv_requests_def)
  have bytes: "dg_kv_bytes lengths = Inr (need ?rs)"
    using plan_need [of 0 ?rs] R ne assms(2) kv_documents_plan [OF assms(4), of 0] by (simp add: dg_kv_bytes_def Suc_le_eq)
  from room_reserved [OF R, of "ws_kv_arena w" "ws_kv_capacity w"] obtain a c where
    a: "jb_arena_reserve (ws_kv_arena w) (ws_kv_capacity w) (need ?rs) = Inr (a, c)" "arena_size a = need ?rs" "arena_used a = 0" "arena_peak a = 0"
    by blast
  let ?b = "a\<lparr>arena_used := need ?rs, arena_peak := need ?rs\<rparr>"
  have "room a (need ?rs)" using a R by (simp add: room_def up64_def)
  with takes_alloc [OF ne] a have "alloc_seq ?rs a = Inr ?b" by (simp add: takes_def reach_def up64_def)
  from kv_bind_seq [OF assms(4) this] obtain kv where kv: "kv_bind_documents a lengths = Inr (kv, ?b)" "length kv = length lengths"
    "list_all (\<lambda>d. length d = DG_L) kv" by blast
  from kv(1) a(2) have "dg_kv_bind a lengths = Inr (kv, ?b)" by (simp add: dg_kv_bind_def)
  then have "dg_worker_kv_begin w lengths = Inr (kv, w\<lparr>ws_kv_arena := ?b, ws_kv_capacity := c, ws_kv_active := True\<rparr>)"
    using assms(1) bytes a(1) by (simp add: dg_worker_kv_begin_def)
  with kv(2,3) a(2) show ?thesis by (simp add: dg_worker_kv_end_def)
qed

section \<open>Property\<close>

text \<open>
  C36. A pass of up to 4096 tokens, in sequences of equal length over at most 4096 rows of K/V each,
  runs from its plan to its check on the workspace that it reserves: no request of its layers, or
  of the scores that follow, finds too little room, and at the end the arena is empty and its peak
  is exactly the plan; the workspace is free again, and has not shrunk.
\<close>

theorem pass_plan_exact:
  assumes "\<not> ws_active w" "0 < segments" "0 < seq" "segments * seq \<le> JB_MAX_CTX" "maxold \<le> JB_MAX_CTX"
    "\<forall>(g, r) \<in> set scores. jo_nq g \<le> DG_MAX_QUESTIONS \<and> list_all (\<lambda>d. dw_nc d \<le> DG_CHOICE_LABELS) (jo_w g)"
  shows "\<exists>w'. forward_pass nvfp4 wrapper segments seq maxold scores w = Inr w' \<and> \<not> ws_active w' \<and>
    ws_capacity w \<le> ws_capacity w' \<and> arena_size (ws_arena w') \<le> ws_capacity w' \<and>
    ws_kv_arena w' = ws_kv_arena w \<and> ws_control_arena w' = ws_control_arena w"
  by (rule pass_runs) (use assms in \<open>auto simp: few_def\<close>)

theorem pass_plan_exact_witness:
  "\<exists>w'. forward_pass True True 3 32 1000 ([] :: (int DGJob \<times> nat) list)
     (dg_workspace_destroy undefined) = Inr w' \<and> \<not> ws_active w'"
  using pass_plan_exact [of "dg_workspace_destroy undefined" 3 32 1000 "[] :: (int DGJob \<times> nat) list" True True]
  by (auto simp: dg_workspace_destroy_def JB_MAX_CTX_def)

end
