(* ===== verification/Spec2Isabelle.thy ===== *)
theory Spec2Isabelle
  imports AllocProofs Batches RoundTrip TensorBounds TokenLoad WorkspaceProofs
begin

text \<open>
  Jev Bush reads the probabilities of given answers off a diffusion language model. The program is
  \<open>jb.c\<close>, an amalgamation of the files \<open>src/*.inc\<close>; the map of this development names its lines.
  A caller gives a request in JSON, or a typed schema and inputs; the program parses it, makes a
  prompt and answer canvases with one slot per question, runs the model over prompt and canvases,
  and turns the scores of the candidates' tokens into probabilities.

  \<^bold>\<open>The parts, in the order of the code.\<close>

  Foundation (\<open>foundation.inc\<close>). \<open>Prelude\<close> has the machine types and the values that stand for the
  program's non-local exits: every call of \<open>die\<close> is \<open>Inl (Die status message)\<close>, an access outside
  an array is \<open>Undefined\<close>, and a loop that has run out of fuel is \<open>OutOfFuel\<close>; \<open>bindE\<close> threads them.
  \<open>Utf8\<close> is \<open>put_utf8\<close> and \<open>next_cp\<close>; \<open>Order\<close> the comparisons, sort and search of the C library;
  \<open>Sizes\<close> the constants; \<open>Arena\<close> the checked sizes and the bump allocator, with the locale
  \<open>planned_allocator\<close> for a plan and an allocator that agree; \<open>Alloc\<close> the tracked allocations and the
  error frames (\<open>jb_frame_enter\<close>, \<open>jb_frame_fail\<close>, cleanups), over a store of addresses, and
  \<open>AllocProofs\<close> what a failed call leaves.

  JSON (\<open>json.inc\<close>). \<open>Json\<close> is the tokenizer and its queries. \<open>JsonTree\<close> says what a token array
  means, \<open>JsonQuery\<close> and \<open>JsonSafe\<close> that parsing and queries are total, in bounds, and the lookup in
  the object's members; \<open>JsonValue\<close>, \<open>Canonical\<close> and \<open>RoundTrip\<close> are about the values, the canonical
  form and the strings that are written.

  Model files (\<open>model.inc\<close>). \<open>Safetensors\<close> reads the header of a shard and checks a model's tensors
  (\<open>TensorBounds\<close>: they lie inside the file); \<open>Vocab\<close>, \<open>BpeHeap\<close> and \<open>Bpe\<close> are the tokenizer's tables,
  the queue of merges, an interpretation of the locale of a priority queue, and byte-pair encoding;
  \<open>TokenText\<close>, \<open>TokenSafe\<close> and \<open>TokenLoad\<close> say that tokens spell their text, that encoding is total,
  and that loaded tables are in order. \<open>Mersenne\<close> is the generator of the random canvases.

  Kernels (\<open>kernels_scalar.inc\<close>). \<open>Kernels\<close> has the portable kernels over a record \<open>fpu\<close> of the
  operations of \<open>float\<close> and \<open>double\<close>; \<open>KernelProofs\<close> their equivalences, \<open>Exact\<close> the rounding of the
  number formats under exact arithmetic.

  Engine (\<open>engine.inc\<close>). \<open>Forward\<close> is the passes: attention over segments with cached K/V, routing
  and experts, layers, prefill, suffixes, decoding. \<open>RowWise\<close>, \<open>FfRows\<close> and \<open>FfToken\<close> show that rows do
  not mix, \<open>TopK\<close> what the router chooses (locale \<open>float_order\<close>, interpreted on exact and on flat
  floats), \<open>Segments\<close> that canvases and documents side by side have what they have alone, \<open>Prefix\<close>
  that cached rows are those of a full prefill, \<open>Padding\<close> that padding is unseen. \<open>Workspace\<close> is the
  arenas of a session and what every pass takes of them, \<open>WorkspaceProofs\<close> that their plans are exact.

  Decisions (\<open>decision.inc\<close>). \<open>JsonWriter\<close> and \<open>Format\<close> write, \<open>Sha256\<close> is the digest that seeds the
  canvases, \<open>Scores\<close> the softmax and the confidence, \<open>Questions\<close> requests and questions (\<open>QuestionSafe\<close>:
  within their limits), \<open>Job\<close> the preparation of a job (\<open>JobProofs\<close>: canvases, slots and label tokens are
  exact; \<open>JobSample\<close>: a concrete one), \<open>Execute\<close> its reads, the prefix cache and the microbatch (\<open>Reads\<close>:
  reads that share a decode are as good as one after the other; \<open>Cache\<close>: the cache is transparent;
  \<open>Microbatch\<close>: every job of a microbatch ends as it ends alone),
  \<open>Answers\<close> the two forms of the answers, and that they agree.

  Interface (\<open>api.inc\<close>). \<open>Api\<close> is sessions, the four decide calls, typed schemas and the references to
  a model; \<open>Sessions\<close> shows that every call returns with a free session, and that the answers of a
  session do not depend on its past; \<open>Batches\<close> that a batch call gives every input the answers it
  has alone.

  \<^bold>\<open>Conventions.\<close> C structures are records, enumerations datatypes. Sizes and counters are natural
  numbers with the overflow tests of the code written out; where wrap-around matters they are words
  (\<open>Utf8\<close>, \<open>Sha256\<close>, \<open>Mersenne\<close>, seeds). A C string is its bytes without the NUL. A matrix of
  activations is a list of rows. Library code is a parameter: floats and mathematics (\<open>fpu\<close>,
  \<open>arith\<close>), the text of a double (\<open>printing\<close>), clock readings (\<open>timing\<close>), the bytes of files.

  \<^bold>\<open>Bounds and fuel.\<close> The parser's recursion has the depth limit of the code, and is proved total with
  it. The rejections of the random generator have fuel, for which no bound exists; \<open>OutOfFuel\<close> is
  distinct from every result. The reads of a job have as many rounds as reads at the most, which is
  proved to be enough. Other loops terminate by a measure. The equivalences of the passes assume
  that no token is routed to an expert twice, which \<open>TopK\<close> proves for finite logits other than the
  router's initial value, and whose failure otherwise it exhibits; they hold for every \<open>fpu\<close>,
  so for IEEE arithmetic in the order of the code.

  \<^bold>\<open>What the model found.\<close> A string as the value of \<open>__metadata__\<close> in a shard's header is written past
  the end of the slab of names (\<open>TensorBounds\<close>), and routing can keep an initial expert beside the same expert chosen (\<open>TopK\<close>).

  \<^bold>\<open>Not modelled.\<close> The CUDA backend and the accelerator's forms of the passes, and the SIMD kernels with
  their dispatch: intrinsics and a driver whose definitions are not part of the repository. Opening
  and mapping files, locales and the printing of doubles: system and library calls. Out-of-memory is
  modelled where ownership is the subject (\<open>Alloc\<close>), not in the passes. Profiling and times. The log
  callback, which may reenter the interface, and concurrent calls of several sessions, which share
  the immutable model only; a second call of a busy session is modelled as its refusal. The command
  line, benchmarks, self-tests, fuzz drivers and examples.
\<close>

end
